(* ===== verification/Zkhc_Prelude.thy ===== *)
theory Zkhc_Prelude
  imports Main "HOL-Library.Word" "HOL-Library.AList"
begin

text \<open>
  Shared vocabulary of the development.

  \<^item> The machine types of the Go sources: \<open>uint64\<close>, \<open>uint32\<close> and byte slices. Go's
    \<open>int\<close> and \<open>big.Int\<close> are mathematical integers here.
  \<^item> Failures as values: a Go panic, and running out of the call depth given to the
    functions that call each other recursively.
  \<^item> Go maps. A map is an association list with distinct keys; the order of the list is the
    order in which a \<open>range\<close> loop visits it. The interface \<open>go_map\<close> states what the
    components rely on and is interpreted on the association list operations.
  \<^item> Generic lemmas on lists that several components share.
\<close>

named_theorems go_map_simps \<open>laws of the map operations\<close>

type_synonym u64 = "64 word"
type_synonym u32 = "32 word"
type_synonym bytes = "8 word list"

section \<open>Failures\<close>

datatype failure = Panic string | OutOfDepth

type_synonym 'a res = "failure + 'a"

definition bind_res :: "'a res \<Rightarrow> ('a \<Rightarrow> 'b res) \<Rightarrow> 'b res" where
  "bind_res m k = (case m of Inl e \<Rightarrow> Inl e | Inr x \<Rightarrow> k x)"

lemma bind_res_simps [simp]:
  "bind_res (Inl e) k = Inl e"
  "bind_res (Inr x) k = k x"
  by (simp_all add: bind_res_def)

lemma bind_res_Inr_iff:
  "bind_res m k = Inr y \<longleftrightarrow> (\<exists>x. m = Inr x \<and> k x = Inr y)"
  by (cases m) auto

lemma bind_res_InrE:
  assumes "bind_res m k = Inr y"
  obtains x where "m = Inr x" "k x = Inr y"
  using assms by (auto simp: bind_res_Inr_iff)

text \<open>A loop over a slice whose body may fail: it stops at the first failure.\<close>

fun fold_res :: "('x \<Rightarrow> 's \<Rightarrow> 's res) \<Rightarrow> 'x list \<Rightarrow> 's \<Rightarrow> 's res" where
  "fold_res f [] s = Inr s"
| "fold_res f (x # xs) s = bind_res (f x s) (fold_res f xs)"

text \<open>What holds of the result when a computation returns; the rules follow the program text.\<close>

definition post :: "('a \<Rightarrow> bool) \<Rightarrow> 'a res \<Rightarrow> bool" where
  "post Q m \<longleftrightarrow> (\<forall>x. m = Inr x \<longrightarrow> Q x)"

lemma post_simps [simp]: "post Q (Inl e)" "post Q (Inr x) = Q x"
  by (simp_all add: post_def)

lemma postD: "post Q m \<Longrightarrow> m = Inr x \<Longrightarrow> Q x"
  by (simp add: post_def)

lemma post_bind: "post R m \<Longrightarrow> (\<And>x. R x \<Longrightarrow> post Q (k x)) \<Longrightarrow> post Q (bind_res m k)"
  by (cases m) (simp_all add: post_def)

lemma post_if: "(P \<Longrightarrow> post Q a) \<Longrightarrow> (\<not> P \<Longrightarrow> post Q b) \<Longrightarrow> post Q (if P then a else b)"
  by simp

lemma post_mono: "post R m \<Longrightarrow> (\<And>x. R x \<Longrightarrow> Q x) \<Longrightarrow> post Q m"
  by (simp add: post_def)

lemma post_fold_res:
  assumes "P s" and "\<And>x s. x \<in> set xs \<Longrightarrow> P s \<Longrightarrow> post P (body x s)"
  shows "post P (fold_res body xs s)"
  using assms
proof (induction xs arbitrary: s)
  case (Cons x xs)
  show ?case unfolding fold_res.simps
    by (rule post_bind [where R = P]) (use Cons in auto)
qed simp

section \<open>Go maps\<close>

text \<open>
  What the components rely on of a map: what a lookup finds after a store and after a
  \<open>delete\<close>, which keys are there, and that the keys stay distinct.
\<close>

locale go_map =
  fixes empty :: 'm
    and get :: "'m \<Rightarrow> 'k \<Rightarrow> 'v option"
    and put :: "'k \<Rightarrow> 'v \<Rightarrow> 'm \<Rightarrow> 'm"
    and del :: "'k \<Rightarrow> 'm \<Rightarrow> 'm"
    and keys :: "'m \<Rightarrow> 'k list"
  assumes get_empty: "get empty k = None"
    and get_put: "get (put k v m) k' = (if k' = k then Some v else get m k')"
    and get_del: "get (del k m) k' = (if k' = k then None else get m k')"
    and set_keys: "set (keys m) = {k. get m k \<noteq> None}"
    and distinct_put: "distinct (keys m) \<Longrightarrow> distinct (keys (put k v m))"
    and distinct_del: "distinct (keys m) \<Longrightarrow> distinct (keys (del k m))"
begin

lemma finite_dom: "finite {k. get m k \<noteq> None}"
  unfolding set_keys [symmetric] by simp

lemma keys_put: "set (keys (put k v m)) = insert k (set (keys m))"
  by (auto simp: set_keys get_put)

lemma keys_del: "set (keys (del k m)) = set (keys m) - {k}"
  by (auto simp: set_keys get_del)

lemma length_keys: "distinct (keys m) \<Longrightarrow> length (keys m) = card {k. get m k \<noteq> None}"
  using distinct_card [of "keys m"] by (simp add: set_keys)

text \<open>A \<open>range\<close> loop that deletes every key of a list removes exactly these keys.\<close>

lemma get_del_all: "get (fold del ks m) k = (if k \<in> set ks then None else get m k)"
  by (induction ks arbitrary: m) (auto simp: get_del)

lemma distinct_del_all: "distinct (keys m) \<Longrightarrow> distinct (keys (fold del ks m))"
  by (induction ks arbitrary: m) (auto simp: distinct_del)

text \<open>A \<open>range\<close> loop that copies entries into a map.\<close>

lemma get_put_all_notin:
  "k \<notin> fst ` set kvs \<Longrightarrow> get (fold (\<lambda>(k, v). put k v) kvs m) k = get m k"
  by (induction kvs arbitrary: m) (auto simp: get_put)

end

definition mget :: "('k \<times> 'v) list \<Rightarrow> 'k \<Rightarrow> 'v option" where
  "mget m k = map_of m k"

definition mput :: "'k \<Rightarrow> 'v \<Rightarrow> ('k \<times> 'v) list \<Rightarrow> ('k \<times> 'v) list" where
  "mput k v m = AList.update k v m"

definition mdel :: "'k \<Rightarrow> ('k \<times> 'v) list \<Rightarrow> ('k \<times> 'v) list" where
  "mdel k m = AList.delete k m"

definition mkeys :: "('k \<times> 'v) list \<Rightarrow> 'k list" where
  "mkeys m = map fst m"

definition mhas :: "('k \<times> 'v) list \<Rightarrow> 'k \<Rightarrow> bool" where
  "mhas m k = (mget m k \<noteq> None)"

interpretation am: go_map "[]" mget mput mdel mkeys
proof
  fix m :: "('k \<times> 'v) list" and k k' :: 'k and v :: 'v
  show "mget [] k = (None :: 'v option)" by (simp add: mget_def)
  show "mget (mput k v m) k' = (if k' = k then Some v else mget m k')"
    by (simp add: mget_def mput_def update_conv')
  show "mget (mdel k m) k' = (if k' = k then None else mget m k')"
    by (simp add: mget_def mdel_def delete_conv')
  show "set (mkeys m) = {k. mget m k \<noteq> None}"
    by (simp add: mget_def mkeys_def dom_map_of_conv_image_fst [symmetric] dom_def)
  show "distinct (mkeys m) \<Longrightarrow> distinct (mkeys (mput k v m))"
    by (simp add: mkeys_def mput_def distinct_update)
  show "distinct (mkeys m) \<Longrightarrow> distinct (mkeys (mdel k m))"
    by (simp add: mkeys_def mdel_def distinct_delete)
qed

lemmas am_get [simp, go_map_simps] = am.get_empty am.get_put am.get_del
lemmas am_keys [go_map_simps] = am.keys_put am.keys_del am.get_del_all
lemmas am_distinct [simp, intro] = am.distinct_put am.distinct_del am.distinct_del_all

lemma mkeys_Nil [simp]: "mkeys [] = []"
  by (simp add: mkeys_def)

lemma mhas_iff: "mhas m k \<longleftrightarrow> k \<in> set (mkeys m)"
  by (simp add: mhas_def am.set_keys)

lemma mget_SomeI: "distinct (mkeys m) \<Longrightarrow> (k, v) \<in> set m \<Longrightarrow> mget m k = Some v"
  by (simp add: mget_def mkeys_def)

lemma mget_SomeD: "mget m k = Some v \<Longrightarrow> (k, v) \<in> set m"
  by (simp add: mget_def map_of_SomeD)

lemma mget_Some_iff: "distinct (mkeys m) \<Longrightarrow> mget m k = Some v \<longleftrightarrow> (k, v) \<in> set m"
  by (blast intro: mget_SomeI mget_SomeD)

text \<open>The entries that a \<open>range\<close> loop with a \<open>delete\<close> leaves.\<close>

definition mdel_if :: "('k \<Rightarrow> bool) \<Rightarrow> ('k \<times> 'v) list \<Rightarrow> ('k \<times> 'v) list" where
  "mdel_if P m = fold mdel (filter P (mkeys m)) m"

lemma mget_mdel_if [simp, go_map_simps]:
  "mget (mdel_if P m) k = (if P k then None else mget m k)"
  by (auto simp: mdel_if_def am.get_del_all am.set_keys)

lemma distinct_mdel_if [simp, intro]: "distinct (mkeys m) \<Longrightarrow> distinct (mkeys (mdel_if P m))"
  by (simp add: mdel_if_def)

lemma mkeys_mdel_if [simp, go_map_simps]: "set (mkeys (mdel_if P m)) = {k \<in> set (mkeys m). \<not> P k}"
  by (auto simp: am.set_keys)

section \<open>Counting\<close>

text \<open>
  The quorum loops count the messages of a slice that satisfy a condition. When the senders
  are distinct the count is the number of senders.
\<close>

definition count_if :: "('a \<Rightarrow> bool) \<Rightarrow> 'a list \<Rightarrow> int" where
  "count_if P xs = int (length (filter P xs))"

lemma count_if_senders:
  "distinct (map snd_of xs) \<Longrightarrow> count_if P xs = int (card (snd_of ` {x \<in> set xs. P x}))"
proof -
  assume d: "distinct (map snd_of xs)"
  have "distinct (map snd_of (filter P xs))"
    using d by (rule distinct_map_filter)
  then have "card (set (map snd_of (filter P xs))) = length (filter P xs)"
    using distinct_card by fastforce
  then show ?thesis by (simp add: count_if_def)
qed

lemma count_if_mono: "(\<And>x. x \<in> set xs \<Longrightarrow> P x \<Longrightarrow> Q x) \<Longrightarrow> count_if P xs \<le> count_if Q xs"
  by (induction xs) (auto simp: count_if_def)

lemma count_if_le_length: "count_if P xs \<le> int (length xs)"
  by (simp add: count_if_def)

section \<open>Big-endian numbers\<close>

text \<open>\<open>binary.BigEndian.Uint32\<close> on the first four bytes of a slice.\<close>

definition be_uint32 :: "bytes \<Rightarrow> nat" where
  "be_uint32 bs = foldl (\<lambda>n b. n * 256 + unat b) 0 (take 4 bs)"

end
