(* ===== verification/Interpolation.thy ===== *)
theory Interpolation
  imports Main
begin

text \<open>
  Interpolation at zero over a field, the mathematics behind the threshold scheme of
  \<open>hibe/dhibe_Cap.go\<close>. A polynomial function with at most \<open>n\<close> coefficients is recovered at
  zero from its values at \<open>n\<close> distinct points as the sum of the values weighted with the
  Lagrange coefficients.
\<close>

section \<open>Polynomial functions\<close>

fun polyf :: "nat \<Rightarrow> ('z::field \<Rightarrow> 'z) \<Rightarrow> bool" where
  "polyf 0 f = (\<forall>x. f x = 0)"
| "polyf (Suc n) f = (\<exists>c g. polyf n g \<and> (\<forall>x. f x = c + x * g x))"

lemma polyf_zero: "polyf n (\<lambda>_. 0)"
proof (induction n)
  case (Suc n)
  then show ?case by (auto intro!: exI [of _ 0] exI [of _ "\<lambda>_. 0"])
qed simp

lemma polyf_cong: "polyf n f \<Longrightarrow> (\<And>x. f x = g x) \<Longrightarrow> polyf n g"
  by (cases n) auto

lemma polyf_const: "polyf (Suc n) (\<lambda>_. c)"
  using polyf_zero [of n] by (auto intro!: exI [of _ c])

lemma polyf_add: "polyf n f \<Longrightarrow> polyf n g \<Longrightarrow> polyf n (\<lambda>x. f x + g x)"
proof (induction n arbitrary: f g)
  case (Suc n)
  from Suc.prems obtain c f' d g' where
    "polyf n f'" "\<And>x. f x = c + x * f' x" "polyf n g'" "\<And>x. g x = d + x * g' x"
    by auto
  moreover from this have "polyf n (\<lambda>x. f' x + g' x)" by (intro Suc.IH)
  ultimately show ?case by (auto simp: algebra_simps intro!: exI [of _ "c + d"])
qed simp

lemma polyf_scale: "polyf n f \<Longrightarrow> polyf n (\<lambda>x. a * f x)"
proof (induction n arbitrary: f)
  case (Suc n)
  from Suc.prems obtain c f' where "polyf n f'" "\<And>x. f x = c + x * f' x" by auto
  moreover from this have "polyf n (\<lambda>x. a * f' x)" by (intro Suc.IH)
  ultimately show ?case by (auto simp: algebra_simps intro!: exI [of _ "a * c"])
qed simp

lemma polyf_Suc: "polyf n f \<Longrightarrow> polyf (Suc n) f"
proof (induction n arbitrary: f)
  case 0
  then show ?case by (intro polyf_cong [OF polyf_zero]) simp
next
  case (Suc n)
  from Suc.prems obtain c g where "polyf n g" "\<And>x. f x = c + x * g x" by auto
  then show ?case using Suc.IH [of g] by auto
qed

lemma polyf_le: "polyf n f \<Longrightarrow> n \<le> m \<Longrightarrow> polyf m f"
  by (rule nat_induct_at_least [of n m "\<lambda>k. polyf k f"]) (auto intro: polyf_Suc simp del: polyf.simps)

lemma polyf_times_x: "polyf n f \<Longrightarrow> polyf (Suc n) (\<lambda>x. x * f x)"
  by (auto intro!: exI [of _ 0])

lemma polyf_linear: "polyf n f \<Longrightarrow> polyf (Suc n) (\<lambda>x. (b - x) * f x)"
proof -
  assume f: "polyf n f"
  have "polyf (Suc n) (\<lambda>x. b * f x)" by (intro polyf_Suc polyf_scale f)
  moreover have "polyf (Suc n) (\<lambda>x. - 1 * (x * f x))" by (intro polyf_scale polyf_times_x f)
  ultimately have "polyf (Suc n) (\<lambda>x. b * f x + - 1 * (x * f x))" by (rule polyf_add)
  then show ?thesis by (rule polyf_cong) (simp add: algebra_simps)
qed

lemma polyf_prod:
  "finite S \<Longrightarrow> polyf (Suc (card S)) (\<lambda>x. \<Prod>b\<in>S. (b - x))"
proof (induction S rule: finite_induct)
  case empty
  show ?case by (simp del: polyf.simps add: polyf_const)
next
  case (insert b S)
  have "polyf (Suc (Suc (card S))) (\<lambda>x. (b - x) * (\<Prod>b\<in>S. (b - x)))"
    by (intro polyf_linear insert.IH)
  then show ?case using insert.hyps by (simp del: polyf.simps)
qed

text \<open>The factor theorem: a polynomial function minus its value at \<open>a\<close> has the factor \<open>x - a\<close>.\<close>

lemma polyf_factor:
  "polyf (Suc n) f \<Longrightarrow> \<exists>g. polyf n g \<and> (\<forall>x. f x = f a + (x - a) * g x)"
proof (induction n arbitrary: f)
  case 0
  then show ?case by (auto intro!: exI [of _ "\<lambda>_. 0"])
next
  case (Suc n)
  from Suc.prems obtain c h where h: "polyf (Suc n) h" and f: "\<And>x. f x = c + x * h x"
    by auto
  from Suc.IH [OF h] obtain k where k: "polyf n k" and hk: "\<And>x. h x = h a + (x - a) * k x"
    by blast
  let ?g = "\<lambda>x. h a + x * k x"
  have "polyf (Suc n) ?g" using k by auto
  moreover have "f x = f a + (x - a) * ?g x" for x
  proof -
    have "f x = c + x * (h a + (x - a) * k x)" using f [of x] hk [of x] by simp
    then show ?thesis using f [of a] by (simp add: algebra_simps)
  qed
  ultimately show ?case by blast
qed

section \<open>Lagrange coefficients\<close>

definition lagrange0 :: "'z::field set \<Rightarrow> 'z \<Rightarrow> 'z" where
  "lagrange0 S a = (\<Prod>b\<in>S - {a}. b / (b - a))"

text \<open>Adding a point to the set scales the other coefficients.\<close>

lemma lagrange0_insert:
  assumes "finite S" "a \<notin> S" "x \<in> S"
  shows "(x - a) * lagrange0 (insert a S) x = - a * lagrange0 S x"
proof -
  have "insert a S - {x} = insert a (S - {x})" using assms by auto
  then have "lagrange0 (insert a S) x = a / (a - x) * lagrange0 S x"
    using assms by (simp add: lagrange0_def)
  moreover have "a - x \<noteq> 0" using assms by auto
  ultimately show ?thesis by (simp add: field_simps)
qed

text \<open>
  One step of the interpolation: peeling off the point \<open>a\<close> leaves the interpolation of the
  cofactor on the remaining points, up to the sum of the coefficients.
\<close>

lemma lagrange0_peel:
  assumes S: "finite S" "a \<notin> S" and fg: "\<And>x. f x = f a + (x - a) * g x"
  shows "(\<Sum>x\<in>insert a S. lagrange0 (insert a S) x * f x) =
         f a * (\<Sum>x\<in>insert a S. lagrange0 (insert a S) x) - a * (\<Sum>x\<in>S. lagrange0 S x * g x)"
proof -
  let ?l = "lagrange0 (insert a S)"
  have "(\<Sum>x\<in>insert a S. ?l x * f x) = (\<Sum>x\<in>insert a S. f a * ?l x + (x - a) * ?l x * g x)"
  proof (rule sum.cong [OF refl])
    fix x
    show "?l x * f x = f a * ?l x + (x - a) * ?l x * g x"
      by (subst fg [of x]) (simp add: algebra_simps)
  qed
  also have "\<dots> = f a * (\<Sum>x\<in>insert a S. ?l x) + (\<Sum>x\<in>insert a S. (x - a) * ?l x * g x)"
    by (simp add: sum.distrib sum_distrib_left)
  also have "(\<Sum>x\<in>insert a S. (x - a) * ?l x * g x) = (\<Sum>x\<in>S. - a * lagrange0 S x * g x)"
    using S by (auto simp: lagrange0_insert intro!: sum.cong)
  also have "\<dots> = - a * (\<Sum>x\<in>S. lagrange0 S x * g x)"
    by (simp add: sum_distrib_left algebra_simps)
  finally show ?thesis by simp
qed

lemma lagrange0_vanishing:
  assumes S: "finite S" "a \<notin> S"
  shows "(\<Sum>x\<in>insert a S. lagrange0 (insert a S) x * (\<Prod>b\<in>S. (b - x))) = (\<Prod>b\<in>S. b)"
proof -
  have "(\<Prod>b\<in>S. (b - x)) = 0" if "x \<in> S" for x
    using S that by (auto simp: prod_zero_iff)
  then have "(\<Sum>x\<in>insert a S. lagrange0 (insert a S) x * (\<Prod>b\<in>S. (b - x)))
      = lagrange0 (insert a S) a * (\<Prod>b\<in>S. (b - a))"
    using S by (simp add: sum.neutral)
  also have "lagrange0 (insert a S) a = (\<Prod>b\<in>S. b / (b - a))"
    using S by (simp add: lagrange0_def)
  also have "(\<Prod>b\<in>S. b / (b - a)) * (\<Prod>b\<in>S. (b - a)) = (\<Prod>b\<in>S. b)"
    using S by (auto simp flip: prod.distrib intro!: prod.cong)
  finally show ?thesis .
qed

lemma lagrange0_interpolates:
  assumes "finite S" "S \<noteq> {}" "polyf (card S) f"
  shows "(\<Sum>x\<in>S. lagrange0 S x * f x) = f 0"
  using assms
proof (induction S arbitrary: f rule: finite_ne_induct)
  case (singleton a)
  then have "f x = f 0" for x by auto
  then show ?case by (simp add: lagrange0_def)
next
  case (insert a S)
  let ?l = "lagrange0 (insert a S)" and ?w = "\<lambda>x. \<Prod>b\<in>S. (b - x)"
  have step: "(\<Sum>x\<in>insert a S. ?l x * f x) = f a * (\<Sum>x\<in>insert a S. ?l x) - a * g 0"
    if fg: "\<And>x. f x = f a + (x - a) * g x" and g: "polyf (card S) g" for f g
    using lagrange0_peel [OF insert.hyps(1,3) fg] insert.IH [OF g] by simp
  have factor: "\<exists>g. polyf (card S) g \<and> (\<forall>x. f x = f a + (x - a) * g x)"
    if "polyf (Suc (card S)) f" for f :: "'a \<Rightarrow> 'a"
    using that by (rule polyf_factor)
  obtain v where v: "polyf (card S) v" and wv: "\<And>x. ?w x = ?w a + (x - a) * v x"
    using factor [OF polyf_prod [OF insert.hyps(1)]] by blast
  have wa: "?w a \<noteq> 0" using insert.hyps by (auto simp: prod_zero_iff)
  have "?w a * (\<Sum>x\<in>insert a S. ?l x) - a * v 0 = ?w 0"
    using step [OF wv v] lagrange0_vanishing [OF insert.hyps(1,3)] by simp
  also have "?w 0 = ?w a - a * v 0" using wv [of 0] by simp
  finally have one: "(\<Sum>x\<in>insert a S. ?l x) = 1" using wa by simp
  have "card (insert a S) = Suc (card S)" using insert.hyps by simp
  with insert.prems obtain g where g: "polyf (card S) g" and fg: "\<And>x. f x = f a + (x - a) * g x"
    using factor [of f] by metis
  show ?case using step [OF fg g] one fg [of 0] by simp
qed

end
