(* ===== verification/Hibe.thy ===== *)
theory Hibe
  imports Zkhc_Prelude Interpolation
begin

text \<open>
  The hierarchical threshold signature scheme of \<open>hibe/dhibe_Cap.go\<close>. Key shares are handed
  down a tree of authorities (\<open>Setup\<close>, \<open>ShadowGen\<close>, \<open>KeyRecon\<close>), a threshold of the
  authorities of a level signs together (\<open>ShadowSign\<close>, \<open>SignRecon\<close>) and anybody holding
  the master public key checks the result (\<open>Verify\<close>).

  The pairing library (the binding of the C library PBC) is a parameter: the record \<open>pbc\<close>
  holds its operations on the groups \<open>G1\<close> and \<open>GT\<close>, the exponents \<open>Zr\<close> are a field, and
  \<open>pbc_laws\<close> states the group and pairing laws the scheme rests on. SHA-256 is a
  parameter as well. The random draws of the code are arguments.
\<close>

section \<open>The pairing library\<close>

record ('z, 'g, 't) pbc =
  MulG1 :: "'g \<Rightarrow> 'g \<Rightarrow> 'g"
  PowZn :: "'g \<Rightarrow> 'z \<Rightarrow> 'g"
  Set1G1 :: 'g
  MulGT :: "'t \<Rightarrow> 't \<Rightarrow> 't"
  PairG1 :: "'g \<Rightarrow> 'g \<Rightarrow> 't"
  CompressedBytes :: "'g \<Rightarrow> bytes"
  SetCompressedBytes :: "bytes \<Rightarrow> 'g"

definition pbc_laws :: "('z::field, 'g, 't) pbc \<Rightarrow> bool" where
  "pbc_laws P \<longleftrightarrow>
     (\<forall>a b c. MulG1 P (MulG1 P a b) c = MulG1 P a (MulG1 P b c)) \<and>
     (\<forall>a b. MulG1 P a b = MulG1 P b a) \<and>
     (\<forall>a. MulG1 P (Set1G1 P) a = a) \<and>
     (\<forall>a. PowZn P a 0 = Set1G1 P) \<and>
     (\<forall>a x y. PowZn P a (x + y) = MulG1 P (PowZn P a x) (PowZn P a y)) \<and>
     (\<forall>a x y. PowZn P (PowZn P a x) y = PowZn P a (x * y)) \<and>
     (\<forall>a b x. PowZn P (MulG1 P a b) x = MulG1 P (PowZn P a x) (PowZn P b x)) \<and>
     (\<forall>a b c. PairG1 P a (MulG1 P b c) = MulGT P (PairG1 P a b) (PairG1 P a c)) \<and>
     (\<forall>a b x. PairG1 P (PowZn P a x) b = PairG1 P a (PowZn P b x))"

text \<open>\<open>SetInt32(int32(i))\<close>: the conversion to 32 bits wraps before the field element is set.\<close>

definition SetInt32 :: "int \<Rightarrow> 'z::field" where
  "SetInt32 i = of_int (signed_take_bit 31 i)"

section \<open>Keys and signatures\<close>

record 'g MasterPublicKey =
  mpk_MaxDepth :: u32
  mpk_G :: 'g
  mpk_G1 :: 'g
  mpk_G2 :: 'g
  mpk_G3 :: 'g
  mpk_H :: "'g list"

record 'g SecretShadow =
  ss_A0 :: 'g
  ss_A1 :: 'g
  ss_B :: "'g list"

record 'g SIG =
  sig_X :: 'g
  sig_Y :: 'g
  sig_Z :: 'g

text \<open>The wire formats.\<close>

record SIGBytes =
  bX :: bytes
  bY :: bytes
  bZ :: bytes

record ShadowBytes =
  bA0 :: bytes
  bA1 :: bytes
  bB :: "bytes list"

record MasterPublicKeyBytes =
  bMaxDepth :: u32
  bG :: bytes
  bG1 :: bytes
  bG2 :: bytes
  bG3 :: bytes
  bH :: "bytes list"

section \<open>Arithmetic helpers of the scheme\<close>

definition PIz :: "'z::field list \<Rightarrow> 'z" where
  "PIz vals = foldl (*) 1 vals"

definition PIg :: "('z::field, 'g, 't) pbc \<Rightarrow> 'g list \<Rightarrow> 'g" where
  "PIg P vals = foldl (MulG1 P) (Set1G1 P) vals"

text \<open>\<open>C(Cs, index)\<close>: each coefficient is added and the sum multiplied by the index.\<close>

definition poly_C :: "'z::field list \<Rightarrow> int \<Rightarrow> 'z" where
  "poly_C Cs index = (let x = SetInt32 index in foldl (\<lambda>ret coef. (ret + coef) * x) 0 Cs)"

definition GenCoef :: "(nat \<Rightarrow> 'z) \<Rightarrow> int \<Rightarrow> 'z list res" where
  "GenCoef rnd t = (if t - 1 < 0 then Inl (Panic ''makeslice'') else Inr (map rnd [0..<nat (t - 1)]))"

text \<open>\<open>L(SelectedNodes, i)\<close>: the product of the other nodes over the product of the differences.\<close>

definition coef_L :: "'z::field list \<Rightarrow> nat \<Rightarrow> 'z" where
  "coef_L nodes i =
     (let cur = nodes ! i; others = take i nodes @ drop (Suc i) nodes
      in PIz others / PIz (map (\<lambda>z. z - cur) others))"

text \<open>\<open>h3\<close>: only the first four bytes of the message enter the hash.\<close>

definition h3 :: "('z::field, 'g, 't) pbc \<Rightarrow> bytes \<Rightarrow> 'g MasterPublicKey \<Rightarrow> 'g res" where
  "h3 P M mpk =
     (if length M < 4 then Inl (Panic ''slice bounds out of range'')
      else Inr (PowZn P (mpk_G mpk) (of_nat (be_uint32 M))))"

text \<open>\<open>hashID\<close>: one field element per pair of characters of the identity.\<close>

definition hashID :: "(bytes \<Rightarrow> bytes) \<Rightarrow> bytes \<Rightarrow> 'z::field list" where
  "hashID sha ID = map (\<lambda>index. of_nat (be_uint32 (sha (take 2 (drop (index * 2) ID)))))
     [0..<length ID div 2]"

text \<open>The loops \<open>tmp.PowZn(mpk.H[i], I[i]); prod.Mul(prod, tmp)\<close> of \<open>ShadowGen\<close> and \<open>Verify\<close>.\<close>

definition prod_HI :: "('z::field, 'g, 't) pbc \<Rightarrow> 'g list \<Rightarrow> 'z list \<Rightarrow> nat \<Rightarrow> 'g" where
  "prod_HI P hs I k = foldl (\<lambda>acc i. MulG1 P acc (PowZn P (hs ! i) (I ! i))) (Set1G1 P) [0..<k]"

text \<open>Verifiable secret sharing values: \<open>VSS\<close>, \<open>GenVSS\<close>, \<open>Vsum\<close>, \<open>VSSValueSum\<close>.\<close>

definition VSS :: "(nat \<Rightarrow> 'z::field) \<Rightarrow> int \<Rightarrow> (int \<Rightarrow> 'z) res" where
  "VSS rnd thresholdOfLowLevel =
     bind_res (GenCoef rnd thresholdOfLowLevel) (\<lambda>Ck.
       let r = rnd (length Ck) in Inr (\<lambda>index. poly_C Ck index + r))"

definition GenVSS :: "(nat \<Rightarrow> nat \<Rightarrow> 'z::field) \<Rightarrow> int \<Rightarrow> int \<Rightarrow> (int \<Rightarrow> 'z) list res" where
  "GenVSS rnd numberOfUpLevelNodes thresholdOfLowLevelNodes =
     (if numberOfUpLevelNodes < 0 then Inl (Panic ''makeslice'')
      else fold_res (\<lambda>i F. bind_res (VSS (rnd i) thresholdOfLowLevelNodes) (\<lambda>fn. Inr (F @ [fn])))
        [0..<nat numberOfUpLevelNodes] [])"

definition Vsum :: "int \<Rightarrow> (int \<Rightarrow> 'z::field) list \<Rightarrow> 'z" where
  "Vsum indexOfUpNode F = foldl (\<lambda>ret fn. ret + fn indexOfUpNode) 0 F"

definition VSSValueSum :: "'z::field list \<Rightarrow> 'z" where
  "VSSValueSum Values = foldl (+) 0 Values"

section \<open>The scheme\<close>

text \<open>
  \<open>Setup\<close>. The draws of the code, in its order: \<open>rG 0\<close>, \<open>rG 1\<close>, \<open>rG 2\<close> are \<open>g\<close>, \<open>g2\<close>, \<open>g3\<close>,
  \<open>rZ 0\<close> is \<open>alpha\<close>, \<open>rG (3 + i)\<close> is \<open>h[i]\<close> and \<open>rZ (1 + i)\<close> is the \<open>i\<close>-th coefficient.
\<close>

definition Setup ::
  "('z::field, 'g, 't) pbc \<Rightarrow> (nat \<Rightarrow> 'g) \<Rightarrow> (nat \<Rightarrow> 'z) \<Rightarrow> int \<Rightarrow> int \<Rightarrow> int \<Rightarrow>
   (string + ('g MasterPublicKey \<times> 'g SecretShadow list)) res" where
  "Setup P rG rZ maxDepth numOfLevel0 thresholdOfLevel0 =
     (if thresholdOfLevel0 > numOfLevel0 then Inr (Inl ''secret key would be irrecoverable'')
      else if maxDepth < 0 then Inl (Panic ''makeslice'')
      else let g = rG 0; g2 = rG 1; g3 = rG 2; alpha = rZ 0;
               h = map (\<lambda>i. rG (3 + i)) [0..<nat maxDepth];
               mpk = \<lparr>mpk_MaxDepth = word_of_int maxDepth, mpk_G = g, mpk_G1 = PowZn P g alpha, mpk_G2 = g2, mpk_G3 = g3, mpk_H = h\<rparr>
           in bind_res (GenCoef (\<lambda>i. rZ (1 + i)) thresholdOfLevel0) (\<lambda>poly.
             Inr (Inr (mpk, map (\<lambda>i. \<lparr>ss_A0 = PowZn P g2 (poly_C poly (int i + 1) + alpha),
                                       ss_A1 = Set1G1 P,
                                       ss_B = replicate (nat maxDepth) (Set1G1 P)\<rparr>)
                             [0..<nat numOfLevel0]))))"

text \<open>\<open>ShadowGen\<close>: a partial shadow for the authority \<open>index\<close> of the given level.\<close>

definition ShadowGen ::
  "('z::field, 'g, 't) pbc \<Rightarrow> (bytes \<Rightarrow> bytes) \<Rightarrow> 'g SecretShadow \<Rightarrow> 'g MasterPublicKey \<Rightarrow>
   'z list \<Rightarrow> 'z \<Rightarrow> bytes \<Rightarrow> int \<Rightarrow> nat \<Rightarrow> 'g SecretShadow res" where
  "ShadowGen P sha ss mpk Cs r ID index level =
     (let I = hashID sha ID; bNum = uint (mpk_MaxDepth mpk) - int level in
      if level = 0 \<or> length I < level \<or> length (mpk_H mpk) < level \<or> ss_B ss = [] \<or> bNum < 0 \<or>
         (bNum > 0 \<and> (length (mpk_H mpk) < level + nat bNum \<or> length (ss_B ss) < Suc (nat bNum)))
      then Inl (Panic ''index out of range'')
      else
        let Ck = poly_C Cs index;
            a0 = MulG1 P (ss_A0 ss) (PowZn P (mpk_G2 mpk) Ck);
            prod1 = PowZn P (MulG1 P (prod_HI P (mpk_H mpk) I (level - 1)) (mpk_G3 mpk)) Ck;
            a0 = MulG1 P a0 prod1;
            prod2 = PowZn P (MulG1 P (prod_HI P (mpk_H mpk) I level) (mpk_G3 mpk)) r;
            a0 = MulG1 P a0 prod2;
            a0 = MulG1 P a0 (PowZn P (ss_B ss ! 0) (I ! (level - 1)));
            a0 = MulG1 P a0 (PowZn P (PowZn P (mpk_H mpk ! (level - 1)) (I ! (level - 1))) Ck);
            expon = Ck + r;
            a1 = MulG1 P (ss_A1 ss) (PowZn P (mpk_G mpk) expon);
            b = map (\<lambda>i. MulG1 P (ss_B ss ! (1 + i)) (PowZn P (mpk_H mpk ! (level + i)) expon)) [0..<nat bNum]
        in Inr \<lparr>ss_A0 = a0, ss_A1 = a1, ss_B = b\<rparr>)"

text \<open>\<open>KeyRecon\<close>: the complete shadow from the partial ones of the upper level.\<close>

definition KeyRecon ::
  "('z::field, 'g, 't) pbc \<Rightarrow> 'g SecretShadow list \<Rightarrow> int list \<Rightarrow> 'g SecretShadow res" where
  "KeyRecon P Ss SelectedNodes =
     (let t = length SelectedNodes; Xl = map SetInt32 SelectedNodes in
      if Ss = [] \<or> length Ss < t \<or> (\<exists>i<t. length (ss_B (Ss ! i)) < length (ss_B (Ss ! 0)))
      then Inl (Panic ''index out of range'')
      else Inr \<lparr>ss_A0 = PIg P (map (\<lambda>i. PowZn P (ss_A0 (Ss ! i)) (coef_L Xl i)) [0..<t]),
                ss_A1 = PIg P (map (\<lambda>i. PowZn P (ss_A1 (Ss ! i)) (coef_L Xl i)) [0..<t]),
                ss_B = map (\<lambda>j. PIg P (map (\<lambda>i. PowZn P (ss_B (Ss ! i) ! j) (coef_L Xl i)) [0..<t]))
                      [0..<length (ss_B (Ss ! 0))]\<rparr>)"

definition ShadowSign ::
  "('z::field, 'g, 't) pbc \<Rightarrow> 'g SecretShadow \<Rightarrow> 'g MasterPublicKey \<Rightarrow> bytes \<Rightarrow> 'z \<Rightarrow> 'g SIG res" where
  "ShadowSign P sks mpk M s =
     bind_res (h3 P M mpk) (\<lambda>h.
       Inr \<lparr>sig_X = MulG1 P (ss_A0 sks) (PowZn P h s), sig_Y = ss_A1 sks, sig_Z = PowZn P (mpk_G mpk) s\<rparr>)"

definition SignRecon ::
  "('z::field, 'g, 't) pbc \<Rightarrow> 'g SIG list \<Rightarrow> int list \<Rightarrow> 'g SIG res" where
  "SignRecon P PartialSIG SelectedNodes =
     (let thresh = length SelectedNodes; Xl = map SetInt32 SelectedNodes in
      if length PartialSIG < thresh then Inl (Panic ''index out of range'')
      else Inr \<lparr>sig_X = PIg P (map (\<lambda>i. PowZn P (sig_X (PartialSIG ! i)) (coef_L Xl i)) [0..<thresh]),
                sig_Y = PIg P (map (\<lambda>i. PowZn P (sig_Y (PartialSIG ! i)) (coef_L Xl i)) [0..<thresh]),
                sig_Z = PIg P (map (\<lambda>i. PowZn P (sig_Z (PartialSIG ! i)) (coef_L Xl i)) [0..<thresh])\<rparr>)"

definition Verify ::
  "('z::field, 'g, 't) pbc \<Rightarrow> (bytes \<Rightarrow> bytes) \<Rightarrow> 'g MasterPublicKey \<Rightarrow> bytes \<Rightarrow> bytes \<Rightarrow> nat \<Rightarrow>
   'g SIG \<Rightarrow> bool res" where
  "Verify P sha mpk ID M level sig =
     bind_res (h3 P M mpk) (\<lambda>h.
       let I = hashID sha ID in
       if length I < level \<or> length (mpk_H mpk) < level then Inl (Panic ''index out of range'')
       else
         let LHS = PairG1 P (mpk_G mpk) (sig_X sig);
             tmp = PairG1 P (mpk_G1 mpk) (mpk_G2 mpk);
             tmp2 = MulG1 P (prod_HI P (mpk_H mpk) I level) (mpk_G3 mpk);
             RHS = MulGT P tmp (PairG1 P (sig_Y sig) tmp2);
             RHS = MulGT P RHS (PairG1 P (sig_Z sig) h)
         in Inr (LHS = RHS))"

section \<open>Wire formats\<close>

definition HibeSigLength :: nat where
  "HibeSigLength = 65 * 3"

definition SIGToBytes :: "('z, 'g, 't) pbc \<Rightarrow> 'g SIG \<Rightarrow> SIGBytes" where
  "SIGToBytes P key = \<lparr>bX = CompressedBytes P (sig_X key), bY = CompressedBytes P (sig_Y key),
     bZ = CompressedBytes P (sig_Z key)\<rparr>"

definition BytesToSIG :: "('z, 'g, 't) pbc \<Rightarrow> SIGBytes \<Rightarrow> 'g SIG" where
  "BytesToSIG P key = \<lparr>sig_X = SetCompressedBytes P (bX key), sig_Y = SetCompressedBytes P (bY key),
     sig_Z = SetCompressedBytes P (bZ key)\<rparr>"

definition SigToCompressedBytes :: "('z, 'g, 't) pbc \<Rightarrow> 'g SIG \<Rightarrow> bytes" where
  "SigToCompressedBytes P sig =
     (let sb = SIGToBytes P sig in bX sb @ bY sb @ bZ sb)"

definition CompressedBytesToSig :: "('z, 'g, 't) pbc \<Rightarrow> bytes \<Rightarrow> 'g SIG res" where
  "CompressedBytesToSig P csig =
     (if length csig < 195 then Inl (Panic ''slice bounds out of range'')
      else Inr \<lparr>sig_X = SetCompressedBytes P (take 65 csig),
                sig_Y = SetCompressedBytes P (take 65 (drop 65 csig)),
                sig_Z = SetCompressedBytes P (take 65 (drop 130 csig))\<rparr>)"

definition Sign ::
  "('z::field, 'g, 't) pbc \<Rightarrow> 'g SecretShadow \<Rightarrow> 'g MasterPublicKey \<Rightarrow> bytes \<Rightarrow> 'z \<Rightarrow> bytes res" where
  "Sign P sks mpk hash s =
     bind_res (ShadowSign P sks mpk hash s) (\<lambda>sig. Inr (SigToCompressedBytes P sig))"

definition ShadowToBytes :: "('z, 'g, 't) pbc \<Rightarrow> 'g SecretShadow \<Rightarrow> ShadowBytes" where
  "ShadowToBytes P key = \<lparr>bA0 = CompressedBytes P (ss_A0 key), bA1 = CompressedBytes P (ss_A1 key),
     bB = map (CompressedBytes P) (ss_B key)\<rparr>"

definition BytesToShadow :: "('z, 'g, 't) pbc \<Rightarrow> ShadowBytes \<Rightarrow> 'g SecretShadow" where
  "BytesToShadow P bs = \<lparr>ss_A0 = SetCompressedBytes P (bA0 bs), ss_A1 = SetCompressedBytes P (bA1 bs),
     ss_B = map (SetCompressedBytes P) (bB bs)\<rparr>"

definition MasterPubkeyToBytes :: "('z, 'g, 't) pbc \<Rightarrow> 'g MasterPublicKey \<Rightarrow> MasterPublicKeyBytes" where
  "MasterPubkeyToBytes P key = \<lparr>bMaxDepth = mpk_MaxDepth key, bG = CompressedBytes P (mpk_G key),
     bG1 = CompressedBytes P (mpk_G1 key), bG2 = CompressedBytes P (mpk_G2 key),
     bG3 = CompressedBytes P (mpk_G3 key), bH = map (CompressedBytes P) (mpk_H key)\<rparr>"

definition BytesToMasterPubkey :: "('z, 'g, 't) pbc \<Rightarrow> MasterPublicKeyBytes \<Rightarrow> 'g MasterPublicKey" where
  "BytesToMasterPubkey P bs = \<lparr>mpk_MaxDepth = bMaxDepth bs, mpk_G = SetCompressedBytes P (bG bs),
     mpk_G1 = SetCompressedBytes P (bG1 bs), mpk_G2 = SetCompressedBytes P (bG2 bs),
     mpk_G3 = SetCompressedBytes P (bG3 bs), mpk_H = map (SetCompressedBytes P) (bH bs)\<rparr>"

end
