(* ===== verification/Hibe_Proofs.thy ===== *)
theory Hibe_Proofs
  imports Hibe
begin

text \<open>
  Correctness of the threshold scheme of the theory \<open>Hibe\<close>. A shadow is valid for a level
  when it hides an exponent \<open>a\<close> of \<open>g2\<close> under a blinding \<open>rho\<close> (\<open>valid_shadow\<close>). The shadows
  that \<open>Setup\<close> deals are valid, \<open>ShadowGen\<close> and \<open>KeyRecon\<close> turn the valid shadows of a
  level into valid shadows of the next one, and the signature that a threshold of valid
  shadows produces passes \<open>Verify\<close>.
\<close>

section \<open>Products in the first group\<close>

lemma pbc_law:
  assumes "pbc_laws P"
  shows "MulG1 P (MulG1 P a b) c = MulG1 P a (MulG1 P b c)"
    and "MulG1 P a b = MulG1 P b a"
    and "MulG1 P (Set1G1 P) a = a"
    and "PowZn P a 0 = Set1G1 P"
    and "PowZn P a (x + y) = MulG1 P (PowZn P a x) (PowZn P a y)"
    and "PowZn P (PowZn P a x) y = PowZn P a (x * y)"
    and "PowZn P (MulG1 P a b) x = MulG1 P (PowZn P a x) (PowZn P b x)"
    and "PairG1 P a (MulG1 P b c) = MulGT P (PairG1 P a b) (PairG1 P a c)"
    and "PairG1 P (PowZn P a x) b = PairG1 P a (PowZn P b x)"
  by (insert assms, unfold pbc_laws_def) iprover+

lemma pbc_lcomm: "pbc_laws P \<Longrightarrow> MulG1 P a (MulG1 P b c) = MulG1 P b (MulG1 P a c)"
  by (metis pbc_law(1,2))

lemma pbc_mul_1_right: "pbc_laws P \<Longrightarrow> MulG1 P a (Set1G1 P) = a"
  by (metis pbc_law(2,3))

lemmas pbc_ac = pbc_law(1) pbc_law(2) pbc_lcomm
lemmas pbc_one = pbc_law(3) pbc_mul_1_right pbc_law(4)

lemma PIg_Nil [simp]: "PIg P [] = Set1G1 P"
  by (simp add: PIg_def)

lemma foldl_MulG1: "pbc_laws P \<Longrightarrow> foldl (MulG1 P) a xs = MulG1 P a (PIg P xs)"
proof (induction xs arbitrary: a)
  case Nil
  then show ?case by (simp add: pbc_one)
next
  case (Cons x xs)
  have "foldl (MulG1 P) a (x # xs) = MulG1 P (MulG1 P a x) (PIg P xs)"
    using Cons by simp
  moreover have "PIg P (x # xs) = MulG1 P x (PIg P xs)"
    using Cons.IH [of x] Cons.prems by (simp add: PIg_def [of P "x # xs"] pbc_one)
  ultimately show ?case using Cons.prems by (simp add: pbc_law(1))
qed

lemma PIg_Cons: "pbc_laws P \<Longrightarrow> PIg P (x # xs) = MulG1 P x (PIg P xs)"
  using foldl_MulG1 [of P "MulG1 P (Set1G1 P) x" xs] by (simp add: PIg_def pbc_one)

lemma PIg_mul:
  "pbc_laws P \<Longrightarrow> PIg P (map (\<lambda>i. MulG1 P (u i) (v i)) ns) = MulG1 P (PIg P (map u ns)) (PIg P (map v ns))"
  by (induction ns) (simp_all add: PIg_Cons pbc_one pbc_ac)

lemma PIg_pow: "pbc_laws P \<Longrightarrow> PIg P (map (\<lambda>i. PowZn P a (x i)) ns) = PowZn P a (\<Sum>i\<leftarrow>ns. x i)"
  by (induction ns) (simp_all add: PIg_Cons pbc_one pbc_law(5))

lemma PIg_cong: "(\<And>i. i \<in> set ns \<Longrightarrow> u i = v i) \<Longrightarrow> PIg P (map u ns) = PIg P (map v ns)"
  by (metis map_cong)

lemma prod_HI_0 [simp]: "prod_HI P hs I 0 = Set1G1 P"
  by (simp add: prod_HI_def)

lemma prod_HI_Suc: "prod_HI P hs I (Suc k) = MulG1 P (prod_HI P hs I k) (PowZn P (hs ! k) (I ! k))"
  by (simp add: prod_HI_def)

section \<open>Lagrange coefficients of the code\<close>

lemma PIz_prod_list: "PIz xs = prod_list xs"
proof -
  have "foldl (*) a xs = a * prod_list xs" for a :: 'a
    by (induction xs arbitrary: a) (simp_all add: mult.assoc)
  then show ?thesis by (simp add: PIz_def)
qed

lemma coef_L_lagrange0:
  assumes d: "distinct nodes" and i: "i < length nodes"
  shows "coef_L nodes i = lagrange0 (set nodes) (nodes ! i)"
proof -
  let ?o = "take i nodes @ drop (Suc i) nodes" and ?c = "nodes ! i"
  have split: "nodes = take i nodes @ ?c # drop (Suc i) nodes"
    using i by (rule id_take_nth_drop)
  have do: "distinct ?o" and co: "?c \<notin> set ?o"
    using d by (subst (asm) split, simp)+
  have so: "set ?o = set nodes - {?c}"
    using co by (subst (2) split) auto
  have "coef_L nodes i = prod_list ?o / prod_list (map (\<lambda>z. z - ?c) ?o)"
    by (simp add: coef_L_def Let_def PIz_prod_list)
  also have "prod_list ?o = (\<Prod>b\<in>set nodes - {?c}. b)"
    using prod.distinct_set_conv_list [OF do, of "\<lambda>z. z"] so by simp
  also have "prod_list (map (\<lambda>z. z - ?c) ?o) = (\<Prod>b\<in>set nodes - {?c}. b - ?c)"
    using prod.distinct_set_conv_list [OF do, of "\<lambda>z. z - ?c"] so by simp
  finally show ?thesis by (simp add: lagrange0_def prod_dividef)
qed

lemma coef_L_interpolates:
  assumes "distinct nodes" "nodes \<noteq> []" "polyf (length nodes) f"
  shows "(\<Sum>i\<leftarrow>[0..<length nodes]. coef_L nodes i * f (nodes ! i)) = f 0"
proof -
  have "(\<Sum>i\<leftarrow>[0..<length nodes]. coef_L nodes i * f (nodes ! i)) =
        (\<Sum>i\<leftarrow>[0..<length nodes]. lagrange0 (set nodes) (nodes ! i) * f (nodes ! i))"
    by (rule arg_cong [where f = sum_list], rule map_cong) (simp_all add: coef_L_lagrange0 assms(1))
  also have "\<dots> = sum_list (map (\<lambda>x. lagrange0 (set nodes) x * f x) (map ((!) nodes) [0..<length nodes]))"
    by (simp add: comp_def)
  also have "\<dots> = (\<Sum>x\<in>set nodes. lagrange0 (set nodes) x * f x)"
    by (simp add: map_nth sum_list_distinct_conv_sum_set assms(1))
  also have "\<dots> = f 0"
    using assms by (intro lagrange0_interpolates) (simp_all add: distinct_card)
  finally show ?thesis .
qed

text \<open>The sharing polynomial: no constant term, one coefficient per list element.\<close>

definition share_poly :: "'z::field list \<Rightarrow> 'z \<Rightarrow> 'z" where
  "share_poly Cs x = foldl (\<lambda>ret coef. (ret + coef) * x) 0 Cs"

lemma poly_C_share: "poly_C Cs index = share_poly Cs (SetInt32 index)"
  by (simp add: poly_C_def share_poly_def Let_def)

lemma share_poly_append: "share_poly (Cs @ [c]) x = (share_poly Cs x + c) * x"
  by (simp add: share_poly_def)

lemma share_poly_0 [simp]: "share_poly Cs 0 = 0"
  by (induction Cs rule: rev_induct) (simp_all add: share_poly_append, simp add: share_poly_def)

lemma polyf_share_poly: "polyf (Suc (length Cs)) (share_poly Cs)"
proof (induction Cs rule: rev_induct)
  case Nil
  have "share_poly [] = (\<lambda>_. 0 :: 'a)" by (simp add: share_poly_def fun_eq_iff)
  then show ?case by (metis polyf_zero)
next
  case (snoc c Cs)
  have "polyf (Suc (length Cs)) (\<lambda>x. share_poly Cs x + c)"
    using snoc polyf_const by (rule polyf_add)
  then have "polyf (Suc (Suc (length Cs))) (\<lambda>x. x * (share_poly Cs x + c))"
    by (rule polyf_times_x)
  then have "polyf (Suc (Suc (length Cs))) (share_poly (Cs @ [c]))"
    by (rule polyf_cong) (simp add: share_poly_append mult.commute)
  then show ?case by (simp del: polyf.simps)
qed


section \<open>Valid shadows\<close>

definition wf_mpk :: "'g MasterPublicKey \<Rightarrow> bool" where
  "wf_mpk mpk \<longleftrightarrow> uint (mpk_MaxDepth mpk) = int (length (mpk_H mpk))"

definition id_base :: "('z::field, 'g, 't) pbc \<Rightarrow> 'g MasterPublicKey \<Rightarrow> 'z list \<Rightarrow> nat \<Rightarrow> 'g" where
  "id_base P mpk I level = MulG1 P (prod_HI P (mpk_H mpk) I level) (mpk_G3 mpk)"

definition valid_shadow ::
  "('z::field, 'g, 't) pbc \<Rightarrow> 'g MasterPublicKey \<Rightarrow> 'z list \<Rightarrow> nat \<Rightarrow> 'z \<Rightarrow> 'z \<Rightarrow> 'g SecretShadow \<Rightarrow> bool" where
  "valid_shadow P mpk I level a rho ss \<longleftrightarrow>
     ss_A0 ss = MulG1 P (PowZn P (mpk_G2 mpk) a) (PowZn P (id_base P mpk I level) rho) \<and>
     ss_A1 ss = PowZn P (mpk_G mpk) rho \<and>
     length (ss_B ss) = length (mpk_H mpk) - level \<and>
     (\<forall>i < length (ss_B ss). ss_B ss ! i = PowZn P (mpk_H mpk ! (level + i)) rho)"

lemma prod_HI_cong:
  "(\<And>i. i < k \<Longrightarrow> I ! i = J ! i) \<Longrightarrow> prod_HI P hs I k = prod_HI P hs J k"
  by (induction k) (simp_all add: prod_HI_Suc)

lemma valid_shadow_cong:
  assumes "\<And>i. i < level \<Longrightarrow> I ! i = J ! i"
  shows "valid_shadow P mpk I level a rho ss = valid_shadow P mpk J level a rho ss"
proof -
  have "prod_HI P (mpk_H mpk) I level = prod_HI P (mpk_H mpk) J level"
    by (rule prod_HI_cong) (rule assms)
  then show ?thesis by (simp add: valid_shadow_def id_base_def)
qed

lemma nth_hashID:
  "i < length ID div 2 \<Longrightarrow>
   hashID sha ID ! i = of_nat (be_uint32 (sha (take 2 (drop (i * 2) ID))))"
  by (simp add: hashID_def)

lemma length_hashID [simp]: "length (hashID sha ID) = length ID div 2"
  by (simp add: hashID_def)

text \<open>An identity agrees with its extensions on the levels it has.\<close>

lemma hashID_prefix:
  assumes "i < length ID div 2"
  shows "hashID sha (ID @ ext) ! i = hashID sha ID ! i"
proof -
  have "i * 2 + 2 \<le> length ID" using assms by linarith
  then have "take 2 (drop (i * 2) (ID @ ext)) = take 2 (drop (i * 2) ID)" by simp
  then show ?thesis using assms by (simp add: nth_hashID)
qed

lemma id_base_Suc:
  "pbc_laws P \<Longrightarrow> id_base P mpk I (Suc l) =
     MulG1 P (id_base P mpk I l) (PowZn P (mpk_H mpk ! l) (I ! l))"
  by (simp add: id_base_def prod_HI_Suc pbc_ac)

lemma shadow_gen_exponent:
  assumes P: "pbc_laws P"
  shows "MulG1 P (MulG1 P (MulG1 P (MulG1 P (MulG1 P (MulG1 P (PowZn P g2 a) (PowZn P w rho))
            (PowZn P g2 c)) (PowZn P w c)) (PowZn P (MulG1 P w (PowZn P h x)) r))
            (PowZn P (PowZn P h rho) x)) (PowZn P (PowZn P h x) c) =
         MulG1 P (PowZn P g2 (a + c)) (PowZn P (MulG1 P w (PowZn P h x)) (rho + (c + r)))"
proof -
  have comm: "PowZn P (PowZn P h rho) x = PowZn P (PowZn P h x) rho"
    using P by (simp add: pbc_law(6) mult.commute)
  show ?thesis unfolding comm
    using P by (simp add: pbc_law(5) pbc_law(7) pbc_ac)
qed

text \<open>What \<open>ShadowGen\<close> returns when every index it uses is in range.\<close>

lemma ShadowGen_in_range:
  assumes "uint (mpk_MaxDepth mpk) - int (Suc l) = int m"
    and "Suc l \<le> length ID div 2" "length (mpk_H mpk) = Suc l + m" "length (ss_B ss) = Suc m"
  shows "ShadowGen P sha ss mpk Cs r ID index (Suc l) =
    (let c = poly_C Cs index; I = hashID sha ID in
     Inr \<lparr>ss_A0 = MulG1 P (MulG1 P (MulG1 P (MulG1 P (MulG1 P (ss_A0 ss) (PowZn P (mpk_G2 mpk) c))
        (PowZn P (id_base P mpk I l) c)) (PowZn P (id_base P mpk I (Suc l)) r))
        (PowZn P (ss_B ss ! 0) (I ! l))) (PowZn P (PowZn P (mpk_H mpk ! l) (I ! l)) c),
      ss_A1 = MulG1 P (ss_A1 ss) (PowZn P (mpk_G mpk) (c + r)),
      ss_B = map (\<lambda>i. MulG1 P (ss_B ss ! (1 + i)) (PowZn P (mpk_H mpk ! (Suc l + i)) (c + r))) [0..<m]\<rparr>)"
proof -
  have "ss_B ss \<noteq> []" using assms(4) by auto
  then show ?thesis
    unfolding ShadowGen_def Let_def assms(1) id_base_def using assms(2,3,4)
    by (simp del: of_nat_Suc)
qed

lemma ShadowGen_valid:
  assumes P: "pbc_laws P" and mpk: "wf_mpk mpk"
    and v: "valid_shadow P mpk (hashID sha ID) l a rho ss"
    and l: "Suc l \<le> length ID div 2" "Suc l \<le> length (mpk_H mpk)"
  shows "\<exists>ss'. ShadowGen P sha ss mpk Cs r ID index (Suc l) = Inr ss' \<and>
     valid_shadow P mpk (hashID sha ID) (Suc l) (a + poly_C Cs index) (rho + (poly_C Cs index + r)) ss'"
proof -
  let ?c = "poly_C Cs index" and ?I = "hashID sha ID :: 'a list" and ?n = "length (mpk_H mpk)"
  have lenB: "length (ss_B ss) = ?n - l" and
    B: "\<And>i. i < ?n - l \<Longrightarrow> ss_B ss ! i = PowZn P (mpk_H mpk ! (l + i)) rho" and
    a0: "ss_A0 ss = MulG1 P (PowZn P (mpk_G2 mpk) a) (PowZn P (id_base P mpk ?I l) rho)" and
    a1: "ss_A1 ss = PowZn P (mpk_G mpk) rho"
    using v unfolding valid_shadow_def by auto
  obtain m where m: "?n = Suc l + m" using l(2) le_Suc_ex by blast
  have bNum: "uint (mpk_MaxDepth mpk) - int (Suc l) = int m"
    using mpk m unfolding wf_mpk_def by simp
  have lenB': "length (ss_B ss) = Suc m" using lenB m by simp
  have B0: "ss_B ss ! 0 = PowZn P (mpk_H mpk ! l) rho" using B [of 0] l by simp
  obtain ss' where ss': "ShadowGen P sha ss mpk Cs r ID index (Suc l) = Inr ss'" and
    A0': "ss_A0 ss' = MulG1 P (MulG1 P (MulG1 P (MulG1 P (MulG1 P (ss_A0 ss) (PowZn P (mpk_G2 mpk) ?c))
        (PowZn P (id_base P mpk ?I l) ?c)) (PowZn P (id_base P mpk ?I (Suc l)) r))
        (PowZn P (ss_B ss ! 0) (?I ! l))) (PowZn P (PowZn P (mpk_H mpk ! l) (?I ! l)) ?c)" and
    A1': "ss_A1 ss' = MulG1 P (ss_A1 ss) (PowZn P (mpk_G mpk) (?c + r))" and
    B': "ss_B ss' = map (\<lambda>i. MulG1 P (ss_B ss ! (1 + i)) (PowZn P (mpk_H mpk ! (Suc l + i)) (?c + r))) [0..<m]"
    by (rule that [OF ShadowGen_in_range [OF bNum l(1) m lenB', unfolded Let_def]]) simp_all
  have "ss_A0 ss' = MulG1 P (PowZn P (mpk_G2 mpk) (a + ?c)) (PowZn P (id_base P mpk ?I (Suc l)) (rho + (?c + r)))"
    unfolding A0' a0 B0 id_base_Suc [OF P] by (rule shadow_gen_exponent [OF P])
  moreover have "ss_A1 ss' = PowZn P (mpk_G mpk) (rho + (?c + r))"
    unfolding A1' a1 by (simp add: pbc_law(5) [OF P])
  moreover have "ss_B ss' ! i = PowZn P (mpk_H mpk ! (Suc l + i)) (rho + (?c + r))"
    if "i < length (ss_B ss')" for i
    using that B [of "Suc i"] m by (simp add: B' pbc_law(5) [OF P])
  moreover have "length (ss_B ss') = ?n - Suc l" using m by (simp add: B')
  ultimately have "valid_shadow P mpk ?I (Suc l) (a + ?c) (rho + (?c + r)) ss'"
    unfolding valid_shadow_def by blast
  with ss' show ?thesis by blast
qed

text \<open>A weighted product of values of the form \<open>u ^ a(i) * w ^ rho(i)\<close>.\<close>

lemma PIg_weighted:
  assumes P: "pbc_laws P"
  shows "PIg P (map (\<lambda>i. PowZn P (MulG1 P (PowZn P u (a i)) (PowZn P w (b i))) (l i)) ns) =
     MulG1 P (PowZn P u (\<Sum>i\<leftarrow>ns. l i * a i)) (PowZn P w (\<Sum>i\<leftarrow>ns. l i * b i))"
  using P by (simp add: pbc_law(6,7) PIg_mul PIg_pow mult.commute)

lemma PIg_weighted1:
  assumes P: "pbc_laws P"
  shows "PIg P (map (\<lambda>i. PowZn P (PowZn P u (a i)) (l i)) ns) = PowZn P u (\<Sum>i\<leftarrow>ns. l i * a i)"
  using P by (simp add: pbc_law(6) PIg_pow mult.commute)

lemma KeyRecon_valid:
  assumes P: "pbc_laws P" and ne: "nodes \<noteq> []" and len: "length Ss = length nodes"
    and v: "\<And>i. i < length nodes \<Longrightarrow> valid_shadow P mpk I level (a i) (rho i) (Ss ! i)"
  shows "\<exists>ss. KeyRecon P Ss nodes = Inr ss \<and>
     valid_shadow P mpk I level
       (\<Sum>i\<leftarrow>[0..<length nodes]. coef_L (map SetInt32 nodes) i * a i)
       (\<Sum>i\<leftarrow>[0..<length nodes]. coef_L (map SetInt32 nodes) i * rho i) ss"
proof -
  let ?t = "length nodes" and ?l = "coef_L (map SetInt32 nodes)" and ?n = "length (mpk_H mpk) - level"
  let ?sum = "\<lambda>f. \<Sum>i\<leftarrow>[0..<?t]. ?l i * f i"
  have t: "0 < ?t" "Ss \<noteq> []" using ne len by auto
  have lenB: "length (ss_B (Ss ! i)) = ?n" if "i < ?t" for i
    using v [OF that] unfolding valid_shadow_def by simp
  have Bi: "ss_B (Ss ! i) ! j = PowZn P (mpk_H mpk ! (level + j)) (rho i)" if "i < ?t" "j < ?n" for i j
    using v [OF that(1)] that(2) unfolding valid_shadow_def by simp
  let ?ss = "\<lparr>ss_A0 = PIg P (map (\<lambda>i. PowZn P (ss_A0 (Ss ! i)) (?l i)) [0..<?t]),
      ss_A1 = PIg P (map (\<lambda>i. PowZn P (ss_A1 (Ss ! i)) (?l i)) [0..<?t]),
      ss_B = map (\<lambda>j. PIg P (map (\<lambda>i. PowZn P (ss_B (Ss ! i) ! j) (?l i)) [0..<?t])) [0..<?n]\<rparr>"
  have "KeyRecon P Ss nodes = Inr ?ss"
    using t len lenB by (auto simp: KeyRecon_def Let_def)
  moreover have "ss_A0 ?ss = MulG1 P (PowZn P (mpk_G2 mpk) (?sum a)) (PowZn P (id_base P mpk I level) (?sum rho))"
    using v unfolding valid_shadow_def PIg_weighted [OF P, symmetric] by (auto intro!: PIg_cong)
  moreover have "ss_A1 ?ss = PowZn P (mpk_G mpk) (?sum rho)"
    using v unfolding valid_shadow_def PIg_weighted1 [OF P, symmetric] by (auto intro!: PIg_cong)
  moreover have "ss_B ?ss ! j = PowZn P (mpk_H mpk ! (level + j)) (?sum rho)" if "j < length (ss_B ?ss)" for j
    using that Bi unfolding PIg_weighted1 [OF P, symmetric] by (auto intro!: PIg_cong)
  ultimately have "KeyRecon P Ss nodes = Inr ?ss" and "valid_shadow P mpk I level (?sum a) (?sum rho) ?ss"
    unfolding valid_shadow_def by simp_all
  then show ?thesis by blast
qed

section \<open>Signatures\<close>

text \<open>What a partial signature made with a valid shadow contains.\<close>

lemma ShadowSign_parts:
  assumes "4 \<le> length M"
  shows "ShadowSign P sks mpk M s = Inr \<lparr>sig_X = MulG1 P (ss_A0 sks)
      (PowZn P (PowZn P (mpk_G mpk) (of_nat (be_uint32 M))) s),
    sig_Y = ss_A1 sks, sig_Z = PowZn P (mpk_G mpk) s\<rparr>"
  using assms by (simp add: ShadowSign_def h3_def)

lemma SignRecon_parts:
  assumes P: "pbc_laws P" and M: "4 \<le> length M" and len: "length sigs = length nodes"
    and v: "\<And>i. i < length nodes \<Longrightarrow> valid_shadow P mpk I level (a i) (rho i) (key i)"
    and s: "\<And>i. i < length nodes \<Longrightarrow> ShadowSign P (key i) mpk M (s i) = Inr (sigs ! i)"
  defines "ws \<equiv> \<lambda>f. \<Sum>i\<leftarrow>[0..<length nodes]. coef_L (map SetInt32 nodes) i * f i"
    and "h \<equiv> PowZn P (mpk_G mpk) (of_nat (be_uint32 M))"
  shows "SignRecon P sigs nodes = Inr \<lparr>
    sig_X = MulG1 P (MulG1 P (PowZn P (mpk_G2 mpk) (ws a)) (PowZn P (id_base P mpk I level) (ws rho)))
      (PowZn P h (ws s)),
    sig_Y = PowZn P (mpk_G mpk) (ws rho), sig_Z = PowZn P (mpk_G mpk) (ws s)\<rparr>"
proof -
  let ?t = "length nodes" and ?l = "coef_L (map SetInt32 nodes)" and ?w = "id_base P mpk I level"
  have parts: "sigs ! i = \<lparr>sig_X = MulG1 P (MulG1 P (PowZn P (mpk_G2 mpk) (a i)) (PowZn P ?w (rho i)))
      (PowZn P h (s i)), sig_Y = PowZn P (mpk_G mpk) (rho i), sig_Z = PowZn P (mpk_G mpk) (s i)\<rparr>"
    if "i < ?t" for i
    using s [OF that] v [OF that] M by (simp add: ShadowSign_parts valid_shadow_def h_def)
  have "PIg P (map (\<lambda>i. PowZn P (sig_X (sigs ! i)) (?l i)) [0..<?t]) =
    PIg P (map (\<lambda>i. MulG1 P (PowZn P (MulG1 P (PowZn P (mpk_G2 mpk) (a i)) (PowZn P ?w (rho i))) (?l i))
      (PowZn P (PowZn P h (s i)) (?l i))) [0..<?t])"
    by (rule PIg_cong) (simp add: parts pbc_law(7) [OF P])
  also have "\<dots> = MulG1 P (MulG1 P (PowZn P (mpk_G2 mpk) (ws a)) (PowZn P ?w (ws rho))) (PowZn P h (ws s))"
    by (simp add: PIg_mul [OF P] PIg_weighted [OF P] PIg_weighted1 [OF P] ws_def)
  finally have X: "PIg P (map (\<lambda>i. PowZn P (sig_X (sigs ! i)) (?l i)) [0..<?t]) = \<dots>" .
  have Y: "PIg P (map (\<lambda>i. PowZn P (sig_Y (sigs ! i)) (?l i)) [0..<?t]) = PowZn P (mpk_G mpk) (ws rho)"
    unfolding ws_def PIg_weighted1 [OF P, symmetric] by (rule PIg_cong) (simp add: parts)
  have Z: "PIg P (map (\<lambda>i. PowZn P (sig_Z (sigs ! i)) (?l i)) [0..<?t]) = PowZn P (mpk_G mpk) (ws s)"
    unfolding ws_def PIg_weighted1 [OF P, symmetric] by (rule PIg_cong) (simp add: parts)
  show ?thesis using len by (simp add: SignRecon_def Let_def X Y Z)
qed

lemma Verify_accepts:
  assumes P: "pbc_laws P" and M: "4 \<le> length M"
    and l: "level \<le> length ID div 2" "level \<le> length (mpk_H mpk)"
    and g1: "mpk_G1 mpk = PowZn P (mpk_G mpk) alpha"
  shows "Verify P sha mpk ID M level \<lparr>
    sig_X = MulG1 P (MulG1 P (PowZn P (mpk_G2 mpk) alpha)
       (PowZn P (id_base P mpk (hashID sha ID) level) rho)) (PowZn P (PowZn P (mpk_G mpk) (of_nat (be_uint32 M))) s),
    sig_Y = PowZn P (mpk_G mpk) rho, sig_Z = PowZn P (mpk_G mpk) s\<rparr> = Inr True"
  using l M by (simp add: Verify_def h3_def Let_def g1 id_base_def [symmetric] pbc_law(8,9) [OF P])

section \<open>Groups of authorities\<close>

text \<open>
  The nodes \<open>K\<close> of a group share the master secret with threshold \<open>t\<close>: node \<open>k\<close> holds a
  shadow that is valid for the secret plus the value at \<open>k\<close> of a polynomial without constant
  term and with fewer than \<open>t\<close> coefficients.
\<close>

definition valid_group ::
  "('z::field, 'g, 't) pbc \<Rightarrow> 'g MasterPublicKey \<Rightarrow> 'z list \<Rightarrow> nat \<Rightarrow> nat \<Rightarrow> int set \<Rightarrow>
   (int \<Rightarrow> 'g SecretShadow) \<Rightarrow> bool" where
  "valid_group P mpk I level t K key \<longleftrightarrow>
     (\<exists>alpha F rho. mpk_G1 mpk = PowZn P (mpk_G mpk) alpha \<and> polyf t F \<and> F 0 = 0 \<and>
        (\<forall>k\<in>K. valid_shadow P mpk I level (alpha + F (SetInt32 k)) (rho k) (key k)))"

lemma recovers_secret:
  assumes "polyf t F" "F 0 = 0" "t \<le> length nodes" "nodes \<noteq> []" "distinct (map SetInt32 nodes :: 'z::field list)"
  shows "(\<Sum>i\<leftarrow>[0..<length nodes]. coef_L (map SetInt32 nodes) i * (alpha + F (SetInt32 (nodes ! i) :: 'z))) = alpha"
proof -
  let ?x = "map SetInt32 nodes :: 'z list"
  obtain n where n: "length nodes = Suc n" using assms(4) by (cases nodes) auto
  have "polyf (length nodes) F" using assms(1,3) by (rule polyf_le)
  then have "polyf (length ?x) (\<lambda>z. alpha + F z)"
    using n polyf_const [of n alpha] by (simp del: polyf.simps add: polyf_add)
  from coef_L_interpolates [OF assms(5) _ this]
  have "(\<Sum>i\<leftarrow>[0..<length nodes]. coef_L ?x i * (alpha + F (?x ! i))) = alpha"
    using assms(2,4) by simp
  moreover have "map (\<lambda>i. coef_L ?x i * (alpha + F (?x ! i))) [0..<length nodes] =
      map (\<lambda>i. coef_L ?x i * (alpha + F (SetInt32 (nodes ! i)))) [0..<length nodes]"
    by (rule map_cong) simp_all
  ultimately show ?thesis by simp
qed

lemma group_signature:
  assumes P: "pbc_laws P" and M: "4 \<le> length M"
    and grp: "valid_group P mpk (hashID sha ID) level t K key"
    and l: "level \<le> length ID div 2" "level \<le> length (mpk_H mpk)"
    and nodes: "set nodes \<subseteq> K" "t \<le> length nodes" "nodes \<noteq> []"
      "distinct (map SetInt32 nodes :: 'z::field list)"
  shows "\<exists>sigs sig. length sigs = length nodes \<and>
     (\<forall>i<length nodes. ShadowSign P (key (nodes ! i)) mpk M (s i :: 'z) = Inr (sigs ! i)) \<and>
     SignRecon P sigs nodes = Inr sig \<and> Verify P sha mpk ID M level sig = Inr True"
proof -
  obtain alpha F rho where g1: "mpk_G1 mpk = PowZn P (mpk_G mpk) alpha"
    and F: "polyf t F" "F 0 = 0"
    and v: "\<And>k. k \<in> K \<Longrightarrow> valid_shadow P mpk (hashID sha ID) level (alpha + F (SetInt32 k)) (rho k) (key k)"
    using grp unfolding valid_group_def by blast
  let ?sigs = "map (\<lambda>i. projr (ShadowSign P (key (nodes ! i)) mpk M (s i))) [0..<length nodes]"
  have signed: "ShadowSign P (key (nodes ! i)) mpk M (s i) = Inr (?sigs ! i)" if "i < length nodes" for i
    using that M by (simp add: ShadowSign_parts)
  have vi: "valid_shadow P mpk (hashID sha ID) level (alpha + F (SetInt32 (nodes ! i))) (rho (nodes ! i)) (key (nodes ! i))"
    if "i < length nodes" for i
    using v nodes(1) that by (meson nth_mem subsetD)
  from SignRecon_parts [OF P M _ vi signed]
  obtain sig where "SignRecon P ?sigs nodes = Inr sig" "Verify P sha mpk ID M level sig = Inr True"
    using Verify_accepts [OF P M l g1] recovers_secret [OF F nodes(2-4), of alpha] by simp
  with signed show ?thesis by (intro exI [of _ ?sigs]) auto
qed

text \<open>The polynomial that a lower group shares: the weighted sum of the ones dealt to it.\<close>

definition dealt_poly :: "'z::field list \<Rightarrow> 'z list list \<Rightarrow> 'z \<Rightarrow> 'z" where
  "dealt_poly w Css z = (\<Sum>i\<leftarrow>[0..<length Css]. w ! i * share_poly (Css ! i) z)"

lemma polyf_dealt_poly:
  assumes "\<And>Cs. Cs \<in> set Css \<Longrightarrow> length Cs < t"
  shows "polyf t (dealt_poly w Css)" and "dealt_poly w Css 0 = 0"
proof -
  have "polyf t (share_poly (Css ! i))" if "i < length Css" for i
    using assms [OF nth_mem [OF that]] by (intro polyf_le [OF polyf_share_poly]) simp
  then have "polyf t (\<lambda>z. \<Sum>i\<leftarrow>ns. w ! i * share_poly (Css ! i) z)" if "set ns \<subseteq> {0..<length Css}" for ns
    using that by (induction ns) (auto simp del: polyf.simps intro!: polyf_zero polyf_add polyf_scale)
  then show "polyf t (dealt_poly w Css)"
    unfolding dealt_poly_def [abs_def] by (simp del: polyf.simps)
qed (simp add: dealt_poly_def)

text \<open>One step down the tree: every partial shadow and every reconstruction succeeds.\<close>

definition dealt_part ::
  "('z::field, 'g, 't) pbc \<Rightarrow> (bytes \<Rightarrow> bytes) \<Rightarrow> 'g MasterPublicKey \<Rightarrow> (int \<Rightarrow> 'g SecretShadow) \<Rightarrow>
   (int \<Rightarrow> 'z list) \<Rightarrow> (int \<Rightarrow> int \<Rightarrow> 'z) \<Rightarrow> bytes \<Rightarrow> nat \<Rightarrow> int \<Rightarrow> int \<Rightarrow> 'g SecretShadow res" where
  "dealt_part P sha mpk key Cs r ID level k j = ShadowGen P sha (key j) mpk (Cs j) (r j k) ID k level"

lemma group_derivation:
  assumes P: "pbc_laws P" and mpk: "wf_mpk mpk"
    and grp: "valid_group P mpk (hashID sha ID) l t K key"
    and l: "length ID = 2 * l" "Suc l \<le> length (mpk_H mpk)" and ext: "length ext = 2"
    and js: "set js \<subseteq> K" "t \<le> length js" "js \<noteq> []" "distinct (map SetInt32 js :: 'z::field list)"
    and Cs: "\<And>j. j \<in> set js \<Longrightarrow> length (Cs j :: 'z list) < t'"
  shows "\<exists>parts key'.
     (\<forall>k. map (dealt_part P sha mpk key Cs r (ID @ ext) (Suc l) k) js = map Inr (parts k) \<and>
        KeyRecon P (parts k) js = Inr (key' k)) \<and>
     valid_group P mpk (hashID sha (ID @ ext)) (Suc l) t' K' key'"
proof -
  let ?I = "hashID sha (ID @ ext)" and ?x = "map SetInt32 js :: 'z list"
  let ?w = "map (coef_L ?x) [0..<length js]" and ?c = "\<lambda>i k. poly_C (Cs (js ! i)) k"
  let ?part = "\<lambda>i k. dealt_part P sha mpk key Cs r (ID @ ext) (Suc l) k (js ! i)"
  obtain alpha F rho where g1: "mpk_G1 mpk = PowZn P (mpk_G mpk) alpha"
    and F: "polyf t F" "F 0 = 0"
    and v0: "\<And>k. k \<in> K \<Longrightarrow> valid_shadow P mpk (hashID sha ID) l (alpha + F (SetInt32 k)) (rho k) (key k)"
    using grp unfolding valid_group_def by blast
  let ?a = "\<lambda>i k. alpha + F (SetInt32 (js ! i)) + ?c i k"
    and ?r = "\<lambda>i k. rho (js ! i) + (?c i k + r (js ! i) k)"
  have v: "valid_shadow P mpk ?I l (alpha + F (SetInt32 (js ! i))) (rho (js ! i)) (key (js ! i))" if "i < length js" for i
  proof -
    have "js ! i \<in> K" using js(1) that by (meson nth_mem subsetD)
    then show ?thesis using v0 l(1)
      by (subst valid_shadow_cong [where J = "hashID sha ID"]) (simp_all add: hashID_prefix)
  qed
  have part: "?part i k = Inr (projr (?part i k)) \<and> valid_shadow P mpk ?I (Suc l) (?a i k) (?r i k) (projr (?part i k))"
    if "i < length js" for i k
    using ShadowGen_valid [OF P mpk v [OF that], of "Cs (js ! i)" "r (js ! i) k" k] l ext
    by (auto simp: dealt_part_def)
  define parts where "parts k = map (\<lambda>i. projr (?part i k)) [0..<length js]" for k
  define key' where "key' k = projr (KeyRecon P (parts k) js)" for k
  let ?ws = "\<lambda>f. \<Sum>i\<leftarrow>[0..<length js]. coef_L ?x i * f i"
  have rec: "KeyRecon P (parts k) js = Inr (key' k) \<and>
      valid_shadow P mpk ?I (Suc l) (?ws (\<lambda>i. ?a i k)) (?ws (\<lambda>i. ?r i k)) (key' k)" for k
    using KeyRecon_valid [OF P js(3), of "parts k" mpk ?I "Suc l" "\<lambda>i. ?a i k" "\<lambda>i. ?r i k"] part [of _ k]
    by (auto simp: parts_def key'_def)
  have split: "?ws (\<lambda>i. ?a i k) = alpha + dealt_poly ?w (map Cs js) (SetInt32 k)" for k
  proof -
    have "?ws (\<lambda>i. ?a i k) = ?ws (\<lambda>i. alpha + F (SetInt32 (js ! i))) + ?ws (\<lambda>i. ?c i k)"
      by (simp add: distrib_left sum_list_addf)
    also have "?ws (\<lambda>i. ?c i k) = dealt_poly ?w (map Cs js) (SetInt32 k)"
      unfolding dealt_poly_def by (rule arg_cong [where f = sum_list], rule map_cong) (simp_all add: poly_C_share)
    finally show ?thesis using recovers_secret [OF F js(2-4), of alpha] by simp
  qed
  have "polyf t' (dealt_poly ?w (map Cs js))" and "dealt_poly ?w (map Cs js) 0 = 0"
    using Cs by (auto intro!: polyf_dealt_poly simp del: polyf.simps)
  moreover have "valid_shadow P mpk ?I (Suc l) (alpha + dealt_poly ?w (map Cs js) (SetInt32 k))
      (?ws (\<lambda>i. ?r i k)) (key' k)" for k
    using rec [of k] unfolding split by blast
  ultimately have "valid_group P mpk ?I (Suc l) t' K' key'"
    unfolding valid_group_def using g1
    by (intro exI [of _ alpha] exI [of _ "dealt_poly ?w (map Cs js)"] exI [of _ "\<lambda>k. ?ws (\<lambda>i. ?r i k)"]) blast
  moreover have "map (dealt_part P sha mpk key Cs r (ID @ ext) (Suc l) k) js = map Inr (parts k)" for k
    using part by (intro nth_equalityI) (simp_all add: parts_def)
  ultimately show ?thesis using rec by blast
qed

section \<open>The tree of authorities\<close>

text \<open>
  The key groups that the code creates: the root group is dealt by \<open>Setup\<close>; a group below is
  given its shadows by at least a threshold of nodes of the group above, each of which runs
  \<open>ShadowGen\<close> with its own coefficients and random value, and the receiver runs \<open>KeyRecon\<close>.
\<close>

inductive key_group ::
  "('z::field, 'g, 't) pbc \<Rightarrow> (bytes \<Rightarrow> bytes) \<Rightarrow> 'g MasterPublicKey \<Rightarrow> bytes \<Rightarrow> nat \<Rightarrow> nat \<Rightarrow> int set \<Rightarrow>
   (int \<Rightarrow> 'g SecretShadow) \<Rightarrow> bool" for P sha mpk where
  root: "Setup P rG rZ maxDepth n t = Inr (Inr (mpk, mss)) \<Longrightarrow> maxDepth < 2 ^ 32 \<Longrightarrow>
    key_group P sha mpk [] 0 (nat t) {1..n} (\<lambda>k. mss ! nat (k - 1))"
| down: "key_group P sha mpk ID l t K key \<Longrightarrow> Suc l \<le> length (mpk_H mpk) \<Longrightarrow> length ext = 2 \<Longrightarrow>
    set js \<subseteq> K \<Longrightarrow> t \<le> length js \<Longrightarrow> distinct (map SetInt32 js :: 'z list) \<Longrightarrow>
    (\<And>j. j \<in> set js \<Longrightarrow> length (Cs j) < t') \<Longrightarrow>
    (\<And>k. k \<in> K' \<Longrightarrow> map (dealt_part P sha mpk key Cs r (ID @ ext) (Suc l) k) js = map Inr (parts k)) \<Longrightarrow>
    (\<And>k. k \<in> K' \<Longrightarrow> KeyRecon P (parts k) js = Inr (key' k)) \<Longrightarrow>
    key_group P sha mpk (ID @ ext) (Suc l) t' K' key'"

lemma Setup_valid_group:
  assumes P: "pbc_laws P" and S: "Setup P rG rZ maxDepth n t = Inr (Inr (mpk, mss))" and d: "maxDepth < 2 ^ 32"
  shows "valid_group P mpk I 0 (nat t) {1..n} (\<lambda>k. mss ! nat (k - 1))" and "wf_mpk mpk" and "0 < t"
proof -
  let ?poly = "map (\<lambda>i. rZ (Suc i)) [0..<nat (t - 1)]"
  have t: "0 < t" "t \<le> n" "0 \<le> maxDepth" and len: "length mss = nat n"
    and mpk: "mpk_G1 mpk = PowZn P (mpk_G mpk) (rZ 0)" "mpk_MaxDepth mpk = word_of_int maxDepth"
      "length (mpk_H mpk) = nat maxDepth"
    and mss: "\<And>i. i < nat n \<Longrightarrow> mss ! i = \<lparr>ss_A0 = PowZn P (mpk_G2 mpk) (poly_C ?poly (int i + 1) + rZ 0),
        ss_A1 = Set1G1 P, ss_B = replicate (nat maxDepth) (Set1G1 P)\<rparr>"
    using S by (auto simp: Setup_def GenCoef_def Let_def split: if_splits)
  show "wf_mpk mpk" using t d mpk by (simp add: wf_mpk_def uint_word_of_int take_bit_int_eq_self)
  show "0 < t" by (rule t)
  have "polyf (nat t) (share_poly ?poly)"
    using t by (intro polyf_le [OF polyf_share_poly]) simp
  moreover have "valid_shadow P mpk I 0 (rZ 0 + share_poly ?poly (SetInt32 k)) 0 (mss ! nat (k - 1))"
    if "k \<in> {1..n}" for k
  proof -
    have "nat (k - 1) < nat n" "int (nat (k - 1)) + 1 = k" using that by auto
    then show ?thesis using mss [of "nat (k - 1)"] mpk(3)
      by (simp add: valid_shadow_def poly_C_share pbc_one [OF P] add.commute)
  qed
  ultimately show "valid_group P mpk I 0 (nat t) {1..n} (\<lambda>k. mss ! nat (k - 1))"
    unfolding valid_group_def using mpk(1) share_poly_0 by (intro exI [of _ "rZ 0"] exI [of _ "share_poly ?poly"] exI [of _ "\<lambda>_. 0"]) blast
qed

lemma valid_group_cong:
  "(\<And>k. k \<in> K \<Longrightarrow> key k = key' k) \<Longrightarrow> valid_group P mpk I l t K key = valid_group P mpk I l t K key'"
  unfolding valid_group_def by (metis (no_types, lifting))

lemma valid_group_empty:
  assumes "mpk_G1 mpk = PowZn P (mpk_G mpk) alpha"
  shows "valid_group P mpk I l t {} key"
  unfolding valid_group_def using assms polyf_zero
  by (intro exI [of _ alpha] exI [of _ "\<lambda>_. 0"]) (simp del: polyf.simps)

lemma map_Inr_inject: "map Inr xs = (map Inr ys :: ('a + 'b) list) \<longleftrightarrow> xs = ys"
  by (rule inj_map_eq_map) (simp add: inj_def)

lemma key_group_valid:
  assumes P: "pbc_laws P" and g: "key_group P sha mpk ID l t K key"
  shows "valid_group P mpk (hashID sha ID) l t K key \<and> wf_mpk mpk \<and> length ID = 2 * l \<and>
    l \<le> length (mpk_H mpk) \<and> (0 < t \<or> K = {})"
  using g
proof (induction rule: key_group.induct)
  case (root rG rZ maxDepth n t mss)
  from Setup_valid_group [OF P root] show ?case by simp
next
  case (down ID l t K key ext js Cs t' K' r parts key')
  show ?case
  proof (cases "js = []")
    case True
    then have "parts k = []" if "k \<in> K'" for k using down.hyps(8) [OF that] by simp
    then have "K' = {}" using down.hyps(9) by (fastforce simp: KeyRecon_def)
    moreover obtain alpha where "mpk_G1 mpk = PowZn P (mpk_G mpk) alpha"
      using down.IH unfolding valid_group_def by blast
    ultimately show ?thesis using down.IH down.hyps(2,3) valid_group_empty by auto
  next
    case False
    then obtain j where "j \<in> set js" by (cases js) auto
    then have t': "0 < t'" using down.hyps(7) by fastforce
    from group_derivation [OF P _ _ _ down.hyps(2,3,4,5) False down.hyps(6), where sha = sha and ID = ID and Cs = Cs and t' = t' and r = r and K' = K'] down
    obtain parts' key'' where
      step: "\<And>k. map (dealt_part P sha mpk key Cs r (ID @ ext) (Suc l) k) js = map Inr (parts' k)"
        "\<And>k. KeyRecon P (parts' k) js = Inr (key'' k)" and
      valid: "valid_group P mpk (hashID sha (ID @ ext)) (Suc l) t' K' key''"
      by blast
    have "key'' k = key' k" if "k \<in> K'" for k
      using step [of k] down.hyps(8,9) [OF that] by (simp add: map_Inr_inject)
    with valid have "valid_group P mpk (hashID sha (ID @ ext)) (Suc l) t' K' key'"
      using valid_group_cong by blast
    then show ?thesis using down.IH down.hyps(2,3) t' by simp
  qed
qed

end
