(* ===== verification/Hibe_Properties.thy ===== *)
theory Hibe_Properties
  imports Complex_Main Hibe_Proofs
begin

text \<open>
  The properties of the hierarchical threshold scheme: what the functions of
  \<open>hibe/dhibe_Cap.go\<close> achieve together, each stated over the definitions of the theory \<open>Hibe\<close>
  and instantiated on a small pairing (\<open>exponents\<close>) in which a group element is its exponent.
\<close>

section \<open>A pairing to evaluate the scheme on\<close>

definition exponents :: "(rat, rat, rat) pbc" where
  "exponents = \<lparr>MulG1 = (+), PowZn = (*), Set1G1 = 0, MulGT = (+), PairG1 = (*),
     CompressedBytes = (\<lambda>_. []), SetCompressedBytes = (\<lambda>_. 0)\<rparr>"

lemma exponents_laws: "pbc_laws exponents"
  by (simp add: pbc_laws_def exponents_def algebra_simps)

text \<open>A root group of three authorities with threshold two, and a message.\<close>

definition sample_mpk :: "rat MasterPublicKey" where
  "sample_mpk = \<lparr>mpk_MaxDepth = 1, mpk_G = 2, mpk_G1 = 2 * 7, mpk_G2 = 3, mpk_G3 = 4, mpk_H = [5]\<rparr>"

definition sample_keys :: "rat SecretShadow list" where
  "sample_keys = map (\<lambda>i. \<lparr>ss_A0 = 3 * (11 * rat_of_nat i + 7), ss_A1 = 0, ss_B = [0]\<rparr>) [1, 2, 3]"

lemma SetInt32_sample [simp]: "SetInt32 1 = (1 :: rat)" "SetInt32 2 = (2 :: rat)" "SetInt32 3 = (3 :: rat)"
  by (simp_all add: SetInt32_def signed_take_bit_int_eq_self)

lemma sample_Setup:
  "Setup exponents (\<lambda>i. of_nat i + 2) (\<lambda>i. if i = 0 then 7 else 11) 1 3 2 = Inr (Inr (sample_mpk, sample_keys))"
  by (simp add: Setup_def exponents_def GenCoef_def poly_C_def sample_mpk_def sample_keys_def upt_rec)

lemma sample_group: "key_group exponents sha sample_mpk [] 0 2 {1..3} (\<lambda>k. sample_keys ! nat (k - 1))"
  using key_group.root [OF sample_Setup, of sha] by simp

section \<open>Signatures\<close>

text \<open>C1: every group of the authority tree signs for its identity: when at least the
  threshold of its nodes, with distinct indices, sign a message of at least four bytes, every
  partial signature is made, \<open>SignRecon\<close> combines them and \<open>Verify\<close> accepts the result
  under the master public key.\<close>

theorem threshold_signature_verifies:
  assumes "pbc_laws P" and "key_group P sha mpk ID level t K key"
    and "4 \<le> length M" and "set nodes \<subseteq> K" and "t \<le> length nodes" and "nodes \<noteq> []"
    and "distinct (map SetInt32 nodes :: 'z::field list)"
  shows "\<exists>sigs sig. length sigs = length nodes \<and>
     (\<forall>i<length nodes. ShadowSign P (key (nodes ! i)) mpk M (s i :: 'z) = Inr (sigs ! i)) \<and>
     SignRecon P sigs nodes = Inr sig \<and> Verify P sha mpk ID M level sig = Inr True"
proof -
  from key_group_valid [OF assms(1,2)]
  have "valid_group P mpk (hashID sha ID) level t K key" "level \<le> length ID div 2" "level \<le> length (mpk_H mpk)"
    by simp_all
  from group_signature [OF assms(1,3) this assms(4-7)] show ?thesis .
qed

theorem threshold_signature_verifies_witness:
  "\<exists>sigs sig. length sigs = 2 \<and>
     (\<forall>i<2. ShadowSign exponents (sample_keys ! nat ([3, 1] ! i - 1)) sample_mpk [1, 2, 3, 4] (rat_of_nat i + 1) = Inr (sigs ! i)) \<and>
     SignRecon exponents sigs [3, 1] = Inr sig \<and>
     Verify exponents (\<lambda>b. b) sample_mpk [] [1, 2, 3, 4] 0 sig = Inr True"
  using threshold_signature_verifies [OF exponents_laws sample_group, of "[1, 2, 3, 4]" "[3, 1]" "\<lambda>i. rat_of_nat i + 1" "\<lambda>b. b"]
  by (simp add: numeral_2_eq_2)

text \<open>handing keys down the tree never fails and yields a group again: when at least the
  threshold of the nodes of a group runs \<open>ShadowGen\<close> for an authority one level below, every
  partial shadow is made, \<open>KeyRecon\<close> succeeds, and the shadows obtained form a group of the
  next level with the threshold of the coefficients that were dealt.\<close>

theorem key_derivation_total:
  assumes "pbc_laws P" and g: "key_group P sha mpk ID l t K key"
    and "Suc l \<le> length (mpk_H mpk)" and "length ext = 2"
    and "set js \<subseteq> K" and "t \<le> length js" and "js \<noteq> []"
    and "distinct (map SetInt32 js :: 'z::field list)"
    and "\<And>j. j \<in> set js \<Longrightarrow> length (Cs j :: 'z list) < t'"
  shows "\<exists>parts key'.
     (\<forall>k. map (\<lambda>j. ShadowGen P sha (key j) mpk (Cs j) (r j k) (ID @ ext) k (Suc l)) js = map Inr (parts k) \<and>
        KeyRecon P (parts k) js = Inr (key' k)) \<and>
     key_group P sha mpk (ID @ ext) (Suc l) t' K' key'"
proof -
  from key_group_valid [OF assms(1,2)]
  have v: "valid_group P mpk (hashID sha ID) l t K key" "wf_mpk mpk" "length ID = 2 * l" by simp_all
  from group_derivation [OF assms(1) v(2,1,3) assms(3-8), where Cs = Cs and t' = t' and r = r and K' = K'] assms(9)
  obtain parts key' where
    "\<And>k. map (dealt_part P sha mpk key Cs r (ID @ ext) (Suc l) k) js = map Inr (parts k)"
    "\<And>k. KeyRecon P (parts k) js = Inr (key' k)" by blast
  moreover from this have "key_group P sha mpk (ID @ ext) (Suc l) t' K' key'"
    using g assms by (intro key_group.down [where js = js and Cs = Cs and r = r and parts = parts])
  ultimately show ?thesis by (auto simp: dealt_part_def [abs_def])
qed

theorem key_derivation_total_witness:
  "\<exists>parts key'.
     (\<forall>k. map (\<lambda>j. ShadowGen exponents (\<lambda>b. b @ b) (sample_keys ! nat (j - 1)) sample_mpk [2] 1 [48, 49] k 1) [1, 2] =
        map Inr (parts k) \<and> KeyRecon exponents (parts k) [1, 2] = Inr (key' k)) \<and>
     key_group exponents (\<lambda>b. b @ b) sample_mpk [48, 49] 1 2 {1..2} key'"
  using key_derivation_total [OF exponents_laws sample_group [of "\<lambda>b. b @ b"], where ext = "[48, 49]"
      and js = "[1, 2]" and Cs = "\<lambda>_. [2]" and t' = 2 and r = "\<lambda>_ _. 1" and K' = "{1..2}"]
  by (simp add: sample_mpk_def)

text \<open>what \<open>Setup\<close> returns. It refuses exactly when the threshold exceeds the number of
  authorities, it panics exactly when the threshold is accepted and a length it allocates
  (the depth, or the number of coefficients) is negative, and otherwise it deals one shadow per
  authority, each with one element per level.\<close>

theorem Setup_outcome:
  "Setup P rG rZ d n t = Inr (Inl ''secret key would be irrecoverable'') \<and> n < t \<or>
   (\<exists>m. Setup P rG rZ d n t = Inl (Panic m)) \<and> t \<le> n \<and> (d < 0 \<or> t \<le> 0) \<or>
   (\<exists>mpk mss. Setup P rG rZ d n t = Inr (Inr (mpk, mss)) \<and> 0 < t \<and> t \<le> n \<and> 0 \<le> d \<and>
      length mss = nat n \<and> length (mpk_H mpk) = nat d \<and> (\<forall>ss\<in>set mss. length (ss_B ss) = nat d))"
  by (auto simp: Setup_def GenCoef_def Let_def)

theorem Setup_outcome_witness:
  "Setup exponents (\<lambda>_. 1) (\<lambda>_. 1) 1 1 2 = Inr (Inl ''secret key would be irrecoverable'') \<and> (1::int) < 2"
  using Setup_outcome [of exponents "\<lambda>_. 1" "\<lambda>_. 1" 1 1 2] by auto

text \<open>a signature does not bind more than the first four bytes of what is signed: two
  messages of at least four bytes that agree on them are accepted and rejected together.\<close>

theorem Verify_first_four_bytes:
  assumes "4 \<le> length M" and "4 \<le> length M'" and "take 4 M = take 4 M'"
  shows "Verify P sha mpk ID M level sig = Verify P sha mpk ID M' level sig"
  using assms by (simp add: Verify_def h3_def be_uint32_def)

theorem Verify_first_four_bytes_witness:
  "Verify exponents (\<lambda>b. b) sample_mpk [] [1, 2, 3, 4, 99, 100] 0 \<lparr>sig_X = 33818141, sig_Y = 0, sig_Z = 2\<rparr> = Inr True"
proof -
  have "Verify exponents (\<lambda>b. b) sample_mpk [] [1, 2, 3, 4] 0 \<lparr>sig_X = 33818141, sig_Y = 0, sig_Z = 2\<rparr> = Inr True"
    by (simp add: Verify_def h3_def exponents_def sample_mpk_def hashID_def prod_HI_def be_uint32_def)
  then show ?thesis
    by (subst Verify_first_four_bytes [of _ "[1, 2, 3, 4]"]) simp_all
qed

section \<open>Wire formats\<close>

text \<open>What the library documents of its compressed encoding, for the elements concerned: the
  fixed length of the curve and that decoding undoes encoding.\<close>

definition codec_ok :: "('z, 'g, 't) pbc \<Rightarrow> 'g \<Rightarrow> bool" where
  "codec_ok P x \<longleftrightarrow> length (CompressedBytes P x) = 65 \<and> SetCompressedBytes P (CompressedBytes P x) = x"

definition octets :: "(rat, 8 word, rat) pbc" where
  "octets = \<lparr>MulG1 = (\<lambda>a b. a), PowZn = (\<lambda>a x. a), Set1G1 = 0, MulGT = (+), PairG1 = (\<lambda>a b. 0),
     CompressedBytes = (\<lambda>x. replicate 64 0 @ [x]), SetCompressedBytes = last\<rparr>"

lemma octets_codec: "codec_ok octets x"
  by (simp add: codec_ok_def octets_def)

text \<open>C37: the compressed form of a signature is \<open>HibeSigLength\<close> bytes long and decodes to the
  signature.\<close>

theorem sig_compressed_roundtrip:
  assumes "codec_ok P (sig_X sig)" and "codec_ok P (sig_Y sig)" and "codec_ok P (sig_Z sig)"
  shows "length (SigToCompressedBytes P sig) = HibeSigLength \<and>
     CompressedBytesToSig P (SigToCompressedBytes P sig) = Inr sig"
  using assms
  by (simp add: codec_ok_def SigToCompressedBytes_def SIGToBytes_def CompressedBytesToSig_def HibeSigLength_def Let_def)

theorem sig_compressed_roundtrip_witness:
  "CompressedBytesToSig octets (SigToCompressedBytes octets \<lparr>sig_X = 1, sig_Y = 2, sig_Z = 3\<rparr>) =
     Inr \<lparr>sig_X = 1, sig_Y = 2, sig_Z = 3\<rparr>"
  using sig_compressed_roundtrip [OF octets_codec octets_codec octets_codec] by blast

text \<open>C38: the byte forms of a secret shadow, of the master public key and of a signature decode to what was encoded, when the codec of the
  curve library gives back each of their elements.\<close>

theorem key_bytes_roundtrip:
  assumes "\<And>x. x \<in> {ss_A0 ss, ss_A1 ss} \<union> set (ss_B ss) \<Longrightarrow> codec_ok P x"
    and "\<And>x. x \<in> {mpk_G mpk, mpk_G1 mpk, mpk_G2 mpk, mpk_G3 mpk} \<union> set (mpk_H mpk) \<Longrightarrow> codec_ok P x"
    and "\<And>x. x \<in> {sig_X sig, sig_Y sig, sig_Z sig} \<Longrightarrow> codec_ok P x"
  shows "BytesToShadow P (ShadowToBytes P ss) = ss \<and> BytesToMasterPubkey P (MasterPubkeyToBytes P mpk) = mpk \<and>
    BytesToSIG P (SIGToBytes P sig) = sig"
proof (intro conjI)
  have "map (\<lambda>x. SetCompressedBytes P (CompressedBytes P x)) (ss_B ss) = ss_B ss"
    using assms(1) by (intro map_idI) (simp add: codec_ok_def)
  then show "BytesToShadow P (ShadowToBytes P ss) = ss"
    using assms(1) by (simp add: BytesToShadow_def ShadowToBytes_def codec_ok_def comp_def)
  have "map (\<lambda>x. SetCompressedBytes P (CompressedBytes P x)) (mpk_H mpk) = mpk_H mpk"
    using assms(2) by (intro map_idI) (simp add: codec_ok_def)
  then show "BytesToMasterPubkey P (MasterPubkeyToBytes P mpk) = mpk"
    using assms(2) by (simp add: BytesToMasterPubkey_def MasterPubkeyToBytes_def codec_ok_def comp_def)
  show "BytesToSIG P (SIGToBytes P sig) = sig"
    using assms(3) by (simp add: BytesToSIG_def SIGToBytes_def codec_ok_def)
qed

theorem key_bytes_roundtrip_witness:
  "BytesToShadow octets (ShadowToBytes octets \<lparr>ss_A0 = 1, ss_A1 = 2, ss_B = [3, 4]\<rparr>) = \<lparr>ss_A0 = 1, ss_A1 = 2, ss_B = [3, 4]\<rparr> \<and>
   BytesToMasterPubkey octets (MasterPubkeyToBytes octets \<lparr>mpk_MaxDepth = 3, mpk_G = 1, mpk_G1 = 2, mpk_G2 = 3, mpk_G3 = 4, mpk_H = [5, 6, 7]\<rparr>) =
     \<lparr>mpk_MaxDepth = 3, mpk_G = 1, mpk_G1 = 2, mpk_G2 = 3, mpk_G3 = 4, mpk_H = [5, 6, 7]\<rparr> \<and>
   BytesToSIG octets (SIGToBytes octets \<lparr>sig_X = 1, sig_Y = 2, sig_Z = 3\<rparr>) = \<lparr>sig_X = 1, sig_Y = 2, sig_Z = 3\<rparr>"
  using key_bytes_roundtrip [OF octets_codec octets_codec octets_codec] by blast

end
