(* ===== verification/Pbft_Types.thy ===== *)
theory Pbft_Types
  imports Zkhc_Prelude
begin

text \<open>
  The data of the PBFT replica: the messages of \<open>core/types/pbft_messages.go\<close>, the structures
  of \<open>consensus/pbft/pbft-core.go\<close>, and the record of the replica's state.

  Strings and byte slices of the sources are both \<open>string\<close> (a HOL character is eight bits
  wide), so the conversions between them are the identity. Pointers to messages are the
  messages: no message is changed after it is stored. The type of blocks is a parameter; what
  the replica asks of a block, of the codecs and of the signing key is in the record \<open>env\<close>,
  together with the fields of \<open>pbftCore\<close> that never change after \<open>newPbftCore\<close>.
\<close>

section \<open>Hashes\<close>

definition HashLength :: nat where
  "HashLength = 32"

text \<open>\<open>SetBytes\<close> of a zero hash: keep the last 32 bytes, pad with zeros on the left.\<close>

definition BytesToHash :: "string \<Rightarrow> string" where
  "BytesToHash b =
     (let b = (if length b > HashLength then drop (length b - HashLength) b else b)
      in replicate (HashLength - length b) (CHR 0x00) @ b)"

definition StringToHash :: "string \<Rightarrow> string" where
  "StringToHash s = BytesToHash s"

lemma length_BytesToHash [simp]: "length (BytesToHash b) = 32"
  by (simp add: BytesToHash_def HashLength_def Let_def)

lemma StringToHash_id: "length d = 32 \<Longrightarrow> StringToHash d = d"
  by (simp add: StringToHash_def BytesToHash_def HashLength_def)

section \<open>Messages\<close>

record 'b PrePrepare =
  pp_View :: u64
  pp_SequenceNumber :: u64
  pp_BlockHash :: string
  pp_Block :: 'b
  pp_ReplicaId :: u64

record Prepare =
  p_View :: u64
  p_SequenceNumber :: u64
  p_BlockHash :: string
  p_ReplicaId :: u64

record Commit =
  c_View :: u64
  c_SequenceNumber :: u64
  c_BlockHash :: string
  c_ReplicaId :: u64

record Checkpoint =
  ck_SequenceNumber :: u64
  ck_ReplicaId :: u64
  ck_Id :: string

record ViewChange_C =
  vcc_SequenceNumber :: u64
  vcc_Id :: string

record ViewChange_PQ =
  pq_SequenceNumber :: u64
  pq_BlockHash :: string
  pq_View :: u64

record ViewChange =
  vc_View :: u64
  vc_H :: u64
  vc_Cset :: "ViewChange_C list"
  vc_Pset :: "ViewChange_PQ list"
  vc_Qset :: "ViewChange_PQ list"
  vc_ReplicaId :: u64
  vc_Signature :: string
  vc_Signer :: string

record XSet =
  xs_Seq :: u64
  xs_Hash :: string

record NewView =
  nv_View :: u64
  nv_Vset :: "ViewChange list"
  nv_Xset :: "XSet list"
  nv_ReplicaId :: u64

text \<open>The payload of a message, and the code that is sent beside it.\<close>

datatype 'b payload =
    PL_PrePrepare "'b PrePrepare"
  | PL_Prepare Prepare
  | PL_Commit Commit
  | PL_Checkpoint Checkpoint
  | PL_ViewChange ViewChange
  | PL_NewView NewView

record 'b PbftMessage =
  m_Sender :: u64
  m_PayloadCode :: u64
  m_Payload :: "'b payload"

definition PrePrepareMsg :: u64 where "PrePrepareMsg = 0x01"
definition PrepareMsg :: u64 where "PrepareMsg = 0x02"
definition CommitMsg :: u64 where "CommitMsg = 0x03"
definition CheckpointMsg :: u64 where "CheckpointMsg = 0x04"
definition ViewChangeMsg :: u64 where "ViewChangeMsg = 0x05"
definition NewViewMsg :: u64 where "NewViewMsg = 0x06"

lemmas msg_codes = PrePrepareMsg_def PrepareMsg_def CommitMsg_def CheckpointMsg_def
  ViewChangeMsg_def NewViewMsg_def

definition GetPrePrepare :: "'b PbftMessage \<Rightarrow> 'b PrePrepare option" where
  "GetPrePrepare m = (case m_Payload m of
     PL_PrePrepare x \<Rightarrow> if m_PayloadCode m = PrePrepareMsg then Some x else None | _ \<Rightarrow> None)"

definition GetPrepare :: "'b PbftMessage \<Rightarrow> Prepare option" where
  "GetPrepare m = (case m_Payload m of
     PL_Prepare x \<Rightarrow> if m_PayloadCode m = PrepareMsg then Some x else None | _ \<Rightarrow> None)"

definition GetCommit :: "'b PbftMessage \<Rightarrow> Commit option" where
  "GetCommit m = (case m_Payload m of
     PL_Commit x \<Rightarrow> if m_PayloadCode m = CommitMsg then Some x else None | _ \<Rightarrow> None)"

definition GetCheckpoint :: "'b PbftMessage \<Rightarrow> Checkpoint option" where
  "GetCheckpoint m = (case m_Payload m of
     PL_Checkpoint x \<Rightarrow> if m_PayloadCode m = CheckpointMsg then Some x else None | _ \<Rightarrow> None)"

definition GetViewChange :: "'b PbftMessage \<Rightarrow> ViewChange option" where
  "GetViewChange m = (case m_Payload m of
     PL_ViewChange x \<Rightarrow> if m_PayloadCode m = ViewChangeMsg then Some x else None | _ \<Rightarrow> None)"

definition GetNewView :: "'b PbftMessage \<Rightarrow> NewView option" where
  "GetNewView m = (case m_Payload m of
     PL_NewView x \<Rightarrow> if m_PayloadCode m = NewViewMsg then Some x else None | _ \<Rightarrow> None)"

section \<open>Structures of the replica\<close>

record checkpointMessage =
  cm_seqNo :: u64
  cm_id :: string

record stateUpdateTarget =
  sut_chkpt :: checkpointMessage
  sut_replicas :: "u64 list"

record qidx =
  q_d :: string
  q_n :: u64

record msgID =
  mi_v :: u64
  mi_n :: u64

record vcidx =
  vi_v :: u64
  vi_id :: u64

record 'b msgCert =
  digest :: string
  prePrepare :: "'b PrePrepare option"
  sentPrepare :: bool
  prepare :: "Prepare list"
  sentCommit :: bool
  commit :: "Commit list"

definition empty_cert :: "'b msgCert" where
  "empty_cert = \<lparr>digest = '''', prePrepare = None, sentPrepare = False, prepare = [],
     sentCommit = False, commit = []\<rparr>"

text \<open>
  A timer of \<open>consensus/util/events/events.go\<close>: the duration it counts down from, when it
  counts down. \<open>Reset\<close> restarts a running timer, \<open>SoftReset\<close> leaves it alone, \<open>Stop\<close> stops
  it and clears a pending event.
\<close>

type_synonym duration = u64
type_synonym timer = "duration option"

definition SoftReset :: "duration \<Rightarrow> timer \<Rightarrow> timer" where
  "SoftReset d t = (case t of None \<Rightarrow> Some d | Some d' \<Rightarrow> Some d')"

definition timer_Reset :: "duration \<Rightarrow> timer \<Rightarrow> timer" where
  "timer_Reset d t = Some d"

definition timer_Stop :: "timer \<Rightarrow> timer" where
  "timer_Stop t = None"

text \<open>The events that the replica processes.\<close>

datatype 'b event =
    viewChangeTimerEvent
  | MessageEvent "'b PbftMessage"
  | stateUpdateEvent checkpointMessage bool
  | PrePrepareEvent "'b PrePrepare"
  | PrepareEvent Prepare
  | CommitEvent Commit
  | CheckpointEvent Checkpoint
  | ViewChangeEvent ViewChange
  | NewViewEvent NewView
  | CommittedEvent
  | CommittedEvent2
  | ExecDoneEvent
  | nullRequestEvent
  | viewChangeQuorumEvent
  | viewChangedEvent
  | viewChangeResendTimerEvent
  | UnknownEvent

text \<open>
  What the replica is given: the configuration that \<open>newPbftCore\<close> reads, and the operations
  of code that the replica calls (hash and JSON form of a block, the JSON form of a P or Q set,
  base64, the signing key, public key recovery, the chain's state, random draws).
\<close>

record 'b env =
  f :: int
  N :: int
  replica_id :: u64
  K :: u64
  logMultiplier :: u64
  byzantine :: bool
  requestTimeout :: duration
  vcResendTimeout :: duration
  nullRequestTimeout :: duration
  signer :: string
  signFn :: "(string \<Rightarrow> string) option"
  Hash :: "'b \<Rightarrow> string"
  MarshalJSON :: "'b \<Rightarrow> string option"
  UnmarshalJSON :: "string \<Rightarrow> 'b option"
  MarshalPQ :: "ViewChange_PQ list \<Rightarrow> string"
  UnmarshalPQ :: "string \<Rightarrow> ViewChange_PQ list option"
  EncodeB64 :: "string \<Rightarrow> string"
  DecodeB64 :: "string \<Rightarrow> string option"
  UnmarshalInfo :: "string \<Rightarrow> bool"
  rlpHash :: "u64 \<times> u64 \<times> ViewChange_C list \<times> ViewChange_PQ list \<times> ViewChange_PQ list \<times> u64 \<Rightarrow> string"
  Ecrecover :: "string \<Rightarrow> string \<Rightarrow> string option"
  Keccak256 :: "string \<Rightarrow> string"
  chainState :: string
  Intn3 :: "nat \<Rightarrow> nat"
  handshakeFails :: bool

text \<open>
  \<open>newPbftCore\<close> reads the period of automatic view changes and the timeout of a view change from
  the configuration and then sets both to constants (30, and 30 seconds in nanoseconds).
\<close>

definition viewChangePeriod :: u64 where
  "viewChangePeriod = 30"

definition newViewTimeout :: duration where
  "newViewTimeout = 30 * 1000000000"

text \<open>The log size, \<open>logMultiplier * K\<close>, and \<open>replicaCount\<close>, which \<open>newPbftCore\<close> sets to \<open>N\<close>.\<close>

definition log_L :: "'b env \<Rightarrow> u64" where
  "log_L E = logMultiplier E * K E"

definition replicaCount :: "'b env \<Rightarrow> int" where
  "replicaCount E = N E"

text \<open>
  The state: the fields of \<open>pbftCore\<close> that change, the flag of its helper, its database, the
  package variables it uses, and what it has sent on its channels.
\<close>

record 'b pbftCore =
  activeView :: bool
  h :: u64
  LastExec :: u64
  seqNo :: u64
  view :: u64
  chkpts :: "(u64 \<times> string) list"
  pset :: "(u64 \<times> ViewChange_PQ) list"
  qset :: "(qidx \<times> ViewChange_PQ) list"
  skipInProgress :: bool
  stateTransferring :: bool
  highStateTarget :: "stateUpdateTarget option"
  hChkpts :: "(u64 \<times> u64) list"
  currentExec :: "u64 option"
  timerActive :: bool
  vcResendTimer :: timer
  newViewTimer :: timer
  lastNewViewTimeout :: duration
  outstandingBlocks :: "(string \<times> 'b) list"
  nullRequestTimer :: timer
  viewChangeSeqNo :: u64
  missingReqBatches :: "(string \<times> bool) list"
  blockStore :: "(string \<times> 'b) list"
  certStore :: "(msgID \<times> 'b msgCert) list"
  checkpointStore :: "(Checkpoint \<times> bool) list"
  viewChangeStore :: "(vcidx \<times> ViewChange) list"
  newViewStore :: "(u64 \<times> NewView) list"
  valid :: bool
  db :: "(string \<times> string) list"
  ChangeViewFlag :: bool
  SendViewChangeFlag :: bool
  StateTransferFlag :: bool
  vc_flag :: bool
  core_ViewChangeFlag :: bool
  draws :: nat
  commChan :: "'b PbftMessage list"
  finishedChan :: nat
  CommittedBlock :: "'b list"
  minerRestarts :: nat
  synchronised :: nat

type_synonym 'b result = "('b event option \<times> 'b pbftCore) res"

text \<open>
  The handlers that call each other. A handler is given the function that runs a call, so each
  of them is a definition of its own.
\<close>

datatype 'b call =
    ProcessEvent_call "'b event"
  | SendEvent_call "'b event"
  | sendViewChange_call
  | recvViewChange_call ViewChange
  | sendNewView_call
  | recvNewView_call NewView
  | processNewView_call
  | processNewView2_call NewView
  | recvRequestBlock_call 'b
  | sendPrePrepare_call "'b option"
  | resubmitBlockMsges_call
  | recvPrePrepare_call "'b PrePrepare"
  | recvPrepare_call Prepare
  | maybeSendCommit_call string u64 u64
  | recvCommit_call Commit
  | retryStateTransfer_call "stateUpdateTarget option"
  | executeOutstanding_call
  | Checkpoint_call u64 string
  | execDoneSync_call
  | moveWatermarks_call u64
  | recvCheckpoint_call Checkpoint
  | recvReturnBlock_call 'b

type_synonym 'b runner = "'b call \<Rightarrow> 'b pbftCore \<Rightarrow> 'b result"

end
