(* ===== verification/Pbft_Core.thy ===== *)
theory Pbft_Core
  imports Pbft_Types
begin

text \<open>
  The functions of the PBFT replica that do not call a handler: the watermark and quorum
  predicates of \<open>pbft-core.go\<close>, its timers and its broadcast, the sets and selections of
  \<open>viewchange.go\<close>, the persistence of \<open>pbft-persist.go\<close> and \<open>persist.go\<close>, and the check of a
  view-change signature of \<open>pbft.go\<close>.
\<close>

section \<open>Views, watermarks, certificates\<close>

definition primary :: "'b env \<Rightarrow> u64 \<Rightarrow> u64" where
  "primary E n = n mod word_of_int (replicaCount E)"

definition inW :: "'b env \<Rightarrow> 'b pbftCore \<Rightarrow> u64 \<Rightarrow> bool" where
  "inW E s n \<longleftrightarrow> n - h s > 0 \<and> n - h s \<le> log_L E"

text \<open>\<open>inWV\<close> also records that a message of another view was seen.\<close>

definition noteView :: "u64 \<Rightarrow> 'b pbftCore \<Rightarrow> 'b pbftCore" where
  "noteView v s = (if view s \<noteq> v then s\<lparr>ChangeViewFlag := True\<rparr> else s)"

definition inWV :: "'b env \<Rightarrow> 'b pbftCore \<Rightarrow> u64 \<Rightarrow> u64 \<Rightarrow> bool" where
  "inWV E s v n \<longleftrightarrow> view s = v \<and> inW E s n"

definition cert_of :: "'b pbftCore \<Rightarrow> u64 \<Rightarrow> u64 \<Rightarrow> 'b msgCert option" where
  "cert_of s v n = mget (certStore s) \<lparr>mi_v = v, mi_n = n\<rparr>"

text \<open>\<open>getCert\<close>: the certificate of an index, created empty when there is none; the second
  component is the state with the certificate in the store.\<close>

definition getCert :: "u64 \<Rightarrow> u64 \<Rightarrow> 'b pbftCore \<Rightarrow> 'b msgCert \<times> 'b pbftCore" where
  "getCert v n s = (case cert_of s v n of
     Some cert \<Rightarrow> (cert, s)
   | None \<Rightarrow> (empty_cert, s\<lparr>certStore := mput \<lparr>mi_v = v, mi_n = n\<rparr> empty_cert (certStore s)\<rparr>))"

text \<open>An assignment to fields of the certificate that \<open>getCert\<close> returned.\<close>

definition setCert :: "u64 \<Rightarrow> u64 \<Rightarrow> ('b msgCert \<Rightarrow> 'b msgCert) \<Rightarrow> 'b pbftCore \<Rightarrow> 'b pbftCore" where
  "setCert v n upd s = (let (cert, s) = getCert v n s in
     s\<lparr>certStore := mput \<lparr>mi_v = v, mi_n = n\<rparr> (upd cert) (certStore s)\<rparr>)"

definition go_quot :: "int \<Rightarrow> int \<Rightarrow> int" where
  "go_quot a b = sgn a * sgn b * (\<bar>a\<bar> div \<bar>b\<bar>)"

definition intersectionQuorum :: "'b env \<Rightarrow> int" where
  "intersectionQuorum E = go_quot (N E + f E + 2) 2"

definition allCorrectReplicasQuorum :: "'b env \<Rightarrow> int" where
  "allCorrectReplicasQuorum E = N E - f E"

definition prePrepared :: "'b pbftCore \<Rightarrow> string \<Rightarrow> u64 \<Rightarrow> u64 \<Rightarrow> bool" where
  "prePrepared s d v n \<longleftrightarrow>
     (case mget (qset s) \<lparr>q_d = d, q_n = n\<rparr> of Some q \<Rightarrow> pq_View q = v | None \<Rightarrow> False) \<or>
     (case cert_of s v n of
        Some cert \<Rightarrow> (case prePrepare cert of
            Some p \<Rightarrow> pp_View p = v \<and> pp_SequenceNumber p = n \<and> pp_BlockHash p = d
          | None \<Rightarrow> False)
      | None \<Rightarrow> False)"

definition prepared :: "'b env \<Rightarrow> 'b pbftCore \<Rightarrow> string \<Rightarrow> u64 \<Rightarrow> u64 \<Rightarrow> bool" where
  "prepared E s d v n \<longleftrightarrow>
     prePrepared s d v n \<and>
     ((case mget (pset s) n of Some p \<Rightarrow> pq_View p = v \<and> pq_BlockHash p = d | None \<Rightarrow> False) \<or>
      (case cert_of s v n of
         Some cert \<Rightarrow> count_if (\<lambda>p. p_View p = v \<and> p_SequenceNumber p = n \<and> p_BlockHash p = d) (prepare cert)
            \<ge> intersectionQuorum E - 1
       | None \<Rightarrow> False))"

definition committed :: "'b env \<Rightarrow> 'b pbftCore \<Rightarrow> string \<Rightarrow> u64 \<Rightarrow> u64 \<Rightarrow> bool" where
  "committed E s d v n \<longleftrightarrow>
     prepared E s d v n \<and>
     (case cert_of s v n of
        Some cert \<Rightarrow> count_if (\<lambda>p. c_View p = v \<and> c_SequenceNumber p = n) (commit cert)
           \<ge> intersectionQuorum E
      | None \<Rightarrow> False)"

section \<open>Timers and broadcast\<close>

definition softStartTimer :: "duration \<Rightarrow> 'b pbftCore \<Rightarrow> 'b pbftCore" where
  "softStartTimer timeout s =
     s\<lparr>timerActive := True, newViewTimer := SoftReset timeout (newViewTimer s)\<rparr>"

definition startTimer :: "duration \<Rightarrow> 'b pbftCore \<Rightarrow> 'b pbftCore" where
  "startTimer timeout s =
     s\<lparr>timerActive := True, newViewTimer := timer_Reset timeout (newViewTimer s)\<rparr>"

definition stopTimer :: "'b pbftCore \<Rightarrow> 'b pbftCore" where
  "stopTimer s = s\<lparr>timerActive := False, newViewTimer := timer_Stop (newViewTimer s)\<rparr>"

text \<open>The timeout of the null request timer: a backup gives the primary more time.\<close>

definition resetNullRequestTimer :: "'b env \<Rightarrow> 'b pbftCore \<Rightarrow> 'b pbftCore" where
  "resetNullRequestTimer E s =
     (let timeout = nullRequestTimeout E +
            (if primary E (view s) \<noteq> replica_id E then requestTimeout E else 0)
      in s\<lparr>nullRequestTimer := timer_Reset timeout (nullRequestTimer s)\<rparr>)"

definition startTimerIfOutstandingBlocks :: "'b env \<Rightarrow> 'b pbftCore \<Rightarrow> 'b pbftCore" where
  "startTimerIfOutstandingBlocks E s =
     (if skipInProgress s \<or> currentExec s \<noteq> None then s
      else if outstandingBlocks s \<noteq> [] then softStartTimer (requestTimeout E) s
      else if sint (nullRequestTimeout E) > 0 then resetNullRequestTimer E s
      else s)"

text \<open>\<open>innerBroadcast\<close>: a replica configured as Byzantine drops about a third of its messages.\<close>

definition innerBroadcast :: "'b env \<Rightarrow> 'b PbftMessage \<Rightarrow> 'b pbftCore \<Rightarrow> 'b pbftCore" where
  "innerBroadcast E msg s =
     (if byzantine E \<and> Intn3 E (draws s) mod 3 = 1 then s\<lparr>draws := Suc (draws s)\<rparr>
      else (if byzantine E then s\<lparr>draws := Suc (draws s)\<rparr> else s)\<lparr>commChan := commChan s @ [msg]\<rparr>)"

definition updateViewChangeSeqNo :: "'b env \<Rightarrow> 'b pbftCore \<Rightarrow> 'b pbftCore" where
  "updateViewChangeSeqNo E s =
     (if viewChangePeriod \<le> 0 then s
      else s\<lparr>viewChangeSeqNo := seqNo s + viewChangePeriod * K E - seqNo s mod K E\<rparr>)"

definition updateHighStateTarget :: "stateUpdateTarget \<Rightarrow> 'b pbftCore \<Rightarrow> 'b pbftCore" where
  "updateHighStateTarget target s =
     (case highStateTarget s of
        Some t \<Rightarrow> if cm_seqNo (sut_chkpt t) \<ge> cm_seqNo (sut_chkpt target) then s
                 else s\<lparr>highStateTarget := Some target\<rparr>
      | None \<Rightarrow> s\<lparr>highStateTarget := Some target\<rparr>)"

section \<open>The sets of a view change\<close>

definition calcPSet :: "'b env \<Rightarrow> 'b pbftCore \<Rightarrow> (u64 \<times> ViewChange_PQ) list" where
  "calcPSet E s = fold (\<lambda>(idx, cert) ps.
     if prePrepare cert = None then ps
     else if \<not> prepared E s (digest cert) (mi_v idx) (mi_n idx) then ps
     else if (case mget ps (mi_n idx) of Some p \<Rightarrow> pq_View p > mi_v idx | None \<Rightarrow> False) then ps
     else mput (mi_n idx)
       \<lparr>pq_SequenceNumber = mi_n idx, pq_BlockHash = StringToHash (digest cert), pq_View = mi_v idx\<rparr> ps)
     (certStore s) (pset s)"

definition calcQSet :: "'b pbftCore \<Rightarrow> (qidx \<times> ViewChange_PQ) list" where
  "calcQSet s = fold (\<lambda>(idx, cert) qs.
     if prePrepare cert = None then qs
     else if \<not> prePrepared s (digest cert) (mi_v idx) (mi_n idx) then qs
     else let qi = \<lparr>q_d = digest cert, q_n = mi_n idx\<rparr> in
       if (case mget qs qi of Some q \<Rightarrow> pq_View q > mi_v idx | None \<Rightarrow> False) then qs
       else mput qi
         \<lparr>pq_SequenceNumber = mi_n idx, pq_BlockHash = StringToHash (digest cert), pq_View = mi_v idx\<rparr> qs)
     (certStore s) (qset s)"

definition correctViewChange :: "'b env \<Rightarrow> ViewChange \<Rightarrow> bool" where
  "correctViewChange E vc \<longleftrightarrow>
     list_all (\<lambda>p. pq_View p < vc_View vc \<and> pq_SequenceNumber p > vc_H vc \<and>
        pq_SequenceNumber p \<le> vc_H vc + log_L E) (vc_Pset vc @ vc_Qset vc) \<and>
     list_all (\<lambda>c. vcc_SequenceNumber c \<ge> vc_H vc \<and> vcc_SequenceNumber c \<le> vc_H vc + log_L E) (vc_Cset vc)"

definition getViewChanges :: "'b pbftCore \<Rightarrow> ViewChange list" where
  "getViewChanges s = map snd (viewChangeStore s)"

text \<open>The view changes that list a checkpoint, per checkpoint, one entry for each time it is listed.\<close>

definition checkpointVotes :: "ViewChange list \<Rightarrow> (ViewChange_C \<times> ViewChange list) list" where
  "checkpointVotes vset = fold (\<lambda>vc. fold (\<lambda>c m.
     mput c ((case mget m c of Some l \<Rightarrow> l | None \<Rightarrow> []) @ [vc]) m) (vc_Cset vc)) vset []"

definition selectInitialCheckpoint ::
  "'b env \<Rightarrow> ViewChange list \<Rightarrow> ViewChange_C \<times> bool \<times> u64 list" where
  "selectInitialCheckpoint E vset =
     fold (\<lambda>(idx, vcList) (checkpoint, ok, replicas).
        if int (length vcList) \<le> f E then (checkpoint, ok, replicas)
        else if count_if (\<lambda>vc. vc_H vc \<le> vcc_SequenceNumber idx) vset < intersectionQuorum E
        then (checkpoint, ok, replicas)
        else let replicas = map vc_ReplicaId vcList in
          if vcc_SequenceNumber checkpoint \<le> vcc_SequenceNumber idx then (idx, True, replicas)
          else (checkpoint, ok, replicas))
       (checkpointVotes vset) (\<lparr>vcc_SequenceNumber = 0, vcc_Id = ''''\<rparr>, False, [])"

text \<open>Conditions A1 and A2 of the selection of a request for a sequence number.\<close>

definition condA1 :: "'b env \<Rightarrow> ViewChange list \<Rightarrow> u64 \<Rightarrow> ViewChange_PQ \<Rightarrow> bool" where
  "condA1 E vset n em \<longleftrightarrow>
     count_if (\<lambda>mp. \<not> vc_H mp \<ge> n \<and>
        list_all (\<lambda>emp. \<not> (n = pq_SequenceNumber emp \<and>
           \<not> (pq_View emp < pq_View em \<or> (pq_View emp = pq_View em \<and> pq_BlockHash emp = pq_BlockHash em)))) (vc_Pset mp)) vset
     \<ge> intersectionQuorum E"

definition condA2 :: "'b env \<Rightarrow> ViewChange list \<Rightarrow> u64 \<Rightarrow> ViewChange_PQ \<Rightarrow> bool" where
  "condA2 E vset n em \<longleftrightarrow>
     count_if (\<lambda>emp. n = pq_SequenceNumber emp \<and> pq_View emp \<ge> pq_View em \<and> pq_BlockHash emp = pq_BlockHash em)
       (concat (map vc_Qset vset)) \<ge> f E + 1"

datatype assignment = Request string | Null | Stuck

text \<open>The body of the loop over the sequence numbers.\<close>

definition assignOne :: "'b env \<Rightarrow> ViewChange list \<Rightarrow> u64 \<Rightarrow> assignment" where
  "assignOne E vset n =
     (case find (\<lambda>em. condA1 E vset n em \<and> condA2 E vset n em) (concat (map vc_Pset vset)) of
        Some em \<Rightarrow> Request (pq_BlockHash em)
      | None \<Rightarrow>
          if count_if (\<lambda>m. list_all (\<lambda>em. pq_SequenceNumber em \<noteq> n) (vc_Pset m)) vset \<ge> intersectionQuorum E
          then Null else Stuck)"

fun assignLoop :: "'b env \<Rightarrow> ViewChange list \<Rightarrow> u64 list \<Rightarrow> (u64 \<times> string) list \<Rightarrow> u64 \<Rightarrow>
    ((u64 \<times> string) list \<times> u64) option" where
  "assignLoop E vset [] msgList maxN = Some (msgList, maxN)"
| "assignLoop E vset (n # ns) msgList maxN =
     (case assignOne E vset n of
        Request d \<Rightarrow> assignLoop E vset ns (mput n d msgList) n
      | Null \<Rightarrow> assignLoop E vset ns (mput n '''' msgList) maxN
      | Stuck \<Rightarrow> None)"

text \<open>The sequence numbers from \<open>a\<close> up to and including \<open>b\<close>.\<close>

definition u64_range :: "u64 \<Rightarrow> u64 \<Rightarrow> u64 list" where
  "u64_range a b = (if a \<le> b then map (\<lambda>i. a + of_nat i) [0..<Suc (unat (b - a))] else [])"

definition all_u64 :: "u64 list" where
  "all_u64 = map word_of_nat [0..<2 ^ 64]"

text \<open>
  \<open>assignSequenceNumbers\<close>. When \<open>h + L\<close> is the largest \<open>uint64\<close>, the condition of the loop always
  holds: it only ends by a sequence number to which nothing can be assigned.
\<close>

definition assignSequenceNumbers ::
  "'b env \<Rightarrow> ViewChange list \<Rightarrow> u64 \<Rightarrow> (u64 \<times> string) list option res" where
  "assignSequenceNumbers E vset low =
     (if low + log_L E = - 1
      then if list_ex (\<lambda>n. assignOne E vset n = Stuck) all_u64 then Inr None else Inl OutOfDepth
      else Inr (map_option
        (\<lambda>(msgList, maxN). filter (\<lambda>(n, msg). \<not> (n > maxN \<and> msg = '''')) msgList)
        (assignLoop E vset (u64_range (low + 1) (low + log_L E)) [] (low + 1))))"

definition ConvertMapToStruct :: "(u64 \<times> string) list \<Rightarrow> XSet list" where
  "ConvertMapToStruct msgList = map (\<lambda>(n, d). \<lparr>xs_Seq = n, xs_Hash = d\<rparr>) msgList"

section \<open>Signatures of view changes\<close>

definition sigHash :: "'b env \<Rightarrow> ViewChange \<Rightarrow> string" where
  "sigHash E vc = rlpHash E (vc_View vc, vc_H vc, vc_Cset vc, vc_Pset vc, vc_Qset vc, vc_ReplicaId vc)"

definition zeroAddress :: string where
  "zeroAddress = replicate 20 (CHR 0x00)"

text \<open>The recovered address, and whether an error came with it.\<close>

definition ecrecoverFromSignature :: "'b env \<Rightarrow> ViewChange \<Rightarrow> string \<times> bool" where
  "ecrecoverFromSignature E vc = (case Ecrecover E (sigHash E vc) (vc_Signature vc) of
     None \<Rightarrow> (zeroAddress, True)
   | Some pubkey \<Rightarrow> (take 20 (drop 12 (Keccak256 E (drop 1 pubkey))), False))"

definition verifyViewChangeSig :: "'b env \<Rightarrow> ViewChange \<Rightarrow> bool \<times> bool" where
  "verifyViewChangeSig E vc = (let (signer, err) = ecrecoverFromSignature E vc in
     if signer = vc_Signer vc then (True, False) else (False, err))"

text \<open>The guard \<open>!equalSignerFlag || err != nil\<close> of the two callers, negated.\<close>

definition sigAccepted :: "'b env \<Rightarrow> ViewChange \<Rightarrow> bool" where
  "sigAccepted E vc = (let (equalSignerFlag, err) = verifyViewChangeSig E vc in equalSignerFlag \<and> \<not> err)"

section \<open>Persistence\<close>

definition consensus_key :: "string \<Rightarrow> string" where
  "consensus_key key = ''consensus.'' @ key"

definition StoreState :: "string \<Rightarrow> string \<Rightarrow> 'b pbftCore \<Rightarrow> 'b pbftCore" where
  "StoreState key val s = s\<lparr>db := mput (consensus_key key) val (db s)\<rparr>"

definition DelState :: "string \<Rightarrow> 'b pbftCore \<Rightarrow> 'b pbftCore" where
  "DelState key s = s\<lparr>db := mdel (consensus_key key) (db s)\<rparr>"

definition ReadState :: "string \<Rightarrow> 'b pbftCore \<Rightarrow> string option" where
  "ReadState key s = mget (db s) (consensus_key key)"

text \<open>The pairs whose key starts with the prefix; \<open>consensus.\<close> is cut off.\<close>

definition ReadStateSet :: "string \<Rightarrow> 'b pbftCore \<Rightarrow> (string \<times> string) list" where
  "ReadStateSet prefix s =
     map (\<lambda>(k, v). (drop (length ''consensus.'') k, v))
       (filter (\<lambda>(k, v). take (length (consensus_key prefix)) k = consensus_key prefix) (db s))"

text \<open>Decimal digits: \<open>%d\<close> of \<open>Sprintf\<close> and of \<open>Sscanf\<close>.\<close>

fun decimal :: "nat \<Rightarrow> string" where
  "decimal n = (if n < 10 then [char_of (48 + n)] else decimal (n div 10) @ [char_of (48 + n mod 10)])"

declare decimal.simps [simp del]

definition is_digit :: "char \<Rightarrow> bool" where
  "is_digit c \<longleftrightarrow> 48 \<le> (of_char c :: nat) \<and> (of_char c :: nat) \<le> 57"

definition undecimal :: "string \<Rightarrow> nat" where
  "undecimal ds = foldl (\<lambda>n c. n * 10 + (of_char c - 48)) 0 ds"

definition Sscanf_d :: "string \<Rightarrow> string \<Rightarrow> u64 option" where
  "Sscanf_d prefix key =
     (let rest = drop (length prefix) key; ds = takeWhile is_digit rest in
      if take (length prefix) key \<noteq> prefix \<or> ds = [] \<or> undecimal ds \<ge> 2 ^ 64 then None
      else Some (word_of_nat (undecimal ds)))"

definition persistPQSet :: "'b env \<Rightarrow> string \<Rightarrow> ViewChange_PQ list \<Rightarrow> 'b pbftCore \<Rightarrow> 'b pbftCore" where
  "persistPQSet E key pqs = StoreState key (MarshalPQ E pqs)"

definition persistQSet :: "'b env \<Rightarrow> 'b pbftCore \<Rightarrow> 'b pbftCore" where
  "persistQSet E s = persistPQSet E ''qset'' (map snd (calcQSet s)) s"

definition persistPSet :: "'b env \<Rightarrow> 'b pbftCore \<Rightarrow> 'b pbftCore" where
  "persistPSet E s = persistPQSet E ''pset'' (map snd (calcPSet E s)) s"

definition restorePQSet :: "'b env \<Rightarrow> string \<Rightarrow> 'b pbftCore \<Rightarrow> ViewChange_PQ list" where
  "restorePQSet E key s = (case ReadState key s of
     None \<Rightarrow> []
   | Some raw \<Rightarrow> (case UnmarshalPQ E raw of None \<Rightarrow> [] | Some val \<Rightarrow> val))"

text \<open>The callers have just put the block of the digest in the store.\<close>

definition persistRequestBlock :: "'b env \<Rightarrow> string \<Rightarrow> 'b pbftCore \<Rightarrow> 'b pbftCore" where
  "persistRequestBlock E d s = (case mget (blockStore s) d of
     None \<Rightarrow> s
   | Some b \<Rightarrow> (case MarshalJSON E b of None \<Rightarrow> s | Some raw \<Rightarrow> StoreState (''reqBlock.'' @ d) raw s))"

definition persistDelRequestBlock :: "string \<Rightarrow> 'b pbftCore \<Rightarrow> 'b pbftCore" where
  "persistDelRequestBlock d = DelState (''reqBlock.'' @ d)"

definition persistDelAllRequestBlockes :: "'b pbftCore \<Rightarrow> 'b pbftCore" where
  "persistDelAllRequestBlockes s = fold (\<lambda>(k, v). DelState k) (ReadStateSet ''reqBlock.'' s) s"

definition persistCheckpoint :: "u64 \<Rightarrow> string \<Rightarrow> 'b pbftCore \<Rightarrow> 'b pbftCore" where
  "persistCheckpoint n ident = StoreState (''chkpt.'' @ decimal (unat n)) ident"

definition persistDelCheckpoint :: "u64 \<Rightarrow> 'b pbftCore \<Rightarrow> 'b pbftCore" where
  "persistDelCheckpoint n = DelState (''chkpt.'' @ decimal (unat n))"

end
