(* ===== verification/Pbft_Handlers.thy ===== *)
theory Pbft_Handlers
  imports Pbft_Core
begin

text \<open>
  The handlers of the PBFT replica, from \<open>pbft-core.go\<close>, \<open>viewchange.go\<close> and \<open>helper.go\<close>. The
  handlers call each other; each definition takes the function \<open>rec\<close> that runs a call, and
  \<open>exec\<close> ties the knot with a bound on the depth of the calls: \<open>OutOfDepth\<close> means that the
  bound was too small, never that the code failed.
\<close>

section \<open>Calls\<close>

definition finish :: "'b pbftCore \<Rightarrow> 'b result" where
  "finish s = Inr (None, s)"

text \<open>A call whose result is dropped, followed by the rest of the body.\<close>

definition andThen :: "'b result \<Rightarrow> ('b pbftCore \<Rightarrow> 'b result) \<Rightarrow> 'b result" where
  "andThen m k = bind_res m (\<lambda>(_, s). k s)"

definition mkMsg :: "'b env \<Rightarrow> u64 \<Rightarrow> 'b payload \<Rightarrow> 'b PbftMessage" where
  "mkMsg E code p = \<lparr>m_Sender = replica_id E, m_PayloadCode = code, m_Payload = p\<rparr>"

section \<open>Receiving messages\<close>

definition nullRequestHandler :: "'b env \<Rightarrow> 'b runner \<Rightarrow> 'b pbftCore \<Rightarrow> 'b result" where
  "nullRequestHandler E rec s =
     (if \<not> activeView s then finish s
      else if primary E (view s) \<noteq> replica_id E then andThen (rec sendViewChange_call s) finish
      else andThen (rec (sendPrePrepare_call None) s) finish)"

text \<open>\<open>recvMsg\<close>: the event of a message, or none with an error.\<close>

definition recvMsg :: "'b PbftMessage \<Rightarrow> u64 \<Rightarrow> 'b event option" where
  "recvMsg msg senderID =
     (case GetPrePrepare msg of Some x \<Rightarrow> if senderID \<noteq> pp_ReplicaId x then None else Some (PrePrepareEvent x)
    | None \<Rightarrow> (case GetPrepare msg of Some x \<Rightarrow> if senderID \<noteq> p_ReplicaId x then None else Some (PrepareEvent x)
    | None \<Rightarrow> (case GetCommit msg of Some x \<Rightarrow> if senderID \<noteq> c_ReplicaId x then None else Some (CommitEvent x)
    | None \<Rightarrow> (case GetCheckpoint msg of Some x \<Rightarrow> if senderID \<noteq> ck_ReplicaId x then None else Some (CheckpointEvent x)
    | None \<Rightarrow> (case GetViewChange msg of Some x \<Rightarrow> if senderID \<noteq> vc_ReplicaId x then None else Some (ViewChangeEvent x)
    | None \<Rightarrow> (case GetNewView msg of Some x \<Rightarrow> if senderID \<noteq> nv_ReplicaId x then None else Some (NewViewEvent x)
    | None \<Rightarrow> None))))))"

definition recvRequestBlock :: "'b env \<Rightarrow> 'b runner \<Rightarrow> 'b \<Rightarrow> 'b pbftCore \<Rightarrow> 'b result" where
  "recvRequestBlock E rec block s =
     (let d = Hash E block;
          s = s\<lparr>blockStore := mput d block (blockStore s), outstandingBlocks := mput d block (outstandingBlocks s)\<rparr>;
          s = persistRequestBlock E d s;
          s = (if activeView s then softStartTimer (requestTimeout E) s else s)
      in if primary E (view s) = replica_id E \<and> activeView s
         then andThen (rec (sendPrePrepare_call (Some block)) (s\<lparr>nullRequestTimer := timer_Stop (nullRequestTimer s)\<rparr>)) finish
         else finish s)"

definition sendPrePrepare :: "'b env \<Rightarrow> 'b runner \<Rightarrow> 'b option \<Rightarrow> 'b pbftCore \<Rightarrow> 'b result" where
  "sendPrePrepare E rec bo s = (case bo of None \<Rightarrow> finish s | Some block \<Rightarrow>
     (let d = Hash E block; n = seqNo s + 1;
          preprep = \<lparr>pp_View = view s, pp_SequenceNumber = n, pp_BlockHash = d, pp_Block = block, pp_ReplicaId = replica_id E\<rparr>
      in if \<exists>(idx, cert) \<in> set (certStore s). (case prePrepare cert of None \<Rightarrow> False | Some p \<Rightarrow>
              pp_View p = view s \<and> pp_SequenceNumber p \<noteq> n \<and> pp_BlockHash p = d \<and> d \<noteq> '''') then finish s
         else if \<not> inWV E s (view s) n \<or> n > h s + log_L E div 2 then finish s
         else if n > viewChangeSeqNo s then finish s
         else
           let s = s\<lparr>seqNo := n\<rparr>;
               s = setCert (view s) n (\<lambda>c. c\<lparr>prePrepare := Some preprep, digest := d\<rparr>) s;
               s = persistQSet E s;
               s = innerBroadcast E (mkMsg E PrePrepareMsg (PL_PrePrepare preprep)) s
           in andThen (rec (maybeSendCommit_call d (view s) n) s) finish))"

definition resubmitBlockMsges :: "'b env \<Rightarrow> 'b runner \<Rightarrow> 'b pbftCore \<Rightarrow> 'b result" where
  "resubmitBlockMsges E rec s =
     (if primary E (view s) \<noteq> replica_id E then finish s
      else
        let submissionOrder = map snd (filter (\<lambda>(d, block).
              \<not> (\<exists>(idx, cert) \<in> set (certStore s). digest cert = d)) (outstandingBlocks s))
        in bind_res (fold_res (\<lambda>block s. bind_res (rec (recvRequestBlock_call block) s) (\<lambda>(_, s). Inr s)) submissionOrder s) finish)"

definition recvPrePrepare :: "'b env \<Rightarrow> 'b runner \<Rightarrow> 'b PrePrepare \<Rightarrow> 'b pbftCore \<Rightarrow> 'b result" where
  "recvPrePrepare E rec preprep s =
     (if \<not> activeView s then finish s
      else if primary E (view s) \<noteq> pp_ReplicaId preprep then finish s
      else
        let v = pp_View preprep; n = pp_SequenceNumber preprep; bh = pp_BlockHash preprep; s = noteView v s in
        if \<not> inWV E s v n then finish s
        else if n > viewChangeSeqNo s then andThen (rec sendViewChange_call s) finish
        else
          let (cert, s) = getCert v n s in
          if digest cert \<noteq> '''' \<and> digest cert \<noteq> bh then andThen (rec sendViewChange_call s) finish
          else
            let s = setCert v n (\<lambda>c. c\<lparr>prePrepare := Some preprep, digest := bh\<rparr>) s;
                fetch = (\<not> mhas (blockStore s) bh \<and> bh \<noteq> ''''); d = Hash E (pp_Block preprep)
            in if fetch \<and> d \<noteq> bh then finish s
            else
              let s = (if fetch then persistRequestBlock E d (s\<lparr>blockStore := mput d (pp_Block preprep) (blockStore s),
                         outstandingBlocks := mput d (pp_Block preprep) (outstandingBlocks s)\<rparr>) else s);
                  s = softStartTimer (requestTimeout E) s;
                  s = s\<lparr>nullRequestTimer := timer_Stop (nullRequestTimer s)\<rparr>
              in if primary E (view s) \<noteq> replica_id E \<and> prePrepared s bh v n \<and> \<not> sentPrepare cert
                 then
                   let prep = \<lparr>p_View = v, p_SequenceNumber = n, p_BlockHash = bh, p_ReplicaId = replica_id E\<rparr>;
                       s = persistQSet E (setCert v n (\<lambda>c. c\<lparr>sentPrepare := True\<rparr>) s)
                   in andThen (rec (recvPrepare_call prep) s)
                        (\<lambda>s. finish (innerBroadcast E (mkMsg E PrepareMsg (PL_Prepare prep)) s))
                 else finish s)"

definition recvPrepare :: "'b env \<Rightarrow> 'b runner \<Rightarrow> Prepare \<Rightarrow> 'b pbftCore \<Rightarrow> 'b result" where
  "recvPrepare E rec prep s =
     (let v = p_View prep; n = p_SequenceNumber prep in
      if primary E v = p_ReplicaId prep then finish s
      else
        let s = noteView v s in
        if \<not> inWV E s v n then finish s
        else
          let (cert, s) = getCert v n s in
          if \<exists>prevPrep \<in> set (prepare cert). p_ReplicaId prevPrep = p_ReplicaId prep then finish s
          else
            let s = setCert v n (\<lambda>c. c\<lparr>prepare := prepare c @ [prep]\<rparr>) s;
                s = persistPSet E s
            in andThen (rec (maybeSendCommit_call (p_BlockHash prep) v n) s) finish)"

definition maybeSendCommit :: "'b env \<Rightarrow> 'b runner \<Rightarrow> string \<Rightarrow> u64 \<Rightarrow> u64 \<Rightarrow> 'b pbftCore \<Rightarrow> 'b result" where
  "maybeSendCommit E rec d v n s =
     (let (cert, s) = getCert v n s in
      if prepared E s d v n \<and> \<not> sentCommit cert
      then
        let com = \<lparr>c_View = v, c_SequenceNumber = n, c_BlockHash = d, c_ReplicaId = replica_id E\<rparr>;
            s = setCert v n (\<lambda>c. c\<lparr>sentCommit := True\<rparr>) s
        in andThen (rec (recvCommit_call com) s)
             (\<lambda>s. finish (innerBroadcast E (mkMsg E CommitMsg (PL_Commit com)) s))
      else finish s)"

definition recvCommit :: "'b env \<Rightarrow> 'b runner \<Rightarrow> Commit \<Rightarrow> 'b pbftCore \<Rightarrow> 'b result" where
  "recvCommit E rec com s =
     (let v = c_View com; n = c_SequenceNumber com; s = noteView v s in
      if \<not> inWV E s v n then finish s
      else
        let (cert, s) = getCert v n s in
        if \<exists>prevCommit \<in> set (commit cert). c_ReplicaId prevCommit = c_ReplicaId com then finish s
        else
          let s = setCert v n (\<lambda>c. c\<lparr>commit := commit c @ [com]\<rparr>) s in
          if committed E s (c_BlockHash com) v n
          then
            let s = (stopTimer s)\<lparr>lastNewViewTimeout := newViewTimeout,
                       outstandingBlocks := mdel (c_BlockHash com) (outstandingBlocks s)\<rparr>
            in andThen (rec executeOutstanding_call s)
                 (\<lambda>s. if n = viewChangeSeqNo s then andThen (rec sendViewChange_call s) finish else finish s)
          else finish s)"

section \<open>State transfer\<close>

definition retryStateTransfer :: "'b env \<Rightarrow> 'b runner \<Rightarrow> stateUpdateTarget option \<Rightarrow> 'b pbftCore \<Rightarrow> 'b result" where
  "retryStateTransfer E rec optional s =
     (if currentExec s \<noteq> None then finish s
      else if stateTransferring s then finish s
      else (case (case optional of Some t \<Rightarrow> Some t | None \<Rightarrow> highStateTarget s) of
          None \<Rightarrow> finish s
        | Some target \<Rightarrow>
            let s = s\<lparr>stateTransferring := True\<rparr> in
            if UnmarshalInfo E (cm_id (sut_chkpt target))
            then andThen (rec (SendEvent_call (stateUpdateEvent (sut_chkpt target) True)) s) finish
            else finish s))"

definition stateTransfer :: "'b runner \<Rightarrow> stateUpdateTarget option \<Rightarrow> 'b pbftCore \<Rightarrow> 'b result" where
  "stateTransfer rec optional s =
     (let s = (if \<not> skipInProgress s then s\<lparr>skipInProgress := True, valid := False\<rparr> else s)
      in andThen (rec (retryStateTransfer_call optional) s) finish)"

section \<open>Execution\<close>

definition executeOne :: "'b env \<Rightarrow> 'b runner \<Rightarrow> msgID \<Rightarrow> 'b pbftCore \<Rightarrow> (bool \<times> 'b pbftCore) res" where
  "executeOne E rec idx s = (case mget (certStore s) idx of None \<Rightarrow> Inr (False, s) | Some cert \<Rightarrow>
     (case prePrepare cert of None \<Rightarrow> Inr (False, s) | Some preprep \<Rightarrow>
       if mi_n idx \<noteq> LastExec s + 1 then Inr (False, s)
       else if skipInProgress s then Inr (False, s)
       else if \<not> committed E s (digest cert) (mi_v idx) (mi_n idx) then Inr (False, s)
       else
         let s = s\<lparr>currentExec := Some (mi_n idx)\<rparr> in
         if digest cert = '''' then bind_res (rec execDoneSync_call s) (\<lambda>(_, s). Inr (True, s))
         else if primary E (view s) = replica_id E then Inr (True, s\<lparr>finishedChan := Suc (finishedChan s)\<rparr>)
         else Inr (True, s\<lparr>CommittedBlock := CommittedBlock s @ [pp_Block preprep]\<rparr>)))"

fun executeLoop :: "'b env \<Rightarrow> 'b runner \<Rightarrow> msgID list \<Rightarrow> 'b pbftCore \<Rightarrow> 'b pbftCore res" where
  "executeLoop E rec [] s = Inr s"
| "executeLoop E rec (idx # idxs) s =
     bind_res (executeOne E rec idx s) (\<lambda>(stop, s). if stop then Inr s else executeLoop E rec idxs s)"

definition executeOutstanding :: "'b env \<Rightarrow> 'b runner \<Rightarrow> 'b pbftCore \<Rightarrow> 'b result" where
  "executeOutstanding E rec s =
     (if currentExec s \<noteq> None then finish s
      else bind_res (executeLoop E rec (mkeys (certStore s)) s)
        (\<lambda>s. finish (startTimerIfOutstandingBlocks E s)))"

definition handleCheckpoint :: "'b env \<Rightarrow> 'b runner \<Rightarrow> u64 \<Rightarrow> string \<Rightarrow> 'b pbftCore \<Rightarrow> 'b result" where
  "handleCheckpoint E rec n ident s =
     (if n mod K E \<noteq> 0 then finish s
      else
        let idAsString = EncodeB64 E ident;
            chkpt = \<lparr>ck_SequenceNumber = n, ck_ReplicaId = replica_id E, ck_Id = idAsString\<rparr>;
            s = s\<lparr>chkpts := mput n idAsString (chkpts s)\<rparr>;
            s = persistCheckpoint n ident s
        in andThen (rec (recvCheckpoint_call chkpt) s)
             (\<lambda>s. finish (innerBroadcast E (mkMsg E CheckpointMsg (PL_Checkpoint chkpt)) s)))"

definition execDoneSync :: "'b env \<Rightarrow> 'b runner \<Rightarrow> 'b pbftCore \<Rightarrow> 'b result" where
  "execDoneSync E rec s =
     andThen
       (case currentExec s of
          Some n \<Rightarrow>
            let s = s\<lparr>LastExec := n\<rparr> in
            if n mod K E = 0 then rec (Checkpoint_call n (chainState E)) s else finish s
        | None \<Rightarrow> finish (s\<lparr>skipInProgress := True\<rparr>))
       (\<lambda>s. andThen (rec executeOutstanding_call (s\<lparr>currentExec := None\<rparr>)) finish)"

section \<open>Checkpoints and watermarks\<close>

text \<open>What \<open>moveWatermarks\<close> drops before it moves the low watermark to \<open>lowH\<close>.\<close>

definition dropBelow :: "u64 \<Rightarrow> 'b pbftCore \<Rightarrow> 'b pbftCore" where
  "dropBelow lowH s =
     (let dead = filter (\<lambda>(idx, cert). mi_n idx \<le> lowH) (certStore s);
          s = fold (\<lambda>(idx, cert) s. (persistDelRequestBlock (digest cert) s)\<lparr>
                 blockStore := mdel (digest cert) (blockStore s), certStore := mdel idx (certStore s)\<rparr>) dead s;
          s = s\<lparr>checkpointStore := mdel_if (\<lambda>c. ck_SequenceNumber c \<le> lowH) (checkpointStore s),
                pset := mdel_if (\<lambda>n. n \<le> lowH) (pset s),
                qset := mdel_if (\<lambda>idx. q_n idx \<le> lowH) (qset s)\<rparr>;
          old = filter (\<lambda>n. n < lowH) (mkeys (chkpts s))
      in fold (\<lambda>n s. persistDelCheckpoint n (s\<lparr>chkpts := mdel n (chkpts s)\<rparr>)) old s)"

definition moveWatermarks :: "'b env \<Rightarrow> 'b runner \<Rightarrow> u64 \<Rightarrow> 'b pbftCore \<Rightarrow> 'b result" where
  "moveWatermarks E rec n s =
     (let lowH = n div K E * K E
      in andThen (rec resubmitBlockMsges_call ((dropBelow lowH s)\<lparr>h := lowH\<rparr>)) finish)"

definition weakCheckpointSetOutOfRange ::
  "'b env \<Rightarrow> 'b runner \<Rightarrow> Checkpoint \<Rightarrow> 'b pbftCore \<Rightarrow> (bool \<times> 'b pbftCore) res" where
  "weakCheckpointSetOutOfRange E rec chkpt s =
     (let hi = h s + log_L E in
      if ck_SequenceNumber chkpt < hi
      then Inr (False, s\<lparr>hChkpts := mdel (ck_ReplicaId chkpt) (hChkpts s)\<rparr>)
      else
        let s = s\<lparr>hChkpts := mput (ck_ReplicaId chkpt) (ck_SequenceNumber chkpt) (hChkpts s)\<rparr> in
        if int (length (hChkpts s)) \<ge> f E + 1
        then
          let chkptSeqNumArray = sort (map snd (hChkpts s));
              s = s\<lparr>hChkpts := filter (\<lambda>(replicaID, hChkpt). \<not> hChkpt < hi) (hChkpts s)\<rparr>;
              i = int (length chkptSeqNumArray) - (f E + 1)
          in if i \<ge> int (length chkptSeqNumArray) then Inl (Panic ''index out of range'')
          else
            let m = chkptSeqNumArray ! nat i in
            if m > hi
            then bind_res (rec (moveWatermarks_call m) (persistDelAllRequestBlockes (s\<lparr>blockStore := []\<rparr>)))
              (\<lambda>(_, s). Inr (True, stopTimer (s\<lparr>outstandingBlocks := [], skipInProgress := True, valid := False\<rparr>)))
            else Inr (False, s)
        else Inr (False, s))"

definition witnessCheckpointWeakCert :: "'b env \<Rightarrow> 'b runner \<Rightarrow> Checkpoint \<Rightarrow> 'b pbftCore \<Rightarrow> 'b result" where
  "witnessCheckpointWeakCert E rec chkpt s =
     (let found = map ck_ReplicaId (filter (\<lambda>t. ck_SequenceNumber t = ck_SequenceNumber chkpt \<and> ck_Id t = ck_Id chkpt)
            (mkeys (checkpointStore s)));
          size = nat (f E + 1);
          checkpointMembers = take size (found @ replicate size 0)
      in case DecodeB64 E (ck_Id chkpt) of None \<Rightarrow> finish s | Some snapshotID \<Rightarrow>
        let target = \<lparr>sut_chkpt = \<lparr>cm_seqNo = ck_SequenceNumber chkpt, cm_id = snapshotID\<rparr>, sut_replicas = checkpointMembers\<rparr>;
            s = updateHighStateTarget target s
        in if skipInProgress s then andThen (rec (retryStateTransfer_call (Some target)) s) finish else finish s)"

definition recvCheckpoint :: "'b env \<Rightarrow> 'b runner \<Rightarrow> Checkpoint \<Rightarrow> 'b pbftCore \<Rightarrow> 'b result" where
  "recvCheckpoint E rec chkpt s =
     bind_res (weakCheckpointSetOutOfRange E rec chkpt s) (\<lambda>(out, s).
       if out then finish s
       else if \<not> inW E s (ck_SequenceNumber chkpt) then finish s
       else
         let n = ck_SequenceNumber chkpt;
             s = s\<lparr>checkpointStore := mput chkpt True (checkpointStore s)\<rparr>;
             same = filter (\<lambda>t. ck_SequenceNumber t = n) (mkeys (checkpointStore s));
             diffValues = remdups (ck_Id chkpt # map ck_Id same);
             matching = count_if (\<lambda>t. ck_Id t = ck_Id chkpt) same
         in if int (length diffValues) > f E + 1 then Inl (Panic ''Network unable to find stable certificate'')
         else if matching = f E + 1 \<and> (case mget (chkpts s) n of Some own \<Rightarrow> own \<noteq> ck_Id chkpt | None \<Rightarrow> False)
         then Inl (Panic ''Own checkpoint different from weak checkpoint certificate'')
         else andThen (if matching = f E + 1 then witnessCheckpointWeakCert E rec chkpt s else finish s) (\<lambda>s.
           if matching < intersectionQuorum E then finish s
           else if \<not> mhas (chkpts s) n
           then if skipInProgress s \<and> n \<ge> h s + log_L E div 2
                then andThen (rec (moveWatermarks_call n) s) finish else finish s
           else andThen (rec (moveWatermarks_call n) s) (rec processNewView_call)))"

definition recvReturnBlock :: "'b env \<Rightarrow> 'b runner \<Rightarrow> 'b \<Rightarrow> 'b pbftCore \<Rightarrow> 'b result" where
  "recvReturnBlock E rec block s =
     (let d = Hash E block in
      if \<not> mhas (missingReqBatches s) d then finish s
      else rec processNewView_call (persistRequestBlock E d
        (s\<lparr>blockStore := mput d block (blockStore s), missingReqBatches := mdel d (missingReqBatches s)\<rparr>)))"

end
