(* ===== verification/Pbft_Replica.thy ===== *)
theory Pbft_Replica
  imports Pbft_Handlers
begin

text \<open>
  The view-change handlers of \<open>viewchange.go\<close>, the event handler \<open>ProcessEvent\<close>, the event loop
  \<open>SendEvent\<close> of \<open>events.go\<close>, the function \<open>exec\<close> that runs the calls, and the construction of a
  replica from its database (\<open>newPbftCore\<close> and \<open>restoreState\<close>).
\<close>

section \<open>View changes\<close>

text \<open>The message that \<open>sendViewChange\<close> builds from the state, before it is signed.\<close>

definition viewChangeOf :: "'b env \<Rightarrow> 'b pbftCore \<Rightarrow> ViewChange" where
  "viewChangeOf E s = \<lparr>vc_View = view s, vc_H = h s,
     vc_Cset = map (\<lambda>(n, ident). \<lparr>vcc_SequenceNumber = n, vcc_Id = ident\<rparr>) (chkpts s),
     vc_Pset = map snd (pset s), vc_Qset = map snd (qset s),
     vc_ReplicaId = replica_id E, vc_Signature = '''', vc_Signer = signer E\<rparr>"

text \<open>The state changes of \<open>sendViewChange\<close> before the message is built.\<close>

definition enterView :: "'b env \<Rightarrow> 'b pbftCore \<Rightarrow> 'b pbftCore" where
  "enterView E s =
     (let s = stopTimer (s\<lparr>SendViewChangeFlag := True\<rparr>);
          s = s\<lparr>newViewStore := mdel (view s) (newViewStore s), view := view s + 1, activeView := False\<rparr>;
          s = s\<lparr>pset := calcPSet E s\<rparr>;
          s = s\<lparr>qset := calcQSet s\<rparr>
      in s\<lparr>certStore := mdel_if (\<lambda>idx. mi_v idx < view s) (certStore s),
           viewChangeStore := mdel_if (\<lambda>idx. vi_v idx < view s) (viewChangeStore s)\<rparr>)"

definition sendViewChange :: "'b env \<Rightarrow> 'b runner \<Rightarrow> 'b pbftCore \<Rightarrow> 'b result" where
  "sendViewChange E rec s =
     (let s = enterView E s; vc = viewChangeOf E s in
      case signFn E of None \<Rightarrow> Inl (Panic ''nil signFn'') | Some sign \<Rightarrow>
        let vc = vc\<lparr>vc_Signature := sign (sigHash E vc)\<rparr>;
            s = innerBroadcast E (mkMsg E ViewChangeMsg (PL_ViewChange vc)) s;
            s = s\<lparr>vcResendTimer := timer_Reset (vcResendTimeout E) (vcResendTimer s)\<rparr>
        in rec (recvViewChange_call vc) s)"

text \<open>The loop over the store that looks for later views: the replicas, and the smallest view.\<close>

definition laterViews :: "'b pbftCore \<Rightarrow> u64 list \<times> u64" where
  "laterViews s = fold (\<lambda>(idx, vc) (replicas, minView).
     if vi_v idx \<le> view s then (replicas, minView)
     else (if vi_id idx \<in> set replicas then replicas else vi_id idx # replicas,
           if minView = 0 \<or> vi_v idx < minView then vi_v idx else minView)) (viewChangeStore s) ([], 0)"

definition recvViewChange :: "'b env \<Rightarrow> 'b runner \<Rightarrow> ViewChange \<Rightarrow> 'b pbftCore \<Rightarrow> 'b result" where
  "recvViewChange E rec vc s =
     (let idx = \<lparr>vi_v = vc_View vc, vi_id = vc_ReplicaId vc\<rparr> in
      if \<not> sigAccepted E vc then finish s
      else if vc_View vc < view s then finish s
      else if \<not> correctViewChange E vc then finish s
      else if mhas (viewChangeStore s) idx
      then finish (if \<not> vc_flag s \<and> sint (nullRequestTimeout E) > 0
                   then (resetNullRequestTimer E s)\<lparr>vc_flag := True\<rparr> else s)
      else
        let s = s\<lparr>viewChangeStore := mput idx vc (viewChangeStore s)\<rparr>;
            (replicas, minView) = laterViews s
        in if int (length replicas) \<ge> f E + 1
        then rec sendViewChange_call (s\<lparr>view := minView - 1\<rparr>)
        else
          let quorum = count_if (\<lambda>idx. vi_v idx = view s) (mkeys (viewChangeStore s)) in
          if \<not> activeView s \<and> vc_View vc = view s \<and> quorum \<ge> allCorrectReplicasQuorum E
          then
            let s = s\<lparr>vcResendTimer := timer_Stop (vcResendTimer s)\<rparr>;
                s = startTimer (lastNewViewTimeout s) s
            in Inr (Some viewChangeQuorumEvent, s\<lparr>lastNewViewTimeout := 2 * lastNewViewTimeout s\<rparr>)
          else finish s)"

definition sendNewView :: "'b env \<Rightarrow> 'b runner \<Rightarrow> 'b pbftCore \<Rightarrow> 'b result" where
  "sendNewView E rec s =
     (if mhas (newViewStore s) (view s) then finish s
      else
        let vset = getViewChanges s; (cp, ok, replicas) = selectInitialCheckpoint E vset in
        if \<not> ok then finish s
        else bind_res (assignSequenceNumbers E vset (vcc_SequenceNumber cp)) (\<lambda>assigned.
          case assigned of None \<Rightarrow> finish s | Some msgList \<Rightarrow>
            let nv = \<lparr>nv_View = view s, nv_Vset = vset, nv_Xset = ConvertMapToStruct msgList, nv_ReplicaId = replica_id E\<rparr>;
                s = innerBroadcast E (mkMsg E NewViewMsg (PL_NewView nv)) s
            in rec processNewView_call (s\<lparr>newViewStore := mput (view s) nv (newViewStore s)\<rparr>)))"

definition recvNewView :: "'b env \<Rightarrow> 'b runner \<Rightarrow> NewView \<Rightarrow> 'b pbftCore \<Rightarrow> 'b result" where
  "recvNewView E rec nv s =
     (if \<not> (nv_View nv > 0 \<and> nv_View nv \<ge> view s \<and> primary E (nv_View nv) = nv_ReplicaId nv \<and>
             \<not> mhas (newViewStore s) (nv_View nv)) then finish s
      else if \<not> list_all (sigAccepted E) (nv_Vset nv) then finish s
      else rec processNewView_call (s\<lparr>newViewStore := mput (nv_View nv) nv (newViewStore s)\<rparr>))"

text \<open>Is there a certificate with a quorum of commits for a sequence number?\<close>

definition hasCommitQuorum :: "'b env \<Rightarrow> 'b pbftCore \<Rightarrow> u64 \<Rightarrow> bool" where
  "hasCommitQuorum E s n \<longleftrightarrow> (\<exists>(idx, cert) \<in> set (certStore s). mi_n idx = n \<and>
     \<not> count_if (\<lambda>p. c_View p = mi_v idx \<and> c_SequenceNumber p = n) (commit cert) < intersectionQuorum E)"

text \<open>The entries of the received X set whose blocks are missing and not yet asked for are noted.\<close>

definition noteMissing :: "XSet list \<Rightarrow> 'b pbftCore \<Rightarrow> 'b pbftCore" where
  "noteMissing xs s = fold (\<lambda>x s.
     if xs_Seq x \<le> h s \<or> xs_Hash x = '''' then s
     else if mhas (blockStore s) (xs_Hash x) \<or> mhas (missingReqBatches s) (xs_Hash x) then s
     else s\<lparr>missingReqBatches := mput (xs_Hash x) True (missingReqBatches s)\<rparr>) xs s"

text \<open>The computed assignments in the order of the received X set: for each of the first entries, the
  computed one with its sequence number, if there is one.\<close>

definition matchXset :: "XSet list \<Rightarrow> XSet list \<Rightarrow> XSet option list" where
  "matchXset msglist xs = map (\<lambda>i. find (\<lambda>x. xs_Seq (xs ! i) = xs_Seq x) msglist) [0..<length msglist]"

definition processNewView :: "'b env \<Rightarrow> 'b runner \<Rightarrow> 'b pbftCore \<Rightarrow> 'b result" where
  "processNewView E rec s = (case mget (newViewStore s) (view s) of None \<Rightarrow> finish s | Some nv \<Rightarrow>
     if activeView s then finish s
     else
       let (cp, ok, replicas) = selectInitialCheckpoint E (nv_Vset nv); cpn = vcc_SequenceNumber cp in
       if \<not> ok then rec sendViewChange_call s
       else
         let spec = (case currentExec s of Some n \<Rightarrow> n | None \<Rightarrow> LastExec s) in
         if spec < cpn \<and> list_all (hasCommitQuorum E s) (u64_range (spec + 1) cpn) then finish s
         else bind_res (assignSequenceNumbers E (nv_Vset nv) cpn) (\<lambda>assigned.
           case assigned of None \<Rightarrow> rec sendViewChange_call s | Some msgList \<Rightarrow>
             let msglist = ConvertMapToStruct msgList; xs = nv_Xset nv in
             if length xs < length msgList then Inl (Panic ''index out of range'')
             else
               let msglist2 = matchXset msglist xs in
               if \<not> (msgList = [] \<and> xs = []) \<and> msglist2 \<noteq> map Some xs then rec sendViewChange_call s
               else andThen (if h s < cpn then rec (moveWatermarks_call cpn) s else finish s) (\<lambda>s.
                 let proceed = (\<lambda>s. let s = noteMissing xs s in
                       if missingReqBatches s = [] then rec (processNewView2_call nv) s else finish s)
                 in if spec < cpn
                 then (case DecodeB64 E (vcc_Id cp) of None \<Rightarrow> finish s | Some snapshotID \<Rightarrow>
                   let target = \<lparr>sut_chkpt = \<lparr>cm_seqNo = cpn, cm_id = snapshotID\<rparr>, sut_replicas = replicas\<rparr>
                   in andThen (stateTransfer rec (Some target) (updateHighStateTarget target s)) proceed)
                 else proceed s)))"

text \<open>The two loops of \<open>processNewView2\<close> over the X set.\<close>

definition adoptEntry :: "'b env \<Rightarrow> XSet \<Rightarrow> 'b pbftCore \<Rightarrow> 'b pbftCore res" where
  "adoptEntry E x s =
     (if xs_Seq x \<le> h s \<or> xs_Hash x = '''' then Inr s
      else (case mget (blockStore s) (xs_Hash x) of
          None \<Rightarrow> Inl (Panic ''nil block'')
        | Some block \<Rightarrow>
            let n = xs_Seq x;
                preprep = \<lparr>pp_View = view s, pp_SequenceNumber = n, pp_BlockHash = Hash E block, pp_Block = block, pp_ReplicaId = replica_id E\<rparr>;
                s = setCert (view s) n (\<lambda>c. c\<lparr>prePrepare := Some preprep, digest := xs_Hash x\<rparr>) s;
                s = (if n > seqNo s then s\<lparr>seqNo := n\<rparr> else s)
            in Inr (persistQSet E s)))"

definition prepareEntry :: "'b env \<Rightarrow> 'b runner \<Rightarrow> XSet \<Rightarrow> 'b pbftCore \<Rightarrow> 'b pbftCore res" where
  "prepareEntry E rec x s =
     (if xs_Hash x = '''' then Inr s
      else (case mget (blockStore s) (xs_Hash x) of
          None \<Rightarrow> Inl (Panic ''nil block'')
        | Some block \<Rightarrow>
            let n = xs_Seq x;
                prep = \<lparr>p_View = view s, p_SequenceNumber = n, p_BlockHash = Hash E block, p_ReplicaId = replica_id E\<rparr>
            in bind_res (if n > h s
                  then rec (recvPrepare_call prep) (setCert (view s) n (\<lambda>c. c\<lparr>sentPrepare := True\<rparr>) s)
                  else finish s)
                (\<lambda>(_, s). Inr (innerBroadcast E (mkMsg E PrepareMsg (PL_Prepare prep)) s))))"

definition processNewView2 :: "'b env \<Rightarrow> 'b runner \<Rightarrow> NewView \<Rightarrow> 'b pbftCore \<Rightarrow> 'b result" where
  "processNewView2 E rec nv s =
     (let s = stopTimer s;
          s = s\<lparr>nullRequestTimer := timer_Stop (nullRequestTimer s), activeView := True,
                newViewStore := mdel (view s - 1) (newViewStore s), seqNo := h s\<rparr>
      in bind_res (fold_res (adoptEntry E) (nv_Xset nv) s) (\<lambda>s.
         let s = updateViewChangeSeqNo E s in
         bind_res
           (if primary E (view s) \<noteq> replica_id E then fold_res (prepareEntry E rec) (nv_Xset nv) s
            else bind_res (rec resubmitBlockMsges_call s) (\<lambda>(_, s). Inr s))
           (\<lambda>s. Inr (Some viewChangedEvent, startTimerIfOutstandingBlocks E s))))"

section \<open>Events\<close>

definition handleStateUpdate :: "'b env \<Rightarrow> 'b runner \<Rightarrow> checkpointMessage \<Rightarrow> bool \<Rightarrow> 'b pbftCore \<Rightarrow> 'b result" where
  "handleStateUpdate E rec update hasTarget s =
     (let s = s\<lparr>stateTransferring := False\<rparr> in
      if \<not> hasTarget \<or> cm_seqNo update < h s
      then (case highStateTarget s of
          None \<Rightarrow> finish s
        | Some t \<Rightarrow> if cm_seqNo update < cm_seqNo (sut_chkpt t)
                   then andThen (rec (retryStateTransfer_call None) s) finish else finish s)
      else andThen (rec (moveWatermarks_call (cm_seqNo update)) (s\<lparr>LastExec := cm_seqNo update\<rparr>)) (\<lambda>s.
        andThen (rec (Checkpoint_call (cm_seqNo update) (cm_id update))
          (s\<lparr>skipInProgress := False, StateTransferFlag := True, valid := True\<rparr>)) (\<lambda>s.
        andThen (rec executeOutstanding_call s) (\<lambda>s.
          let s = (if ChangeViewFlag s
                then (if \<not> SendViewChangeFlag s then s\<lparr>view := view s + 1\<rparr> else s\<lparr>activeView := True\<rparr>)
                       \<lparr>SendViewChangeFlag := False, ChangeViewFlag := False\<rparr>
                else s)
          in finish (if handshakeFails E then s else s\<lparr>synchronised := Suc (synchronised s)\<rparr>)))))"

definition handleEvent :: "'b env \<Rightarrow> 'b runner \<Rightarrow> 'b event \<Rightarrow> 'b pbftCore \<Rightarrow> 'b result" where
  "handleEvent E rec e s = (case e of
     viewChangeTimerEvent \<Rightarrow> andThen (rec sendViewChange_call (s\<lparr>timerActive := False\<rparr>)) finish
   | MessageEvent msg \<Rightarrow> Inr (recvMsg msg (m_Sender msg), s)
   | stateUpdateEvent update hasTarget \<Rightarrow> handleStateUpdate E rec update hasTarget s
   | PrePrepareEvent x \<Rightarrow> andThen (rec (recvPrePrepare_call x) s) finish
   | PrepareEvent x \<Rightarrow> andThen (rec (recvPrepare_call x) s) finish
   | CommitEvent x \<Rightarrow> andThen (rec (recvCommit_call x) s) finish
   | CheckpointEvent x \<Rightarrow> rec (recvCheckpoint_call x) s
   | ViewChangeEvent x \<Rightarrow> rec (recvViewChange_call x) s
   | NewViewEvent x \<Rightarrow> rec (recvNewView_call x) s
   | CommittedEvent \<Rightarrow> Inr (Some ExecDoneEvent, s)
   | CommittedEvent2 \<Rightarrow> Inr (Some CommittedEvent, s)
   | ExecDoneEvent \<Rightarrow> andThen (rec execDoneSync_call s) (\<lambda>s.
       andThen (if skipInProgress s then rec (retryStateTransfer_call None) s else finish s) (rec processNewView_call))
   | nullRequestEvent \<Rightarrow> nullRequestHandler E rec s
   | viewChangeQuorumEvent \<Rightarrow>
       let s = s\<lparr>core_ViewChangeFlag := True\<rparr> in
       if primary E (view s) = replica_id E then rec sendNewView_call s else rec processNewView_call s
   | viewChangedEvent \<Rightarrow>
       finish (s\<lparr>blockStore := [], outstandingBlocks := [], minerRestarts := Suc (minerRestarts s), core_ViewChangeFlag := False\<rparr>)
   | viewChangeResendTimerEvent \<Rightarrow>
       if activeView s then finish s else rec sendViewChange_call (s\<lparr>view := view s - 1\<rparr>)
   | UnknownEvent \<Rightarrow> finish s)"

definition SendEvent :: "'b runner \<Rightarrow> 'b event \<Rightarrow> 'b pbftCore \<Rightarrow> 'b result" where
  "SendEvent rec e s = bind_res (rec (ProcessEvent_call e) s) (\<lambda>(next, s).
     case next of None \<Rightarrow> finish s | Some e' \<Rightarrow> rec (SendEvent_call e') s)"

section \<open>Running calls\<close>

definition dispatch :: "'b env \<Rightarrow> 'b runner \<Rightarrow> 'b runner" where
  "dispatch E rec c = (case c of
     ProcessEvent_call e \<Rightarrow> handleEvent E rec e
   | SendEvent_call e \<Rightarrow> SendEvent rec e
   | sendViewChange_call \<Rightarrow> sendViewChange E rec
   | recvViewChange_call vc \<Rightarrow> recvViewChange E rec vc
   | sendNewView_call \<Rightarrow> sendNewView E rec
   | recvNewView_call nv \<Rightarrow> recvNewView E rec nv
   | processNewView_call \<Rightarrow> processNewView E rec
   | processNewView2_call nv \<Rightarrow> processNewView2 E rec nv
   | recvRequestBlock_call b \<Rightarrow> recvRequestBlock E rec b
   | sendPrePrepare_call bo \<Rightarrow> sendPrePrepare E rec bo
   | resubmitBlockMsges_call \<Rightarrow> resubmitBlockMsges E rec
   | recvPrePrepare_call x \<Rightarrow> recvPrePrepare E rec x
   | recvPrepare_call x \<Rightarrow> recvPrepare E rec x
   | maybeSendCommit_call d v n \<Rightarrow> maybeSendCommit E rec d v n
   | recvCommit_call x \<Rightarrow> recvCommit E rec x
   | retryStateTransfer_call t \<Rightarrow> retryStateTransfer E rec t
   | executeOutstanding_call \<Rightarrow> executeOutstanding E rec
   | Checkpoint_call n ident \<Rightarrow> handleCheckpoint E rec n ident
   | execDoneSync_call \<Rightarrow> execDoneSync E rec
   | moveWatermarks_call n \<Rightarrow> moveWatermarks E rec n
   | recvCheckpoint_call x \<Rightarrow> recvCheckpoint E rec x
   | recvReturnBlock_call b \<Rightarrow> recvReturnBlock E rec b)"

fun exec :: "'b env \<Rightarrow> nat \<Rightarrow> 'b runner" where
  "exec E 0 c s = Inl OutOfDepth"
| "exec E (Suc depth) c s = dispatch E (exec E depth) c s"

text \<open>The event loop of the manager: the queued events are processed one after the other.\<close>

definition eventLoop :: "'b env \<Rightarrow> nat \<Rightarrow> 'b event list \<Rightarrow> 'b pbftCore \<Rightarrow> 'b pbftCore res" where
  "eventLoop E depth es s = fold_res (\<lambda>e s. bind_res (exec E depth (SendEvent_call e) s) (\<lambda>(_, s). Inr s)) es s"

section \<open>Construction\<close>

definition updateSeqView :: "ViewChange_PQ list \<Rightarrow> 'b pbftCore \<Rightarrow> 'b pbftCore" where
  "updateSeqView pqs s = fold (\<lambda>e s.
     let s = (if view s < pq_View e then s\<lparr>view := pq_View e\<rparr> else s)
     in if seqNo s < pq_SequenceNumber e then s\<lparr>seqNo := pq_SequenceNumber e\<rparr> else s) pqs s"

definition restoreLastSeqNo :: "'b pbftCore \<Rightarrow> 'b pbftCore" where
  "restoreLastSeqNo s = s\<lparr>LastExec := seqNo s\<rparr>"

text \<open>The checkpoints of the database, and the lowest number among them and \<open>LastExec\<close>.\<close>

definition restoreChkpt :: "'b env \<Rightarrow> string \<times> string \<Rightarrow> 'b pbftCore \<times> u64 \<Rightarrow> 'b pbftCore \<times> u64" where
  "restoreChkpt E = (\<lambda>(key, ident) (s, low).
     case Sscanf_d ''chkpt.'' key of
       None \<Rightarrow> (s, low)
     | Some n \<Rightarrow> (s\<lparr>chkpts := mput n (EncodeB64 E ident) (chkpts s)\<rparr>, if n < low then n else low))"

definition restoreChkpts :: "'b env \<Rightarrow> 'b pbftCore \<Rightarrow> 'b pbftCore \<times> u64" where
  "restoreChkpts E s = fold (restoreChkpt E) (ReadStateSet ''chkpt.'' s) (s, LastExec s)"

definition restoreState :: "'b env \<Rightarrow> 'b runner \<Rightarrow> 'b pbftCore \<Rightarrow> 'b result" where
  "restoreState E rec s =
     (let ps = restorePQSet E ''pset'' s;
          s = s\<lparr>pset := fold (\<lambda>e. mput (pq_SequenceNumber e) e) ps (pset s)\<rparr>;
          s = updateSeqView ps s;
          qs = restorePQSet E ''qset'' s;
          s = s\<lparr>qset := fold (\<lambda>e. mput \<lparr>q_d = pq_BlockHash e, q_n = pq_SequenceNumber e\<rparr> e) qs (qset s)\<rparr>;
          s = updateSeqView qs s;
          s = s\<lparr>blockStore := fold (\<lambda>(key, raw) m. case UnmarshalJSON E raw of
                 None \<Rightarrow> m | Some b \<Rightarrow> mput (Hash E b) b m) (ReadStateSet ''reqBlock.'' s) (blockStore s)\<rparr>;
          s = restoreLastSeqNo s;
          (s, lowWatermark) = restoreChkpts E s
      in andThen (rec (moveWatermarks_call lowWatermark) s) finish)"

definition initialCore :: "'b env \<Rightarrow> (string \<times> string) list \<Rightarrow> 'b pbftCore" where
  "initialCore E database = \<lparr>activeView = True, h = 0, LastExec = 0, seqNo = 0, view = 0,
     chkpts = [(0, ''XXX GENESIS'')], pset = [], qset = [], skipInProgress = False, stateTransferring = False,
     highStateTarget = None, hChkpts = [], currentExec = None, timerActive = False, vcResendTimer = None,
     newViewTimer = None, lastNewViewTimeout = newViewTimeout, outstandingBlocks = [], nullRequestTimer = None,
     viewChangeSeqNo = 0, missingReqBatches = [], blockStore = [], certStore = [], checkpointStore = [],
     viewChangeStore = [], newViewStore = [], valid = True, db = database, ChangeViewFlag = False,
     SendViewChangeFlag = False, StateTransferFlag = False, vc_flag = False, core_ViewChangeFlag = False, draws = 0,
     commChan = [], finishedChan = 0, CommittedBlock = [], minerRestarts = 0, synchronised = 0\<rparr>"

text \<open>
  \<open>newPbftCore\<close>. The divisions by \<open>K\<close> and by the number of replicas are all reached while the state
  is restored, so a zero there is a panic of the constructor.
\<close>

definition newPbftCore :: "'b env \<Rightarrow> 'b runner \<Rightarrow> (string \<times> string) list \<Rightarrow> 'b pbftCore res" where
  "newPbftCore E rec database =
     (if f E * 3 + 1 > N E then Inl (Panic ''need enough replicas to tolerate byzantine faults'')
      else if logMultiplier E < 2 then Inl (Panic ''Log multiplier must be greater than or equal to 2'')
      else if K E = 0 \<or> (word_of_int (N E) :: u64) = 0 then Inl (Panic ''integer divide by zero'')
      else bind_res (restoreState E rec (initialCore E database)) (\<lambda>(_, s).
        Inr (updateViewChangeSeqNo E (s\<lparr>viewChangeSeqNo := - 1\<rparr>))))"

end
