(* ===== verification/Pbft_Invariant.thy ===== *)
theory Pbft_Invariant
  imports Pbft_Replica
begin

text \<open>
  Invariants of the replica's certificates and blocks. The interface \<open>store_invariant\<close> lists the
  few ways in which the handlers change the certificate store and the block store; a
  predicate that each of them keeps is kept by every handler and so by every run of calls.
\<close>

section \<open>What the helpers leave alone\<close>

definition stores :: "'b pbftCore \<Rightarrow> (msgID \<times> 'b msgCert) list \<times> (string \<times> 'b) list" where
  "stores s = (certStore s, blockStore s)"

named_theorems stores_simps \<open>helpers that change neither store\<close>

lemma stores_noteView [stores_simps]: "stores (noteView v s) = stores s"
  by (simp add: stores_def noteView_def)

lemma stores_timers [stores_simps]:
  "stores (softStartTimer t s) = stores s" "stores (startTimer t s) = stores s" "stores (stopTimer s) = stores s"
  "stores (resetNullRequestTimer E s) = stores s" "stores (startTimerIfOutstandingBlocks E s) = stores s"
  by (simp_all add: stores_def softStartTimer_def startTimer_def stopTimer_def resetNullRequestTimer_def
      startTimerIfOutstandingBlocks_def Let_def)

lemma stores_db [stores_simps]:
  "stores (StoreState k x s) = stores s" "stores (DelState k s) = stores s"
  "stores (persistQSet E s) = stores s" "stores (persistPSet E s) = stores s"
  "stores (persistDelRequestBlock d s) = stores s" "stores (persistCheckpoint n i s) = stores s"
  "stores (persistDelCheckpoint n s) = stores s"
  by (simp_all add: stores_def StoreState_def DelState_def persistQSet_def persistPSet_def persistPQSet_def
      persistDelRequestBlock_def persistCheckpoint_def persistDelCheckpoint_def)

lemma stores_persistRequestBlock [stores_simps]: "stores (persistRequestBlock E d s) = stores s"
  by (simp add: persistRequestBlock_def stores_simps split: option.split)

lemma stores_fold: "(\<And>x s. stores (g x s) = stores s) \<Longrightarrow> stores (fold g xs s) = stores s"
  by (induction xs arbitrary: s) simp_all

lemma stores_persistDelAll [stores_simps]: "stores (persistDelAllRequestBlockes s) = stores s"
  unfolding persistDelAllRequestBlockes_def by (rule stores_fold) (auto simp: stores_simps)

lemma stores_misc [stores_simps]:
  "stores (innerBroadcast E m s) = stores s" "stores (updateViewChangeSeqNo E s) = stores s"
  "stores (updateHighStateTarget t s) = stores s"
  by (simp_all add: stores_def innerBroadcast_def updateViewChangeSeqNo_def updateHighStateTarget_def split: option.split)

lemma stores_noteMissing [stores_simps]: "stores (noteMissing xs s) = stores s"
  unfolding noteMissing_def by (rule stores_fold) (simp add: stores_def)

lemma stores_updateSeqView [stores_simps]: "stores (updateSeqView pqs s) = stores s"
  unfolding updateSeqView_def by (rule stores_fold) (simp add: stores_def Let_def)

section \<open>Certificates\<close>

lemma getCert_again: "getCert v n s = (c, s') \<Longrightarrow> getCert v n s' = (c, s')"
  by (auto simp: getCert_def cert_of_def split: option.splits)

lemma cert_of_getCert: "getCert v n s = (c, s') \<Longrightarrow> cert_of s' v n = Some c"
  by (auto simp: getCert_def cert_of_def split: option.splits)

lemma cert_of_setCert:
  "cert_of (setCert v n upd s) v' n' = (if v' = v \<and> n' = n then Some (upd (fst (getCert v n s))) else cert_of s v' n')"
  by (auto simp: setCert_def getCert_def cert_of_def split: option.splits)

lemma stores_enterView: "stores (enterView E s) = (mdel_if (\<lambda>idx. mi_v idx < view s + 1) (certStore s), blockStore s)"
  by (simp add: enterView_def stores_def stopTimer_def Let_def)

section \<open>Invariants of the two stores\<close>

locale store_invariant =
  fixes E :: "'b env" and I :: "'b pbftCore \<Rightarrow> bool"
  assumes frame: "stores s = stores t \<Longrightarrow> I s = I t"
    and open_cert: "I s \<Longrightarrow> I (snd (getCert v n s))"
    and set_prePrepare: "I s \<Longrightarrow> pp_View pp = v \<Longrightarrow> pp_SequenceNumber pp = n \<Longrightarrow> pp_BlockHash pp = d \<Longrightarrow>
      I (setCert v n (\<lambda>c. c\<lparr>prePrepare := Some pp, digest := d\<rparr>) s)"
    and set_sentPrepare: "I s \<Longrightarrow> I (setCert v n (\<lambda>c. c\<lparr>sentPrepare := True\<rparr>) s)"
    and set_sentCommit: "I s \<Longrightarrow> I (setCert v n (\<lambda>c. c\<lparr>sentCommit := True\<rparr>) s)"
    and add_prepare: "I s \<Longrightarrow> primary E v \<noteq> p_ReplicaId p \<Longrightarrow> p_View p = v \<Longrightarrow> p_SequenceNumber p = n \<Longrightarrow>
      p_ReplicaId p \<notin> p_ReplicaId ` set (prepare (fst (getCert v n s))) \<Longrightarrow>
      I (setCert v n (\<lambda>c. c\<lparr>prepare := prepare c @ [p]\<rparr>) s)"
    and add_commit: "I s \<Longrightarrow> c_View cm = v \<Longrightarrow> c_SequenceNumber cm = n \<Longrightarrow>
      c_ReplicaId cm \<notin> c_ReplicaId ` set (commit (fst (getCert v n s))) \<Longrightarrow>
      I (setCert v n (\<lambda>c. c\<lparr>commit := commit c @ [cm]\<rparr>) s)"
    and del_cert: "I s \<Longrightarrow> I (s\<lparr>certStore := mdel idx (certStore s)\<rparr>)"
    and put_block: "I s \<Longrightarrow> I (s\<lparr>blockStore := mput (Hash E b) b (blockStore s)\<rparr>)"
    and del_block: "I s \<Longrightarrow> I (s\<lparr>blockStore := mdel d (blockStore s)\<rparr>)"
    and no_blocks: "I s \<Longrightarrow> I (s\<lparr>blockStore := []\<rparr>)"
    and stored_block: "I s \<Longrightarrow> mget (blockStore s) d = Some b \<Longrightarrow> Hash E b = d"
begin

lemma frame_upd [simp]:
  "I (s\<lparr>activeView := x0\<rparr>) = I s"
  "I (s\<lparr>h := x1\<rparr>) = I s"
  "I (s\<lparr>LastExec := x2\<rparr>) = I s"
  "I (s\<lparr>seqNo := x3\<rparr>) = I s"
  "I (s\<lparr>view := x4\<rparr>) = I s"
  "I (s\<lparr>chkpts := x5\<rparr>) = I s"
  "I (s\<lparr>pset := x6\<rparr>) = I s"
  "I (s\<lparr>qset := x7\<rparr>) = I s"
  "I (s\<lparr>skipInProgress := x8\<rparr>) = I s"
  "I (s\<lparr>stateTransferring := x9\<rparr>) = I s"
  "I (s\<lparr>highStateTarget := x10\<rparr>) = I s"
  "I (s\<lparr>hChkpts := x11\<rparr>) = I s"
  "I (s\<lparr>currentExec := x12\<rparr>) = I s"
  "I (s\<lparr>timerActive := x13\<rparr>) = I s"
  "I (s\<lparr>vcResendTimer := x14\<rparr>) = I s"
  "I (s\<lparr>newViewTimer := x15\<rparr>) = I s"
  "I (s\<lparr>lastNewViewTimeout := x16\<rparr>) = I s"
  "I (s\<lparr>outstandingBlocks := x17\<rparr>) = I s"
  "I (s\<lparr>nullRequestTimer := x18\<rparr>) = I s"
  "I (s\<lparr>viewChangeSeqNo := x19\<rparr>) = I s"
  "I (s\<lparr>missingReqBatches := x20\<rparr>) = I s"
  "I (s\<lparr>checkpointStore := x21\<rparr>) = I s"
  "I (s\<lparr>viewChangeStore := x22\<rparr>) = I s"
  "I (s\<lparr>newViewStore := x23\<rparr>) = I s"
  "I (s\<lparr>valid := x24\<rparr>) = I s"
  "I (s\<lparr>db := x25\<rparr>) = I s"
  "I (s\<lparr>ChangeViewFlag := x26\<rparr>) = I s"
  "I (s\<lparr>SendViewChangeFlag := x27\<rparr>) = I s"
  "I (s\<lparr>StateTransferFlag := x28\<rparr>) = I s"
  "I (s\<lparr>vc_flag := x29\<rparr>) = I s"
  "I (s\<lparr>core_ViewChangeFlag := x30\<rparr>) = I s"
  "I (s\<lparr>draws := x31\<rparr>) = I s"
  "I (s\<lparr>commChan := x32\<rparr>) = I s"
  "I (s\<lparr>finishedChan := x33\<rparr>) = I s"
  "I (s\<lparr>CommittedBlock := x34\<rparr>) = I s"
  "I (s\<lparr>minerRestarts := x35\<rparr>) = I s"
  "I (s\<lparr>synchronised := x36\<rparr>) = I s"
  by (rule frame, simp add: stores_def)+

lemma I_helpers [simp]:
  "I (noteView v s) = I s" "I (softStartTimer t s) = I s" "I (startTimer t s) = I s" "I (stopTimer s) = I s"
  "I (resetNullRequestTimer E' s) = I s" "I (startTimerIfOutstandingBlocks E' s) = I s"
  "I (persistQSet E' s) = I s" "I (persistPSet E' s) = I s" "I (persistDelRequestBlock dg s) = I s"
  "I (persistCheckpoint m i s) = I s" "I (persistDelCheckpoint m s) = I s" "I (persistRequestBlock E' dg s) = I s"
  "I (persistDelAllRequestBlockes s) = I s" "I (innerBroadcast E' msg s) = I s"
  "I (updateViewChangeSeqNo E' s) = I s" "I (updateHighStateTarget tgt s) = I s"
  "I (noteMissing xs s) = I s" "I (updateSeqView pqs s) = I s"
  by (rule frame, simp add: stores_simps)+

text \<open>The rules for the bodies of the handlers.\<close>

lemma keep_finish [simp]: "post (\<lambda>r. I (snd r)) (finish s) = I s"
  by (simp add: finish_def)

lemma keep_andThen:
  "post (\<lambda>r. I (snd r)) m \<Longrightarrow> (\<And>s. I s \<Longrightarrow> post (\<lambda>r. I (snd r)) (k s)) \<Longrightarrow> post (\<lambda>r. I (snd r)) (andThen m k)"
  unfolding andThen_def by (erule post_bind) auto

lemma keep_bind:
  "post (\<lambda>r. I (snd r)) m \<Longrightarrow> (\<And>x s. I s \<Longrightarrow> post Q (k (x, s))) \<Longrightarrow> post Q (bind_res m k)"
  by (erule post_bind) auto

lemma open_cert': "getCert v n s = (c, s') \<Longrightarrow> I s \<Longrightarrow> I s'"
  using open_cert [of s v n] by simp

lemma del_certs: "I s \<Longrightarrow> I (s\<lparr>certStore := mdel_if P (certStore s)\<rparr>)"
proof -
  have "I s \<Longrightarrow> I (s\<lparr>certStore := fold mdel ks (certStore s)\<rparr>)" for ks
  proof (induction ks arbitrary: s)
    case (Cons x xs)
    from Cons.IH [OF del_cert [OF Cons.prems, of x]] show ?case by simp
  qed simp
  then show "I s \<Longrightarrow> ?thesis" by (simp add: mdel_if_def)
qed

lemma keep_fold: "I s \<Longrightarrow> (\<And>x s. I s \<Longrightarrow> I (g x s)) \<Longrightarrow> I (fold g xs s)"
  by (induction xs arbitrary: s) auto

lemma I_dropBelow: "I s \<Longrightarrow> I (dropBelow lowH s)"
proof -
  have step: "I ((persistDelRequestBlock (digest cert) s)\<lparr>
      blockStore := mdel (digest cert) (blockStore s), certStore := mdel idx (certStore s)\<rparr>)"
    if "I s" for s idx and cert :: "'b msgCert"
  proof -
    have "I ((s\<lparr>blockStore := mdel (digest cert) (blockStore s)\<rparr>)\<lparr>certStore :=
        mdel idx (certStore (s\<lparr>blockStore := mdel (digest cert) (blockStore s)\<rparr>))\<rparr>)"
      by (intro del_cert del_block that)
    then show ?thesis
      by (subst frame [of _ "s\<lparr>blockStore := mdel (digest cert) (blockStore s), certStore := mdel idx (certStore s)\<rparr>"])
        (simp_all add: stores_def persistDelRequestBlock_def DelState_def)
  qed
  show "I s \<Longrightarrow> ?thesis"
    unfolding dropBelow_def Let_def
    by (rule keep_fold, simp, rule keep_fold, simp) (auto intro: step)
qed

lemma I_enterView: "I s \<Longrightarrow> I (enterView E' s)"
  using del_certs [of s "\<lambda>idx. mi_v idx < view s + 1"]
    frame [of "enterView E' s" "s\<lparr>certStore := mdel_if (\<lambda>idx. mi_v idx < view s + 1) (certStore s)\<rparr>"]
  by (simp add: stores_enterView [unfolded stores_def] stores_def)

lemma put_block': "Hash E b = d \<Longrightarrow> I s \<Longrightarrow> I (s\<lparr>blockStore := mput d b (blockStore s)\<rparr>)"
  using put_block [of s b] by simp

end

section \<open>Every handler keeps the invariant\<close>

lemma fst_getCert_again: "getCert v n s = (c, s') \<Longrightarrow> fst (getCert v n s') = c"
  by (simp add: getCert_again)

text \<open>A run of calls that keeps the invariant, and the handlers that use it.\<close>

locale handler_invariant = store_invariant +
  fixes rec :: "'b runner"
  assumes rec: "I s \<Longrightarrow> post (\<lambda>r. I (snd r)) (rec c s)"
begin

lemma nullRequestHandler_keeps: "I s \<Longrightarrow> post (\<lambda>r. I (snd r)) (nullRequestHandler E rec s)"
  by (auto simp: nullRequestHandler_def intro!: keep_andThen rec)

lemma recvRequestBlock_keeps: "I s \<Longrightarrow> post (\<lambda>r. I (snd r)) (recvRequestBlock E rec b s)"
  by (auto simp: recvRequestBlock_def Let_def intro!: keep_andThen rec put_block)

lemma sendPrePrepare_keeps: "I s \<Longrightarrow> post (\<lambda>r. I (snd r)) (sendPrePrepare E rec bo s)"
  by (auto simp: sendPrePrepare_def Let_def split: option.split intro!: keep_andThen rec set_prePrepare)

lemma resubmitBlockMsges_keeps: "I s \<Longrightarrow> post (\<lambda>r. I (snd r)) (resubmitBlockMsges E rec s)"
  by (auto simp: resubmitBlockMsges_def Let_def intro!: rec post_fold_res post_bind [where R = I] keep_bind)

lemma recvPrePrepare_keeps: "I s \<Longrightarrow> post (\<lambda>r. I (snd r)) (recvPrePrepare E rec pp s)"
proof -
  assume s: "I s"
  obtain c s1 where g: "getCert (pp_View pp) (pp_SequenceNumber pp) (noteView (pp_View pp) s) = (c, s1)" by fastforce
  have s1: "I s1" by (rule open_cert' [OF g]) (simp add: s)
  show ?thesis
    unfolding recvPrePrepare_def Let_def g prod.case
    by (intro post_if keep_andThen rec) (auto simp: s intro!: s1 set_prePrepare set_sentPrepare put_block')
qed

lemma recvPrepare_keeps: "I s \<Longrightarrow> post (\<lambda>r. I (snd r)) (recvPrepare E rec p s)"
proof -
  assume s: "I s"
  obtain c s1 where g: "getCert (p_View p) (p_SequenceNumber p) (noteView (p_View p) s) = (c, s1)" by fastforce
  have s1: "I s1" by (rule open_cert' [OF g]) (simp add: s)
  show ?thesis
    unfolding recvPrepare_def Let_def g prod.case
    by (intro post_if keep_andThen rec) (auto simp: s s1 fst_getCert_again [OF g] intro!: add_prepare)
qed

lemma maybeSendCommit_keeps: "I s \<Longrightarrow> post (\<lambda>r. I (snd r)) (maybeSendCommit E rec dg v n s)"
  by (auto simp: maybeSendCommit_def Let_def split: prod.split dest: open_cert'
      intro!: keep_andThen rec set_sentCommit)

lemma recvCommit_keeps: "I s \<Longrightarrow> post (\<lambda>r. I (snd r)) (recvCommit E rec p s)"
proof -
  assume s: "I s"
  obtain c s1 where g: "getCert (c_View p) (c_SequenceNumber p) (noteView (c_View p) s) = (c, s1)" by fastforce
  have s1: "I s1" by (rule open_cert' [OF g]) (simp add: s)
  show ?thesis
    unfolding recvCommit_def Let_def g prod.case
    by (intro post_if keep_andThen rec) (auto simp: s s1 fst_getCert_again [OF g] intro!: add_commit)
qed

lemma retryStateTransfer_keeps: "I s \<Longrightarrow> post (\<lambda>r. I (snd r)) (retryStateTransfer E rec t s)"
  by (auto simp: retryStateTransfer_def Let_def split: option.split intro!: keep_andThen rec)

lemma stateTransfer_keeps: "I s \<Longrightarrow> post (\<lambda>r. I (snd r)) (stateTransfer rec t s)"
  by (auto simp: stateTransfer_def Let_def intro!: keep_andThen rec)

lemma executeOne_keeps: "I s \<Longrightarrow> post (\<lambda>r. I (snd r)) (executeOne E rec idx s)"
  by (auto simp: executeOne_def Let_def split: option.split intro!: keep_bind rec)

lemma executeLoop_keeps: "I s \<Longrightarrow> post I (executeLoop E rec idxs s)"
  by (induction idxs arbitrary: s) (auto intro!: keep_bind executeOne_keeps)

lemma executeOutstanding_keeps: "I s \<Longrightarrow> post (\<lambda>r. I (snd r)) (executeOutstanding E rec s)"
  by (auto simp: executeOutstanding_def intro!: post_bind [where R = I] executeLoop_keeps)

lemma handleCheckpoint_keeps: "I s \<Longrightarrow> post (\<lambda>r. I (snd r)) (handleCheckpoint E rec n ident s)"
  by (auto simp: handleCheckpoint_def Let_def intro!: keep_andThen rec)

lemma execDoneSync_keeps: "I s \<Longrightarrow> post (\<lambda>r. I (snd r)) (execDoneSync E rec s)"
  by (auto simp: execDoneSync_def Let_def split: option.split intro!: keep_andThen rec)

lemma moveWatermarks_keeps: "I s \<Longrightarrow> post (\<lambda>r. I (snd r)) (moveWatermarks E rec n s)"
  by (auto simp: moveWatermarks_def Let_def intro!: keep_andThen rec I_dropBelow)

lemma weakCheckpoint_keeps: "I s \<Longrightarrow> post (\<lambda>r. I (snd r)) (weakCheckpointSetOutOfRange E rec ck s)"
  unfolding weakCheckpointSetOutOfRange_def Let_def
  by (intro post_if keep_bind rec) (auto intro!: no_blocks)

lemma witnessCheckpointWeakCert_keeps: "I s \<Longrightarrow> post (\<lambda>r. I (snd r)) (witnessCheckpointWeakCert E rec ck s)"
  by (auto simp: witnessCheckpointWeakCert_def Let_def split: option.split intro!: keep_andThen rec)

lemma recvCheckpoint_keeps: "I s \<Longrightarrow> post (\<lambda>r. I (snd r)) (recvCheckpoint E rec ck s)"
  unfolding recvCheckpoint_def
  by (rule keep_bind [OF weakCheckpoint_keeps], assumption, unfold prod.case Let_def)
    (intro post_if keep_andThen rec witnessCheckpointWeakCert_keeps; simp)

lemma recvReturnBlock_keeps: "I s \<Longrightarrow> post (\<lambda>r. I (snd r)) (recvReturnBlock E rec b s)"
  by (auto simp: recvReturnBlock_def Let_def intro!: rec put_block)

lemma sendViewChange_keeps: "I s \<Longrightarrow> post (\<lambda>r. I (snd r)) (sendViewChange E rec s)"
  by (auto simp: sendViewChange_def Let_def I_enterView split: option.split intro!: rec)

lemma recvViewChange_keeps: "I s \<Longrightarrow> post (\<lambda>r. I (snd r)) (recvViewChange E rec vc s)"
  unfolding recvViewChange_def Let_def
  by (intro post_if, simp_all split: prod.split) (auto intro!: rec)

lemma sendNewView_keeps: "I s \<Longrightarrow> post (\<lambda>r. I (snd r)) (sendNewView E rec s)"
  unfolding sendNewView_def Let_def
  by (auto split: prod.split option.split intro!: post_bind [where R = "\<lambda>_. True"] rec simp: post_def [of "\<lambda>_. True"])

lemma recvNewView_keeps: "I s \<Longrightarrow> post (\<lambda>r. I (snd r)) (recvNewView E rec nv s)"
  by (auto simp: recvNewView_def intro!: rec)

lemma processNewView_keeps: "I s \<Longrightarrow> post (\<lambda>r. I (snd r)) (processNewView E rec s)"
  unfolding processNewView_def Let_def
  by (auto split: prod.split option.split intro!: post_bind [where R = "\<lambda>_. True"] rec keep_andThen stateTransfer_keeps
      simp: post_def [of "\<lambda>_. True"])

lemma adoptEntry_keeps: "I s \<Longrightarrow> post I (adoptEntry E x s)"
  by (auto simp: adoptEntry_def Let_def split: option.split intro!: set_prePrepare dest: stored_block)

lemma prepareEntry_keeps: "I s \<Longrightarrow> post I (prepareEntry E rec x s)"
  by (auto simp: prepareEntry_def Let_def split: option.split intro!: keep_bind rec set_sentPrepare)

lemma processNewView2_keeps: "I s \<Longrightarrow> post (\<lambda>r. I (snd r)) (processNewView2 E rec nv s)"
  unfolding processNewView2_def Let_def
  by (intro post_bind [where R = I] post_fold_res post_if adoptEntry_keeps prepareEntry_keeps keep_bind rec) simp_all

lemma handleStateUpdate_keeps: "I s \<Longrightarrow> post (\<lambda>r. I (snd r)) (handleStateUpdate E rec u t s)"
  unfolding handleStateUpdate_def Let_def
  by (intro post_if) (auto split: option.split intro!: keep_andThen rec)

lemma handleEvent_keeps: "I s \<Longrightarrow> post (\<lambda>r. I (snd r)) (handleEvent E rec e s)"
  by (cases e) (auto simp: handleEvent_def Let_def handleStateUpdate_keeps nullRequestHandler_keeps no_blocks
      intro!: keep_andThen rec)

lemma SendEvent_keeps: "I s \<Longrightarrow> post (\<lambda>r. I (snd r)) (SendEvent rec e s)"
  by (auto simp: SendEvent_def split: option.split intro!: keep_bind rec)

lemmas handlers_keep = handleEvent_keeps SendEvent_keeps sendViewChange_keeps recvViewChange_keeps sendNewView_keeps
  recvNewView_keeps processNewView_keeps processNewView2_keeps recvRequestBlock_keeps sendPrePrepare_keeps
  resubmitBlockMsges_keeps recvPrePrepare_keeps recvPrepare_keeps maybeSendCommit_keeps recvCommit_keeps
  retryStateTransfer_keeps executeOutstanding_keeps handleCheckpoint_keeps execDoneSync_keeps moveWatermarks_keeps
  recvCheckpoint_keeps recvReturnBlock_keeps

lemma dispatch_keeps: "I s \<Longrightarrow> post (\<lambda>r. I (snd r)) (dispatch E rec c s)"
  by (cases c) (simp_all add: dispatch_def handlers_keep)

end

context store_invariant
begin

text \<open>Every run of a call, to whatever depth, keeps the invariant.\<close>

lemma exec_keeps: "I s \<Longrightarrow> post (\<lambda>r. I (snd r)) (exec E depth c s)"
proof (induction depth arbitrary: c s)
  case (Suc depth)
  have "handler_invariant E I (exec E depth)"
    by unfold_locales (rule Suc.IH)
  then show ?case using Suc.prems by (simp add: handler_invariant.dispatch_keeps)
qed simp

end

sublocale store_invariant \<subseteq> run: handler_invariant E I "exec E depth" for depth
  by unfold_locales (rule exec_keeps)

end
