(* ===== verification/Pbft_Safety.thy ===== *)
theory Pbft_Safety
  imports Pbft_Invariant
begin

text \<open>
  Safety of the certificates: the well-formedness of the certificate store in every reachable
  state of a replica, the intersection of quorums, and the agreement of the certificates of two
  replicas.
\<close>

section \<open>Well-formed stores\<close>

definition wf_cert :: "'b env \<Rightarrow> u64 \<Rightarrow> u64 \<Rightarrow> 'b msgCert \<Rightarrow> bool" where
  "wf_cert E v n c \<longleftrightarrow>
     distinct (map p_ReplicaId (prepare c)) \<and>
     (\<forall>p\<in>set (prepare c). p_View p = v \<and> p_SequenceNumber p = n \<and> p_ReplicaId p \<noteq> primary E v) \<and>
     distinct (map c_ReplicaId (commit c)) \<and>
     (\<forall>p\<in>set (commit c). c_View p = v \<and> c_SequenceNumber p = n) \<and>
     (case prePrepare c of
        None \<Rightarrow> digest c = ''''
      | Some pp \<Rightarrow> pp_View pp = v \<and> pp_SequenceNumber pp = n \<and> pp_BlockHash pp = digest c)"

definition wf_stores :: "'b env \<Rightarrow> 'b pbftCore \<Rightarrow> bool" where
  "wf_stores E s \<longleftrightarrow>
     distinct (mkeys (certStore s)) \<and> (\<forall>v n c. cert_of s v n = Some c \<longrightarrow> wf_cert E v n c) \<and>
     distinct (mkeys (blockStore s)) \<and> (\<forall>d b. mget (blockStore s) d = Some b \<longrightarrow> Hash E b = d)"

lemma wf_empty_cert: "wf_cert E v n empty_cert"
  by (simp add: wf_cert_def empty_cert_def)

lemma wf_getCert:
  assumes "wf_stores E s"
  shows "wf_stores E (snd (getCert v n s))" and "wf_cert E v n (fst (getCert v n s))"
  using assms by (auto simp: wf_stores_def getCert_def cert_of_def wf_empty_cert split: option.splits)

lemma wf_setCert:
  assumes "wf_stores E s" and "wf_cert E v n (upd (fst (getCert v n s)))"
  shows "wf_stores E (setCert v n upd s)"
  using assms by (auto simp: wf_stores_def setCert_def getCert_def cert_of_def split: option.splits)

interpretation wf: store_invariant E "wf_stores E" for E :: "'b env"
proof
  fix s t :: "'b pbftCore" assume "stores s = stores t"
  then show "wf_stores E s = wf_stores E t" by (simp add: wf_stores_def stores_def cert_of_def)
next
  fix s :: "'b pbftCore" and v n idx b d pp pr cm assume s: "wf_stores E s"
  note c = wf_getCert(2) [OF s, of v n]
  show "wf_stores E (snd (getCert v n s))" by (rule wf_getCert [OF s])
  show "wf_stores E (setCert v n (\<lambda>c. c\<lparr>prePrepare := Some pp, digest := d\<rparr>) s)"
    if "pp_View pp = v" "pp_SequenceNumber pp = n" "pp_BlockHash pp = d"
    using c that by (intro wf_setCert [OF s]) (simp add: wf_cert_def)
  show "wf_stores E (setCert v n (\<lambda>c. c\<lparr>sentPrepare := True\<rparr>) s)"
    using c by (intro wf_setCert [OF s]) (simp add: wf_cert_def cong: option.case_cong)
  show "wf_stores E (setCert v n (\<lambda>c. c\<lparr>sentCommit := True\<rparr>) s)"
    using c by (intro wf_setCert [OF s]) (simp add: wf_cert_def cong: option.case_cong)
  show "wf_stores E (setCert v n (\<lambda>c. c\<lparr>prepare := prepare c @ [pr]\<rparr>) s)"
    if "primary E v \<noteq> p_ReplicaId pr" "p_View pr = v" "p_SequenceNumber pr = n"
      "p_ReplicaId pr \<notin> p_ReplicaId ` set (prepare (fst (getCert v n s)))"
    using c that by (intro wf_setCert [OF s]) (auto simp: wf_cert_def cong: option.case_cong)
  show "wf_stores E (setCert v n (\<lambda>c. c\<lparr>commit := commit c @ [cm]\<rparr>) s)"
    if "c_View cm = v" "c_SequenceNumber cm = n"
      "c_ReplicaId cm \<notin> c_ReplicaId ` set (commit (fst (getCert v n s)))"
    using c that by (intro wf_setCert [OF s]) (auto simp: wf_cert_def cong: option.case_cong)
  show "wf_stores E (s\<lparr>certStore := mdel idx (certStore s)\<rparr>)"
    using s by (simp add: wf_stores_def cert_of_def)
  show "wf_stores E (s\<lparr>blockStore := mput (Hash E b) b (blockStore s)\<rparr>)"
    using s by (auto simp: wf_stores_def cert_of_def)
  show "wf_stores E (s\<lparr>blockStore := mdel d (blockStore s)\<rparr>)"
    using s by (simp add: wf_stores_def cert_of_def)
  show "wf_stores E (s\<lparr>blockStore := []\<rparr>)"
    using s by (simp add: wf_stores_def cert_of_def)
  show "Hash E b = d" if "mget (blockStore s) d = Some b"
    using s that by (simp add: wf_stores_def)
qed

section \<open>Reachable states\<close>

text \<open>
  What happens to a replica: it is constructed from a database, it processes events, and the
  engine hands it blocks to propose. The chain's state, the random draws and the outcome of the
  handshake may differ from one step to the next.
\<close>

definition at_time :: "'b env \<Rightarrow> string \<Rightarrow> bool \<Rightarrow> (nat \<Rightarrow> nat) \<Rightarrow> 'b env" where
  "at_time E cs hs r = E\<lparr>chainState := cs, handshakeFails := hs, Intn3 := r\<rparr>"

inductive reachable :: "'b env \<Rightarrow> 'b pbftCore \<Rightarrow> bool" for E where
  start: "newPbftCore (at_time E cs hs r) (exec (at_time E cs hs r) depth) database = Inr s \<Longrightarrow> reachable E s"
| event: "reachable E s \<Longrightarrow> exec (at_time E cs hs r) depth (SendEvent_call e) s = Inr (x, s') \<Longrightarrow> reachable E s'"
| request: "reachable E s \<Longrightarrow> exec (at_time E cs hs r) depth (recvRequestBlock_call b) s = Inr (x, s') \<Longrightarrow> reachable E s'"

lemma wf_stores_at_time [simp]: "wf_stores (at_time E cs hs r) s = wf_stores E s"
  by (simp add: wf_stores_def wf_cert_def at_time_def primary_def replicaCount_def)

lemma wf_initialCore: "wf_stores E (initialCore E database)"
  by (simp add: wf_stores_def initialCore_def cert_of_def)

lemma wf_restored_blocks:
  fixes kvs :: "(string \<times> string) list"
  assumes "distinct (mkeys m)" and "\<And>d b. mget m d = Some b \<Longrightarrow> Hash E b = d"
  defines "m' \<equiv> fold (\<lambda>(key, raw) m. case UnmarshalJSON E raw of None \<Rightarrow> m | Some b \<Rightarrow> mput (Hash E b) b m) kvs m"
  shows "distinct (mkeys m') \<and> (\<forall>d b. mget m' d = Some b \<longrightarrow> Hash E b = d)"
  using assms(1,2) unfolding m'_def
proof (induction kvs arbitrary: m)
  case (Cons kv kvs)
  obtain key raw where kv: "kv = (key, raw)" by fastforce
  show ?case
  proof (cases "UnmarshalJSON E raw")
    case None
    then show ?thesis using Cons.IH [OF Cons.prems] by (simp add: kv)
  next
    case (Some b)
    have "distinct (mkeys (mput (Hash E b) b m))" using Cons.prems by simp
    moreover have "Hash E b' = d" if "mget (mput (Hash E b) b m) d = Some b'" for d b'
      using that Cons.prems(2) [of d b'] by (cases "d = Hash E b") simp_all
    ultimately show ?thesis
      unfolding kv fold_simps prod.case Some option.case o_apply by (intro Cons.IH)
  qed
qed simp

lemma wf_restoreChkpts: "stores (fst (restoreChkpts E s)) = stores s"
proof -
  have "stores (fst (fold (restoreChkpt E) kvs (s, low))) = stores s" for kvs low
    by (induction kvs arbitrary: s low) (auto simp: restoreChkpt_def stores_def split: option.split)
  then show ?thesis by (simp add: restoreChkpts_def)
qed

lemma wf_restoreState:
  assumes "wf_stores E s"
  shows "post (\<lambda>r. wf_stores E (snd r)) (restoreState E (exec E depth) s)"
proof -
  define s1 where "s1 = updateSeqView (restorePQSet E ''pset'' s)
    (s\<lparr>pset := fold (\<lambda>e. mput (pq_SequenceNumber e) e) (restorePQSet E ''pset'' s) (pset s)\<rparr>)"
  define s2 where "s2 = updateSeqView (restorePQSet E ''qset'' s1)
    (s1\<lparr>qset := fold (\<lambda>e. mput \<lparr>q_d = pq_BlockHash e, q_n = pq_SequenceNumber e\<rparr> e) (restorePQSet E ''qset'' s1) (qset s1)\<rparr>)"
  define s3 where "s3 = restoreLastSeqNo (s2\<lparr>blockStore := fold (\<lambda>(key, raw) m. case UnmarshalJSON E raw of
      None \<Rightarrow> m | Some b \<Rightarrow> mput (Hash E b) b m) (ReadStateSet ''reqBlock.'' s2) (blockStore s2)\<rparr>)"
  have "wf_stores E s2" unfolding s2_def s1_def using assms by simp
  then have "wf_stores E s3"
    using wf_restored_blocks [of "blockStore s2" E "ReadStateSet ''reqBlock.'' s2"]
    by (simp add: s3_def restoreLastSeqNo_def wf_stores_def cert_of_def)
  then have "wf_stores E (fst (restoreChkpts E s3))"
    using wf.frame [OF wf_restoreChkpts] by blast
  then show ?thesis
    unfolding restoreState_def Let_def s1_def [symmetric] s2_def [symmetric] s3_def [symmetric]
    by (auto split: prod.split intro!: wf.keep_andThen wf.exec_keeps)
qed

lemma wf_newPbftCore: "post (wf_stores E) (newPbftCore E (exec E depth) database)"
  unfolding newPbftCore_def
  by (intro post_if wf.keep_bind [OF wf_restoreState [OF wf_initialCore]]) simp_all

lemma reachable_wf: "reachable E s \<Longrightarrow> wf_stores E s"
proof (induction rule: reachable.induct)
  case (start cs hs r depth database s)
  then show ?case using postD [OF wf_newPbftCore start] by simp
next
  case (event s cs hs r depth e x s')
  then show ?case using postD [OF wf.exec_keeps event.hyps(2)] by simp
next
  case (request s cs hs r depth b x s')
  then show ?case using postD [OF wf.exec_keeps request.hyps(2)] by simp
qed

lemma at_time_same: "at_time E (chainState E) (handshakeFails E) (Intn3 E) = E"
  by (simp add: at_time_def)

lemma reachable_eventLoop: "reachable E s \<Longrightarrow> eventLoop E depth es s = Inr s' \<Longrightarrow> reachable E s'"
proof (induction es arbitrary: s)
  case (Cons e es)
  from Cons.prems(2) obtain x s1 where "exec E depth (SendEvent_call e) s = Inr (x, s1)" "eventLoop E depth es s1 = Inr s'"
    by (auto simp: eventLoop_def bind_res_Inr_iff)
  with Cons show ?case using reachable.event [where E = E, OF _ _] at_time_same [of E] by metis
qed (simp add: eventLoop_def)

section \<open>Quorums\<close>

text \<open>
  What the agreement argument needs of quorums: two of them share more replicas than may be
  faulty. So they share a correct replica, and when the correct replicas vote for one value
  only, two quorums vote for the same value.
\<close>

locale quorums =
  fixes is_quorum :: "'a set \<Rightarrow> bool" and faults :: nat
  assumes overlap: "is_quorum A \<Longrightarrow> is_quorum B \<Longrightarrow> faults < card (A \<inter> B)"
begin

lemma correct_common:
  assumes "is_quorum A" "is_quorum B" "finite byz" "card byz \<le> faults"
  shows "\<exists>i. i \<in> A \<and> i \<in> B \<and> i \<notin> byz"
proof (rule ccontr)
  assume "\<not> ?thesis"
  then have "A \<inter> B \<subseteq> byz" by blast
  then have "card (A \<inter> B) \<le> card byz" using assms(3) by (simp add: card_mono)
  then show False using overlap [OF assms(1,2)] assms(4) by simp
qed

lemma one_value:
  assumes "is_quorum A" "is_quorum B" "finite byz" "card byz \<le> faults"
    and "\<And>i. i \<in> A \<Longrightarrow> votes i x" "\<And>i. i \<in> B \<Longrightarrow> votes' i y"
    and "\<And>i. i \<notin> byz \<Longrightarrow> votes i x \<Longrightarrow> votes' i y \<Longrightarrow> x = y"
  shows "x = y"
  using correct_common [OF assms(1-4)] assms(5-7) by blast

end

definition replicas :: "'b env \<Rightarrow> u64 set" where
  "replicas E = {i. uint i < N E}"

definition well_configured :: "'b env \<Rightarrow> bool" where
  "well_configured E \<longleftrightarrow> 0 \<le> f E \<and> 0 < N E \<and> N E < 2 ^ 64"

definition is_quorum :: "'b env \<Rightarrow> u64 set \<Rightarrow> bool" where
  "is_quorum E Q \<longleftrightarrow> well_configured E \<and> Q \<subseteq> replicas E \<and> intersectionQuorum E \<le> int (card Q)"

lemma card_replicas:
  assumes "well_configured E"
  shows "card (replicas E) \<le> nat (N E)"
proof -
  have "uint ` replicas E \<subseteq> {0..<N E}" by (auto simp: replicas_def)
  then have "card (uint ` replicas E) \<le> card {0..<N E}" by (rule card_mono [rotated]) simp
  then show ?thesis using card_image [of uint "replicas E"] by (simp add: inj_on_def flip: word_uint_eq_iff)
qed

lemma intersectionQuorum_twice:
  assumes "well_configured E"
  shows "N E + f E + 1 \<le> 2 * intersectionQuorum E"
  using assms by (simp add: intersectionQuorum_def go_quot_def well_configured_def)

lemma quorum_overlap:
  assumes "is_quorum E A" "is_quorum E B"
  shows "nat (f E) < card (A \<inter> B)"
proof -
  have w: "well_configured E" and sub: "A \<subseteq> replicas E" "B \<subseteq> replicas E"
    and big: "intersectionQuorum E \<le> int (card A)" "intersectionQuorum E \<le> int (card B)"
    using assms by (auto simp: is_quorum_def)
  have fin: "finite A" "finite B" by simp_all
  have "card (A \<union> B) \<le> card (replicas E)" using sub by (intro card_mono) simp_all
  then have "card (A \<union> B) \<le> nat (N E)" using card_replicas [OF w] by simp
  moreover have "card A + card B = card (A \<union> B) + card (A \<inter> B)" by (rule card_Un_Int [OF fin])
  ultimately have "int (card A) + int (card B) \<le> N E + int (card (A \<inter> B))"
    using w by (simp add: well_configured_def) linarith
  then show ?thesis using intersectionQuorum_twice [OF w] big w by (simp add: well_configured_def) linarith
qed

interpretation q: quorums "is_quorum E" "nat (f E)" for E :: "'b env"
  by unfold_locales (rule quorum_overlap)

section \<open>Agreement of certificates\<close>

text \<open>The replicas whose prepares for a digest are in the certificate of an index.\<close>

definition prepare_votes :: "'b pbftCore \<Rightarrow> u64 \<Rightarrow> u64 \<Rightarrow> string \<Rightarrow> u64 set" where
  "prepare_votes s v n d = (case cert_of s v n of
     None \<Rightarrow> {} | Some c \<Rightarrow> p_ReplicaId ` {p \<in> set (prepare c). p_BlockHash p = d})"

text \<open>The digest of the pre-prepare in the certificate of an index.\<close>

definition preprepare_digest :: "'b pbftCore \<Rightarrow> u64 \<Rightarrow> u64 \<Rightarrow> string option" where
  "preprepare_digest s v n = (case cert_of s v n of None \<Rightarrow> None | Some c \<Rightarrow> map_option pp_BlockHash (prePrepare c))"

text \<open>A digest is prepared by the certificate alone, not by the sets restored from disk.\<close>

definition cert_prepared :: "'b env \<Rightarrow> 'b pbftCore \<Rightarrow> string \<Rightarrow> u64 \<Rightarrow> u64 \<Rightarrow> bool" where
  "cert_prepared E s d v n \<longleftrightarrow> prepared E s d v n \<and> mget (pset s) n = None \<and> mget (qset s) \<lparr>q_d = d, q_n = n\<rparr> = None"

lemma primary_replica: "well_configured E \<Longrightarrow> primary E v \<in> replicas E"
proof -
  assume w: "well_configured E"
  then have "uint (word_of_int (N E) :: u64) = N E"
    by (simp add: well_configured_def uint_word_of_int take_bit_int_eq_self)
  then show ?thesis using w
    by (simp add: primary_def replicas_def replicaCount_def uint_mod well_configured_def)
qed

lemma primary_no_vote: "wf_stores E s \<Longrightarrow> primary E v \<notin> prepare_votes s v n d"
proof (cases "cert_of s v n")
  case (Some c)
  moreover assume "wf_stores E s"
  ultimately have "wf_cert E v n c" unfolding wf_stores_def by blast
  then have "\<forall>p\<in>set (prepare c). p_ReplicaId p \<noteq> primary E v" unfolding wf_cert_def by blast
  then show ?thesis by (auto simp: prepare_votes_def Some)
qed (simp add: prepare_votes_def)

lemma cert_prepared_quorum:
  assumes wf: "wf_stores E s" and w: "well_configured E" and p: "cert_prepared E s d v n"
    and votes: "prepare_votes s v n d \<subseteq> replicas E"
  shows "is_quorum E (insert (primary E v) (prepare_votes s v n d)) \<and> preprepare_digest s v n = Some d"
proof -
  obtain c where c: "cert_of s v n = Some c" and
    count: "count_if (\<lambda>p. p_View p = v \<and> p_SequenceNumber p = n \<and> p_BlockHash p = d) (prepare c) \<ge> intersectionQuorum E - 1"
    and pp: "preprepare_digest s v n = Some d"
    using p by (auto simp: cert_prepared_def prepared_def prePrepared_def preprepare_digest_def split: option.splits)
  have wc: "wf_cert E v n c" using wf c by (simp add: wf_stores_def)
  have "{p \<in> set (prepare c). p_View p = v \<and> p_SequenceNumber p = n \<and> p_BlockHash p = d} =
      {p \<in> set (prepare c). p_BlockHash p = d}" using wc by (auto simp: wf_cert_def)
  then have "count_if (\<lambda>p. p_View p = v \<and> p_SequenceNumber p = n \<and> p_BlockHash p = d) (prepare c) =
      int (card (prepare_votes s v n d))"
    using wc by (subst count_if_senders [where snd_of = p_ReplicaId]) (simp_all add: wf_cert_def prepare_votes_def c)
  moreover note primary_no_vote [OF wf]
  ultimately have "intersectionQuorum E \<le> int (card (insert (primary E v) (prepare_votes s v n d)))"
    using count by simp
  then show ?thesis using w votes primary_replica [OF w] pp by (simp add: is_quorum_def)
qed

end
