(* ===== verification/Pbft_View_Change.thy ===== *)
theory Pbft_View_Change
  imports Pbft_Safety
begin

text \<open>
  The computations of a view change: which entries the P and Q sets hold, which checkpoint is
  selected, which request is assigned to which sequence number, and that the X set of a
  primary passes the check of a backup.
\<close>

section \<open>P and Q sets\<close>

text \<open>
  Both sets are filled by a loop that puts an entry for each certificate that qualifies, unless
  the key has an entry of a later view.
\<close>

definition keep_latest ::
  "('x \<Rightarrow> bool) \<Rightarrow> ('x \<Rightarrow> 'k) \<Rightarrow> ('x \<Rightarrow> ViewChange_PQ) \<Rightarrow> 'x list \<Rightarrow> ('k \<times> ViewChange_PQ) list \<Rightarrow> ('k \<times> ViewChange_PQ) list" where
  "keep_latest qualifies key entry xs m = fold (\<lambda>x m.
     if \<not> qualifies x then m
     else if (case mget m (key x) of Some p \<Rightarrow> pq_View p > pq_View (entry x) | None \<Rightarrow> False) then m
     else mput (key x) (entry x) m) xs m"

text \<open>The entry of a key: the candidates are the old entry and the entries of the certificates.\<close>

definition candidates ::
  "('x \<Rightarrow> bool) \<Rightarrow> ('x \<Rightarrow> 'k) \<Rightarrow> ('x \<Rightarrow> ViewChange_PQ) \<Rightarrow> 'x list \<Rightarrow> ('k \<times> ViewChange_PQ) list \<Rightarrow> 'k \<Rightarrow> ViewChange_PQ set" where
  "candidates qualifies key entry xs m k =
     {p. mget m k = Some p} \<union> entry ` {x \<in> set xs. qualifies x \<and> key x = k}"

lemma keep_latest_spec:
  "case mget (keep_latest qualifies key entry xs m) k of
     None \<Rightarrow> candidates qualifies key entry xs m k = {}
   | Some p \<Rightarrow> p \<in> candidates qualifies key entry xs m k \<and>
       (\<forall>p'\<in>candidates qualifies key entry xs m k. pq_View p' \<le> pq_View p)"
proof (induction xs rule: rev_induct)
  case Nil
  show ?case by (simp add: keep_latest_def candidates_def split: option.split)
next
  case (snoc x xs)
  let ?m = "keep_latest qualifies key entry xs m" and ?c = "candidates qualifies key entry xs m k"
  have app: "keep_latest qualifies key entry (xs @ [x]) m =
      (if \<not> qualifies x then ?m
       else if (case mget ?m (key x) of Some p \<Rightarrow> pq_View p > pq_View (entry x) | None \<Rightarrow> False) then ?m
       else mput (key x) (entry x) ?m)"
    by (simp add: keep_latest_def)
  have cand: "candidates qualifies key entry (xs @ [x]) m k =
      ?c \<union> (if qualifies x \<and> key x = k then {entry x} else {})"
    by (auto simp: candidates_def)
  show ?case
  proof (cases "qualifies x \<and> key x = k")
    case False
    then have "mget (keep_latest qualifies key entry (xs @ [x]) m) k = mget ?m k" unfolding app by auto
    moreover have "candidates qualifies key entry (xs @ [x]) m k = ?c" using False unfolding cand by auto
    ultimately show ?thesis using snoc by (simp only:)
  next
    case True
    show ?thesis
    proof (cases "mget ?m k")
      case None
      then show ?thesis using snoc True unfolding app cand by simp
    next
      case (Some p)
      with snoc have "p \<in> ?c" "\<And>p'. p' \<in> ?c \<Longrightarrow> pq_View p' \<le> pq_View p" by simp_all
      then show ?thesis using Some True unfolding app cand by (auto simp: not_less intro: order_trans less_imp_le)
    qed
  qed
qed

definition p_entry :: "msgID \<times> 'b msgCert \<Rightarrow> ViewChange_PQ" where
  "p_entry = (\<lambda>(idx, cert). \<lparr>pq_SequenceNumber = mi_n idx, pq_BlockHash = StringToHash (digest cert), pq_View = mi_v idx\<rparr>)"

definition p_qualifies :: "'b env \<Rightarrow> 'b pbftCore \<Rightarrow> msgID \<times> 'b msgCert \<Rightarrow> bool" where
  "p_qualifies E s = (\<lambda>(idx, cert). prePrepare cert \<noteq> None \<and> prepared E s (digest cert) (mi_v idx) (mi_n idx))"

definition q_qualifies :: "'b pbftCore \<Rightarrow> msgID \<times> 'b msgCert \<Rightarrow> bool" where
  "q_qualifies s = (\<lambda>(idx, cert). prePrepare cert \<noteq> None \<and> prePrepared s (digest cert) (mi_v idx) (mi_n idx))"

definition q_key :: "msgID \<times> 'b msgCert \<Rightarrow> qidx" where
  "q_key = (\<lambda>(idx, cert). \<lparr>q_d = digest cert, q_n = mi_n idx\<rparr>)"

lemma calcPSet_latest:
  "calcPSet E s = keep_latest (p_qualifies E s) (mi_n \<circ> fst) p_entry (certStore s) (pset s)"
  unfolding calcPSet_def keep_latest_def
  by (rule fold_cong) (auto simp: p_entry_def p_qualifies_def fun_eq_iff split: prod.split option.split)

lemma calcQSet_latest:
  "calcQSet s = keep_latest (q_qualifies s) q_key p_entry (certStore s) (qset s)"
  unfolding calcQSet_def keep_latest_def
  by (rule fold_cong) (auto simp: p_entry_def q_qualifies_def q_key_def fun_eq_iff Let_def split: prod.split option.split)

text \<open>
  What may be reported for a sequence number: the entry kept from earlier views, and an entry
  for each certificate that is prepared, respectively pre-prepared.
\<close>

definition p_candidates :: "'b env \<Rightarrow> 'b pbftCore \<Rightarrow> u64 \<Rightarrow> ViewChange_PQ set" where
  "p_candidates E s n = {p. mget (pset s) n = Some p} \<union>
     {p_entry (idx, cert) | idx cert. (idx, cert) \<in> set (certStore s) \<and> mi_n idx = n \<and>
        prePrepare cert \<noteq> None \<and> prepared E s (digest cert) (mi_v idx) n}"

definition q_candidates :: "'b pbftCore \<Rightarrow> string \<Rightarrow> u64 \<Rightarrow> ViewChange_PQ set" where
  "q_candidates s d n = {q. mget (qset s) \<lparr>q_d = d, q_n = n\<rparr> = Some q} \<union>
     {p_entry (idx, cert) | idx cert. (idx, cert) \<in> set (certStore s) \<and> mi_n idx = n \<and> digest cert = d \<and>
        prePrepare cert \<noteq> None \<and> prePrepared s d (mi_v idx) n}"

lemma p_candidates_eq: "p_candidates E s n = candidates (p_qualifies E s) (mi_n \<circ> fst) p_entry (certStore s) (pset s) n"
  unfolding p_candidates_def candidates_def p_qualifies_def
  by (intro arg_cong2 [where f = "(\<union>)"] refl set_eqI) (force simp: image_iff)

lemma q_candidates_eq:
  "q_candidates s d n = candidates (q_qualifies s) q_key p_entry (certStore s) (qset s) \<lparr>q_d = d, q_n = n\<rparr>"
  unfolding q_candidates_def candidates_def q_qualifies_def q_key_def
  by (intro arg_cong2 [where f = "(\<union>)"] refl set_eqI) (force simp: image_iff)

section \<open>The initial checkpoint\<close>

text \<open>A checkpoint that may be selected: a weak certificate, and a quorum of low watermarks at or below it.\<close>

definition votes_for :: "ViewChange list \<Rightarrow> ViewChange_C \<Rightarrow> nat" where
  "votes_for vset c = sum_list (map (\<lambda>vc. count_list (vc_Cset vc) c) vset)"

definition eligible :: "'b env \<Rightarrow> ViewChange list \<Rightarrow> ViewChange_C \<Rightarrow> bool" where
  "eligible E vset c \<longleftrightarrow> 0 < votes_for vset c \<and> f E < int (votes_for vset c) \<and>
     intersectionQuorum E \<le> count_if (\<lambda>vc. vc_H vc \<le> vcc_SequenceNumber c) vset"

text \<open>The list of view changes that the code keeps for a checkpoint.\<close>

definition voters :: "ViewChange list \<Rightarrow> ViewChange_C \<Rightarrow> ViewChange list" where
  "voters vset c = concat (map (\<lambda>vc. replicate (count_list (vc_Cset vc) c) vc) vset)"

lemma length_voters: "length (voters vset c) = votes_for vset c"
  by (simp add: voters_def votes_for_def length_concat comp_def)

definition add_vote :: "ViewChange \<Rightarrow> ViewChange_C \<Rightarrow> (ViewChange_C \<times> ViewChange list) list \<Rightarrow> (ViewChange_C \<times> ViewChange list) list" where
  "add_vote vc c m = mput c ((case mget m c of Some l \<Rightarrow> l | None \<Rightarrow> []) @ [vc]) m"

lemma add_votes:
  "distinct (mkeys m) \<Longrightarrow> distinct (mkeys (fold (add_vote vc) cs m))"
  "mget (fold (add_vote vc) cs m) c =
     (if count_list cs c = 0 then mget m c
      else Some ((case mget m c of Some l \<Rightarrow> l | None \<Rightarrow> []) @ replicate (count_list cs c) vc))"
proof (induction cs arbitrary: m)
  case (Cons c' cs)
  { case 1 then show ?case using Cons.IH(1) by (simp add: add_vote_def) }
  { case 2 show ?case unfolding fold_simps comp_def Cons.IH(2)
      by (auto simp: add_vote_def replicate_app_Cons_same split: option.splits) }
qed simp_all

lemma checkpointVotes_spec:
  "distinct (mkeys (checkpointVotes vset))"
  "mget (checkpointVotes vset) c = (if votes_for vset c = 0 then None else Some (voters vset c))"
proof -
  have alt: "checkpointVotes vset = fold (\<lambda>vc. fold (add_vote vc) (vc_Cset vc)) vset []"
    by (simp add: checkpointVotes_def add_vote_def [abs_def])
  have "distinct (mkeys (fold (\<lambda>vc. fold (add_vote vc) (vc_Cset vc)) vset [])) \<and>
     mget (fold (\<lambda>vc. fold (add_vote vc) (vc_Cset vc)) vset []) c =
       (if votes_for vset c = 0 then None else Some (voters vset c))"
  proof (induction vset rule: rev_induct)
    case (snoc vc vset)
    then show ?case by (auto simp: add_votes votes_for_def voters_def)
  qed (simp add: votes_for_def)
  then show "distinct (mkeys (checkpointVotes vset))"
    "mget (checkpointVotes vset) c = (if votes_for vset c = 0 then None else Some (voters vset c))"
    by (simp_all add: alt)
qed

lemma checkpointVotes_iff:
  "(c, l) \<in> set (checkpointVotes vset) \<longleftrightarrow> 0 < votes_for vset c \<and> l = voters vset c"
  using mget_Some_iff [OF checkpointVotes_spec(1), of vset c l] checkpointVotes_spec(2) [of vset c] by (auto split: if_splits)

definition select_step ::
  "'b env \<Rightarrow> ViewChange list \<Rightarrow> ViewChange_C \<times> ViewChange list \<Rightarrow> ViewChange_C \<times> bool \<times> u64 list \<Rightarrow> ViewChange_C \<times> bool \<times> u64 list" where
  "select_step E vset = (\<lambda>(idx, vcList) (checkpoint, ok, replicas).
        if int (length vcList) \<le> f E then (checkpoint, ok, replicas)
        else if count_if (\<lambda>vc. vc_H vc \<le> vcc_SequenceNumber idx) vset < intersectionQuorum E
        then (checkpoint, ok, replicas)
        else let replicas = map vc_ReplicaId vcList in
          if vcc_SequenceNumber checkpoint \<le> vcc_SequenceNumber idx then (idx, True, replicas)
          else (checkpoint, ok, replicas))"

lemma select_fold:
  fixes E :: "'b env" and vset :: "ViewChange list" and cs :: "(ViewChange_C \<times> ViewChange list) list"
  defines "good \<equiv> \<lambda>(idx, l). f E < int (length l) \<and> intersectionQuorum E \<le> count_if (\<lambda>vc. vc_H vc \<le> vcc_SequenceNumber idx) vset"
  defines "r \<equiv> fold (select_step E vset) cs (\<lparr>vcc_SequenceNumber = 0, vcc_Id = ''''\<rparr>, False, [])"
  shows "(fst (snd r) \<longleftrightarrow> (\<exists>x\<in>set cs. good x)) \<and>
     (if fst (snd r) then (\<exists>x\<in>set cs. good x \<and> fst x = fst r) \<and>
        (\<forall>x\<in>set cs. good x \<longrightarrow> vcc_SequenceNumber (fst x) \<le> vcc_SequenceNumber (fst r))
      else vcc_SequenceNumber (fst r) = 0)"
  unfolding r_def
proof (induction cs rule: rev_induct)
  case (snoc x cs)
  obtain idx l where x: "x = (idx, l)" by fastforce
  obtain cp ok reps where r: "fold (select_step E vset) cs (\<lparr>vcc_SequenceNumber = 0, vcc_Id = ''''\<rparr>, False, []) = (cp, ok, reps)"
    by (metis prod.exhaust)
  note IH = snoc [unfolded r fst_conv snd_conv]
  have app: "fold (select_step E vset) (cs @ [x]) (\<lparr>vcc_SequenceNumber = 0, vcc_Id = ''''\<rparr>, False, []) =
      select_step E vset x (cp, ok, reps)" by (simp add: r)
  show ?case
  proof (cases "good x")
    case False
    then have step: "select_step E vset x (cp, ok, reps) = (cp, ok, reps)"
      by (auto simp: select_step_def good_def x)
    show ?thesis unfolding app step using IH False by (cases ok) auto
  next
    case True
    then have "select_step E vset x (cp, ok, reps) =
        (if vcc_SequenceNumber cp \<le> vcc_SequenceNumber idx then (idx, True, map vc_ReplicaId l) else (cp, ok, map vc_ReplicaId l))"
      by (auto simp: select_step_def good_def x Let_def)
    with IH True show ?thesis unfolding app by (cases ok) (auto simp: x intro: order_trans)
  qed
qed simp

lemma selectInitialCheckpoint_spec:
  assumes "selectInitialCheckpoint E vset = (cp, ok, reps)"
  shows "(ok \<longleftrightarrow> (\<exists>c. eligible E vset c)) \<and>
    (ok \<longrightarrow> eligible E vset cp \<and> (\<forall>c. eligible E vset c \<longrightarrow> vcc_SequenceNumber c \<le> vcc_SequenceNumber cp))"
proof -
  have "fold (select_step E vset) (checkpointVotes vset) (\<lparr>vcc_SequenceNumber = 0, vcc_Id = ''''\<rparr>, False, []) = (cp, ok, reps)"
    using assms by (simp add: selectInitialCheckpoint_def select_step_def)
  note fold = select_fold [of E vset "checkpointVotes vset", unfolded this fst_conv snd_conv]
  have el: "eligible E vset c \<longleftrightarrow> (\<exists>l. (c, l) \<in> set (checkpointVotes vset) \<and> f E < int (length l) \<and>
      intersectionQuorum E \<le> count_if (\<lambda>vc. vc_H vc \<le> vcc_SequenceNumber c) vset)" for c
    by (auto simp: checkpointVotes_iff eligible_def length_voters)
  from fold show ?thesis unfolding el
    by (cases ok) (simp_all add: Bex_def Ball_def split_paired_Ex split_paired_All, blast+)
qed

section \<open>Assignment of sequence numbers\<close>

lemma unat_range_elem:
  assumes "a \<le> (b :: u64)" and "i < Suc (unat (b - a))"
  shows "unat (a + of_nat i) = unat a + i" and "unat a + i \<le> unat b"
proof -
  show le: "unat a + i \<le> unat b" using assms by (simp add: unat_sub word_le_nat_alt)
  moreover have "unat b < 2 ^ LENGTH(64)" by (rule unsigned_less)
  ultimately show "unat (a + of_nat i) = unat a + i" by (simp add: unat_word_ariths unat_of_nat)
qed

lemma set_u64_range: "set (u64_range a b) = {n. a \<le> n \<and> n \<le> b}"
proof (cases "a \<le> b")
  case True
  have "n \<in> (\<lambda>i. a + of_nat i) ` {0..<Suc (unat (b - a))}" if "a \<le> n" "n \<le> b" for n
  proof (rule image_eqI)
    show "n = a + of_nat (unat (n - a))" by simp
    show "unat (n - a) \<in> {0..<Suc (unat (b - a))}"
      using that True by (simp add: unat_sub word_le_nat_alt)
  qed
  moreover have "a \<le> a + of_nat i \<and> a + of_nat i \<le> b" if "i < Suc (unat (b - a))" for i
    using unat_range_elem [OF True that] by (simp add: word_le_nat_alt)
  moreover have "set (u64_range a b) = (\<lambda>i. a + of_nat i) ` {0..<Suc (unat (b - a))}"
    by (simp only: u64_range_def True if_True set_map set_upt)
  ultimately show ?thesis by fastforce
qed (auto simp: u64_range_def)

lemma sorted_u64_range: "sorted (u64_range a b)"
proof (cases "a \<le> b")
  case True
  then have "u64_range a b ! i \<le> u64_range a b ! j" if "i \<le> j" "j < Suc (unat (b - a))" for i j
    using that unat_range_elem(1) [OF True] by (simp add: u64_range_def word_le_nat_alt del: upt_Suc)
  then show ?thesis using True by (auto simp: sorted_iff_nth_mono u64_range_def simp del: upt_Suc)
qed (simp add: u64_range_def)

text \<open>
  What the loop leaves in the list: the assignment of each number it visited. The last number
  that was assigned a request is remembered.
\<close>

definition assigned :: "'b env \<Rightarrow> ViewChange list \<Rightarrow> u64 \<Rightarrow> string option" where
  "assigned E vset n = (case assignOne E vset n of Request d \<Rightarrow> Some d | Null \<Rightarrow> Some '''' | Stuck \<Rightarrow> None)"

definition is_request :: "'b env \<Rightarrow> ViewChange list \<Rightarrow> u64 \<Rightarrow> bool" where
  "is_request E vset n \<longleftrightarrow> (\<exists>d. assignOne E vset n = Request d)"

lemma assignLoop_None: "assignLoop E vset ns m mx = None \<longleftrightarrow> (\<exists>n\<in>set ns. assignOne E vset n = Stuck)"
  by (induction ns arbitrary: m mx) (auto split: assignment.split)

lemma assignLoop_get:
  "assignLoop E vset ns m mx = Some (m', mx') \<Longrightarrow>
   mget m' n = (if n \<in> set ns then assigned E vset n else mget m n)"
proof (induction ns arbitrary: m mx)
  case (Cons n' ns)
  show ?case
  proof (cases "assignOne E vset n'")
    case (Request d)
    then show ?thesis using Cons.IH [of "mput n' d m" n'] Cons.prems by (auto simp: assigned_def)
  next
    case Null
    then show ?thesis using Cons.IH [of "mput n' '''' m" mx] Cons.prems by (auto simp: assigned_def)
  qed (use Cons.prems in simp)
qed simp

lemma assignLoop_distinct:
  "assignLoop E vset ns m mx = Some (m', mx') \<Longrightarrow> distinct (mkeys m) \<Longrightarrow> distinct (mkeys m')"
proof (induction ns arbitrary: m mx)
  case (Cons n' ns)
  show ?case
  proof (cases "assignOne E vset n'")
    case (Request d)
    then show ?thesis using Cons.IH [of "mput n' d m" n'] Cons.prems by simp
  next
    case Null
    then show ?thesis using Cons.IH [of "mput n' '''' m" mx] Cons.prems by simp
  qed (use Cons.prems in simp)
qed simp

lemma assignLoop_max:
  "assignLoop E vset ns m mx = Some (m', mx') \<Longrightarrow> sorted ns \<Longrightarrow>
   mx' = mx \<and> (\<forall>n\<in>set ns. \<not> is_request E vset n) \<or>
   mx' \<in> set ns \<and> is_request E vset mx' \<and> (\<forall>n\<in>set ns. is_request E vset n \<longrightarrow> n \<le> mx')"
proof (induction ns arbitrary: m mx)
  case (Cons n' ns)
  show ?case
  proof (cases "assignOne E vset n'")
    case (Request d)
    then show ?thesis using Cons.IH [of "mput n' d m" n'] Cons.prems by (auto simp: is_request_def)
  next
    case Null
    then show ?thesis using Cons.IH [of "mput n' '''' m" mx] Cons.prems by (auto simp: is_request_def)
  qed (use Cons.prems in simp)
qed simp

text \<open>Dropping the null requests above the last request keeps the keys distinct.\<close>

lemma mget_filter:
  "distinct (mkeys m) \<Longrightarrow> mget (filter (\<lambda>(n, d). P n d) m) k =
     (case mget m k of None \<Rightarrow> None | Some d \<Rightarrow> if P k d then Some d else None)"
  by (induction m) (auto simp: mget_def mkeys_def image_iff split: option.splits dest!: map_of_SomeD bspec)

lemma assignSequenceNumbers_spec:
  assumes "low + log_L E \<noteq> - 1"
  shows "(assignSequenceNumbers E vset low = Inr None \<and> (\<exists>n. low + 1 \<le> n \<and> n \<le> low + log_L E \<and> assignOne E vset n = Stuck)) \<or>
    (\<exists>msgList maxN. assignSequenceNumbers E vset low = Inr (Some msgList) \<and> distinct (mkeys msgList) \<and>
       (\<forall>n. low + 1 \<le> n \<and> n \<le> low + log_L E \<longrightarrow> assignOne E vset n \<noteq> Stuck) \<and>
       (maxN = low + 1 \<or> low + 1 \<le> maxN \<and> maxN \<le> low + log_L E \<and> is_request E vset maxN) \<and>
       (\<forall>n. low + 1 \<le> n \<and> n \<le> low + log_L E \<and> is_request E vset n \<longrightarrow> n \<le> maxN) \<and>
       (\<forall>n. mget msgList n =
          (if low + 1 \<le> n \<and> n \<le> low + log_L E \<and> \<not> (maxN < n \<and> assigned E vset n = Some '''')
           then assigned E vset n else None)))"
proof (cases "assignLoop E vset (u64_range (low + 1) (low + log_L E)) [] (low + 1)")
  case None
  then show ?thesis using assms by (auto simp: assignSequenceNumbers_def assignLoop_None set_u64_range)
next
  case (Some r)
  then obtain m mx where r: "assignLoop E vset (u64_range (low + 1) (low + log_L E)) [] (low + 1) = Some (m, mx)"
    by (cases r) auto
  have ok: "\<forall>n. low + 1 \<le> n \<and> n \<le> low + log_L E \<longrightarrow> assignOne E vset n \<noteq> Stuck"
    using r assignLoop_None [of E vset "u64_range (low + 1) (low + log_L E)" "[]" "low + 1"] by (auto simp: set_u64_range)
  have d: "distinct (mkeys m)" by (rule assignLoop_distinct [OF r]) simp
  have get: "mget (filter (\<lambda>(n, msg). \<not> (mx < n \<and> msg = '''')) m) n =
      (if low + 1 \<le> n \<and> n \<le> low + log_L E \<and> \<not> (mx < n \<and> assigned E vset n = Some '''') then assigned E vset n else None)" for n
    using assignLoop_get [OF r, of n] by (auto simp: mget_filter [OF d] set_u64_range split: option.splits)
  have "distinct (mkeys (filter (\<lambda>(n, msg). \<not> (mx < n \<and> msg = '''')) m))"
    using d by (simp add: mkeys_def distinct_map_filter)
  then show ?thesis
    using r ok get assignLoop_max [OF r sorted_u64_range] assms
    by (intro disjI2 exI [of _ "filter (\<lambda>(n, msg). \<not> (mx < n \<and> msg = '''')) m"] exI [of _ mx])
      (auto simp: assignSequenceNumbers_def set_u64_range)
qed

text \<open>
  The conditions of the selection, in the words of the protocol. A digest is selected for a number when some view change reports an
  entry with it in its P set for which a quorum of view changes with a lower watermark (A1) reports nothing newer and
  nothing else of the same view for the number, and for which (A2) at least \<open>f + 1\<close> entries of the Q sets vouch for the digest at the number
  in that view or later. The null request is possible when (B) a quorum of view changes has no entry for the number in the P set.
\<close>

definition selected :: "'b env \<Rightarrow> ViewChange list \<Rightarrow> u64 \<Rightarrow> string \<Rightarrow> bool" where
  "selected E vset n d \<longleftrightarrow> (\<exists>m\<in>set vset. \<exists>em\<in>set (vc_Pset m). pq_BlockHash em = d \<and>
     intersectionQuorum E \<le> int (card {i. i < length vset \<and> vc_H (vset ! i) < n \<and>
       (\<forall>emp\<in>set (vc_Pset (vset ! i)). pq_SequenceNumber emp = n \<longrightarrow>
          pq_View emp < pq_View em \<or> pq_View emp = pq_View em \<and> pq_BlockHash emp = d)}) \<and>
     f E + 1 \<le> int (\<Sum>m'\<leftarrow>vset. length (filter
       (\<lambda>emp. pq_SequenceNumber emp = n \<and> pq_View em \<le> pq_View emp \<and> pq_BlockHash emp = d) (vc_Qset m'))))"

definition null_possible :: "'b env \<Rightarrow> ViewChange list \<Rightarrow> u64 \<Rightarrow> bool" where
  "null_possible E vset n \<longleftrightarrow> intersectionQuorum E \<le>
     int (card {i. i < length vset \<and> (\<forall>em\<in>set (vc_Pset (vset ! i)). pq_SequenceNumber em \<noteq> n)})"

lemma count_if_card: "count_if P xs = int (card {i. i < length xs \<and> P (xs ! i)})"
  by (simp add: count_if_def length_filter_conv_card)

lemma count_if_concat: "count_if P (concat (map g xs)) = int (\<Sum>x\<leftarrow>xs. length (filter P (g x)))"
  by (induction xs) (simp_all add: count_if_def)

lemma condA1_card:
  "condA1 E vset n em \<longleftrightarrow> intersectionQuorum E \<le> int (card {i. i < length vset \<and> vc_H (vset ! i) < n \<and>
     (\<forall>emp\<in>set (vc_Pset (vset ! i)). pq_SequenceNumber emp = n \<longrightarrow>
        pq_View emp < pq_View em \<or> pq_View emp = pq_View em \<and> pq_BlockHash emp = pq_BlockHash em)})"
  unfolding condA1_def count_if_card list_all_iff not_le
  by (rule arg_cong [where f = "\<lambda>X. intersectionQuorum E \<le> int (card X)"]) auto

lemma condA2_sum:
  "condA2 E vset n em \<longleftrightarrow> f E + 1 \<le> int (\<Sum>m'\<leftarrow>vset. length (filter
     (\<lambda>emp. pq_SequenceNumber emp = n \<and> pq_View em \<le> pq_View emp \<and> pq_BlockHash emp = pq_BlockHash em) (vc_Qset m')))"
  unfolding condA2_def count_if_concat by (simp add: eq_commute [of n])

lemma null_possible_count:
  "null_possible E vset n \<longleftrightarrow>
     count_if (\<lambda>m. list_all (\<lambda>em. pq_SequenceNumber em \<noteq> n) (vc_Pset m)) vset \<ge> intersectionQuorum E"
  by (simp add: null_possible_def count_if_card list_all_iff)

lemma selected_iff:
  "selected E vset n d \<longleftrightarrow>
     (\<exists>em\<in>set (concat (map vc_Pset vset)). pq_BlockHash em = d \<and> condA1 E vset n em \<and> condA2 E vset n em)"
  unfolding selected_def condA1_card condA2_sum by (auto cong: conj_cong)

text \<open>What the body of the loop assigns, by the conditions.\<close>

lemma find_SomeD: "find P xs = Some x \<Longrightarrow> x \<in> set xs \<and> P x"
  by (induction xs) (auto split: if_splits)

lemma assignOne_Request: "assignOne E vset n = Request d \<Longrightarrow> selected E vset n d"
  unfolding assignOne_def selected_iff
  by (cases "find (\<lambda>em. condA1 E vset n em \<and> condA2 E vset n em) (concat (map vc_Pset vset))")
    (auto simp del: set_concat dest!: find_SomeD split: if_splits)

lemma assignOne_none: "(\<nexists>d. assignOne E vset n = Request d) \<longleftrightarrow> (\<nexists>d. selected E vset n d)"
proof (cases "find (\<lambda>em. condA1 E vset n em \<and> condA2 E vset n em) (concat (map vc_Pset vset))")
  case None
  then have "\<nexists>d. selected E vset n d" unfolding find_None_iff selected_iff by blast
  then show ?thesis using None by (simp add: assignOne_def)
next
  case (Some em)
  then have "selected E vset n (pq_BlockHash em)" unfolding selected_iff using find_SomeD by fast
  then show ?thesis using Some by (auto simp: assignOne_def)
qed

lemma assignOne_Null: "assignOne E vset n = Null \<longleftrightarrow> (\<nexists>d. selected E vset n d) \<and> null_possible E vset n"
  and assignOne_Stuck: "assignOne E vset n = Stuck \<longleftrightarrow> (\<nexists>d. selected E vset n d) \<and> \<not> null_possible E vset n"
  unfolding assignOne_none [symmetric] null_possible_count by (auto simp: assignOne_def split: option.splits)

lemma is_request_selected: "is_request E vset n \<longleftrightarrow> (\<exists>d. selected E vset n d)"
  using assignOne_none [of E vset n] unfolding is_request_def by blast

lemma assigned_cases:
  "assigned E vset n = Some d \<Longrightarrow> selected E vset n d \<or> d = '''' \<and> assignOne E vset n = Null"
  using assignOne_Request [of E vset n] by (auto simp: assigned_def split: assignment.splits)

section \<open>The check of a received X set\<close>

text \<open>
  The comparison of the computed with the received assignments: it succeeds exactly when there
  are as many received as computed entries and every received entry is a computed one.
\<close>

definition xset_accepted :: "(u64 \<times> string) list \<Rightarrow> XSet list \<Rightarrow> bool" where
  "xset_accepted msgList xs \<longleftrightarrow> length msgList \<le> length xs \<and>
     (msgList = [] \<and> xs = [] \<or> matchXset (ConvertMapToStruct msgList) xs = map Some xs)"

lemma find_distinct: "distinct (map g ys) \<Longrightarrow> find (\<lambda>y. g x = g y) ys = Some x \<longleftrightarrow> x \<in> set ys"
  by (induction ys) (force simp: image_iff)+

lemma xs_Seq_ConvertMapToStruct: "map xs_Seq (ConvertMapToStruct msgList) = mkeys msgList"
  by (simp add: ConvertMapToStruct_def mkeys_def case_prod_unfold)

lemma mem_ConvertMapToStruct:
  "distinct (mkeys msgList) \<Longrightarrow> x \<in> set (ConvertMapToStruct msgList) \<longleftrightarrow> mget msgList (xs_Seq x) = Some (xs_Hash x)"
  by (cases x) (force simp: ConvertMapToStruct_def mget_Some_iff)

lemma xset_accepted_iff:
  assumes d: "distinct (mkeys msgList)"
  shows "xset_accepted msgList xs \<longleftrightarrow>
    length xs = length msgList \<and> (\<forall>x\<in>set xs. mget msgList (xs_Seq x) = Some (xs_Hash x))"
proof -
  let ?c = "ConvertMapToStruct msgList"
  have len: "length ?c = length msgList" by (simp add: ConvertMapToStruct_def)
  have found: "find (\<lambda>y. xs_Seq x = xs_Seq y) ?c = Some x \<longleftrightarrow> x \<in> set ?c" for x
    by (rule find_distinct) (simp add: xs_Seq_ConvertMapToStruct d)
  have "matchXset ?c xs = map Some xs \<longleftrightarrow>
      length xs = length msgList \<and> (\<forall>i<length xs. find (\<lambda>y. xs_Seq (xs ! i) = xs_Seq y) ?c = Some (xs ! i))"
    unfolding matchXset_def by (subst list_eq_iff_nth_eq) (auto simp: len)
  then have "matchXset ?c xs = map Some xs \<longleftrightarrow> length xs = length msgList \<and> (\<forall>i<length xs. xs ! i \<in> set ?c)"
    unfolding found .
  also have "(\<forall>i<length xs. xs ! i \<in> set ?c) \<longleftrightarrow> (\<forall>x\<in>set xs. mget msgList (xs_Seq x) = Some (xs_Hash x))"
    by (simp add: all_set_conv_all_nth mem_ConvertMapToStruct [OF d])
  finally show ?thesis unfolding xset_accepted_def by auto
qed

section \<open>Joining later views\<close>

text \<open>
  A replica that has view changes for later views from enough replicas moves to the smallest of
  these views, and looks again. The view changes for views after the next one get fewer each
  time, so this ends.
\<close>

definition pending :: "'b pbftCore \<Rightarrow> u64 \<Rightarrow> nat" where
  "pending s v = length (filter (\<lambda>idx. v < vi_v idx) (mkeys (viewChangeStore s)))"

lemma laterViews_found:
  assumes "laterViews s = (reps, mn)" and "reps \<noteq> []"
  shows "\<exists>idx\<in>set (mkeys (viewChangeStore s)). view s < vi_v idx \<and> vi_v idx = mn"
proof -
  let ?step = "\<lambda>(idx, vc) (reps, mn). if vi_v idx \<le> view s then (reps, mn)
     else (if vi_id idx \<in> set reps then reps else vi_id idx # reps, if mn = 0 \<or> vi_v idx < mn then vi_v idx else mn)"
  have "fst (fold ?step xs ([], 0)) \<noteq> [] \<longrightarrow>
      (\<exists>idx\<in>fst ` set xs. view s < vi_v idx \<and> vi_v idx = snd (fold ?step xs ([], 0)))" for xs :: "(vcidx \<times> ViewChange) list"
  proof (induction xs rule: rev_induct)
    case (snoc x xs)
    obtain idx vc where x: "x = (idx, vc)" by fastforce
    obtain rs m where r: "fold ?step xs ([], 0) = (rs, m)" by fastforce
    show ?case
    proof (cases "vi_v idx \<le> view s")
      case True
      then show ?thesis using snoc r by (simp add: x)
    next
      case later: False
      show ?thesis
      proof (cases "rs = []")
        case True
        have "m = 0" using r True
        proof (induction xs arbitrary: rs m rule: rev_induct)
          case (snoc y ys)
          then show ?case by (cases y, cases "fold ?step ys ([], 0)") (auto split: if_splits)
        qed simp
        then show ?thesis using later True r by (simp add: x not_le)
      next
        case False
        then show ?thesis using snoc later r by (auto simp: x)
      qed
    qed
  qed simp
  then show ?thesis using assms by (force simp: laterViews_def mkeys_def)
qed

lemma length_filter_less:
  assumes "\<And>x. P x \<Longrightarrow> Q x" and "y \<in> set xs" "Q y" "\<not> P y"
  shows "length (filter P xs) < length (filter Q xs)"
  using assms(2)
proof (induction xs)
  case (Cons x xs)
  have "length (filter P xs) \<le> length (filter Q xs)"
    using assms(1) by (induction xs) auto
  then show ?case using Cons assms by auto
qed simp

lemma pending_mput:
  "pending (s\<lparr>viewChangeStore := mput idx vc (viewChangeStore s)\<rparr>) v \<le> pending s v + (if v < vi_v idx then 1 else 0)"
proof -
  have "mkeys (mput idx vc m) = (if idx \<in> set (mkeys m) then mkeys m else mkeys m @ [idx])" for m :: "(vcidx \<times> ViewChange) list"
    by (simp add: mkeys_def mput_def update_keys)
  then show ?thesis by (simp add: pending_def)
qed

lemma pending_mdel_if: "pending (s\<lparr>viewChangeStore := mdel_if P (viewChangeStore s)\<rparr>) v \<le> pending s v"
proof -
  have step: "length (filter (\<lambda>idx. v < vi_v idx) (mkeys (mdel k m))) \<le> length (filter (\<lambda>idx. v < vi_v idx) (mkeys m))"
    for k and m :: "(vcidx \<times> ViewChange) list"
  proof -
    have "length (filter Q (removeAll k xs)) \<le> length (filter Q xs)" for Q and xs :: "vcidx list"
      by (induction xs) auto
    moreover have "mkeys (mdel k m) = removeAll k (mkeys m)" by (simp add: mkeys_def mdel_def delete_keys)
    ultimately show ?thesis by simp
  qed
  have "length (filter (\<lambda>idx. v < vi_v idx) (mkeys (fold mdel ks m))) \<le> length (filter (\<lambda>idx. v < vi_v idx) (mkeys m))"
    for ks and m :: "(vcidx \<times> ViewChange) list"
  proof (induction ks arbitrary: m)
    case (Cons k ks)
    from Cons.IH [of "mdel k m"] step [of k m] show ?case by simp
  qed simp
  then show ?thesis by (simp add: pending_def mdel_if_def)
qed

lemma enterView_simps:
  "view (enterView E s) = view s + 1" "activeView (enterView E s) = False"
  "viewChangeStore (enterView E s) = mdel_if (\<lambda>idx. vi_v idx < view s + 1) (viewChangeStore s)"
  by (simp_all add: enterView_def stopTimer_def Let_def)

lemma innerBroadcast_simps [simp]:
  "view (innerBroadcast E m s) = view s" "viewChangeStore (innerBroadcast E m s) = viewChangeStore s"
  by (simp_all add: innerBroadcast_def)

lemma sendViewChange_ends:
  assumes f: "0 \<le> f E" and sign: "signFn E = Some sign"
  shows "pending s (view s + 1) \<le> k \<Longrightarrow> 2 * k + 2 \<le> depth \<Longrightarrow> \<exists>r. exec E depth sendViewChange_call s = Inr r"
proof (induction k arbitrary: s depth rule: less_induct)
  case (less k)
  define d where "d = depth - 2"
  have depth: "depth = Suc (Suc d)" using less.prems(2) by (simp add: d_def)
  define vc where "vc = (viewChangeOf E (enterView E s))\<lparr>vc_Signature := sign (sigHash E (viewChangeOf E (enterView E s)))\<rparr>"
  define s1 where "s1 = (let t = innerBroadcast E (mkMsg E ViewChangeMsg (PL_ViewChange vc)) (enterView E s)
      in t\<lparr>vcResendTimer := timer_Reset (vcResendTimeout E) (vcResendTimer t)\<rparr>)"
  have vc: "vc_View vc = view s + 1" by (simp add: vc_def viewChangeOf_def enterView_simps)
  have s1: "view s1 = view s + 1" "viewChangeStore s1 = mdel_if (\<lambda>idx. vi_v idx < view s + 1) (viewChangeStore s)"
    by (simp_all add: s1_def Let_def enterView_simps)
  define s2 where "s2 = s1\<lparr>viewChangeStore := mput \<lparr>vi_v = vc_View vc, vi_id = vc_ReplicaId vc\<rparr> vc (viewChangeStore s1)\<rparr>"
  have run: "exec E depth sendViewChange_call s = recvViewChange E (exec E d) vc s1"
    by (simp add: depth dispatch_def sendViewChange_def sign Let_def vc_def s1_def)
  have "pending s1 (view s + 1) \<le> pending s (view s + 1)"
    using pending_mdel_if [where P = "\<lambda>idx. vi_v idx < view s + 1" and s = s and v = "view s + 1"] by (simp add: pending_def s1)
  then have p2: "pending s2 (view s + 1) \<le> k"
    using pending_mput [where s = s1 and idx = "\<lparr>vi_v = vc_View vc, vi_id = vc_ReplicaId vc\<rparr>" and vc = vc and v = "view s + 1"]
      less.prems(1)
    by (simp add: s2_def vc)
  obtain reps mn where lv: "laterViews s2 = (reps, mn)" by fastforce
  show ?case
  proof (cases "int (length reps) \<ge> f E + 1")
    case True
    then have "reps \<noteq> []" using f by auto
    from laterViews_found [OF lv this]
    obtain idx where idx: "idx \<in> set (mkeys (viewChangeStore s2))" "view s + 1 < vi_v idx" "vi_v idx = mn"
      by (auto simp: s2_def s1)
    have "pending s2 mn < pending s2 (view s + 1)"
      unfolding pending_def using idx by (intro length_filter_less [of _ _ idx]) auto
    then have "pending (s2\<lparr>view := mn - 1\<rparr>) (mn - 1 + 1) < k" using p2 by (simp add: pending_def)
    moreover from this less.prems(2) have "2 * pending (s2\<lparr>view := mn - 1\<rparr>) (mn - 1 + 1) + 2 \<le> d"
      by (simp add: depth)
    ultimately have "\<exists>r. exec E d sendViewChange_call (s2\<lparr>view := mn - 1\<rparr>) = Inr r"
      using less.IH [of "pending (s2\<lparr>view := mn - 1\<rparr>) (mn - 1 + 1)" "s2\<lparr>view := mn - 1\<rparr>" d] by simp
    then show ?thesis
      unfolding run recvViewChange_def Let_def s2_def [symmetric] lv prod.case using True by (simp add: finish_def)
  next
    case False
    then show ?thesis
      unfolding run recvViewChange_def Let_def s2_def [symmetric] lv prod.case by (simp add: finish_def)
  qed
qed

end
