(* ===== verification/Pbft_Safety_Properties.thy ===== *)
theory Pbft_Safety_Properties
  imports Pbft_Safety
begin

text \<open>
  Safety properties of the replica, over the handlers as they are: the certificates of every
  reachable state, agreement between replicas, the order of execution, and what the code
  executes.
\<close>

section \<open>A small network\<close>

text \<open>Four replicas that tolerate one fault; a block is its own hash.\<close>

definition net :: "u64 \<Rightarrow> string env" where
  "net i = \<lparr>f = 1, N = 4, replica_id = i, K = 10, logMultiplier = 4, byzantine = False, requestTimeout = 2,
     vcResendTimeout = 3, nullRequestTimeout = 0, signer = ''A'', signFn = Some (\<lambda>x. x), Hash = (\<lambda>b. b),
     MarshalJSON = Some, UnmarshalJSON = Some, MarshalPQ = (\<lambda>_. []), UnmarshalPQ = (\<lambda>_. None),
     EncodeB64 = (\<lambda>x. x), DecodeB64 = Some, UnmarshalInfo = (\<lambda>_. True), rlpHash = (\<lambda>_. []),
     Ecrecover = (\<lambda>_ _. None), Keccak256 = (\<lambda>x. x), chainState = ''S'', Intn3 = (\<lambda>_. 0), handshakeFails = False\<rparr>"

definition fresh :: "u64 \<Rightarrow> string pbftCore" where
  "fresh i = (initialCore (net i) [])\<lparr>viewChangeSeqNo := 300\<rparr>"

lemma net_simps [simp]:
  "f (net i) = 1" "N (net i) = 4" "K (net i) = 10" "logMultiplier (net i) = 4" "replica_id (net i) = i"
  "requestTimeout (net i) = 2" "byzantine (net i) = False" "Hash (net i) = (\<lambda>b. b)" "nullRequestTimeout (net i) = 0"
  by (simp_all add: net_def)

lemma reachable_fresh: "reachable (net i) (fresh i)"
proof (rule reachable.start [where cs = "''S''" and hs = False and r = "\<lambda>_. 0" and depth = "Suc (Suc 0)" and database = "[]"])
  have "at_time (net i) ''S'' False (\<lambda>_. 0) = net i" by (simp add: at_time_def net_def)
  then show "newPbftCore (at_time (net i) ''S'' False (\<lambda>_. 0)) (exec (at_time (net i) ''S'' False (\<lambda>_. 0)) (Suc (Suc 0))) [] = Inr (fresh i)"
    by (simp add: newPbftCore_def restoreState_def restorePQSet_def ReadState_def mget_def updateSeqView_def
        ReadStateSet_def restoreLastSeqNo_def restoreChkpts_def andThen_def dispatch_def moveWatermarks_def
        resubmitBlockMsges_def dropBelow_def finish_def initialCore_def fresh_def updateViewChangeSeqNo_def
        viewChangePeriod_def mdel_if_def mkeys_def Let_def)
qed

text \<open>Messages for sequence number 1 of view 0, whose primary is replica 0, and the state of a
  backup that received the pre-prepare and the prepares of two backups.\<close>

definition pre_prepare_1 :: "string \<Rightarrow> string \<Rightarrow> string event" where
  "pre_prepare_1 d b = PrePrepareEvent \<lparr>pp_View = 0, pp_SequenceNumber = 1, pp_BlockHash = d, pp_Block = b, pp_ReplicaId = 0\<rparr>"

definition prepare_1 :: "string \<Rightarrow> u64 \<Rightarrow> string event" where
  "prepare_1 d i = PrepareEvent \<lparr>p_View = 0, p_SequenceNumber = 1, p_BlockHash = d, p_ReplicaId = i\<rparr>"

definition commit_1 :: "string \<Rightarrow> u64 \<Rightarrow> string event" where
  "commit_1 d i = CommitEvent \<lparr>c_View = 0, c_SequenceNumber = 1, c_BlockHash = d, c_ReplicaId = i\<rparr>"

definition prepared_state :: "string \<Rightarrow> u64 \<Rightarrow> u64 \<Rightarrow> string pbftCore" where
  "prepared_state d i j = projr (eventLoop (net i) 8 [pre_prepare_1 d d, prepare_1 d j] (fresh i))"

lemma prepared_state_run:
  "eventLoop (net 1) 8 [pre_prepare_1 ''X'' ''X'', prepare_1 ''X'' 2] (fresh 1) = Inr (prepared_state ''X'' 1 2)"
  "eventLoop (net 3) 8 [pre_prepare_1 ''Y'' ''Y'', prepare_1 ''Y'' 2] (fresh 3) = Inr (prepared_state ''Y'' 3 2)"
proof -
  have "\<not> isl (eventLoop (net 1) 8 [pre_prepare_1 ''X'' ''X'', prepare_1 ''X'' 2] (fresh 1))" by code_simp
  then show "eventLoop (net 1) 8 [pre_prepare_1 ''X'' ''X'', prepare_1 ''X'' 2] (fresh 1) = Inr (prepared_state ''X'' 1 2)"
    unfolding prepared_state_def by simp
  have "\<not> isl (eventLoop (net 3) 8 [pre_prepare_1 ''Y'' ''Y'', prepare_1 ''Y'' 2] (fresh 3))" by code_simp
  then show "eventLoop (net 3) 8 [pre_prepare_1 ''Y'' ''Y'', prepare_1 ''Y'' 2] (fresh 3) = Inr (prepared_state ''Y'' 3 2)"
    unfolding prepared_state_def by simp
qed

section \<open>Certificates\<close>

text \<open>C6: in every state that a replica reaches from its construction, whatever events it processes,
  the certificates are well formed: the prepares and the commits under an index are for that
  index and come from distinct replicas, no prepare comes from the primary, a pre-prepare is for
  its index and has the digest of the certificate, and a block is stored under its hash.\<close>

theorem certificates_well_formed:
  assumes "reachable E s"
  shows "wf_stores E s"
  using assms by (rule reachable_wf)

theorem certificates_well_formed_witness: "wf_stores (net 2) (fresh 2)"
  using certificates_well_formed [OF reachable_fresh] .

text \<open>two sets of replicas of the size of \<open>intersectionQuorum\<close> share more than \<open>f\<close> replicas.\<close>

theorem quorum_intersection:
  assumes "well_configured E" and "A \<subseteq> replicas E" and "B \<subseteq> replicas E"
    and "intersectionQuorum E \<le> int (card A)" and "intersectionQuorum E \<le> int (card B)"
  shows "f E < int (card (A \<inter> B))"
  using q.overlap [of E A B] assms by (simp add: is_quorum_def)

theorem quorum_intersection_witness: "f (net 0) < int (card ({0, 1, 2} \<inter> {1, 2, 3 :: u64}))"
  by (rule quorum_intersection)
    (simp_all add: well_configured_def replicas_def intersectionQuorum_def go_quot_def)

text \<open>The vote of a replica for a digest under an index, as the state of a replica holds it: the primary votes by
  the pre-prepare, every other replica by a prepare.\<close>

definition voted_for :: "'b env \<Rightarrow> 'b pbftCore \<Rightarrow> u64 \<Rightarrow> u64 \<Rightarrow> u64 \<Rightarrow> string \<Rightarrow> bool" where
  "voted_for E s v n i d \<longleftrightarrow>
     (if i = primary E v then preprepare_digest s v n = Some d else i \<in> prepare_votes s v n d)"

text \<open>The replicas that voted for one digest in one state and for another digest in the other state.\<close>

definition double_voters :: "'b env \<Rightarrow> 'b pbftCore \<Rightarrow> 'b pbftCore \<Rightarrow> u64 \<Rightarrow> u64 \<Rightarrow> u64 set" where
  "double_voters E s1 s2 v n =
     {i \<in> replicas E. \<exists>d d'. d \<noteq> d' \<and> voted_for E s1 v n i d \<and> voted_for E s2 v n i d'}"

lemma cert_prepared_voters:
  assumes "wf_stores E s" and "well_configured E" and "cert_prepared E s d v n" and "prepare_votes s v n d \<subseteq> replicas E"
  shows "is_quorum E {i. voted_for E s v n i d}"
proof -
  note q = cert_prepared_quorum [OF assms]
  have "{i. voted_for E s v n i d} = insert (primary E v) (prepare_votes s v n d)"
    using q primary_no_vote [OF assms(1)] by (auto simp: voted_for_def)
  then show ?thesis using q by simp
qed

text \<open>C2: disagreement convicts more than \<open>f\<close> replicas. When two replicas of the same network, each in a state
  that it reaches from its construction, hold certificates that are prepared for the same view and number
  but for different digests, more than \<open>f\<close> replicas have voted for two digests: they have a vote for one
  digest in the first state and a vote for another one in the second. So with at most \<open>f\<close> replicas that
  vote twice, prepared certificates agree. Nothing is assumed of what the others send; the certificates have
  to be prepared by the messages in them, not by the sets of earlier views, and their prepares have to be from
  among the \<open>N\<close> replicas, which the code does not check.\<close>

theorem conflicting_certificates_convict:
  assumes "reachable E1 s1" and "reachable E2 s2" and "well_configured E1" and "N E1 = N E2" and "f E1 = f E2"
    and "cert_prepared E1 s1 d1 v n" and "cert_prepared E2 s2 d2 v n"
    and "prepare_votes s1 v n d1 \<subseteq> replicas E1" and "prepare_votes s2 v n d2 \<subseteq> replicas E2"
    and "d1 \<noteq> d2"
  shows "f E1 < int (card (double_voters E1 s1 s2 v n))"
proof -
  have E: "voted_for E2 = voted_for E1" "replicas E2 = replicas E1" "well_configured E2" "is_quorum E2 = is_quorum E1"
    using assms(3-5)
    by (auto simp: voted_for_def primary_def replicaCount_def replicas_def well_configured_def is_quorum_def
        intersectionQuorum_def fun_eq_iff)
  let ?A = "{i. voted_for E1 s1 v n i d1}" and ?B = "{i. voted_for E1 s2 v n i d2}"
  have A: "is_quorum E1 ?A"
    using cert_prepared_voters [OF reachable_wf [OF assms(1)] assms(3,6,8)] .
  have B: "is_quorum E1 ?B"
    using cert_prepared_voters [OF reachable_wf [OF assms(2)] E(3) assms(7,9)] by (simp add: E)
  have "?A \<inter> ?B \<subseteq> double_voters E1 s1 s2 v n"
    using A assms(10) by (auto simp: double_voters_def is_quorum_def)
  then have "card (?A \<inter> ?B) \<le> card (double_voters E1 s1 s2 v n)" by (intro card_mono) simp_all
  then show ?thesis using q.overlap [OF A B] by linarith
qed

theorem conflicting_certificates_convict_witness:
  "cert_prepared (net 1) (prepared_state ''X'' 1 2) ''X'' 0 1 \<and> cert_prepared (net 3) (prepared_state ''Y'' 3 2) ''Y'' 0 1 \<and>
   1 < card (double_voters (net 1) (prepared_state ''X'' 1 2) (prepared_state ''Y'' 3 2) 0 1)"
proof (intro conjI)
  have votes: "prepare_votes (prepared_state ''X'' 1 2) 0 1 ''X'' = {1, 2}" "prepare_votes (prepared_state ''Y'' 3 2) 0 1 ''Y'' = {3, 2}"
    by code_simp+
  show c: "cert_prepared (net 1) (prepared_state ''X'' 1 2) ''X'' 0 1" "cert_prepared (net 3) (prepared_state ''Y'' 3 2) ''Y'' 0 1"
    by code_simp+
  have reach: "reachable (net 1) (prepared_state ''X'' 1 2)" "reachable (net 3) (prepared_state ''Y'' 3 2)"
    using reachable_eventLoop [OF reachable_fresh] prepared_state_run by blast+
  have "f (net 1) < int (card (double_voters (net 1) (prepared_state ''X'' 1 2) (prepared_state ''Y'' 3 2) 0 1))"
    by (rule conflicting_certificates_convict [OF reach _ _ _ c]) (simp_all add: well_configured_def votes replicas_def)
  then show "1 < card (double_voters (net 1) (prepared_state ''X'' 1 2) (prepared_state ''Y'' 3 2) 0 1)" by simp
qed

section \<open>Execution\<close>

definition wrong_block_run :: "string event list" where
  "wrong_block_run = [pre_prepare_1 ''X'' ''Y'', prepare_1 ''X'' 2, prepare_1 ''X'' 3, commit_1 ''X'' 0, commit_1 ''X'' 2]"

text \<open>what a replica hands to the chain need not be what the replicas agreed on. The pre-prepare is put in
  the certificate before the hash of its block is compared with the digest, and the block of the
  certificate is not looked at again: with prepares and commits of the others for digest \<open>X\<close>,
  the replica delivers the block with hash \<open>Y\<close> that the faulty primary sent to it.\<close>

theorem delivers_unagreed_block:
  "\<exists>s. eventLoop (net 1) 8 wrong_block_run (fresh 1) = Inr s \<and> committed (net 1) s ''X'' 0 1 \<and>
     CommittedBlock s = [''Y''] \<and> Hash (net 1) ''Y'' \<noteq> ''X''"
proof -
  have "case eventLoop (net 1) 8 wrong_block_run (fresh 1) of Inl _ \<Rightarrow> False
     | Inr s \<Rightarrow> committed (net 1) s ''X'' 0 1 \<and> CommittedBlock s = [''Y'']"
    by code_simp
  then show ?thesis by (simp split: sum.splits)
qed

text \<open>The state after a block is handed over: to the miner by the primary, to the chain by a backup.\<close>

definition handed_over :: "'b env \<Rightarrow> u64 \<Rightarrow> 'b \<Rightarrow> 'b pbftCore \<Rightarrow> 'b pbftCore" where
  "handed_over E n b s = (if primary E (view s) = replica_id E
     then s\<lparr>currentExec := Some n, finishedChan := Suc (finishedChan s)\<rparr>
     else s\<lparr>currentExec := Some n, CommittedBlock := CommittedBlock s @ [b]\<rparr>)"

text \<open>A certificate that is executed next: that of the number after the last executed one, with a pre-prepare
  for the block, committed for its digest, at a replica that is not catching up.\<close>

definition executable :: "'b env \<Rightarrow> 'b pbftCore \<Rightarrow> msgID \<Rightarrow> string \<Rightarrow> 'b \<Rightarrow> bool" where
  "executable E s idx d b \<longleftrightarrow> (\<exists>cert preprep. mget (certStore s) idx = Some cert \<and> digest cert = d \<and>
     prePrepare cert = Some preprep \<and> pp_Block preprep = b \<and> mi_n idx = LastExec s + 1 \<and> \<not> skipInProgress s \<and>
     committed E s d (mi_v idx) (mi_n idx))"

text \<open>The null request has the empty digest: it is done at once.\<close>

definition null_done :: "'b runner \<Rightarrow> u64 \<Rightarrow> 'b pbftCore \<Rightarrow> 'b result" where
  "null_done rec n s = rec execDoneSync_call (s\<lparr>currentExec := Some n\<rparr>)"

lemma executeOne_cases:
  obtains "\<nexists>d b. executable E s idx d b" "executeOne E rec idx s = Inr (False, s)"
  | d b where "executable E s idx d b" "d \<noteq> ''''" "executeOne E rec idx s = Inr (True, handed_over E (LastExec s + 1) b s)"
  | b where "executable E s idx '''' b"
      "executeOne E rec idx s = bind_res (null_done rec (LastExec s + 1) s) (\<lambda>(_, s). Inr (True, s))"
proof (cases "\<exists>d b. executable E s idx d b")
  case True
  then obtain d b where "executable E s idx d b" by blast
  then show thesis using that(2,3)
    by (cases "d = ''''") (auto simp: executeOne_def Let_def executable_def handed_over_def null_done_def)
next
  case False
  then have "executeOne E rec idx s = Inr (False, s)"
    by (auto simp: executeOne_def Let_def executable_def split: option.split)
  then show thesis using that(1) False by blast
qed

lemma executeLoop_cases:
  "executeLoop E rec idxs s = Inr s \<and> (\<forall>idx\<in>set idxs. \<nexists>d b. executable E s idx d b) \<or>
   (\<exists>idx d b. executable E s idx d b \<and> d \<noteq> '''' \<and> executeLoop E rec idxs s = Inr (handed_over E (LastExec s + 1) b s)) \<or>
   (\<exists>idx b. executable E s idx '''' b \<and> executeLoop E rec idxs s = bind_res (null_done rec (LastExec s + 1) s) (\<lambda>(_, s). Inr s))"
proof (induction idxs)
  case (Cons idx idxs)
  show ?case
  proof (rule executeOne_cases [of E s idx rec])
    assume "\<nexists>d b. executable E s idx d b" "executeOne E rec idx s = Inr (False, s)"
    then show ?thesis using Cons by simp
  next
    fix b assume n: "executable E s idx '''' b"
      "executeOne E rec idx s = bind_res (null_done rec (LastExec s + 1) s) (\<lambda>(_, s). Inr (True, s))"
    then have "executeLoop E rec (idx # idxs) s = bind_res (null_done rec (LastExec s + 1) s) (\<lambda>(_, s). Inr s)"
      by (cases "null_done rec (LastExec s + 1) s") (auto split: prod.split)
    then show ?thesis using n(1) by blast
  qed (auto, blast)
qed simp

lemma startTimer_executing:
  "currentExec s \<noteq> None \<Longrightarrow> startTimerIfOutstandingBlocks E s = s"
  by (simp add: startTimerIfOutstandingBlocks_def)

text \<open>C9: \<open>executeOutstanding\<close> hands over one block at a time, in order and with a commit certificate. While a
  block is being executed it does nothing. Otherwise, when no certificate is executable it only looks at the
  timers; and when there is one, it executes one: it hands the block of the pre-prepare over, to the miner at
  the primary and to the chain at a backup, and notes the number after the last executed one as being
  executed, or, for the null request, it goes on as when the execution of that number is done.\<close>

theorem executeOutstanding_in_order:
  "(\<exists>n. currentExec s = Some n) \<and> executeOutstanding E rec s = Inr (None, s) \<or>
   currentExec s = None \<and>
    ((\<nexists>idx d b. executable E s idx d b) \<and>
        executeOutstanding E rec s = Inr (None, startTimerIfOutstandingBlocks E s) \<or>
     (\<exists>idx d b. executable E s idx d b \<and> d \<noteq> '''' \<and>
        executeOutstanding E rec s = Inr (None, handed_over E (LastExec s + 1) b s)) \<or>
     (\<exists>idx b. executable E s idx '''' b \<and>
        executeOutstanding E rec s = bind_res (null_done rec (LastExec s + 1) s)
          (\<lambda>(_, s'). Inr (None, startTimerIfOutstandingBlocks E s'))))"
proof (cases "currentExec s")
  case None
  have keys: "idx \<in> set (mkeys (certStore s))" if "executable E s idx d b" for idx d b
    using that by (auto simp: executable_def am.set_keys)
  have run: "executeOutstanding E rec s =
      bind_res (executeLoop E rec (mkeys (certStore s)) s) (\<lambda>s. Inr (None, startTimerIfOutstandingBlocks E s))"
    using None by (simp add: executeOutstanding_def finish_def)
  have st: "startTimerIfOutstandingBlocks E (handed_over E n b s) = handed_over E n b s" for n b
    by (rule startTimer_executing) (simp add: handed_over_def)
  have nd: "bind_res (bind_res m (\<lambda>(_, s). Inr s)) (\<lambda>s. Inr (None, g s)) = bind_res m (\<lambda>(_, s'). Inr (None, g s'))"
    for m :: "'b result" and g :: "'b pbftCore \<Rightarrow> 'b pbftCore" by (cases m) (auto split: prod.split)
  from executeLoop_cases [of E rec "mkeys (certStore s)" s] show ?thesis
  proof (elim disjE exE conjE)
    assume l: "executeLoop E rec (mkeys (certStore s)) s = Inr s" "\<forall>idx\<in>set (mkeys (certStore s)). \<nexists>d b. executable E s idx d b"
    then have "\<nexists>idx d b. executable E s idx d b" using keys by blast
    then show ?thesis using None l(1) run by simp
  next
    fix idx d b
    assume l: "executable E s idx d b" "d \<noteq> ''''" "executeLoop E rec (mkeys (certStore s)) s = Inr (handed_over E (LastExec s + 1) b s)"
    then have "executeOutstanding E rec s = Inr (None, handed_over E (LastExec s + 1) b s)" using run st by simp
    then show ?thesis using None l(1,2) by blast
  next
    fix idx b
    assume l: "executable E s idx '''' b"
      "executeLoop E rec (mkeys (certStore s)) s = bind_res (null_done rec (LastExec s + 1) s) (\<lambda>(_, s). Inr s)"
    have "executeOutstanding E rec s = bind_res (null_done rec (LastExec s + 1) s)
        (\<lambda>(_, s'). Inr (None, startTimerIfOutstandingBlocks E s'))" unfolding run l(2) by (rule nd)
    then show ?thesis using None l(1) by blast
  qed
qed (simp add: executeOutstanding_def finish_def)

text \<open>A backup that has the pre-prepare, the prepares and one commit less than a quorum, and receives the last one.\<close>

definition committed_state :: "string pbftCore" where
  "committed_state = setCert 0 1 (\<lambda>c. c\<lparr>commit := commit c @
     [\<lparr>c_View = 0, c_SequenceNumber = 1, c_BlockHash = ''X'', c_ReplicaId = 0\<rparr>,
      \<lparr>c_View = 0, c_SequenceNumber = 1, c_BlockHash = ''X'', c_ReplicaId = 2\<rparr>]\<rparr>) (prepared_state ''X'' 1 2)"

theorem executeOutstanding_in_order_witness:
  "\<exists>s'. executeOutstanding (net 1) (exec (net 1) 1) committed_state = Inr (None, s') \<and>
     currentExec s' = Some 1 \<and> CommittedBlock s' = [''X'']"
proof -
  have cert: "certStore committed_state = [(\<lparr>mi_v = 0, mi_n = 1\<rparr>, the (cert_of committed_state 0 1))]"
    "prePrepare (the (cert_of committed_state 0 1)) =
       Some \<lparr>pp_View = 0, pp_SequenceNumber = 1, pp_BlockHash = ''X'', pp_Block = ''X'', pp_ReplicaId = 0\<rparr>"
    "digest (the (cert_of committed_state 0 1)) = ''X''" "LastExec committed_state = 0" "\<not> skipInProgress committed_state"
    "committed (net 1) committed_state ''X'' 0 1" "currentExec committed_state = None"
    "view committed_state = 0" "CommittedBlock committed_state = []"
    by code_simp+
  have ex: "executable (net 1) committed_state idx d b \<longleftrightarrow> idx = \<lparr>mi_v = 0, mi_n = 1\<rparr> \<and> d = ''X'' \<and> b = ''X''" for idx d b
    using cert(2-6) unfolding executable_def cert(1) by (auto simp: mget_def)
  show ?thesis using executeOutstanding_in_order [of committed_state "net 1" "exec (net 1) 1"] cert(4,7-9)
    by (auto simp: ex handed_over_def primary_def replicaCount_def)
qed

section \<open>Messages\<close>

definition event_sender :: "'b event \<Rightarrow> u64 option" where
  "event_sender e = (case e of PrePrepareEvent x \<Rightarrow> Some (pp_ReplicaId x) | PrepareEvent x \<Rightarrow> Some (p_ReplicaId x)
     | CommitEvent x \<Rightarrow> Some (c_ReplicaId x) | CheckpointEvent x \<Rightarrow> Some (ck_ReplicaId x)
     | ViewChangeEvent x \<Rightarrow> Some (vc_ReplicaId x) | NewViewEvent x \<Rightarrow> Some (nv_ReplicaId x) | _ \<Rightarrow> None)"

text \<open>a message is only processed under the name of its sender: the event that \<open>recvMsg\<close> makes of a message
  carries the sender's identity, and a message whose payload names another replica gives no event.\<close>

theorem recvMsg_sender:
  assumes "recvMsg m i = Some e"
  shows "event_sender e = Some i"
  using assms
  by (auto simp: recvMsg_def event_sender_def GetPrePrepare_def GetPrepare_def GetCommit_def GetCheckpoint_def
      GetViewChange_def GetNewView_def split: option.splits payload.splits if_splits)

theorem recvMsg_sender_witness:
  "event_sender (PrepareEvent \<lparr>p_View = 0, p_SequenceNumber = 1, p_BlockHash = ''X'', p_ReplicaId = 2\<rparr> :: string event) = Some 2"
  by (rule recvMsg_sender [of "\<lparr>m_Sender = 2, m_PayloadCode = 2, m_Payload = PL_Prepare
      \<lparr>p_View = 0, p_SequenceNumber = 1, p_BlockHash = ''X'', p_ReplicaId = 2\<rparr>\<rparr>"])
    (simp add: recvMsg_def GetPrePrepare_def GetPrepare_def msg_codes)

end
