(* ===== verification/Pbft_View_Change_Properties.thy ===== *)
theory Pbft_View_Change_Properties
  imports Pbft_View_Change Pbft_Safety_Properties
begin

text \<open>
  Properties of the view change: the P and Q sets a replica reports, the checkpoint and the
  requests a new view starts from, the check of a new view, and what the replica does with view
  changes and new views that a faulty replica may send.
\<close>

section \<open>P and Q sets\<close>

text \<open>C12: the P set of a view change holds, for each sequence number, an entry of the latest view among
  the entry kept from earlier views and the certificates that are prepared; a number without
  either has no entry. This does not depend on the order in which the certificates are visited.\<close>

theorem calcPSet_holds_latest:
  "case mget (calcPSet E s) n of
     None \<Rightarrow> p_candidates E s n = {}
   | Some p \<Rightarrow> p \<in> p_candidates E s n \<and> (\<forall>p'\<in>p_candidates E s n. pq_View p' \<le> pq_View p)"
  unfolding p_candidates_eq calcPSet_latest by (rule keep_latest_spec)

theorem calcPSet_holds_latest_witness:
  "\<exists>p. mget (calcPSet (net 1) (prepared_state ''X'' 1 2)) 1 = Some p \<and> p \<in> p_candidates (net 1) (prepared_state ''X'' 1 2) 1"
proof -
  have "mget (calcPSet (net 1) (prepared_state ''X'' 1 2)) 1 \<noteq> None" by code_simp
  then show ?thesis using calcPSet_holds_latest [of "net 1" "prepared_state ''X'' 1 2" 1] by auto
qed

text \<open>C13: the Q set of a view change likewise holds, for each digest and sequence number, an entry of the latest view among
  the entry kept from earlier views and the certificates in which the digest was pre-prepared for the
  number; a digest and number without either has no entry.\<close>

theorem calcQSet_holds_latest:
  "case mget (calcQSet s) \<lparr>q_d = d, q_n = n\<rparr> of
     None \<Rightarrow> q_candidates s d n = {}
   | Some q \<Rightarrow> q \<in> q_candidates s d n \<and> (\<forall>q'\<in>q_candidates s d n. pq_View q' \<le> pq_View q)"
  unfolding q_candidates_eq calcQSet_latest by (rule keep_latest_spec)

theorem calcQSet_holds_latest_witness:
  "\<exists>q. mget (calcQSet (prepared_state ''X'' 1 2)) \<lparr>q_d = ''X'', q_n = 1\<rparr> = Some q \<and> q \<in> q_candidates (prepared_state ''X'' 1 2) ''X'' 1"
proof -
  have "mget (calcQSet (prepared_state ''X'' 1 2)) \<lparr>q_d = ''X'', q_n = 1\<rparr> \<noteq> None" by code_simp
  then show ?thesis using calcQSet_holds_latest [of "prepared_state ''X'' 1 2" "''X''" 1] by auto
qed

section \<open>The start of a new view\<close>

definition sample_vc :: "u64 \<Rightarrow> ViewChange_C list \<Rightarrow> ViewChange_PQ list \<Rightarrow> ViewChange" where
  "sample_vc i cs pqs = \<lparr>vc_View = 1, vc_H = 0, vc_Cset = cs, vc_Pset = pqs, vc_Qset = pqs, vc_ReplicaId = i,
     vc_Signature = ''s'', vc_Signer = zeroAddress\<rparr>"

definition ckpt :: "u64 \<Rightarrow> ViewChange_C" where
  "ckpt n = \<lparr>vcc_SequenceNumber = n, vcc_Id = ''c''\<rparr>"

text \<open>C14: \<open>selectInitialCheckpoint\<close> succeeds exactly when some checkpoint is listed more than \<open>f\<close> times
  and a quorum of the view changes has a low watermark at or below it, and then it selects
  such a checkpoint with the largest sequence number.\<close>

theorem selectInitialCheckpoint_selects_highest:
  assumes "selectInitialCheckpoint E vset = (cp, ok, reps)"
  shows "(ok \<longleftrightarrow> (\<exists>c. eligible E vset c)) \<and>
    (ok \<longrightarrow> eligible E vset cp \<and> (\<forall>c. eligible E vset c \<longrightarrow> vcc_SequenceNumber c \<le> vcc_SequenceNumber cp))"
  using assms by (rule selectInitialCheckpoint_spec)

theorem selectInitialCheckpoint_selects_highest_witness:
  "eligible (net 0) [sample_vc 1 [ckpt 20, ckpt 10] [], sample_vc 2 [ckpt 20, ckpt 10] [], sample_vc 3 [ckpt 10] []] (ckpt 20)"
proof -
  have "selectInitialCheckpoint (net 0)
      [sample_vc 1 [ckpt 20, ckpt 10] [], sample_vc 2 [ckpt 20, ckpt 10] [], sample_vc 3 [ckpt 10] []] =
      (ckpt 20, True, [1, 2, 3])" by code_simp
  from selectInitialCheckpoint_selects_highest [OF this] show ?thesis by simp
qed

text \<open>the replicas that \<open>selectInitialCheckpoint\<close> returns need not be the ones that listed the selected
  checkpoint: here replica 3 is returned as a source of checkpoint 20, which it does not have.\<close>

theorem selectInitialCheckpoint_wrong_replicas:
  "\<exists>vset cp reps. selectInitialCheckpoint (net 0) vset = (cp, True, reps) \<and>
     (\<exists>vc\<in>set vset. vc_ReplicaId vc \<in> set reps \<and> cp \<notin> set (vc_Cset vc))"
proof -
  let ?vset = "[sample_vc 1 [ckpt 20, ckpt 10] [], sample_vc 2 [ckpt 20, ckpt 10] [], sample_vc 3 [ckpt 10] []]"
  have "selectInitialCheckpoint (net 0) ?vset = (ckpt 20, True, [1, 2, 3])" by code_simp
  then show ?thesis by (intro exI [of _ ?vset] exI [of _ "ckpt 20"] exI [of _ "[1, 2, 3]"]) (simp add: sample_vc_def ckpt_def)
qed

text \<open>C15: \<open>assignSequenceNumbers\<close>, when the log does not end at the largest \<open>uint64\<close>. It gives up exactly when for some number of
  the log no digest is selected by the conditions A1 and A2 and the null request is not possible by condition B. Otherwise a number
  of the log that is listed has a digest that is selected for it, or has the null request where nothing is selected
  and B holds; and a number that is not listed is outside the log or is one of the null requests on top, with
  nothing selected for it or for a number above it. A2 counts entries of the Q sets, not messages, and the entry
  that is selected may be one for another number.\<close>

theorem assignSequenceNumbers_assigns:
  assumes "low + log_L E \<noteq> - 1"
  shows "(assignSequenceNumbers E vset low = Inr None \<and>
       (\<exists>n. low + 1 \<le> n \<and> n \<le> low + log_L E \<and> (\<nexists>d. selected E vset n d) \<and> \<not> null_possible E vset n)) \<or>
    (\<exists>msgList. assignSequenceNumbers E vset low = Inr (Some msgList) \<and> distinct (mkeys msgList) \<and>
       (\<forall>n. case mget msgList n of
          Some d \<Rightarrow> low + 1 \<le> n \<and> n \<le> low + log_L E \<and>
            (selected E vset n d \<or>
             d = '''' \<and> (\<nexists>d. selected E vset n d) \<and> null_possible E vset n \<and>
               (n = low + 1 \<or> (\<exists>m d. n < m \<and> m \<le> low + log_L E \<and> selected E vset m d)))
        | None \<Rightarrow> \<not> (low + 1 \<le> n \<and> n \<le> low + log_L E) \<or>
            low + 1 < n \<and> null_possible E vset n \<and> (\<forall>m d. n \<le> m \<and> m \<le> low + log_L E \<longrightarrow> \<not> selected E vset m d)))"
proof (cases "assignSequenceNumbers E vset low = Inr None")
  case True
  then show ?thesis using assignSequenceNumbers_spec [OF assms, of vset] by (auto simp: assignOne_Stuck)
next
  case False
  then obtain msgList maxN where r: "assignSequenceNumbers E vset low = Inr (Some msgList)" "distinct (mkeys msgList)"
    and ok: "\<forall>n. low + 1 \<le> n \<and> n \<le> low + log_L E \<longrightarrow> assignOne E vset n \<noteq> Stuck"
    and top: "maxN = low + 1 \<or> low + 1 \<le> maxN \<and> maxN \<le> low + log_L E \<and> is_request E vset maxN"
      "\<forall>n. low + 1 \<le> n \<and> n \<le> low + log_L E \<and> is_request E vset n \<longrightarrow> n \<le> maxN"
    and get: "\<forall>n. mget msgList n = (if low + 1 \<le> n \<and> n \<le> low + log_L E \<and> \<not> (maxN < n \<and> assigned E vset n = Some '''')
      then assigned E vset n else None)"
    using assignSequenceNumbers_spec [OF assms, of vset] by blast
  have "case mget msgList n of
      Some d \<Rightarrow> low + 1 \<le> n \<and> n \<le> low + log_L E \<and>
        (selected E vset n d \<or>
         d = '''' \<and> (\<nexists>d. selected E vset n d) \<and> null_possible E vset n \<and>
           (n = low + 1 \<or> (\<exists>m d. n < m \<and> m \<le> low + log_L E \<and> selected E vset m d)))
    | None \<Rightarrow> \<not> (low + 1 \<le> n \<and> n \<le> low + log_L E) \<or>
        low + 1 < n \<and> null_possible E vset n \<and> (\<forall>m d. n \<le> m \<and> m \<le> low + log_L E \<longrightarrow> \<not> selected E vset m d)" for n
  proof (cases "mget msgList n")
    case (Some d)
    then have n: "low + 1 \<le> n" "n \<le> low + log_L E" "assigned E vset n = Some d" "d = '''' \<longrightarrow> n \<le> maxN"
      using get by (auto split: if_splits)
    have "n < maxN \<and> maxN \<le> low + log_L E \<and> is_request E vset maxN" if "assignOne E vset n = Null" "d = ''''" "n \<noteq> low + 1"
      using that n top(1) by (auto simp: is_request_def order.strict_iff_order)
    then show ?thesis using Some n(1,2) assigned_cases [OF n(3)] assignOne_Null [of E vset n]
      by (auto simp: is_request_selected)
  next
    case None
    show ?thesis
    proof (cases "low + 1 \<le> n \<and> n \<le> low + log_L E")
      case True
      have some: "assigned E vset n \<noteq> None" using ok True by (auto simp: assigned_def split: assignment.split)
      then have n: "maxN < n" using get None True by (auto split: if_splits)
      have no: "\<not> is_request E vset m" if "n \<le> m" "m \<le> low + log_L E" for m
        using top(2) that n True by (meson leD order_trans)
      then have "assignOne E vset n = Null" using ok True by (cases "assignOne E vset n") (auto simp: is_request_def)
      moreover have "low + 1 < n" using n top(1) True by (auto intro: le_less_trans)
      ultimately show ?thesis using None no assignOne_Null [of E vset n] by (auto simp: is_request_selected)
    qed (simp add: None)
  qed
  then show ?thesis using r by blast
qed

text \<open>The outcome of the selection depends on the configuration only through \<open>N\<close>, \<open>f\<close> and the log size.\<close>

lemma assignSequenceNumbers_cong:
  fixes E1 E2 :: "'b env"
  assumes "N E1 = N E2" and "f E1 = f E2" and "log_L E1 = log_L E2"
  shows "assignSequenceNumbers E1 vset low = assignSequenceNumbers E2 vset low"
proof -
  have "assignOne E1 = assignOne E2"
    using assms by (simp add: fun_eq_iff assignOne_def intersectionQuorum_def condA1_def condA2_def)
  moreover from this have "assignLoop E1 vset ns m mx = assignLoop E2 vset ns m mx" for vset ns m mx
    by (induction ns arbitrary: m mx) (auto split: assignment.split)
  ultimately show ?thesis using assms by (simp add: assignSequenceNumbers_def)
qed

text \<open>Three view changes that report a request prepared for number 1 and one for number 2.\<close>

definition pq_1 :: ViewChange_PQ where
  "pq_1 = \<lparr>pq_SequenceNumber = 1, pq_BlockHash = ''X'', pq_View = 0\<rparr>"

definition pq_2 :: ViewChange_PQ where
  "pq_2 = \<lparr>pq_SequenceNumber = 2, pq_BlockHash = ''Y'', pq_View = 0\<rparr>"

definition sample_vset :: "ViewChange list" where
  "sample_vset = map (\<lambda>i. sample_vc i [ckpt 0] [pq_1, pq_2]) [0, 1, 2]"

lemma sample_vset_assigned:
  "assignSequenceNumbers (net i) sample_vset 0 = Inr (Some [(1, ''X''), (2, ''Y'')])"
proof -
  have "assignSequenceNumbers (net i) sample_vset 0 = assignSequenceNumbers (net 0) sample_vset 0"
    by (rule assignSequenceNumbers_cong) (simp_all add: log_L_def)
  also have "\<dots> = Inr (Some [(1, ''X''), (2, ''Y'')])" by code_simp
  finally show ?thesis .
qed

theorem assignSequenceNumbers_assigns_witness:
  "\<exists>msgList. assignSequenceNumbers (net 0) sample_vset 0 = Inr (Some msgList) \<and> selected (net 0) sample_vset 2 ''Y''"
proof -
  have "0 + log_L (net 0) \<noteq> - 1" by (simp add: log_L_def)
  from assignSequenceNumbers_assigns [OF this, of sample_vset] have
    "\<forall>n. case mget [(1, ''X''), (2, ''Y'')] n of Some d \<Rightarrow> selected (net 0) sample_vset n d \<or> d = '''' | None \<Rightarrow> True"
    unfolding sample_vset_assigned by (auto split: option.splits)
  from spec [OF this, of 2] show ?thesis by (simp add: sample_vset_assigned mget_def)
qed

section \<open>The check of a new view\<close>

text \<open>C16: what a backup does with a new view whose initial checkpoint it has executed and has at or below its low watermark. With an X set
  shorter than the assignment that the primary computes from the same view changes, the backup panics. Otherwise it goes on with the new view exactly when the
  X set has as many entries as the assignment and each of them is an entry of the assignment, in whatever order
  and also when one is repeated; then it enters the view, or first waits for missing blocks. In every other case it starts a view change.
  Primary and backup have the same \<open>N\<close>, \<open>f\<close> and log size, and the log does not end at the largest \<open>uint64\<close>.\<close>

theorem new_view_check:
  fixes E1 E2 :: "'b env"
  assumes "N E1 = N E2" and "f E1 = f E2" and "log_L E1 = log_L E2" and "vcc_SequenceNumber cp + log_L E1 \<noteq> - 1"
    and "mget (newViewStore s) (view s) = Some nv" and "\<not> activeView s"
    and "selectInitialCheckpoint E2 (nv_Vset nv) = (cp, True, reps)"
    and "vcc_SequenceNumber cp \<le> (case currentExec s of Some n \<Rightarrow> n | None \<Rightarrow> LastExec s)" and "vcc_SequenceNumber cp \<le> h s"
    and "assignSequenceNumbers E1 (nv_Vset nv) (vcc_SequenceNumber cp) = Inr (Some sent)"
  shows "processNewView E2 rec s =
    (if length (nv_Xset nv) < length sent then Inl (Panic ''index out of range'')
     else if length (nv_Xset nv) = length sent \<and> set (nv_Xset nv) \<subseteq> set (ConvertMapToStruct sent)
     then (if missingReqBatches (noteMissing (nv_Xset nv) s) = []
           then rec (processNewView2_call nv) (noteMissing (nv_Xset nv) s) else finish (noteMissing (nv_Xset nv) s))
     else rec sendViewChange_call s)"
proof -
  let ?xs = "nv_Xset nv"
  have computed: "assignSequenceNumbers E2 (nv_Vset nv) (vcc_SequenceNumber cp) = Inr (Some sent)"
    using assignSequenceNumbers_cong [OF assms(1-3)] assms(10) by simp
  have d: "distinct (mkeys sent)"
    using assignSequenceNumbers_spec [of "vcc_SequenceNumber cp" E1 "nv_Vset nv"] assms(4,10) by auto
  have acc: "length ?xs = length sent \<and> set ?xs \<subseteq> set (ConvertMapToStruct sent) \<longleftrightarrow>
      length sent \<le> length ?xs \<and> (sent = [] \<and> ?xs = [] \<or> matchXset (ConvertMapToStruct sent) ?xs = map Some ?xs)"
    using xset_accepted_iff [OF d, of ?xs] by (auto simp: xset_accepted_def mem_ConvertMapToStruct [OF d])
  show ?thesis
    using assms(5-9) computed leD [OF assms(8)] leD [OF assms(9)]
    unfolding acc by (auto simp: processNewView_def Let_def andThen_def finish_def)
qed

definition sample_new_view :: NewView where
  "sample_new_view = \<lparr>nv_View = 1, nv_Vset = sample_vset,
     nv_Xset = [\<lparr>xs_Seq = 2, xs_Hash = ''Y''\<rparr>, \<lparr>xs_Seq = 1, xs_Hash = ''X''\<rparr>], nv_ReplicaId = 1\<rparr>"

theorem new_view_check_witness:
  "\<exists>s'. processNewView (net 2) (exec (net 2) 5) ((fresh 2)\<lparr>view := 1, activeView := False, newViewStore := [(1, sample_new_view)],
     blockStore := [(''X'', ''X''), (''Y'', ''Y'')]\<rparr>) = exec (net 2) 5 (processNewView2_call sample_new_view) s'"
proof -
  let ?s = "(fresh 2)\<lparr>view := 1, activeView := False, newViewStore := [(1, sample_new_view)], blockStore := [(''X'', ''X''), (''Y'', ''Y'')]\<rparr>"
  have cp: "selectInitialCheckpoint (net 2) (nv_Vset sample_new_view) = (ckpt 0, True, [0, 1, 2])" by code_simp
  have "missingReqBatches (noteMissing (nv_Xset sample_new_view) ?s) = []" by code_simp
  moreover have "processNewView (net 2) (exec (net 2) 5) ?s =
      (if missingReqBatches (noteMissing (nv_Xset sample_new_view) ?s) = []
       then exec (net 2) 5 (processNewView2_call sample_new_view) (noteMissing (nv_Xset sample_new_view) ?s)
       else finish (noteMissing (nv_Xset sample_new_view) ?s))"
    by (subst new_view_check [of "net 1" "net 2" "ckpt 0" ?s sample_new_view "[0, 1, 2]" "[(1, ''X''), (2, ''Y'')]"])
      (use cp in \<open>simp_all add: log_L_def ckpt_def mget_def sample_new_view_def sample_vset_assigned fresh_def initialCore_def ConvertMapToStruct_def\<close>)
  ultimately show ?thesis by auto
qed

definition bad_new_view :: NewView where
  "bad_new_view = \<lparr>nv_View = 1, nv_Vset = sample_vset,
     nv_Xset = [\<lparr>xs_Seq = 1, xs_Hash = ''X''\<rparr>, \<lparr>xs_Seq = 1, xs_Hash = ''X''\<rparr>], nv_ReplicaId = 1\<rparr>"

definition bad_new_view_run :: "string event list" where
  "bad_new_view_run = [pre_prepare_1 ''X'' ''X'',
     PrePrepareEvent \<lparr>pp_View = 0, pp_SequenceNumber = 2, pp_BlockHash = ''Y'', pp_Block = ''Y'', pp_ReplicaId = 0\<rparr>,
     ViewChangeEvent (sample_vc 0 [ckpt 0] [pq_1, pq_2]), ViewChangeEvent (sample_vc 1 [ckpt 0] [pq_1, pq_2]),
     NewViewEvent bad_new_view]"

text \<open>the check of the X set compares entry by entry and so accepts a set in which one entry is
  repeated in place of another. Here the view changes assign requests to the numbers 1 and 2;
  the faulty primary lists number 1 twice, the backup enters the new view, and number 2 has no
  certificate in it.\<close>

theorem new_view_drops_request:
  "\<exists>s. eventLoop (net 2) 12 bad_new_view_run (fresh 2) = Inr s \<and> view s = 1 \<and> activeView s \<and>
     assignSequenceNumbers (net 2) (nv_Vset bad_new_view) 0 = Inr (Some [(1, ''X''), (2, ''Y'')]) \<and>
     cert_of s 1 1 \<noteq> None \<and> cert_of s 1 2 = None"
proof -
  have "case eventLoop (net 2) 12 bad_new_view_run (fresh 2) of Inl _ \<Rightarrow> False
     | Inr s \<Rightarrow> view s = 1 \<and> activeView s \<and> cert_of s 1 1 \<noteq> None \<and> cert_of s 1 2 = None"
    by code_simp
  then show ?thesis
    by (simp add: bad_new_view_def sample_vset_assigned split: sum.splits)
qed

text \<open>a new view whose X set is shorter than the assignment that the replica computes makes it panic with
  an index out of range, in whatever state it is in when it processes the new view.\<close>

theorem short_xset_panics:
  assumes "mget (newViewStore s) (view s) = Some nv" and "\<not> activeView s"
    and "selectInitialCheckpoint E (nv_Vset nv) = (cp, True, reps)"
    and "vcc_SequenceNumber cp \<le> (case currentExec s of Some n \<Rightarrow> n | None \<Rightarrow> LastExec s)"
    and "assignSequenceNumbers E (nv_Vset nv) (vcc_SequenceNumber cp) = Inr (Some msgList)"
    and "length (nv_Xset nv) < length msgList"
  shows "processNewView E rec s = Inl (Panic ''index out of range'')"
  using assms leD [OF assms(4)] by (simp add: processNewView_def Let_def)

theorem short_xset_panics_witness:
  "processNewView (net 2) (exec (net 2) 5) ((fresh 2)\<lparr>view := 1, activeView := False,
     newViewStore := [(1, \<lparr>nv_View = 1, nv_Vset = sample_vset, nv_Xset = [], nv_ReplicaId = 1\<rparr>)]\<rparr>) =
   Inl (Panic ''index out of range'')"
proof (rule short_xset_panics [where msgList = "[(1, ''X''), (2, ''Y'')]"])
  show "selectInitialCheckpoint (net 2) (nv_Vset \<lparr>nv_View = 1, nv_Vset = sample_vset, nv_Xset = [], nv_ReplicaId = 1\<rparr>) = (ckpt 0, True, [0, 1, 2])"
    by code_simp
qed (simp_all add: mget_def ckpt_def sample_vset_assigned)

text \<open>a backup that has moved its low watermark past an entry of the X set whose block it no longer holds
  panics on the missing block, although the entry is below the watermark and needs no agreement.\<close>

theorem stale_entry_panics:
  assumes "primary E (view s) \<noteq> replica_id E" and "nv_Xset nv = [x]"
    and "xs_Seq x \<le> h s" and "xs_Hash x \<noteq> ''''" and "mget (blockStore s) (xs_Hash x) = None"
  shows "processNewView2 E rec nv s = Inl (Panic ''nil block'')"
  using assms
  by (simp add: processNewView2_def Let_def adoptEntry_def prepareEntry_def stopTimer_def updateViewChangeSeqNo_def)

theorem stale_entry_panics_witness:
  "processNewView2 (net 2) (exec (net 2) 5) \<lparr>nv_View = 1, nv_Vset = [], nv_Xset = [\<lparr>xs_Seq = 1, xs_Hash = ''X''\<rparr>], nv_ReplicaId = 1\<rparr>
     ((fresh 2)\<lparr>view := 1, h := 10\<rparr>) = Inl (Panic ''nil block'')"
  by (rule stale_entry_panics [where x = "\<lparr>xs_Seq = 1, xs_Hash = ''X''\<rparr>"]) (simp_all add: primary_def replicaCount_def fresh_def initialCore_def)

section \<open>View changes from faulty replicas\<close>

text \<open>the signature of a view change does not bind it to a replica: whatever the view change says, in
  the name of whichever replica and with whatever signature, some value of its signer field makes
  the check accept it; for a signature from which no key can be recovered it is the zero address.\<close>

theorem view_change_forgery:
  "(\<exists>a. sigAccepted E (vc\<lparr>vc_Signer := a\<rparr>)) \<and>
   (Ecrecover E (sigHash E vc) (vc_Signature vc) = None \<longrightarrow> sigAccepted E (vc\<lparr>vc_Signer := zeroAddress\<rparr>))"
proof -
  have same: "ecrecoverFromSignature E (vc\<lparr>vc_Signer := a\<rparr>) = ecrecoverFromSignature E vc" for a
    by (simp add: ecrecoverFromSignature_def sigHash_def)
  have "sigAccepted E (vc\<lparr>vc_Signer := fst (ecrecoverFromSignature E vc)\<rparr>)"
    by (simp add: sigAccepted_def verifyViewChangeSig_def same split: prod.split)
  moreover have "fst (ecrecoverFromSignature E vc) = zeroAddress" if "Ecrecover E (sigHash E vc) (vc_Signature vc) = None"
    using that by (simp add: ecrecoverFromSignature_def)
  ultimately show ?thesis by metis
qed

theorem view_change_forgery_witness:
  "sigAccepted (net 2) ((sample_vc 3 [] [])\<lparr>vc_Signer := zeroAddress\<rparr>)"
  using view_change_forgery [of "net 2" "sample_vc 3 [] []"] by (simp add: net_def)

text \<open>condition A2 asks for more than \<open>f\<close> view changes that vouch for a request, but it counts entries:
  a single view change that repeats an entry \<open>f + 1\<close> times satisfies it.\<close>

theorem condA2_single_message:
  assumes "0 \<le> f E" and "vc_Qset vc = replicate (nat (f E + 1)) em"
  shows "condA2 E [vc] (pq_SequenceNumber em) em"
  using assms by (simp add: condA2_def count_if_def filter_replicate)

theorem condA2_single_message_witness: "condA2 (net 0) [sample_vc 3 [] [pq_1, pq_1]] 1 pq_1"
  using condA2_single_message [of "net 0" "sample_vc 3 [] [pq_1, pq_1]" pq_1]
  by (simp add: sample_vc_def pq_1_def numeral_2_eq_2)

text \<open>C17: starting a view change always ends: with a signing key, \<open>sendViewChange\<close> returns within a depth
  of calls given by the number of view changes it holds for views after the next one.\<close>

theorem sendViewChange_returns:
  assumes "0 \<le> f E" and "signFn E \<noteq> None" and "2 * pending s (view s + 1) + 2 \<le> depth"
  shows "\<exists>r. exec E depth sendViewChange_call s = Inr r"
  using assms sendViewChange_ends [of E _ s "pending s (view s + 1)" depth] by auto

theorem sendViewChange_returns_witness: "\<exists>r. exec (net 1) 2 sendViewChange_call (fresh 1) = Inr r"
  by (rule sendViewChange_returns) (simp_all add: net_def pending_def fresh_def initialCore_def)

end
