(* ===== verification/Pbft_Log.thy ===== *)
theory Pbft_Log
  imports Pbft_Safety_Properties
begin

text \<open>
  The log of a replica: the window of sequence numbers, what moving the low watermark drops,
  and what survives a restart from the database.
\<close>

section \<open>Watermarks\<close>

lemma fold_del_certs:
  fixes xs :: "(msgID \<times> 'b msgCert) list"
  defines "g \<equiv> \<lambda>(idx, cert) s. (persistDelRequestBlock (digest cert) s)\<lparr>
     blockStore := mdel (digest cert) (blockStore s), certStore := mdel idx (certStore s)\<rparr>"
  shows "certStore (fold g xs s) = fold mdel (map fst xs) (certStore s)"
    and "blockStore (fold g xs s) = fold mdel (map (digest \<circ> snd) xs) (blockStore s)"
    and "checkpointStore (fold g xs s) = checkpointStore s" "pset (fold g xs s) = pset s" "qset (fold g xs s) = qset s"
      "chkpts (fold g xs s) = chkpts s" "view (fold g xs s) = view s" "LastExec (fold g xs s) = LastExec s"
      "seqNo (fold g xs s) = seqNo s" "outstandingBlocks (fold g xs s) = outstandingBlocks s"
  by (induction xs arbitrary: s) (auto simp: g_def persistDelRequestBlock_def DelState_def)

lemma fold_del_chkpts:
  fixes ns :: "u64 list" and s :: "'b pbftCore"
  defines "g \<equiv> \<lambda>n s. persistDelCheckpoint n (s\<lparr>chkpts := mdel n (chkpts s)\<rparr>)"
  shows "chkpts (fold g ns s) = fold mdel ns (chkpts s)"
    and "certStore (fold g ns s) = certStore s" "blockStore (fold g ns s) = blockStore s"
      "checkpointStore (fold g ns s) = checkpointStore s" "pset (fold g ns s) = pset s" "qset (fold g ns s) = qset s"
      "view (fold g ns s) = view s" "LastExec (fold g ns s) = LastExec s"
      "seqNo (fold g ns s) = seqNo s" "outstandingBlocks (fold g ns s) = outstandingBlocks s"
  by (induction ns arbitrary: s) (auto simp: g_def persistDelCheckpoint_def DelState_def)

lemma map_fst_filter: "map fst (filter (\<lambda>(k, v). P k) m) = filter P (mkeys m)"
  by (induction m) (auto simp: mkeys_def)

lemma dropBelow_lookup:
  "cert_of (dropBelow l s) v n = (if n \<le> l then None else cert_of s v n)"
  "mget (checkpointStore (dropBelow l s)) c = (if ck_SequenceNumber c \<le> l then None else mget (checkpointStore s) c)"
  "mget (pset (dropBelow l s)) n = (if n \<le> l then None else mget (pset s) n)"
  "mget (qset (dropBelow l s)) q = (if q_n q \<le> l then None else mget (qset s) q)"
  "mget (chkpts (dropBelow l s)) n = (if n < l then None else mget (chkpts s) n)"
  "view (dropBelow l s) = view s" "LastExec (dropBelow l s) = LastExec s" "seqNo (dropBelow l s) = seqNo s"
  by (simp_all add: dropBelow_def Let_def cert_of_def fold_del_certs fold_del_chkpts map_fst_filter mdel_if_def [symmetric])

lemma unat_div_times: "unat (n div k * k) = unat n div unat k * unat k" for n k :: u64
proof -
  have "unat n div unat k * unat k \<le> unat n" by (rule div_times_less_eq_dividend)
  also have "unat n < 2 ^ LENGTH(64)" by (rule unsigned_less)
  finally show ?thesis using unat_mult_lem [of "n div k" k] by (simp add: unat_div)
qed

lemma div_times_le: "n div k * k \<le> n" for n k :: u64
  by (simp add: word_le_nat_alt unat_div_times)

text \<open>With no outstanding blocks there is nothing to submit again.\<close>

lemma resubmit_nothing: "outstandingBlocks s = [] \<Longrightarrow> resubmitBlockMsges E rec s = finish s"
  by (simp add: resubmitBlockMsges_def Let_def)

lemma outstandingBlocks_dropBelow [simp]: "outstandingBlocks (dropBelow l s) = outstandingBlocks s"
  by (simp add: dropBelow_def Let_def fold_del_certs fold_del_chkpts)

lemma exec_moveWatermarks:
  "outstandingBlocks s = [] \<Longrightarrow>
   exec E (Suc (Suc depth)) (moveWatermarks_call n) s = Inr (None, (dropBelow (n div K E * K E) s)\<lparr>h := n div K E * K E\<rparr>)"
  by (simp add: dispatch_def moveWatermarks_def andThen_def resubmit_nothing finish_def Let_def)



text \<open>the window of sequence numbers. Without overflow, a number is in the window exactly when it is above
  the low watermark and at most the log size above it.\<close>

theorem inW_window:
  assumes "unat (h s) + unat (log_L E) < 2 ^ 64"
  shows "inW E s n \<longleftrightarrow> h s < n \<and> n \<le> h s + log_L E"
proof -
  have sum: "unat (h s + log_L E) = unat (h s) + unat (log_L E)"
    using assms unat_add_lem [of "h s" "log_L E"] by simp
  show ?thesis
  proof (cases "h s \<le> n")
    case True
    have "unat (n - h s) = unat n - unat (h s)" by (rule unat_sub [OF True])
    then show ?thesis using True sum
      by (simp add: inW_def word_le_nat_alt word_less_nat_alt) linarith
  next
    case False
    then have "unat (n - h s) = 2 ^ 64 + unat n - unat (h s)"
      by (simp add: unat_sub_if' word_le_nat_alt)
    moreover have "unat n < 2 ^ 64" using unsigned_less [of n, where ?'a = nat] by simp
    ultimately show ?thesis using False assms
      by (simp add: inW_def word_le_nat_alt word_less_nat_alt)
  qed
qed

theorem inW_window_witness: "inW (net 0) (fresh 0) 40 \<longleftrightarrow> h (fresh 0) < 40 \<and> 40 \<le> h (fresh 0) + log_L (net 0)"
  by (rule inW_window) (simp add: fresh_def initialCore_def log_L_def)

section \<open>Persistence\<close>

lemma decimal_digits: "list_all is_digit (decimal n)"
proof (induction n rule: decimal.induct)
  case (1 n)
  have d: "is_digit (char_of (48 + m))" if "m < 10" for m :: nat
    using that by (simp add: is_digit_def of_char_of)
  show ?case
  proof (cases "n < 10")
    case True
    then show ?thesis using d [of n] by (simp add: decimal.simps [of n])
  next
    case False
    then show ?thesis using 1 d [of "n mod 10"] by (simp add: decimal.simps [of n])
  qed
qed

lemma undecimal_decimal: "undecimal (decimal n) = n"
proof (induction n rule: decimal.induct)
  case (1 n)
  have d: "of_char (char_of (48 + m) :: char) - 48 = m" if "m < 10" for m :: nat
    using that by (simp add: of_char_of)
  show ?case
  proof (cases "n < 10")
    case True
    then show ?thesis using d [of n] by (simp add: decimal.simps [of n] undecimal_def)
  next
    case False
    then have "undecimal (decimal (n div 10)) = n div 10" using 1 by simp
    then show ?thesis using False d [of "n mod 10"] by (simp add: decimal.simps [of n] undecimal_def)
  qed
qed

lemma decimal_not_Nil [simp]: "decimal n \<noteq> []"
  by (simp add: decimal.simps [of n])

lemma Sscanf_decimal: "Sscanf_d prefix (prefix @ decimal (unat n)) = Some n"
proof -
  have tw: "takeWhile is_digit (decimal (unat n)) = decimal (unat n)"
    using decimal_digits [of "unat n"] by (simp add: list_all_iff)
  have "unat n < 2 ^ LENGTH(64)" by (rule unsigned_less)
  then show ?thesis by (simp add: Sscanf_d_def Let_def tw undecimal_decimal)
qed

text \<open>A key that was stored is found again under its prefix.\<close>

lemma ReadStateSet_StoreState:
  assumes "distinct (mkeys (db s))"
  shows "(prefix @ key, val) \<in> set (ReadStateSet prefix (StoreState (prefix @ key) val s))"
proof -
  have "mget (mput (consensus_key (prefix @ key)) val (db s)) (consensus_key (prefix @ key)) = Some val" by simp
  then have "(consensus_key (prefix @ key), val) \<in> set (mput (consensus_key (prefix @ key)) val (db s))"
    by (rule mget_SomeD)
  then show ?thesis by (force simp: ReadStateSet_def StoreState_def consensus_key_def image_iff)
qed

text \<open>The checkpoints that are restored from pairs of keys and values, and the low watermark that comes with them.\<close>

lemma restoreChkpt_step:
  "restoreChkpt E (key, ident) p = (case Sscanf_d ''chkpt.'' key of
     None \<Rightarrow> p
   | Some n \<Rightarrow> ((fst p)\<lparr>chkpts := mput n (EncodeB64 E ident) (chkpts (fst p))\<rparr>, if n < snd p then n else snd p))"
  by (cases p) (simp add: restoreChkpt_def split: option.split)

lemma restoreChkpts_value:
  assumes "\<forall>(k, x)\<in>set kvs. Sscanf_d ''chkpt.'' k = Some n \<longrightarrow> x = ident"
  shows "mget (chkpts (fst (fold (restoreChkpt E) kvs p))) n =
    (if \<exists>(k, x)\<in>set kvs. Sscanf_d ''chkpt.'' k = Some n then Some (EncodeB64 E ident) else mget (chkpts (fst p)) n)"
  using assms
proof (induction kvs arbitrary: p)
  case (Cons kv kvs)
  obtain k x where kv: "kv = (k, x)" by fastforce
  have "mget (chkpts (fst (restoreChkpt E (k, x) p))) n =
      (if Sscanf_d ''chkpt.'' k = Some n then Some (EncodeB64 E ident) else mget (chkpts (fst p)) n)"
    using Cons.prems by (auto simp: restoreChkpt_step kv split: option.split)
  then show ?case using Cons.IH [of "restoreChkpt E (k, x) p"] Cons.prems unfolding kv fold_simps comp_def by auto
qed simp

lemma restoreChkpts_low:
  "snd (fold (restoreChkpt E) kvs p) \<le> snd p \<and>
   (\<forall>(k, x)\<in>set kvs. \<forall>n. Sscanf_d ''chkpt.'' k = Some n \<longrightarrow> snd (fold (restoreChkpt E) kvs p) \<le> n)"
proof (induction kvs arbitrary: p)
  case (Cons kv kvs)
  obtain k x where kv: "kv = (k, x)" by fastforce
  have "snd (restoreChkpt E (k, x) p) \<le> snd p"
    "\<forall>n. Sscanf_d ''chkpt.'' k = Some n \<longrightarrow> snd (restoreChkpt E (k, x) p) \<le> n"
    by (auto simp: restoreChkpt_step split: option.split)
  then show ?case using Cons.IH [of "restoreChkpt E (k, x) p"] unfolding kv fold_simps comp_def
    by (fastforce intro: order_trans)
qed simp

lemma restoreChkpts_frame:
  "outstandingBlocks (fst (fold (restoreChkpt E) kvs p)) = outstandingBlocks (fst p)"
  by (induction kvs arbitrary: p) (auto simp: restoreChkpt_step split: option.split)

lemma updateSeqView_frame:
  "db (updateSeqView pqs s) = db s \<and> chkpts (updateSeqView pqs s) = chkpts s \<and> outstandingBlocks (updateSeqView pqs s) = outstandingBlocks s"
  unfolding updateSeqView_def by (induction pqs arbitrary: s) (auto simp: Let_def)

text \<open>The checkpoint keys of a database are those that \<open>persistCheckpoint\<close> writes.\<close>

definition checkpoint_keys :: "(string \<times> string) list \<Rightarrow> bool" where
  "checkpoint_keys m \<longleftrightarrow> (\<forall>k\<in>set (mkeys m). take (length (consensus_key ''chkpt.'')) k = consensus_key ''chkpt.'' \<longrightarrow>
     (\<exists>n :: u64. k = consensus_key (''chkpt.'' @ decimal (unat n))))"

lemma ReadStateSet_checkpoint:
  assumes "distinct (mkeys (db s))" and "checkpoint_keys (db s)" and "mget (db s) (consensus_key (''chkpt.'' @ decimal (unat n))) = Some ident"
    and "(k, x) \<in> set (ReadStateSet ''chkpt.'' s)" and "Sscanf_d ''chkpt.'' k = Some n"
  shows "x = ident"
proof -
  from assms(4) obtain k' where k': "(k', x) \<in> set (db s)" "k = drop (length ''consensus.'') k'"
    "take (length (consensus_key ''chkpt.'')) k' = consensus_key ''chkpt.''"
    by (auto simp: ReadStateSet_def)
  then have "k' \<in> set (mkeys (db s))" by (force simp: mkeys_def)
  then obtain m :: u64 where m: "k' = consensus_key (''chkpt.'' @ decimal (unat m))"
    using assms(2) k'(3) unfolding checkpoint_keys_def by blast
  then have "k = ''chkpt.'' @ decimal (unat m)" using k'(2) by (simp add: consensus_key_def)
  then have "m = n" using assms(5) Sscanf_decimal [of "''chkpt.''" m] by simp
  then show ?thesis using mget_SomeI [OF assms(1) k'(1)] m assms(3) by simp
qed

text \<open>What the construction from a database does to the checkpoints.\<close>

lemma restoreState_chkpts:
  assumes "outstandingBlocks s = []"
  shows "\<exists>s2 s'. db s2 = db s \<and> chkpts s2 = chkpts s \<and> restoreState E (exec E (Suc (Suc depth))) s = Inr (None, s') \<and>
     (let p = restoreChkpts E s2; low = snd p div K E * K E in
      \<forall>n. mget (chkpts s') n = (if n < low then None else mget (chkpts (fst p)) n))"
proof -
  define s1 where "s1 = updateSeqView (restorePQSet E ''pset'' s)
    (s\<lparr>pset := fold (\<lambda>e. mput (pq_SequenceNumber e) e) (restorePQSet E ''pset'' s) (pset s)\<rparr>)"
  define s1' where "s1' = updateSeqView (restorePQSet E ''qset'' s1)
    (s1\<lparr>qset := fold (\<lambda>e. mput \<lparr>q_d = pq_BlockHash e, q_n = pq_SequenceNumber e\<rparr> e) (restorePQSet E ''qset'' s1) (qset s1)\<rparr>)"
  define s2 where "s2 = restoreLastSeqNo (s1'\<lparr>blockStore := fold (\<lambda>(key, raw) m. case UnmarshalJSON E raw of
      None \<Rightarrow> m | Some b \<Rightarrow> mput (Hash E b) b m) (ReadStateSet ''reqBlock.'' s1') (blockStore s1')\<rparr>)"
  have f: "db s2 = db s" "chkpts s2 = chkpts s" "outstandingBlocks s2 = []"
    using assms by (simp_all add: s2_def restoreLastSeqNo_def s1'_def s1_def updateSeqView_frame)
  obtain t low where t: "restoreChkpts E s2 = (t, low)" by fastforce
  have "outstandingBlocks t = []" using restoreChkpts_frame [of E "ReadStateSet ''chkpt.'' s2" "(s2, LastExec s2)"] t f(3)
    by (simp add: restoreChkpts_def)
  then have "restoreState E (exec E (Suc (Suc depth))) s = Inr (None, (dropBelow (low div K E * K E) t)\<lparr>h := low div K E * K E\<rparr>)"
    unfolding restoreState_def Let_def s1_def [symmetric] s1'_def [symmetric] s2_def [symmetric] t prod.case
    by (simp add: andThen_def exec_moveWatermarks finish_def del: exec.simps)
  then show ?thesis using f t
    by (intro exI [of _ s2] exI [of _ "(dropBelow (low div K E * K E) t)\<lparr>h := low div K E * K E\<rparr>"])
      (simp add: dropBelow_lookup)
qed

text \<open>C40: a checkpoint survives a restart. When a replica has persisted the checkpoint of a number, the replica that \<open>newPbftCore\<close>
  constructs from the database has that checkpoint among its own, with the identifier that was persisted, in the form in which the
  running replica holds it. The construction moves the watermark and does not drop it. The keys of the
  database are distinct, and those of checkpoints are as \<open>persistCheckpoint\<close> writes them.\<close>

theorem checkpoint_survives_restart:
  assumes "distinct (mkeys (db s))" and "checkpoint_keys (db s)"
    and "f E * 3 + 1 \<le> N E" and "2 \<le> logMultiplier E" and "K E \<noteq> 0" and "(word_of_int (N E) :: u64) \<noteq> 0"
  shows "\<exists>s'. newPbftCore E (exec E (Suc (Suc depth))) (db (persistCheckpoint n ident s)) = Inr s' \<and>
    mget (chkpts s') n = Some (EncodeB64 E ident)"
proof -
  let ?db = "db (persistCheckpoint n ident s)" and ?key = "''chkpt.'' @ decimal (unat n)"
  have d: "distinct (mkeys ?db)" "mget ?db (consensus_key ?key) = Some ident"
    using assms(1) by (simp_all add: persistCheckpoint_def StoreState_def)
  have ck: "checkpoint_keys ?db" using assms(2)
    by (auto simp: persistCheckpoint_def StoreState_def checkpoint_keys_def am.keys_put)
  from restoreState_chkpts [of "initialCore E ?db" E depth] obtain s2 t where
    s2: "db s2 = ?db" and t: "restoreState E (exec E (Suc (Suc depth))) (initialCore E ?db) = Inr (None, t)" and
    c: "\<forall>n. mget (chkpts t) n = (if n < snd (restoreChkpts E s2) div K E * K E then None else mget (chkpts (fst (restoreChkpts E s2))) n)"
    by (auto simp: Let_def initialCore_def)
  let ?kvs = "ReadStateSet ''chkpt.'' s2"
  have "(?key, ident) \<in> set (ReadStateSet ''chkpt.'' (persistCheckpoint n ident s))"
    unfolding persistCheckpoint_def by (rule ReadStateSet_StoreState [OF assms(1)])
  then have mem: "(?key, ident) \<in> set ?kvs" using s2 by (simp add: ReadStateSet_def)
  have val: "\<forall>(k, x)\<in>set ?kvs. Sscanf_d ''chkpt.'' k = Some n \<longrightarrow> x = ident"
    using ReadStateSet_checkpoint [of s2 n ident] d ck s2 by auto
  have "mget (chkpts (fst (restoreChkpts E s2))) n = Some (EncodeB64 E ident)"
    using restoreChkpts_value [OF val, of E "(s2, LastExec s2)"] mem Sscanf_decimal [of "''chkpt.''" n] by (auto simp: restoreChkpts_def)
  moreover have "snd (restoreChkpts E s2) \<le> n"
    using restoreChkpts_low [of E ?kvs "(s2, LastExec s2)"] mem Sscanf_decimal [of "''chkpt.''" n] by (auto simp: restoreChkpts_def)
  then have "\<not> n < snd (restoreChkpts E s2) div K E * K E"
    using div_times_le [of "snd (restoreChkpts E s2)" "K E"] by (meson leD order_trans)
  ultimately have "mget (chkpts t) n = Some (EncodeB64 E ident)" using c by simp
  then show ?thesis using t assms(3-6) by (simp add: newPbftCore_def updateViewChangeSeqNo_def not_less)
qed

theorem checkpoint_survives_restart_witness:
  "\<exists>s'. newPbftCore (net 1) (exec (net 1) (Suc (Suc 0))) (db (persistCheckpoint 20 ''S'' (fresh 1))) = Inr s' \<and>
     mget (chkpts s') 20 = Some (EncodeB64 (net 1) ''S'')"
  by (rule checkpoint_survives_restart) (simp_all add: fresh_def initialCore_def checkpoint_keys_def mkeys_def)

lemma fold_mput_entries:
  assumes "distinct (map g ps)"
  shows "mget (fold (\<lambda>e. mput (g e) e) ps m) k = (case find (\<lambda>e. g e = k) ps of Some e \<Rightarrow> Some e | None \<Rightarrow> mget m k)"
  using assms
proof (induction ps arbitrary: m)
  case (Cons p ps)
  have "g e \<noteq> g p" if "e \<in> set ps" for e using Cons.prems imageI [OF that, of g] by auto
  then have "find (\<lambda>e. g e = g p) ps = None" unfolding find_None_iff by blast
  then show ?case using Cons by (auto simp: go_map_simps split: option.split)
qed simp

lemma find_entry:
  assumes "\<forall>(k, p)\<in>set m. pq_SequenceNumber p = k"
  shows "find (\<lambda>e. pq_SequenceNumber e = n) (map snd m) = mget m n"
  using assms by (induction m) (auto simp: mget_def)

text \<open>the P set survives a restart: given that decoding a stored set undoes encoding it, the P set that a
  replica restores has for every number the entry that it persisted.\<close>

theorem pset_survives_restart:
  assumes "UnmarshalPQ E (MarshalPQ E (map snd (calcPSet E s))) = Some (map snd (calcPSet E s))"
    and "distinct (mkeys (calcPSet E s))" and "\<forall>(k, p)\<in>set (calcPSet E s). pq_SequenceNumber p = k"
    and "db s' = db (persistPSet E s)"
  shows "mget (fold (\<lambda>e. mput (pq_SequenceNumber e) e) (restorePQSet E ''pset'' s') []) n = mget (calcPSet E s) n"
proof -
  have r: "restorePQSet E ''pset'' s' = map snd (calcPSet E s)"
    using assms(1,4) by (simp add: restorePQSet_def ReadState_def persistPSet_def persistPQSet_def StoreState_def)
  have "map pq_SequenceNumber (map snd (calcPSet E s)) = mkeys (calcPSet E s)"
    using assms(3) by (auto simp: mkeys_def)
  then have "distinct (map pq_SequenceNumber (map snd (calcPSet E s)))" using assms(2) by (simp only:)
  from fold_mput_entries [OF this, of "[]" n] show ?thesis
    unfolding r find_entry [OF assms(3)] by (simp split: option.split)
qed

definition restart_net :: "string env" where
  "restart_net = (net 1)\<lparr>MarshalPQ := (\<lambda>pqs. if pqs = [] then ''none'' else ''one''),
     UnmarshalPQ := (\<lambda>raw. if raw = ''none'' then Some []
       else Some [\<lparr>pq_SequenceNumber = 1, pq_BlockHash = StringToHash ''X'', pq_View = 0\<rparr>])\<rparr>"

theorem pset_survives_restart_witness:
  "mget (fold (\<lambda>e. mput (pq_SequenceNumber e) e) (restorePQSet restart_net ''pset''
     (initialCore restart_net (db (persistPSet restart_net (prepared_state ''X'' 1 2))))) []) 1 =
   mget (calcPSet restart_net (prepared_state ''X'' 1 2)) 1"
proof (rule pset_survives_restart)
  have p: "calcPSet restart_net (prepared_state ''X'' 1 2) = [(1, \<lparr>pq_SequenceNumber = 1, pq_BlockHash = StringToHash ''X'', pq_View = 0\<rparr>)]"
    by code_simp
  show "UnmarshalPQ restart_net (MarshalPQ restart_net (map snd (calcPSet restart_net (prepared_state ''X'' 1 2)))) =
      Some (map snd (calcPSet restart_net (prepared_state ''X'' 1 2)))"
    unfolding p by (simp add: restart_net_def)
  show "distinct (mkeys (calcPSet restart_net (prepared_state ''X'' 1 2)))"
    "\<forall>(k, p)\<in>set (calcPSet restart_net (prepared_state ''X'' 1 2)). pq_SequenceNumber p = k"
    unfolding p by (simp_all add: mkeys_def)
qed (simp add: initialCore_def)

text \<open>a restart takes what was only proposed for executed. A backup that received a pre-prepare for number 1,
  and neither prepares nor commits for it, has executed nothing; when it is constructed again
  from its database, its last executed number is 1, so it will not execute number 1.\<close>

theorem restart_skips_unexecuted:
  "\<exists>s s'. eventLoop restart_net 8 [pre_prepare_1 ''X'' ''X''] (fresh 1) = Inr s \<and> LastExec s = 0 \<and> CommittedBlock s = [] \<and>
     newPbftCore restart_net (exec restart_net 5) (db s) = Inr s' \<and> LastExec s' = 1"
proof -
  have "case eventLoop restart_net 8 [pre_prepare_1 ''X'' ''X''] (fresh 1) of Inl _ \<Rightarrow> False
    | Inr s \<Rightarrow> LastExec s = 0 \<and> CommittedBlock s = [] \<and>
       (case newPbftCore restart_net (exec restart_net 5) (db s) of Inl _ \<Rightarrow> False | Inr s' \<Rightarrow> LastExec s' = 1)"
    by code_simp
  then show ?thesis by (auto split: sum.splits)
qed

end
