(* ===== verification/Zk_State.thy ===== *)
theory Zk_State
  imports Zkhc_Prelude
begin

text \<open>
  The account state of \<open>core/state\<close>: accounts with a commitment beside the balance
  (\<open>state_object.go\<close>), the cache of live objects over the account trie (\<open>statedb.go\<close>) and the
  journal that undoes changes (\<open>journal.go\<close>).

  An address has 160 bits and a hash 256. A trie is the map that it implements; its root hash,
  the code store and the storage tries of the database are parameters (\<open>chainDb\<close>), and reads
  of the database succeed. The callback \<open>onDirty\<close> of an object is the flag whether it is still
  set. Objects of the cache are changed in place in the sources: here a changed object is put
  back under its address.
\<close>

section \<open>Accounts and objects\<close>

type_synonym address = "160 word"
type_synonym hash = "256 word"
type_synonym storage = "(hash \<times> hash) list"

record chainDb =
  Keccak256Hash :: "bytes \<Rightarrow> hash"
  ContractCode :: "hash \<Rightarrow> bytes"
  OpenStorageTrie :: "address \<Rightarrow> hash \<Rightarrow> storage"
  storageRoot :: "storage \<Rightarrow> hash"

definition emptyCodeHash :: "chainDb \<Rightarrow> hash" where
  "emptyCodeHash C = Keccak256Hash C []"

record Account =
  acc_Nonce :: u64
  acc_Balance :: int
  acc_CMT :: hash
  acc_Root :: hash
  acc_CodeHash :: hash

record stateObject =
  so_address :: address
  so_data :: Account
  so_trie :: "storage option"
  so_code :: "bytes option"
  cachedStorage :: storage
  dirtyStorage :: storage
  dirtyCode :: bool
  suicided :: bool
  touched :: bool
  deleted :: bool
  onDirty :: bool

text \<open>\<open>Account{}\<close> after \<open>newObject\<close> has set the balance and the code hash.\<close>

definition zeroAccount :: "chainDb \<Rightarrow> Account" where
  "zeroAccount C = \<lparr>acc_Nonce = 0, acc_Balance = 0, acc_CMT = 0, acc_Root = 0, acc_CodeHash = emptyCodeHash C\<rparr>"

definition newObject :: "address \<Rightarrow> Account \<Rightarrow> stateObject" where
  "newObject a d = \<lparr>so_address = a, so_data = d, so_trie = None, so_code = None, cachedStorage = [], dirtyStorage = [],
     dirtyCode = False, suicided = False, touched = False, deleted = False, onDirty = True\<rparr>"

definition so_empty :: "chainDb \<Rightarrow> stateObject \<Rightarrow> bool" where
  "so_empty C obj \<longleftrightarrow> acc_Nonce (so_data obj) = 0 \<and> acc_Balance (so_data obj) = 0 \<and> acc_CodeHash (so_data obj) = emptyCodeHash C"

text \<open>The storage trie of an object, opened at its root at the first access.\<close>

definition getTrie :: "chainDb \<Rightarrow> stateObject \<Rightarrow> storage" where
  "getTrie C obj = (case so_trie obj of Some t \<Rightarrow> t | None \<Rightarrow> OpenStorageTrie C (so_address obj) (acc_Root (so_data obj)))"

text \<open>\<open>GetState\<close> of an object: the value, and the object with the trie open and the value cached.\<close>

definition so_GetState :: "chainDb \<Rightarrow> hash \<Rightarrow> stateObject \<Rightarrow> hash \<times> stateObject" where
  "so_GetState C key obj = (case mget (cachedStorage obj) key of
     Some value \<Rightarrow> (value, obj)
   | None \<Rightarrow>
      let t = getTrie C obj; obj = obj\<lparr>so_trie := Some t\<rparr>;
          value = (case mget t key of None \<Rightarrow> 0 | Some v \<Rightarrow> v)
      in (value, if value \<noteq> 0 then obj\<lparr>cachedStorage := mput key value (cachedStorage obj)\<rparr> else obj))"

text \<open>\<open>Code\<close> of an object: the code, and the object with the code cached.\<close>

definition so_Code :: "chainDb \<Rightarrow> stateObject \<Rightarrow> bytes option \<times> stateObject" where
  "so_Code C obj = (case so_code obj of
     Some code \<Rightarrow> (Some code, obj)
   | None \<Rightarrow>
      if acc_CodeHash (so_data obj) = emptyCodeHash C then (None, obj)
      else let code = Some (ContractCode C (acc_CodeHash (so_data obj))) in (code, obj\<lparr>so_code := code\<rparr>))"

text \<open>\<open>updateTrie\<close> moves the dirty entries into the storage trie; a zero value deletes.\<close>

definition updateTrie :: "chainDb \<Rightarrow> stateObject \<Rightarrow> stateObject" where
  "updateTrie C obj = obj\<lparr>
     so_trie := Some (fold (\<lambda>(key, value). if value = 0 then mdel key else mput key value) (dirtyStorage obj) (getTrie C obj)),
     dirtyStorage := []\<rparr>"

definition updateRoot :: "chainDb \<Rightarrow> stateObject \<Rightarrow> stateObject" where
  "updateRoot C obj = (let obj = updateTrie C obj in obj\<lparr>so_data := (so_data obj)\<lparr>acc_Root := storageRoot C (getTrie C obj)\<rparr>\<rparr>)"

section \<open>The journal and the state\<close>

datatype journalEntry =
    createObjectChange address
  | resetObjectChange stateObject
  | suicideChange address bool int
  | balanceChange address int
  | nonceChange address u64
  | storageChange address hash hash
  | codeChange address "bytes option" hash
  | refundChange int
  | addLogChange hash
  | addPreimageChange hash
  | touchChange address bool bool

record Log =
  log_Address :: address
  log_Topics :: "hash list"
  log_Data :: bytes
  log_BlockNumber :: u64
  log_TxHash :: hash
  log_BlockHash :: hash
  log_TxIndex :: nat
  log_Index :: nat
  log_Removed :: bool

record revision =
  rev_id :: nat
  rev_journalIndex :: nat

record StateDB =
  sdb_trie :: "(address \<times> Account) list"
  stateObjects :: "(address \<times> stateObject) list"
  stateObjectsDirty :: "(address \<times> unit) list"
  stateObjectsDestructed :: "(address \<times> unit) list"
  refund :: int
  thash :: hash
  bhash :: hash
  txIndex :: nat
  logs :: "(hash \<times> Log list) list"
  logSize :: nat
  preimages :: "(hash \<times> bytes) list"
  journal :: "journalEntry list"
  validRevisions :: "revision list"
  nextRevisionId :: nat

definition sdb_New :: "(address \<times> Account) list \<Rightarrow> StateDB" where
  "sdb_New tr = \<lparr>sdb_trie = tr, stateObjects = [], stateObjectsDirty = [], stateObjectsDestructed = [], refund = 0,
     thash = 0, bhash = 0, txIndex = 0, logs = [], logSize = 0, preimages = [], journal = [], validRevisions = [], nextRevisionId = 0\<rparr>"

definition clearJournalAndRefund :: "StateDB \<Rightarrow> StateDB" where
  "clearJournalAndRefund s = s\<lparr>journal := [], validRevisions := [], refund := 0\<rparr>"

definition sdb_Reset :: "(address \<times> Account) list \<Rightarrow> StateDB \<Rightarrow> StateDB" where
  "sdb_Reset tr s = clearJournalAndRefund (s\<lparr>sdb_trie := tr, stateObjects := [], stateObjectsDirty := [], stateObjectsDestructed := [],
     thash := 0, bhash := 0, txIndex := 0, logs := [], logSize := 0, preimages := []\<rparr>)"

definition setStateObject :: "stateObject \<Rightarrow> StateDB \<Rightarrow> StateDB" where
  "setStateObject obj s = s\<lparr>stateObjects := mput (so_address obj) obj (stateObjects s)\<rparr>"

definition MarkStateObjectDirty :: "address \<Rightarrow> StateDB \<Rightarrow> StateDB" where
  "MarkStateObjectDirty a s = s\<lparr>stateObjectsDirty := mput a () (stateObjectsDirty s)\<rparr>"

definition appendJournal :: "journalEntry \<Rightarrow> StateDB \<Rightarrow> StateDB" where
  "appendJournal e s = s\<lparr>journal := journal s @ [e]\<rparr>"

text \<open>\<open>getStateObject\<close>: the live object of an address, loaded from the trie when there is none.\<close>

definition getStateObject :: "address \<Rightarrow> StateDB \<Rightarrow> stateObject option \<times> StateDB" where
  "getStateObject a s = (case mget (stateObjects s) a of
     Some obj \<Rightarrow> (if deleted obj then None else Some obj, s)
   | None \<Rightarrow> (case mget (sdb_trie s) a of
        None \<Rightarrow> (None, s)
      | Some d \<Rightarrow> let obj = newObject a d in (Some obj, setStateObject obj s)))"

text \<open>The changed object goes back, and the address is marked when the callback is still set.\<close>

definition putDirty :: "stateObject \<Rightarrow> StateDB \<Rightarrow> StateDB" where
  "putDirty obj s = setStateObject (obj\<lparr>onDirty := False\<rparr>)
     (if onDirty obj then MarkStateObjectDirty (so_address obj) s else s)"

definition setBalance :: "int \<Rightarrow> stateObject \<Rightarrow> StateDB \<Rightarrow> StateDB" where
  "setBalance amount obj s = putDirty (obj\<lparr>so_data := (so_data obj)\<lparr>acc_Balance := amount\<rparr>\<rparr>) s"

definition setNonce :: "u64 \<Rightarrow> stateObject \<Rightarrow> StateDB \<Rightarrow> StateDB" where
  "setNonce nonce obj s = putDirty (obj\<lparr>so_data := (so_data obj)\<lparr>acc_Nonce := nonce\<rparr>\<rparr>) s"

definition setCode :: "hash \<Rightarrow> bytes option \<Rightarrow> stateObject \<Rightarrow> StateDB \<Rightarrow> StateDB" where
  "setCode codeHash code obj s =
     putDirty (obj\<lparr>so_code := code, so_data := (so_data obj)\<lparr>acc_CodeHash := codeHash\<rparr>, dirtyCode := True\<rparr>) s"

definition setState :: "hash \<Rightarrow> hash \<Rightarrow> stateObject \<Rightarrow> StateDB \<Rightarrow> StateDB" where
  "setState key value obj s = putDirty (obj\<lparr>cachedStorage := mput key value (cachedStorage obj),
     dirtyStorage := mput key value (dirtyStorage obj)\<rparr>) s"

definition setCMT :: "hash \<Rightarrow> stateObject \<Rightarrow> StateDB \<Rightarrow> StateDB" where
  "setCMT cmt obj s = setStateObject (obj\<lparr>so_data := (so_data obj)\<lparr>acc_CMT := cmt\<rparr>\<rparr>) s"

definition markSuicided :: "stateObject \<Rightarrow> StateDB \<Rightarrow> StateDB" where
  "markSuicided obj s = putDirty (obj\<lparr>suicided := True\<rparr>) s"

definition touch :: "stateObject \<Rightarrow> StateDB \<Rightarrow> StateDB" where
  "touch obj s = putDirty (obj\<lparr>touched := True\<rparr>)
     (appendJournal (touchChange (so_address obj) (touched obj) (\<not> onDirty obj)) s)"

definition createObject :: "chainDb \<Rightarrow> address \<Rightarrow> StateDB \<Rightarrow> stateObject \<times> stateObject option \<times> StateDB" where
  "createObject C a s =
     (let (prev, s) = getStateObject a s;
          newobj = (newObject a (zeroAccount C))\<lparr>onDirty := False\<rparr>;
          s = MarkStateObjectDirty a s;
          s = appendJournal (case prev of None \<Rightarrow> createObjectChange a | Some p \<Rightarrow> resetObjectChange p) s
      in (newobj, prev, setStateObject newobj s))"

definition GetOrNewStateObject :: "chainDb \<Rightarrow> address \<Rightarrow> StateDB \<Rightarrow> stateObject \<times> StateDB" where
  "GetOrNewStateObject C a s = (case getStateObject a s of
     (Some obj, s) \<Rightarrow> (obj, s)
   | (None, s) \<Rightarrow> let (obj, prev, s) = createObject C a s in (obj, s))"

section \<open>Reading\<close>

definition Exist :: "address \<Rightarrow> StateDB \<Rightarrow> bool \<times> StateDB" where
  "Exist a s = (let (obj, s) = getStateObject a s in (obj \<noteq> None, s))"

definition Empty :: "chainDb \<Rightarrow> address \<Rightarrow> StateDB \<Rightarrow> bool \<times> StateDB" where
  "Empty C a s = (let (obj, s) = getStateObject a s in (case obj of None \<Rightarrow> True | Some obj \<Rightarrow> so_empty C obj, s))"

definition GetBalance :: "address \<Rightarrow> StateDB \<Rightarrow> int \<times> StateDB" where
  "GetBalance a s = (let (obj, s) = getStateObject a s in (case obj of None \<Rightarrow> 0 | Some obj \<Rightarrow> acc_Balance (so_data obj), s))"

definition GetCMTBalance :: "address \<Rightarrow> StateDB \<Rightarrow> hash \<times> StateDB" where
  "GetCMTBalance a s = (let (obj, s) = getStateObject a s in (case obj of None \<Rightarrow> 0 | Some obj \<Rightarrow> acc_CMT (so_data obj), s))"

definition GetNonce :: "address \<Rightarrow> StateDB \<Rightarrow> u64 \<times> StateDB" where
  "GetNonce a s = (let (obj, s) = getStateObject a s in (case obj of None \<Rightarrow> 0 | Some obj \<Rightarrow> acc_Nonce (so_data obj), s))"

definition GetCodeHash :: "address \<Rightarrow> StateDB \<Rightarrow> hash \<times> StateDB" where
  "GetCodeHash a s = (let (obj, s) = getStateObject a s in (case obj of None \<Rightarrow> 0 | Some obj \<Rightarrow> acc_CodeHash (so_data obj), s))"

definition GetCode :: "chainDb \<Rightarrow> address \<Rightarrow> StateDB \<Rightarrow> bytes option \<times> StateDB" where
  "GetCode C a s = (case getStateObject a s of
     (None, s) \<Rightarrow> (None, s)
   | (Some obj, s) \<Rightarrow> let (code, obj) = so_Code C obj in (code, setStateObject obj s))"

definition GetState :: "chainDb \<Rightarrow> address \<Rightarrow> hash \<Rightarrow> StateDB \<Rightarrow> hash \<times> StateDB" where
  "GetState C a key s = (case getStateObject a s of
     (None, s) \<Rightarrow> (0, s)
   | (Some obj, s) \<Rightarrow> let (value, obj) = so_GetState C key obj in (value, setStateObject obj s))"

definition HasSuicided :: "address \<Rightarrow> StateDB \<Rightarrow> bool \<times> StateDB" where
  "HasSuicided a s = (let (obj, s) = getStateObject a s in (case obj of None \<Rightarrow> False | Some obj \<Rightarrow> suicided obj, s))"

text \<open>\<open>GetCodeSize\<close> asks the database for the size when the code is not cached.\<close>

definition GetCodeSize :: "chainDb \<Rightarrow> address \<Rightarrow> StateDB \<Rightarrow> nat \<times> StateDB" where
  "GetCodeSize C a s = (let (obj, s) = getStateObject a s in
     (case obj of None \<Rightarrow> 0
      | Some obj \<Rightarrow> (case so_code obj of Some code \<Rightarrow> length code | None \<Rightarrow> length (ContractCode C (acc_CodeHash (so_data obj)))), s))"

section \<open>Changing\<close>

text \<open>The methods of an object that record what they change.\<close>

definition so_SetBalance :: "int \<Rightarrow> stateObject \<Rightarrow> StateDB \<Rightarrow> StateDB" where
  "so_SetBalance amount obj s =
     setBalance amount obj (appendJournal (balanceChange (so_address obj) (acc_Balance (so_data obj))) s)"

definition so_AddBalance :: "chainDb \<Rightarrow> int \<Rightarrow> stateObject \<Rightarrow> StateDB \<Rightarrow> StateDB" where
  "so_AddBalance C amount obj s =
     (if amount = 0 then if so_empty C obj then touch obj s else s
      else so_SetBalance (acc_Balance (so_data obj) + amount) obj s)"

definition so_SubBalance :: "int \<Rightarrow> stateObject \<Rightarrow> StateDB \<Rightarrow> StateDB" where
  "so_SubBalance amount obj s =
     (if amount = 0 then s else so_SetBalance (acc_Balance (so_data obj) - amount) obj s)"

definition so_SetNonce :: "u64 \<Rightarrow> stateObject \<Rightarrow> StateDB \<Rightarrow> StateDB" where
  "so_SetNonce nonce obj s =
     setNonce nonce obj (appendJournal (nonceChange (so_address obj) (acc_Nonce (so_data obj))) s)"

definition so_SetCode :: "chainDb \<Rightarrow> hash \<Rightarrow> bytes option \<Rightarrow> stateObject \<Rightarrow> StateDB \<Rightarrow> StateDB" where
  "so_SetCode C codeHash code obj s =
     (let (prevcode, obj) = so_Code C obj
      in setCode codeHash code obj (appendJournal (codeChange (so_address obj) prevcode (acc_CodeHash (so_data obj))) s))"

definition so_SetState :: "chainDb \<Rightarrow> hash \<Rightarrow> hash \<Rightarrow> stateObject \<Rightarrow> StateDB \<Rightarrow> StateDB" where
  "so_SetState C key value obj s =
     (let (prevalue, obj) = so_GetState C key obj
      in setState key value obj (appendJournal (storageChange (so_address obj) key prevalue) s))"

text \<open>The methods of the state.\<close>

definition withObject :: "chainDb \<Rightarrow> address \<Rightarrow> (stateObject \<Rightarrow> StateDB \<Rightarrow> StateDB) \<Rightarrow> StateDB \<Rightarrow> StateDB" where
  "withObject C a g s = (let (obj, s) = GetOrNewStateObject C a s in g obj s)"

definition AddBalance :: "chainDb \<Rightarrow> address \<Rightarrow> int \<Rightarrow> StateDB \<Rightarrow> StateDB" where
  "AddBalance C a amount s = withObject C a (so_AddBalance C amount) s"

definition SubBalance :: "chainDb \<Rightarrow> address \<Rightarrow> int \<Rightarrow> StateDB \<Rightarrow> StateDB" where
  "SubBalance C a amount s = withObject C a (so_SubBalance amount) s"

definition SetBalance :: "chainDb \<Rightarrow> address \<Rightarrow> int \<Rightarrow> StateDB \<Rightarrow> StateDB" where
  "SetBalance C a amount s = withObject C a (so_SetBalance amount) s"

definition SetCMT :: "chainDb \<Rightarrow> address \<Rightarrow> hash \<Rightarrow> StateDB \<Rightarrow> StateDB" where
  "SetCMT C a cmt s = withObject C a (setCMT cmt) s"

definition SetNonce :: "chainDb \<Rightarrow> address \<Rightarrow> u64 \<Rightarrow> StateDB \<Rightarrow> StateDB" where
  "SetNonce C a nonce s = withObject C a (so_SetNonce nonce) s"

definition SetCode :: "chainDb \<Rightarrow> address \<Rightarrow> bytes option \<Rightarrow> StateDB \<Rightarrow> StateDB" where
  "SetCode C a code s =
     withObject C a (so_SetCode C (Keccak256Hash C (case code of None \<Rightarrow> [] | Some c \<Rightarrow> c)) code) s"

definition SetState :: "chainDb \<Rightarrow> address \<Rightarrow> hash \<Rightarrow> hash \<Rightarrow> StateDB \<Rightarrow> StateDB" where
  "SetState C a key value s = withObject C a (so_SetState C key value) s"

definition Suicide :: "address \<Rightarrow> StateDB \<Rightarrow> bool \<times> StateDB" where
  "Suicide a s = (case getStateObject a s of
     (None, s) \<Rightarrow> (False, s)
   | (Some obj, s) \<Rightarrow>
      let s = appendJournal (suicideChange a (suicided obj) (acc_Balance (so_data obj))) s;
          s = markSuicided (obj\<lparr>so_data := (so_data obj)\<lparr>acc_Balance := 0\<rparr>\<rparr>) s
      in (True, s\<lparr>stateObjectsDestructed := mput a () (stateObjectsDestructed s)\<rparr>))"

definition CreateAccount :: "chainDb \<Rightarrow> address \<Rightarrow> StateDB \<Rightarrow> StateDB" where
  "CreateAccount C a s =
     (let (obj, prev, s) = createObject C a s in
      case prev of None \<Rightarrow> s
      | Some p \<Rightarrow> setStateObject (obj\<lparr>so_data := (so_data obj)\<lparr>acc_Balance := acc_Balance (so_data p), acc_CMT := acc_CMT (so_data p)\<rparr>\<rparr>) s)"

definition AddLog :: "Log \<Rightarrow> StateDB \<Rightarrow> StateDB" where
  "AddLog l s =
     (let s = appendJournal (addLogChange (thash s)) s;
          l = l\<lparr>log_TxHash := thash s, log_BlockHash := bhash s, log_TxIndex := txIndex s, log_Index := logSize s\<rparr>;
          old = (case mget (logs s) (thash s) of None \<Rightarrow> [] | Some ls \<Rightarrow> ls)
      in s\<lparr>logs := mput (thash s) (old @ [l]) (logs s), logSize := Suc (logSize s)\<rparr>)"

definition GetLogs :: "hash \<Rightarrow> StateDB \<Rightarrow> Log list" where
  "GetLogs h s = (case mget (logs s) h of None \<Rightarrow> [] | Some ls \<Rightarrow> ls)"

definition AddPreimage :: "hash \<Rightarrow> bytes \<Rightarrow> StateDB \<Rightarrow> StateDB" where
  "AddPreimage h preimage s =
     (if mhas (preimages s) h then s
      else (appendJournal (addPreimageChange h) s)\<lparr>preimages := mput h preimage (preimages s)\<rparr>)"

definition AddRefund :: "int \<Rightarrow> StateDB \<Rightarrow> StateDB" where
  "AddRefund gas s = (appendJournal (refundChange (refund s)) s)\<lparr>refund := refund s + gas\<rparr>"

definition sdb_Logs :: "StateDB \<Rightarrow> Log list" where
  "sdb_Logs s = concat (map snd (logs s))"

text \<open>
  \<open>Copy\<close> takes the dirty objects only, and of their storage the dirty entries. The trie of the copy is
  the trie of the original: here it has the same contents.
\<close>

definition deepCopy :: "stateObject \<Rightarrow> stateObject" where
  "deepCopy obj = (newObject (so_address obj) (so_data obj))\<lparr>so_trie := so_trie obj, so_code := so_code obj,
     dirtyStorage := dirtyStorage obj, cachedStorage := dirtyStorage obj, suicided := suicided obj,
     dirtyCode := dirtyCode obj, deleted := deleted obj\<rparr>"

definition copyObject :: "StateDB \<Rightarrow> address \<Rightarrow> StateDB \<Rightarrow> StateDB res" where
  "copyObject s a c = (case mget (stateObjects s) a of
     None \<Rightarrow> Inl (Panic ''nil stateObject'')
   | Some obj \<Rightarrow> Inr (c\<lparr>stateObjects := mput a (deepCopy obj) (stateObjects c), stateObjectsDirty := mput a () (stateObjectsDirty c),
       stateObjectsDestructed := (if suicided obj then mput a () (stateObjectsDestructed c) else stateObjectsDestructed c)\<rparr>))"

definition sdb_Copy :: "StateDB \<Rightarrow> StateDB res" where
  "sdb_Copy s = fold_res (copyObject s) (mkeys (stateObjectsDirty s))
     ((sdb_New (sdb_trie s))\<lparr>refund := refund s, logs := logs s, logSize := logSize s, preimages := preimages s\<rparr>)"

definition sdb_Prepare :: "hash \<Rightarrow> hash \<Rightarrow> nat \<Rightarrow> StateDB \<Rightarrow> StateDB" where
  "sdb_Prepare th bh ti s = s\<lparr>thash := th, bhash := bh, txIndex := ti\<rparr>"

section \<open>Undoing\<close>

definition ripemd :: address where
  "ripemd = 3"

text \<open>The sources call methods on the object without a test: a missing object is a panic.\<close>

definition onObject :: "address \<Rightarrow> (stateObject \<Rightarrow> StateDB \<Rightarrow> StateDB) \<Rightarrow> StateDB \<Rightarrow> StateDB res" where
  "onObject a g s = (case getStateObject a s of
     (None, s) \<Rightarrow> Inl (Panic ''nil stateObject'') | (Some obj, s) \<Rightarrow> Inr (g obj s))"

fun undo :: "journalEntry \<Rightarrow> StateDB \<Rightarrow> StateDB res" where
  "undo (createObjectChange a) s = Inr (s\<lparr>stateObjects := mdel a (stateObjects s), stateObjectsDirty := mdel a (stateObjectsDirty s)\<rparr>)"
| "undo (resetObjectChange prev) s = Inr (setStateObject prev s)"
| "undo (suicideChange a prev prevbalance) s = (case getStateObject a s of
     (None, s) \<Rightarrow> Inr s
   | (Some obj, s) \<Rightarrow>
      let s = setBalance prevbalance (obj\<lparr>suicided := prev\<rparr>) s
      in Inr (if \<not> prev then s\<lparr>stateObjectsDestructed := mdel a (stateObjectsDestructed s)\<rparr> else s))"
| "undo (touchChange a prev prevDirty) s =
     (if \<not> prev \<and> a \<noteq> ripemd
      then onObject a (\<lambda>obj s.
        let s = setStateObject (obj\<lparr>touched := prev\<rparr>) s
        in if \<not> prevDirty then s\<lparr>stateObjectsDirty := mdel a (stateObjectsDirty s)\<rparr> else s) s
      else Inr s)"
| "undo (balanceChange a prev) s = onObject a (setBalance prev) s"
| "undo (nonceChange a prev) s = onObject a (setNonce prev) s"
| "undo (codeChange a prevcode prevhash) s = onObject a (setCode prevhash prevcode) s"
| "undo (storageChange a key prevalue) s = onObject a (setState key prevalue) s"
| "undo (refundChange prev) s = Inr (s\<lparr>refund := prev\<rparr>)"
| "undo (addLogChange h) s =
     (let ls = GetLogs h s in
      if length ls = 1 then Inr (s\<lparr>logs := mdel h (logs s)\<rparr>)
      else if ls = [] then Inl (Panic ''slice bounds out of range'')
      else Inr (s\<lparr>logs := mput h (butlast ls) (logs s)\<rparr>))"
| "undo (addPreimageChange h) s = Inr (s\<lparr>preimages := mdel h (preimages s)\<rparr>)"

definition Snapshot :: "StateDB \<Rightarrow> nat \<times> StateDB" where
  "Snapshot s = (nextRevisionId s, s\<lparr>nextRevisionId := Suc (nextRevisionId s),
     validRevisions := validRevisions s @ [\<lparr>rev_id = nextRevisionId s, rev_journalIndex = length (journal s)\<rparr>]\<rparr>)"

text \<open>\<open>sort.Search\<close>: binary search for the first index at which a monotone predicate holds.\<close>

function sortSearch :: "nat \<Rightarrow> nat \<Rightarrow> (nat \<Rightarrow> bool) \<Rightarrow> nat" where
  "sortSearch i j p = (if i < j then let m = (i + j) div 2 in if \<not> p m then sortSearch (m + 1) j p else sortSearch i m p else i)"
  by pat_completeness auto
termination by (relation "measure (\<lambda>(i, j, p). j - i)") auto

declare sortSearch.simps [simp del]

definition RevertToSnapshot :: "nat \<Rightarrow> StateDB \<Rightarrow> StateDB res" where
  "RevertToSnapshot revid s =
     (let rs = validRevisions s; idx = sortSearch 0 (length rs) (\<lambda>i. rev_id (rs ! i) \<ge> revid) in
      if idx = length rs \<or> rev_id (rs ! idx) \<noteq> revid then Inl (Panic ''revision id cannot be reverted'')
      else let snapshot = rev_journalIndex (rs ! idx) in
        bind_res (fold_res undo (rev (drop snapshot (journal s))) s) (\<lambda>s.
          Inr (s\<lparr>journal := take snapshot (journal s), validRevisions := take idx (validRevisions s)\<rparr>)))"

section \<open>Writing to the trie\<close>

text \<open>\<open>updateStateObject\<close>: the RLP encoder refuses a negative balance, and the caller panics.\<close>

definition updateStateObject :: "stateObject \<Rightarrow> StateDB \<Rightarrow> StateDB res" where
  "updateStateObject obj s =
     (if acc_Balance (so_data obj) < 0 then Inl (Panic ''cannot encode object'')
      else Inr (s\<lparr>sdb_trie := mput (so_address obj) (so_data obj) (sdb_trie s)\<rparr>))"

definition deleteStateObject :: "stateObject \<Rightarrow> StateDB \<Rightarrow> StateDB" where
  "deleteStateObject obj s = (setStateObject (obj\<lparr>deleted := True\<rparr>) s)\<lparr>sdb_trie := mdel (so_address obj) (sdb_trie s)\<rparr>"

definition flushObject :: "chainDb \<Rightarrow> bool \<Rightarrow> address \<Rightarrow> StateDB \<Rightarrow> StateDB res" where
  "flushObject C deleteEmptyObjects a s = (case mget (stateObjects s) a of
     None \<Rightarrow> Inl (Panic ''nil stateObject'')
   | Some obj \<Rightarrow>
      if suicided obj \<or> (deleteEmptyObjects \<and> so_empty C obj) then Inr (deleteStateObject obj s)
      else let obj = updateRoot C obj in updateStateObject obj (setStateObject obj s))"

definition IntermediateRoot :: "chainDb \<Rightarrow> bool \<Rightarrow> StateDB \<Rightarrow> StateDB res" where
  "IntermediateRoot C deleteEmptyObjects s =
     bind_res (fold_res (flushObject C deleteEmptyObjects) (mkeys (stateObjectsDirty s)) s) (\<lambda>s.
       Inr (clearJournalAndRefund s))"

definition Finalise :: "StateDB \<Rightarrow> StateDB res" where
  "Finalise s =
     bind_res (fold_res (\<lambda>a s. case mget (stateObjects s) a of
         None \<Rightarrow> Inl (Panic ''nil stateObject'') | Some obj \<Rightarrow> Inr (deleteStateObject obj s))
       (mkeys (stateObjectsDestructed s)) s) (\<lambda>s. Inr (clearJournalAndRefund s))"

definition DeleteSuicides :: "StateDB \<Rightarrow> StateDB res" where
  "DeleteSuicides s =
     (let s = clearJournalAndRefund s in
      fold_res (\<lambda>a s. case mget (stateObjects s) a of
         None \<Rightarrow> Inl (Panic ''nil stateObject'')
       | Some obj \<Rightarrow>
          let s = (if suicided obj then setStateObject (obj\<lparr>deleted := True\<rparr>) s else s)
          in Inr (s\<lparr>stateObjectsDirty := mdel a (stateObjectsDirty s)\<rparr>)) (mkeys (stateObjectsDirty s)) s)"

text \<open>\<open>CommitTo\<close>, with the code blobs that it writes to the database.\<close>

definition commitObject :: "chainDb \<Rightarrow> bool \<Rightarrow> address \<Rightarrow> StateDB \<times> (hash \<times> bytes) list \<Rightarrow> (StateDB \<times> (hash \<times> bytes) list) res" where
  "commitObject C deleteEmptyObjects a = (\<lambda>(s, codes). case mget (stateObjects s) a of
     None \<Rightarrow> Inr (s, codes)
   | Some obj \<Rightarrow>
      let isDirty = mhas (stateObjectsDirty s) a; clean = (\<lambda>s. s\<lparr>stateObjectsDirty := mdel a (stateObjectsDirty s)\<rparr>) in
      if suicided obj \<or> (isDirty \<and> deleteEmptyObjects \<and> so_empty C obj) then Inr (clean (deleteStateObject obj s), codes)
      else if isDirty then
        let (obj, codes) = (case so_code obj of
               Some code \<Rightarrow> if dirtyCode obj then (obj\<lparr>dirtyCode := False\<rparr>, codes @ [(acc_CodeHash (so_data obj), code)]) else (obj, codes)
             | None \<Rightarrow> (obj, codes));
            obj = updateRoot C obj
        in bind_res (updateStateObject obj (setStateObject obj s)) (\<lambda>s. Inr (clean s, codes))
      else Inr (clean s, codes))"

definition CommitTo :: "chainDb \<Rightarrow> bool \<Rightarrow> StateDB \<Rightarrow> (StateDB \<times> (hash \<times> bytes) list) res" where
  "CommitTo C deleteEmptyObjects s =
     bind_res (fold_res (commitObject C deleteEmptyObjects) (mkeys (stateObjects s)) (s, [])) (\<lambda>(s, codes).
       Inr (clearJournalAndRefund s, codes))"

end
