(* ===== verification/Zk_Journal.thy ===== *)
theory Zk_Journal
  imports Zk_State
begin

text \<open>
  What a caller sees of the state, sequences of operations, and that \<open>RevertToSnapshot\<close> undoes
  every sequence of operations after its \<open>Snapshot\<close>.
\<close>

section \<open>Sequences of operations\<close>

datatype stateOp =
    OpAddBalance address int
  | OpSubBalance address int
  | OpSetBalance address int
  | OpSetNonce address u64
  | OpSetCMT address hash
  | OpSetCode address "bytes option"
  | OpSetState address hash hash
  | OpSuicide address
  | OpCreateAccount address
  | OpAddRefund int
  | OpAddLog Log
  | OpAddPreimage hash bytes
  | OpExist address
  | OpGetCode address
  | OpGetState address hash
  | OpSnapshot
  | OpRevert nat

fun applyOp :: "chainDb \<Rightarrow> stateOp \<Rightarrow> StateDB \<Rightarrow> StateDB res" where
  "applyOp C (OpAddBalance a v) s = Inr (AddBalance C a v s)"
| "applyOp C (OpSubBalance a v) s = Inr (SubBalance C a v s)"
| "applyOp C (OpSetBalance a v) s = Inr (SetBalance C a v s)"
| "applyOp C (OpSetNonce a v) s = Inr (SetNonce C a v s)"
| "applyOp C (OpSetCMT a v) s = Inr (SetCMT C a v s)"
| "applyOp C (OpSetCode a v) s = Inr (SetCode C a v s)"
| "applyOp C (OpSetState a k v) s = Inr (SetState C a k v s)"
| "applyOp C (OpSuicide a) s = Inr (snd (Suicide a s))"
| "applyOp C (OpCreateAccount a) s = Inr (CreateAccount C a s)"
| "applyOp C (OpAddRefund v) s = Inr (AddRefund v s)"
| "applyOp C (OpAddLog l) s = Inr (AddLog l s)"
| "applyOp C (OpAddPreimage k v) s = Inr (AddPreimage k v s)"
| "applyOp C (OpExist a) s = Inr (snd (Exist a s))"
| "applyOp C (OpGetCode a) s = Inr (snd (GetCode C a s))"
| "applyOp C (OpGetState a k) s = Inr (snd (GetState C a k s))"
| "applyOp C OpSnapshot s = Inr (snd (Snapshot s))"
| "applyOp C (OpRevert r) s = RevertToSnapshot r s"

definition applyOps :: "chainDb \<Rightarrow> stateOp list \<Rightarrow> StateDB \<Rightarrow> StateDB res" where
  "applyOps C ops s = fold_res (applyOp C) ops s"

section \<open>What a caller sees\<close>

text \<open>
  The observable part of an object. The commitment is part of it only when the flag is set,
  because \<open>SetCMT\<close> is not recorded in the journal.
\<close>

record obj_view =
  v_Nonce :: u64
  v_Balance :: int
  v_CodeHash :: hash
  v_Root :: hash
  v_Code :: "bytes option"
  v_State :: "hash \<Rightarrow> hash"
  v_suicided :: bool
  v_CMT :: hash

definition viewOf :: "chainDb \<Rightarrow> bool \<Rightarrow> stateObject \<Rightarrow> obj_view" where
  "viewOf C cmt obj = \<lparr>v_Nonce = acc_Nonce (so_data obj), v_Balance = acc_Balance (so_data obj),
     v_CodeHash = acc_CodeHash (so_data obj), v_Root = acc_Root (so_data obj), v_Code = fst (so_Code C obj),
     v_State = (\<lambda>k. fst (so_GetState C k obj)), v_suicided = suicided obj,
     v_CMT = (if cmt then acc_CMT (so_data obj) else 0)\<rparr>"

definition look :: "StateDB \<Rightarrow> address \<Rightarrow> stateObject option" where
  "look s a = fst (getStateObject a s)"

definition load :: "address \<Rightarrow> StateDB \<Rightarrow> StateDB" where
  "load a s = snd (getStateObject a s)"

definition seen :: "chainDb \<Rightarrow> bool \<Rightarrow> StateDB \<Rightarrow> address \<Rightarrow> obj_view option" where
  "seen C cmt s a = map_option (viewOf C cmt) (look s a)"

definition same :: "chainDb \<Rightarrow> bool \<Rightarrow> StateDB \<Rightarrow> StateDB \<Rightarrow> bool" where
  "same C cmt s t \<longleftrightarrow> (\<forall>a. seen C cmt s a = seen C cmt t a) \<and> sdb_trie s = sdb_trie t \<and> refund s = refund t \<and>
     (\<forall>k. GetLogs k s = GetLogs k t) \<and> (\<forall>k. mget (preimages s) k = mget (preimages t) k) \<and>
     thash s = thash t \<and> bhash s = bhash t \<and> txIndex s = txIndex t"

lemma same_refl [simp]: "same C cmt s s"
  by (simp add: same_def)

lemma same_trans: "same C cmt s t \<Longrightarrow> same C cmt t u \<Longrightarrow> same C cmt s u"
  by (simp add: same_def)

text \<open>Objects are stored under their address, and a deleted object has no entry in the trie.\<close>

definition wf_objects :: "StateDB \<Rightarrow> bool" where
  "wf_objects s \<longleftrightarrow> (\<forall>a obj. mget (stateObjects s) a = Some obj \<longrightarrow>
     so_address obj = a \<and> (deleted obj \<longrightarrow> mget (sdb_trie s) a = None))"

fun entry_ok :: "journalEntry \<Rightarrow> bool" where
  "entry_ok (resetObjectChange prev) = (\<not> deleted prev)"
| "entry_ok _ = True"

subsection \<open>The cache\<close>

lemma getStateObject_split: "getStateObject a s = (look s a, load a s)"
  by (simp add: look_def load_def)

lemma look_def': "look s a = (case mget (stateObjects s) a of
    Some obj \<Rightarrow> if deleted obj then None else Some obj | None \<Rightarrow> map_option (newObject a) (mget (sdb_trie s) a))"
  by (simp add: look_def getStateObject_def Let_def split: option.split)

lemma look_cong: "stateObjects s = stateObjects t \<Longrightarrow> sdb_trie s = sdb_trie t \<Longrightarrow> look s = look t"
  by (simp add: look_def' fun_eq_iff split: option.split)

lemma newObject_simps [simp]:
  "so_address (newObject a d) = a" "deleted (newObject a d) = False" "so_data (newObject a d) = d"
  "suicided (newObject a d) = False" "so_code (newObject a d) = None"
  by (simp_all add: newObject_def)

lemma load_fields [simp]:
  "sdb_trie (load a s) = sdb_trie s" "stateObjectsDirty (load a s) = stateObjectsDirty s" "refund (load a s) = refund s"
  "logs (load a s) = logs s" "preimages (load a s) = preimages s" "journal (load a s) = journal s"
  "validRevisions (load a s) = validRevisions s" "nextRevisionId (load a s) = nextRevisionId s"
  "thash (load a s) = thash s" "bhash (load a s) = bhash s" "txIndex (load a s) = txIndex s" "logSize (load a s) = logSize s"
  by (simp_all add: load_def getStateObject_def Let_def setStateObject_def split: option.split)

lemma look_load [simp]: "look (load a s) = look s"
proof
  fix x
  show "look (load a s) x = look s x"
  proof (cases "mget (stateObjects s) a")
    case None
    then show ?thesis
      by (cases "mget (sdb_trie s) a") (auto simp: load_def getStateObject_def look_def' setStateObject_def Let_def split: option.split)
  qed (simp add: load_def getStateObject_def)
qed

lemma look_setStateObject [simp]:
  "look (setStateObject obj s) a = (if a = so_address obj then if deleted obj then None else Some obj else look s a)"
  by (simp add: look_def' setStateObject_def split: option.split)

lemma setStateObject_fields [simp]:
  "sdb_trie (setStateObject obj s) = sdb_trie s" "stateObjectsDirty (setStateObject obj s) = stateObjectsDirty s"
  "refund (setStateObject obj s) = refund s" "logs (setStateObject obj s) = logs s" "preimages (setStateObject obj s) = preimages s"
  "journal (setStateObject obj s) = journal s" "validRevisions (setStateObject obj s) = validRevisions s"
  "nextRevisionId (setStateObject obj s) = nextRevisionId s" "thash (setStateObject obj s) = thash s"
  "bhash (setStateObject obj s) = bhash s" "txIndex (setStateObject obj s) = txIndex s"
  by (simp_all add: setStateObject_def)

lemma putDirty_fields [simp]:
  "sdb_trie (putDirty obj s) = sdb_trie s" "refund (putDirty obj s) = refund s" "logs (putDirty obj s) = logs s"
  "preimages (putDirty obj s) = preimages s" "journal (putDirty obj s) = journal s" "validRevisions (putDirty obj s) = validRevisions s"
  "nextRevisionId (putDirty obj s) = nextRevisionId s" "thash (putDirty obj s) = thash s"
  "bhash (putDirty obj s) = bhash s" "txIndex (putDirty obj s) = txIndex s"
  by (simp_all add: putDirty_def MarkStateObjectDirty_def)

lemma look_MarkStateObjectDirty [simp]: "look (MarkStateObjectDirty a s) = look s"
  by (rule look_cong) (simp_all add: MarkStateObjectDirty_def)

lemma look_putDirty [simp]:
  "look (putDirty obj s) a = (if a = so_address obj then if deleted obj then None else Some (obj\<lparr>onDirty := False\<rparr>) else look s a)"
  by (simp add: putDirty_def)

lemma appendJournal_fields [simp]:
  "sdb_trie (appendJournal e s) = sdb_trie s" "stateObjects (appendJournal e s) = stateObjects s"
  "stateObjectsDirty (appendJournal e s) = stateObjectsDirty s" "refund (appendJournal e s) = refund s"
  "logs (appendJournal e s) = logs s" "preimages (appendJournal e s) = preimages s" "journal (appendJournal e s) = journal s @ [e]"
  "validRevisions (appendJournal e s) = validRevisions s" "nextRevisionId (appendJournal e s) = nextRevisionId s"
  "thash (appendJournal e s) = thash s" "bhash (appendJournal e s) = bhash s" "txIndex (appendJournal e s) = txIndex s"
  by (simp_all add: appendJournal_def)

lemma look_appendJournal [simp]: "look (appendJournal e s) = look s"
  by (rule look_cong) simp_all

lemma MarkStateObjectDirty_fields [simp]:
  "sdb_trie (MarkStateObjectDirty a s) = sdb_trie s" "stateObjects (MarkStateObjectDirty a s) = stateObjects s" "refund (MarkStateObjectDirty a s) = refund s"
  "logs (MarkStateObjectDirty a s) = logs s" "preimages (MarkStateObjectDirty a s) = preimages s"
  "journal (MarkStateObjectDirty a s) = journal s" "validRevisions (MarkStateObjectDirty a s) = validRevisions s"
  "nextRevisionId (MarkStateObjectDirty a s) = nextRevisionId s" "thash (MarkStateObjectDirty a s) = thash s"
  "bhash (MarkStateObjectDirty a s) = bhash s" "txIndex (MarkStateObjectDirty a s) = txIndex s"
  by (simp_all add: MarkStateObjectDirty_def)

lemma look_update_simps [simp]:
  "look (s\<lparr>stateObjectsDirty := d\<rparr>) = look s" "look (s\<lparr>stateObjectsDestructed := e\<rparr>) = look s"
  "look (s\<lparr>refund := r\<rparr>) = look s" "look (s\<lparr>logs := l\<rparr>) = look s" "look (s\<lparr>logSize := n\<rparr>) = look s"
  "look (s\<lparr>preimages := p\<rparr>) = look s" "look (s\<lparr>journal := j\<rparr>) = look s" "look (s\<lparr>validRevisions := v\<rparr>) = look s"
  "look (s\<lparr>nextRevisionId := n\<rparr>) = look s"
  by (rule look_cong; simp)+

lemma look_SomeD: "look s a = Some obj \<Longrightarrow> wf_objects s \<Longrightarrow> so_address obj = a \<and> \<not> deleted obj"
  by (auto simp: look_def' wf_objects_def split: option.splits if_splits)

lemma wf_load [simp]: "wf_objects s \<Longrightarrow> wf_objects (load a s)"
  by (auto simp: wf_objects_def load_def getStateObject_def setStateObject_def Let_def split: option.splits if_splits)

lemma wf_setStateObject: "wf_objects s \<Longrightarrow> \<not> deleted obj \<Longrightarrow> wf_objects (setStateObject obj s)"
  by (auto simp: wf_objects_def setStateObject_def split: if_splits)

lemma wf_putDirty: "wf_objects s \<Longrightarrow> \<not> deleted obj \<Longrightarrow> wf_objects (putDirty obj s)"
  unfolding putDirty_def by (rule wf_setStateObject) (auto simp: wf_objects_def MarkStateObjectDirty_def)

lemma wf_cong: "stateObjects s = stateObjects t \<Longrightarrow> sdb_trie s = sdb_trie t \<Longrightarrow> wf_objects s = wf_objects t"
  by (simp add: wf_objects_def)

lemma wf_update_simps [simp]:
  "wf_objects (s\<lparr>stateObjectsDirty := d\<rparr>) = wf_objects s" "wf_objects (s\<lparr>stateObjectsDestructed := e\<rparr>) = wf_objects s"
  "wf_objects (s\<lparr>refund := r\<rparr>) = wf_objects s" "wf_objects (s\<lparr>logs := l\<rparr>) = wf_objects s" "wf_objects (s\<lparr>logSize := n\<rparr>) = wf_objects s"
  "wf_objects (s\<lparr>preimages := p\<rparr>) = wf_objects s" "wf_objects (s\<lparr>journal := j\<rparr>) = wf_objects s"
  "wf_objects (s\<lparr>validRevisions := v\<rparr>) = wf_objects s" "wf_objects (s\<lparr>nextRevisionId := n\<rparr>) = wf_objects s"
  "wf_objects (appendJournal e' s) = wf_objects s" "wf_objects (MarkStateObjectDirty a s) = wf_objects s"
  by (rule wf_cong; simp)+

subsection \<open>Views of changed objects\<close>

lemma viewOf_onDirty [simp]: "viewOf C cmt (obj\<lparr>onDirty := d\<rparr>) = viewOf C cmt obj"
  by (simp add: viewOf_def so_Code_def so_GetState_def getTrie_def Let_def fun_eq_iff split: option.split)

lemma viewOf_touched [simp]: "viewOf C cmt (obj\<lparr>touched := d\<rparr>) = viewOf C cmt obj"
  by (simp add: viewOf_def so_Code_def so_GetState_def getTrie_def Let_def fun_eq_iff split: option.split)

lemma viewOf_suicided [simp]: "viewOf C cmt (obj\<lparr>suicided := d\<rparr>) = (viewOf C cmt obj)\<lparr>v_suicided := d\<rparr>"
  by (simp add: viewOf_def so_Code_def so_GetState_def getTrie_def Let_def fun_eq_iff split: option.split)

lemma viewOf_balance [simp]:
  "viewOf C cmt (obj\<lparr>so_data := (so_data obj)\<lparr>acc_Balance := v\<rparr>\<rparr>) = (viewOf C cmt obj)\<lparr>v_Balance := v\<rparr>"
  by (simp add: viewOf_def so_Code_def so_GetState_def getTrie_def Let_def fun_eq_iff split: option.split)

lemma viewOf_nonce [simp]:
  "viewOf C cmt (obj\<lparr>so_data := (so_data obj)\<lparr>acc_Nonce := v\<rparr>\<rparr>) = (viewOf C cmt obj)\<lparr>v_Nonce := v\<rparr>"
  by (simp add: viewOf_def so_Code_def so_GetState_def getTrie_def Let_def fun_eq_iff split: option.split)

lemma viewOf_cmt [simp]:
  "viewOf C False (obj\<lparr>so_data := (so_data obj)\<lparr>acc_CMT := v\<rparr>\<rparr>) = viewOf C False obj"
  by (simp add: viewOf_def so_Code_def so_GetState_def getTrie_def Let_def fun_eq_iff split: option.split)

definition codeOf :: "chainDb \<Rightarrow> hash \<Rightarrow> bytes option \<Rightarrow> bytes option" where
  "codeOf C codeHash code = (case code of Some c \<Rightarrow> Some c | None \<Rightarrow> if codeHash = emptyCodeHash C then None else Some (ContractCode C codeHash))"

lemma viewOf_code [simp]:
  "viewOf C cmt (obj\<lparr>so_code := code, so_data := (so_data obj)\<lparr>acc_CodeHash := k\<rparr>, dirtyCode := d\<rparr>) =
   (viewOf C cmt obj)\<lparr>v_CodeHash := k, v_Code := codeOf C k code\<rparr>"
  by (simp add: viewOf_def so_Code_def so_GetState_def getTrie_def codeOf_def Let_def fun_eq_iff split: option.split)

lemma viewOf_state [simp]:
  "viewOf C cmt (obj\<lparr>cachedStorage := mput k v (cachedStorage obj), dirtyStorage := d\<rparr>) =
   (viewOf C cmt obj)\<lparr>v_State := (v_State (viewOf C cmt obj))(k := v)\<rparr>"
  by (simp add: viewOf_def so_Code_def so_GetState_def getTrie_def Let_def fun_eq_iff split: option.split)

text \<open>Reading code and storage caches it and changes no view.\<close>

lemma so_Code_fields [simp]:
  "so_address (snd (so_Code C obj)) = so_address obj" "deleted (snd (so_Code C obj)) = deleted obj"
  "so_data (snd (so_Code C obj)) = so_data obj"
  by (simp_all add: so_Code_def Let_def split: option.split)

lemma viewOf_Code [simp]: "viewOf C cmt (snd (so_Code C obj)) = viewOf C cmt obj"
  by (simp add: viewOf_def so_Code_def so_GetState_def getTrie_def Let_def fun_eq_iff split: option.split)

lemma so_GetState_fields [simp]:
  "so_address (snd (so_GetState C k obj)) = so_address obj" "deleted (snd (so_GetState C k obj)) = deleted obj"
  "so_data (snd (so_GetState C k obj)) = so_data obj"
  by (simp_all add: so_GetState_def Let_def split: option.split)

lemma viewOf_GetState [simp]: "viewOf C cmt (snd (so_GetState C k obj)) = viewOf C cmt obj"
  by (auto simp: viewOf_def so_Code_def so_GetState_def getTrie_def Let_def fun_eq_iff split: option.splits)

lemma seen_simps [simp]:
  "seen C cmt (load a s) = seen C cmt s" "seen C cmt (appendJournal e s) = seen C cmt s" "seen C cmt (MarkStateObjectDirty a s) = seen C cmt s"
  "seen C cmt (s\<lparr>stateObjectsDirty := d\<rparr>) = seen C cmt s" "seen C cmt (s\<lparr>stateObjectsDestructed := f\<rparr>) = seen C cmt s"
  "seen C cmt (s\<lparr>refund := r\<rparr>) = seen C cmt s" "seen C cmt (s\<lparr>logs := l\<rparr>) = seen C cmt s" "seen C cmt (s\<lparr>logSize := n\<rparr>) = seen C cmt s"
  "seen C cmt (s\<lparr>preimages := p\<rparr>) = seen C cmt s" "seen C cmt (s\<lparr>journal := j\<rparr>) = seen C cmt s"
  "seen C cmt (s\<lparr>validRevisions := v\<rparr>) = seen C cmt s" "seen C cmt (s\<lparr>nextRevisionId := m\<rparr>) = seen C cmt s"
  by (simp_all add: seen_def fun_eq_iff)

lemma seen_setStateObject [simp]:
  "\<not> deleted obj \<Longrightarrow> seen C cmt (setStateObject obj s) = (seen C cmt s)(so_address obj \<mapsto> viewOf C cmt obj)"
  by (simp add: seen_def fun_eq_iff)

lemma seen_putDirty [simp]:
  "\<not> deleted obj \<Longrightarrow> seen C cmt (putDirty obj s) = (seen C cmt s)(so_address obj \<mapsto> viewOf C cmt obj)"
  by (simp add: seen_def fun_eq_iff)

lemma seen_SomeD: "seen C cmt s a = Some v \<Longrightarrow> wf_objects s \<Longrightarrow>
    \<exists>obj. look s a = Some obj \<and> so_address obj = a \<and> \<not> deleted obj \<and> viewOf C cmt obj = v"
  by (auto simp: seen_def dest: look_SomeD)

lemma seen_NoneD: "seen C cmt s a = None \<Longrightarrow> look s a = None"
  by (simp add: seen_def)

lemma seen_mdel: "seen C cmt (s\<lparr>stateObjects := mdel a (stateObjects s)\<rparr>) =
    (seen C cmt s)(a := map_option (viewOf C cmt \<circ> newObject a) (mget (sdb_trie s) a))"
  by (auto simp: seen_def look_def' fun_eq_iff option.map_comp split: option.split)

lemma wf_mdel: "wf_objects s \<Longrightarrow> wf_objects (s\<lparr>stateObjects := mdel a (stateObjects s)\<rparr>)"
  by (auto simp: wf_objects_def split: if_splits)

lemma GetLogs_simps [simp]:
  "GetLogs k (load a s) = GetLogs k s" "GetLogs k (appendJournal e s) = GetLogs k s" "GetLogs k (putDirty obj s) = GetLogs k s"
  "GetLogs k (setStateObject obj s) = GetLogs k s" "GetLogs k (s\<lparr>stateObjectsDirty := d\<rparr>) = GetLogs k s"
  "GetLogs k (s\<lparr>stateObjects := os\<rparr>) = GetLogs k s" "GetLogs k (MarkStateObjectDirty a s) = GetLogs k s"
  "GetLogs k (s\<lparr>stateObjectsDestructed := f\<rparr>) = GetLogs k s" "GetLogs k (s\<lparr>refund := r\<rparr>) = GetLogs k s"
  "GetLogs k (s\<lparr>preimages := p\<rparr>) = GetLogs k s"
  by (simp_all add: GetLogs_def)

end
