(* ===== verification/Zk_Revert.thy ===== *)
theory Zk_Revert
  imports Zk_Journal
begin

text \<open>
  Undoing the journal. An undo step depends only on what a caller sees, each operation is
  undone by the entries it appends, and \<open>RevertToSnapshot\<close> finds the entries to undo.
\<close>

section \<open>Undo steps\<close>

lemma onObject_cases:
  "onObject a g s = (case look s a of None \<Rightarrow> Inl (Panic ''nil stateObject'') | Some obj \<Rightarrow> Inr (g obj (load a s)))"
  by (simp add: onObject_def getStateObject_split split: option.split)

lemma GetLogs_update [simp]:
  "GetLogs k (s\<lparr>logs := mdel k' (logs s)\<rparr>) = (if k = k' then [] else GetLogs k s)"
  "GetLogs k (s\<lparr>logs := mput k' v (logs s)\<rparr>) = (if k = k' then v else GetLogs k s)"
  "GetLogs k (s\<lparr>logSize := n\<rparr>) = GetLogs k s"
  by (simp_all add: GetLogs_def)

lemma same_seenD: "same C cmt s t \<Longrightarrow> seen C cmt s = seen C cmt t"
  by (auto simp: same_def)

text \<open>Writing objects with equal views under the same address into states that look the same.\<close>

lemma same_putDirty:
  assumes "same C cmt s t" and "so_address x = so_address y" and "\<not> deleted x" "\<not> deleted y" and "viewOf C cmt x = viewOf C cmt y"
  shows "same C cmt (putDirty x s) (putDirty y t)"
  using assms same_seenD [OF assms(1)] by (simp add: same_def)

lemma same_setStateObject:
  assumes "same C cmt s t" and "so_address x = so_address y" and "\<not> deleted x" "\<not> deleted y" and "viewOf C cmt x = viewOf C cmt y"
  shows "same C cmt (setStateObject x s) (setStateObject y t)"
  using assms same_seenD [OF assms(1)] by (simp add: same_def)

lemma same_load [simp]: "same C cmt (load a s) t = same C cmt s t" "same C cmt s (load a t) = same C cmt s t"
  by (simp_all add: same_def)

lemma same_dirty [simp]:
  "same C cmt (s\<lparr>stateObjectsDirty := d\<rparr>) t = same C cmt s t" "same C cmt s (t\<lparr>stateObjectsDirty := d\<rparr>) = same C cmt s t"
  "same C cmt (s\<lparr>stateObjectsDestructed := d\<rparr>) t = same C cmt s t" "same C cmt s (t\<lparr>stateObjectsDestructed := d\<rparr>) = same C cmt s t"
  "same C cmt (appendJournal e s) t = same C cmt s t" "same C cmt s (appendJournal e t) = same C cmt s t"
  by (simp_all add: same_def)

lemma viewOf_suicided_balance:
  "viewOf C cmt (obj\<lparr>suicided := d, so_data := (so_data obj)\<lparr>acc_Balance := v\<rparr>\<rparr>) = (viewOf C cmt obj)\<lparr>v_suicided := d, v_Balance := v\<rparr>"
  by (simp add: viewOf_def so_Code_def so_GetState_def getTrie_def Let_def fun_eq_iff split: option.split)

lemma viewOf_touched_onDirty: "viewOf C cmt (obj\<lparr>touched := d, onDirty := e\<rparr>) = viewOf C cmt obj"
  by (simp add: viewOf_def so_Code_def so_GetState_def getTrie_def Let_def fun_eq_iff split: option.split)

definition agree :: "chainDb \<Rightarrow> bool \<Rightarrow> StateDB \<Rightarrow> StateDB \<Rightarrow> bool" where
  "agree C cmt s t \<longleftrightarrow> same C cmt s t \<and> wf_objects s \<and> wf_objects t"

lemma agree_look:
  assumes "agree C cmt s t"
  shows "look s a = None \<and> look t a = None \<or>
    (\<exists>x y. look s a = Some x \<and> look t a = Some y \<and> so_address x = a \<and> so_address y = a \<and>
       \<not> deleted x \<and> \<not> deleted y \<and> viewOf C cmt x = viewOf C cmt y)"
proof -
  have eq: "map_option (viewOf C cmt) (look s a) = map_option (viewOf C cmt) (look t a)" and wf: "wf_objects s" "wf_objects t"
    using assms by (simp_all add: agree_def same_def seen_def)
  show ?thesis
  proof (cases "look s a")
    case (Some x)
    then obtain y where y: "look t a = Some y" "viewOf C cmt x = viewOf C cmt y" using eq by (cases "look t a") auto
    show ?thesis using Some y look_SomeD [OF Some wf(1)] look_SomeD [OF y(1) wf(2)] by simp
  qed (use eq in simp)
qed

text \<open>A step on the object of an address, that acts alike on objects with equal views.\<close>

lemma onObject_agree:
  assumes "agree C cmt s t" and "onObject a g s = Inr s'"
    and step: "\<And>x y s t. agree C cmt s t \<Longrightarrow> so_address x = a \<Longrightarrow> so_address y = a \<Longrightarrow> \<not> deleted x \<Longrightarrow> \<not> deleted y \<Longrightarrow>
      viewOf C cmt x = viewOf C cmt y \<Longrightarrow> agree C cmt (g x s) (g y t)"
  shows "\<exists>t'. onObject a g t = Inr t' \<and> agree C cmt s' t'"
proof -
  have "agree C cmt (load a s) (load a t)" using assms(1) by (simp add: agree_def)
  then show ?thesis using agree_look [OF assms(1), of a] assms(2) step
    by (auto simp: onObject_cases)
qed

lemma agree_putDirty:
  assumes "agree C cmt s t" and "so_address x = so_address y" and "\<not> deleted x" "\<not> deleted y" and "viewOf C cmt x = viewOf C cmt y"
  shows "agree C cmt (putDirty x s) (putDirty y t)"
  using assms by (simp add: agree_def same_putDirty wf_putDirty)

lemma agree_setStateObject:
  assumes "agree C cmt s t" and "so_address x = so_address y" and "\<not> deleted x" "\<not> deleted y" and "viewOf C cmt x = viewOf C cmt y"
  shows "agree C cmt (setStateObject x s) (setStateObject y t)"
  using assms by (simp add: agree_def same_setStateObject wf_setStateObject)

lemma undo_agree:
  assumes "agree C cmt s t" and "entry_ok e" and "undo e s = Inr s'"
  shows "\<exists>t'. undo e t = Inr t' \<and> agree C cmt s' t'"
proof (cases e)
  case (createObjectChange a)
  then show ?thesis using assms same_seenD [of C cmt s t]
    by (auto simp: agree_def same_def seen_mdel wf_mdel)
next
  case (resetObjectChange prev)
  then show ?thesis using assms by (auto intro!: agree_setStateObject)
next
  case (suicideChange a prev bal)
  have l: "agree C cmt (load a s) (load a t)" using assms(1) by (simp add: agree_def)
  show ?thesis using agree_look [OF assms(1), of a] assms(3)
  proof (elim disjE exE)
    fix x y
    assume xy: "look s a = Some x \<and> look t a = Some y \<and> so_address x = a \<and> so_address y = a \<and>
      \<not> deleted x \<and> \<not> deleted y \<and> viewOf C cmt x = viewOf C cmt y"
    have "agree C cmt (setBalance bal (x\<lparr>suicided := prev\<rparr>) (load a s)) (setBalance bal (y\<lparr>suicided := prev\<rparr>) (load a t))"
      unfolding setBalance_def by (rule agree_putDirty [OF l]) (use xy in \<open>simp_all add: viewOf_suicided_balance\<close>)
    then show ?thesis using xy assms(3) suicideChange
      by (auto simp: getStateObject_split agree_def Let_def)
  qed (use l suicideChange in \<open>auto simp: getStateObject_split\<close>)
next
  case (touchChange a prev prevDirty)
  show ?thesis
  proof (cases "\<not> prev \<and> a \<noteq> ripemd")
    case True
    have "\<exists>t'. onObject a (\<lambda>obj s. let s = setStateObject (obj\<lparr>touched := prev\<rparr>) s
        in if \<not> prevDirty then s\<lparr>stateObjectsDirty := mdel a (stateObjectsDirty s)\<rparr> else s) t = Inr t' \<and> agree C cmt s' t'"
    proof (rule onObject_agree [OF assms(1)])
      show "onObject a (\<lambda>obj s. let s = setStateObject (obj\<lparr>touched := prev\<rparr>) s
        in if \<not> prevDirty then s\<lparr>stateObjectsDirty := mdel a (stateObjectsDirty s)\<rparr> else s) s = Inr s'"
        using True assms(3) touchChange by simp
    next
      fix x y s t
      assume h: "agree C cmt s t" "so_address x = a" "so_address y = a" "\<not> deleted x" "\<not> deleted y" "viewOf C cmt x = viewOf C cmt y"
      have "agree C cmt (setStateObject (x\<lparr>touched := prev\<rparr>) s) (setStateObject (y\<lparr>touched := prev\<rparr>) t)"
        by (rule agree_setStateObject) (use h in simp_all)
      then show "agree C cmt (let s = setStateObject (x\<lparr>touched := prev\<rparr>) s
        in if \<not> prevDirty then s\<lparr>stateObjectsDirty := mdel a (stateObjectsDirty s)\<rparr> else s)
        (let s = setStateObject (y\<lparr>touched := prev\<rparr>) t
        in if \<not> prevDirty then s\<lparr>stateObjectsDirty := mdel a (stateObjectsDirty s)\<rparr> else s)"
        by (simp add: Let_def agree_def)
    qed
    then show ?thesis using True touchChange by simp
  next
    case False
    then show ?thesis using assms touchChange by auto
  qed
next
  case (balanceChange a prev)
  show ?thesis unfolding balanceChange undo.simps
    by (rule onObject_agree [OF assms(1)]) (use assms(3) balanceChange in \<open>auto simp: setBalance_def intro!: agree_putDirty\<close>)
next
  case (nonceChange a prev)
  show ?thesis unfolding nonceChange undo.simps
    by (rule onObject_agree [OF assms(1)]) (use assms(3) nonceChange in \<open>auto simp: setNonce_def intro!: agree_putDirty\<close>)
next
  case (codeChange a prevcode prevhash)
  show ?thesis unfolding codeChange undo.simps
    by (rule onObject_agree [OF assms(1)]) (use assms(3) codeChange in \<open>auto simp: setCode_def intro!: agree_putDirty\<close>)
next
  case (storageChange a k prevalue)
  show ?thesis unfolding storageChange undo.simps
    by (rule onObject_agree [OF assms(1)]) (use assms(3) storageChange in \<open>auto simp: setState_def intro!: agree_putDirty\<close>)
next
  case (refundChange prev)
  then show ?thesis using assms by (auto simp: agree_def same_def)
next
  case (addLogChange k)
  then show ?thesis using assms
    by (auto simp: agree_def same_def Let_def split: if_splits)
next
  case (addPreimageChange k)
  then show ?thesis using assms by (auto simp: agree_def same_def)
qed

lemma undo_all_agree:
  assumes "agree C cmt s t" and "\<forall>e\<in>set es. entry_ok e" and "fold_res undo es s = Inr s'"
  shows "\<exists>t'. fold_res undo es t = Inr t' \<and> agree C cmt s' t'"
  using assms
proof (induction es arbitrary: s t)
  case (Cons e es)
  from Cons.prems(3) obtain u where u: "undo e s = Inr u" "fold_res undo es u = Inr s'"
    by (auto elim: bind_res_InrE)
  with undo_agree [OF Cons.prems(1) _ u(1)] Cons.prems(2)
  obtain v where v: "undo e t = Inr v" "agree C cmt u v" by auto
  from Cons.IH [OF v(2) _ u(2)] Cons.prems(2) v(1) show ?case by simp
qed simp

section \<open>Operations are undone by their entries\<close>

text \<open>
  \<open>undone s s1\<close>: the operation that led from \<open>s\<close> to \<open>s1\<close> appended entries to the journal, and
  undoing them gives a state that looks like \<open>s\<close>.
\<close>

definition undone :: "chainDb \<Rightarrow> bool \<Rightarrow> StateDB \<Rightarrow> StateDB \<Rightarrow> bool" where
  "undone C cmt s s1 \<longleftrightarrow> validRevisions s1 = validRevisions s \<and> nextRevisionId s1 = nextRevisionId s \<and>
     (wf_objects s \<longrightarrow> wf_objects s1 \<and>
       (\<exists>es t. journal s1 = journal s @ es \<and> (\<forall>e\<in>set es. entry_ok e) \<and> fold_res undo (rev es) s1 = Inr t \<and> agree C cmt t s))"

lemma undone_refl [simp]: "undone C cmt s s"
  unfolding undone_def agree_def by (auto intro!: exI [of _ "[]"])

lemma fold_res_append: "fold_res g (xs @ ys) s = bind_res (fold_res g xs s) (fold_res g ys)"
  by (induction xs arbitrary: s) (auto simp: bind_res_def split: sum.split)

lemma agree_sym: "agree C cmt s t \<Longrightarrow> agree C cmt t s"
  by (simp add: agree_def same_def)

lemma agree_trans: "agree C cmt s t \<Longrightarrow> agree C cmt t u \<Longrightarrow> agree C cmt s u"
  by (auto simp: agree_def intro: same_trans)

lemma undone_trans:
  assumes "undone C cmt s s1" and "undone C cmt s1 s2"
  shows "undone C cmt s s2"
proof (cases "wf_objects s")
  case True
  from assms(1) True obtain es1 t1 where 1: "journal s1 = journal s @ es1" "\<forall>e\<in>set es1. entry_ok e"
    "fold_res undo (rev es1) s1 = Inr t1" "agree C cmt t1 s" and wf1: "wf_objects s1" by (auto simp: undone_def)
  from assms(2) wf1 obtain es2 t2 where 2: "journal s2 = journal s1 @ es2" "\<forall>e\<in>set es2. entry_ok e"
    "fold_res undo (rev es2) s2 = Inr t2" "agree C cmt t2 s1" and wf2: "wf_objects s2" by (auto simp: undone_def)
  from undo_all_agree [OF agree_sym [OF 2(4)] _ 1(3)] 1(2)
  obtain t where t: "fold_res undo (rev es1) t2 = Inr t" "agree C cmt t1 t" by auto
  have "fold_res undo (rev (es1 @ es2)) s2 = Inr t" using 2(3) t(1) by (simp add: fold_res_append)
  moreover have "agree C cmt t s" using agree_trans [OF agree_sym [OF t(2)] 1(4)] .
  ultimately show ?thesis using 1 2 wf2 assms by (auto simp: undone_def intro!: exI [of _ "es1 @ es2"])
qed (use assms in \<open>simp add: undone_def\<close>)

text \<open>An operation that appends nothing and changes no view.\<close>

lemma undone_quiet:
  assumes "validRevisions s1 = validRevisions s" "nextRevisionId s1 = nextRevisionId s" "journal s1 = journal s"
    and "wf_objects s \<Longrightarrow> agree C cmt s1 s"
  shows "undone C cmt s s1"
  using assms unfolding undone_def by (auto simp: agree_def intro!: exI [of _ "[]"])

text \<open>An operation that appends one entry.\<close>

lemma undone_one:
  assumes "validRevisions s1 = validRevisions s" "nextRevisionId s1 = nextRevisionId s" "journal s1 = journal s @ [e]"
    and "wf_objects s \<Longrightarrow> wf_objects s1 \<and> entry_ok e \<and> (\<exists>t. undo e s1 = Inr t \<and> agree C cmt t s)"
  shows "undone C cmt s s1"
  using assms unfolding undone_def by (auto intro!: exI [of _ "[e]"])

text \<open>
  A method of an object that appends one entry and writes the object back: it is undone when
  the entry's step on the written object gives back the view.
\<close>

lemma undone_write:
  assumes obj: "look s a = Some obj"
    and e: "entry_ok e" "\<And>s. undo e s = onObject a g s"
    and x: "\<not> deleted obj \<Longrightarrow> \<not> deleted x" "so_address obj = a \<Longrightarrow> so_address x = a"
    and g: "\<And>s y. so_address y = a \<Longrightarrow> \<not> deleted y \<Longrightarrow> viewOf C cmt y = viewOf C cmt x \<Longrightarrow>
       \<exists>z. g y s = putDirty z s \<and> so_address z = a \<and> \<not> deleted z \<and> viewOf C cmt z = viewOf C cmt obj"
  shows "undone C cmt s (putDirty x (appendJournal e s))"
proof (rule undone_one)
  assume wf: "wf_objects s"
  note o = look_SomeD [OF obj wf]
  let ?s1 = "putDirty x (appendJournal e s)"
  have wf1: "wf_objects ?s1" using wf o x by (simp add: wf_putDirty)
  have look1: "look ?s1 a = Some (x\<lparr>onDirty := False\<rparr>)" using o x by simp
  obtain z where z: "g (x\<lparr>onDirty := False\<rparr>) (load a ?s1) = putDirty z (load a ?s1)" "so_address z = a" "\<not> deleted z"
    "viewOf C cmt z = viewOf C cmt obj"
    using g [of "x\<lparr>onDirty := False\<rparr>" "load a ?s1"] o x by auto
  have "seen C cmt s a = Some (viewOf C cmt obj)" using obj by (simp add: seen_def)
  then have "same C cmt (putDirty z (load a ?s1)) s"
    using z o x by (auto simp: same_def)
  then have "agree C cmt (putDirty z (load a ?s1)) s"
    using wf wf1 z by (simp add: agree_def wf_putDirty)
  then show "wf_objects ?s1 \<and> entry_ok e \<and> (\<exists>t. undo e ?s1 = Inr t \<and> agree C cmt t s)"
    using wf1 e look1 z(1) by (simp add: onObject_cases)
qed simp_all

lemma undone_load: "undone C cmt s (load a s)"
  by (rule undone_quiet) (simp_all add: agree_def)

text \<open>A new object under an address, whatever it holds.\<close>

lemma undone_create:
  assumes j: "journal s1 = journal s @ [case look s a of None \<Rightarrow> createObjectChange a | Some p \<Rightarrow> resetObjectChange p]"
    and r: "validRevisions s1 = validRevisions s" "nextRevisionId s1 = nextRevisionId s"
    and fields: "sdb_trie s1 = sdb_trie s" "refund s1 = refund s" "logs s1 = logs s" "preimages s1 = preimages s"
      "thash s1 = thash s" "bhash s1 = bhash s" "txIndex s1 = txIndex s"
    and wf1: "wf_objects s \<Longrightarrow> wf_objects s1"
    and others: "\<And>x. x \<noteq> a \<Longrightarrow> seen C cmt s1 x = seen C cmt s x"
  shows "undone C cmt s s1"
proof (rule undone_one [OF r j])
  assume wf: "wf_objects s"
  let ?e = "case look s a of None \<Rightarrow> createObjectChange a | Some p \<Rightarrow> resetObjectChange p"
  have logs: "GetLogs k s1 = GetLogs k s" for k using fields by (simp add: GetLogs_def)
  show "wf_objects s1 \<and> entry_ok ?e \<and> (\<exists>t. undo ?e s1 = Inr t \<and> agree C cmt t s)"
  proof (cases "look s a")
    case None
    then have "mget (sdb_trie s) a = None"
      using wf by (auto simp: look_def' wf_objects_def split: option.splits if_splits)
    moreover have "seen C cmt s a = None" using None by (simp add: seen_def)
    ultimately show ?thesis using None wf wf1 fields others logs
      by (auto simp: agree_def same_def seen_mdel wf_mdel)
  next
    case (Some p)
    then have "seen C cmt s a = Some (viewOf C cmt p)" by (simp add: seen_def)
    then show ?thesis using Some look_SomeD [OF Some wf] wf wf1 fields others logs
      by (auto simp: agree_def same_def wf_setStateObject)
  qed
qed

lemma undone_createObject:
  assumes "createObject C a s = (x, prev, s1)"
  shows "undone C cmt s s1" and "look s1 a = Some x" and "prev = look s a"
proof -
  let ?e = "case look s a of None \<Rightarrow> createObjectChange a | Some p \<Rightarrow> resetObjectChange p"
  let ?x = "(newObject a (zeroAccount C))\<lparr>onDirty := False\<rparr>"
  have s1: "s1 = setStateObject ?x (appendJournal ?e (MarkStateObjectDirty a (load a s)))" and "x = ?x" "prev = look s a"
    using assms by (auto simp: createObject_def getStateObject_split Let_def)
  then show "look s1 a = Some x" "prev = look s a" by simp_all
  show "undone C cmt s s1"
    by (rule undone_create) (auto simp: s1 wf_setStateObject)
qed

lemma undone_GetOrNew:
  assumes "GetOrNewStateObject C a s = (x, s1)"
  shows "undone C cmt s s1 \<and> look s1 a = Some x"
proof (cases "look s a")
  case None
  obtain x' prev s' where c: "createObject C a (load a s) = (x', prev, s')" by (metis prod_cases3)
  then have eq: "x = x'" "s1 = s'" using assms None by (simp_all add: GetOrNewStateObject_def getStateObject_split)
  show ?thesis unfolding eq
    using undone_trans [OF undone_load undone_createObject(1) [OF c]] undone_createObject(2) [OF c] by simp
next
  case (Some obj)
  then have eq: "x = obj" "s1 = load a s" using assms by (simp_all add: GetOrNewStateObject_def getStateObject_split)
  show ?thesis unfolding eq using Some undone_load by simp
qed

lemma undone_withObject:
  assumes "\<And>x s. look s a = Some x \<Longrightarrow> undone C cmt s (g x s)"
  shows "undone C cmt s (withObject C a g s)"
proof -
  obtain x s1 where g: "GetOrNewStateObject C a s = (x, s1)" by fastforce
  show ?thesis unfolding withObject_def g Let_def prod.case
    using undone_GetOrNew [OF g, of cmt] undone_trans [OF _ assms] by blast
qed

text \<open>The methods of an object.\<close>

lemma undone_look: "(wf_objects s \<Longrightarrow> so_address obj = a \<Longrightarrow> \<not> deleted obj \<Longrightarrow> undone C cmt s s1) \<Longrightarrow> look s a = Some obj \<Longrightarrow>
    validRevisions s1 = validRevisions s \<Longrightarrow> nextRevisionId s1 = nextRevisionId s \<Longrightarrow> undone C cmt s s1"
  using look_SomeD [of s a obj] by (cases "wf_objects s") (auto simp: undone_def)

lemma undone_so_SetBalance:
  assumes "look s a = Some obj"
  shows "undone C cmt s (so_SetBalance v obj s)"
proof (rule undone_look [OF _ assms])
  assume "so_address obj = a"
  then show "undone C cmt s (so_SetBalance v obj s)"
    unfolding so_SetBalance_def setBalance_def
    by (auto intro!: undone_write [OF assms, where g = "setBalance (acc_Balance (so_data obj))"] exI simp: setBalance_def)
      (simp add: viewOf_def)
qed (simp_all add: so_SetBalance_def setBalance_def)

lemma undone_so_SetNonce:
  assumes "look s a = Some obj"
  shows "undone C cmt s (so_SetNonce v obj s)"
proof (rule undone_look [OF _ assms])
  assume "so_address obj = a"
  then show "undone C cmt s (so_SetNonce v obj s)"
    unfolding so_SetNonce_def setNonce_def
    by (auto intro!: undone_write [OF assms, where g = "setNonce (acc_Nonce (so_data obj))"] exI simp: setNonce_def)
      (simp add: viewOf_def)
qed (simp_all add: so_SetNonce_def setNonce_def)

lemma undone_touch:
  assumes "look s a = Some obj"
  shows "undone C cmt s (touch obj s)"
proof (rule undone_one [where e = "touchChange (so_address obj) (touched obj) (\<not> onDirty obj)"])
  assume wf: "wf_objects s"
  note o = look_SomeD [OF assms wf]
  have s1: "wf_objects (touch obj s)" "agree C cmt (touch obj s) s" "look (touch obj s) a = Some (obj\<lparr>touched := True, onDirty := False\<rparr>)"
  proof -
    have v: "seen C cmt s a = Some (viewOf C cmt obj)" using assms by (simp add: seen_def)
    show w: "wf_objects (touch obj s)" using wf o by (simp add: touch_def wf_putDirty)
    show "agree C cmt (touch obj s) s" using w wf o v by (auto simp: agree_def same_def touch_def)
    show "look (touch obj s) a = Some (obj\<lparr>touched := True, onDirty := False\<rparr>)" using o by (simp add: touch_def)
  qed
  let ?e = "touchChange (so_address obj) (touched obj) (\<not> onDirty obj)"
  have v: "seen C cmt (touch obj s) a = Some (viewOf C cmt obj)"
    using s1(3) by (simp add: seen_def viewOf_touched_onDirty)
  have "agree C cmt (setStateObject (obj\<lparr>onDirty := False, touched := d\<rparr>) (load a (touch obj s))) s" for d
    using s1(1,2) o v by (auto simp: agree_def same_def wf_setStateObject viewOf_touched_onDirty)
  then have "\<exists>t. undo ?e (touch obj s) = Inr t \<and> agree C cmt t s"
    using s1 o by (auto simp: onObject_cases agree_def Let_def)
  then show "wf_objects (touch obj s) \<and> entry_ok ?e \<and> (\<exists>t. undo ?e (touch obj s) = Inr t \<and> agree C cmt t s)"
    using s1(1) by simp
qed (simp_all add: touch_def)

lemma undone_so_AddBalance: "look s a = Some obj \<Longrightarrow> undone C cmt s (so_AddBalance D v obj s)"
  by (auto simp: so_AddBalance_def intro: undone_so_SetBalance undone_touch)

lemma undone_so_SubBalance: "look s a = Some obj \<Longrightarrow> undone C cmt s (so_SubBalance v obj s)"
  by (auto simp: so_SubBalance_def intro: undone_so_SetBalance)

lemma undone_setCMT: "look s a = Some obj \<Longrightarrow> undone C False s (setCMT v obj s)"
proof (rule undone_quiet)
  assume l: "look s a = Some obj" and wf: "wf_objects s"
  have "seen C False s a = Some (viewOf C False obj)" using l by (simp add: seen_def)
  then show "agree C False (setCMT v obj s) s"
    using wf look_SomeD [OF l wf] by (auto simp: agree_def same_def setCMT_def wf_setStateObject)
qed (simp_all add: setCMT_def)

lemma codeOf_so_Code: "codeOf C (acc_CodeHash (so_data obj)) (fst (so_Code C obj)) = fst (so_Code C obj)"
  by (simp add: codeOf_def so_Code_def Let_def split: option.split)


lemma viewOf_code_data [simp]:
  "so_data obj = d \<Longrightarrow> viewOf C cmt (obj\<lparr>so_code := code, so_data := d\<lparr>acc_CodeHash := k\<rparr>, dirtyCode := b\<rparr>) =
   (viewOf C cmt obj)\<lparr>v_CodeHash := k, v_Code := codeOf C k code\<rparr>"
  using viewOf_code by blast

lemma undone_so_SetCode:
  assumes "look s a = Some obj"
  shows "undone C cmt s (so_SetCode C k code obj s)"
proof (rule undone_look [OF _ assms])
  assume "so_address obj = a"
  then show "undone C cmt s (so_SetCode C k code obj s)"
    unfolding so_SetCode_def setCode_def Let_def case_prod_unfold
    by (auto intro!: undone_write [OF assms, where g = "setCode (acc_CodeHash (so_data obj)) (fst (so_Code C obj))"] exI
        simp: setCode_def codeOf_so_Code) (simp add: viewOf_def)
qed (simp_all add: so_SetCode_def setCode_def Let_def case_prod_unfold)

lemma undone_so_SetState:
  assumes "look s a = Some obj"
  shows "undone C cmt s (so_SetState C k v obj s)"
proof (rule undone_look [OF _ assms])
  assume "so_address obj = a"
  then show "undone C cmt s (so_SetState C k v obj s)"
    unfolding so_SetState_def setState_def Let_def case_prod_unfold
    by (auto intro!: undone_write [OF assms, where g = "setState k (fst (so_GetState C k obj))"] exI simp: setState_def)
      (simp add: viewOf_def fun_upd_def fun_eq_iff)
qed (simp_all add: so_SetState_def setState_def Let_def case_prod_unfold)

section \<open>The operations of the state\<close>

lemma undone_Suicide: "undone C cmt s (snd (Suicide a s))"
proof (cases "look s a")
  case None
  then show ?thesis using undone_load by (simp add: Suicide_def getStateObject_split)
next
  case (Some obj)
  let ?e = "suicideChange a (suicided obj) (acc_Balance (so_data obj))"
  let ?x = "obj\<lparr>so_data := (so_data obj)\<lparr>acc_Balance := 0\<rparr>, suicided := True\<rparr>"
  have s1: "snd (Suicide a s) = (putDirty ?x (appendJournal ?e (load a s)))\<lparr>stateObjectsDestructed :=
      mput a () (stateObjectsDestructed (putDirty ?x (appendJournal ?e (load a s))))\<rparr>" (is "_ = ?s1")
    using Some by (simp add: Suicide_def getStateObject_split markSuicided_def Let_def)
  show ?thesis unfolding s1
  proof (rule undone_one [where e = ?e])
    assume wf: "wf_objects s"
    note o = look_SomeD [OF Some wf]
    have wf1: "wf_objects ?s1" using wf o by (simp add: wf_putDirty)
    have look1: "look ?s1 a = Some (?x\<lparr>onDirty := False\<rparr>)" using o by simp
    define y where "y = ?x\<lparr>onDirty := False\<rparr>"
    define z where "z = y\<lparr>suicided := suicided obj, so_data := (so_data y)\<lparr>acc_Balance := acc_Balance (so_data obj)\<rparr>\<rparr>"
    have z: "so_address z = a" "\<not> deleted z" "viewOf C cmt z = viewOf C cmt obj"
    proof -
      show "so_address z = a" "\<not> deleted z" using o by (simp_all add: z_def y_def)
      have "viewOf C cmt y = (viewOf C cmt obj)\<lparr>v_Balance := 0, v_suicided := True\<rparr>"
        using viewOf_suicided [where obj = "obj\<lparr>so_data := (so_data obj)\<lparr>acc_Balance := 0\<rparr>\<rparr>" and d = True] by (simp add: y_def)
      then show "viewOf C cmt z = viewOf C cmt obj" unfolding z_def viewOf_suicided_balance by (simp add: viewOf_def)
    qed
    have v: "seen C cmt s a = Some (viewOf C cmt obj)" using Some by (simp add: seen_def)
    define u where "u = putDirty z (load a ?s1)"
    have "agree C cmt u s"
      using wf wf1 o v z by (auto simp: u_def agree_def same_def wf_putDirty)
    then have "agree C cmt (if \<not> suicided obj then u\<lparr>stateObjectsDestructed := mdel a (stateObjectsDestructed u)\<rparr> else u) s"
      by (simp add: agree_def)
    moreover have "undo ?e ?s1 = Inr (if \<not> suicided obj then u\<lparr>stateObjectsDestructed := mdel a (stateObjectsDestructed u)\<rparr> else u)"
      unfolding u_def undo.simps getStateObject_split look1 y_def [symmetric] setBalance_def z_def by (simp add: Let_def)
    ultimately have "\<exists>t. undo ?e ?s1 = Inr t \<and> agree C cmt t s" by blast
    then show "wf_objects ?s1 \<and> entry_ok ?e \<and> (\<exists>t. undo ?e ?s1 = Inr t \<and> agree C cmt t s)" using wf1 by simp
  qed simp_all
qed

lemma undone_CreateAccount: "undone C cmt s (CreateAccount C a s)"
proof (cases "look s a")
  case None
  obtain x prev s1 where c: "createObject C a s = (x, prev, s1)" by (metis prod_cases3)
  then show ?thesis using undone_createObject [OF c] None by (simp add: CreateAccount_def)
next
  case (Some p)
  show ?thesis
    by (rule undone_create)
      (use Some in \<open>auto simp: CreateAccount_def createObject_def getStateObject_split Let_def intro!: wf_setStateObject\<close>)
qed

lemma undone_AddRefund: "undone C cmt s (AddRefund v s)"
  by (rule undone_one [where e = "refundChange (refund s)"]) (auto simp: AddRefund_def agree_def same_def GetLogs_def)

lemma undone_AddLog: "undone C cmt s (AddLog l s)"
  by (rule undone_one [where e = "addLogChange (thash s)"])
    (auto simp: AddLog_def agree_def same_def GetLogs_def Let_def split: option.split)

lemma undone_AddPreimage: "undone C cmt s (AddPreimage k v s)"
proof (cases "mhas (preimages s) k")
  case False
  then show ?thesis
    by (intro undone_one [where e = "addPreimageChange k"]) (auto simp: AddPreimage_def agree_def same_def mhas_def GetLogs_def)
qed (simp add: AddPreimage_def)

lemma undone_reads:
  "undone C cmt s (snd (Exist a s))" "undone C cmt s (snd (GetCode C a s))" "undone C cmt s (snd (GetState C a k s))"
proof -
  have w: "undone C cmt s (setStateObject x (load a s))"
    if l: "look s a = Some obj" and x: "so_address x = so_address obj" "deleted x = deleted obj" "viewOf C cmt x = viewOf C cmt obj" for obj x
  proof (rule undone_quiet)
    assume wf: "wf_objects s"
    have "seen C cmt s a = Some (viewOf C cmt obj)" using l by (simp add: seen_def)
    then show "agree C cmt (setStateObject x (load a s)) s"
      using wf x look_SomeD [OF l wf] by (auto simp: agree_def same_def wf_setStateObject)
  qed simp_all
  show "undone C cmt s (snd (Exist a s))" using undone_load by (simp add: Exist_def getStateObject_split Let_def)
  show "undone C cmt s (snd (GetCode C a s))" using w undone_load [of C cmt s a]
    by (cases "look s a") (auto simp: GetCode_def getStateObject_split case_prod_unfold Let_def)
  show "undone C cmt s (snd (GetState C a k s))" using w undone_load [of C cmt s a]
    by (cases "look s a") (auto simp: GetState_def getStateObject_split case_prod_unfold Let_def)
qed

lemma undone_applyOp:
  assumes "applyOp C op s = Inr s1" and "op \<noteq> OpSnapshot" and "\<And>r. op \<noteq> OpRevert r" and "cmt \<Longrightarrow> \<forall>a v. op \<noteq> OpSetCMT a v"
  shows "undone C cmt s s1"
proof (cases op)
  case (OpSetCMT a v)
  then have "\<not> cmt" using assms(4) by auto
  then show ?thesis using assms(1) OpSetCMT by (auto simp: SetCMT_def intro!: undone_withObject undone_setCMT)
qed (use assms in \<open>auto simp: AddBalance_def SubBalance_def SetBalance_def SetNonce_def SetCode_def SetState_def
      intro!: undone_withObject undone_so_AddBalance undone_so_SubBalance undone_so_SetBalance undone_so_SetNonce
        undone_so_SetCode undone_so_SetState undone_Suicide undone_CreateAccount undone_AddRefund undone_AddLog
        undone_AddPreimage undone_reads\<close>)

section \<open>Snapshots\<close>

lemma sortSearch_spec:
  assumes "i \<le> j" and "\<And>a b. i \<le> a \<Longrightarrow> a \<le> b \<Longrightarrow> b < j \<Longrightarrow> p a \<Longrightarrow> p b"
  shows "i \<le> sortSearch i j p \<and> sortSearch i j p \<le> j \<and>
    (\<forall>k. i \<le> k \<and> k < sortSearch i j p \<longrightarrow> \<not> p k) \<and> (\<forall>k. sortSearch i j p \<le> k \<and> k < j \<longrightarrow> p k)"
  using assms
proof (induction i j p rule: sortSearch.induct)
  case (1 i j p)
  show ?case
  proof (cases "i < j")
    case True
    let ?m = "(i + j) div 2"
    have m: "i \<le> ?m" "?m < j" using True by auto
    show ?thesis
    proof (cases "p ?m")
      case True
      then have eq: "sortSearch i j p = sortSearch i ?m p" using \<open>i < j\<close> by (subst sortSearch.simps) (simp add: Let_def)
      have ih: "i \<le> sortSearch i ?m p \<and> sortSearch i ?m p \<le> ?m \<and> (\<forall>k. i \<le> k \<and> k < sortSearch i ?m p \<longrightarrow> \<not> p k) \<and>
          (\<forall>k. sortSearch i ?m p \<le> k \<and> k < ?m \<longrightarrow> p k)"
        using 1(2) [OF \<open>i < j\<close> refl] True m 1(4) by (meson less_trans)
      then show ?thesis unfolding eq using True 1(4) [of ?m] m by (meson leI le_trans less_imp_le_nat)
    next
      case False
      then have eq: "sortSearch i j p = sortSearch (?m + 1) j p" using \<open>i < j\<close> by (subst sortSearch.simps) (simp add: Let_def)
      have ih: "?m + 1 \<le> sortSearch (?m + 1) j p \<and> sortSearch (?m + 1) j p \<le> j \<and>
          (\<forall>k. ?m + 1 \<le> k \<and> k < sortSearch (?m + 1) j p \<longrightarrow> \<not> p k) \<and> (\<forall>k. sortSearch (?m + 1) j p \<le> k \<and> k < j \<longrightarrow> p k)"
      proof (rule 1(1) [OF \<open>i < j\<close> refl False])
        fix a b assume "?m + 1 \<le> a" "a \<le> b" "b < j" "p a"
        then show "p b" using 1(4) [of a b] m by simp
      qed (use m in simp)
      have low: "\<not> p k" if "i \<le> k" "k \<le> ?m" for k using False 1(4) [OF that m(2)] by blast
      obtain r where r: "r = sortSearch (?m + 1) j p" by simp
      have ih: "?m + 1 \<le> r" "r \<le> j" "\<forall>k. ?m + 1 \<le> k \<and> k < r \<longrightarrow> \<not> p k" "\<forall>k. r \<le> k \<and> k < j \<longrightarrow> p k"
        using ih unfolding r by blast+
      have "\<not> p k" if "i \<le> k" "k < r" for k
        using low [of k] ih(3) that by (cases "k \<le> ?m") simp_all
      then show ?thesis unfolding eq r [symmetric] using ih m(1) by simp
    qed
  next
    case False
    then have "sortSearch i j p = i" by (subst sortSearch.simps) simp
    then show ?thesis using False 1(3) by auto
  qed
qed

text \<open>Revisions are numbered upwards, and their journal indices are positions of the journal.\<close>

definition wf_revisions :: "StateDB \<Rightarrow> bool" where
  "wf_revisions s \<longleftrightarrow> sorted_wrt (<) (map rev_id (validRevisions s)) \<and> (\<forall>r\<in>set (validRevisions s). rev_id r < nextRevisionId s) \<and>
     sorted (map rev_journalIndex (validRevisions s)) \<and> (\<forall>r\<in>set (validRevisions s). rev_journalIndex r \<le> length (journal s))"

lemma search_revision:
  assumes "sorted_wrt (<) (map rev_id rs)" and "rs = xs @ r # ys"
  shows "sortSearch 0 (length rs) (\<lambda>i. rev_id (rs ! i) \<ge> rev_id r) = length xs"
proof -
  let ?p = "\<lambda>i. rev_id (rs ! i) \<ge> rev_id r"
  have lt: "rev_id (rs ! a) < rev_id (rs ! b)" if "a < b" "b < length rs" for a b
    using sorted_wrt_nth_less [OF assms(1), of a b] that by simp
  have mono: "?p b" if "a \<le> b" "b < length rs" "?p a" for a b
    using lt [of a b] that by (cases "a = b") auto
  have at: "rs ! length xs = r" "length xs < length rs" using assms(2) by simp_all
  define i where "i = sortSearch 0 (length rs) ?p"
  have s: "i \<le> length rs" "\<forall>k<i. \<not> ?p k" "\<forall>k. i \<le> k \<and> k < length rs \<longrightarrow> ?p k"
    using sortSearch_spec [of 0 "length rs" ?p] mono unfolding i_def by blast+
  have "\<not> i < length xs"
  proof
    assume l: "i < length xs"
    then have "?p i" using s(3) at(2) by simp
    then show False using lt [OF l] at by simp
  qed
  moreover have "\<not> length xs < i" using s(2) at(1) by auto
  ultimately show ?thesis by (simp add: i_def)
qed

lemma RevertToSnapshot_eq:
  assumes "wf_revisions s" and "validRevisions s = xs @ r # ys"
  shows "RevertToSnapshot (rev_id r) s = bind_res (fold_res undo (rev (drop (rev_journalIndex r) (journal s))) s) (\<lambda>s.
     Inr (s\<lparr>journal := take (rev_journalIndex r) (journal s), validRevisions := take (length xs) (validRevisions s)\<rparr>))"
  using search_revision [of "validRevisions s" xs r ys] assms
  by (simp add: RevertToSnapshot_def wf_revisions_def Let_def)

lemma undo_keeps: "undo e s = Inr t \<Longrightarrow> journal t = journal s \<and> validRevisions t = validRevisions s \<and> nextRevisionId t = nextRevisionId s"
  by (cases e) (auto simp: onObject_cases setBalance_def setNonce_def setCode_def setState_def getStateObject_split Let_def
      split: option.splits if_splits)

lemma undo_all_keeps: "fold_res undo es s = Inr t \<Longrightarrow> journal t = journal s \<and> validRevisions t = validRevisions s \<and> nextRevisionId t = nextRevisionId s"
  by (induction es arbitrary: s) (auto simp: bind_res_Inr_iff dest!: undo_keeps)

text \<open>
  What holds between a \<open>Snapshot\<close> in state \<open>s0\<close> and its \<open>RevertToSnapshot\<close>: the journal of \<open>s0\<close> is
  a prefix of the journal, undoing the rest gives a state that looks like \<open>s0\<close>, and the revision is still on the stack.
\<close>

definition snapshot_open :: "chainDb \<Rightarrow> bool \<Rightarrow> StateDB \<Rightarrow> StateDB \<Rightarrow> bool" where
  "snapshot_open C cmt s0 s \<longleftrightarrow> wf_objects s \<and> wf_revisions s \<and>
     (\<exists>es t ys. journal s = journal s0 @ es \<and> (\<forall>e\<in>set es. entry_ok e) \<and> fold_res undo (rev es) s = Inr t \<and> agree C cmt t s0 \<and>
       validRevisions s = validRevisions s0 @ \<lparr>rev_id = nextRevisionId s0, rev_journalIndex = length (journal s0)\<rparr> # ys)"

definition good_state :: "StateDB \<Rightarrow> bool" where
  "good_state s \<longleftrightarrow> wf_objects s \<and> wf_revisions s"

lemma good_New: "good_state (sdb_New tr)"
  by (simp add: good_state_def wf_objects_def wf_revisions_def sdb_New_def)

lemma snapshot_opens: "good_state s0 \<Longrightarrow> snapshot_open C cmt s0 (snd (Snapshot s0))"
  unfolding snapshot_open_def good_state_def wf_revisions_def
  by (auto simp: Snapshot_def agree_def same_def GetLogs_def sorted_wrt_append sorted_append less_Suc_eq intro!: exI [of _ "[]"])

lemma wf_revisions_grow:
  assumes "wf_revisions s" and "validRevisions s1 = validRevisions s" "nextRevisionId s1 = nextRevisionId s" "journal s1 = journal s @ es"
  shows "wf_revisions s1"
  using assms by (fastforce simp: wf_revisions_def)

lemma open_undone:
  assumes "snapshot_open C cmt s0 s" and u: "undone C cmt s s1"
  shows "snapshot_open C cmt s0 s1"
proof -
  from assms(1) obtain es t ys where 1: "journal s = journal s0 @ es" "\<forall>e\<in>set es. entry_ok e" "fold_res undo (rev es) s = Inr t"
    "agree C cmt t s0" "validRevisions s = validRevisions s0 @ \<lparr>rev_id = nextRevisionId s0, rev_journalIndex = length (journal s0)\<rparr> # ys"
    and wf: "wf_objects s" "wf_revisions s" by (auto simp: snapshot_open_def)
  from u wf(1) obtain es1 t1 where 2: "journal s1 = journal s @ es1" "\<forall>e\<in>set es1. entry_ok e" "fold_res undo (rev es1) s1 = Inr t1"
    "agree C cmt t1 s" and wf1: "wf_objects s1" and rv: "validRevisions s1 = validRevisions s" "nextRevisionId s1 = nextRevisionId s"
    by (auto simp: undone_def)
  from undo_all_agree [OF agree_sym [OF 2(4)] _ 1(3)] 1(2) obtain t' where
    3: "fold_res undo (rev es) t1 = Inr t'" "agree C cmt t t'" by auto
  have "fold_res undo (rev (es @ es1)) s1 = Inr t'" using 2(3) 3(1) by (simp add: fold_res_append)
  moreover have "agree C cmt t' s0" using agree_trans [OF agree_sym [OF 3(2)] 1(4)] .
  ultimately show ?thesis
    using 1 2 wf1 rv wf_revisions_grow [OF wf(2) rv 2(1)] unfolding snapshot_open_def
    by (intro conjI exI [of _ "es @ es1"] exI [of _ t'] exI [of _ ys]) auto
qed

lemma open_Snapshot:
  assumes "snapshot_open C cmt s0 s"
  shows "snapshot_open C cmt s0 (snd (Snapshot s))"
proof -
  from assms obtain es t ys where 1: "journal s = journal s0 @ es" "\<forall>e\<in>set es. entry_ok e" "fold_res undo (rev es) s = Inr t"
    "agree C cmt t s0" "validRevisions s = validRevisions s0 @ \<lparr>rev_id = nextRevisionId s0, rev_journalIndex = length (journal s0)\<rparr> # ys"
    and wf: "wf_objects s" "wf_revisions s" by (auto simp: snapshot_open_def)
  let ?s1 = "snd (Snapshot s)"
  have a: "agree C cmt s ?s1" using wf(1) by (simp add: Snapshot_def agree_def same_def GetLogs_def)
  from undo_all_agree [OF a _ 1(3)] 1(2) obtain t' where 2: "fold_res undo (rev es) ?s1 = Inr t'" "agree C cmt t t'" by auto
  have "wf_revisions ?s1"
    using wf(2) by (auto simp: wf_revisions_def Snapshot_def sorted_wrt_append sorted_append less_Suc_eq)
  moreover have "agree C cmt t' s0" using agree_trans [OF agree_sym [OF 2(2)] 1(4)] .
  ultimately show ?thesis using 1 2 wf unfolding snapshot_open_def
    by (intro conjI exI [of _ es] exI [of _ t'] exI) (auto simp: Snapshot_def)
qed

text \<open>A revert that succeeds finds its revision on the stack.\<close>

lemma RevertToSnapshot_found:
  assumes "wf_revisions s" and "RevertToSnapshot k s = Inr s1"
  obtains xs r ys where "validRevisions s = xs @ r # ys" "rev_id r = k"
proof -
  let ?i = "sortSearch 0 (length (validRevisions s)) (\<lambda>i. rev_id (validRevisions s ! i) \<ge> k)"
  have "?i \<noteq> length (validRevisions s)" and id: "rev_id (validRevisions s ! ?i) = k"
    using assms(2) by (auto simp: RevertToSnapshot_def Let_def split: if_splits)
  moreover have "?i \<le> length (validRevisions s)"
  proof -
    have "rev_id (validRevisions s ! a) \<le> rev_id (validRevisions s ! b)" if "a \<le> b" "b < length (validRevisions s)" for a b
      using assms(1) that sorted_wrt_nth_less [of "(<)" "map rev_id (validRevisions s)" a b]
      by (cases "a = b") (auto simp: wf_revisions_def)
    then show ?thesis
      using sortSearch_spec [of 0 "length (validRevisions s)" "\<lambda>i. rev_id (validRevisions s ! i) \<ge> k"] by fastforce
  qed
  ultimately have "?i < length (validRevisions s)" by simp
  from that [OF id_take_nth_drop [OF this] id] show thesis .
qed

lemma open_Revert:
  assumes "snapshot_open C cmt s0 s" and rv: "RevertToSnapshot k s = Inr s1" and newer: "nextRevisionId s0 < k"
  shows "snapshot_open C cmt s0 s1"
proof -
  let ?r0 = "\<lparr>rev_id = nextRevisionId s0, rev_journalIndex = length (journal s0)\<rparr>"
  from assms(1) obtain es t ys where 1: "journal s = journal s0 @ es" "\<forall>e\<in>set es. entry_ok e" "fold_res undo (rev es) s = Inr t"
    "agree C cmt t s0" "validRevisions s = validRevisions s0 @ ?r0 # ys" and wf: "wf_objects s" "wf_revisions s"
    by (auto simp: snapshot_open_def)
  obtain xs r zs where r: "validRevisions s = xs @ r # zs" "rev_id r = k" by (rule RevertToSnapshot_found [OF wf(2) rv])
  have sorted: "sorted_wrt (<) (map rev_id (validRevisions s))" "sorted (map rev_journalIndex (validRevisions s))"
    using wf(2) by (simp_all add: wf_revisions_def)
  have "r \<in> set (validRevisions s)" unfolding r(1) by simp
  moreover have "rev_id x < nextRevisionId s0" if "x \<in> set (validRevisions s0)" for x
    using sorted(1) that unfolding 1(5) by (simp add: sorted_wrt_append)
  ultimately have "r \<in> set ys" using r(2) newer unfolding 1(5) by force
  then obtain ys1 ys2 where ys: "ys = ys1 @ r # ys2" by (meson split_list)
  define n where "n = rev_journalIndex r - length (journal s0)"
  have le: "length (journal s0) \<le> rev_journalIndex r"
    using sorted(2) unfolding 1(5) ys by (simp add: sorted_append)
  then have drop_n: "drop (rev_journalIndex r) (journal s) = drop n es" and take_n: "take (rev_journalIndex r) (journal s) = journal s0 @ take n es"
    unfolding 1(1) n_def by simp_all
  have n: "n \<le> length es"
    using wf(2) le unfolding wf_revisions_def 1(5) ys 1(1) n_def by auto
  have eq: "validRevisions s = (validRevisions s0 @ ?r0 # ys1) @ r # ys2" using 1(5) ys by simp
  from rv obtain u where u: "fold_res undo (rev (drop n es)) s = Inr u"
    and s1: "s1 = u\<lparr>journal := take (rev_journalIndex r) (journal u), validRevisions := take (length (validRevisions s0 @ ?r0 # ys1)) (validRevisions u)\<rparr>"
    unfolding r(2) [symmetric] RevertToSnapshot_eq [OF wf(2) eq] drop_n by (auto simp: bind_res_Inr_iff)
  note keeps = undo_all_keeps [OF u]
  have rev: "rev es = rev (drop n es) @ rev (take n es)" unfolding rev_append [symmetric] by simp
  have ut: "fold_res undo (rev (take n es)) u = Inr t"
    using 1(3) u unfolding rev fold_res_append by simp
  have "agree C cmt s s" using wf(1) by (simp add: agree_def)
  from undo_all_agree [OF this _ u] 1(2) have "wf_objects u" by (auto simp: agree_def dest: in_set_dropD)
  then have us1: "agree C cmt u s1" by (simp add: s1 agree_def same_def GetLogs_def)
  from undo_all_agree [OF us1 _ ut] 1(2) obtain t' where t': "fold_res undo (rev (take n es)) s1 = Inr t'" "agree C cmt t t'"
    by (auto dest: in_set_takeD)
  have j1: "journal s1 = journal s0 @ take n es" using keeps take_n by (simp add: s1)
  have v1: "validRevisions s1 = validRevisions s0 @ ?r0 # ys1" using keeps eq by (simp add: s1)
  have "wf_revisions s1"
  proof -
    have "length (journal s1) = rev_journalIndex r" using j1 n le by (simp add: n_def)
    then show ?thesis using wf(2) keeps unfolding wf_revisions_def v1 eq
      by (auto simp: s1 sorted_wrt_append sorted_append)
  qed
  moreover have "agree C cmt t' s0" using agree_trans [OF agree_sym [OF t'(2)] 1(4)] .
  ultimately show ?thesis using 1(2) t'(1) j1 v1 us1 unfolding snapshot_open_def
    by (intro conjI exI [of _ "take n es"] exI [of _ t'] exI [of _ ys1]) (auto simp: agree_def dest: in_set_takeD)
qed

lemma open_applyOp:
  assumes "snapshot_open C cmt s0 s" and "applyOp C op s = Inr s1" and "\<And>k. op = OpRevert k \<Longrightarrow> nextRevisionId s0 < k"
    and "cmt \<Longrightarrow> \<forall>a v. op \<noteq> OpSetCMT a v"
  shows "snapshot_open C cmt s0 s1"
proof (cases "op = OpSnapshot \<or> (\<exists>k. op = OpRevert k)")
  case True
  then show ?thesis using assms open_Snapshot open_Revert by auto
next
  case False
  then show ?thesis using open_undone [OF assms(1) undone_applyOp [OF assms(2)]] assms(4) by blast
qed


text \<open>Reverting to the open revision restores what a caller sees.\<close>

lemma open_reverts:
  assumes "snapshot_open C cmt s0 s"
  shows "\<exists>s1. RevertToSnapshot (nextRevisionId s0) s = Inr s1 \<and> agree C cmt s1 s0 \<and> good_state s1 \<and>
    journal s1 = journal s0 \<and> validRevisions s1 = validRevisions s0"
proof -
  let ?r0 = "\<lparr>rev_id = nextRevisionId s0, rev_journalIndex = length (journal s0)\<rparr>"
  from assms obtain es t ys where 1: "journal s = journal s0 @ es" "fold_res undo (rev es) s = Inr t" "agree C cmt t s0"
    "validRevisions s = validRevisions s0 @ ?r0 # ys" and wf: "wf_revisions s" by (auto simp: snapshot_open_def)
  let ?s1 = "t\<lparr>journal := journal s0, validRevisions := validRevisions s0\<rparr>"
  have "RevertToSnapshot (nextRevisionId s0) s = Inr ?s1"
    using RevertToSnapshot_eq [OF wf 1(4)] 1 undo_all_keeps [OF 1(2)] by simp
  moreover have "agree C cmt ?s1 s0" using 1(3) by (simp add: agree_def same_def GetLogs_def)
  moreover have "wf_revisions ?s1"
    using wf undo_all_keeps [OF 1(2)] unfolding wf_revisions_def 1(4) by (auto simp: sorted_wrt_append sorted_append)
  ultimately show ?thesis by (auto simp: agree_def good_state_def)
qed

section \<open>The contract of snapshots\<close>

text \<open>
  What a client of a revertible state relies on: a snapshot is pending after it is taken, it stays
  pending under the steps of the client, and a pending snapshot can be reverted to, which gives
  back a good state like the one in which it was taken.
\<close>

locale revertible =
  fixes good :: "'s \<Rightarrow> bool" and pending :: "'s \<Rightarrow> 's \<Rightarrow> bool" and like :: "'s \<Rightarrow> 's \<Rightarrow> bool"
    and snapshot :: "'s \<Rightarrow> 'r \<times> 's" and revert :: "'r \<Rightarrow> 's \<Rightarrow> 's res" and step :: "'r \<Rightarrow> 's \<Rightarrow> 's \<Rightarrow> bool"
  assumes snapshot_pending: "good s \<Longrightarrow> pending s (snd (snapshot s))"
    and step_pending: "pending s0 s \<Longrightarrow> step (fst (snapshot s0)) s s1 \<Longrightarrow> pending s0 s1"
    and revert_like: "pending s0 s \<Longrightarrow> \<exists>s1. revert (fst (snapshot s0)) s = Inr s1 \<and> like s1 s0 \<and> good s1"
begin

lemma steps_pending: "pending s0 s \<Longrightarrow> (step (fst (snapshot s0)))\<^sup>*\<^sup>* s s1 \<Longrightarrow> pending s0 s1"
  by (rotate_tac, induction rule: rtranclp_induct) (auto intro: step_pending)

lemma steps_revert:
  assumes "good s0" and "(step (fst (snapshot s0)))\<^sup>*\<^sup>* (snd (snapshot s0)) s"
  shows "\<exists>s1. revert (fst (snapshot s0)) s = Inr s1 \<and> like s1 s0 \<and> good s1"
  using revert_like [OF steps_pending [OF snapshot_pending [OF assms(1)] assms(2)]] .

end

text \<open>
  The steps of a client of the journal that took revision \<open>r\<close>: operations of the state that do not
  revert to \<open>r\<close> or an earlier revision, and that set no commitment when commitments are observed.
\<close>

definition client_op :: "bool \<Rightarrow> nat \<Rightarrow> stateOp \<Rightarrow> bool" where
  "client_op cmt r op \<longleftrightarrow> (case op of OpRevert k \<Rightarrow> r < k | OpSetCMT a v \<Rightarrow> \<not> cmt | _ \<Rightarrow> True)"

definition client_step :: "chainDb \<Rightarrow> bool \<Rightarrow> nat \<Rightarrow> StateDB \<Rightarrow> StateDB \<Rightarrow> bool" where
  "client_step C cmt r s s1 \<longleftrightarrow> undone C cmt s s1 \<or> (\<exists>op. applyOp C op s = Inr s1 \<and> client_op cmt r op)"

interpretation jr: revertible good_state "snapshot_open C cmt" "agree C cmt" Snapshot RevertToSnapshot "client_step C cmt"
proof
  fix s s0 s1
  show "good_state s \<Longrightarrow> snapshot_open C cmt s (snd (Snapshot s))" by (rule snapshot_opens)
  show "snapshot_open C cmt s0 s1" if o: "snapshot_open C cmt s0 s" and "client_step C cmt (fst (Snapshot s0)) s s1"
  proof -
    from that(2) consider "undone C cmt s s1" | op where "applyOp C op s = Inr s1" "client_op cmt (nextRevisionId s0) op"
      by (auto simp: client_step_def Snapshot_def)
    then show ?thesis
    proof cases
      case 2
      show ?thesis by (rule open_applyOp [OF o 2(1)]) (use 2(2) in \<open>auto simp: client_op_def split: stateOp.splits\<close>)
    qed (rule open_undone [OF o])
  qed
  show "snapshot_open C cmt s0 s \<Longrightarrow> \<exists>s1. RevertToSnapshot (fst (Snapshot s0)) s = Inr s1 \<and> agree C cmt s1 s0 \<and> good_state s1"
    using open_reverts by (fastforce simp: Snapshot_def)
qed

lemma applyOps_steps:
  "applyOps C ops s = Inr s1 \<Longrightarrow> list_all (client_op cmt r) ops \<Longrightarrow> (client_step C cmt r)\<^sup>*\<^sup>* s s1"
proof (induction ops arbitrary: s)
  case (Cons op ops)
  from Cons.prems(1) obtain u where u: "applyOp C op s = Inr u" "applyOps C ops u = Inr s1"
    by (auto simp: applyOps_def bind_res_Inr_iff)
  then have "client_step C cmt r s u" using Cons.prems(2) by (auto simp: client_step_def)
  with Cons.IH [OF u(2)] Cons.prems(2) show ?case by (auto intro: converse_rtranclp_into_rtranclp)
qed (simp add: applyOps_def)

end
