(* ===== verification/Zk_Evm.thy ===== *)
theory Zk_Evm
  imports Zk_Revert
begin

text \<open>
  Calls and contract creation of \<open>core/vm/evm.go\<close> with the transfer functions of \<open>core/evm.go\<close>.

  The byte code interpreter is a parameter: given a frame and the state it returns the operations
  on the state that the execution performs, in order, with the output, the gas left and
  the error. Nested calls are part of that sequence. Precompiled contracts are a parameter too:
  the gas they require and their output, \<open>None\<close> for an error.
\<close>

datatype vmerr = ErrOutOfGas | ErrDepth | ErrInsufficientBalance | ErrCodeStoreOutOfGas | ErrExecution

record frame =
  fr_caller :: address
  fr_self :: address
  fr_codeAddr :: address
  fr_code :: bytes
  fr_input :: bytes
  fr_gas :: u64
  fr_value :: int

record vmEnv =
  vm_db :: chainDb
  vm_precompiled :: "address \<Rightarrow> (bytes \<Rightarrow> u64 \<times> bytes option) option"
  vm_interpret :: "frame \<Rightarrow> StateDB \<Rightarrow> stateOp list \<times> bytes \<times> u64 \<times> vmerr option"
  vm_CreateAddress :: "address \<Rightarrow> u64 \<Rightarrow> address"
  vm_IsEIP158 :: bool
  vm_IsHomestead :: bool
  vm_NoRecursion :: bool
  vm_Coinbase :: address

definition CallCreateDepth :: int where "CallCreateDepth = 1024"
definition MaxCodeSize :: nat where "MaxCodeSize = 24576"
definition CreateDataGas :: u64 where "CreateDataGas = 200"

definition CanTransfer :: "address \<Rightarrow> int \<Rightarrow> StateDB \<Rightarrow> bool \<times> StateDB" where
  "CanTransfer a amount s = (let (b, s) = GetBalance a s in (b \<ge> amount, s))"

definition Transfer :: "chainDb \<Rightarrow> address \<Rightarrow> address \<Rightarrow> int \<Rightarrow> StateDB \<Rightarrow> StateDB" where
  "Transfer C sender recipient amount s = AddBalance C recipient amount (SubBalance C sender amount s)"

text \<open>\<open>run\<close>: precompiled contracts, and the interpreter, which returns at once when there is no code.\<close>

definition run :: "vmEnv \<Rightarrow> frame \<Rightarrow> StateDB \<Rightarrow> (bytes \<times> u64 \<times> vmerr option \<times> StateDB) res" where
  "run V fr s = (case vm_precompiled V (fr_codeAddr fr) of
     Some p \<Rightarrow>
      let (required, out) = p (fr_input fr) in
      if fr_gas fr < required then Inr ([], fr_gas fr, Some ErrOutOfGas, s)
      else (case out of None \<Rightarrow> Inr ([], fr_gas fr - required, Some ErrExecution, s)
            | Some ret \<Rightarrow> Inr (ret, fr_gas fr - required, None, s))
   | None \<Rightarrow>
      if fr_code fr = [] then Inr ([], fr_gas fr, None, s)
      else let (ops, ret, gas, err) = vm_interpret V fr s
        in bind_res (applyOps (vm_db V) ops s) (\<lambda>s. Inr (ret, gas, err, s)))"

definition Call :: "vmEnv \<Rightarrow> int \<Rightarrow> address \<Rightarrow> address \<Rightarrow> bytes \<Rightarrow> u64 \<Rightarrow> int \<Rightarrow> StateDB \<Rightarrow> (bytes \<times> u64 \<times> vmerr option \<times> StateDB) res" where
  "Call V depth caller addr input gas value s =
     (if vm_NoRecursion V \<and> depth > 0 then Inr ([], gas, None, s)
      else if depth > CallCreateDepth then Inr ([], gas, Some ErrDepth, s)
      else
        let (can, s) = CanTransfer caller value s in
        if \<not> can then Inr ([], gas, Some ErrInsufficientBalance, s)
        else
          let (snapshot, s) = Snapshot s; (exist, s) = Exist addr s in
          if \<not> exist \<and> vm_precompiled V addr = None \<and> vm_IsEIP158 V \<and> value = 0 then Inr ([], gas, None, s)
          else
            let s = (if exist then s else CreateAccount (vm_db V) addr s);
                s = Transfer (vm_db V) caller addr value s;
                (codeHash, s) = GetCodeHash addr s;
                (code, s) = GetCode (vm_db V) addr s;
                fr = \<lparr>fr_caller = caller, fr_self = addr, fr_codeAddr = addr, fr_code = (case code of None \<Rightarrow> [] | Some c \<Rightarrow> c),
                      fr_input = input, fr_gas = gas, fr_value = value\<rparr>
            in bind_res (run V fr s) (\<lambda>(ret, gas, err, s).
                 if err \<noteq> None then bind_res (RevertToSnapshot snapshot s) (\<lambda>s. Inr (ret, 0, err, s))
                 else Inr (ret, gas, err, s)))"

text \<open>
  \<open>CallCode\<close> runs the code of another account in the account of the caller; \<open>DelegateCall\<close> moreover keeps the
  caller and the value of the frame that it is called from. Neither transfers money.
\<close>

definition CallCode :: "vmEnv \<Rightarrow> int \<Rightarrow> address \<Rightarrow> address \<Rightarrow> bytes \<Rightarrow> u64 \<Rightarrow> int \<Rightarrow> StateDB \<Rightarrow> (bytes \<times> u64 \<times> vmerr option \<times> StateDB) res" where
  "CallCode V depth caller addr input gas value s =
     (if vm_NoRecursion V \<and> depth > 0 then Inr ([], gas, None, s)
      else if depth > CallCreateDepth then Inr ([], gas, Some ErrDepth, s)
      else
        let (can, s) = CanTransfer caller value s in
        if \<not> can then Inr ([], gas, Some ErrInsufficientBalance, s)
        else
          let (snapshot, s) = Snapshot s;
              (codeHash, s) = GetCodeHash addr s;
              (code, s) = GetCode (vm_db V) addr s;
              fr = \<lparr>fr_caller = caller, fr_self = caller, fr_codeAddr = addr, fr_code = (case code of None \<Rightarrow> [] | Some c \<Rightarrow> c),
                    fr_input = input, fr_gas = gas, fr_value = value\<rparr>
          in bind_res (run V fr s) (\<lambda>(ret, gas, err, s).
               if err \<noteq> None then bind_res (RevertToSnapshot snapshot s) (\<lambda>s. Inr (ret, 0, err, s))
               else Inr (ret, gas, err, s)))"

definition DelegateCall :: "vmEnv \<Rightarrow> int \<Rightarrow> frame \<Rightarrow> address \<Rightarrow> bytes \<Rightarrow> u64 \<Rightarrow> StateDB \<Rightarrow> (bytes \<times> u64 \<times> vmerr option \<times> StateDB) res" where
  "DelegateCall V depth parent addr input gas s =
     (if vm_NoRecursion V \<and> depth > 0 then Inr ([], gas, None, s)
      else if depth > CallCreateDepth then Inr ([], gas, Some ErrDepth, s)
      else
        let (snapshot, s) = Snapshot s;
            (codeHash, s) = GetCodeHash addr s;
            (code, s) = GetCode (vm_db V) addr s;
            fr = \<lparr>fr_caller = fr_caller parent, fr_self = fr_self parent, fr_codeAddr = addr, fr_code = (case code of None \<Rightarrow> [] | Some c \<Rightarrow> c),
                  fr_input = input, fr_gas = gas, fr_value = fr_value parent\<rparr>
        in bind_res (run V fr s) (\<lambda>(ret, gas, err, s).
             if err \<noteq> None then bind_res (RevertToSnapshot snapshot s) (\<lambda>s. Inr (ret, 0, err, s))
             else Inr (ret, gas, err, s)))"

text \<open>
  \<open>Create\<close>. The code that is stored is the output; an empty output stores no code.
\<close>

definition storeCode :: "vmEnv \<Rightarrow> address \<Rightarrow> bytes \<times> u64 \<times> vmerr option \<times> StateDB \<Rightarrow> bytes \<times> u64 \<times> vmerr option \<times> StateDB" where
  "storeCode V contractAddr = (\<lambda>(ret, gas, err, s).
     if err = None \<and> length ret \<le> MaxCodeSize
     then let createDataGas = of_nat (length ret) * CreateDataGas in
       if gas < createDataGas then (ret, gas, Some ErrCodeStoreOutOfGas, s)
       else (ret, gas - createDataGas, None, SetCode (vm_db V) contractAddr (if ret = [] then None else Some ret) s)
     else (ret, gas, err, s))"

definition Create :: "vmEnv \<Rightarrow> int \<Rightarrow> address \<Rightarrow> bytes \<Rightarrow> u64 \<Rightarrow> int \<Rightarrow> StateDB \<Rightarrow> (bytes \<times> address \<times> u64 \<times> vmerr option \<times> StateDB) res" where
  "Create V depth caller code gas value s =
     (if vm_NoRecursion V \<and> depth > 0 then Inr ([], 0, gas, None, s)
      else if depth > CallCreateDepth then Inr ([], 0, gas, Some ErrDepth, s)
      else
        let (can, s) = CanTransfer caller value s in
        if \<not> can then Inr ([], 0, gas, Some ErrInsufficientBalance, s)
        else
          let (nonce, s) = GetNonce caller s;
              s = SetNonce (vm_db V) caller (nonce + 1) s;
              (snapshot, s) = Snapshot s;
              contractAddr = vm_CreateAddress V caller nonce;
              s = CreateAccount (vm_db V) contractAddr s;
              s = (if vm_IsEIP158 V then SetNonce (vm_db V) contractAddr 1 s else s);
              s = Transfer (vm_db V) caller contractAddr value s;
              fr = \<lparr>fr_caller = caller, fr_self = contractAddr, fr_codeAddr = contractAddr, fr_code = code,
                    fr_input = [], fr_gas = gas, fr_value = value\<rparr>
          in bind_res (run V fr s) (\<lambda>r.
               let (ret, gas, err, s) = storeCode V contractAddr r; exceeded = length ret > MaxCodeSize in
               bind_res (if exceeded \<or> (err \<noteq> None \<and> (vm_IsHomestead V \<or> err \<noteq> Some ErrCodeStoreOutOfGas))
                  then bind_res (RevertToSnapshot snapshot s) (\<lambda>s. Inr (0, s)) else Inr (gas, s)) (\<lambda>(gas, s).
                 Inr (if err \<noteq> None then [] else ret, contractAddr, gas, err, s))))"

end
