(* ===== verification/Zk_Transition.thy ===== *)
theory Zk_Transition
  imports Zk_Evm
begin

text \<open>
  State transitions: the gas pool (\<open>core/gaspool.go\<close>), messages, intrinsic gas and
  \<open>TransitionDb\<close> (\<open>core/state_transition.go\<close>).

  A core error is a value beside the gas pool and the state, because the state keeps the changes
  that were made before the error.
\<close>

datatype txerr =
    InvalidNonce | InsufficientBalanceForGas | ErrGasLimitReached | VmErr vmerr
  | SnUsed | InvalidConvertProof | InvalidRedeemProof | InvalidDepositProof | InvalidWithdrawProof
  | InconsistentFunds

definition TxConvert :: u32 where "TxConvert = 1"
definition TxRedeem :: u32 where "TxRedeem = 2"
definition TxDeposit :: u32 where "TxDeposit = 3"
definition TxWithdraw :: u32 where "TxWithdraw = 4"

lemmas tx_codes = TxConvert_def TxRedeem_def TxDeposit_def TxWithdraw_def

record Message =
  msg_From :: address
  msg_To :: "address option"
  msg_GasPrice :: int
  msg_Gas :: int
  msg_Value :: int
  msg_Nonce :: u64
  msg_CheckNonce :: bool
  msg_Data :: bytes
  msg_TxCode :: u32
  msg_CMT :: hash
  msg_ZKValue :: u64

definition TxGas :: int where "TxGas = 21000"
definition TxGasContractCreation :: int where "TxGasContractCreation = 53000"
definition TxDataZeroGas :: int where "TxDataZeroGas = 4"
definition TxDataNonZeroGas :: int where "TxDataNonZeroGas = 68"

definition IntrinsicGas :: "bytes \<Rightarrow> bool \<Rightarrow> bool \<Rightarrow> int" where
  "IntrinsicGas data contractCreation homestead =
     (let igas = (if contractCreation \<and> homestead then TxGasContractCreation else TxGas) in
      if length data > 0
      then let nz = count_if (\<lambda>b. b \<noteq> 0) data
        in igas + nz * TxDataNonZeroGas + (int (length data) - nz) * TxDataZeroGas
      else igas)"

text \<open>The gas pool of a block.\<close>

definition AddGas :: "int \<Rightarrow> int \<Rightarrow> int" where
  "AddGas amount gp = gp + amount"

definition SubGas :: "int \<Rightarrow> int \<Rightarrow> int option" where
  "SubGas amount gp = (if gp < amount then None else Some (gp - amount))"

text \<open>The transition: the gas pool, the gas that is left, the gas that was bought, the state.\<close>

record StateTransition =
  st_gp :: int
  st_gas :: u64
  st_initialGas :: int
  st_state :: StateDB

definition NewStateTransition :: "int \<Rightarrow> StateDB \<Rightarrow> StateTransition" where
  "NewStateTransition gp s = \<lparr>st_gp = gp, st_gas = 0, st_initialGas = 0, st_state = s\<rparr>"

text \<open>\<open>from\<close> and \<open>to\<close> create the account when it does not exist.\<close>

definition ensureAccount :: "chainDb \<Rightarrow> address \<Rightarrow> StateDB \<Rightarrow> StateDB" where
  "ensureAccount C a s = (let (ex, s) = Exist a s in if ex then s else CreateAccount C a s)"

definition useGas :: "u64 \<Rightarrow> StateTransition \<Rightarrow> StateTransition option" where
  "useGas amount st = (if st_gas st < amount then None else Some (st\<lparr>st_gas := st_gas st - amount\<rparr>))"

definition buyGas :: "chainDb \<Rightarrow> Message \<Rightarrow> StateTransition \<Rightarrow> (txerr option \<times> StateTransition)" where
  "buyGas C msg st =
     (let mgas = msg_Gas msg in
      if \<bar>mgas\<bar> \<ge> 2 ^ 64 then (Some (VmErr ErrOutOfGas), st)
      else
        let mgval = mgas * msg_GasPrice msg;
            s = ensureAccount C (msg_From msg) (st_state st);
            (bal, s) = GetBalance (msg_From msg) s;
            st = st\<lparr>st_state := s\<rparr>
        in if bal < mgval then (Some InsufficientBalanceForGas, st)
           else (case SubGas mgas (st_gp st) of
               None \<Rightarrow> (Some ErrGasLimitReached, st)
             | Some gp \<Rightarrow> (None, st\<lparr>st_gp := gp, st_gas := st_gas st + word_of_int \<bar>mgas\<bar>, st_initialGas := mgas,
                   st_state := SubBalance C (msg_From msg) mgval s\<rparr>)))"

definition preCheck :: "chainDb \<Rightarrow> Message \<Rightarrow> StateTransition \<Rightarrow> (txerr option \<times> StateTransition)" where
  "preCheck C msg st =
     (let s = ensureAccount C (msg_From msg) (st_state st);
          (n, s) = (if msg_CheckNonce msg then GetNonce (msg_From msg) s else (msg_Nonce msg, s));
          st = st\<lparr>st_state := s\<rparr>
      in if n \<noteq> msg_Nonce msg then (Some InvalidNonce, st) else buyGas C msg st)"

definition gasUsed :: "StateTransition \<Rightarrow> int" where
  "gasUsed st = st_initialGas st - uint (st_gas st)"

text \<open>
  \<open>refundGas\<close>. \<open>BigMin\<close> returns one of its arguments, not a copy: when the counter of the state is
  the smaller one, the multiplication by the price is done in the counter itself.
\<close>

definition refundGas :: "chainDb \<Rightarrow> Message \<Rightarrow> StateTransition \<Rightarrow> StateTransition" where
  "refundGas C msg st =
     (let sender = msg_From msg; price = msg_GasPrice msg;
          s = ensureAccount C sender (st_state st);
          s = AddBalance C sender (uint (st_gas st) * price) s;
          uhalf = gasUsed st div 2;
          back = (if uhalf > refund s then refund s else uhalf);
          s = (if uhalf > refund s then s\<lparr>refund := back * price\<rparr> else s);
          st = st\<lparr>st_gas := st_gas st + word_of_int \<bar>back\<bar>\<rparr>;
          s = AddBalance C sender (back * price) s
      in st\<lparr>st_gp := AddGas (uint (st_gas st)) (st_gp st), st_state := s\<rparr>)"

text \<open>The balance changes of the zero-knowledge transactions at the end of a transition.\<close>

definition zkBalance :: "chainDb \<Rightarrow> Message \<Rightarrow> StateDB \<Rightarrow> StateDB" where
  "zkBalance C msg s =
     (let v = sint (msg_ZKValue msg);
          s = (if msg_TxCode msg = TxConvert then SubBalance C (msg_From msg) v s else s);
          s = (if msg_TxCode msg = TxRedeem then AddBalance C (msg_From msg) v s else s)
      in if msg_TxCode msg = TxWithdraw then AddBalance C (msg_From msg) v s else s)"

text \<open>The call or creation in the middle of a transition, with the new commitment of the sender.\<close>

definition execMessage :: "vmEnv \<Rightarrow> Message \<Rightarrow> u64 \<Rightarrow> StateDB \<Rightarrow> (bytes \<times> u64 \<times> vmerr option \<times> StateDB) res" where
  "execMessage V msg gas s = (case msg_To msg of
     None \<Rightarrow> bind_res (Create V 0 (msg_From msg) (msg_Data msg) gas (msg_Value msg) s)
       (\<lambda>(ret, contractAddr, gas, err, s). Inr (ret, gas, err, s))
   | Some to \<Rightarrow>
      let (n, s) = GetNonce (msg_From msg) s;
          s = SetNonce (vm_db V) (msg_From msg) (n + 1) s;
          s = ensureAccount (vm_db V) to s
      in bind_res (Call V 0 (msg_From msg) to (msg_Data msg) gas (msg_Value msg) s) (\<lambda>(ret, gas, err, s).
           Inr (ret, gas, err, if msg_TxCode msg \<in> {TxConvert, TxRedeem, TxDeposit, TxWithdraw}
             then SetCMT (vm_db V) (msg_From msg) (msg_CMT msg) s else s)))"

text \<open>\<open>TransitionDb\<close>: an error, or the output, the required and the used gas.\<close>

definition TransitionDb :: "vmEnv \<Rightarrow> Message \<Rightarrow> StateTransition \<Rightarrow> ((txerr + (bytes \<times> int \<times> int)) \<times> StateTransition) res" where
  "TransitionDb V msg st =
     (let C = vm_db V; (err, st) = preCheck C msg st in
      case err of Some e \<Rightarrow> Inr (Inl e, st)
      | None \<Rightarrow>
        let st = st\<lparr>st_state := ensureAccount C (msg_From msg) (st_state st)\<rparr>;
            intrinsicGas = IntrinsicGas (msg_Data msg) (msg_To msg = None) (vm_IsHomestead V) in
        if \<bar>intrinsicGas\<bar> \<ge> 2 ^ 64 then Inr (Inl (VmErr ErrOutOfGas), st)
        else (case useGas (word_of_int intrinsicGas) st of
            None \<Rightarrow> Inr (Inl (VmErr ErrOutOfGas), st)
          | Some st \<Rightarrow> bind_res (execMessage V msg (st_gas st) (st_state st)) (\<lambda>(ret, gas, vmerr, s).
              let st = st\<lparr>st_gas := gas, st_state := s\<rparr> in
              if vmerr = Some ErrInsufficientBalance then Inr (Inl (VmErr ErrInsufficientBalance), st)
              else
                let requiredGas = gasUsed st;
                    st = refundGas C msg st;
                    s = AddBalance C (vm_Coinbase V) (gasUsed st * msg_GasPrice msg) (st_state st);
                    st = st\<lparr>st_state := zkBalance C msg s\<rparr>
                in Inr (Inr (ret, requiredGas, gasUsed st), st))))"

definition ApplyMessage :: "vmEnv \<Rightarrow> Message \<Rightarrow> int \<Rightarrow> StateDB \<Rightarrow> ((txerr + (bytes \<times> int)) \<times> int \<times> StateDB) res" where
  "ApplyMessage V msg gp s = bind_res (TransitionDb V msg (NewStateTransition gp s)) (\<lambda>(r, st).
     Inr (case r of Inl e \<Rightarrow> Inl e | Inr (ret, required, used) \<Rightarrow> Inr (ret, used), st_gp st, st_state st))"

end
