(* ===== verification/Zk_Processor.thy ===== *)
theory Zk_Processor
  imports Zk_Transition
begin

text \<open>
  Block processing: transactions (\<open>core/types/transaction.go\<close>), \<open>ApplyTransaction\<close> and \<open>Process\<close>
  (\<open>core/state_processor.go\<close>), the final step of the consensus engine (\<open>Finalize\<close> of
  \<open>consensus/pbft/pbft.go\<close>), and the miner's \<open>commitTransaction\<close> (\<open>miner/worker.go\<close>).

  The proof verifiers (a C++ library behind \<open>zktx/zktx.go\<close>), the hash of a transaction and the root
  hash of the account trie are parameters (\<open>zkEnv\<close>). The bloom filter of a receipt is computed from
  its logs and is left out.
\<close>

definition TxNormal :: u32 where "TxNormal = 0"
definition TxDhibe :: u32 where "TxDhibe = 1"
definition TxHeader :: u32 where "TxHeader = 2"
definition TxCrossChain :: u32 where "TxCrossChain = 3"
definition TxZK :: u32 where "TxZK = 4"

record Transaction =
  tx_TxCode :: u32
  tx_ZKCMTbal :: hash
  tx_ZKCMTfd :: hash
  tx_ZKValue :: u64
  tx_ZKSN :: hash
  tx_RootHash :: hash
  tx_ZKProof :: bytes
  tx_ZKEnc :: bytes
  tx_ZKIntEnc :: bytes
  tx_AccountNonce :: u64
  tx_TxType :: u32
  tx_Price :: int
  tx_GasLimit :: int
  tx_Sender :: "address option"
  tx_Recipient :: "address option"
  tx_Amount :: int
  tx_Payload :: bytes
  tx_Level :: u32
  tx_Headers :: "hash list"
  tx_ZKHeader :: hash
  tx_CrossTxProof :: "bytes list"
  tx_V :: int
  tx_R :: int
  tx_S :: int
  tx_CrossChainSender :: address
  tx_CrossChainRecipient :: address
  tx_HibeSig :: "bytes option"

record zkEnv =
  zk_vm :: vmEnv
  zk_txHash :: "Transaction \<Rightarrow> hash"
  zk_stateRoot :: "(address \<times> Account) list \<Rightarrow> hash"
  zk_verifyConvert :: "hash \<Rightarrow> hash \<Rightarrow> hash \<Rightarrow> u64 \<Rightarrow> bytes \<Rightarrow> bool"
  zk_verifyRedeem :: "hash \<Rightarrow> hash \<Rightarrow> hash \<Rightarrow> u64 \<Rightarrow> bytes \<Rightarrow> bool"
  zk_verifyDeposit :: "hash \<Rightarrow> hash \<Rightarrow> bytes \<Rightarrow> hash \<Rightarrow> hash \<Rightarrow> bool"
  zk_verifyWithdraw :: "address \<Rightarrow> hash \<Rightarrow> hash \<Rightarrow> hash \<Rightarrow> hash \<Rightarrow> bytes \<Rightarrow> bool"

definition zk_db :: "zkEnv \<Rightarrow> chainDb" where
  "zk_db Z = vm_db (zk_vm Z)"

text \<open>\<open>AsMessage\<close> dereferences the sender of the transaction; the signer is not used.\<close>

definition AsMessage :: "Transaction \<Rightarrow> Message res" where
  "AsMessage tx = (case tx_Sender tx of
     None \<Rightarrow> Inl (Panic ''nil Sender'')
   | Some a \<Rightarrow> Inr \<lparr>msg_From = a, msg_To = tx_Recipient tx, msg_GasPrice = tx_Price tx, msg_Gas = tx_GasLimit tx,
       msg_Value = tx_Amount tx, msg_Nonce = tx_AccountNonce tx, msg_CheckNonce = True, msg_Data = tx_Payload tx,
       msg_TxCode = tx_TxCode tx, msg_CMT = tx_ZKCMTbal tx, msg_ZKValue = tx_ZKValue tx\<rparr>)"

text \<open>\<open>BytesToAddress\<close> of a hash keeps the last 20 bytes.\<close>

definition snAddress :: "hash \<Rightarrow> address" where
  "snAddress sn = ucast sn"

text \<open>The proof that belongs to the code of a transaction, checked against the sender's commitment.\<close>

definition verifyProof :: "zkEnv \<Rightarrow> address \<Rightarrow> hash \<Rightarrow> Transaction \<Rightarrow> txerr option" where
  "verifyProof Z from cmtbalance tx =
     (if tx_TxCode tx = TxConvert
      then if zk_verifyConvert Z cmtbalance (tx_ZKSN tx) (tx_ZKCMTbal tx) (tx_ZKValue tx) (tx_ZKProof tx) then None else Some InvalidConvertProof
      else if tx_TxCode tx = TxRedeem
      then if zk_verifyRedeem Z cmtbalance (tx_ZKSN tx) (tx_ZKCMTbal tx) (tx_ZKValue tx) (tx_ZKProof tx) then None else Some InvalidRedeemProof
      else if tx_TxCode tx = TxDeposit
      then if zk_verifyDeposit Z (tx_ZKSN tx) (tx_ZKCMTfd tx) (tx_ZKProof tx) cmtbalance (tx_ZKCMTbal tx) then None else Some InvalidDepositProof
      else if zk_verifyWithdraw Z from (tx_ZKHeader tx) cmtbalance (tx_ZKSN tx) (tx_ZKCMTbal tx) (tx_ZKProof tx) then None
        else Some InvalidWithdrawProof)"

text \<open>The part of \<open>ApplyTransaction\<close> before the message is applied: serial number and proof.\<close>

definition checkZK :: "zkEnv \<Rightarrow> address \<Rightarrow> Transaction \<Rightarrow> StateDB \<Rightarrow> txerr option \<times> StateDB" where
  "checkZK Z from tx s =
     (if tx_TxType tx = TxZK \<and> tx_TxCode tx \<in> {TxConvert, TxRedeem, TxDeposit, TxWithdraw}
      then let (exist, s) = Exist (snAddress (tx_ZKSN tx)) s in
        if exist \<and> tx_ZKSN tx \<noteq> 0 then (Some SnUsed, s)
        else let (cmtbalance, s) = GetCMTBalance from s in
          case verifyProof Z from cmtbalance tx of Some e \<Rightarrow> (Some e, s)
          | None \<Rightarrow> (None, SetNonce (zk_db Z) (snAddress (tx_ZKSN tx)) 1 (CreateAccount (zk_db Z) (snAddress (tx_ZKSN tx)) s))
      else (None, s))"

record Receipt =
  rc_PostState :: hash
  rc_CumulativeGasUsed :: int
  rc_Logs :: "Log list"
  rc_TxHash :: hash
  rc_ContractAddress :: "address option"
  rc_GasUsed :: int

definition ApplyTransaction :: "zkEnv \<Rightarrow> Transaction \<Rightarrow> int \<Rightarrow> int \<Rightarrow> StateDB \<Rightarrow> ((txerr + Receipt) \<times> int \<times> int \<times> StateDB) res" where
  "ApplyTransaction Z tx gp usedGas s = bind_res (AsMessage tx) (\<lambda>msg.
     let (err, s) = checkZK Z (msg_From msg) tx s in
     case err of Some e \<Rightarrow> Inr (Inl e, gp, usedGas, s)
     | None \<Rightarrow> bind_res (ApplyMessage (zk_vm Z) msg gp s) (\<lambda>(r, gp, s).
         case r of Inl e \<Rightarrow> Inr (Inl e, gp, usedGas, s)
         | Inr (ret, gas) \<Rightarrow> bind_res (IntermediateRoot (zk_db Z) (vm_IsEIP158 (zk_vm Z)) s) (\<lambda>s.
             Inr (Inr \<lparr>rc_PostState = zk_stateRoot Z (sdb_trie s), rc_CumulativeGasUsed = usedGas + gas,
                 rc_Logs = GetLogs (zk_txHash Z tx) s, rc_TxHash = zk_txHash Z tx,
                 rc_ContractAddress = (if msg_To msg = None then Some (vm_CreateAddress (zk_vm Z) (msg_From msg) (tx_AccountNonce tx)) else None),
                 rc_GasUsed = gas\<rparr>, gp, usedGas + gas, s))))"

section \<open>Blocks\<close>

record Block =
  b_Hash :: hash
  b_Transactions :: "Transaction list"
  b_GasLimit :: int
  b_ZKFunds :: "hash list"

text \<open>The state of the loop of \<open>Process\<close>.\<close>

record processing =
  pr_index :: nat
  pr_gp :: int
  pr_usedGas :: int
  pr_receipts :: "Receipt list"
  pr_funds :: "hash list"
  pr_state :: StateDB

fun processTxs :: "zkEnv \<Rightarrow> Block \<Rightarrow> Transaction list \<Rightarrow> processing \<Rightarrow> (txerr + processing) res" where
  "processTxs Z block [] p = Inr (Inr p)"
| "processTxs Z block (tx # txs) p =
     bind_res (ApplyTransaction Z tx (pr_gp p) (pr_usedGas p) (sdb_Prepare (zk_txHash Z tx) (b_Hash block) (pr_index p) (pr_state p)))
       (\<lambda>(r, gp, used, s). case r of Inl e \<Rightarrow> Inr (Inl e)
        | Inr receipt \<Rightarrow> processTxs Z block txs \<lparr>pr_index = Suc (pr_index p), pr_gp = gp, pr_usedGas = used,
            pr_receipts = pr_receipts p @ [receipt],
            pr_funds = pr_funds p @ (if tx_TxCode tx = TxDeposit then [tx_ZKCMTfd tx] else []), pr_state = s\<rparr>)"

text \<open>
  \<open>Process\<close>, for a chain without the DAO fork. A difference in the contents of the funds is printed
  and nothing else. \<open>Finalize\<close> of the consensus engine writes the state to the trie once more.
\<close>

definition Process :: "zkEnv \<Rightarrow> Block \<Rightarrow> StateDB \<Rightarrow> (txerr + (Receipt list \<times> Log list \<times> int \<times> StateDB)) res" where
  "Process Z block s =
     bind_res (processTxs Z block (b_Transactions block)
        \<lparr>pr_index = 0, pr_gp = AddGas (b_GasLimit block) 0, pr_usedGas = 0, pr_receipts = [], pr_funds = [], pr_state = s\<rparr>) (\<lambda>r.
       case r of Inl e \<Rightarrow> Inr (Inl e)
       | Inr p \<Rightarrow>
          if length (pr_funds p) \<noteq> length (b_ZKFunds block) then Inr (Inl InconsistentFunds)
          else bind_res (IntermediateRoot (zk_db Z) (vm_IsEIP158 (zk_vm Z)) (pr_state p)) (\<lambda>s.
            Inr (Inr (pr_receipts p, concat (map rc_Logs (pr_receipts p)), pr_usedGas p, s))))"

section \<open>The miner\<close>

record Work =
  w_state :: StateDB
  w_txs :: "Transaction list"
  w_receipts :: "Receipt list"
  w_zkfunds :: "hash list"
  w_gasUsed :: int

definition commitTransaction :: "zkEnv \<Rightarrow> Transaction \<Rightarrow> int \<Rightarrow> Work \<Rightarrow> (txerr option \<times> Log list \<times> int \<times> Work) res" where
  "commitTransaction Z tx gp w =
     (let (snap, s) = Snapshot (w_state w) in
      bind_res (ApplyTransaction Z tx gp (w_gasUsed w) s) (\<lambda>(r, gp, used, s).
        let w = w\<lparr>w_state := s, w_gasUsed := used\<rparr> in
        case r of
          Inl e \<Rightarrow> bind_res (RevertToSnapshot snap s) (\<lambda>s. Inr (Some e, [], gp, w\<lparr>w_state := s\<rparr>))
        | Inr receipt \<Rightarrow> Inr (None, rc_Logs receipt, gp, w\<lparr>w_txs := w_txs w @ [tx], w_receipts := w_receipts w @ [receipt],
            w_zkfunds := (if tx_TxCode tx = TxDeposit then w_zkfunds w @ [tx_ZKCMTfd tx] else w_zkfunds w)\<rparr>)))"

end
