(* ===== verification/Zk_Paths.thy ===== *)
theory Zk_Paths
  imports Zk_Processor
begin

text \<open>
  The paths through calls, creations, messages and transitions: what an execution that returns
  has gone through. The theories about balances, gas and serial numbers share these cases.
\<close>

text \<open>The state in which the code of a called account runs, from the state at the snapshot.\<close>

definition call_ready :: "vmEnv \<Rightarrow> address \<Rightarrow> address \<Rightarrow> int \<Rightarrow> StateDB \<Rightarrow> StateDB" where
  "call_ready V caller addr amount s =
     (let s = (if look s addr \<noteq> None then load addr s else CreateAccount (vm_db V) addr (load addr s));
          s = load addr (Transfer (vm_db V) caller addr amount s)
      in snd (GetCode (vm_db V) addr s))"

lemma Call_paths:
  assumes "Call V depth caller addr input gas amount s = Inr (ret, gas', err, t)"
  obtains "t = s" "gas' = gas" | "t = load caller s" "gas' = gas"
    | "t = load addr (snd (Snapshot (load caller s)))" "gas' = gas"
    | fr g u where "fr_gas fr = gas" "fr_caller fr = caller" "run V fr (call_ready V caller addr amount (snd (Snapshot (load caller s)))) = Inr (ret, g, err, u)"
        "err = None \<and> t = u \<and> gas' = g \<or> RevertToSnapshot (nextRevisionId (load caller s)) u = Inr t \<and> gas' = 0"
proof -
  let ?C = "vm_db V"
  define s1 where "s1 = load caller s"
  define s2 where "s2 = snd (Snapshot s1)"
  define s3 where "s3 = load addr s2"
  define s4 where "s4 = (if look s2 addr \<noteq> None then s3 else CreateAccount ?C addr s3)"
  obtain codeHash where s6: "GetCodeHash addr (Transfer ?C caller addr amount s4) = (codeHash, load addr (Transfer ?C caller addr amount s4))"
    by (simp add: GetCodeHash_def getStateObject_split Let_def)
  obtain code s7 where s7: "GetCode ?C addr (load addr (Transfer ?C caller addr amount s4)) = (code, s7)" by fastforce
  define fr where "fr = \<lparr>fr_caller = caller, fr_self = addr, fr_codeAddr = addr,
    fr_code = (case code of None \<Rightarrow> [] | Some c \<Rightarrow> c), fr_input = input, fr_gas = gas, fr_value = amount\<rparr>"
  have defs: "CanTransfer caller amount s = (fst (GetBalance caller s) \<ge> amount, s1)" "Snapshot s1 = (nextRevisionId s1, s2)"
    "Exist addr s2 = (look s2 addr \<noteq> None, s3)"
    by (simp_all add: CanTransfer_def GetBalance_def Exist_def getStateObject_split s1_def s2_def s3_def Snapshot_def Let_def)
  have s4_eq: "(if look s2 addr \<noteq> None then s3 else CreateAccount ?C addr s3) = s4" by (simp add: s4_def)
  have "t = s \<and> gas' = gas \<or> t = s1 \<and> gas' = gas \<or> t = s3 \<and> gas' = gas \<or>
      (\<exists>g u. run V fr s7 = Inr (ret, g, err, u) \<and> (err = None \<and> t = u \<and> gas' = g \<or> RevertToSnapshot (nextRevisionId s1) u = Inr t \<and> gas' = 0))"
    using assms unfolding Call_def defs Let_def prod.case s4_eq s6 s7 fr_def [symmetric]
    by (auto simp: bind_res_Inr_iff split: if_splits)
  moreover have "s7 = call_ready V caller addr amount s2" using s7 unfolding call_ready_def Let_def s3_def [symmetric] s4_eq by simp
  moreover have "fr_gas fr = gas" "fr_caller fr = caller" by (simp_all add: fr_def)
  ultimately show thesis using that unfolding s3_def s2_def s1_def by blast
qed

text \<open>The state in which the code of a creation runs, from the state at the snapshot.\<close>

definition create_ready :: "vmEnv \<Rightarrow> address \<Rightarrow> address \<Rightarrow> int \<Rightarrow> StateDB \<Rightarrow> StateDB" where
  "create_ready V caller a amount s =
     (let s = CreateAccount (vm_db V) a s; s = (if vm_IsEIP158 V then SetNonce (vm_db V) a 1 s else s)
      in Transfer (vm_db V) caller a amount s)"

definition create_base :: "vmEnv \<Rightarrow> address \<Rightarrow> StateDB \<Rightarrow> StateDB" where
  "create_base V caller s = SetNonce (vm_db V) caller (fst (GetNonce caller s) + 1) (load caller s)"

lemma GetNonce_load: "GetNonce a (load a s) = (fst (GetNonce a s), load a (load a s))"
  by (simp add: GetNonce_def getStateObject_split)

lemma load_load [simp]: "load a (load a s) = load a s"
  by (simp add: load_def getStateObject_def setStateObject_def Let_def split: option.split)

lemma Create_paths:
  assumes "Create V depth caller code gas amount s = Inr (ret, contractAddr, gas', err, t)"
  obtains "t = s" "gas' = gas" | "t = load caller s" "gas' = gas"
    | fr a r1 g1 e1 u1 r2 g2 u2 where "a = vm_CreateAddress V caller (fst (GetNonce caller s))" "fr_gas fr = gas" "fr_caller fr = caller"
        "run V fr (create_ready V caller a amount (snd (Snapshot (create_base V caller s)))) = Inr (r1, g1, e1, u1)"
        "storeCode V a (r1, g1, e1, u1) = (r2, g2, err, u2)"
        "t = u2 \<and> gas' = g2 \<or> RevertToSnapshot (nextRevisionId (create_base V caller s)) u2 = Inr t \<and> gas' = 0"
proof -
  let ?C = "vm_db V"
  define s1 where "s1 = create_base V caller s"
  define s2 where "s2 = snd (Snapshot s1)"
  define a where "a = vm_CreateAddress V caller (fst (GetNonce caller s))"
  define s5 where "s5 = create_ready V caller a amount s2"
  have s1_eq: "SetNonce ?C caller (fst (GetNonce caller s) + 1) (load caller (load caller s)) = s1"
    by (simp add: s1_def create_base_def)
  define fr where "fr = \<lparr>fr_caller = caller, fr_self = a, fr_codeAddr = a, fr_code = code, fr_input = [], fr_gas = gas, fr_value = amount\<rparr>"
  have defs: "CanTransfer caller amount s = (fst (GetBalance caller s) \<ge> amount, load caller s)" "Snapshot s1 = (nextRevisionId s1, s2)"
    by (simp_all add: CanTransfer_def GetBalance_def getStateObject_split s2_def Snapshot_def Let_def)
  have s5_eq: "Transfer ?C caller a amount (if vm_IsEIP158 V then SetNonce ?C a 1 (CreateAccount ?C a s2) else CreateAccount ?C a s2) = s5"
    by (simp add: s5_def create_ready_def)
  note unf = Create_def defs Let_def prod.case GetNonce_load s1_eq defs(2) a_def [symmetric] s5_eq fr_def [symmetric]
  show thesis
  proof (cases "run V fr s5")
    case (Inr q)
    obtain r1 g1 e1 u1 where q: "q = (r1, g1, e1, u1)" by (metis prod_cases4)
    obtain r2 g2 e2 u2 where st: "storeCode V a (r1, g1, e1, u1) = (r2, g2, e2, u2)" by (metis prod_cases4)
    have "t = s \<and> gas' = gas \<or> t = load caller s \<and> gas' = gas \<or>
        e2 = err \<and> (t = u2 \<and> gas' = g2 \<or> RevertToSnapshot (nextRevisionId s1) u2 = Inr t \<and> gas' = 0)"
      using assms unfolding unf Inr q bind_res_simps st by (auto simp: bind_res_Inr_iff split: if_splits)
    moreover have "fr_gas fr = gas" "fr_caller fr = caller" by (simp_all add: fr_def)
    ultimately show ?thesis using that(1,2) that(3) [OF a_def, of fr r1 g1 e1 u1 r2 g2 u2] Inr [unfolded q] st
      unfolding s5_def s2_def s1_def by blast
  next
    case (Inl e)
    show ?thesis using assms that unfolding unf Inl by (auto split: if_splits)
  qed
qed

lemma execMessage_paths:
  assumes "execMessage V msg gas s = Inr (ret, gas', err, t)"
  obtains a where "msg_To msg = None" "Create V 0 (msg_From msg) (msg_Data msg) gas (msg_Value msg) s = Inr (ret, a, gas', err, t)"
    | to u where "msg_To msg = Some to"
        "Call V 0 (msg_From msg) to (msg_Data msg) gas (msg_Value msg)
          (ensureAccount (vm_db V) to (create_base V (msg_From msg) s)) = Inr (ret, gas', err, u)"
        "t = u \<or> t = SetCMT (vm_db V) (msg_From msg) (msg_CMT msg) u"
proof (cases "msg_To msg")
  case None
  then show thesis using that(1) assms by (auto simp: execMessage_def bind_res_Inr_iff)
next
  case (Some to)
  have "GetNonce (msg_From msg) s = (fst (GetNonce (msg_From msg) s), load (msg_From msg) s)"
    by (simp add: GetNonce_def getStateObject_split Let_def)
  with Some show thesis using that(2) [OF Some] assms
    by (cases "GetNonce (msg_From msg) s") (auto simp: execMessage_def bind_res_Inr_iff create_base_def split: if_splits)
qed

text \<open>
  A transition that returns has bought gas, paid the intrinsic gas, run the message, and given back
  the gas that was left.
\<close>

lemma TransitionDb_paths:
  assumes "TransitionDb V msg (NewStateTransition gp s) = Inr (Inr (ret, required, used), st)"
  obtains st1 ig ret' gas' err u st2 where "preCheck (vm_db V) msg (NewStateTransition gp s) = (None, st1)" "ig \<le> st_gas st1"
    "execMessage V msg (st_gas st1 - ig) (ensureAccount (vm_db V) (msg_From msg) (st_state st1)) = Inr (ret', gas', err, u)"
    "st2 = refundGas (vm_db V) msg (st1\<lparr>st_gas := gas', st_state := u\<rparr>)"
    "st = st2\<lparr>st_state := zkBalance (vm_db V) msg (AddBalance (vm_db V) (vm_Coinbase V) (gasUsed st2 * msg_GasPrice msg) (st_state st2))\<rparr>"
    "used = gasUsed st"
proof -
  let ?C = "vm_db V"
  obtain st1 where p: "preCheck ?C msg (NewStateTransition gp s) = (None, st1)"
    using assms by (cases "preCheck ?C msg (NewStateTransition gp s)") (auto simp: TransitionDb_def Let_def split: option.splits)
  define ig where "ig = (word_of_int (IntrinsicGas (msg_Data msg) (msg_To msg = None) (vm_IsHomestead V)) :: u64)"
  from assms p obtain ret' gas' err u where "execMessage V msg (st_gas st1 - ig) (ensureAccount ?C (msg_From msg) (st_state st1)) = Inr (ret', gas', err, u)"
    and "ig \<le> st_gas st1"
    and "st = (let st = refundGas ?C msg (st1\<lparr>st_gas := gas', st_state := u\<rparr>)
        in st\<lparr>st_state := zkBalance ?C msg (AddBalance ?C (vm_Coinbase V) (gasUsed st * msg_GasPrice msg) (st_state st))\<rparr>)"
    and "used = gasUsed st"
    by (auto simp: TransitionDb_def useGas_def Let_def bind_res_Inr_iff ig_def not_less gasUsed_def split: if_splits option.splits prod.splits)
  then show thesis using that [OF p _ _ refl] by (simp add: Let_def)
qed

text \<open>The gas that was bought.\<close>

lemma preCheck_paths:
  assumes "preCheck C msg (NewStateTransition gp s) = (None, st)"
  obtains u where "u = ensureAccount C (msg_From msg) s \<or> u = load (msg_From msg) (ensureAccount C (msg_From msg) s)"
    "st = \<lparr>st_gp = gp - msg_Gas msg, st_gas = word_of_int \<bar>msg_Gas msg\<bar>, st_initialGas = msg_Gas msg,
       st_state = SubBalance C (msg_From msg) (msg_Gas msg * msg_GasPrice msg) (load (msg_From msg) (ensureAccount C (msg_From msg) u))\<rparr>"
    "\<bar>msg_Gas msg\<bar> < 2 ^ 64" "msg_Gas msg \<le> gp"
proof -

  define u where "u = (if msg_CheckNonce msg then load (msg_From msg) (ensureAccount C (msg_From msg) s) else ensureAccount C (msg_From msg) s)"
  have b: "buyGas C msg \<lparr>st_gp = gp, st_gas = 0, st_initialGas = 0, st_state = u\<rparr> = (None, st)"
    using assms unfolding preCheck_def NewStateTransition_def Let_def case_prod_unfold u_def
    by (auto simp: GetNonce_def getStateObject_split Let_def split: if_splits)
  have "st = \<lparr>st_gp = gp - msg_Gas msg, st_gas = word_of_int \<bar>msg_Gas msg\<bar>, st_initialGas = msg_Gas msg,
       st_state = SubBalance C (msg_From msg) (msg_Gas msg * msg_GasPrice msg) (load (msg_From msg) (ensureAccount C (msg_From msg) u))\<rparr>
    \<and> \<bar>msg_Gas msg\<bar> < 2 ^ 64 \<and> msg_Gas msg \<le> gp"
  proof -
    obtain bl where "GetBalance (msg_From msg) (ensureAccount C (msg_From msg) u) = (bl, load (msg_From msg) (ensureAccount C (msg_From msg) u))"
      by (simp add: GetBalance_def getStateObject_split Let_def)
    then show ?thesis using b unfolding buyGas_def Let_def SubGas_def by (auto simp: not_le split: if_splits)
  qed
  then show thesis using that [of u] by (auto simp: u_def)
qed

text \<open>A transaction that is applied, and the first transaction of a list.\<close>

lemma ApplyMessage_paths:
  assumes "ApplyMessage V msg gp s = Inr (Inr (ret, gas), gp', t)"
  obtains st required where "TransitionDb V msg (NewStateTransition gp s) = Inr (Inr (ret, required, gas), st)" "gp' = st_gp st" "t = st_state st"
proof -
  from assms obtain r st where r: "TransitionDb V msg (NewStateTransition gp s) = Inr (r, st)"
    by (auto simp: ApplyMessage_def bind_res_Inr_iff)
  then show thesis using assms that by (cases r) (auto simp: ApplyMessage_def)
qed

lemma ApplyTransaction_paths:
  assumes "ApplyTransaction Z tx gp used s = Inr (Inr receipt, gp', used', t)"
  obtains msg u ret gas v where "AsMessage tx = Inr msg" "checkZK Z (msg_From msg) tx s = (None, u)"
    "ApplyMessage (zk_vm Z) msg gp u = Inr (Inr (ret, gas), gp', v)"
    "IntermediateRoot (zk_db Z) (vm_IsEIP158 (zk_vm Z)) v = Inr t" "used' = used + gas" "rc_GasUsed receipt = gas" "rc_CumulativeGasUsed receipt = used'"
proof -
  from assms obtain msg where msg: "AsMessage tx = Inr msg" by (auto simp: ApplyTransaction_def bind_res_Inr_iff)
  obtain u where u: "checkZK Z (msg_From msg) tx s = (None, u)"
    using assms msg by (cases "checkZK Z (msg_From msg) tx s") (auto simp: ApplyTransaction_def split: option.splits)
  from assms msg u obtain r gp1 v where am: "ApplyMessage (zk_vm Z) msg gp u = Inr (r, gp1, v)"
    by (auto simp: ApplyTransaction_def bind_res_Inr_iff)
  show thesis
  proof (cases r)
    case (Inr q)
    obtain ret gas where q: "q = (ret, gas)" by fastforce
    show thesis using assms msg u am Inr q that [OF msg u, of ret gas v]
      by (auto simp: ApplyTransaction_def bind_res_Inr_iff)
  qed (use assms msg u am in \<open>simp add: ApplyTransaction_def\<close>)
qed

lemma processTxs_ConsE:
  assumes "processTxs Z block (tx # txs) p = Inr (Inr q)"
  obtains receipt gp used s where "ApplyTransaction Z tx (pr_gp p) (pr_usedGas p)
      (sdb_Prepare (zk_txHash Z tx) (b_Hash block) (pr_index p) (pr_state p)) = Inr (Inr receipt, gp, used, s)"
    "processTxs Z block txs \<lparr>pr_index = Suc (pr_index p), pr_gp = gp, pr_usedGas = used, pr_receipts = pr_receipts p @ [receipt],
       pr_funds = pr_funds p @ (if tx_TxCode tx = TxDeposit then [tx_ZKCMTfd tx] else []), pr_state = s\<rparr> = Inr (Inr q)"
proof -
  from assms obtain r gp used s where a: "ApplyTransaction Z tx (pr_gp p) (pr_usedGas p)
      (sdb_Prepare (zk_txHash Z tx) (b_Hash block) (pr_index p) (pr_state p)) = Inr (r, gp, used, s)"
    by (auto simp: bind_res_Inr_iff)
  then show thesis using assms that by (cases r) auto
qed

lemma Process_paths:
  assumes "Process Z block s = Inr (Inr (receipts, ls, used, t))"
  obtains p where "processTxs Z block (b_Transactions block)
        \<lparr>pr_index = 0, pr_gp = b_GasLimit block, pr_usedGas = 0, pr_receipts = [], pr_funds = [], pr_state = s\<rparr> = Inr (Inr p)"
    "length (pr_funds p) = length (b_ZKFunds block)" "IntermediateRoot (zk_db Z) (vm_IsEIP158 (zk_vm Z)) (pr_state p) = Inr t"
    "receipts = pr_receipts p" "used = pr_usedGas p"
proof -
  from assms obtain r where r: "processTxs Z block (b_Transactions block)
        \<lparr>pr_index = 0, pr_gp = b_GasLimit block, pr_usedGas = 0, pr_receipts = [], pr_funds = [], pr_state = s\<rparr> = Inr r"
    by (auto simp: Process_def AddGas_def bind_res_Inr_iff)
  then show thesis using assms that by (cases r) (auto simp: Process_def AddGas_def bind_res_Inr_iff split: if_splits)
qed

section \<open>The refund\<close>

text \<open>The gas that is given back lies between zero and the gas used, so that the sum does not wrap around.\<close>

lemma refundGas_paths:
  defines "s1 \<equiv> \<lambda>C msg st. AddBalance C (msg_From msg) (uint (st_gas st) * msg_GasPrice msg) (ensureAccount C (msg_From msg) (st_state st))"
  assumes r: "0 \<le> refund (s1 C msg st)" and le: "uint (st_gas st) \<le> st_initialGas st" "st_initialGas st < 2 ^ 64"
  obtains bk r' where "0 \<le> bk" "bk \<le> gasUsed st" "uint (st_gas (refundGas C msg st)) = uint (st_gas st) + bk"
    "st_initialGas (refundGas C msg st) = st_initialGas st" "st_gp (refundGas C msg st) = st_gp st + uint (st_gas (refundGas C msg st))"
    "st_state (refundGas C msg st) = AddBalance C (msg_From msg) (bk * msg_GasPrice msg) ((s1 C msg st)\<lparr>refund := r'\<rparr>)"
proof -
  let ?p = "msg_GasPrice msg" and ?a = "msg_From msg"
  define s where "s = AddBalance C ?a (uint (st_gas st) * ?p) (ensureAccount C ?a (st_state st))"
  define uhalf where "uhalf = gasUsed st div 2"
  define bk where "bk = (if uhalf > refund s then refund s else uhalf)"
  have b: "0 \<le> bk" "bk \<le> gasUsed st" using r le by (auto simp: bk_def uhalf_def gasUsed_def s1_def s_def)
  define s2 where "s2 = (if uhalf > refund s then s\<lparr>refund := bk * ?p\<rparr> else s)"
  have s2: "s2 = s\<lparr>refund := (if uhalf > refund s then bk * ?p else refund s)\<rparr>" by (simp add: s2_def)
  have st: "st_state (refundGas C msg st) = AddBalance C ?a (bk * ?p) s2" "st_gas (refundGas C msg st) = st_gas st + word_of_int bk"
    "st_initialGas (refundGas C msg st) = st_initialGas st" "st_gp (refundGas C msg st) = st_gp st + uint (st_gas st + word_of_int bk)"
    unfolding refundGas_def Let_def s_def [symmetric] uhalf_def [symmetric] bk_def [symmetric] s2_def [symmetric] AddGas_def
    using b by simp_all
  have "bk < 2 ^ 64" using b le uint_ge_0 [of "st_gas st"] unfolding gasUsed_def by linarith
  then have w: "uint (word_of_int bk :: u64) = bk" using b(1) by (simp add: uint_word_of_int_eq take_bit_int_eq_self)
  have "uint (st_gas st) + uint (word_of_int bk :: u64) < 2 ^ 64" unfolding w using b le by (simp add: gasUsed_def)
  then have "uint (st_gas st + word_of_int bk) = uint (st_gas st) + bk"
    using w uint_add_lem [of "st_gas st" "word_of_int bk"] by simp
  then show thesis using that [OF b] st s2 by (simp add: s1_def s_def)
qed

end
