(* ===== verification/Zk_Balance.thy ===== *)
theory Zk_Balance
  imports Zk_Paths
begin

text \<open>
  What the operations do to the balances, and that a transition neither creates nor destroys
  money, apart from what the zero-knowledge transactions move into and out of commitments and
  from what the byte code that it runs does itself.
\<close>

section \<open>Balances of the operations\<close>

definition bal :: "StateDB \<Rightarrow> address \<Rightarrow> int" where
  "bal s a = (case look s a of None \<Rightarrow> 0 | Some obj \<Rightarrow> acc_Balance (so_data obj))"

lemma bal_look: "look s = look t \<Longrightarrow> bal s = bal t"
  by (simp add: bal_def fun_eq_iff)

lemma bal_simps [simp]:
  "bal (load a s) = bal s" "bal (appendJournal e s) = bal s" "bal (MarkStateObjectDirty a s) = bal s"
  "bal (s\<lparr>refund := r\<rparr>) = bal s" "bal (s\<lparr>nextRevisionId := n, validRevisions := v\<rparr>) = bal s"
  by (rule bal_look; simp)+

lemma bal_setStateObject [simp]:
  "\<not> deleted obj \<Longrightarrow> bal (setStateObject obj s) = (bal s)(so_address obj := acc_Balance (so_data obj))"
  by (simp add: bal_def fun_eq_iff)

lemma bal_putDirty [simp]:
  "\<not> deleted obj \<Longrightarrow> bal (putDirty obj s) = (bal s)(so_address obj := acc_Balance (so_data obj))"
  by (simp add: bal_def fun_eq_iff)

lemma agree_bal: "agree C cmt s t \<Longrightarrow> bal s = bal t"
proof
  fix a assume "agree C cmt s t"
  from agree_look [OF this, of a] show "bal s a = bal t a"
    by (auto simp: bal_def viewOf_def)
qed

lemma agree_refund: "agree C cmt s t \<Longrightarrow> refund s = refund t"
  by (simp add: agree_def same_def)

text \<open>
  \<open>moved d s s1\<close>: a step that the journal undoes, that changes balances by \<open>d\<close>
  and leaves the refund counter.
\<close>

definition moved :: "chainDb \<Rightarrow> (address \<Rightarrow> int) \<Rightarrow> StateDB \<Rightarrow> StateDB \<Rightarrow> bool" where
  "moved C d s s1 \<longleftrightarrow> undone C False s s1 \<and> (wf_objects s \<longrightarrow> bal s1 = (\<lambda>a. bal s a + d a) \<and> refund s1 = refund s)"

abbreviation still :: "chainDb \<Rightarrow> StateDB \<Rightarrow> StateDB \<Rightarrow> bool" where
  "still C \<equiv> moved C (\<lambda>_. 0)"

lemma undone_wf: "undone C cmt s s1 \<Longrightarrow> wf_objects s \<Longrightarrow> wf_objects s1"
  by (simp add: undone_def)

lemma undone_good: "undone C cmt s s1 \<Longrightarrow> good_state s \<Longrightarrow> good_state s1"
  unfolding good_state_def undone_def by (auto intro: wf_revisions_grow)

lemma moved_trans: "moved C d s s1 \<Longrightarrow> moved C d' s1 s2 \<Longrightarrow> moved C (\<lambda>a. d a + d' a) s s2"
  unfolding moved_def by (auto intro: undone_trans undone_wf simp: undone_wf fun_eq_iff algebra_simps)

lemma still_trans: "still C s s1 \<Longrightarrow> moved C d s1 s2 \<Longrightarrow> moved C d s s2"
  using moved_trans [of C "\<lambda>_. 0" s s1 d s2] by simp

lemma moved_still: "moved C d s s1 \<Longrightarrow> still C s1 s2 \<Longrightarrow> moved C d s s2"
  using moved_trans [of C d s s1 "\<lambda>_. 0" s2] by simp

lemma still_load [simp]: "still C s (load a s)"
  by (simp add: moved_def undone_load)

lemma still_refl [simp]: "still C s s"
  by (simp add: moved_def)

lemma still_createObject:
  assumes "createObject C a s = (x, prev, s1)" and "look s a = None"
  shows "still C s s1"
proof -
  have "s1 = setStateObject ((newObject a (zeroAccount C))\<lparr>onDirty := False\<rparr>) (appendJournal (createObjectChange a) (MarkStateObjectDirty a (load a s)))"
    using assms by (auto simp: createObject_def getStateObject_split Let_def)
  moreover have "bal s a = 0" using assms(2) by (simp add: bal_def)
  ultimately show ?thesis using undone_createObject [OF assms(1)]
    by (auto simp: moved_def zeroAccount_def fun_eq_iff)
qed

lemma still_GetOrNew:
  assumes "GetOrNewStateObject C a s = (x, s1)"
  shows "still C s s1"
proof (cases "look s a")
  case None
  obtain y prev s' where c: "createObject C a (load a s) = (y, prev, s')" by (metis prod_cases3)
  then have "s1 = s'" using assms None by (simp add: GetOrNewStateObject_def getStateObject_split)
  then show ?thesis using still_trans [OF still_load still_createObject [OF c]] None by simp
next
  case (Some obj)
  then show ?thesis using assms by (auto simp: GetOrNewStateObject_def getStateObject_split)
qed

text \<open>An operation on the object of an address.\<close>

lemma moved_withObject:
  assumes "\<And>x s. look s a = Some x \<Longrightarrow> undone C False s (g x s)"
    and "\<And>x s. look s a = Some x \<Longrightarrow> wf_objects s \<Longrightarrow> so_address x = a \<Longrightarrow> \<not> deleted x \<Longrightarrow> bal (g x s) = (\<lambda>b. bal s b + d b) \<and> refund (g x s) = refund s"
  shows "moved C d s (withObject C a g s)"
proof -
  obtain x s1 where g: "GetOrNewStateObject C a s = (x, s1)" by fastforce
  have l: "look s1 a = Some x" using undone_GetOrNew [OF g] by blast
  have "moved C d s1 (g x s1)"
    using assms(1) [OF l] assms(2) [OF l] look_SomeD [OF l] by (auto simp: moved_def)
  from still_trans [OF still_GetOrNew [OF g] this] show ?thesis by (simp add: withObject_def g)
qed

lemma moved_AddBalance: "moved C (\<lambda>b. if b = a then v else 0) s (AddBalance C a v s)"
  unfolding AddBalance_def
  by (rule moved_withObject [OF undone_so_AddBalance])
    (auto simp: so_AddBalance_def so_SetBalance_def setBalance_def touch_def bal_def fun_eq_iff)

lemma moved_SubBalance: "moved C (\<lambda>b. if b = a then - v else 0) s (SubBalance C a v s)"
  unfolding SubBalance_def
  by (rule moved_withObject [OF undone_so_SubBalance])
    (auto simp: so_SubBalance_def so_SetBalance_def setBalance_def bal_def fun_eq_iff)

lemma still_SetNonce: "still C s (SetNonce C a v s)"
  unfolding SetNonce_def
  by (rule moved_withObject [OF undone_so_SetNonce]) (auto simp: so_SetNonce_def setNonce_def bal_def fun_eq_iff)

lemma still_SetCMT: "still C s (SetCMT C a v s)"
  unfolding SetCMT_def
  by (rule moved_withObject [OF undone_setCMT]) (auto simp: setCMT_def bal_def fun_eq_iff)

lemma still_SetCode: "still C s (SetCode C a v s)"
  unfolding SetCode_def
  by (rule moved_withObject [OF undone_so_SetCode])
    (auto simp: so_SetCode_def setCode_def bal_def fun_eq_iff Let_def case_prod_unfold)

lemma still_CreateAccount: "still C s (CreateAccount C a s)"
proof (cases "look s a")
  case None
  obtain y prev s' where c: "createObject C a s = (y, prev, s')" by (metis prod_cases3)
  then show ?thesis using still_createObject [OF c None] undone_createObject [OF c] None by (simp add: CreateAccount_def)
next
  case (Some p)
  then have "bal s a = acc_Balance (so_data p)" by (simp add: bal_def)
  then show ?thesis using Some undone_CreateAccount [of C False s a]
    by (auto simp: moved_def CreateAccount_def createObject_def getStateObject_split Let_def fun_eq_iff)
qed

lemma still_Exist: "still C s (snd (Exist a s))"
  by (simp add: Exist_def getStateObject_split Let_def)

lemma still_GetBalance: "still C s (snd (GetBalance a s))"
  by (simp add: GetBalance_def getStateObject_split Let_def)

lemma still_GetNonce: "still C s (snd (GetNonce a s))"
  by (simp add: GetNonce_def getStateObject_split Let_def)

lemma still_GetCodeHash: "still C s (snd (GetCodeHash a s))"
  by (simp add: GetCodeHash_def getStateObject_split Let_def)

lemma still_GetCode: "still C s (snd (GetCode C a s))"
proof (cases "look s a")
  case (Some obj)
  then have "bal s a = acc_Balance (so_data obj)" by (simp add: bal_def)
  then show ?thesis using Some undone_reads(2) [of C False s a] look_SomeD [OF Some]
    by (auto simp: moved_def GetCode_def getStateObject_split Let_def case_prod_unfold fun_eq_iff)
qed (simp add: GetCode_def getStateObject_split)

lemma still_ensureAccount: "still C s (ensureAccount C a s)"
  using still_trans [OF still_Exist still_CreateAccount] still_Exist
  by (auto simp: ensureAccount_def Let_def case_prod_unfold)

lemma moved_Transfer: "moved C (\<lambda>b. (if b = x then - v else 0) + (if b = y then v else 0)) s (Transfer C x y v s)"
  unfolding Transfer_def by (rule moved_trans [OF moved_SubBalance moved_AddBalance])

section \<open>The sum of the balances\<close>

definition totalBalance :: "StateDB \<Rightarrow> int" where
  "totalBalance s = (\<Sum>a\<in>UNIV. bal s a)"

lemma sum_moved: "moved C d s s1 \<Longrightarrow> wf_objects s \<Longrightarrow> totalBalance s1 = totalBalance s + (\<Sum>a\<in>UNIV. d a)"
  by (simp add: moved_def totalBalance_def sum.distrib)

lemma moved_undone: "moved C d s s1 \<Longrightarrow> undone C False s s1"
  by (simp add: moved_def)

section \<open>Calls and creations\<close>

text \<open>
  What the transition relies on of the byte code interpreter: it reverts only to revisions that
  it took itself, it returns no more gas than it was given, and its operations do not make the
  refund counter negative.
\<close>

definition interpreter_ok :: "vmEnv \<Rightarrow> bool" where
  "interpreter_ok V \<longleftrightarrow> (\<forall>fr s ops ret gas err. vm_interpret V fr s = (ops, ret, gas, err) \<longrightarrow>
     gas \<le> fr_gas fr \<and> list_all (\<lambda>op. case op of OpRevert k \<Rightarrow> nextRevisionId s \<le> k | _ \<Rightarrow> True) ops \<and>
     (\<forall>s'. good_state s \<and> 0 \<le> refund s \<and> applyOps (vm_db V) ops s = Inr s' \<longrightarrow> 0 \<le> refund s'))"

text \<open>
  By how much the operations of byte code that runs for a caller change the sum of the balances. Nothing is
  assumed of it: a contract that destroys itself and names itself as the heir makes it smaller.
\<close>

definition codeEffects :: "vmEnv \<Rightarrow> address \<Rightarrow> int set" where
  "codeEffects V caller = {totalBalance s' - totalBalance s | s s' fr ops ret gas err.
     fr_caller fr = caller \<and> fr_code fr \<noteq> [] \<and> vm_precompiled V (fr_codeAddr fr) = None \<and> good_state s \<and>
     vm_interpret V fr s = (ops, ret, gas, err) \<and> applyOps (vm_db V) ops s = Inr s'}"

text \<open>The sum of the balances changes by what such code changes, or not at all.\<close>

definition spent_by_code :: "vmEnv \<Rightarrow> address \<Rightarrow> int \<Rightarrow> bool" where
  "spent_by_code V caller d \<longleftrightarrow> d = 0 \<or> d \<in> codeEffects V caller"

lemma spent_by_code_0 [simp]: "spent_by_code V caller 0"
  by (simp add: spent_by_code_def)

lemma open_next: "snapshot_open C cmt s0 s \<Longrightarrow> nextRevisionId s0 < nextRevisionId s"
  by (auto simp: snapshot_open_def wf_revisions_def)

lemma open_good: "snapshot_open C cmt s0 s \<Longrightarrow> good_state s"
  by (simp add: snapshot_open_def good_state_def)

lemma run_ok:
  assumes V: "interpreter_ok V" and o: "snapshot_open (vm_db V) False s0 s" and r: "0 \<le> refund s"
    and run: "run V fr s = Inr (ret, gas, err, s')"
  shows "snapshot_open (vm_db V) False s0 s' \<and> spent_by_code V (fr_caller fr) (totalBalance s' - totalBalance s) \<and>
    gas \<le> fr_gas fr \<and> 0 \<le> refund s'"
proof (cases "vm_precompiled V (fr_codeAddr fr) = None \<and> fr_code fr \<noteq> []")
  case True
  obtain ops ret' gas' err' where i: "vm_interpret V fr s = (ops, ret', gas', err')" by (metis prod_cases4)
  with run True have a: "applyOps (vm_db V) ops s = Inr s'" "gas = gas'" by (auto simp: run_def bind_res_Inr_iff)
  from V i have k: "gas' \<le> fr_gas fr" "list_all (\<lambda>op. case op of OpRevert k \<Rightarrow> nextRevisionId s \<le> k | _ \<Rightarrow> True) ops"
    "0 \<le> refund s'"
    using a open_good [OF o] r unfolding interpreter_ok_def by blast+
  have "totalBalance s' - totalBalance s \<in> codeEffects V (fr_caller fr)"
    using True i a(1) open_good [OF o] unfolding codeEffects_def by blast
  then have c: "spent_by_code V (fr_caller fr) (totalBalance s' - totalBalance s)" by (simp add: spent_by_code_def)
  have "list_all (client_op False (fst (Snapshot s0))) ops"
    using k(2) open_next [OF o] by (auto simp: list_all_iff client_op_def Snapshot_def split: stateOp.splits)
  then have "snapshot_open (vm_db V) False s0 s'" using jr.steps_pending [OF o applyOps_steps [OF a(1)]] by blast
  with k a c show ?thesis by simp
next
  case False
  then have "s' = s \<and> gas \<le> fr_gas fr"
    using run by (auto simp: run_def word_sub_le Let_def split: option.splits prod.splits if_splits)
  then show ?thesis using o r by simp
qed

lemma sum_point [simp]: "(\<Sum>b\<in>UNIV. if b = a then v else 0) = (v :: int)" for a :: address
  by simp

lemma sum_transfer: "(\<Sum>b\<in>UNIV. (if b = x then - v else 0) + (if b = y then v else 0)) = (0 :: int)" for x y :: address
  unfolding sum.distrib by simp

lemma total_transfer: "moved C (\<lambda>b. (if b = x then - v else 0) + (if b = y then v else 0)) s s1 \<Longrightarrow> wf_objects s \<Longrightarrow> totalBalance s1 = totalBalance s"
  using sum_moved [of C _ s s1] sum_transfer by fastforce

lemma moved_refund: "moved C d s s1 \<Longrightarrow> wf_objects s \<Longrightarrow> refund s1 = refund s"
  by (simp add: moved_def)

lemma open_moved: "snapshot_open C False s0 s \<Longrightarrow> moved C d s s1 \<Longrightarrow> snapshot_open C False s0 s1"
  by (rule open_undone) (auto simp: moved_def)

text \<open>
  The common part of \<open>Call\<close> and \<open>Create\<close>: after the snapshot in \<open>s0\<close> money is transferred, code
  runs, and the outcome is kept or reverted.
\<close>

lemma revert_ok:
  assumes "good_state s0" and "snapshot_open C False s0 s" and "RevertToSnapshot (nextRevisionId s0) s = Inr s1"
  shows "good_state s1 \<and> totalBalance s1 = totalBalance s0 \<and> refund s1 = refund s0"
  using open_reverts [OF assms(2)] assms(3) agree_bal agree_refund by (auto simp: totalBalance_def)

lemma Snapshot_total [simp]:
  "totalBalance (snd (Snapshot s)) = totalBalance s" "refund (snd (Snapshot s)) = refund s"
  by (simp_all add: totalBalance_def Snapshot_def)

lemma call_ready_moved:
  "moved (vm_db V) (\<lambda>b. (if b = x then - v else 0) + (if b = y then v else 0)) s (call_ready V x y v s)"
proof -
  have m: "still (vm_db V) s (if look s y \<noteq> None then load y s else CreateAccount (vm_db V) y (load y s))"
    using still_load [of "vm_db V" s y] moved_still [OF still_load still_CreateAccount] by simp
  show ?thesis unfolding call_ready_def Let_def
    by (rule moved_still [OF moved_still [OF still_trans [OF m moved_Transfer] still_load] still_GetCode])
qed

lemma Call_ok:
  assumes V: "interpreter_ok V" and good: "good_state s" and r: "0 \<le> refund s"
    and call: "Call V depth caller addr input gas amount s = Inr (ret, gas', err, s')"
  shows "good_state s' \<and> spent_by_code V caller (totalBalance s' - totalBalance s) \<and> gas' \<le> gas \<and> 0 \<le> refund s'"
proof -
  let ?C = "vm_db V"
  have wf: "wf_objects s" using good by (simp add: good_state_def)
  define s1 where "s1 = load caller s"
  have m1: "still ?C s s1" by (simp add: s1_def)
  have g1: "good_state s1" using undone_good [OF moved_undone [OF m1] good] .
  have t1: "totalBalance s1 = totalBalance s" "refund s1 = refund s" using sum_moved [OF m1 wf] moved_refund [OF m1 wf] by simp_all
  define s2 where "s2 = snd (Snapshot s1)"
  have o2: "snapshot_open ?C False s1 s2" unfolding s2_def by (rule snapshot_opens [OF g1])
  have wf2: "wf_objects s2" using open_good [OF o2] by (simp add: good_state_def)
  have m3: "still ?C s2 (load addr s2)" by simp
  note m7 = call_ready_moved [of V caller amount addr s2]
  have t7: "totalBalance (call_ready V caller addr amount s2) = totalBalance s" "refund (call_ready V caller addr amount s2) = refund s"
    using total_transfer [OF m7 wf2] moved_refund [OF m7 wf2] t1 by (simp_all add: s2_def)
  have o7: "snapshot_open ?C False s1 (call_ready V caller addr amount s2)" by (rule open_moved [OF o2 m7])
  from call show ?thesis
  proof (rule Call_paths, fold s1_def, fold s2_def)
    fix fr g u assume fc: "fr_caller fr = caller" and c: "fr_gas fr = gas" "run V fr (call_ready V caller addr amount s2) = Inr (ret, g, err, u)"
      "err = None \<and> s' = u \<and> gas' = g \<or> RevertToSnapshot (nextRevisionId s1) u = Inr s' \<and> gas' = 0"
    note k = run_ok [OF V o7 _ c(2)]
    show ?thesis using c(1,3) k t7 t1 r open_good revert_ok [OF g1] fc by auto
  qed (use good r t1 g1 open_good [OF open_moved [OF o2 m3]] sum_moved [OF m3 wf2] moved_refund [OF m3 wf2] in \<open>simp_all add: s2_def\<close>)
qed

lemma storeCode_ok:
  assumes "storeCode V a (ret, gas, err, s) = (ret', gas', err', s')"
  shows "still (vm_db V) s s' \<and> gas' \<le> gas"
  using assms still_SetCode by (auto simp: storeCode_def Let_def word_sub_le not_less split: if_splits)

lemma create_ready_moved:
  "moved (vm_db V) (\<lambda>b. (if b = x then - v else 0) + (if b = a then v else 0)) s (create_ready V x a v s)"
proof -
  have m: "still (vm_db V) s (if vm_IsEIP158 V then SetNonce (vm_db V) a 1 (CreateAccount (vm_db V) a s) else CreateAccount (vm_db V) a s)"
    using still_CreateAccount still_trans [OF still_CreateAccount still_SetNonce] by simp
  show ?thesis unfolding create_ready_def Let_def by (rule still_trans [OF m moved_Transfer])
qed

lemma create_base_still: "still (vm_db V) s (create_base V a s)"
  unfolding create_base_def by (rule still_trans [OF still_load still_SetNonce])

lemma Create_ok:
  assumes V: "interpreter_ok V" and good: "good_state s" and r: "0 \<le> refund s"
    and create: "Create V depth caller code gas amount s = Inr (ret, contractAddr, gas', err, s')"
  shows "good_state s' \<and> spent_by_code V caller (totalBalance s' - totalBalance s) \<and> gas' \<le> gas \<and> 0 \<le> refund s'"
proof -
  let ?C = "vm_db V"
  have wf: "wf_objects s" using good by (simp add: good_state_def)
  define s1 where "s1 = create_base V caller s"
  have m1: "still ?C s s1" unfolding s1_def by (rule create_base_still)
  have g1: "good_state s1" using undone_good [OF moved_undone [OF m1] good] .
  have t1: "totalBalance s1 = totalBalance s" "refund s1 = refund s" using sum_moved [OF m1 wf] moved_refund [OF m1 wf] by simp_all
  define s2 where "s2 = snd (Snapshot s1)"
  have o2: "snapshot_open ?C False s1 s2" unfolding s2_def by (rule snapshot_opens [OF g1])
  have wf2: "wf_objects s2" using open_good [OF o2] by (simp add: good_state_def)
  from create show ?thesis
  proof (rule Create_paths, fold s1_def, fold s2_def)
    fix fr a r1 g r2 g2 e1 u1 u2
    assume fc: "fr_caller fr = caller" and c: "fr_gas fr = gas" "run V fr (create_ready V caller a amount s2) = Inr (r1, g, e1, u1)" "storeCode V a (r1, g, e1, u1) = (r2, g2, err, u2)"
        "s' = u2 \<and> gas' = g2 \<or> RevertToSnapshot (nextRevisionId s1) u2 = Inr s' \<and> gas' = 0"
    note m5 = create_ready_moved [of V caller amount a s2]
    have t5: "totalBalance (create_ready V caller a amount s2) = totalBalance s" "refund (create_ready V caller a amount s2) = refund s"
      using total_transfer [OF m5 wf2] moved_refund [OF m5 wf2] t1 by (simp_all add: s2_def)
    note o5 = open_moved [OF o2 m5]
    note k = run_ok [OF V o5 _ c(2)] and st = storeCode_ok [OF c(3)]
    have k: "snapshot_open ?C False s1 u1" "spent_by_code V caller (totalBalance u1 - totalBalance s)" "g \<le> gas" "0 \<le> refund u1"
      using k t5 r c(1) fc by auto
    have wf1: "wf_objects u1" using open_good [OF k(1)] by (simp add: good_state_def)
    have "snapshot_open ?C False s1 u2" "spent_by_code V caller (totalBalance u2 - totalBalance s)" "g2 \<le> gas" "0 \<le> refund u2"
      using open_moved [OF k(1)] sum_moved [of ?C _ u1 u2] moved_refund [of ?C _ u1 u2] wf1 st k by (auto intro: order_trans)
    then show ?thesis using c(4) t1 r open_good revert_ok [OF g1] by auto
  qed (use good r undone_good [OF undone_load good] in \<open>simp_all add: totalBalance_def\<close>)
qed

lemma execMessage_ok:
  assumes V: "interpreter_ok V" and good: "good_state s" and r: "0 \<le> refund s"
    and ex: "execMessage V msg gas s = Inr (ret, gas', err, s')"
  shows "good_state s' \<and> spent_by_code V (msg_From msg) (totalBalance s' - totalBalance s) \<and> gas' \<le> gas \<and> 0 \<le> refund s'"
  using ex
proof (rule execMessage_paths)
  let ?C = "vm_db V"
  fix to u
  assume c: "Call V 0 (msg_From msg) to (msg_Data msg) gas (msg_Value msg) (ensureAccount ?C to (create_base V (msg_From msg) s)) = Inr (ret, gas', err, u)"
    and s': "s' = u \<or> s' = SetCMT ?C (msg_From msg) (msg_CMT msg) u"
  note m1 = still_trans [OF create_base_still [of V s "msg_From msg"] still_ensureAccount [of _ _ to]]
  have wf: "wf_objects s" using good by (simp add: good_state_def)
  have k: "good_state u \<and> spent_by_code V (msg_From msg) (totalBalance u - totalBalance s) \<and> gas' \<le> gas \<and> 0 \<le> refund u"
    using Call_ok [OF V undone_good [OF moved_undone [OF m1] good] _ c] r sum_moved [OF m1 wf] moved_refund [OF m1 wf] by simp
  have wf2: "wf_objects u" using k by (simp add: good_state_def)
  show ?thesis using s' k undone_good [OF moved_undone [OF still_SetCMT]] sum_moved [OF still_SetCMT wf2] moved_refund [OF still_SetCMT wf2]
    by (auto simp del: sum_point)
qed (use Create_ok [OF V good r] in auto)

section \<open>Transitions\<close>

lemma good_still: "still C s s1 \<Longrightarrow> good_state s \<Longrightarrow> good_state s1 \<and> totalBalance s1 = totalBalance s \<and> refund s1 = refund s"
  using undone_good [OF moved_undone] sum_moved [of C "\<lambda>_. 0" s s1] moved_refund [of C "\<lambda>_. 0" s s1] by (simp add: good_state_def)

lemma good_moved: "moved C (\<lambda>b. if b = a then v else 0) s s1 \<Longrightarrow> good_state s \<Longrightarrow>
    good_state s1 \<and> totalBalance s1 = totalBalance s + v \<and> refund s1 = refund s"
  using undone_good [OF moved_undone] sum_moved [of C "\<lambda>b. if b = a then v else 0" s s1] moved_refund [of C _ s s1] by (simp add: good_state_def)

lemmas good_AddBalance = good_moved [OF moved_AddBalance]
lemmas good_SubBalance = good_moved [OF moved_SubBalance]

lemma preCheck_ok:
  assumes "good_state s" and "0 \<le> msg_Gas msg" and "preCheck C msg (NewStateTransition gp s) = (None, st)"
  shows "good_state (st_state st) \<and> refund (st_state st) = refund s \<and> uint (st_gas st) = msg_Gas msg \<and> st_initialGas st = msg_Gas msg \<and>
    totalBalance (st_state st) = totalBalance s - msg_Gas msg * msg_GasPrice msg"
  using assms(3)
proof (rule preCheck_paths)
  fix u assume u: "u = ensureAccount C (msg_From msg) s \<or> u = load (msg_From msg) (ensureAccount C (msg_From msg) s)"
    and st: "st = \<lparr>st_gp = gp - msg_Gas msg, st_gas = word_of_int \<bar>msg_Gas msg\<bar>, st_initialGas = msg_Gas msg,
       st_state = SubBalance C (msg_From msg) (msg_Gas msg * msg_GasPrice msg) (load (msg_From msg) (ensureAccount C (msg_From msg) u))\<rparr>"
    and "\<bar>msg_Gas msg\<bar> < 2 ^ 64"
  have "still C s u" using u still_ensureAccount moved_still [OF still_ensureAccount still_load] by auto
  from good_still [OF moved_still [OF moved_still [OF this still_ensureAccount] still_load] assms(1)]
  show ?thesis using good_SubBalance \<open>\<bar>msg_Gas msg\<bar> < 2 ^ 64\<close> assms(2) unfolding st
    by (simp add: uint_word_of_int_eq take_bit_int_eq_self)
qed

lemma refundGas_ok:
  assumes good: "good_state (st_state st)" and r: "0 \<le> refund (st_state st)" and le: "uint (st_gas st) \<le> st_initialGas st" "st_initialGas st < 2 ^ 64"
  shows "good_state (st_state (refundGas C msg st)) \<and> st_initialGas (refundGas C msg st) = st_initialGas st \<and>
    totalBalance (st_state (refundGas C msg st)) = totalBalance (st_state st) + uint (st_gas (refundGas C msg st)) * msg_GasPrice msg"
proof -
  let ?s1 = "AddBalance C (msg_From msg) (uint (st_gas st) * msg_GasPrice msg) (ensureAccount C (msg_From msg) (st_state st))"
  have s1: "good_state ?s1" "totalBalance ?s1 = totalBalance (st_state st) + uint (st_gas st) * msg_GasPrice msg" "refund ?s1 = refund (st_state st)"
    using good_AddBalance good_still [OF still_ensureAccount good] by auto
  have keep: "good_state (?s1\<lparr>refund := r'\<rparr>) = good_state ?s1" "totalBalance (?s1\<lparr>refund := r'\<rparr>) = totalBalance ?s1" for r'
    by (simp_all add: good_state_def wf_revisions_def totalBalance_def)
  obtain bk r' where "uint (st_gas (refundGas C msg st)) = uint (st_gas st) + bk" "st_initialGas (refundGas C msg st) = st_initialGas st"
    and st: "st_state (refundGas C msg st) = AddBalance C (msg_From msg) (bk * msg_GasPrice msg) (?s1\<lparr>refund := r'\<rparr>)"
    by (rule refundGas_paths [OF _ le, of C msg]) (use s1 r in simp_all)
  then show ?thesis using good_AddBalance [of "?s1\<lparr>refund := r'\<rparr>" C "msg_From msg" "bk * msg_GasPrice msg"] s1
    by (simp add: keep st distrib_right)
qed

definition zkDelta :: "Message \<Rightarrow> int" where
  "zkDelta msg = (if msg_TxCode msg = TxConvert then - sint (msg_ZKValue msg)
     else if msg_TxCode msg = TxRedeem \<or> msg_TxCode msg = TxWithdraw then sint (msg_ZKValue msg) else 0)"

lemma moved_zkBalance: "moved C (\<lambda>b. if b = msg_From msg then zkDelta msg else 0) s (zkBalance C msg s)"
  using moved_SubBalance [of C "msg_From msg" "sint (msg_ZKValue msg)" s] moved_AddBalance [of C "msg_From msg" "sint (msg_ZKValue msg)" s]
  by (auto simp: zkBalance_def zkDelta_def tx_codes Let_def cong: if_cong)

lemma TransitionDb_total:
  assumes V: "interpreter_ok V" and good: "good_state s" and r: "0 \<le> refund s" and gas: "0 \<le> msg_Gas msg"
    and t: "TransitionDb V msg (NewStateTransition gp s) = Inr (Inr (ret, required, used), st)"
  shows "good_state (st_state st) \<and> spent_by_code V (msg_From msg) (totalBalance (st_state st) - (totalBalance s + zkDelta msg))"
  using t
proof (rule TransitionDb_paths)
  let ?C = "vm_db V"
  fix st1 ig ret' gas' err u st2
  assume p: "preCheck ?C msg (NewStateTransition gp s) = (None, st1)" and ig: "ig \<le> st_gas st1"
    and e: "execMessage V msg (st_gas st1 - ig) (ensureAccount ?C (msg_From msg) (st_state st1)) = Inr (ret', gas', err, u)"
    and st2: "st2 = refundGas ?C msg (st1\<lparr>st_gas := gas', st_state := u\<rparr>)"
    and st: "st = st2\<lparr>st_state := zkBalance ?C msg (AddBalance ?C (vm_Coinbase V) (gasUsed st2 * msg_GasPrice msg) (st_state st2))\<rparr>"
  note p1 = preCheck_ok [OF good gas p]
  let ?s2 = "ensureAccount ?C (msg_From msg) (st_state st1)"
  have g2: "good_state ?s2" "totalBalance ?s2 = totalBalance s - msg_Gas msg * msg_GasPrice msg" "refund ?s2 = refund s"
    using p1 good_still [OF still_ensureAccount] by auto
  have k: "good_state u" "spent_by_code V (msg_From msg) (totalBalance u - totalBalance ?s2)" "gas' \<le> st_gas st1 - ig" "0 \<le> refund u"
    using execMessage_ok [OF V g2(1) _ e] g2(3) r by auto
  have "gas' \<le> st_gas st1" using k(3) ig by (auto intro: order_trans word_sub_le)
  then have le: "uint gas' \<le> msg_Gas msg" "msg_Gas msg < 2 ^ 64"
    using p1 uint_bounded [of "st_gas st1"] by (auto simp: word_le_def)
  have f: "good_state (st_state st2)" "st_initialGas st2 = msg_Gas msg"
    "totalBalance (st_state st2) = totalBalance u + uint (st_gas st2) * msg_GasPrice msg"
    unfolding st2 using refundGas_ok [of "st1\<lparr>st_gas := gas', st_state := u\<rparr>" ?C msg] k le p1 by auto
  have "totalBalance (st_state st) = totalBalance (st_state st2) + gasUsed st2 * msg_GasPrice msg + zkDelta msg" "good_state (st_state st)"
    using good_moved [OF moved_zkBalance] good_AddBalance [OF f(1), of ?C "vm_Coinbase V" "gasUsed st2 * msg_GasPrice msg"]
    unfolding st by auto
  then show ?thesis using f k g2 by (simp add: gasUsed_def algebra_simps)
qed

end
