(* ===== verification/Zk_Kept.thy ===== *)
theory Zk_Kept
  imports Zk_Paths
begin

text \<open>
  Facts that survive the execution of a message, nested reverts included. The locale \<open>step_fact\<close>
  is the contract: a fact that single operations, \<open>Snapshot\<close> and reverts to revisions above a base keep
  holds after every call, creation, message and failed transition. The locale \<open>journal_fact\<close>
  gives such a fact from a property of the state and of the journal entries; its clients are the serial
  numbers and the gas of a block. An open snapshot is such a fact too, so that a transaction that
  fails can be reverted.
\<close>

section \<open>Growing and reverting the journal\<close>

text \<open>A step that keeps \<open>P\<close> and appends entries that can be undone without losing \<open>P\<close>.\<close>

definition grown :: "(StateDB \<Rightarrow> bool) \<Rightarrow> (journalEntry \<Rightarrow> bool) \<Rightarrow> StateDB \<Rightarrow> StateDB \<Rightarrow> bool" where
  "grown P safe s s1 \<longleftrightarrow> (P s \<longrightarrow> P s1 \<and> validRevisions s1 = validRevisions s \<and> nextRevisionId s1 = nextRevisionId s \<and>
     (\<exists>es. journal s1 = journal s @ es \<and> list_all safe es))"

text \<open>
  Between a base (revision number \<open>m\<close>, journal length \<open>n\<close>) and later states: \<open>P\<close> holds, the
  entries above the base are safe, and the revisions above the base point above it.
\<close>

definition kept :: "(StateDB \<Rightarrow> bool) \<Rightarrow> (journalEntry \<Rightarrow> bool) \<Rightarrow> nat \<Rightarrow> nat \<Rightarrow> StateDB \<Rightarrow> bool" where
  "kept P safe m n s \<longleftrightarrow> P s \<and> m \<le> nextRevisionId s \<and> n \<le> length (journal s) \<and> list_all safe (drop n (journal s)) \<and>
     (\<forall>r\<in>set (validRevisions s). rev_id r < nextRevisionId s \<and> (m \<le> rev_id r \<longrightarrow> n \<le> rev_journalIndex r))"

definition numbered :: "StateDB \<Rightarrow> bool" where
  "numbered s \<longleftrightarrow> (\<forall>r\<in>set (validRevisions s). rev_id r < nextRevisionId s)"

lemma kept_start: "P s \<Longrightarrow> numbered s \<Longrightarrow> kept P safe (nextRevisionId s) (length (journal s)) s"
  by (auto simp: kept_def numbered_def)

lemma kept_numbered: "kept P safe m n s \<Longrightarrow> numbered s"
  by (simp add: kept_def numbered_def)

lemma keptD: "kept P safe m n s \<Longrightarrow> P s"
  by (simp add: kept_def)

lemma kept_grown: "kept P safe m n s \<Longrightarrow> grown P safe s s1 \<Longrightarrow> kept P safe m n s1"
  by (auto simp: kept_def grown_def)

lemma grown_refl [simp]: "grown P safe s s"
  by (simp add: grown_def)

lemma grown_trans: "grown P safe s t \<Longrightarrow> grown P safe t u \<Longrightarrow> grown P safe s u"
  by (auto simp: grown_def)

lemma sortSearch_le: "i \<le> j \<Longrightarrow> sortSearch i j p \<le> j"
proof (induction i j p rule: sortSearch.induct)
  case (1 i j p)
  let ?m = "(i + j) div 2"
  show ?case
  proof (cases "i < j")
    case True
    then have "i \<le> ?m" "?m < j" by auto
    with 1 True have "sortSearch (?m + 1) j p \<le> j" if "\<not> p ?m" using that by auto
    moreover have "sortSearch i ?m p \<le> ?m" if "p ?m" using 1(2) [OF True refl] that \<open>i \<le> ?m\<close> by auto
    ultimately show ?thesis using True \<open>?m < j\<close> by (subst sortSearch.simps) (auto simp: Let_def)
  qed (use 1(3) in \<open>subst sortSearch.simps, simp\<close>)
qed

lemma RevertToSnapshot_InrE:
  assumes "RevertToSnapshot k s = Inr t"
  obtains r u i where "r \<in> set (validRevisions s)" "rev_id r = k" "fold_res undo (rev (drop (rev_journalIndex r) (journal s))) s = Inr u"
    "t = u\<lparr>journal := take (rev_journalIndex r) (journal u), validRevisions := take i (validRevisions u)\<rparr>"
proof -
  let ?i = "sortSearch 0 (length (validRevisions s)) (\<lambda>i. rev_id (validRevisions s ! i) \<ge> k)"
  let ?r = "validRevisions s ! ?i"
  have "?i \<le> length (validRevisions s)" by (rule sortSearch_le) simp
  moreover have "?i \<noteq> length (validRevisions s)" "rev_id ?r = k"
    using assms by (auto simp: RevertToSnapshot_def Let_def split: if_splits)
  ultimately have "?r \<in> set (validRevisions s)" "rev_id ?r = k" by simp_all
  moreover obtain u where "fold_res undo (rev (drop (rev_journalIndex ?r) (journal s))) s = Inr u"
    "t = u\<lparr>journal := take (rev_journalIndex ?r) (journal u), validRevisions := take ?i (validRevisions u)\<rparr>"
    using assms by (auto simp: RevertToSnapshot_def Let_def bind_res_Inr_iff split: if_splits)
  ultimately show thesis by (rule that)
qed

section \<open>The contract\<close>

text \<open>
  The interpreter performs only operations of a given kind, reverts only to revisions that it
  took itself, and returns no more gas than it was given.
\<close>

definition own_revert :: "nat \<Rightarrow> stateOp \<Rightarrow> bool" where
  "own_revert m op \<longleftrightarrow> (case op of OpRevert k \<Rightarrow> m \<le> k | _ \<Rightarrow> True)"

lemma own_revert_mono: "own_revert n op \<Longrightarrow> m \<le> n \<Longrightarrow> own_revert m op"
  by (cases op) (simp_all add: own_revert_def)

definition interpreter_keeps :: "(stateOp \<Rightarrow> bool) \<Rightarrow> vmEnv \<Rightarrow> bool" where
  "interpreter_keeps op_ok V \<longleftrightarrow> (\<forall>fr s ops ret gas err. vm_interpret V fr s = (ops, ret, gas, err) \<longrightarrow>
     gas \<le> fr_gas fr \<and> list_all (\<lambda>op. op_ok op \<and> own_revert (nextRevisionId s) op) ops)"

text \<open>
  \<open>step\<close> is what single operations do, \<open>K\<close> the fact that is kept, \<open>m\<close> the first revision number
  that may be reverted to.
\<close>

locale step_fact =
  fixes C :: chainDb and step :: "StateDB \<Rightarrow> StateDB \<Rightarrow> bool" and K :: "StateDB \<Rightarrow> bool" and m :: nat and op_ok :: "stateOp \<Rightarrow> bool"
  assumes step_refl: "step s s" and step_trans: "step s t \<Longrightarrow> step t u \<Longrightarrow> step s u" and K_step: "K s \<Longrightarrow> step s t \<Longrightarrow> K t"
    and K_Snapshot: "K s \<Longrightarrow> K (snd (Snapshot s))"
    and K_Revert: "K s \<Longrightarrow> RevertToSnapshot i s = Inr t \<Longrightarrow> m \<le> i \<Longrightarrow> K t"
    and K_next: "K s \<Longrightarrow> m \<le> nextRevisionId s"
    and op_step: "op_ok op \<Longrightarrow> applyOp C op s = Inr t \<Longrightarrow> op \<noteq> OpSnapshot \<Longrightarrow> (\<And>k. op \<noteq> OpRevert k) \<Longrightarrow> step s t"
    and create_missing: "look s a = None \<Longrightarrow> step s (CreateAccount C a s)"
    and ops_ok: "op_ok (OpAddBalance a x)" "op_ok (OpSubBalance a x)" "op_ok (OpSetCMT a c)" "op_ok (OpSetCode a code)"
      "op_ok (OpExist a)" "op_ok (OpGetCode a)"
begin

lemma step_ops:
  "step s (AddBalance C a x s)" "step s (SubBalance C a x s)" "step s (SetCMT C a c s)"
  "step s (SetCode C a code s)" "step s (load a s)" "step s (snd (GetCode C a s))"
  using op_step [of "OpAddBalance a x" s] op_step [of "OpSubBalance a x" s] op_step [of "OpSetCMT a c" s]
    op_step [of "OpSetCode a code" s] op_step [of "OpExist a" s] op_step [of "OpGetCode a" s]
  by (simp_all add: ops_ok Exist_def getStateObject_split Let_def)

lemma step_SetNonce: "op_ok (OpSetNonce a x) \<Longrightarrow> step s (SetNonce C a x s)"
  using op_step [of "OpSetNonce a x" s] by simp

lemma step_CreateAccount: "op_ok (OpCreateAccount a) \<Longrightarrow> step s (CreateAccount C a s)"
  using op_step [of "OpCreateAccount a" s] by simp

lemma step_Transfer: "step s (Transfer C a b x s)"
  unfolding Transfer_def by (rule step_trans [OF step_ops(2) step_ops(1)])

lemma step_ensureAccount: "step s (ensureAccount C a s)"
  using step_trans [OF step_ops(5) create_missing [of "load a s" a]] step_ops(5)
  by (auto simp: ensureAccount_def Exist_def getStateObject_split Let_def)

lemma K_applyOps:
  assumes "K s" and "list_all (\<lambda>op. op_ok op \<and> own_revert m op) ops" and "applyOps C ops s = Inr t"
  shows "K t"
  using assms
proof (induction ops arbitrary: s)
  case (Cons op ops)
  from Cons.prems(3) obtain u where u: "applyOp C op s = Inr u" "applyOps C ops u = Inr t"
    by (auto simp: applyOps_def bind_res_Inr_iff)
  have "K u"
  proof (cases "op = OpSnapshot \<or> (\<exists>k. op = OpRevert k)")
    case True
    then show ?thesis using Cons.prems(1,2) u(1) by (auto simp: own_revert_def intro: K_Snapshot K_Revert)
  next
    case False
    then show ?thesis using Cons.prems(1,2) u(1) by (intro K_step [OF Cons.prems(1) op_step [OF _ u(1)]]) auto
  qed
  with Cons.IH [OF this _ u(2)] Cons.prems(2) show ?case by simp
qed (simp add: applyOps_def)

subsection \<open>Calls, creations and messages\<close>

lemma K_run:
  assumes V: "interpreter_keeps op_ok V" "vm_db V = C" and k: "K s" and run: "run V fr s = Inr (ret, gas, err, t)"
  shows "K t"
proof (cases "vm_precompiled V (fr_codeAddr fr) = None \<and> fr_code fr \<noteq> []")
  case True
  obtain ops ret' gas' err' where i: "vm_interpret V fr s = (ops, ret', gas', err')" by (metis prod_cases4)
  have a: "applyOps C ops s = Inr t" using run True i V(2) by (auto simp: run_def bind_res_Inr_iff)
  have "list_all (\<lambda>op. op_ok op \<and> own_revert (nextRevisionId s) op) ops"
    using V(1) i unfolding interpreter_keeps_def by blast
  then have "list_all (\<lambda>op. op_ok op \<and> own_revert m op) ops"
    using K_next [OF k] by (auto simp: list_all_iff intro: own_revert_mono)
  then show ?thesis by (rule K_applyOps [OF k _ a])
next
  case False
  then have "t = s" using run by (auto simp: run_def Let_def split: option.splits prod.splits if_splits)
  then show ?thesis using k by simp
qed

lemma step_call_ready: "vm_db V = C \<Longrightarrow> step s (call_ready V caller addr amount s)"
proof -
  assume V: "vm_db V = C"
  have "step s (if look s addr \<noteq> None then load addr s else CreateAccount C addr (load addr s))"
    using step_ops(5) [of s addr] step_trans [OF step_ops(5) create_missing [of "load addr s" addr]] by simp
  then show ?thesis unfolding call_ready_def Let_def V
    by (rule step_trans [OF step_trans [OF step_trans [OF _ step_Transfer] step_ops(5)] step_ops(6)])
qed

lemma K_Call:
  assumes V: "interpreter_keeps op_ok V" "vm_db V = C" and k: "K s"
    and call: "Call V depth caller addr input gas amount s = Inr (ret, gas', err, t)"
  shows "K t"
proof -
  have k1: "K (load caller s)" by (rule K_step [OF k step_ops(5)])
  note k2 = K_Snapshot [OF k1]
  from call show ?thesis
  proof (rule Call_paths)
    fix fr g u
    assume r: "run V fr (call_ready V caller addr amount (snd (Snapshot (load caller s)))) = Inr (ret, g, err, u)"
      and t: "err = None \<and> t = u \<and> gas' = g \<or> RevertToSnapshot (nextRevisionId (load caller s)) u = Inr t \<and> gas' = 0"
    note ku = K_run [OF V K_step [OF k2 step_call_ready [OF V(2)]] r]
    show ?thesis using t ku K_Revert [OF ku _ K_next [OF k1]] by auto
  qed (use k k1 K_step [OF k2 step_ops(5)] in simp_all)
qed

text \<open>A creation needs a new account at its address and counts up the nonce of the creator.\<close>

lemma step_create_base: "vm_db V = C \<Longrightarrow> op_ok (OpSetNonce a (fst (GetNonce a s) + 1)) \<Longrightarrow> step s (create_base V a s)"
  unfolding create_base_def using step_trans [OF step_ops(5) step_SetNonce] by simp

lemma K_Create:
  assumes V: "interpreter_keeps op_ok V" "vm_db V = C" and k: "K s"
    and nonce: "op_ok (OpSetNonce caller (fst (GetNonce caller s) + 1))" and one: "\<And>a. op_ok (OpSetNonce a 1)"
    and new: "op_ok (OpCreateAccount (vm_CreateAddress V caller (fst (GetNonce caller s))))"
    and create: "Create V depth caller code gas amount s = Inr (ret, contractAddr, gas', err, t)"
  shows "K t"
proof -
  have k1: "K (create_base V caller s)" by (rule K_step [OF k step_create_base [OF V(2) nonce]])
  from create show ?thesis
  proof (rule Create_paths)
    fix fr a r1 g1 e1 u1 r2 g2 u2
    assume a: "a = vm_CreateAddress V caller (fst (GetNonce caller s))"
      and r: "run V fr (create_ready V caller a amount (snd (Snapshot (create_base V caller s)))) = Inr (r1, g1, e1, u1)"
      and st: "storeCode V a (r1, g1, e1, u1) = (r2, g2, err, u2)"
      and t: "t = u2 \<and> gas' = g2 \<or> RevertToSnapshot (nextRevisionId (create_base V caller s)) u2 = Inr t \<and> gas' = 0"
    have "step s' (create_ready V caller a amount s')" for s'
      unfolding create_ready_def Let_def V(2)
      using step_trans [OF step_CreateAccount [OF new, of s'] step_SetNonce [OF one]] step_CreateAccount [OF new, of s']
      by (auto simp: a intro: step_trans [OF _ step_Transfer])
    from K_run [OF V K_step [OF K_Snapshot [OF k1] this] r] have k2: "K u1" .
    have "K u2" using st K_step [OF k2 step_ops(4)] k2 by (auto simp: storeCode_def V(2) Let_def split: if_splits)
    then show ?thesis using t K_Revert [OF _ _ K_next [OF k1]] by auto
  qed (use k K_step [OF k step_ops(5)] in simp_all)
qed

lemma K_execMessage:
  assumes V: "interpreter_keeps op_ok V" "vm_db V = C" and k: "K s"
    and nonce: "op_ok (OpSetNonce (msg_From msg) (fst (GetNonce (msg_From msg) s) + 1))" and one: "\<And>a. op_ok (OpSetNonce a 1)"
    and new: "msg_To msg = None \<Longrightarrow> op_ok (OpCreateAccount (vm_CreateAddress V (msg_From msg) (fst (GetNonce (msg_From msg) s))))"
    and ex: "execMessage V msg gas s = Inr (ret, gas', err, t)"
  shows "K t"
  using ex
proof (rule execMessage_paths)
  fix a assume "msg_To msg = None" "Create V 0 (msg_From msg) (msg_Data msg) gas (msg_Value msg) s = Inr (ret, a, gas', err, t)"
  then show ?thesis using K_Create [OF V k nonce one new] by blast
next
  fix to u
  assume c: "Call V 0 (msg_From msg) to (msg_Data msg) gas (msg_Value msg) (ensureAccount (vm_db V) to (create_base V (msg_From msg) s)) = Inr (ret, gas', err, u)"
    and t: "t = u \<or> t = SetCMT (vm_db V) (msg_From msg) (msg_CMT msg) u"
  have "step s (ensureAccount (vm_db V) to (create_base V (msg_From msg) s))"
    unfolding V(2) by (rule step_trans [OF step_create_base [OF V(2) nonce] step_ensureAccount])
  from K_Call [OF V K_step [OF k this] c] have "K u" .
  then show ?thesis using t K_step [OF _ step_ops(3)] by (auto simp: V(2))
qed

subsection \<open>The purchase of gas\<close>

lemma step_preCheck:
  assumes "preCheck C msg (NewStateTransition gp s) = (err, st)"
  shows "step s (st_state st)"
proof -
  let ?a = "msg_From msg"
  have n: "snd (GetNonce ?a x) = load ?a x" "snd (GetBalance ?a x) = load ?a x" for x
    by (simp_all add: GetNonce_def GetBalance_def getStateObject_split Let_def)
  define u where "u = (if msg_CheckNonce msg then load ?a (ensureAccount C ?a s) else ensureAccount C ?a s)"
  have u: "step s u" using step_ensureAccount step_trans [OF step_ensureAccount step_ops(5)] by (simp add: u_def)
  have b: "step u (load ?a (ensureAccount C ?a u))" by (rule step_trans [OF step_ensureAccount step_ops(5)])
  have "st_state st = u \<or> st_state st = load ?a (ensureAccount C ?a u) \<or> (\<exists>v. st_state st = SubBalance C ?a v (load ?a (ensureAccount C ?a u)))"
    using assms n [of "ensureAccount C ?a s"] n [of "ensureAccount C ?a u"]
    unfolding preCheck_def buyGas_def NewStateTransition_def Let_def case_prod_unfold u_def
    by (auto split: if_splits option.splits)
  then show ?thesis using u step_trans [OF u b] step_trans [OF step_trans [OF u b] step_ops(2)] by auto
qed

text \<open>A transition that fails.\<close>

lemma K_TransitionDb_fails:
  assumes V: "interpreter_keeps op_ok V" "vm_db V = C" and k: "K s" and ok: "\<And>a n. op_ok (OpSetNonce a n)" "\<And>a. op_ok (OpCreateAccount a)"
    and t: "TransitionDb V msg (NewStateTransition gp s) = Inr (Inl e, st)"
  shows "K (st_state st)"
proof -
  obtain err st1 where p: "preCheck C msg (NewStateTransition gp s) = (err, st1)" by fastforce
  let ?s = "ensureAccount C (msg_From msg) (st_state st1)"
  have k1: "K (st_state st1)" by (rule K_step [OF k step_preCheck [OF p]])
  have k2: "K ?s" by (rule K_step [OF k1 step_ensureAccount])
  from t p have "st_state st = st_state st1 \<or> st_state st = ?s \<or> (\<exists>g ret gas err u. execMessage V msg g ?s = Inr (ret, gas, err, u) \<and> st_state st = u)"
    by (auto simp: TransitionDb_def V(2) useGas_def Let_def bind_res_Inr_iff split: option.splits if_splits prod.splits; blast)
  then show ?thesis using k1 k2 K_execMessage [OF V k2 ok(1) ok(1) ok(2)] by auto
qed

end

section \<open>Facts from the journal\<close>

locale journal_fact =
  fixes C :: chainDb and P :: "StateDB \<Rightarrow> bool" and safe :: "journalEntry \<Rightarrow> bool" and op_ok :: "stateOp \<Rightarrow> bool"
  assumes P_bookkeeping: "P (s\<lparr>nextRevisionId := k, validRevisions := v\<rparr>) = P s" "P (s\<lparr>journal := j, validRevisions := v\<rparr>) = P s"
    and undo_safe: "P s \<Longrightarrow> safe e \<Longrightarrow> undo e s = Inr t \<Longrightarrow> P t"
    and op_grown: "op_ok op \<Longrightarrow> applyOp C op s = Inr t \<Longrightarrow> op \<noteq> OpSnapshot \<Longrightarrow> (\<And>k. op \<noteq> OpRevert k) \<Longrightarrow> grown P safe s t"
    and create_grown: "look s a = None \<Longrightarrow> grown P safe s (CreateAccount C a s)"
    and ops_fine: "op_ok (OpAddBalance a x)" "op_ok (OpSubBalance a x)" "op_ok (OpSetCMT a c)" "op_ok (OpSetCode a code)"
      "op_ok (OpExist a)" "op_ok (OpGetCode a)"
begin

lemma kept_Snapshot: "kept P safe m n s \<Longrightarrow> kept P safe m n (snd (Snapshot s))"
  by (auto simp: kept_def Snapshot_def P_bookkeeping less_Suc_eq)

lemma undo_all_safe: "P s \<Longrightarrow> list_all safe es \<Longrightarrow> fold_res undo es s = Inr t \<Longrightarrow> P t"
  by (induction es arbitrary: s) (auto simp: bind_res_Inr_iff intro: undo_safe)

lemma kept_Revert:
  assumes k: "kept P safe m n s" and r: "RevertToSnapshot i s = Inr t" and "m \<le> i"
  shows "kept P safe m n t"
proof -
  from r obtain r u j where r: "r \<in> set (validRevisions s)" "rev_id r = i"
    and u: "fold_res undo (rev (drop (rev_journalIndex r) (journal s))) s = Inr u"
    and t: "t = u\<lparr>journal := take (rev_journalIndex r) (journal u), validRevisions := take j (validRevisions u)\<rparr>"
    by (rule RevertToSnapshot_InrE)
  have n: "n \<le> rev_journalIndex r" using k r assms(3) by (auto simp: kept_def)
  then have sub: "set (drop (rev_journalIndex r) (journal s)) \<subseteq> set (drop n (journal s))" by (rule set_drop_subset_set_drop)
  have "P u" by (rule undo_all_safe [OF _ _ u]) (use k sub in \<open>auto simp: kept_def list_all_iff\<close>)
  moreover have "set (drop n (take (rev_journalIndex r) (journal s))) \<subseteq> set (drop n (journal s))"
    unfolding drop_take by (rule set_take_subset)
  ultimately show ?thesis using k n undo_all_keeps [OF u]
    by (auto simp: kept_def t P_bookkeeping list_all_iff dest: in_set_takeD)
qed

end

sublocale journal_fact \<subseteq> step_fact C "grown P safe" "kept P safe m n" m op_ok for m n
  by unfold_locales
    (auto intro: grown_trans kept_grown kept_Snapshot kept_Revert op_grown create_grown simp: ops_fine, simp add: kept_def)

text \<open>An open snapshot is kept by every operation.\<close>

interpretation op: step_fact C "undone C False" "snapshot_open C False s0" "Suc (nextRevisionId s0)" "\<lambda>_. True"
proof
  show "Suc (nextRevisionId s0) \<le> nextRevisionId s" if "snapshot_open C False s0 s" for s
    using that by (auto simp: snapshot_open_def wf_revisions_def)
  show "snapshot_open C False s0 (snd (Snapshot s))" if "snapshot_open C False s0 s" for s
    using open_applyOp [OF that, of OpSnapshot] by simp
qed (auto intro: undone_trans open_undone open_Revert undone_applyOp undone_CreateAccount)

lemma checkZK_undone:
  assumes "checkZK Z from tx s = (err, u)"
  shows "undone (zk_db Z) False s u"
proof -
  have "undone (zk_db Z) False s (SetNonce (zk_db Z) a 1 (CreateAccount (zk_db Z) a (load from (load a s))))" for a
    by (rule undone_trans [OF undone_trans [OF undone_trans [OF undone_load undone_load] undone_CreateAccount] op.step_SetNonce]) simp
  then show ?thesis using assms undone_trans [OF undone_load undone_load] undone_load
    by (auto simp: checkZK_def Exist_def GetCMTBalance_def getStateObject_split Let_def split: if_splits option.splits)
qed

lemma ApplyTransaction_fails:
  assumes V: "interpreter_keeps (\<lambda>_. True) (zk_vm Z)" and s: "snapshot_open (zk_db Z) False s0 s"
    and app: "ApplyTransaction Z tx gp used s = Inr (Inl e, gp', used', t)"
  shows "snapshot_open (zk_db Z) False s0 t \<and> used' = used"
proof -
  from app obtain msg where msg: "AsMessage tx = Inr msg" by (auto simp: ApplyTransaction_def bind_res_Inr_iff)
  obtain err u where u: "checkZK Z (msg_From msg) tx s = (err, u)" by fastforce
  have o: "snapshot_open (zk_db Z) False s0 u" by (rule open_undone [OF s checkZK_undone [OF u]])
  show ?thesis
  proof (cases err)
    case None
    from app msg u None obtain r gp1 v where am: "ApplyMessage (zk_vm Z) msg gp u = Inr (r, gp1, v)"
      by (auto simp: ApplyTransaction_def bind_res_Inr_iff)
    have r: "r = Inl e" "t = v" "used' = used"
      using app msg u None am by (auto simp: ApplyTransaction_def bind_res_Inr_iff split: sum.splits)
    from am obtain r' st where td: "TransitionDb (zk_vm Z) msg (NewStateTransition gp u) = Inr (r', st)" "v = st_state st"
      by (auto simp: ApplyMessage_def bind_res_Inr_iff)
    moreover from this obtain e' where "r' = Inl e'" using am r(1) by (cases r') (auto simp: ApplyMessage_def)
    ultimately have "snapshot_open (zk_db Z) False s0 v"
      using op.K_TransitionDb_fails [OF V _ o] by (auto simp: zk_db_def)
    then show ?thesis using r by simp
  qed (use app msg u o in \<open>auto simp: ApplyTransaction_def\<close>)
qed

section \<open>Calls that fail\<close>

lemma good_Snapshot: "good_state s \<Longrightarrow> good_state (snd (Snapshot s))"
  using snapshot_opens [of s] by (auto simp: snapshot_open_def good_state_def)

lemma fst_Snapshot: "fst (Snapshot s) = nextRevisionId s"
  by (simp add: Snapshot_def)

lemma good_load: "good_state s \<Longrightarrow> good_state (load a s)"
  by (auto simp: good_state_def wf_revisions_def)

lemma same_Snapshot: "same C cmt (snd (Snapshot s)) s"
  by (simp add: same_def Snapshot_def GetLogs_def)

text \<open>Code that runs after a snapshot can be reverted, whatever it did.\<close>

lemma run_reverts:
  assumes V: "interpreter_keeps (\<lambda>_. True) V" and good: "good_state s" and step: "undone (vm_db V) False (snd (Snapshot s)) u"
    and r: "run V fr u = Inr (ret, gas, err, v)" and t: "RevertToSnapshot (nextRevisionId s) v = Inr t"
  shows "same (vm_db V) False t s \<and> good_state t"
proof -
  have "snapshot_open (vm_db V) False s v"
    by (rule op.K_run [OF V refl open_undone [OF snapshot_opens [OF good] step] r])
  from open_reverts [OF this] t show ?thesis by (auto simp: agree_def)
qed

lemma undone_code: "undone (vm_db V) False s (snd (GetCode (vm_db V) addr (load addr s)))"
  by (rule undone_trans [OF undone_load undone_reads(2)])

lemma failed_Call:
  assumes V: "interpreter_keeps (\<lambda>_. True) V" and good: "good_state s"
    and call: "Call V depth caller addr input gas amount s = Inr (ret, gas', Some e, t)"
  shows "same (vm_db V) False t s \<and> good_state t"
  using call
proof (rule Call_paths)
  fix fr g u assume r: "run V fr (call_ready V caller addr amount (snd (Snapshot (load caller s)))) = Inr (ret, g, Some e, u)"
    and "Some e = None \<and> t = u \<and> gas' = g \<or> RevertToSnapshot (nextRevisionId (load caller s)) u = Inr t \<and> gas' = 0"
  then show ?thesis using run_reverts [OF V good_load [OF good] op.step_call_ready [OF refl] r, of t] by auto
qed (use good good_load [OF good_Snapshot [OF good_load [OF good]]] good_load [OF good] same_Snapshot [of "vm_db V" False "load caller s"] in auto)

lemma failed_CallCode:
  assumes V: "interpreter_keeps (\<lambda>_. True) V" and good: "good_state s"
    and call: "CallCode V depth caller addr input gas amount s = Inr (ret, gas', Some e, t)"
  shows "same (vm_db V) False t s \<and> good_state t"
proof -
  let ?s = "load caller s"
  have "t = s \<or> t = ?s \<or> (\<exists>fr g u. run V fr (snd (GetCode (vm_db V) addr (load addr (snd (Snapshot ?s))))) = Inr (ret, g, Some e, u) \<and>
      RevertToSnapshot (nextRevisionId ?s) u = Inr t)"
    using call
    by (auto simp: CallCode_def CanTransfer_def GetBalance_def GetCodeHash_def getStateObject_split Let_def case_prod_unfold bind_res_Inr_iff
        fst_Snapshot split: if_splits)
  then show ?thesis using good good_load [OF good] run_reverts [OF V good_load [OF good] undone_code] by auto
qed

lemma failed_DelegateCall:
  assumes V: "interpreter_keeps (\<lambda>_. True) V" and good: "good_state s"
    and call: "DelegateCall V depth parent addr input gas s = Inr (ret, gas', Some e, t)"
  shows "same (vm_db V) False t s \<and> good_state t"
proof -
  have "t = s \<or> (\<exists>fr g u. run V fr (snd (GetCode (vm_db V) addr (load addr (snd (Snapshot s))))) = Inr (ret, g, Some e, u) \<and>
      RevertToSnapshot (nextRevisionId s) u = Inr t)"
    using call
    by (auto simp: DelegateCall_def GetCodeHash_def getStateObject_split Let_def case_prod_unfold bind_res_Inr_iff fst_Snapshot split: if_splits)
  then show ?thesis using good run_reverts [OF V good undone_code] by auto
qed

end
