(* ===== verification/Zk_Serial.thy ===== *)
theory Zk_Serial
  imports Zk_Kept
begin

text \<open>
  Serial numbers. A zero-knowledge transaction marks its serial number by an account with nonce 1.
  That account stays marked through the rest of the block, so that a second transaction with
  the serial number is refused.
\<close>

section \<open>A marked account\<close>

definition marked :: "stateObject \<Rightarrow> bool" where
  "marked obj \<longleftrightarrow> acc_Nonce (so_data obj) \<noteq> 0 \<and> \<not> suicided obj"

definition spent :: "address \<Rightarrow> StateDB \<Rightarrow> bool" where
  "spent a s \<longleftrightarrow> (\<exists>obj. look s a = Some obj \<and> marked obj)"

definition filed :: "StateDB \<Rightarrow> bool" where
  "filed s \<longleftrightarrow> (\<forall>b obj. mget (stateObjects s) b = Some obj \<longrightarrow> so_address obj = b)"

definition spent_in :: "address set \<Rightarrow> StateDB \<Rightarrow> bool" where
  "spent_in A s \<longleftrightarrow> (\<forall>a\<in>A. spent a s) \<and> filed s"

text \<open>Entries whose undoing leaves the mark, and operations that leave it.\<close>

fun serial_entry :: "address set \<Rightarrow> journalEntry \<Rightarrow> bool" where
  "serial_entry A (createObjectChange b) \<longleftrightarrow> b \<notin> A"
| "serial_entry A (resetObjectChange p) \<longleftrightarrow> (so_address p \<in> A \<longrightarrow> marked p \<and> \<not> deleted p)"
| "serial_entry A (suicideChange b prev _) \<longleftrightarrow> (b \<in> A \<longrightarrow> \<not> prev)"
| "serial_entry A (nonceChange b v) \<longleftrightarrow> (b \<in> A \<longrightarrow> v \<noteq> 0)"
| "serial_entry A _ \<longleftrightarrow> True"

fun serial_op :: "address set \<Rightarrow> stateOp \<Rightarrow> bool" where
  "serial_op A (OpSuicide b) \<longleftrightarrow> b \<notin> A"
| "serial_op A (OpCreateAccount b) \<longleftrightarrow> b \<notin> A"
| "serial_op A (OpSetNonce b v) \<longleftrightarrow> (b \<in> A \<longrightarrow> v \<noteq> 0)"
| "serial_op A _ \<longleftrightarrow> True"

abbreviation serial_grown :: "address set \<Rightarrow> StateDB \<Rightarrow> StateDB \<Rightarrow> bool" where
  "serial_grown A \<equiv> grown (spent_in A) (serial_entry A)"

lemma marked_simps [simp]:
  "marked (obj\<lparr>onDirty := d\<rparr>) = marked obj" "marked (obj\<lparr>touched := d\<rparr>) = marked obj" "marked (obj\<lparr>deleted := d\<rparr>) = marked obj"
  "marked (snd (so_Code C obj)) = marked obj" "marked (snd (so_GetState C k obj)) = marked obj"
  "marked (obj\<lparr>cachedStorage := cs, dirtyStorage := ds\<rparr>) = marked obj"
  by (simp_all add: marked_def so_Code_def so_GetState_def Let_def split: option.split)

lemma spent_setStateObject [simp]:
  "spent a (setStateObject x s) \<longleftrightarrow> (if so_address x = a then \<not> deleted x \<and> marked x else spent a s)"
  by (auto simp: spent_def)

lemma spent_putDirty [simp]:
  "spent a (putDirty x s) \<longleftrightarrow> (if so_address x = a then \<not> deleted x \<and> marked x else spent a s)"
  by (auto simp: spent_def)

lemma spent_cong: "look s = look t \<Longrightarrow> spent a s = spent a t"
  by (simp add: spent_def)

lemma spent_simps [simp]:
  "spent a (load b s) = spent a s" "spent a (appendJournal e s) = spent a s" "spent a (MarkStateObjectDirty b s) = spent a s"
  "spent a (s\<lparr>stateObjectsDirty := d\<rparr>) = spent a s" "spent a (s\<lparr>stateObjectsDestructed := d\<rparr>) = spent a s"
  "spent a (s\<lparr>refund := r\<rparr>) = spent a s" "spent a (s\<lparr>logs := l\<rparr>) = spent a s" "spent a (s\<lparr>logs := l, logSize := n\<rparr>) = spent a s"
  "spent a (s\<lparr>preimages := p\<rparr>) = spent a s" "spent a (s\<lparr>journal := j, validRevisions := v\<rparr>) = spent a s"
  "spent a (s\<lparr>nextRevisionId := m, validRevisions := v\<rparr>) = spent a s"
  by (rule spent_cong; simp)+

lemma spent_mdel: "b \<notin> A \<Longrightarrow> a \<in> A \<Longrightarrow> spent a (s\<lparr>stateObjects := mdel b (stateObjects s)\<rparr>) = spent a s"
  by (auto simp: spent_def look_def' split: option.split)

lemma filed_setStateObject [simp]: "filed s \<Longrightarrow> filed (setStateObject x s)"
  by (auto simp: filed_def setStateObject_def)

lemma filed_cong: "stateObjects s = stateObjects t \<Longrightarrow> filed s = filed t"
  by (simp add: filed_def)

lemma filed_simps [simp]:
  "filed (appendJournal e s) = filed s" "filed (MarkStateObjectDirty b s) = filed s"
  "filed (s\<lparr>stateObjectsDirty := d\<rparr>) = filed s" "filed (s\<lparr>stateObjectsDestructed := d\<rparr>) = filed s"
  "filed (s\<lparr>refund := r\<rparr>) = filed s" "filed (s\<lparr>logs := l\<rparr>) = filed s" "filed (s\<lparr>logs := l, logSize := n\<rparr>) = filed s"
  "filed (s\<lparr>preimages := p\<rparr>) = filed s" "filed (s\<lparr>journal := j, validRevisions := v\<rparr>) = filed s"
  "filed (s\<lparr>nextRevisionId := m, validRevisions := v\<rparr>) = filed s"
  by (rule filed_cong; simp)+

lemma filed_load [simp]: "filed s \<Longrightarrow> filed (load a s)"
  by (simp add: load_def getStateObject_def Let_def split: option.split)

lemma filed_putDirty [simp]: "filed s \<Longrightarrow> filed (putDirty x s)"
  by (simp add: putDirty_def)

lemma filed_mdel: "filed s \<Longrightarrow> filed (s\<lparr>stateObjects := mdel b (stateObjects s)\<rparr>)"
  by (auto simp: filed_def split: if_splits)

lemma filed_look: "look s a = Some obj \<Longrightarrow> filed s \<Longrightarrow> so_address obj = a \<and> \<not> deleted obj"
  by (auto simp: look_def' filed_def split: option.splits if_splits)

lemma spent_look: "spent a s \<Longrightarrow> look s a = Some x \<Longrightarrow> marked x"
  by (simp add: spent_def)

lemma spent_exists: "spent a s \<Longrightarrow> look s a \<noteq> None"
  by (auto simp: spent_def)

section \<open>Every operation keeps the mark\<close>

lemma serial_grownI:
  assumes "\<And>a. a \<in> A \<Longrightarrow> \<forall>b\<in>A. spent b s \<Longrightarrow> filed s \<Longrightarrow> spent a t" and "filed s \<Longrightarrow> filed t"
    and "validRevisions t = validRevisions s" and "nextRevisionId t = nextRevisionId s"
    and "\<forall>a\<in>A. spent a s \<Longrightarrow> filed s \<Longrightarrow> \<exists>es. journal t = journal s @ es \<and> list_all (serial_entry A) es"
  shows "serial_grown A s t"
  using assms by (auto simp: grown_def spent_in_def)

lemma serial_load: "serial_grown A s (load b s)"
  by (rule serial_grownI) simp_all

lemma serial_createObject:
  assumes "createObject C b s = (x, prev, t)" and "look s b = None \<or> b \<notin> A"
  shows "serial_grown A s t"
proof (rule serial_grownI)
  have t: "t = setStateObject ((newObject b (zeroAccount C))\<lparr>onDirty := False\<rparr>)
      (appendJournal (case look s b of None \<Rightarrow> createObjectChange b | Some p \<Rightarrow> resetObjectChange p) (MarkStateObjectDirty b (load b s)))"
    using assms by (auto simp: createObject_def getStateObject_split Let_def)
  show "validRevisions t = validRevisions s" "nextRevisionId t = nextRevisionId s" by (simp_all add: t)
  show "filed s \<Longrightarrow> filed t" by (simp add: t)
  assume sp: "\<forall>a\<in>A. spent a s" "filed s"
  then have ne: "b \<notin> A" using assms(2) by (auto dest: spent_exists)
  then show "spent a t" if "a \<in> A" for a using sp that by (auto simp: t)
  show "\<exists>es. journal t = journal s @ es \<and> list_all (serial_entry A) es"
    using ne sp filed_look [of s b] by (auto simp: t split: option.split)
qed

lemma serial_GetOrNew:
  assumes "GetOrNewStateObject C b s = (x, t)"
  shows "serial_grown A s t \<and> (filed s \<longrightarrow> look t b = Some x)"
proof (cases "look s b")
  case None
  obtain y prev s' where c: "createObject C b (load b s) = (y, prev, s')" by (metis prod_cases3)
  then have "t = s'" "x = y" using assms None by (simp_all add: GetOrNewStateObject_def getStateObject_split)
  moreover have "look s' b = Some y" using c by (auto simp: createObject_def getStateObject_split Let_def)
  ultimately show ?thesis using grown_trans [OF serial_load serial_createObject [OF c]] None by simp
next
  case (Some obj)
  then show ?thesis using assms by (auto simp: GetOrNewStateObject_def getStateObject_split serial_load)
qed

lemma serial_withObject:
  assumes "\<And>x s. look s b = Some x \<Longrightarrow> filed s \<Longrightarrow> so_address x = b \<Longrightarrow> \<not> deleted x \<Longrightarrow> serial_grown A s (g x s)"
  shows "serial_grown A s (withObject C b g s)"
proof -
  obtain x t where g: "GetOrNewStateObject C b s = (x, t)" by fastforce
  note k = serial_GetOrNew [OF g, of A]
  show ?thesis
  proof (cases "spent_in A s")
    case True
    then have "filed t" "look t b = Some x" using k by (auto simp: grown_def spent_in_def)
    then have "serial_grown A t (g x t)" using assms filed_look by blast
    then show ?thesis using k grown_trans by (auto simp: withObject_def g)
  qed (simp add: grown_def)
qed

lemma serial_writes:
  assumes "look s b = Some x" and "filed s" and x: "so_address x = b" "\<not> deleted x"
  shows "serial_grown A s (so_SetBalance v x s)" "serial_grown A s (so_AddBalance C v x s)" "serial_grown A s (so_SubBalance v x s)"
    "serial_grown A s (setCMT c x s)" "serial_grown A s (so_SetCode C h code x s)" "serial_grown A s (so_SetState C k w x s)"
    "(b \<in> A \<Longrightarrow> nonce \<noteq> 0) \<Longrightarrow> serial_grown A s (so_SetNonce nonce x s)"
proof -
  have m: "marked x" if "\<forall>a\<in>A. spent a s" "b \<in> A" using assms(1) that spent_look by blast
  have bal: "serial_grown A s (so_SetBalance v x s)" for v
    by (rule serial_grownI) (use x m in \<open>auto simp: so_SetBalance_def setBalance_def marked_def\<close>)
  then show "serial_grown A s (so_SetBalance v x s)" "serial_grown A s (so_SubBalance v x s)" by (simp_all add: so_SubBalance_def)
  have "serial_grown A s (touch x s)" by (rule serial_grownI) (use x m in \<open>auto simp: touch_def\<close>)
  with bal show "serial_grown A s (so_AddBalance C v x s)" by (simp add: so_AddBalance_def)
  show "serial_grown A s (setCMT c x s)"
    by (rule serial_grownI) (use x m in \<open>auto simp: setCMT_def marked_def\<close>)
  show "serial_grown A s (so_SetCode C h code x s)"
    by (rule serial_grownI) (use x m in \<open>auto simp: so_SetCode_def setCode_def Let_def case_prod_unfold marked_def so_Code_def split: option.splits\<close>)
  show "serial_grown A s (so_SetState C k w x s)"
    by (rule serial_grownI) (use x m in \<open>auto simp: so_SetState_def setState_def Let_def case_prod_unfold\<close>)
  show "serial_grown A s (so_SetNonce nonce x s)" if "b \<in> A \<Longrightarrow> nonce \<noteq> 0"
    by (rule serial_grownI) (use x m that in \<open>auto simp: so_SetNonce_def setNonce_def marked_def\<close>)
qed

lemma serial_CreateAccount: "look s b = None \<or> b \<notin> A \<Longrightarrow> serial_grown A s (CreateAccount C b s)"
proof -
  assume b: "look s b = None \<or> b \<notin> A"
  obtain x prev t where c: "createObject C b s = (x, prev, t)" by (metis prod_cases3)
  note k = serial_createObject [OF c b]
  have x: "so_address x = b" "prev = look s b" using c by (auto simp: createObject_def getStateObject_split Let_def)
  show ?thesis
  proof (cases prev)
    case (Some p)
    then have "b \<notin> A" using b x by simp
    then have "serial_grown A t (setStateObject (x\<lparr>so_data := d\<rparr>) t)" for d
      by (intro serial_grownI) (auto simp: x)
    then show ?thesis using grown_trans [OF k] Some by (simp add: CreateAccount_def c)
  qed (use k c in \<open>simp add: CreateAccount_def\<close>)
qed

lemma serial_Suicide: "b \<notin> A \<Longrightarrow> serial_grown A s (snd (Suicide b s))"
proof (cases "look s b")
  case (Some x)
  assume "b \<notin> A"
  then show ?thesis using filed_look [OF Some] Some
    by (intro serial_grownI) (auto simp: Suicide_def getStateObject_split Let_def markSuicided_def)
qed (simp add: Suicide_def getStateObject_split serial_load)

lemma serial_reads: "serial_grown A s (snd (GetCode C b s))" "serial_grown A s (snd (GetState C b k s))"
proof -
  have *: "serial_grown A s (setStateObject y (load b s))" if "look s b = Some x" "so_address y = so_address x" "deleted y = deleted x" "marked y = marked x" for x y
    using that filed_look [OF that(1)] spent_look [OF _ that(1)] by (intro serial_grownI) auto
  show "serial_grown A s (snd (GetCode C b s))"
    by (cases "look s b") (auto simp: GetCode_def getStateObject_split Let_def case_prod_unfold serial_load intro!: *)
  show "serial_grown A s (snd (GetState C b k s))"
    by (cases "look s b") (auto simp: GetState_def getStateObject_split Let_def case_prod_unfold serial_load intro!: *)
qed

lemma serial_applyOp:
  assumes "serial_op A op" and "applyOp C op s = Inr t" and "op \<noteq> OpSnapshot" and "\<And>k. op \<noteq> OpRevert k"
  shows "serial_grown A s t"
proof (cases op)
  case (OpAddLog l)
  then show ?thesis using assms by (intro serial_grownI) (auto simp: AddLog_def Let_def)
next
  case (OpAddRefund v)
  then show ?thesis using assms by (intro serial_grownI) (auto simp: AddRefund_def)
next
  case (OpAddPreimage k v)
  then show ?thesis using assms by (intro serial_grownI) (auto simp: AddPreimage_def)
qed (use assms in \<open>auto simp: AddBalance_def SubBalance_def SetBalance_def SetNonce_def SetCMT_def SetCode_def SetState_def
      Exist_def getStateObject_split Let_def
      intro!: serial_withObject serial_writes serial_CreateAccount serial_Suicide serial_reads serial_load\<close>)

lemma serial_undo:
  assumes "spent_in A s" and "serial_entry A e" and "undo e s = Inr t"
  shows "spent_in A t"
proof -
  have sp: "\<forall>a\<in>A. spent a s" "filed s" using assms(1) by (simp_all add: spent_in_def)
  have obj: "so_address x = b \<and> \<not> deleted x \<and> (b \<in> A \<longrightarrow> marked x)" if "look s b = Some x" for b x
    using filed_look [OF that sp(2)] that sp(1) spent_look by blast
  show ?thesis using assms(2,3) sp
    by (cases e) (auto simp: spent_in_def onObject_cases getStateObject_split Let_def setBalance_def setNonce_def setCode_def setState_def
        spent_mdel filed_mdel marked_def dest!: obj split: option.splits if_splits)
qed

interpretation sn: journal_fact C "spent_in A" "serial_entry A" "serial_op A"
proof
  show "spent_in A (s\<lparr>nextRevisionId := k, validRevisions := v\<rparr>) = spent_in A s" "spent_in A (s\<lparr>journal := j, validRevisions := v\<rparr>) = spent_in A s"
    for s k v j by (simp_all add: spent_in_def)
  show "serial_grown A s (CreateAccount C a s)" if "look s a = None" for s a using that by (simp add: serial_CreateAccount)
qed (simp_all add: serial_undo serial_applyOp)

section \<open>Transitions\<close>

text \<open>
  The mark survives a transition when the sender is not the marked account itself and the address
  of a new contract is none of the marked ones.
\<close>

lemma serial_zkBalance: "serial_grown A s (zkBalance C msg s)"
  using sn.step_ops(1,2) [of A s C] by (auto simp: zkBalance_def tx_codes Let_def cong: if_cong)

lemma serial_refundGas: "spent_in A (st_state st) \<Longrightarrow> spent_in A (st_state (refundGas C msg st))"
proof -
  assume "spent_in A (st_state st)"
  moreover have "spent_in A (s\<lparr>refund := r\<rparr>) = spent_in A s" for s r by (simp add: spent_in_def)
  moreover have "spent_in A (AddBalance C a v s)" if "spent_in A s" for a v s using sn.step_ops(1) [of A s C] that by (simp add: grown_def)
  moreover have "spent_in A (ensureAccount C a s)" if "spent_in A s" for a s using sn.step_ensureAccount [of A s C] that by (simp add: grown_def)
  ultimately show ?thesis by (simp add: refundGas_def Let_def)
qed

definition fresh_sender :: "vmEnv \<Rightarrow> address set \<Rightarrow> Message \<Rightarrow> bool" where
  "fresh_sender V A msg \<longleftrightarrow> msg_From msg \<notin> A \<and> (msg_To msg = None \<longrightarrow> (\<forall>n. vm_CreateAddress V (msg_From msg) n \<notin> A))"

lemma serial_TransitionDb:
  assumes V: "interpreter_keeps (serial_op A) V" and sp: "spent_in A s" "numbered s" and fresh: "fresh_sender V A msg"
    and t: "TransitionDb V msg (NewStateTransition gp s) = Inr (Inr (ret, required, used), st)"
  shows "spent_in A (st_state st)"
  using t
proof (rule TransitionDb_paths)
  let ?C = "vm_db V"
  let ?kept = "kept (spent_in A) (serial_entry A) (nextRevisionId s) (length (journal s))"
  fix st1 ig ret' gas' err u st2
  assume p: "preCheck ?C msg (NewStateTransition gp s) = (None, st1)"
    and e: "execMessage V msg (st_gas st1 - ig) (ensureAccount ?C (msg_From msg) (st_state st1)) = Inr (ret', gas', err, u)"
    and st2: "st2 = refundGas ?C msg (st1\<lparr>st_gas := gas', st_state := u\<rparr>)"
    and st: "st = st2\<lparr>st_state := zkBalance ?C msg (AddBalance ?C (vm_Coinbase V) (gasUsed st2 * msg_GasPrice msg) (st_state st2))\<rparr>"
  have ens: "serial_grown A x (ensureAccount ?C b x)" and ops: "serial_grown A x (AddBalance ?C b y x)"
    "serial_grown A x (SubBalance ?C b y x)" "serial_grown A x (load b x)" for x b y
    by (rule sn.step_ensureAccount sn.step_ops)+
  from p have "serial_grown A s (ensureAccount ?C (msg_From msg) (st_state st1))"
  proof (rule preCheck_paths)
    fix v assume v: "v = ensureAccount ?C (msg_From msg) s \<or> v = load (msg_From msg) (ensureAccount ?C (msg_From msg) s)"
      and st1: "st1 = \<lparr>st_gp = gp - msg_Gas msg, st_gas = word_of_int \<bar>msg_Gas msg\<bar>, st_initialGas = msg_Gas msg,
       st_state = SubBalance ?C (msg_From msg) (msg_Gas msg * msg_GasPrice msg) (load (msg_From msg) (ensureAccount ?C (msg_From msg) v))\<rparr>"
    have "serial_grown A s v" using v ens grown_trans [OF ens ops(3)] by blast
    from grown_trans [OF grown_trans [OF grown_trans [OF grown_trans [OF this ens] ops(3)] ops(2)] ens] show ?thesis by (simp add: st1)
  qed
  note k = kept_grown [OF kept_start [where P = "spent_in A", OF sp] this]
  have "?kept u" by (rule sn.K_execMessage [OF V refl k _ _ _ e]) (use fresh in \<open>simp_all add: fresh_sender_def\<close>)
  then have "spent_in A (st_state st2)" unfolding st2 by (intro serial_refundGas) (simp add: keptD)
  moreover have "serial_grown A (st_state st2) (st_state st)"
    unfolding st by (simp add: grown_trans [OF ops(1) serial_zkBalance])
  ultimately show ?thesis by (simp add: grown_def)
qed

section \<open>Writing to the trie\<close>

lemma mget_spent: "spent a s \<Longrightarrow> mget (stateObjects s) a = Some obj \<Longrightarrow> marked obj \<and> \<not> deleted obj"
  by (auto simp: spent_def look_def' split: if_splits)

lemma spent_trie: "spent a s \<Longrightarrow> mget (stateObjects s) a \<noteq> None \<or> b \<noteq> a \<Longrightarrow> spent a (s\<lparr>sdb_trie := mput b d (sdb_trie s)\<rparr>)"
  by (auto simp: spent_def look_def' split: option.splits)

lemma spent_trie_del: "spent a s \<Longrightarrow> b \<noteq> a \<Longrightarrow> spent a (s\<lparr>sdb_trie := mdel b (sdb_trie s)\<rparr>)"
  by (auto simp: spent_def look_def' split: option.splits)

lemma filed_trie [simp]: "filed (s\<lparr>sdb_trie := t\<rparr>) = filed s"
  by (rule filed_cong) simp

lemma updateRoot_fields [simp]:
  "so_address (updateRoot C obj) = so_address obj" "deleted (updateRoot C obj) = deleted obj" "marked (updateRoot C obj) = marked obj"
  by (simp_all add: updateRoot_def updateTrie_def marked_def Let_def)

lemma serial_flushObject:
  assumes "spent_in A s" and "flushObject C d b s = Inr t"
  shows "spent_in A t"
proof -
  obtain obj where obj: "mget (stateObjects s) b = Some obj"
    using assms(2) by (cases "mget (stateObjects s) b") (simp_all add: flushObject_def)
  have sp: "\<forall>a\<in>A. spent a s" "filed s" "so_address obj = b" using assms(1) obj by (auto simp: spent_in_def filed_def)
  have m: "marked obj \<and> \<not> deleted obj" if "b \<in> A" using mget_spent [OF _ obj] sp that by blast
  show ?thesis
  proof (cases "suicided obj \<or> d \<and> so_empty C obj")
    case True
    then have t: "t = deleteStateObject obj s" using assms(2) by (simp add: flushObject_def obj)
    have "b \<notin> A" using True m by (auto simp: marked_def so_empty_def)
    then have "spent a t" if "a \<in> A" for a
      using sp that spent_trie_del [of a "setStateObject (obj\<lparr>deleted := True\<rparr>) s" b]
      by (auto simp: t deleteStateObject_def)
    then show ?thesis using sp by (simp add: spent_in_def t deleteStateObject_def)
  next
    case False
    let ?s = "setStateObject (updateRoot C obj) s"
    have t: "t = ?s\<lparr>sdb_trie := mput b (so_data (updateRoot C obj)) (sdb_trie ?s)\<rparr>"
      using assms(2) False sp(3) by (simp add: flushObject_def obj updateStateObject_def Let_def split: if_splits)
    have "spent a ?s" "mget (stateObjects ?s) a \<noteq> None \<or> b \<noteq> a" if "a \<in> A" for a
      using sp that m spent_setStateObject [of a "updateRoot C obj" s] by (auto simp: setStateObject_def spent_in_def)
    then have "\<forall>a\<in>A. spent a t" unfolding t by (blast intro: spent_trie)
    then show ?thesis using sp unfolding spent_in_def by (simp add: t)
  qed
qed

lemma serial_IntermediateRoot:
  assumes "spent_in A s" and "IntermediateRoot C d s = Inr t"
  shows "spent_in A t \<and> numbered t"
proof -
  from assms(2) obtain u where u: "fold_res (flushObject C d) (mkeys (stateObjectsDirty s)) s = Inr u" and t: "t = clearJournalAndRefund u"
    by (auto simp: IntermediateRoot_def bind_res_Inr_iff)
  have "fold_res (flushObject C d) ks s = Inr u \<Longrightarrow> spent_in A s \<Longrightarrow> spent_in A u" for ks s
    by (induction ks arbitrary: s) (auto simp: bind_res_Inr_iff intro: serial_flushObject)
  from this [OF u assms(1)] show ?thesis
    by (simp add: t clearJournalAndRefund_def spent_in_def numbered_def spent_def filed_def look_def')
qed

section \<open>Transactions and blocks\<close>

definition spends :: "Transaction \<Rightarrow> bool" where
  "spends tx \<longleftrightarrow> tx_TxType tx = TxZK \<and> tx_TxCode tx \<in> {TxConvert, TxRedeem, TxDeposit, TxWithdraw}"

text \<open>The addresses of the serial numbers of a block. The zero serial number is not checked.\<close>

definition serials :: "Transaction list \<Rightarrow> address list" where
  "serials txs = map (\<lambda>tx. snAddress (tx_ZKSN tx)) (filter (\<lambda>tx. spends tx \<and> tx_ZKSN tx \<noteq> 0) txs)"

lemma mark_account:
  assumes "spent_in A s" and "numbered s"
  shows "spent_in (insert a A) (SetNonce C a 1 (CreateAccount C a s)) \<and> numbered (SetNonce C a 1 (CreateAccount C a s))"
proof -
  let ?u = "CreateAccount C a s" and ?t = "SetNonce C a 1 (CreateAccount C a s)"
  have u: "spent_in (A - {a}) ?u \<and> validRevisions ?u = validRevisions s \<and> nextRevisionId ?u = nextRevisionId s"
    using serial_CreateAccount [of s a "A - {a}" C] assms(1) by (auto simp: grown_def spent_in_def)
  obtain x where x: "look ?u a = Some x" "\<not> suicided x"
    by (cases "look s a") (auto simp: CreateAccount_def createObject_def getStateObject_split Let_def)
  have "?t = so_SetNonce 1 x (load a ?u)" using x by (simp add: SetNonce_def withObject_def GetOrNewStateObject_def getStateObject_split)
  moreover have "so_address x = a \<and> \<not> deleted x" using filed_look [OF x(1)] u by (simp add: spent_in_def)
  ultimately show ?thesis using u x(2) assms(2)
    by (auto simp: spent_in_def so_SetNonce_def setNonce_def marked_def numbered_def)
qed

lemma checkZK_marks:
  assumes "checkZK Z from tx s = (None, t)" and sp: "spent_in A s" "numbered s"
  shows "spent_in (A \<union> set (serials [tx])) t \<and> numbered t \<and> distinct (serials [tx]) \<and> A \<inter> set (serials [tx]) = {}"
proof (cases "spends tx")
  case True
  let ?a = "snAddress (tx_ZKSN tx)"
  have ex: "look s ?a = None \<or> tx_ZKSN tx = 0" and t: "t = SetNonce (zk_db Z) ?a 1 (CreateAccount (zk_db Z) ?a (load from (load ?a s)))"
    using assms(1) True
    by (auto simp: checkZK_def spends_def Exist_def GetCMTBalance_def getStateObject_split Let_def split: if_splits option.splits)
  have "spent_in A (load from (load ?a s))" "numbered (load from (load ?a s))"
    using sp by (simp_all add: spent_in_def numbered_def)
  from mark_account [OF this] have "spent_in (insert ?a A) t \<and> numbered t" by (simp add: t)
  moreover have "?a \<notin> A" if "tx_ZKSN tx \<noteq> 0" using ex that sp(1) by (auto simp: spent_in_def dest: spent_exists)
  ultimately show ?thesis using True by (auto simp: serials_def spent_in_def)
next
  case False
  then show ?thesis using assms by (auto simp: checkZK_def spends_def serials_def)
qed

text \<open>
  What a block relies on: the interpreter and the creation of contracts leave the marked accounts
  alone, and the marked accounts send no transactions.
\<close>

definition serials_apart :: "zkEnv \<Rightarrow> address set \<Rightarrow> Transaction list \<Rightarrow> bool" where
  "serials_apart Z A txs \<longleftrightarrow> interpreter_keeps (serial_op A) (zk_vm Z) \<and>
     (\<forall>tx\<in>set txs. \<forall>msg. AsMessage tx = Inr msg \<longrightarrow> fresh_sender (zk_vm Z) A msg)"

lemma serial_op_mono: "A \<subseteq> B \<Longrightarrow> serial_op B op \<Longrightarrow> serial_op A op"
  by (cases op) auto

lemma interpreter_keeps_mono: "(\<And>op. P op \<Longrightarrow> Q op) \<Longrightarrow> interpreter_keeps P V \<Longrightarrow> interpreter_keeps Q V"
  unfolding interpreter_keeps_def by (blast intro: list.pred_mono_strong)

lemma serials_apart_mono: "serials_apart Z B txs \<Longrightarrow> A \<subseteq> B \<Longrightarrow> set txs' \<subseteq> set txs \<Longrightarrow> serials_apart Z A txs'"
  unfolding serials_apart_def fresh_sender_def
  by (blast intro: interpreter_keeps_mono serial_op_mono)

lemma ApplyTransaction_marks:
  assumes apart: "serials_apart Z (A \<union> set (serials [tx])) [tx]" and sp: "spent_in A s" "numbered s"
    and app: "ApplyTransaction Z tx gp used s = Inr (Inr receipt, gp', used', t)"
  shows "spent_in (A \<union> set (serials [tx])) t \<and> numbered t \<and> distinct (serials [tx]) \<and> A \<inter> set (serials [tx]) = {}"
proof -
  let ?B = "A \<union> set (serials [tx])" and ?V = "zk_vm Z"
  from app show ?thesis
  proof (rule ApplyTransaction_paths)
    fix msg u ret gas v
    assume msg: "AsMessage tx = Inr msg" and u: "checkZK Z (msg_From msg) tx s = (None, u)"
      and am: "ApplyMessage ?V msg gp u = Inr (Inr (ret, gas), gp', v)" and ir: "IntermediateRoot (zk_db Z) (vm_IsEIP158 ?V) v = Inr t"
    note c = checkZK_marks [OF u sp]
    from am obtain st required where td: "TransitionDb ?V msg (NewStateTransition gp u) = Inr (Inr (ret, required, gas), st)" "v = st_state st"
      by (rule ApplyMessage_paths)
    have "spent_in ?B v" unfolding td(2)
      by (rule serial_TransitionDb [OF _ _ _ _ td(1)]) (use c apart msg in \<open>auto simp: serials_apart_def\<close>)
    from serial_IntermediateRoot [OF this ir] show ?thesis using c by simp
  qed
qed

lemma serials_Cons: "serials (tx # txs) = serials [tx] @ serials txs"
  by (simp add: serials_def)

lemma serials_sdb_Prepare: "spent_in A (sdb_Prepare h b i s) = spent_in A s" "numbered (sdb_Prepare h b i s) = numbered s"
  by (simp_all add: spent_in_def spent_def filed_def look_def' sdb_Prepare_def numbered_def split: option.split)

lemma processTxs_marks:
  assumes "serials_apart Z (A \<union> set (serials txs)) txs" and "spent_in A (pr_state p)" "numbered (pr_state p)"
    and "processTxs Z block txs p = Inr (Inr q)"
  shows "spent_in (A \<union> set (serials txs)) (pr_state q) \<and> numbered (pr_state q) \<and> distinct (serials txs) \<and> A \<inter> set (serials txs) = {}"
  using assms
proof (induction txs arbitrary: A p)
  case (Cons tx txs)
  from Cons.prems(4) obtain receipt gp used s p'
    where a: "ApplyTransaction Z tx (pr_gp p) (pr_usedGas p) (sdb_Prepare (zk_txHash Z tx) (b_Hash block) (pr_index p) (pr_state p))
        = Inr (Inr receipt, gp, used, s)"
      and r: "processTxs Z block txs p' = Inr (Inr q)" "pr_state p' = s"
    by (rule processTxs_ConsE) fastforce
  let ?A = "A \<union> set (serials [tx])"
  have "serials_apart Z ?A [tx]" by (rule serials_apart_mono [OF Cons.prems(1)]) (auto simp: serials_Cons [of tx txs])
  from ApplyTransaction_marks [OF this _ _ a] Cons.prems(2,3)
  have 1: "spent_in ?A s \<and> numbered s \<and> distinct (serials [tx]) \<and> A \<inter> set (serials [tx]) = {}" by (simp add: serials_sdb_Prepare)
  have "serials_apart Z (?A \<union> set (serials txs)) txs" by (rule serials_apart_mono [OF Cons.prems(1)]) (auto simp: serials_Cons [of tx txs])
  from Cons.IH [OF this _ _ r(1)] 1 r(2) show ?case by (auto simp: serials_Cons [of tx txs] Un_assoc)
qed (simp add: serials_def)

end
