(* ===== verification/Zk_Gas.thy ===== *)
theory Zk_Gas
  imports Zk_Kept
begin

text \<open>
  The gas of a block. The refund counter is never negative, a call returns no more gas than it was given,
  a transition takes from the block's pool what it reports as used, and a block uses no
  more gas than its limit.
\<close>

section \<open>The refund counter\<close>

fun refund_entry :: "journalEntry \<Rightarrow> bool" where
  "refund_entry (refundChange v) \<longleftrightarrow> 0 \<le> v"
| "refund_entry _ \<longleftrightarrow> True"

fun refund_op :: "stateOp \<Rightarrow> bool" where
  "refund_op (OpAddRefund v) \<longleftrightarrow> 0 \<le> v"
| "refund_op _ \<longleftrightarrow> True"

definition refund_ok :: "StateDB \<Rightarrow> bool" where
  "refund_ok s \<longleftrightarrow> 0 \<le> refund s"

abbreviation refund_grown :: "StateDB \<Rightarrow> StateDB \<Rightarrow> bool" where
  "refund_grown \<equiv> grown refund_ok refund_entry"

lemma refund_grownI:
  assumes "refund t = refund s" "validRevisions t = validRevisions s" "nextRevisionId t = nextRevisionId s"
    and "\<exists>es. journal t = journal s @ es \<and> list_all refund_entry es"
  shows "refund_grown s t"
  using assms by (simp add: grown_def refund_ok_def)

lemma refund_load: "refund_grown s (load a s)"
  by (rule refund_grownI) simp_all

lemma refund_createObject: "createObject C b s = (x, prev, t) \<Longrightarrow> refund_grown s t"
  by (rule refund_grownI) (auto simp: createObject_def getStateObject_split Let_def split: option.splits)

lemma refund_GetOrNew: "GetOrNewStateObject C b s = (x, t) \<Longrightarrow> refund_grown s t"
  by (auto simp: GetOrNewStateObject_def getStateObject_split split: option.splits prod.splits
      intro: refund_load grown_trans [OF refund_load refund_createObject])

lemma refund_withObject:
  assumes "\<And>x s. refund_grown s (g x s)"
  shows "refund_grown s (withObject C b g s)"
  using assms by (auto simp: withObject_def intro: grown_trans [OF refund_GetOrNew] split: prod.splits)

lemma refund_writes:
  "refund_grown s (so_SetBalance v x s)" "refund_grown s (so_AddBalance C v x s)" "refund_grown s (so_SubBalance v x s)"
  "refund_grown s (setCMT c x s)" "refund_grown s (so_SetCode C h code x s)" "refund_grown s (so_SetState C k w x s)"
  "refund_grown s (so_SetNonce nonce x s)"
  by (rule refund_grownI; simp add: so_SetBalance_def setBalance_def so_AddBalance_def touch_def so_SubBalance_def setCMT_def
      so_SetCode_def setCode_def so_SetState_def setState_def so_SetNonce_def setNonce_def Let_def case_prod_unfold)+

lemma refund_CreateAccount: "refund_grown s (CreateAccount C b s)"
proof -
  obtain x prev t where c: "createObject C b s = (x, prev, t)" by (metis prod_cases3)
  have "refund_grown t (setStateObject y t)" for y by (rule refund_grownI) simp_all
  then show ?thesis using refund_createObject [OF c] grown_trans [OF refund_createObject [OF c]]
    by (auto simp: CreateAccount_def c split: option.split)
qed

lemma refund_others:
  "refund_grown s (snd (Suicide b s))" "refund_grown s (snd (GetCode C b s))" "refund_grown s (snd (GetState C b k s))"
  "refund_grown s (AddLog l s)" "refund_grown s (AddPreimage k2 v s)" "refund_grown s (snd (Exist b s))"
  by (rule refund_grownI; simp add: Suicide_def GetCode_def GetState_def AddLog_def AddPreimage_def Exist_def markSuicided_def
      getStateObject_split Let_def case_prod_unfold split: option.split)+

lemma refund_applyOp:
  assumes "refund_op op" and "applyOp C op s = Inr t" and "op \<noteq> OpSnapshot" and "\<And>k. op \<noteq> OpRevert k"
  shows "refund_grown s t"
proof (cases op)
  case (OpAddRefund v)
  then show ?thesis using assms by (auto simp: AddRefund_def grown_def refund_ok_def)
qed (use assms in \<open>auto simp: AddBalance_def SubBalance_def SetBalance_def SetNonce_def SetCMT_def SetCode_def SetState_def
      intro!: refund_withObject refund_writes refund_CreateAccount refund_others\<close>)

lemma refund_undo: "refund_ok s \<Longrightarrow> refund_entry e \<Longrightarrow> undo e s = Inr t \<Longrightarrow> refund_ok t"
  by (cases e) (auto simp: refund_ok_def onObject_cases getStateObject_split Let_def setBalance_def setNonce_def setCode_def setState_def
      split: option.splits if_splits)

interpretation rf: journal_fact C refund_ok refund_entry refund_op
proof
  show "refund_ok (s\<lparr>nextRevisionId := k, validRevisions := v\<rparr>) = refund_ok s" "refund_ok (s\<lparr>journal := j, validRevisions := v\<rparr>) = refund_ok s"
    for s k v j by (simp_all add: refund_ok_def)
qed (simp_all add: refund_undo refund_applyOp refund_CreateAccount)

section \<open>Calls return no more gas than they are given\<close>

lemma gas_run:
  assumes "interpreter_keeps op_ok V" and "run V fr s = Inr (ret, gas, err, t)"
  shows "gas \<le> fr_gas fr"
proof (cases "vm_precompiled V (fr_codeAddr fr) = None \<and> fr_code fr \<noteq> []")
  case True
  obtain ops ret' gas' err' where i: "vm_interpret V fr s = (ops, ret', gas', err')" by (metis prod_cases4)
  then have "gas' = gas" using assms(2) True by (auto simp: run_def bind_res_Inr_iff)
  then show ?thesis using assms(1) i unfolding interpreter_keeps_def by blast
qed (use assms(2) in \<open>auto simp: run_def Let_def word_sub_le split: option.splits prod.splits if_splits\<close>)

lemma gas_Call:
  assumes "interpreter_keeps op_ok V" and "Call V depth caller addr input gas amount s = Inr (ret, gas', err, t)"
  shows "gas' \<le> gas"
  using assms(2) by (rule Call_paths) (auto dest: gas_run [OF assms(1)])

lemma gas_Create:
  assumes "interpreter_keeps op_ok V" and "Create V depth caller code gas amount s = Inr (ret, a, gas', err, t)"
  shows "gas' \<le> gas"
  using assms(2)
proof (rule Create_paths)
  fix fr a r1 g1 e1 u1 r2 g2 u2
  assume g: "fr_gas fr = gas" "run V fr (create_ready V caller a amount (snd (Snapshot (create_base V caller s)))) = Inr (r1, g1, e1, u1)"
    "storeCode V a (r1, g1, e1, u1) = (r2, g2, err, u2)" "t = u2 \<and> gas' = g2 \<or> RevertToSnapshot (nextRevisionId (create_base V caller s)) u2 = Inr t \<and> gas' = 0"
  have "g2 \<le> g1" using g(3) by (auto simp: storeCode_def Let_def word_sub_le not_less split: if_splits)
  then show ?thesis using g gas_run [OF assms(1) g(2)] by (auto intro: order_trans)
qed auto

lemma gas_execMessage:
  assumes "interpreter_keeps op_ok V" and "execMessage V msg gas s = Inr (ret, gas', err, t)"
  shows "gas' \<le> gas"
  using assms(2) by (rule execMessage_paths) (auto dest: gas_Call [OF assms(1)] gas_Create [OF assms(1)])

section \<open>Transitions and blocks\<close>

lemma gas_TransitionDb:
  assumes V: "interpreter_keeps refund_op V" and s: "refund_ok s" "numbered s" and gas: "0 \<le> msg_Gas msg"
    and t: "TransitionDb V msg (NewStateTransition gp s) = Inr (Inr (ret, required, used), st)"
  shows "0 \<le> used \<and> used \<le> msg_Gas msg \<and> st_gp st = gp - used \<and> used \<le> gp"
  using t
proof (rule TransitionDb_paths)
  let ?C = "vm_db V"
  fix st1 ig ret' gas' err u st2
  assume p: "preCheck ?C msg (NewStateTransition gp s) = (None, st1)" and ig: "ig \<le> st_gas st1"
    and e: "execMessage V msg (st_gas st1 - ig) (ensureAccount ?C (msg_From msg) (st_state st1)) = Inr (ret', gas', err, u)"
    and st2: "st2 = refundGas ?C msg (st1\<lparr>st_gas := gas', st_state := u\<rparr>)"
    and st: "st = st2\<lparr>st_state := zkBalance ?C msg (AddBalance ?C (vm_Coinbase V) (gasUsed st2 * msg_GasPrice msg) (st_state st2))\<rparr>"
    and used: "used = gasUsed st"
  have ens: "refund_grown x (ensureAccount ?C b x)" and ops: "refund_grown x (AddBalance ?C b y x)"
    "refund_grown x (SubBalance ?C b y x)" "refund_grown x (load b x)" for x b y
    by (rule rf.step_ensureAccount rf.step_ops)+
  have "uint (st_gas st1) = msg_Gas msg \<and> st_initialGas st1 = msg_Gas msg \<and> msg_Gas msg < 2 ^ 64 \<and> msg_Gas msg \<le> gp \<and>
      st_gp st1 = gp - msg_Gas msg \<and> refund_grown s (ensureAccount ?C (msg_From msg) (st_state st1))" (is ?pre)
    using p
  proof (rule preCheck_paths)
    fix v assume v: "v = ensureAccount ?C (msg_From msg) s \<or> v = load (msg_From msg) (ensureAccount ?C (msg_From msg) s)"
      and st1: "st1 = \<lparr>st_gp = gp - msg_Gas msg, st_gas = word_of_int \<bar>msg_Gas msg\<bar>, st_initialGas = msg_Gas msg,
       st_state = SubBalance ?C (msg_From msg) (msg_Gas msg * msg_GasPrice msg) (load (msg_From msg) (ensureAccount ?C (msg_From msg) v))\<rparr>"
      and g: "\<bar>msg_Gas msg\<bar> < 2 ^ 64" "msg_Gas msg \<le> gp"
    have "refund_grown s v" using v ens grown_trans [OF ens ops(3)] by blast
    from grown_trans [OF grown_trans [OF grown_trans [OF grown_trans [OF this ens] ops(3)] ops(2)] ens]
    show ?pre using g gas by (simp add: st1 uint_word_of_int_eq take_bit_int_eq_self)
  qed
  then have st1: "uint (st_gas st1) = msg_Gas msg" "st_initialGas st1 = msg_Gas msg" "msg_Gas msg < 2 ^ 64" "msg_Gas msg \<le> gp"
    "st_gp st1 = gp - msg_Gas msg" "refund_grown s (ensureAccount ?C (msg_From msg) (st_state st1))" by blast+
  note k = kept_grown [OF kept_start [where P = refund_ok, OF s] st1(6)]
  have "kept refund_ok refund_entry (nextRevisionId s) (length (journal s)) u"
    by (rule rf.K_execMessage [OF V refl k _ _ _ e]) simp_all
  then have "refund_ok (AddBalance ?C (msg_From msg) y (ensureAccount ?C (msg_From msg) u))" for y
    using grown_trans [OF ens ops(1)] by (auto simp: grown_def dest: keptD)
  then have r: "0 \<le> refund (AddBalance ?C (msg_From msg) y (ensureAccount ?C (msg_From msg) u))" for y by (simp add: refund_ok_def)
  have "gas' \<le> st_gas st1" using gas_execMessage [OF V e] ig by (auto intro: order_trans word_sub_le)
  then have le: "uint gas' \<le> msg_Gas msg" using st1(1) by (simp add: word_le_def)
  define g where "g = uint gas'"
  have g: "0 \<le> g" "uint (st_gas (st1\<lparr>st_gas := gas', st_state := u\<rparr>)) = g" by (simp_all add: g_def)
  obtain bk r' where "0 \<le> bk" "bk \<le> msg_Gas msg - g" "uint (st_gas st2) = g + bk" "st_initialGas st2 = msg_Gas msg"
    "st_gp st2 = st_gp st1 + uint (st_gas st2)"
    by (rule refundGas_paths [of ?C msg "st1\<lparr>st_gas := gas', st_state := u\<rparr>"]) (use r le st1 in \<open>simp_all add: st2 gasUsed_def g_def\<close>)
  then show ?thesis using st1 g(1) by (simp add: used st gasUsed_def)
qed

definition gas_limits :: "zkEnv \<Rightarrow> Transaction list \<Rightarrow> bool" where
  "gas_limits Z txs \<longleftrightarrow> interpreter_keeps refund_op (zk_vm Z) \<and> (\<forall>tx\<in>set txs. 0 \<le> tx_GasLimit tx)"

lemma checkZK_refund: "checkZK Z from tx s = (None, u) \<Longrightarrow> refund_ok s \<Longrightarrow> numbered s \<Longrightarrow> refund_ok u \<and> numbered u"
proof -
  have "refund_grown s (SetNonce C a 1 (CreateAccount C a (load from (load a s))))" for C a
    using grown_trans [OF grown_trans [OF grown_trans [OF refund_load refund_load] refund_CreateAccount] rf.step_SetNonce] by simp
  moreover assume "checkZK Z from tx s = (None, u)"
  ultimately have "refund_grown s u"
    by (auto simp: checkZK_def Exist_def GetCMTBalance_def getStateObject_split Let_def split: if_splits option.splits)
  then show "refund_ok s \<Longrightarrow> numbered s \<Longrightarrow> refund_ok u \<and> numbered u" by (auto simp: grown_def numbered_def)
qed

lemma gas_ApplyTransaction:
  assumes lim: "gas_limits Z [tx]" and s: "refund_ok s" "numbered s"
    and app: "ApplyTransaction Z tx gp used s = Inr (Inr receipt, gp', used', t)"
  shows "0 \<le> rc_GasUsed receipt \<and> rc_GasUsed receipt \<le> tx_GasLimit tx \<and> gp' = gp - rc_GasUsed receipt \<and> 0 \<le> gp' \<and>
    used' = used + rc_GasUsed receipt \<and> rc_CumulativeGasUsed receipt = used' \<and> refund_ok t \<and> numbered t"
  using app
proof (rule ApplyTransaction_paths)
  fix msg u ret gas v
  assume a: "AsMessage tx = Inr msg" "checkZK Z (msg_From msg) tx s = (None, u)" "ApplyMessage (zk_vm Z) msg gp u = Inr (Inr (ret, gas), gp', v)"
    and ir: "IntermediateRoot (zk_db Z) (vm_IsEIP158 (zk_vm Z)) v = Inr t"
    and r: "used' = used + gas" "rc_GasUsed receipt = gas" "rc_CumulativeGasUsed receipt = used'"
  obtain st required where td: "TransitionDb (zk_vm Z) msg (NewStateTransition gp u) = Inr (Inr (ret, required, gas), st)" "gp' = st_gp st"
    using a(3) by (rule ApplyMessage_paths)
  have m: "msg_Gas msg = tx_GasLimit tx" using a(1) by (auto simp: AsMessage_def split: option.splits)
  have "0 \<le> gas \<and> gas \<le> msg_Gas msg \<and> st_gp st = gp - gas \<and> gas \<le> gp"
    by (rule gas_TransitionDb [OF _ _ _ _ td(1)]) (use lim checkZK_refund [OF a(2) s] m in \<open>simp_all add: gas_limits_def\<close>)
  moreover have "refund_ok t \<and> numbered t"
    using ir by (auto simp: IntermediateRoot_def bind_res_Inr_iff clearJournalAndRefund_def refund_ok_def numbered_def)
  ultimately show ?thesis using r m td(2) by simp
qed

lemma gas_processTxs:
  assumes "gas_limits Z txs" and "refund_ok (pr_state p)" "numbered (pr_state p)" "0 \<le> pr_gp p"
    and "pr_usedGas p = sum_list (map rc_GasUsed (pr_receipts p))"
    and "processTxs Z block txs p = Inr (Inr q)"
  shows "pr_gp q + pr_usedGas q = pr_gp p + pr_usedGas p \<and> 0 \<le> pr_gp q \<and> pr_usedGas q = sum_list (map rc_GasUsed (pr_receipts q)) \<and>
    (\<exists>rs. pr_receipts q = pr_receipts p @ rs \<and> list_all2 (\<lambda>tx r. 0 \<le> rc_GasUsed r \<and> rc_GasUsed r \<le> tx_GasLimit tx) txs rs)"
  using assms
proof (induction txs arbitrary: p)
  case (Cons tx txs)
  from Cons.prems(6) show ?case
  proof (rule processTxs_ConsE)
    fix receipt gp used s
    assume a: "ApplyTransaction Z tx (pr_gp p) (pr_usedGas p) (sdb_Prepare (zk_txHash Z tx) (b_Hash block) (pr_index p) (pr_state p))
        = Inr (Inr receipt, gp, used, s)"
      and r: "processTxs Z block txs \<lparr>pr_index = Suc (pr_index p), pr_gp = gp, pr_usedGas = used, pr_receipts = pr_receipts p @ [receipt],
         pr_funds = pr_funds p @ (if tx_TxCode tx = TxDeposit then [tx_ZKCMTfd tx] else []), pr_state = s\<rparr> = Inr (Inr q)"
    have k: "0 \<le> rc_GasUsed receipt \<and> rc_GasUsed receipt \<le> tx_GasLimit tx \<and> gp = pr_gp p - rc_GasUsed receipt \<and> 0 \<le> gp \<and>
      used = pr_usedGas p + rc_GasUsed receipt \<and> rc_CumulativeGasUsed receipt = used \<and> refund_ok s \<and> numbered s"
      by (rule gas_ApplyTransaction [OF _ _ _ a])
        (use Cons.prems in \<open>simp_all add: gas_limits_def refund_ok_def numbered_def sdb_Prepare_def\<close>)
    from Cons.IH [OF _ _ _ _ _ r] k Cons.prems show ?thesis by (auto simp: gas_limits_def)
  qed
qed simp

end
