(* ===== verification/Zk_Properties.thy ===== *)
theory Zk_Properties
  imports Zk_Balance Zk_Serial Zk_Gas
begin

text \<open>
  The properties of the account state, of transitions and of blocks, with concrete instances.
\<close>

section \<open>A concrete environment\<close>

definition exDb :: chainDb where
  "exDb = \<lparr>Keccak256Hash = (\<lambda>bs. of_nat (length bs) + 1), ContractCode = (\<lambda>_. [1]), OpenStorageTrie = (\<lambda>_ _. []), storageRoot = (\<lambda>_. 0)\<rparr>"

text \<open>An interpreter whose code pays one unit back to the caller.\<close>

definition exVm :: vmEnv where
  "exVm = \<lparr>vm_db = exDb, vm_precompiled = (\<lambda>_. None),
     vm_interpret = (\<lambda>fr s. ([OpSubBalance (fr_self fr) 1, OpAddBalance (fr_caller fr) 1], [], fr_gas fr, None)),
     vm_CreateAddress = (\<lambda>a n. 1000), vm_IsEIP158 = True, vm_IsHomestead = True, vm_NoRecursion = False, vm_Coinbase = 77\<rparr>"

definition exZk :: zkEnv where
  "exZk = \<lparr>zk_vm = exVm, zk_txHash = (\<lambda>tx. tx_ZKCMTbal tx), zk_stateRoot = (\<lambda>t. of_nat (length t)),
     zk_verifyConvert = (\<lambda>_ _ _ _ _. True), zk_verifyRedeem = (\<lambda>_ _ _ _ _. True),
     zk_verifyDeposit = (\<lambda>_ _ _ _ _. True), zk_verifyWithdraw = (\<lambda>_ _ _ _ _ _. True)\<rparr>"

definition exNoZk :: zkEnv where
  "exNoZk = exZk\<lparr>zk_verifyConvert := (\<lambda>_ _ _ _ _. False), zk_verifyRedeem := (\<lambda>_ _ _ _ _. False),
     zk_verifyDeposit := (\<lambda>_ _ _ _ _. False), zk_verifyWithdraw := (\<lambda>_ _ _ _ _ _. False)\<rparr>"

definition exAccount :: "int \<Rightarrow> Account" where
  "exAccount b = \<lparr>acc_Nonce = 0, acc_Balance = b, acc_CMT = 9, acc_Root = 0, acc_CodeHash = 1\<rparr>"

definition exState :: StateDB where
  "exState = sdb_New [(1, exAccount 100000), (2, (exAccount 50)\<lparr>acc_CodeHash := 2\<rparr>), (5, exAccount 0)]"

definition exTx :: "u32 \<Rightarrow> u32 \<Rightarrow> u64 \<Rightarrow> hash \<Rightarrow> u64 \<Rightarrow> Transaction" where
  "exTx ty code v sn nonce = \<lparr>tx_TxCode = code, tx_ZKCMTbal = 33, tx_ZKCMTfd = 44, tx_ZKValue = v, tx_ZKSN = sn, tx_RootHash = 0, tx_ZKProof = [], tx_ZKEnc = [], tx_ZKIntEnc = [],
     tx_AccountNonce = nonce, tx_TxType = ty, tx_Price = 1, tx_GasLimit = 30000, tx_Sender = Some 1, tx_Recipient = Some 2, tx_Amount = 10,
     tx_Payload = [], tx_Level = 0, tx_Headers = [], tx_ZKHeader = 0, tx_CrossTxProof = [], tx_V = 0, tx_R = 0, tx_S = 0,
     tx_CrossChainSender = 0, tx_CrossChainRecipient = 0, tx_HibeSig = None\<rparr>"

definition exMsg :: Message where
  "exMsg = projr (AsMessage (exTx TxZK TxConvert 7 3 0))"

definition exBlock :: "Transaction list \<Rightarrow> hash list \<Rightarrow> Block" where
  "exBlock txs funds = \<lparr>b_Hash = 1, b_Transactions = txs, b_GasLimit = 100000, b_ZKFunds = funds\<rparr>"

definition exTxs :: "Transaction list" where
  "exTxs = [exTx TxZK TxConvert 7 3 0, exTx TxZK TxDeposit 7 4 1]"

lemmas ex_simps = exDb_def exVm_def exZk_def exNoZk_def exAccount_def exState_def exTx_def exMsg_def exBlock_def exTxs_def

lemma notisl: "\<not> isl x \<Longrightarrow> x = Inr (projr x)"
  by (cases x) simp_all

lemma ex_good [simp]: "good_state exState" "refund_ok exState" "numbered exState" "filed exState"
  by (simp_all add: exState_def good_New) (simp_all add: refund_ok_def numbered_def filed_def sdb_New_def)

section \<open>Snapshots\<close>

text \<open>C4: Whatever operations a caller performs after \<open>Snapshot\<close>, nested snapshots and reverts included, \<open>RevertToSnapshot\<close>
  succeeds and gives back every balance, nonce, code, storage value, log, preimage and the refund counter, and the journal and the revisions;
  it gives back the commitments when no \<open>SetCMT\<close> was among the operations.\<close>

theorem revert_restores:
  assumes "good_state s0" and "applyOps C ops (snd (Snapshot s0)) = Inr s" and "list_all (client_op cmt (fst (Snapshot s0))) ops"
  shows "\<exists>s1. RevertToSnapshot (fst (Snapshot s0)) s = Inr s1 \<and> same C cmt s1 s0 \<and> good_state s1 \<and>
    journal s1 = journal s0 \<and> validRevisions s1 = validRevisions s0"
proof -
  have "snapshot_open C cmt s0 s"
    using jr.steps_pending [OF snapshot_opens [OF assms(1)] applyOps_steps [OF assms(2,3)]] .
  from open_reverts [OF this] show ?thesis by (auto simp: agree_def Snapshot_def)
qed

definition exOps :: "stateOp list" where
  "exOps = [OpSubBalance 1 5, OpSetNonce 2 3, OpSnapshot, OpSetState 2 4 6, OpSuicide 1, OpRevert 1, OpCreateAccount 8, OpSetCode 8 (Some [2, 3])]"

theorem revert_restores_witness:
  "\<exists>s s1. applyOps exDb exOps (snd (Snapshot exState)) = Inr s \<and> RevertToSnapshot (fst (Snapshot exState)) s = Inr s1 \<and> same exDb True s1 exState"
proof -
  have "\<not> isl (applyOps exDb exOps (snd (Snapshot exState)))" by code_simp
  then obtain s where s: "applyOps exDb exOps (snd (Snapshot exState)) = Inr s" by (cases "applyOps exDb exOps (snd (Snapshot exState))") auto
  have "list_all (client_op True (fst (Snapshot exState))) exOps" by code_simp
  from revert_restores [OF ex_good(1) s this] s show ?thesis by blast
qed

text \<open>C10: A call that returns an error, of whatever kind and at whatever depth, leaves the state as its caller saw it before, commitments apart.\<close>

theorem failed_call_reverts:
  assumes "interpreter_keeps (\<lambda>_. True) V" and "good_state s"
    and "Call V depth caller addr input gas amount s = Inr (ret, gas', Some e, t) \<or>
      CallCode V depth caller addr input gas amount s = Inr (ret, gas', Some e, t) \<or>
      DelegateCall V depth parent addr input gas s = Inr (ret, gas', Some e, t)"
  shows "same (vm_db V) False t s \<and> good_state t"
  using assms(3)
  by (elim disjE) (rule failed_Call [OF assms(1,2)] failed_CallCode [OF assms(1,2)] failed_DelegateCall [OF assms(1,2)], assumption)+

definition exFailing :: vmEnv where
  "exFailing = exVm\<lparr>vm_interpret := (\<lambda>fr s. ([OpSubBalance (fr_self fr) 20, OpSetState (fr_self fr) 1 2], [], 0, Some ErrExecution))\<rparr>"

theorem failed_call_reverts_witness:
  "\<exists>ret gas t. Call exFailing 0 1 2 [] 500 10 exState = Inr (ret, gas, Some ErrExecution, t) \<and> same exDb False t exState"
proof -
  have "case Call exFailing 0 1 2 [] 500 10 exState of Inr (_, _, err, _) \<Rightarrow> err = Some ErrExecution | _ \<Rightarrow> False" by code_simp
  then obtain ret gas t where c: "Call exFailing 0 1 2 [] 500 10 exState = Inr (ret, gas, Some ErrExecution, t)"
    by (auto split: sum.splits prod.splits)
  have "interpreter_keeps (\<lambda>_. True) exFailing" "vm_db exFailing = exDb"
    by (simp_all add: interpreter_keeps_def exFailing_def exVm_def own_revert_def)
  then show ?thesis using failed_call_reverts [of exFailing exState 0 1 2 "[]" 500 10 ret gas ErrExecution t] c by auto
qed

text \<open>C11: A transaction that the miner fails to apply, at whatever point it fails, is reverted: the revert does not panic, and the state looks as before,
  commitments apart; the transactions, receipts, funds and the gas used of the work are unchanged.\<close>

theorem failed_transaction_reverted:
  assumes V: "interpreter_keeps (\<lambda>_. True) (zk_vm Z)" and good: "good_state (w_state w)"
    and app: "ApplyTransaction Z tx gp (w_gasUsed w) (snd (Snapshot (w_state w))) = Inr (Inl e, gp', used, t)"
  shows "\<exists>w'. commitTransaction Z tx gp w = Inr (Some e, [], gp', w') \<and> same (zk_db Z) False (w_state w') (w_state w) \<and> good_state (w_state w') \<and>
    w_txs w' = w_txs w \<and> w_receipts w' = w_receipts w \<and> w_zkfunds w' = w_zkfunds w \<and> w_gasUsed w' = w_gasUsed w"
proof -
  have "snapshot_open (zk_db Z) False (w_state w) t \<and> used = w_gasUsed w"
    using ApplyTransaction_fails [OF V snapshot_opens [OF good] app] by simp
  moreover from this open_reverts obtain s1 where "RevertToSnapshot (nextRevisionId (w_state w)) t = Inr s1"
    "agree (zk_db Z) False s1 (w_state w)" "good_state s1" by blast
  ultimately show ?thesis using app by (auto simp: commitTransaction_def Snapshot_def Let_def agree_def)
qed

definition exWork :: Work where
  "exWork = \<lparr>w_state = exState, w_txs = [], w_receipts = [], w_zkfunds = [], w_gasUsed = 0\<rparr>"

definition exOverspend :: Transaction where
  "exOverspend = (exTx TxZK TxConvert 7 3 0)\<lparr>tx_Amount := 90000\<rparr>"

lemma exVm_keeps: "interpreter_keeps P exVm" if "\<And>a. P (OpSubBalance a 1)" "\<And>a. P (OpAddBalance a 1)"
  using that by (simp add: interpreter_keeps_def exVm_def own_revert_def)

theorem failed_transaction_reverted_witness:
  "\<exists>w' gp. commitTransaction exZk exOverspend 100000 exWork = Inr (Some (VmErr ErrInsufficientBalance), [], gp, w') \<and>
     same exDb False (w_state w') exState"
proof -
  let ?r = "ApplyTransaction exZk exOverspend 100000 (w_gasUsed exWork) (snd (Snapshot (w_state exWork)))"
  have "case ?r of Inr (Inl e, _) \<Rightarrow> e = VmErr ErrInsufficientBalance | _ \<Rightarrow> False" by code_simp
  then obtain gp' used t where r: "?r = Inr (Inl (VmErr ErrInsufficientBalance), gp', used, t)"
    by (auto split: sum.splits prod.splits)
  have "interpreter_keeps (\<lambda>_. True) (zk_vm exZk)" "good_state (w_state exWork)" by (simp_all add: exZk_def exVm_keeps exWork_def)
  from failed_transaction_reverted [OF this r] show ?thesis by (auto simp: exZk_def zk_db_def exVm_def exWork_def)
qed

text \<open>The commitment is the exception. A convert transaction that fails for lack of balance is not included, and its sender keeps
  the new commitment, because \<open>SetCMT\<close> runs before the error is returned and is not recorded in the journal.\<close>

theorem failed_transaction_keeps_commitment:
  "case commitTransaction exZk exOverspend 100000 exWork of
     Inr (err, _, _, w') \<Rightarrow> err = Some (VmErr ErrInsufficientBalance) \<and> w_txs w' = [] \<and> fst (GetCMTBalance 1 exState) = 9 \<and> fst (GetCMTBalance 1 (w_state w')) = 33
   | _ \<Rightarrow> False"
  by code_simp

definition exTouchOps :: "stateOp list" where
  "exTouchOps = [OpSnapshot, OpAddBalance 5 0, OpRevert 0, OpAddBalance 5 10]"

text \<open>A touched account loses its dirty mark when the touch is reverted, and its callback is gone, so that a later
  credit is visible in the state and is not written to the trie.\<close>

theorem reverted_touch_loses_credit:
  "case applyOps exDb exTouchOps exState of
     Inr s \<Rightarrow> fst (GetBalance 5 s) = 10 \<and>
       (case IntermediateRoot exDb True s of Inr t \<Rightarrow> map_option acc_Balance (mget (sdb_trie t) 5) = Some 0 | _ \<Rightarrow> False)
   | _ \<Rightarrow> False"
  by code_simp

section \<open>Balances and gas\<close>






text \<open>C7: A block that is processed uses no more gas than its limit. The gas it reports is the sum over its receipts, and each
  transaction uses at most its own limit.\<close>

theorem block_gas_bounded:
  assumes "gas_limits Z (b_Transactions block)" and "refund_ok s" and "numbered s" and "0 \<le> b_GasLimit block"
    and "Process Z block s = Inr (Inr (receipts, ls, used, t))"
  shows "used \<le> b_GasLimit block \<and> used = sum_list (map rc_GasUsed receipts) \<and>
    list_all2 (\<lambda>tx r. 0 \<le> rc_GasUsed r \<and> rc_GasUsed r \<le> tx_GasLimit tx) (b_Transactions block) receipts"
  using assms(5)
proof (rule Process_paths)
  fix p assume p: "processTxs Z block (b_Transactions block)
      \<lparr>pr_index = 0, pr_gp = b_GasLimit block, pr_usedGas = 0, pr_receipts = [], pr_funds = [], pr_state = s\<rparr> = Inr (Inr p)"
    and "receipts = pr_receipts p" "used = pr_usedGas p"
  then show ?thesis using gas_processTxs [OF assms(1) _ _ _ _ p] assms(2-4) by auto
qed

lemma ex_process: "\<exists>receipts ls used t. Process exZk (exBlock exTxs [44]) exState = Inr (Inr (receipts, ls, used, t))"
proof -
  have "case Process exZk (exBlock exTxs [44]) exState of Inr (Inr _) \<Rightarrow> True | _ \<Rightarrow> False" by code_simp
  then show ?thesis by (auto split: sum.splits)
qed

theorem block_gas_bounded_witness:
  "\<exists>receipts ls used t. Process exZk (exBlock exTxs [44]) exState = Inr (Inr (receipts, ls, used, t)) \<and>
     used \<le> 100000 \<and> used = sum_list (map rc_GasUsed receipts) \<and> length receipts = 2"
proof -
  obtain receipts ls used t where p: "Process exZk (exBlock exTxs [44]) exState = Inr (Inr (receipts, ls, used, t))" using ex_process by blast
  have l: "gas_limits exZk (b_Transactions (exBlock exTxs [44]))" "0 \<le> b_GasLimit (exBlock exTxs [44])"
    by (simp_all add: gas_limits_def exVm_keeps exZk_def exBlock_def exTxs_def exTx_def)
  from block_gas_bounded [OF l(1) ex_good(2,3) l(2) p] p show ?thesis
    by (auto simp: exBlock_def exTxs_def dest: list_all2_lengthD)
qed

section \<open>Serial numbers and proofs\<close>

text \<open>C3: No serial number is used twice. In a block that is processed the non-zero serial numbers of the zero-knowledge transactions are
  pairwise different, different from those that were used before, and they are marked as used afterwards.\<close>

theorem serial_numbers_unique:
  assumes "serials_apart Z (A \<union> set (serials (b_Transactions block))) (b_Transactions block)" and "spent_in A s" and "numbered s"
    and "Process Z block s = Inr (Inr (receipts, ls, used, t))"
  shows "distinct (serials (b_Transactions block)) \<and> A \<inter> set (serials (b_Transactions block)) = {} \<and>
    spent_in (A \<union> set (serials (b_Transactions block))) t \<and> numbered t"
  using assms(4)
proof (rule Process_paths)
  fix p assume p: "processTxs Z block (b_Transactions block)
      \<lparr>pr_index = 0, pr_gp = b_GasLimit block, pr_usedGas = 0, pr_receipts = [], pr_funds = [], pr_state = s\<rparr> = Inr (Inr p)"
    and t: "IntermediateRoot (zk_db Z) (vm_IsEIP158 (zk_vm Z)) (pr_state p) = Inr t"
  have k: "spent_in (A \<union> set (serials (b_Transactions block))) (pr_state p) \<and> numbered (pr_state p) \<and>
    distinct (serials (b_Transactions block)) \<and> A \<inter> set (serials (b_Transactions block)) = {}"
    by (rule processTxs_marks [OF assms(1) _ _ p]) (use assms in simp_all)
  then show ?thesis using serial_IntermediateRoot [OF _ t] by blast
qed

theorem serial_numbers_unique_witness:
  "\<exists>receipts ls used t. Process exZk (exBlock exTxs [44]) exState = Inr (Inr (receipts, ls, used, t)) \<and>
     serials exTxs = [3, 4] \<and> spent_in {3, 4} t"
proof -
  obtain receipts ls used t where p: "Process exZk (exBlock exTxs [44]) exState = Inr (Inr (receipts, ls, used, t))" using ex_process by blast
  have s: "serials exTxs = [3, 4]" by code_simp
  then have a: "serials_apart exZk ({} \<union> set (serials (b_Transactions (exBlock exTxs [44])))) (b_Transactions (exBlock exTxs [44]))"
    by (auto simp: serials_apart_def exBlock_def exZk_def exVm_keeps exTxs_def exTx_def AsMessage_def fresh_sender_def)
  have "spent_in {} exState" by (simp add: spent_in_def)
  from serial_numbers_unique [OF a this ex_good(3) p] p s show ?thesis by (auto simp: exBlock_def)
qed

text \<open>C8: A transaction of the zero-knowledge type with one of the four codes is applied only when its proof verifies against
  the commitment that its sender has at that moment, and when its serial number, unless zero, has no account.\<close>

theorem zk_transaction_is_proved:
  assumes "spends tx" and "ApplyTransaction Z tx gp used s = Inr (Inr receipt, gp', used', t)"
  shows "\<exists>a. tx_Sender tx = Some a \<and> verifyProof Z a (fst (GetCMTBalance a s)) tx = None \<and>
    (tx_ZKSN tx = 0 \<or> \<not> fst (Exist (snAddress (tx_ZKSN tx)) s))"
  using assms(2)
proof (rule ApplyTransaction_paths)
  fix msg u
  assume msg: "AsMessage tx = Inr msg" and u: "checkZK Z (msg_From msg) tx s = (None, u)"
  have "tx_Sender tx = Some (msg_From msg)" using msg by (auto simp: AsMessage_def split: option.splits)
  moreover have "fst (GetCMTBalance a (load b s)) = fst (GetCMTBalance a s)" for a b
    by (simp add: GetCMTBalance_def getStateObject_split)
  ultimately show ?thesis using u assms(1)
    by (auto simp: checkZK_def spends_def Exist_def getStateObject_split Let_def case_prod_unfold split: if_splits option.splits)
qed

theorem zk_transaction_is_proved_witness:
  "\<exists>receipt gp used t a. ApplyTransaction exZk (exTx TxZK TxConvert 7 3 0) 100000 0 exState = Inr (Inr receipt, gp, used, t) \<and>
     verifyProof exZk a (fst (GetCMTBalance a exState)) (exTx TxZK TxConvert 7 3 0) = None"
proof -
  have "case ApplyTransaction exZk (exTx TxZK TxConvert 7 3 0) 100000 0 exState of Inr (Inr _, _) \<Rightarrow> True | _ \<Rightarrow> False" by code_simp
  then obtain receipt gp used t where a: "ApplyTransaction exZk (exTx TxZK TxConvert 7 3 0) 100000 0 exState = Inr (Inr receipt, gp, used, t)"
    by (auto split: sum.splits prod.splits)
  have "spends (exTx TxZK TxConvert 7 3 0)" by code_simp
  from zk_transaction_is_proved [OF this a] a show ?thesis by blast
qed

definition exBalanceAfter :: "Transaction \<Rightarrow> int option" where
  "exBalanceAfter tx = (case ApplyTransaction exNoZk tx 100000 0 exState of Inr (Inr _, _, _, t) \<Rightarrow> Some (fst (GetBalance 1 t)) | _ \<Rightarrow> None)"

text \<open>The type decides whether a proof is checked, the code whether the balance changes. With verifiers that reject everything, a redeem of the
  zero-knowledge type is refused, and the same transaction with the normal type is applied and credits its sender with the value.\<close>

theorem redeem_without_proof:
  "(case ApplyTransaction exNoZk (exTx TxZK TxRedeem 500 3 0) 100000 0 exState of Inr (Inl e, _) \<Rightarrow> e = InvalidRedeemProof | _ \<Rightarrow> False) \<and>
   exBalanceAfter (exTx TxNormal TxRedeem 500 3 0) = Some 79491 \<and> exBalanceAfter (exTx TxNormal 0 500 3 0) = Some 78991"
  by code_simp

text \<open>The proof of a withdrawal does not cover the value: it is accepted for every value when it is accepted for one, and
  the sender is credited with the value that the transaction names.\<close>

theorem withdraw_credits_any_value:
  assumes "tx_TxCode tx = TxWithdraw" and "good_state s" and "AsMessage (tx\<lparr>tx_ZKValue := v\<rparr>) = Inr msg"
  shows "verifyProof Z a c (tx\<lparr>tx_ZKValue := v\<rparr>) = verifyProof Z a c tx \<and>
    bal (zkBalance C msg s) (msg_From msg) = bal s (msg_From msg) + sint v"
proof -
  have "msg_TxCode msg = TxWithdraw" "msg_ZKValue msg = v" using assms(1,3) by (auto simp: AsMessage_def split: option.splits)
  then have "zkDelta msg = sint v" by (simp add: zkDelta_def tx_codes)
  then show ?thesis using moved_zkBalance [of C msg s] assms(1,2)
    by (simp add: verifyProof_def tx_codes moved_def good_state_def)
qed

theorem withdraw_credits_any_value_witness:
  "verifyProof exZk 1 9 (exTx TxZK TxWithdraw 1000000 3 0) = verifyProof exZk 1 9 (exTx TxZK TxWithdraw 1 3 0) \<and>
   bal (zkBalance exDb (projr (AsMessage (exTx TxZK TxWithdraw 1000000 3 0))) exState) 1 = bal exState 1 + 1000000"
proof -
  have e: "(exTx TxZK TxWithdraw 1 3 0)\<lparr>tx_ZKValue := 1000000\<rparr> = exTx TxZK TxWithdraw 1000000 3 0" by (simp add: exTx_def)
  have c: "tx_TxCode (exTx TxZK TxWithdraw 1 3 0) = TxWithdraw" by (simp add: exTx_def)
  have a: "AsMessage ((exTx TxZK TxWithdraw 1 3 0)\<lparr>tx_ZKValue := 1000000\<rparr>) = Inr (projr (AsMessage (exTx TxZK TxWithdraw 1000000 3 0)))"
    unfolding e by (simp add: AsMessage_def exTx_def)
  have f: "msg_From (projr (AsMessage (exTx TxZK TxWithdraw 1000000 3 0))) = 1" "sint (1000000 :: u64) = 1000000" by code_simp+
  show ?thesis using withdraw_credits_any_value [OF c ex_good(1) a, of exZk 1 9 exDb] unfolding e f by simp
qed

text \<open>A convert of more than the sender owns is accepted up to the point where the state is written, where the negative balance
  makes the encoder panic; a convert of a value of \<open>2 ^ 63\<close> or more is read as negative and credits the sender, here with
  a transaction of the normal type, which needs no proof.\<close>

theorem convert_value_unchecked:
  "(case ApplyTransaction exZk (exTx TxZK TxConvert 80000 3 0) 100000 0 exState of Inl e \<Rightarrow> e = Panic ''cannot encode object'' | _ \<Rightarrow> False) \<and>
   exBalanceAfter (exTx TxNormal TxConvert (2 ^ 64 - 500) 3 0) = Some 79491"
  by code_simp

text \<open>A convert that creates a contract pays from the balance and leaves the commitment of the sender as it was, because
  only the branch for calls sets it.\<close>

theorem creation_keeps_commitment:
  "case ApplyTransaction exZk ((exTx TxZK TxConvert 500 3 0)\<lparr>tx_Recipient := None, tx_GasLimit := 60000, tx_Price := 0\<rparr>) 100000 0 exState of
     Inr (Inr _, _, _, t) \<Rightarrow> fst (GetBalance 1 t) = fst (GetBalance 1 exState) - 510 \<and> fst (GetCMTBalance 1 t) = fst (GetCMTBalance 1 exState)
   | _ \<Rightarrow> False"
  by code_simp

lemma processTxs_block: "b_Hash block = b_Hash block' \<Longrightarrow> processTxs Z block txs p = processTxs Z block' txs p"
  by (induction txs arbitrary: p) (simp_all cong: sum.case_cong)

text \<open>Of the funds that the header of a block lists only the number counts: two blocks that differ in nothing but
  the contents of the list are processed alike.\<close>

theorem process_ignores_fund_contents:
  assumes "length funds = length funds'"
  shows "Process Z (block\<lparr>b_ZKFunds := funds\<rparr>) s = Process Z (block\<lparr>b_ZKFunds := funds'\<rparr>) s"
  using assms processTxs_block [of "block\<lparr>b_ZKFunds := funds\<rparr>" "block\<lparr>b_ZKFunds := funds'\<rparr>"]
  by (simp add: Process_def cong: sum.case_cong)

theorem process_ignores_fund_contents_witness:
  "length [44 :: hash] = length [45 :: hash] \<and> Process exZk (exBlock exTxs [45]) exState = Process exZk (exBlock exTxs [44]) exState"
  using process_ignores_fund_contents [of "[45]" "[44]" exZk "exBlock exTxs []" exState] by (simp add: exBlock_def)

end
