(* ===== verification/Eng_Voting.thy ===== *)
theory Eng_Voting
  imports Zk_State
begin

text \<open>
  Headers and the vote on the signers: \<open>Header\<close> (\<open>core/types/block.go\<close>) with its hash
  (\<open>ZKHashBlock\<close> of \<open>core/types/transaction.go\<close>), the hash that a signer signs and the recovery of
  the signer (\<open>consensus/pbft/pbft.go\<close>), and the snapshots of the vote (\<open>consensus/pbft/snapshot.go\<close>).

  The hash functions and the recovery of an address from a signature are parameters (\<open>engEnv\<close>). A nonce of eight bytes
  is the number that they spell; \<open>big.Int\<close> fields are not nil. The caches of the engine forget
  entries only when they are full, which is not modelled.
\<close>

section \<open>Headers\<close>

record Header =
  h_ParentHash :: hash
  h_UncleHash :: hash
  h_Coinbase :: address
  h_Root :: hash
  h_RootCMTfd :: hash
  h_ZKFunds :: "hash list"
  h_TxHash :: hash
  h_ReceiptHash :: hash
  h_Bloom :: bytes
  h_Difficulty :: int
  h_Number :: int
  h_GasLimit :: int
  h_GasUsed :: int
  h_Time :: int
  h_Extra :: bytes
  h_MixDigest :: hash
  h_Nonce :: u64

datatype engerr =
    UnknownBlock | FutureBlock | UnknownAncestor | InvalidCheckpointBeneficiary | InvalidVote | InvalidCheckpointVote
  | MissingVanity | MissingSignature | ExtraSigners | InvalidCheckpointSigners | InvalidMixDigest | InvalidUncleHash
  | InvalidDifficulty | InvalidTimestamp | InvalidVotingChain | Unauthorized | RecoverError | NotPrimary | NotVP

definition nonceAuthVote :: u64 where "nonceAuthVote = - 1"
definition nonceDropVote :: u64 where "nonceDropVote = 0"
definition extraVanity :: nat where "extraVanity = 32"
definition extraSeal :: nat where "extraSeal = 65"
definition epochLength :: u64 where "epochLength = 30000"
definition blockPeriod :: u64 where "blockPeriod = 15"

text \<open>What a signature covers. The root and the list of the funds are not part of it.\<close>

record sealInput =
  si_ParentHash :: hash
  si_UncleHash :: hash
  si_Coinbase :: address
  si_Root :: hash
  si_TxHash :: hash
  si_ReceiptHash :: hash
  si_Bloom :: bytes
  si_Difficulty :: int
  si_Number :: int
  si_GasLimit :: int
  si_GasUsed :: int
  si_Time :: int
  si_Extra :: bytes
  si_MixDigest :: hash
  si_Nonce :: u64

record engEnv =
  conf_Period :: u64
  conf_Epoch :: u64
  ZKHash :: "hash \<Rightarrow> hash \<Rightarrow> hash \<Rightarrow> hash"
  rlpHash :: "sealInput \<Rightarrow> hash"
  crypto_Ecrecover :: "hash \<Rightarrow> bytes \<Rightarrow> address option"
  uncleHash :: hash

text \<open>The defaults that \<open>New\<close> puts in for missing parameters.\<close>

definition Epoch :: "engEnv \<Rightarrow> u64" where
  "Epoch E = (if conf_Epoch E = 0 then epochLength else conf_Epoch E)"

definition Period :: "engEnv \<Rightarrow> u64" where
  "Period E = (if conf_Period E = 0 then blockPeriod else conf_Period E)"

definition numberOf :: "Header \<Rightarrow> u64" where
  "numberOf h = word_of_int (h_Number h)"

definition ZKHashBlock :: "engEnv \<Rightarrow> Header \<Rightarrow> hash" where
  "ZKHashBlock E h = ZKHash E (h_TxHash h) (h_Root h) (h_RootCMTfd h)"

definition header_sigHash :: "engEnv \<Rightarrow> Header \<Rightarrow> hash res" where
  "header_sigHash E h =
     (if length (h_Extra h) < 65 then Inl (Panic ''slice bounds out of range'')
      else Inr (rlpHash E \<lparr>si_ParentHash = h_ParentHash h, si_UncleHash = h_UncleHash h, si_Coinbase = h_Coinbase h, si_Root = h_Root h,
        si_TxHash = h_TxHash h, si_ReceiptHash = h_ReceiptHash h, si_Bloom = h_Bloom h, si_Difficulty = h_Difficulty h,
        si_Number = h_Number h, si_GasLimit = h_GasLimit h, si_GasUsed = h_GasUsed h, si_Time = h_Time h,
        si_Extra = take (length (h_Extra h) - 65) (h_Extra h), si_MixDigest = h_MixDigest h, si_Nonce = h_Nonce h\<rparr>))"

type_synonym sigcache = "(hash \<times> address) list"

text \<open>\<open>ecrecover\<close> of a header: from the cache under the hash of the header, else from the signature.\<close>

definition ecrecover :: "engEnv \<Rightarrow> Header \<Rightarrow> sigcache \<Rightarrow> ((engerr + address) \<times> sigcache) res" where
  "ecrecover E h cache = (case mget cache (ZKHashBlock E h) of
     Some a \<Rightarrow> Inr (Inr a, cache)
   | None \<Rightarrow>
      if length (h_Extra h) < extraSeal then Inr (Inl MissingSignature, cache)
      else bind_res (header_sigHash E h) (\<lambda>d.
        case crypto_Ecrecover E d (drop (length (h_Extra h) - extraSeal) (h_Extra h)) of
          None \<Rightarrow> Inr (Inl RecoverError, cache)
        | Some a \<Rightarrow> Inr (Inr a, mput (ZKHashBlock E h) a cache)))"

section \<open>Snapshots of the vote\<close>

record Vote =
  v_Signer :: address
  v_Block :: u64
  v_Address :: address
  v_Authorize :: bool

record Tally =
  t_Authorize :: bool
  t_Votes :: int

record voteSnapshot =
  sn_Number :: u64
  sn_Hash :: hash
  Signers :: "(address \<times> unit) list"
  Votes :: "Vote list"
  Tallies :: "(address \<times> Tally) list"

definition newSnapshot :: "u64 \<Rightarrow> hash \<Rightarrow> address list \<Rightarrow> voteSnapshot" where
  "newSnapshot number h signers = \<lparr>sn_Number = number, sn_Hash = h, Signers = fold (\<lambda>a. mput a ()) signers [], Votes = [], Tallies = []\<rparr>"

definition validVote :: "address \<Rightarrow> bool \<Rightarrow> voteSnapshot \<Rightarrow> bool" where
  "validVote a authorize s = (let signer = mhas (Signers s) a in signer \<and> \<not> authorize \<or> \<not> signer \<and> authorize)"

definition cast :: "address \<Rightarrow> bool \<Rightarrow> voteSnapshot \<Rightarrow> bool \<times> voteSnapshot" where
  "cast a authorize s =
     (if \<not> validVote a authorize s then (False, s)
      else if mhas (Tallies s) a then (False, s)
      else (True, s\<lparr>Tallies := mput a \<lparr>t_Authorize = authorize, t_Votes = 1\<rparr> (Tallies s)\<rparr>))"

definition uncast :: "address \<Rightarrow> bool \<Rightarrow> voteSnapshot \<Rightarrow> bool \<times> voteSnapshot" where
  "uncast a authorize s = (case mget (Tallies s) a of
     None \<Rightarrow> (False, s)
   | Some tally \<Rightarrow> if t_Authorize tally \<noteq> authorize then (False, s) else (True, s\<lparr>Tallies := mdel a (Tallies s)\<rparr>))"

text \<open>The loops that take votes back: the first vote of a signer on an account, and all votes of a signer.\<close>

fun dropFirst :: "('a \<Rightarrow> bool) \<Rightarrow> 'a list \<Rightarrow> 'a list" where
  "dropFirst P [] = []"
| "dropFirst P (x # xs) = (if P x then xs else x # dropFirst P xs)"

definition discardVote :: "address \<Rightarrow> address \<Rightarrow> voteSnapshot \<Rightarrow> voteSnapshot" where
  "discardVote signer a s =
     (let mine = (\<lambda>v. v_Signer v = signer \<and> v_Address v = a) in
      case find mine (Votes s) of None \<Rightarrow> s
      | Some v \<Rightarrow> (snd (uncast (v_Address v) (v_Authorize v) s))\<lparr>Votes := dropFirst mine (Votes s)\<rparr>)"

definition discardVotesOf :: "address \<Rightarrow> voteSnapshot \<Rightarrow> voteSnapshot" where
  "discardVotesOf a s =
     (fold (\<lambda>v s. if v_Signer v = a then snd (uncast (v_Address v) (v_Authorize v) s) else s) (Votes s) s)
       \<lparr>Votes := filter (\<lambda>v. v_Signer v \<noteq> a) (Votes s)\<rparr>"

definition changeSigner :: "address \<Rightarrow> voteSnapshot \<Rightarrow> voteSnapshot" where
  "changeSigner a s = (case mget (Tallies s) a of
     None \<Rightarrow> s
   | Some tally \<Rightarrow>
      let s = (if t_Authorize tally then s\<lparr>Signers := mput a () (Signers s)\<rparr>
               else discardVotesOf a (s\<lparr>Signers := mdel a (Signers s)\<rparr>))
      in s\<lparr>Votes := filter (\<lambda>v. v_Address v \<noteq> a) (Votes s), Tallies := mdel a (Tallies s)\<rparr>)"

text \<open>One header.\<close>

definition applyHeader :: "engEnv \<Rightarrow> Header \<Rightarrow> voteSnapshot \<Rightarrow> sigcache \<Rightarrow> ((engerr + voteSnapshot) \<times> sigcache) res" where
  "applyHeader E h s cache =
     (let number = numberOf h;
          s = (if number mod Epoch E = 0 then s\<lparr>Votes := [], Tallies := []\<rparr> else s)
      in bind_res (ecrecover E h cache) (\<lambda>(r, cache). case r of
         Inl e \<Rightarrow> Inr (Inl e, cache)
       | Inr signer \<Rightarrow>
          if \<not> mhas (Signers s) signer then Inr (Inl Unauthorized, cache)
          else
            let s = discardVote signer (h_Coinbase h) s in
            if h_Nonce h \<noteq> nonceAuthVote \<and> h_Nonce h \<noteq> nonceDropVote then Inr (Inl InvalidVote, cache)
            else
              let authorize = (h_Nonce h = nonceAuthVote);
                  (counted, s) = cast (h_Coinbase h) authorize s;
                  s = (if counted then s\<lparr>Votes := Votes s @ [\<lparr>v_Signer = signer, v_Block = number,
                         v_Address = h_Coinbase h, v_Authorize = authorize\<rparr>]\<rparr> else s)
              in Inr (Inr (changeSigner (h_Coinbase h) s), cache)))"

fun applyHeaders :: "engEnv \<Rightarrow> Header list \<Rightarrow> voteSnapshot \<Rightarrow> sigcache \<Rightarrow> ((engerr + voteSnapshot) \<times> sigcache) res" where
  "applyHeaders E [] s cache = Inr (Inr s, cache)"
| "applyHeaders E (h # hs) s cache = bind_res (applyHeader E h s cache) (\<lambda>(r, cache).
     case r of Inl e \<Rightarrow> Inr (Inl e, cache) | Inr s \<Rightarrow> applyHeaders E hs s cache)"

fun contiguous :: "Header list \<Rightarrow> bool" where
  "contiguous (h # k # hs) \<longleftrightarrow> numberOf k = numberOf h + 1 \<and> contiguous (k # hs)"
| "contiguous _ \<longleftrightarrow> True"

definition snap_apply :: "engEnv \<Rightarrow> Header list \<Rightarrow> voteSnapshot \<Rightarrow> sigcache \<Rightarrow> ((engerr + voteSnapshot) \<times> sigcache) res" where
  "snap_apply E headers s cache =
     (if headers = [] then Inr (Inr s, cache)
      else if \<not> contiguous headers \<or> numberOf (hd headers) \<noteq> sn_Number s + 1 then Inr (Inl InvalidVotingChain, cache)
      else bind_res (applyHeaders E headers s cache) (\<lambda>(r, cache). case r of
          Inl e \<Rightarrow> Inr (Inl e, cache)
        | Inr snap \<Rightarrow> Inr (Inr (snap\<lparr>sn_Number := sn_Number snap + of_nat (length headers),
             sn_Hash := ZKHashBlock E (last headers)\<rparr>), cache)))"

section \<open>The order of the signers\<close>

text \<open>The two nested loops of \<open>signers\<close>: position \<open>i\<close> is exchanged with every later smaller entry.\<close>

fun exchangePass :: "'a::linorder \<Rightarrow> 'a list \<Rightarrow> 'a \<times> 'a list" where
  "exchangePass x [] = (x, [])"
| "exchangePass x (y # ys) =
     (if x > y then let (m, r) = exchangePass y ys in (m, x # r) else let (m, r) = exchangePass x ys in (m, y # r))"

lemma length_exchangePass [simp]: "length (snd (exchangePass x ys)) = length ys"
  by (induction x ys rule: exchangePass.induct) (auto simp: case_prod_unfold Let_def)

fun exchangeSort :: "'a::linorder list \<Rightarrow> 'a list" where
  "exchangeSort [] = []"
| "exchangeSort (x # xs) = fst (exchangePass x xs) # exchangeSort (snd (exchangePass x xs))"

definition signers :: "voteSnapshot \<Rightarrow> address list" where
  "signers s = exchangeSort (mkeys (Signers s))"

fun offsetOf :: "address \<Rightarrow> address list \<Rightarrow> nat" where
  "offsetOf a [] = 0"
| "offsetOf a (x # xs) = (if x = a then 0 else Suc (offsetOf a xs))"

definition inturn :: "u64 \<Rightarrow> address \<Rightarrow> voteSnapshot \<Rightarrow> bool res" where
  "inturn number a s = (let ss = signers s in
     if ss = [] then Inl (Panic ''integer divide by zero'')
     else Inr (number mod of_nat (length ss) = of_nat (offsetOf a ss)))"

end
