(* ===== verification/Eng_Verify.thy ===== *)
theory Eng_Verify
  imports Eng_Voting
begin

text \<open>
  The consensus engine of \<open>consensus/pbft/pbft.go\<close>: the snapshot of the vote at a block, the
  verification of headers, the preparation and the sealing of a header, and the proposals of
  \<open>consensus/pbft/api.go\<close>.

  The chain is a parameter: the headers it knows by hash and number, and its first header. The
  current time and the random choice of a proposal are arguments. \<open>Seal\<close> is modelled up to the point where
  the sealed block is handed to the replica.
\<close>

record chainReader =
  ch_GetHeader :: "hash \<Rightarrow> u64 \<Rightarrow> Header option"
  ch_Genesis :: Header

record engine =
  recents :: "(hash \<times> voteSnapshot) list"
  signatures :: sigcache
  eng_db :: "(hash \<times> voteSnapshot) list"
  proposals :: "(address \<times> bool) list"
  eng_id :: u64
  eng_signer :: address

definition checkpointInterval :: u64 where "checkpointInterval = 1024"
definition DefaultPbftID :: u64 where "DefaultPbftID = 1000"
definition diffInTurn :: int where "diffInTurn = 2"
definition diffNoTurn :: int where "diffNoTurn = 1"
definition AddressLength :: nat where "AddressLength = 20"

section \<open>The checks of a single header\<close>

definition verifyBasic :: "engEnv \<Rightarrow> int \<Rightarrow> Header \<Rightarrow> engerr option" where
  "verifyBasic E now h =
     (let number = numberOf h; checkpoint = (number mod Epoch E = 0); n = length (h_Extra h) in
      if h_Time h > now then Some FutureBlock
      else if checkpoint \<and> h_Coinbase h \<noteq> 0 then Some InvalidCheckpointBeneficiary
      else if h_Nonce h \<noteq> nonceAuthVote \<and> h_Nonce h \<noteq> nonceDropVote then Some InvalidVote
      else if checkpoint \<and> h_Nonce h \<noteq> nonceDropVote then Some InvalidCheckpointVote
      else if n < extraVanity then Some MissingVanity
      else if n < extraVanity + extraSeal then Some MissingSignature
      else if \<not> checkpoint \<and> n - extraVanity - extraSeal \<noteq> 0 then Some ExtraSigners
      else if checkpoint \<and> (n - extraVanity - extraSeal) mod AddressLength \<noteq> 0 then Some InvalidCheckpointSigners
      else if h_MixDigest h \<noteq> 0 then Some InvalidMixDigest
      else if h_UncleHash h \<noteq> uncleHash E then Some InvalidUncleHash
      else if number > 0 \<and> h_Difficulty h \<noteq> diffInTurn \<and> h_Difficulty h \<noteq> diffNoTurn then Some InvalidDifficulty
      else None)"

section \<open>The snapshot at a block\<close>

text \<open>The bytes of an address, and the addresses in the extra data of the first header.\<close>

definition addressBytes :: "address \<Rightarrow> bytes" where
  "addressBytes a = map (\<lambda>i. ucast (drop_bit (8 * i) a)) (rev [0..<20])"

definition bytesAddress :: "bytes \<Rightarrow> address" where
  "bytesAddress bs = foldl (\<lambda>a b. push_bit 8 a + ucast b) 0 bs"

definition genesisSigners :: "Header \<Rightarrow> address list" where
  "genesisSigners h = map (\<lambda>i. bytesAddress (take 20 (drop (extraVanity + i * AddressLength) (h_Extra h))))
     [0..<(length (h_Extra h) - extraVanity - extraSeal) div AddressLength]"

text \<open>The header that the chain has under the number zero.\<close>

definition genesis :: "chainReader \<Rightarrow> Header" where
  "genesis ch = (ch_Genesis ch)\<lparr>h_Number := 0\<rparr>"

text \<open>
  The loop of \<open>snapshot\<close>: back from a block to one with a snapshot, gathering headers. The check of the
  first header ends with the checks of a single header, because its number is zero.
\<close>

fun findSnapshot :: "engEnv \<Rightarrow> chainReader \<Rightarrow> int \<Rightarrow> nat \<Rightarrow> hash \<Rightarrow> Header list \<Rightarrow> Header list \<Rightarrow> engine
    \<Rightarrow> (engerr + voteSnapshot \<times> Header list) \<times> engine" where
  "findSnapshot E ch now n h parents headers c = (case mget (recents c) h of
     Some s \<Rightarrow> (Inr (s, headers), c)
   | None \<Rightarrow> (case (if of_nat n mod checkpointInterval = 0 then mget (eng_db c) h else None) of
       Some s \<Rightarrow> (Inr (s, headers), c)
     | None \<Rightarrow> (case n of
         0 \<Rightarrow> (case verifyBasic E now (genesis ch) of
             Some e \<Rightarrow> (Inl e, c)
           | None \<Rightarrow>
              let s = newSnapshot 0 (ZKHashBlock E (genesis ch)) (genesisSigners (genesis ch))
              in (Inr (s, headers), c\<lparr>eng_db := mput (sn_Hash s) s (eng_db c)\<rparr>))
       | Suc m \<Rightarrow>
          if parents \<noteq> []
          then let header = last parents in
            if ZKHashBlock E header \<noteq> h \<or> numberOf header \<noteq> of_nat n then (Inl UnknownAncestor, c)
            else findSnapshot E ch now m (h_ParentHash header) (butlast parents) (headers @ [header]) c
          else (case ch_GetHeader ch h (of_nat n) of
              None \<Rightarrow> (Inl UnknownAncestor, c)
            | Some header \<Rightarrow> findSnapshot E ch now m (h_ParentHash header) [] (headers @ [header]) c))))"

declare findSnapshot.simps [simp del]

definition eng_snapshot :: "engEnv \<Rightarrow> chainReader \<Rightarrow> int \<Rightarrow> u64 \<Rightarrow> hash \<Rightarrow> Header list \<Rightarrow> engine \<Rightarrow> ((engerr + voteSnapshot) \<times> engine) res" where
  "eng_snapshot E ch now number h parents c =
     (let (r, c) = findSnapshot E ch now (unat number) h parents [] c in
      case r of Inl e \<Rightarrow> Inr (Inl e, c)
      | Inr (s, headers) \<Rightarrow> bind_res (snap_apply E (rev headers) s (signatures c)) (\<lambda>(r, cache).
          let c = c\<lparr>signatures := cache\<rparr> in
          case r of Inl e \<Rightarrow> Inr (Inl e, c)
          | Inr snap \<Rightarrow>
             let c = c\<lparr>recents := mput (sn_Hash snap) snap (recents c)\<rparr>
             in Inr (Inr snap, if sn_Number snap mod checkpointInterval = 0 \<and> headers \<noteq> []
                  then c\<lparr>eng_db := mput (sn_Hash snap) snap (eng_db c)\<rparr> else c)))"

section \<open>Verification\<close>

definition verifySeal :: "engEnv \<Rightarrow> chainReader \<Rightarrow> int \<Rightarrow> Header \<Rightarrow> Header list \<Rightarrow> engine \<Rightarrow> (engerr option \<times> engine) res" where
  "verifySeal E ch now h parents c =
     (let number = numberOf h in
      if number = 0 then Inr (Some UnknownBlock, c)
      else bind_res (eng_snapshot E ch now (number - 1) (h_ParentHash h) parents c) (\<lambda>(r, c). case r of
          Inl e \<Rightarrow> Inr (Some e, c)
        | Inr snap \<Rightarrow> bind_res (ecrecover E h (signatures c)) (\<lambda>(r, cache).
            let c = c\<lparr>signatures := cache\<rparr> in
            case r of Inl e \<Rightarrow> Inr (Some e, c)
            | Inr signer \<Rightarrow>
               if \<not> mhas (Signers snap) signer then Inr (Some Unauthorized, c)
               else bind_res (inturn number signer snap) (\<lambda>turn.
                 Inr (if turn \<and> h_Difficulty h \<noteq> diffInTurn \<or> \<not> turn \<and> h_Difficulty h \<noteq> diffNoTurn then Some InvalidDifficulty else None, c)))))"

definition verifyCascadingFields :: "engEnv \<Rightarrow> chainReader \<Rightarrow> int \<Rightarrow> Header \<Rightarrow> Header list \<Rightarrow> engine \<Rightarrow> (engerr option \<times> engine) res" where
  "verifyCascadingFields E ch now h parents c =
     (let number = numberOf h in
      if number = 0 then Inr (None, c)
      else
        let parent = (if parents \<noteq> [] then Some (last parents) else ch_GetHeader ch (h_ParentHash h) (number - 1)) in
        case parent of
          None \<Rightarrow> Inr (Some UnknownAncestor, c)
        | Some p \<Rightarrow>
           if numberOf p \<noteq> number - 1 \<or> ZKHashBlock E p \<noteq> h_ParentHash h then Inr (Some UnknownAncestor, c)
           else if (word_of_int (h_Time p) :: u64) + Period E > word_of_int (h_Time h) then Inr (Some InvalidTimestamp, c)
           else bind_res (eng_snapshot E ch now (number - 1) (h_ParentHash h) parents c) (\<lambda>(r, c). case r of
               Inl e \<Rightarrow> Inr (Some e, c)
             | Inr snap \<Rightarrow>
                if number mod Epoch E = 0 \<and>
                   take (length (h_Extra h) - extraSeal - extraVanity) (drop extraVanity (h_Extra h)) \<noteq> concat (map addressBytes (signers snap))
                then Inr (Some InvalidCheckpointSigners, c)
                else verifySeal E ch now h parents c))"

definition verifyHeader :: "engEnv \<Rightarrow> chainReader \<Rightarrow> int \<Rightarrow> Header \<Rightarrow> Header list \<Rightarrow> engine \<Rightarrow> (engerr option \<times> engine) res" where
  "verifyHeader E ch now h parents c = (case verifyBasic E now h of
     Some e \<Rightarrow> Inr (Some e, c) | None \<Rightarrow> verifyCascadingFields E ch now h parents c)"

text \<open>\<open>VerifyHeaders\<close>: one result for each header, each with the headers before it as its parents.\<close>

fun verifyHeadersFrom :: "engEnv \<Rightarrow> chainReader \<Rightarrow> int \<Rightarrow> Header list \<Rightarrow> Header list \<Rightarrow> engine \<Rightarrow> (engerr option list \<times> engine) res" where
  "verifyHeadersFrom E ch now before [] c = Inr ([], c)"
| "verifyHeadersFrom E ch now before (h # hs) c = bind_res (verifyHeader E ch now h before c) (\<lambda>(r, c).
     bind_res (verifyHeadersFrom E ch now (before @ [h]) hs c) (\<lambda>(rs, c). Inr (r # rs, c)))"

definition VerifyHeaders :: "engEnv \<Rightarrow> chainReader \<Rightarrow> int \<Rightarrow> Header list \<Rightarrow> engine \<Rightarrow> (engerr option list \<times> engine) res" where
  "VerifyHeaders E ch now hs c = verifyHeadersFrom E ch now [] hs c"

definition Author :: "engEnv \<Rightarrow> Header \<Rightarrow> engine \<Rightarrow> ((engerr + address) \<times> engine) res" where
  "Author E h c = bind_res (ecrecover E h (signatures c)) (\<lambda>(r, cache). Inr (r, c\<lparr>signatures := cache\<rparr>))"

section \<open>Preparing and sealing\<close>

text \<open>The vote on one of the proposals that make sense; \<open>rnd\<close> is the random number that chooses.\<close>

definition chooseVote :: "engEnv \<Rightarrow> nat \<Rightarrow> voteSnapshot \<Rightarrow> (address \<times> bool) list \<Rightarrow> Header \<Rightarrow> Header" where
  "chooseVote E rnd snap props h =
     (let addresses = map fst (filter (\<lambda>(a, auth). validVote a auth snap) props) in
      if numberOf h mod Epoch E \<noteq> 0 \<and> addresses \<noteq> []
      then let a = addresses ! (rnd mod length addresses)
        in h\<lparr>h_Coinbase := a, h_Nonce := (if mget props a = Some True then nonceAuthVote else nonceDropVote)\<rparr>
      else h)"

definition fillExtra :: "engEnv \<Rightarrow> voteSnapshot \<Rightarrow> Header \<Rightarrow> Header" where
  "fillExtra E snap h =
     (let vanity = take extraVanity (h_Extra h @ replicate (extraVanity - length (h_Extra h)) 0) in
      h\<lparr>h_Extra := vanity @ (if numberOf h mod Epoch E = 0 then concat (map addressBytes (signers snap)) else []) @ replicate extraSeal 0,
        h_MixDigest := 0\<rparr>)"

definition fillTime :: "engEnv \<Rightarrow> int \<Rightarrow> Header \<Rightarrow> Header \<Rightarrow> Header" where
  "fillTime E now parent h =
     (let time = h_Time parent + uint (Period E)
      in h\<lparr>h_Time := (if sint (word_of_int time :: u64) < now then now else time)\<rparr>)"

definition Prepare :: "engEnv \<Rightarrow> chainReader \<Rightarrow> int \<Rightarrow> nat \<Rightarrow> Header \<Rightarrow> engine \<Rightarrow> ((engerr + Header) \<times> engine) res" where
  "Prepare E ch now rnd h c =
     (let h = h\<lparr>h_Coinbase := 0, h_Nonce := 0\<rparr>; number = numberOf h in
      bind_res (eng_snapshot E ch now (number - 1) (h_ParentHash h) [] c) (\<lambda>(r, c). case r of
        Inl e \<Rightarrow> Inr (Inl e, c)
      | Inr snap \<Rightarrow>
         let h = chooseVote E rnd snap (proposals c) h in
         bind_res (inturn number (eng_signer c) snap) (\<lambda>turn.
           let h = fillExtra E snap (h\<lparr>h_Difficulty := (if turn then diffInTurn else diffNoTurn)\<rparr>) in
           case ch_GetHeader ch (h_ParentHash h) (number - 1) of
             None \<Rightarrow> Inr (Inl UnknownAncestor, c)
           | Some parent \<Rightarrow> Inr (Inr (fillTime E now parent h), c))))"

text \<open>The signature goes over the last bytes of the extra data.\<close>

definition withSignature :: "bytes \<Rightarrow> Header \<Rightarrow> Header" where
  "withSignature sig h = (let n = length (h_Extra h) - extraSeal in
     h\<lparr>h_Extra := take n (h_Extra h) @ take extraSeal sig @ drop (n + length sig) (h_Extra h)\<rparr>)"

definition Seal :: "engEnv \<Rightarrow> chainReader \<Rightarrow> int \<Rightarrow> bool \<Rightarrow> (hash \<Rightarrow> bytes) \<Rightarrow> Header \<Rightarrow> engine \<Rightarrow> ((engerr + Header) \<times> engine) res" where
  "Seal E ch now isPrimary signFn h c =
     (if eng_id c = DefaultPbftID then Inr (Inl NotVP, c)
      else if \<not> isPrimary then Inr (Inl NotPrimary, c)
      else
        let number = numberOf h in
        if number = 0 then Inr (Inl UnknownBlock, c)
        else bind_res (eng_snapshot E ch now (number - 1) (h_ParentHash h) [] c) (\<lambda>(r, c). case r of
            Inl e \<Rightarrow> Inr (Inl e, c)
          | Inr snap \<Rightarrow>
             if \<not> mhas (Signers snap) (eng_signer c) then Inr (Inl Unauthorized, c)
             else bind_res (header_sigHash E h) (\<lambda>d. Inr (Inr (withSignature (signFn d) h), c))))"

section \<open>Proposals and the account of the signer\<close>

definition Authorize :: "address \<Rightarrow> engine \<Rightarrow> engine" where
  "Authorize a c = c\<lparr>eng_signer := a\<rparr>"

definition Propose :: "address \<Rightarrow> bool \<Rightarrow> engine \<Rightarrow> engine" where
  "Propose a auth c = (if eng_id c = DefaultPbftID then c else c\<lparr>proposals := mput a auth (proposals c)\<rparr>)"

definition Discard :: "address \<Rightarrow> engine \<Rightarrow> engine" where
  "Discard a c = (if eng_id c = DefaultPbftID then c else c\<lparr>proposals := mdel a (proposals c)\<rparr>)"

text \<open>The header is the one that the chain has under the number or hash asked for, if any.\<close>

definition GetSnapshot :: "engEnv \<Rightarrow> chainReader \<Rightarrow> int \<Rightarrow> Header option \<Rightarrow> engine \<Rightarrow> ((engerr + voteSnapshot) \<times> engine) res" where
  "GetSnapshot E ch now header c = (case header of
     None \<Rightarrow> Inr (Inl UnknownBlock, c)
   | Some h \<Rightarrow> eng_snapshot E ch now (numberOf h) (ZKHashBlock E h) [] c)"

definition GetSigners :: "engEnv \<Rightarrow> chainReader \<Rightarrow> int \<Rightarrow> Header option \<Rightarrow> engine \<Rightarrow> ((engerr + address list) \<times> engine) res" where
  "GetSigners E ch now header c = (case header of
     None \<Rightarrow> Inr (Inl UnknownBlock, c)
   | Some _ \<Rightarrow> bind_res (GetSnapshot E ch now header c) (\<lambda>(r, c).
       Inr (case r of Inl e \<Rightarrow> Inl e | Inr snap \<Rightarrow> Inr (signers snap), c)))"

end
