(* ===== verification/Eng_Proofs.thy ===== *)
theory Eng_Proofs
  imports Eng_Verify "HOL-Library.Multiset"
begin

text \<open>
  Facts about the vote and the engine: the order of the signers, the vote as a change of the set of
  signers, and the caches of the engine.
\<close>

section \<open>The order of the signers\<close>

lemma exchangePass_spec: "mset (fst (exchangePass x ys) # snd (exchangePass x ys)) = mset (x # ys) \<and>
    (\<forall>z\<in>set (snd (exchangePass x ys)). fst (exchangePass x ys) \<le> z) \<and> fst (exchangePass x ys) \<le> x"
  by (induction x ys rule: exchangePass.induct) (force simp: case_prod_unfold Let_def)+

lemma exchangeSort_spec: "mset (exchangeSort xs) = mset xs \<and> sorted (exchangeSort xs)"
proof (induction xs rule: exchangeSort.induct)
  case (2 x xs)
  let ?m = "fst (exchangePass x xs)" and ?r = "snd (exchangePass x xs)"
  have p: "mset (?m # ?r) = mset (x # xs)" "\<forall>z\<in>set ?r. ?m \<le> z" using exchangePass_spec [of x xs] by simp_all
  have "set (exchangeSort ?r) = set ?r" using 2 by (metis set_mset_mset)
  then show ?case using 2 p by simp
qed simp

lemma signers_eq:
  assumes "distinct (mkeys (Signers s))"
  shows "signers s = sorted_list_of_set (set (mkeys (Signers s)))"
proof -
  have m: "mset (signers s) = mset (mkeys (Signers s))" and so: "sorted (signers s)"
    using exchangeSort_spec [of "mkeys (Signers s)"] by (simp_all add: signers_def)
  have "distinct (signers s)" using m assms by (metis mset_eq_imp_distinct_iff)
  moreover have "set (signers s) = set (mkeys (Signers s))" using m by (metis set_mset_mset)
  ultimately show ?thesis using so by (metis sorted_list_of_set.idem_if_sorted_distinct)
qed

lemma signers_facts:
  assumes "distinct (mkeys (Signers s))"
  shows "distinct (signers s)" "set (signers s) = {a. mhas (Signers s) a}" "length (signers s) = length (Signers s)"
  using assms signers_eq [OF assms] distinct_card [OF assms] by (auto simp: mhas_iff mkeys_def)

lemma offsetOf_nth: "distinct xs \<Longrightarrow> i < length xs \<Longrightarrow> offsetOf (xs ! i) xs = i"
  by (induction xs arbitrary: i) (auto simp: nth_Cons split: nat.splits)

lemma offsetOf_less: "a \<in> set xs \<Longrightarrow> offsetOf a xs < length xs \<and> xs ! offsetOf a xs = a"
  by (induction xs) auto

lemma unat_u64: "n < 2 ^ 64 \<Longrightarrow> unat (of_nat n :: u64) = n"
  by (simp add: unat_of_nat take_bit_nat_eq_self)

lemma of_nat_u64_inj: "n < 2 ^ 64 \<Longrightarrow> m < 2 ^ 64 \<Longrightarrow> (of_nat n :: u64) = of_nat m \<longleftrightarrow> n = m"
  by (metis unat_u64)

lemma unat_mod_length: "(k :: nat) < 2 ^ 64 \<Longrightarrow> unat ((n :: u64) mod of_nat k) = unat n mod k"
  by (simp add: unat_mod unat_u64)

lemma inturn_iff:
  assumes d: "distinct (mkeys (Signers s))" and ne: "Signers s \<noteq> []" and len: "length (Signers s) < 2 ^ 64" and a: "mhas (Signers s) a"
  shows "inturn n a s = Inr True \<longleftrightarrow> a = signers s ! (unat n mod length (Signers s))"
proof -
  note f = signers_facts [OF d]
  have lt: "unat n mod length (Signers s) < length (signers s)" using ne f(3) by simp
  have o: "offsetOf a (signers s) < length (signers s)" "signers s ! offsetOf a (signers s) = a"
    using offsetOf_less [of a "signers s"] a f(2) by auto
  have "inturn n a s = Inr True \<longleftrightarrow> n mod of_nat (length (signers s)) = of_nat (offsetOf a (signers s))"
    using ne f(3) by (auto simp: inturn_def Let_def)
  also have "\<dots> \<longleftrightarrow> unat n mod length (signers s) = offsetOf a (signers s)"
    using unat_mod_length [of "length (signers s)" n] len f(3) o(1) by (auto simp: word_unat_eq_iff unat_u64)
  also have "\<dots> \<longleftrightarrow> a = signers s ! (unat n mod length (Signers s))"
    using o(2) offsetOf_nth [OF f(1) lt] f(3) by metis
  finally show ?thesis .
qed

section \<open>The vote\<close>

text \<open>Between headers there are no votes: a vote decides at once.\<close>

definition quiet :: "voteSnapshot \<Rightarrow> bool" where
  "quiet s \<longleftrightarrow> Votes s = [] \<and> Tallies s = [] \<and> distinct (mkeys (Signers s))"

definition voteStep :: "Header \<Rightarrow> address set \<Rightarrow> address set" where
  "voteStep h S = (if h_Nonce h = nonceAuthVote then insert (h_Coinbase h) S else S - {h_Coinbase h})"

definition signerSet :: "voteSnapshot \<Rightarrow> address set" where
  "signerSet s = set (mkeys (Signers s))"

lemma mhas_signerSet [simp]: "mhas (Signers s) a \<longleftrightarrow> a \<in> signerSet s"
  by (simp add: signerSet_def mhas_iff)

lemma quiet_new: "quiet (newSnapshot n h as)" "signerSet (newSnapshot n h as) = set as"
proof -
  have "distinct (mkeys (fold (\<lambda>a. mput a ()) as m)) \<and> set (mkeys (fold (\<lambda>a. mput a ()) as m)) = set as \<union> set (mkeys m)"
    if "distinct (mkeys m)" for m :: "(address \<times> unit) list" using that
    by (induction as arbitrary: m) (auto simp: am.keys_put)
  from this [of "[]"] show "quiet (newSnapshot n h as)" "signerSet (newSnapshot n h as) = set as"
    by (auto simp: quiet_def newSnapshot_def signerSet_def)
qed

lemma discardVote_quiet: "quiet s \<Longrightarrow> discardVote a b s = s"
  by (simp add: discardVote_def quiet_def)

text \<open>One header: what the vote does, in the terms of the set of signers.\<close>

definition voteOutcome :: "address \<Rightarrow> bool \<Rightarrow> voteSnapshot \<Rightarrow> voteSnapshot" where
  "voteOutcome a authorize s =
     (if validVote a authorize s then s\<lparr>Signers := (if authorize then mput a () (Signers s) else mdel a (Signers s))\<rparr> else s)"

lemma cast_changes:
  assumes q: "quiet s" and c: "cast a authorize s = (counted, s1)"
  shows "changeSigner a (if counted then s1\<lparr>Votes := Votes s1 @ [\<lparr>v_Signer = x, v_Block = n, v_Address = a, v_Authorize = authorize\<rparr>]\<rparr> else s1)
    = voteOutcome a authorize s"
proof (cases "validVote a authorize s")
  case True
  have b: "mdel a (mput a t []) = []" "mdel a ([] :: (address \<times> Tally) list) = []" for t :: Tally by (simp_all add: mdel_def mput_def)
  have s1: "counted" "s1 = s\<lparr>Tallies := mput a \<lparr>t_Authorize = authorize, t_Votes = 1\<rparr> []\<rparr>"
    using c q True by (auto simp: cast_def quiet_def mhas_def)
  show ?thesis
    using q True by (simp add: s1 changeSigner_def discardVotesOf_def uncast_def quiet_def voteOutcome_def b Let_def)
next
  case False
  then show ?thesis using c q by (auto simp: cast_def changeSigner_def quiet_def voteOutcome_def)
qed

lemma voteOutcome_facts:
  assumes "quiet s"
  shows "quiet (voteOutcome (h_Coinbase h) (h_Nonce h = nonceAuthVote) s)"
    "signerSet (voteOutcome (h_Coinbase h) (h_Nonce h = nonceAuthVote) s) = voteStep h (signerSet s)"
    "sn_Number (voteOutcome a v s) = sn_Number s"
  using assms by (auto simp: quiet_def voteOutcome_def voteStep_def validVote_def signerSet_def am.keys_put am.keys_del mhas_iff Let_def)

lemma applyHeader_quiet:
  assumes q: "quiet s"
  shows "applyHeader E h s cache = bind_res (ecrecover E h cache) (\<lambda>(r, cache). Inr (case r of
       Inl e \<Rightarrow> Inl e
     | Inr a \<Rightarrow> if a \<notin> signerSet s then Inl Unauthorized
         else if h_Nonce h \<noteq> nonceAuthVote \<and> h_Nonce h \<noteq> nonceDropVote then Inl InvalidVote
         else Inr (voteOutcome (h_Coinbase h) (h_Nonce h = nonceAuthVote) s), cache))"
proof (cases "ecrecover E h cache")
  case (Inr p)
  have e: "s\<lparr>Votes := [], Tallies := []\<rparr> = s" using q by (simp add: quiet_def)
  obtain counted s1 where c: "cast (h_Coinbase h) (h_Nonce h = nonceAuthVote) s = (counted, s1)" by fastforce
  obtain r cache1 where p: "p = (r, cache1)" by fastforce
  show ?thesis
  proof (cases r)
    case (Inr a)
    show ?thesis
      unfolding applyHeader_def e Let_def if_cancel \<open>ecrecover E h cache = Inr p\<close> p Inr
      by (simp only: bind_res_simps prod.case sum.case mhas_signerSet discardVote_quiet [OF q] c cast_changes [OF q c] cong: if_cong) simp
  qed (simp add: applyHeader_def Let_def Inr p)
qed (simp add: applyHeader_def Let_def)

lemma applyHeader_ok:
  assumes "quiet s" and "applyHeader E h s cache = Inr (Inr t, cache')"
  shows "\<exists>signer \<in> signerSet s. ecrecover E h cache = Inr (Inr signer, cache') \<and> h_Nonce h \<in> {nonceAuthVote, nonceDropVote} \<and>
    t = voteOutcome (h_Coinbase h) (h_Nonce h = nonceAuthVote) s"
proof -
  from assms(2) obtain r where r: "ecrecover E h cache = Inr (r, cache')"
    by (auto simp: applyHeader_quiet [OF assms(1)] bind_res_Inr_iff)
  then show ?thesis using assms(2) by (cases r) (auto simp: applyHeader_quiet [OF assms(1)] split: if_split_asm)
qed

text \<open>The signers before each header, and that each header is signed by one of them.\<close>

fun signedBy :: "engEnv \<Rightarrow> Header list \<Rightarrow> address set \<Rightarrow> sigcache \<Rightarrow> bool" where
  "signedBy E [] S cache \<longleftrightarrow> True"
| "signedBy E (h # hs) S cache \<longleftrightarrow> (\<exists>a\<in>S. \<exists>cache'. ecrecover E h cache = Inr (Inr a, cache') \<and>
     h_Nonce h \<in> {nonceAuthVote, nonceDropVote} \<and> signedBy E hs (voteStep h S) cache')"

lemma applyHeaders_ok:
  assumes "quiet s" and "applyHeaders E hs s cache = Inr (Inr t, cache')"
  shows "quiet t \<and> signerSet t = fold voteStep hs (signerSet s) \<and> sn_Number t = sn_Number s \<and> signedBy E hs (signerSet s) cache"
  using assms
proof (induction hs arbitrary: s cache)
  case (Cons h hs)
  from Cons.prems(2) obtain r cache1 where r: "applyHeader E h s cache = Inr (r, cache1)" by (auto simp: bind_res_Inr_iff)
  obtain u where u: "r = Inr u" using Cons.prems(2) r by (cases r) auto
  note a = applyHeader_ok [OF Cons.prems(1) r [unfolded u]]
  note f = voteOutcome_facts [OF Cons.prems(1)]
  have rest: "applyHeaders E hs u cache1 = Inr (Inr t, cache')" using Cons.prems(2) r u by simp
  from a have u': "u = voteOutcome (h_Coinbase h) (h_Nonce h = nonceAuthVote) s" by blast
  from Cons.IH [OF f(1) rest [unfolded u']] a f show ?case by auto
qed simp

lemma applyHeaders_signed:
  assumes "quiet s" and "signedBy E hs (signerSet s) cache"
  shows "\<exists>t cache'. applyHeaders E hs s cache = Inr (Inr t, cache')"
  using assms
proof (induction hs arbitrary: s cache)
  case (Cons h hs)
  from Cons.prems(2) obtain a cache1 where a: "a \<in> signerSet s" "ecrecover E h cache = Inr (Inr a, cache1)"
    "h_Nonce h \<in> {nonceAuthVote, nonceDropVote}" "signedBy E hs (voteStep h (signerSet s)) cache1" by auto
  note f = voteOutcome_facts [OF Cons.prems(1)]
  have "applyHeader E h s cache = Inr (Inr (voteOutcome (h_Coinbase h) (h_Nonce h = nonceAuthVote) s), cache1)"
    using a(1-3) by (auto simp: applyHeader_quiet [OF Cons.prems(1)])
  then show ?case using Cons.IH [OF f(1), of h cache1] a(4) f(2) by auto
qed simp

end
