(* ===== verification/Eng_Snapshot.thy ===== *)
theory Eng_Snapshot
  imports Eng_Proofs
begin

text \<open>
  The snapshot at a block without any cache, and that the engine finds this snapshot: from the blocks
  it remembers, from its database or from the first block, and whatever it has in its caches.
\<close>

section \<open>The reference snapshot\<close>

text \<open>The signer that a signature gives, without a cache.\<close>

definition authorOf :: "engEnv \<Rightarrow> Header \<Rightarrow> address option" where
  "authorOf E h = (case ecrecover E h [] of Inr (Inr a, _) \<Rightarrow> Some a | _ \<Rightarrow> None)"

definition stepSnap :: "engEnv \<Rightarrow> Header \<Rightarrow> voteSnapshot \<Rightarrow> voteSnapshot option" where
  "stepSnap E h s = (case authorOf E h of
     None \<Rightarrow> None
   | Some a \<Rightarrow>
      if a \<in> signerSet s \<and> h_Nonce h \<in> {nonceAuthVote, nonceDropVote}
      then Some ((voteOutcome (h_Coinbase h) (h_Nonce h = nonceAuthVote) s)\<lparr>sn_Number := sn_Number s + 1, sn_Hash := ZKHashBlock E h\<rparr>)
      else None)"

definition genesisSnap :: "engEnv \<Rightarrow> chainReader \<Rightarrow> voteSnapshot" where
  "genesisSnap E ch = newSnapshot 0 (ZKHashBlock E (genesis ch)) (genesisSigners (genesis ch))"

lemma genesisSnap_facts [simp]:
  "quiet (genesisSnap E ch)" "sn_Number (genesisSnap E ch) = 0" "sn_Hash (genesisSnap E ch) = ZKHashBlock E (genesis ch)"
  "signerSet (genesisSnap E ch) = set (genesisSigners (genesis ch))"
  by (simp_all add: genesisSnap_def quiet_new) (simp_all add: newSnapshot_def)

fun refSnapshot :: "engEnv \<Rightarrow> chainReader \<Rightarrow> nat \<Rightarrow> hash \<Rightarrow> voteSnapshot option" where
  "refSnapshot E ch 0 h = (if h = ZKHashBlock E (genesis ch) then Some (genesisSnap E ch) else None)"
| "refSnapshot E ch (Suc n) h = (case ch_GetHeader ch h (of_nat (Suc n)) of
     None \<Rightarrow> None
   | Some k \<Rightarrow> Option.bind (refSnapshot E ch n (h_ParentHash k)) (stepSnap E k))"

section \<open>Coherent chains and engines\<close>

text \<open>
  A chain finds under a hash and a number a header with this hash and this number, whose parent it has
  too, and under the number zero its first header. \<open>H\<close> are the headers that are around: no two of them
  have the same hash.
\<close>

definition chain_ok :: "engEnv \<Rightarrow> chainReader \<Rightarrow> Header set \<Rightarrow> bool" where
  "chain_ok E ch H \<longleftrightarrow>
     (\<forall>h n k. ch_GetHeader ch h n = Some k \<longrightarrow> ZKHashBlock E k = h \<and> numberOf k = n \<and> k \<in> H) \<and>
     (\<forall>h n k. ch_GetHeader ch h n = Some k \<longrightarrow> n \<noteq> 0 \<longrightarrow> ch_GetHeader ch (h_ParentHash k) (n - 1) \<noteq> None) \<and>
     (\<forall>h k. ch_GetHeader ch h 0 = Some k \<longrightarrow> k = genesis ch) \<and>
     genesis ch \<in> H \<and> inj_on (ZKHashBlock E) H"

definition sigs_ok :: "engEnv \<Rightarrow> Header set \<Rightarrow> sigcache \<Rightarrow> bool" where
  "sigs_ok E H cache \<longleftrightarrow> (\<forall>k\<in>H. \<forall>a. mget cache (ZKHashBlock E k) = Some a \<longrightarrow> authorOf E k = Some a)"

definition snaps_ok :: "engEnv \<Rightarrow> chainReader \<Rightarrow> (hash \<times> voteSnapshot) list \<Rightarrow> bool" where
  "snaps_ok E ch m \<longleftrightarrow> (\<forall>h s. mget m h = Some s \<longrightarrow> (\<exists>n. n < 2 ^ 64 \<and> refSnapshot E ch n h = Some s))"

definition engine_ok :: "engEnv \<Rightarrow> chainReader \<Rightarrow> Header set \<Rightarrow> engine \<Rightarrow> bool" where
  "engine_ok E ch H c \<longleftrightarrow> sigs_ok E H (signatures c) \<and> snaps_ok E ch (recents c) \<and> snaps_ok E ch (eng_db c)"

lemma chain_okD:
  assumes "chain_ok E ch H" and "ch_GetHeader ch h n = Some k"
  shows "ZKHashBlock E k = h" "numberOf k = n" "k \<in> H" "n \<noteq> 0 \<Longrightarrow> \<exists>p. ch_GetHeader ch (h_ParentHash k) (n - 1) = Some p"
    "n = 0 \<Longrightarrow> k = genesis ch"
  using assms unfolding chain_ok_def by blast+

lemma numberOf_genesis [simp]: "numberOf (genesis ch) = 0"
  by (simp add: numberOf_def genesis_def)

section \<open>The cache of signers\<close>

lemma ecrecover_ok:
  assumes o: "sigs_ok E H cache" and k: "k \<in> H" and inj: "inj_on (ZKHashBlock E) H"
  shows "\<exists>r cache'. ecrecover E k cache = Inr (r, cache') \<and> sigs_ok E H cache' \<and>
    (case authorOf E k of Some a \<Rightarrow> r = Inr a | None \<Rightarrow> \<exists>e. r = Inl e)"
proof (cases "mget cache (ZKHashBlock E k)")
  case None
  have e: "authorOf E k = Some a \<Longrightarrow> sigs_ok E H (mput (ZKHashBlock E k) a cache)" for a
    using o inj k by (auto simp: sigs_ok_def inj_on_def am.get_put split: if_splits)
  show ?thesis using None o e
    by (auto simp: ecrecover_def authorOf_def header_sigHash_def extraSeal_def am.get_empty split: option.splits)
next
  case (Some a)
  then have "authorOf E k = Some a" using o k by (auto simp: sigs_ok_def)
  then show ?thesis using Some o by (auto simp: ecrecover_def)
qed

section \<open>A run of headers\<close>

lemma stepSnap_applyHeader:
  assumes q: "quiet s" and o: "sigs_ok E H cache" and k: "k \<in> H" and inj: "inj_on (ZKHashBlock E) H"
  shows "\<exists>r cache'. applyHeader E k (s\<lparr>sn_Number := a, sn_Hash := b\<rparr>) cache = Inr (r, cache') \<and> sigs_ok E H cache' \<and>
    (case stepSnap E k s of
       Some t \<Rightarrow> quiet t \<and> sn_Number t = sn_Number s + 1 \<and> sn_Hash t = ZKHashBlock E k \<and> r = Inr (t\<lparr>sn_Number := a, sn_Hash := b\<rparr>)
     | None \<Rightarrow> \<exists>e. r = Inl e)"
proof -
  have q': "quiet (s\<lparr>sn_Number := a, sn_Hash := b\<rparr>)" using q by (simp add: quiet_def)
  have u: "voteOutcome x v (s\<lparr>sn_Number := a, sn_Hash := b\<rparr>) = (voteOutcome x v s)\<lparr>sn_Number := a, sn_Hash := b\<rparr>" for x v
    by (simp add: voteOutcome_def validVote_def)
  have q2: "quiet ((voteOutcome (h_Coinbase k) (h_Nonce k = nonceAuthVote) s)\<lparr>sn_Number := n, sn_Hash := z\<rparr>)" for n z
    using voteOutcome_facts(1) [OF q] by (simp add: quiet_def)
  from ecrecover_ok [OF o k inj] obtain r cache' where e: "ecrecover E k cache = Inr (r, cache')" "sigs_ok E H cache'"
    "case authorOf E k of Some a \<Rightarrow> r = Inr a | None \<Rightarrow> \<exists>e. r = Inl e" by blast
  then show ?thesis
    by (cases "authorOf E k") (auto simp: applyHeader_quiet [OF q'] stepSnap_def u q2 signerSet_def)
qed

fun runSnap :: "engEnv \<Rightarrow> Header list \<Rightarrow> voteSnapshot \<Rightarrow> voteSnapshot option" where
  "runSnap E [] s = Some s"
| "runSnap E (k # ks) s = Option.bind (stepSnap E k s) (runSnap E ks)"

lemma runSnap_snoc: "runSnap E (ks @ [k]) s = Option.bind (runSnap E ks s) (stepSnap E k)"
  by (induction ks arbitrary: s) (auto simp: bind_eq_Some_conv split: Option.bind_split)

lemma applyHeaders_ref:
  assumes "quiet s" and "sigs_ok E H cache" and "set ks \<subseteq> H" and inj: "inj_on (ZKHashBlock E) H"
  shows "\<exists>r cache'. applyHeaders E ks (s\<lparr>sn_Number := a, sn_Hash := b\<rparr>) cache = Inr (r, cache') \<and> sigs_ok E H cache' \<and>
    (case runSnap E ks s of
       Some t \<Rightarrow> quiet t \<and> sn_Number t = sn_Number s + of_nat (length ks) \<and> sn_Hash t = (if ks = [] then sn_Hash s else ZKHashBlock E (last ks)) \<and>
         r = Inr (t\<lparr>sn_Number := a, sn_Hash := b\<rparr>)
     | None \<Rightarrow> \<exists>e. r = Inl e)"
  using assms(1-3)
proof (induction ks arbitrary: s cache)
  case (Cons k ks)
  from Cons.prems have k: "k \<in> H" "set ks \<subseteq> H" by auto
  from stepSnap_applyHeader [OF Cons.prems(1,2) k(1) inj, where a = a and b = b] obtain r cache1 where
    r: "applyHeader E k (s\<lparr>sn_Number := a, sn_Hash := b\<rparr>) cache = Inr (r, cache1)" and o: "sigs_ok E H cache1" and
    c: "case stepSnap E k s of
       Some t \<Rightarrow> quiet t \<and> sn_Number t = sn_Number s + 1 \<and> sn_Hash t = ZKHashBlock E k \<and> r = Inr (t\<lparr>sn_Number := a, sn_Hash := b\<rparr>)
     | None \<Rightarrow> \<exists>e. r = Inl e" by blast
  show ?case
  proof (cases "stepSnap E k s")
    case None
    then show ?thesis using r o c by auto
  next
    case (Some t)
    from Some c have t: "quiet t" "sn_Number t = sn_Number s + 1" "sn_Hash t = ZKHashBlock E k" "r = Inr (t\<lparr>sn_Number := a, sn_Hash := b\<rparr>)" by auto
    from Cons.IH [OF t(1) o k(2)] obtain r' cache' where r': "applyHeaders E ks (t\<lparr>sn_Number := a, sn_Hash := b\<rparr>) cache1 = Inr (r', cache')" "sigs_ok E H cache'"
      and c': "case runSnap E ks t of
       Some u \<Rightarrow> quiet u \<and> sn_Number u = sn_Number t + of_nat (length ks) \<and> sn_Hash u = (if ks = [] then sn_Hash t else ZKHashBlock E (last ks)) \<and>
         r' = Inr (u\<lparr>sn_Number := a, sn_Hash := b\<rparr>)
     | None \<Rightarrow> \<exists>e. r' = Inl e" by blast
    show ?thesis using r r' t c' Some by (cases "runSnap E ks t") (simp_all add: ac_simps)
  qed
qed auto

text \<open>Headers that are numbered one after the other.\<close>

fun consecutive :: "u64 \<Rightarrow> Header list \<Rightarrow> bool" where
  "consecutive a [] \<longleftrightarrow> True"
| "consecutive a (k # ks) \<longleftrightarrow> numberOf k = a + 1 \<and> consecutive (a + 1) ks"

lemma consecutive_snoc: "consecutive a (ks @ [k]) \<longleftrightarrow> consecutive a ks \<and> numberOf k = a + of_nat (length ks) + 1"
  by (induction ks arbitrary: a) (auto simp: ac_simps)

lemma consecutive_contiguous: "consecutive a ks \<longleftrightarrow> contiguous ks \<and> (ks \<noteq> [] \<longrightarrow> numberOf (hd ks) = a + 1)"
proof (induction ks arbitrary: a rule: contiguous.induct)
  case (1 h k hs)
  show ?case using 1 [of "a + 1"] by (auto simp del: consecutive.simps(2) simp: consecutive.simps(2) [of a h])
qed simp_all

lemma snap_apply_ref:
  assumes q: "quiet s" and o: "sigs_ok E H cache" and k: "set ks \<subseteq> H" and inj: "inj_on (ZKHashBlock E) H" and n: "consecutive (sn_Number s) ks"
  shows "\<exists>r cache'. snap_apply E ks s cache = Inr (r, cache') \<and> sigs_ok E H cache' \<and>
    (case runSnap E ks s of Some t \<Rightarrow> r = Inr t | None \<Rightarrow> \<exists>e. r = Inl e)"
proof (cases "ks = []")
  case False
  have s: "s\<lparr>sn_Number := sn_Number s, sn_Hash := sn_Hash s\<rparr> = s" by simp
  have t: "t\<lparr>sn_Number := a, sn_Hash := b\<rparr> = t" if "sn_Number t = a" "sn_Hash t = b" for t :: voteSnapshot and a b using that by (cases t) simp
  from applyHeaders_ref [OF q o k inj, where a = "sn_Number s" and b = "sn_Hash s"] obtain r cache' where
    r: "applyHeaders E ks s cache = Inr (r, cache')" "sigs_ok E H cache'" and
    c: "case runSnap E ks s of
       Some t \<Rightarrow> quiet t \<and> sn_Number t = sn_Number s + of_nat (length ks) \<and> sn_Hash t = (if ks = [] then sn_Hash s else ZKHashBlock E (last ks)) \<and>
         r = Inr (t\<lparr>sn_Number := sn_Number s, sn_Hash := sn_Hash s\<rparr>)
     | None \<Rightarrow> \<exists>e. r = Inl e" unfolding s by blast
  show ?thesis
    using r c False n [unfolded consecutive_contiguous] by (cases "runSnap E ks s") (auto simp: snap_apply_def t)
qed (use o in \<open>simp add: snap_apply_def\<close>)

section \<open>The search for a snapshot\<close>

lemma refSnapshot_header:
  assumes "chain_ok E ch H" and "refSnapshot E ch n h = Some s"
  shows "\<exists>k\<in>H. ZKHashBlock E k = h \<and> numberOf k = of_nat n"
proof (cases n)
  case 0
  then show ?thesis using assms by (auto simp: chain_ok_def split: if_splits intro!: bexI [of _ "genesis ch"])
next
  case (Suc m)
  then obtain k where "ch_GetHeader ch h (of_nat n) = Some k" using assms(2) by (auto split: option.splits)
  then show ?thesis using chain_okD [OF assms(1)] by blast
qed

lemma refSnapshot_quiet: "refSnapshot E ch n h = Some s \<Longrightarrow> quiet s \<and> sn_Number s = of_nat n"
proof (induction n arbitrary: h s)
  case 0
  then show ?case by (auto split: if_splits)
next
  case (Suc n)
  then obtain k t where k: "refSnapshot E ch n (h_ParentHash k) = Some t" "stepSnap E k t = Some s"
    by (auto simp: bind_eq_Some_conv split: option.splits)
  from Suc.IH [OF k(1)] k(2) show ?case
    using voteOutcome_facts(1) [of t k] by (auto simp: stepSnap_def quiet_def split: option.splits if_splits)
qed

text \<open>A remembered snapshot under a hash is that of every block of the chain with this hash.\<close>

lemma snaps_okD:
  assumes ch: "chain_ok E ch H" and o: "snaps_ok E ch m" and g: "mget m h = Some s" and n: "n < 2 ^ 64" and p: "ch_GetHeader ch h (of_nat n) = Some p"
  shows "refSnapshot E ch n h = Some s"
proof -
  from o g obtain n' where n': "n' < 2 ^ 64" "refSnapshot E ch n' h = Some s" by (auto simp: snaps_ok_def)
  from refSnapshot_header [OF ch n'(2)] obtain k where k: "k \<in> H" "ZKHashBlock E k = h" "numberOf k = of_nat n'" by blast
  then have "k = p" using ch chain_okD [OF ch p] by (auto simp: chain_ok_def inj_on_def)
  then have "n' = n" using k chain_okD [OF ch p] n n' by (auto simp: of_nat_u64_inj)
  then show ?thesis using n' by simp
qed

lemma findSnapshot_ref:
  assumes ch: "chain_ok E ch H" and o: "engine_ok E ch H c" and g: "verifyBasic E now (genesis ch) = None"
    and n: "n < 2 ^ 64" and p: "ch_GetHeader ch h (of_nat n) = Some p"
  shows "\<exists>s ks c'. findSnapshot E ch now n h [] hs c = (Inr (s, hs @ ks), c') \<and> engine_ok E ch H c' \<and>
    refSnapshot E ch n h = runSnap E (rev ks) s \<and> quiet s \<and> set ks \<subseteq> H \<and> consecutive (sn_Number s) (rev ks) \<and>
    sn_Number s + of_nat (length ks) = of_nat n \<and> (ks = [] \<longrightarrow> refSnapshot E ch n h = Some s)"
  using n p
proof (induction n arbitrary: h p hs)
  case 0
  then have h: "h = ZKHashBlock E (genesis ch)" using chain_okD [OF ch, of h 0 p] by simp
  show ?case
  proof (cases "mget (recents c) h = None \<and> mget (eng_db c) h = None")
    case True
    moreover have "engine_ok E ch H (c\<lparr>eng_db := mput (sn_Hash (genesisSnap E ch)) (genesisSnap E ch) (eng_db c)\<rparr>)"
      using o by (auto simp: engine_ok_def snaps_ok_def intro!: exI [of _ "0 :: nat"])
    ultimately show ?thesis using g h by (auto simp: findSnapshot.simps Let_def genesisSnap_def [symmetric])
  next
    case False
    then obtain s where "mget (recents c) h = Some s \<or> mget (recents c) h = None \<and> mget (eng_db c) h = Some s"
      by (cases "mget (recents c) h") auto
    then show ?thesis using snaps_okD [OF ch _ _ 0] o refSnapshot_quiet [of E ch 0 h s]
      by (auto simp: findSnapshot.simps engine_ok_def)
  qed
next
  case (Suc n)
  have of: "of_nat (Suc n) \<noteq> (0 :: u64)" "of_nat (Suc n) - 1 = (of_nat n :: u64)" using of_nat_u64_inj [of "Suc n" 0] Suc.prems(1) by auto
  note pd = chain_okD [OF ch Suc.prems(2)]
  have memo: ?case if "mget m h = Some s" "snaps_ok E ch m" "findSnapshot E ch now (Suc n) h [] hs c = (Inr (s, hs), c)" for m s
    using snaps_okD [OF ch that(2,1) Suc.prems] that(3) o refSnapshot_quiet [of E ch "Suc n" h s]
    by (auto intro!: exI [of _ s] exI [of _ "[]"])
  show ?case
  proof (cases "mget (recents c) h = None \<and> (of_nat (Suc n) mod checkpointInterval = 0 \<longrightarrow> mget (eng_db c) h = None)")
    case True
    obtain p' where p': "ch_GetHeader ch (h_ParentHash p) (of_nat n) = Some p'" using pd(4) of by auto
    have u: "findSnapshot E ch now (Suc n) h [] hs c = findSnapshot E ch now n (h_ParentHash p) [] (hs @ [p]) c"
      using True Suc.prems(2) by (simp add: findSnapshot.simps [of _ _ _ "Suc n"])
    from Suc.IH [OF _ p', of "hs @ [p]"] Suc.prems(1) obtain s ks c' where
      f: "findSnapshot E ch now n (h_ParentHash p) [] (hs @ [p]) c = (Inr (s, (hs @ [p]) @ ks), c')" "engine_ok E ch H c'"
      "refSnapshot E ch n (h_ParentHash p) = runSnap E (rev ks) s" "quiet s" "set ks \<subseteq> H" "consecutive (sn_Number s) (rev ks)"
      "sn_Number s + of_nat (length ks) = of_nat n" by auto
    have len: "sn_Number s + of_nat (length (p # ks)) = of_nat (Suc n)" using f(7) by (simp add: ac_simps)
    have "refSnapshot E ch (Suc n) h = runSnap E (rev (p # ks)) s"
      using Suc.prems(2) f(3) by (simp add: runSnap_snoc del: of_nat_Suc)
    moreover have "consecutive (sn_Number s) (rev (p # ks))"
      using f(6,7) pd(2) by (simp add: consecutive_snoc)
    ultimately have "findSnapshot E ch now (Suc n) h [] hs c = (Inr (s, hs @ (p # ks)), c') \<and> engine_ok E ch H c' \<and>
      refSnapshot E ch (Suc n) h = runSnap E (rev (p # ks)) s \<and> quiet s \<and> set (p # ks) \<subseteq> H \<and> consecutive (sn_Number s) (rev (p # ks)) \<and>
      sn_Number s + of_nat (length (p # ks)) = of_nat (Suc n) \<and> (p # ks = [] \<longrightarrow> refSnapshot E ch (Suc n) h = Some s)"
      using u f(1,2,4,5) pd(3) len by (simp del: refSnapshot.simps of_nat_Suc)
    then show ?thesis by blast
  next
    case False
    then obtain s where s: "mget (recents c) h = Some s \<or> mget (recents c) h = None \<and> of_nat (Suc n) mod checkpointInterval = 0 \<and> mget (eng_db c) h = Some s"
      by (cases "mget (recents c) h") auto
    then have "findSnapshot E ch now (Suc n) h [] hs c = (Inr (s, hs), c)"
      by (elim disjE conjE) (simp_all add: findSnapshot.simps [of _ _ _ "Suc n"] del: of_nat_Suc)
    then show ?thesis using memo [of "recents c" s] memo [of "eng_db c" s] o s unfolding engine_ok_def by blast
  qed
qed

lemma refSnapshot_hash: "chain_ok E ch H \<Longrightarrow> refSnapshot E ch n h = Some s \<Longrightarrow> sn_Hash s = h"
  using chain_okD(1) [of E ch H h "of_nat n"]
  by (cases n) (auto simp: bind_eq_Some_conv stepSnap_def split: if_splits option.splits)

lemma snaps_ok_put: "snaps_ok E ch m \<Longrightarrow> refSnapshot E ch n h = Some s \<Longrightarrow> n < 2 ^ 64 \<Longrightarrow> snaps_ok E ch (mput h s m)"
  by (auto simp: snaps_ok_def)

lemma findSnapshot_frame: "\<exists>m. snd (findSnapshot E ch now n h ps hs c) = c\<lparr>eng_db := m\<rparr>"
proof (induction n arbitrary: h ps hs)
  case 0
  have "\<exists>m. c = c\<lparr>eng_db := m\<rparr>" by (rule exI [of _ "eng_db c"]) simp
  then show ?case by (auto simp: findSnapshot.simps [of _ _ _ 0] Let_def split: option.splits)
next
  case (Suc n)
  have "\<exists>m. c = c\<lparr>eng_db := m\<rparr>" by (rule exI [of _ "eng_db c"]) simp
  then show ?case using Suc by (auto simp: findSnapshot.simps [of _ _ _ "Suc n"] Let_def simp del: of_nat_Suc split: option.splits)
qed

lemma eng_snapshot_ref:
  assumes ch: "chain_ok E ch H" and o: "engine_ok E ch H c" and g: "verifyBasic E now (genesis ch) = None"
    and p: "ch_GetHeader ch h n = Some p"
  shows "\<exists>r c'. eng_snapshot E ch now n h [] c = Inr (r, c') \<and> engine_ok E ch H c' \<and>
    eng_id c' = eng_id c \<and> eng_signer c' = eng_signer c \<and> proposals c' = proposals c \<and>
    (case refSnapshot E ch (unat n) h of Some s \<Rightarrow> r = Inr s | None \<Rightarrow> \<exists>e. r = Inl e)"
proof -
  have n: "unat n < 2 ^ 64" "of_nat (unat n) = n" using unsigned_less [of n] by simp_all
  from findSnapshot_ref [OF ch o g n(1), of h p "[]"] p n(2) obtain s ks c1 where
    f: "findSnapshot E ch now (unat n) h [] [] c = (Inr (s, ks), c1)" "engine_ok E ch H c1"
      "refSnapshot E ch (unat n) h = runSnap E (rev ks) s" "quiet s" "set ks \<subseteq> H" "consecutive (sn_Number s) (rev ks)" by auto
  from findSnapshot_frame [of E ch now "unat n" h "[]" "[]" c] f(1) obtain m where c1: "c1 = c\<lparr>eng_db := m\<rparr>" by auto
  have inj: "inj_on (ZKHashBlock E) H" using ch by (simp add: chain_ok_def)
  have so: "sigs_ok E H (signatures c1)" "set (rev ks) \<subseteq> H" using f(2,5) by (simp_all add: engine_ok_def)
  from snap_apply_ref [OF f(4) so inj f(6)] obtain r cache' where
    a: "snap_apply E (rev ks) s (signatures c1) = Inr (r, cache')" "sigs_ok E H cache'"
    and r: "case refSnapshot E ch (unat n) h of Some t \<Rightarrow> r = Inr t | None \<Rightarrow> \<exists>e. r = Inl e" unfolding f(3) by blast
  show ?thesis
  proof (cases "refSnapshot E ch (unat n) h")
    case None
    then obtain e where "r = Inl e" using r by auto
    then show ?thesis using None f(1,2) a c1 by (simp add: eng_snapshot_def engine_ok_def)
  next
    case (Some t)
    then have t: "r = Inr t" "sn_Hash t = h" using r refSnapshot_hash [OF ch Some] by simp_all
    have "snaps_ok E ch (mput h t m)" if "snaps_ok E ch m" for m using snaps_ok_put [OF that Some n(1)] .
    then show ?thesis using Some f(1,2) a c1 t by (simp add: eng_snapshot_def engine_ok_def Let_def)
  qed
qed

end
