(* ===== verification/Eng_Accept.thy ===== *)
theory Eng_Accept
  imports Eng_Snapshot
begin

text \<open>
  What it takes for a header to be accepted, without caches, and that the engine accepts exactly these
  headers; and that a header which a signer prepares and seals is among them.
\<close>

section \<open>Accepted headers\<close>

definition acceptsAfter :: "engEnv \<Rightarrow> Header \<Rightarrow> Header \<Rightarrow> voteSnapshot \<Rightarrow> address \<Rightarrow> bool" where
  "acceptsAfter E h p snap a \<longleftrightarrow>
     (word_of_int (h_Time p) :: u64) + Period E \<le> word_of_int (h_Time h) \<and>
     (numberOf h mod Epoch E = 0 \<longrightarrow>
        take (length (h_Extra h) - extraSeal - extraVanity) (drop extraVanity (h_Extra h)) = concat (map addressBytes (signers snap))) \<and>
     a \<in> signerSet snap \<and> inturn (numberOf h) a snap = Inr (h_Difficulty h = diffInTurn)"

definition accepts :: "engEnv \<Rightarrow> chainReader \<Rightarrow> int \<Rightarrow> Header \<Rightarrow> bool" where
  "accepts E ch now h \<longleftrightarrow> verifyBasic E now h = None \<and> (numberOf h = 0 \<or>
     (case ch_GetHeader ch (h_ParentHash h) (numberOf h - 1) of None \<Rightarrow> False | Some p \<Rightarrow>
      case refSnapshot E ch (unat (numberOf h - 1)) (h_ParentHash h) of None \<Rightarrow> False | Some snap \<Rightarrow>
      case authorOf E h of None \<Rightarrow> False | Some a \<Rightarrow> acceptsAfter E h p snap a))"

lemma inturn_total: "a \<in> signerSet s \<Longrightarrow> \<exists>t. inturn n a s = Inr t"
proof -
  assume "a \<in> signerSet s"
  then have "signers s \<noteq> []" using exchangeSort_spec [of "mkeys (Signers s)"] by (auto simp: signers_def signerSet_def)
  then show ?thesis by (auto simp: inturn_def Let_def)
qed

lemma verifySeal_ref:
  assumes ch: "chain_ok E ch H" and o: "engine_ok E ch H c" and g: "verifyBasic E now (genesis ch) = None" and h: "h \<in> H"
    and n: "numberOf h \<noteq> 0" and p: "ch_GetHeader ch (h_ParentHash h) (numberOf h - 1) = Some p"
    and s: "refSnapshot E ch (unat (numberOf h - 1)) (h_ParentHash h) = Some snap"
    and d: "h_Difficulty h \<in> {diffInTurn, diffNoTurn}"
  shows "\<exists>r c'. verifySeal E ch now h [] c = Inr (r, c') \<and> engine_ok E ch H c' \<and>
    (r = None \<longleftrightarrow> (\<exists>a. authorOf E h = Some a \<and> a \<in> signerSet snap \<and> inturn (numberOf h) a snap = Inr (h_Difficulty h = diffInTurn)))"
proof -
  have inj: "inj_on (ZKHashBlock E) H" using ch by (simp add: chain_ok_def)
  have nd: "diffInTurn \<noteq> diffNoTurn" by (simp add: diffInTurn_def diffNoTurn_def)
  from eng_snapshot_ref [OF ch o g p] s obtain c1 where
    c1: "eng_snapshot E ch now (numberOf h - 1) (h_ParentHash h) [] c = Inr (Inr snap, c1)" "engine_ok E ch H c1" by auto
  from c1(2) have so: "sigs_ok E H (signatures c1)" by (simp add: engine_ok_def)
  from ecrecover_ok [OF so h inj] obtain r cache' where
    r: "ecrecover E h (signatures c1) = Inr (r, cache')" "sigs_ok E H cache'" "case authorOf E h of Some a \<Rightarrow> r = Inr a | None \<Rightarrow> \<exists>e. r = Inl e" by blast
  have o': "engine_ok E ch H (c1\<lparr>signatures := cache'\<rparr>)" using c1(2) r(2) by (simp add: engine_ok_def)
  show ?thesis
  proof (cases "authorOf E h")
    case None
    then show ?thesis using r n c1 o' by (auto simp: verifySeal_def Let_def)
  next
    case (Some a)
    show ?thesis
    proof (cases "a \<in> signerSet snap")
      case True
      then obtain t where "inturn (numberOf h) a snap = Inr t" using inturn_total by blast
      then show ?thesis using r n c1 o' Some True d nd by (auto simp: verifySeal_def Let_def)
    qed (use r n c1 o' Some in \<open>auto simp: verifySeal_def Let_def\<close>)
  qed
qed

lemma verifyHeader_ref:
  assumes ch: "chain_ok E ch H" and o: "engine_ok E ch H c" and g: "verifyBasic E now (genesis ch) = None" and h: "h \<in> H"
  shows "\<exists>r c'. verifyHeader E ch now h [] c = Inr (r, c') \<and> engine_ok E ch H c' \<and> (r = None \<longleftrightarrow> accepts E ch now h)"
proof (cases "verifyBasic E now h = None \<and> numberOf h \<noteq> 0")
  case False
  then show ?thesis using o by (cases "verifyBasic E now h") (auto simp: verifyHeader_def verifyCascadingFields_def accepts_def Let_def)
next
  case True
  then have d: "h_Difficulty h \<in> {diffInTurn, diffNoTurn}" by (auto simp: verifyBasic_def Let_def word_gt_0 split: if_splits)
  show ?thesis
  proof (cases "ch_GetHeader ch (h_ParentHash h) (numberOf h - 1)")
    case None
    then show ?thesis using True o by (auto simp: verifyHeader_def verifyCascadingFields_def accepts_def Let_def)
  next
    case (Some p)
    note pd = chain_okD [OF ch Some]
    from eng_snapshot_ref [OF ch o g Some] obtain r c1 where
      c1: "eng_snapshot E ch now (numberOf h - 1) (h_ParentHash h) [] c = Inr (r, c1)" "engine_ok E ch H c1" and
      r: "case refSnapshot E ch (unat (numberOf h - 1)) (h_ParentHash h) of Some s \<Rightarrow> r = Inr s | None \<Rightarrow> \<exists>e. r = Inl e" by blast
    show ?thesis
    proof (cases "refSnapshot E ch (unat (numberOf h - 1)) (h_ParentHash h)")
      case None
      then show ?thesis using True Some o c1 r pd
        by (auto simp: verifyHeader_def verifyCascadingFields_def accepts_def Let_def)
    next
      case s: (Some snap)
      from verifySeal_ref [OF ch c1(2) g h _ Some s d] True obtain r2 c2 where
        c2: "verifySeal E ch now h [] c1 = Inr (r2, c2)" "engine_ok E ch H c2" and
        r2: "r2 = None \<longleftrightarrow> (\<exists>a. authorOf E h = Some a \<and> a \<in> signerSet snap \<and> inturn (numberOf h) a snap = Inr (h_Difficulty h = diffInTurn))" by blast
      show ?thesis using True Some s o c1 r pd c2 r2
        by (auto simp: verifyHeader_def verifyCascadingFields_def accepts_def acceptsAfter_def Let_def not_le split: option.splits)
    qed
  qed
qed

section \<open>Preparing and sealing\<close>

text \<open>What \<open>Prepare\<close> fixes in a header, in terms of the parent and its snapshot.\<close>

definition preparedFor :: "engEnv \<Rightarrow> int \<Rightarrow> address \<Rightarrow> Header \<Rightarrow> Header \<Rightarrow> voteSnapshot \<Rightarrow> Header \<Rightarrow> bool" where
  "preparedFor E now a p h snap h1 \<longleftrightarrow>
     h_ParentHash h1 = h_ParentHash h \<and> h_Number h1 = h_Number h \<and> h_Nonce h1 \<in> {nonceAuthVote, nonceDropVote} \<and>
     (numberOf h mod Epoch E = 0 \<longrightarrow> h_Coinbase h1 = 0 \<and> h_Nonce h1 = nonceDropVote) \<and> h_MixDigest h1 = 0 \<and>
     (\<exists>vanity. length vanity = extraVanity \<and> h_Extra h1 = vanity @
        (if numberOf h mod Epoch E = 0 then concat (map addressBytes (signers snap)) else []) @ replicate extraSeal 0) \<and>
     h_Difficulty h1 \<in> {diffInTurn, diffNoTurn} \<and> inturn (numberOf h) a snap = Inr (h_Difficulty h1 = diffInTurn) \<and>
     h_Time h1 = (let time = h_Time p + uint (Period E) in if sint (word_of_int time :: u64) < now then now else time)"

lemma Prepare_ref:
  assumes ch: "chain_ok E ch H" and o: "engine_ok E ch H c" and g: "verifyBasic E now (genesis ch) = None"
    and p: "ch_GetHeader ch (h_ParentHash h) (numberOf h - 1) = Some p"
    and r: "Prepare E ch now rnd h c = Inr (Inr h1, c1)"
  shows "\<exists>snap. refSnapshot E ch (unat (numberOf h - 1)) (h_ParentHash h) = Some snap \<and> preparedFor E now (eng_signer c) p h snap h1"
    and "engine_ok E ch H c1" and "eng_signer c1 = eng_signer c" and "eng_id c1 = eng_id c"
proof -
  have nd: "diffInTurn \<noteq> diffNoTurn" by (simp add: diffInTurn_def diffNoTurn_def)
  from eng_snapshot_ref [OF ch o g p] obtain q c2 where
    c2: "eng_snapshot E ch now (numberOf h - 1) (h_ParentHash h) [] c = Inr (q, c2)" "engine_ok E ch H c2"
      "eng_id c2 = eng_id c" "eng_signer c2 = eng_signer c" and
    q: "case refSnapshot E ch (unat (numberOf h - 1)) (h_ParentHash h) of Some s \<Rightarrow> q = Inr s | None \<Rightarrow> \<exists>e. q = Inl e" by blast
  let ?h0 = "h\<lparr>h_Coinbase := 0, h_Nonce := 0\<rparr>"
  have num: "numberOf ?h0 = numberOf h" "h_ParentHash ?h0 = h_ParentHash h" by (simp_all add: numberOf_def)
  have pa: "h_ParentHash (fillExtra E snap (k\<lparr>h_Difficulty := x\<rparr>)) = h_ParentHash k" for snap k x by (simp add: fillExtra_def)
  have pv: "h_ParentHash (chooseVote E rnd snap ps k) = h_ParentHash k" for snap ps k by (simp add: chooseVote_def Let_def)
  from r c2 q obtain snap where s: "refSnapshot E ch (unat (numberOf h - 1)) (h_ParentHash h) = Some snap" "q = Inr snap"
    by (cases "refSnapshot E ch (unat (numberOf h - 1)) (h_ParentHash h)") (auto simp: Prepare_def num Let_def)
  note r' = r [unfolded Prepare_def Let_def num c2 s(2) bind_res_simps prod.case sum.case pa pv p option.case]
  from r' obtain t where t: "inturn (numberOf h) (eng_signer c) snap = Inr t" by (auto simp: bind_res_Inr_iff)
  have h1: "h1 = fillTime E now p (fillExtra E snap ((chooseVote E rnd snap (proposals c2) ?h0)\<lparr>h_Difficulty := if t then diffInTurn else diffNoTurn\<rparr>))"
    and c1: "c1 = c2" using r' t by auto
  have "preparedFor E now (eng_signer c) p h snap h1 \<and> c1 = c2" unfolding h1 c1
    by (simp add: t [unfolded numberOf_def] preparedFor_def fillTime_def fillExtra_def chooseVote_def Let_def nd nd [symmetric] numberOf_def
        nonceDropVote_def min_def)
  then show "\<exists>snap. refSnapshot E ch (unat (numberOf h - 1)) (h_ParentHash h) = Some snap \<and> preparedFor E now (eng_signer c) p h snap h1"
    and "engine_ok E ch H c1" and "eng_signer c1 = eng_signer c" and "eng_id c1 = eng_id c" using s c2 by auto
qed

lemma Seal_ref:
  assumes ch: "chain_ok E ch H" and o: "engine_ok E ch H c" and g: "verifyBasic E now (genesis ch) = None"
    and p: "ch_GetHeader ch (h_ParentHash h) (numberOf h - 1) = Some p"
    and r: "Seal E ch now pr signFn h c = Inr (Inr h1, c1)"
  shows "numberOf h \<noteq> 0 \<and> (\<exists>snap d. refSnapshot E ch (unat (numberOf h - 1)) (h_ParentHash h) = Some snap \<and> eng_signer c \<in> signerSet snap \<and>
    header_sigHash E h = Inr d \<and> h1 = withSignature (signFn d) h)"
proof -
  from eng_snapshot_ref [OF ch o g p] obtain q c2 where
    c2: "eng_snapshot E ch now (numberOf h - 1) (h_ParentHash h) [] c = Inr (q, c2)" "eng_signer c2 = eng_signer c" and
    q: "case refSnapshot E ch (unat (numberOf h - 1)) (h_ParentHash h) of Some s \<Rightarrow> q = Inr s | None \<Rightarrow> \<exists>e. q = Inl e" by blast
  show ?thesis using r c2 q
    by (auto simp: Seal_def Let_def bind_res_Inr_iff split: if_splits sum.splits option.splits)
qed

text \<open>A signature of the right length does not change what is signed.\<close>

lemma withSignature_facts:
  assumes "length sig = extraSeal" and "extraSeal \<le> length (h_Extra h)"
  shows "header_sigHash E (withSignature sig h) = header_sigHash E h" "length (h_Extra (withSignature sig h)) = length (h_Extra h)"
    "drop (length (h_Extra h) - extraSeal) (h_Extra (withSignature sig h)) = sig"
    "take (length (h_Extra h) - extraSeal) (h_Extra (withSignature sig h)) = take (length (h_Extra h) - extraSeal) (h_Extra h)"
  using assms by (simp_all add: withSignature_def Let_def header_sigHash_def extraSeal_def)

lemma authorOf_sealed:
  assumes "length (signFn d) = extraSeal" and "crypto_Ecrecover E d (signFn d) = Some a" and "header_sigHash E h = Inr d"
  shows "authorOf E (withSignature (signFn d) h) = Some a"
proof -
  have l: "extraSeal \<le> length (h_Extra h)" using assms(3) by (auto simp: header_sigHash_def extraSeal_def split: if_splits)
  show ?thesis using withSignature_facts [OF assms(1) l] l assms by (simp add: authorOf_def ecrecover_def)
qed

text \<open>
  The fields that are filled in between \<open>Prepare\<close> and \<open>Seal\<close>: the roots, the funds, the bloom, the gas and
  the hash of no uncles.
\<close>

definition withBody :: "engEnv \<Rightarrow> hash \<Rightarrow> hash \<Rightarrow> hash list \<Rightarrow> hash \<Rightarrow> hash \<Rightarrow> bytes \<Rightarrow> int \<Rightarrow> Header \<Rightarrow> Header" where
  "withBody E root rootCMTfd zkfunds txHash receiptHash bloom gasUsed h =
     h\<lparr>h_UncleHash := uncleHash E, h_Root := root, h_RootCMTfd := rootCMTfd, h_ZKFunds := zkfunds, h_TxHash := txHash,
       h_ReceiptHash := receiptHash, h_Bloom := bloom, h_GasUsed := gasUsed\<rparr>"

lemma withBody_simps [simp]:
  "numberOf (withBody E ro rc zf th rh bl gu h) = numberOf h" "h_ParentHash (withBody E ro rc zf th rh bl gu h) = h_ParentHash h"
  "h_Time (withBody E ro rc zf th rh bl gu h) = h_Time h" "h_Extra (withBody E ro rc zf th rh bl gu h) = h_Extra h"
  "h_Difficulty (withBody E ro rc zf th rh bl gu h) = h_Difficulty h" "h_Nonce (withBody E ro rc zf th rh bl gu h) = h_Nonce h"
  "h_Coinbase (withBody E ro rc zf th rh bl gu h) = h_Coinbase h" "h_MixDigest (withBody E ro rc zf th rh bl gu h) = h_MixDigest h"
  "h_UncleHash (withBody E ro rc zf th rh bl gu h) = uncleHash E"
  by (simp_all add: withBody_def numberOf_def)

lemma withSignature_simps [simp]:
  "numberOf (withSignature sig h) = numberOf h" "h_ParentHash (withSignature sig h) = h_ParentHash h"
  "h_Time (withSignature sig h) = h_Time h" "h_Difficulty (withSignature sig h) = h_Difficulty h" "h_Nonce (withSignature sig h) = h_Nonce h"
  "h_Coinbase (withSignature sig h) = h_Coinbase h" "h_MixDigest (withSignature sig h) = h_MixDigest h"
  "h_UncleHash (withSignature sig h) = h_UncleHash h"
  by (simp_all add: withSignature_def numberOf_def Let_def)

lemma length_addressBytes [simp]: "length (addressBytes a) = 20"
  by (simp add: addressBytes_def)

lemma length_signerBytes: "length (concat (map addressBytes as)) = 20 * length as"
  by (induction as) simp_all

lemma preparedFor_time:
  assumes "preparedFor E now a p h snap h1" and "0 \<le> h_Time p" and "h_Time p + uint (Period E) < 2 ^ 63" and "now < 2 ^ 63"
  shows "(word_of_int (h_Time p) :: u64) + Period E \<le> word_of_int (h_Time h1)"
proof -
  let ?t = "h_Time p + uint (Period E)"
  have t: "0 \<le> ?t" "?t < 2 ^ 63" using assms(2,3) by (simp_all add: add_nonneg_nonneg)
  have s: "sint (word_of_int x :: u64) = x" if "0 \<le> x" "x < 2 ^ 63" for x using that by (simp add: signed_of_int signed_take_bit_int_eq_self)
  have h1: "h_Time h1 = (if ?t < now then now else ?t)" using assms(1) unfolding preparedFor_def Let_def s [OF t] by blast
  have w: "(word_of_int (h_Time p) :: u64) + Period E = word_of_int ?t" by simp
  have u: "uint (word_of_int x :: u64) = x" if "0 \<le> x" "x < 2 ^ 63" for x using that by (simp add: unsigned_of_int take_bit_int_eq_self)
  show ?thesis unfolding w word_le_def h1 u [OF t] using t assms(4) u [of now] u [OF t] by (auto simp del: of_int_add)
qed

lemma sealed_accepts:
  assumes pf: "preparedFor E now a p h snap h1" and tm: "0 \<le> h_Time p" "h_Time p + uint (Period E) < 2 ^ 63" "now < 2 ^ 63" "h_Time h1 \<le> now'"
    and p: "ch_GetHeader ch (h_ParentHash h) (numberOf h - 1) = Some p"
    and s: "refSnapshot E ch (unat (numberOf h - 1)) (h_ParentHash h) = Some snap" and a: "a \<in> signerSet snap"
    and h2: "h2 = withBody E ro rc zf th rh bl gu h1" and d: "header_sigHash E h2 = Inr d"
    and sg: "length (signFn d) = extraSeal" "crypto_Ecrecover E d (signFn d) = Some a"
  shows "accepts E ch now' (withSignature (signFn d) h2)"
proof -
  have n: "numberOf h1 = numberOf h" "h_ParentHash h1 = h_ParentHash h" using pf by (simp_all add: preparedFor_def numberOf_def)
  from pf obtain vanity where v: "length vanity = extraVanity" "h_Extra h1 = vanity @
        (if numberOf h mod Epoch E = 0 then concat (map addressBytes (signers snap)) else []) @ replicate extraSeal 0"
    by (auto simp: preparedFor_def)
  have l: "extraSeal \<le> length (h_Extra h2)" using v h2 by simp
  note w = withSignature_facts [OF sg(1) l]
  let ?h3 = "withSignature (signFn d) h2"
  let ?sb = "if numberOf h mod Epoch E = 0 then concat (map addressBytes (signers snap)) else []"
  have len: "length (h_Extra ?h3) = extraVanity + length ?sb + extraSeal" using w(2) v h2 by simp
  have tk: "take (extraVanity + length ?sb) (h_Extra ?h3) = vanity @ ?sb" using w(4) v h2 by simp
  have mid: "take (length (h_Extra ?h3) - extraSeal - extraVanity) (drop extraVanity (h_Extra ?h3)) = ?sb"
  proof -
    have "take (length ?sb) (drop extraVanity (h_Extra ?h3)) = drop extraVanity (take (extraVanity + length ?sb) (h_Extra ?h3))" by (simp add: drop_take)
    then show ?thesis using len tk v(1) by simp
  qed
  have "verifyBasic E now' ?h3 = None"
    using pf tm(4) len h2 n by (auto simp: verifyBasic_def preparedFor_def Let_def length_signerBytes AddressLength_def)
  moreover have "acceptsAfter E ?h3 p snap a"
    using preparedFor_time [OF pf tm(1-3)] mid a pf h2 n by (auto simp: acceptsAfter_def preparedFor_def)
  moreover have "authorOf E ?h3 = Some a" using authorOf_sealed [where signFn = signFn, OF sg d] .
  ultimately show ?thesis using p s h2 n by (simp add: accepts_def)
qed

end
