(* ===== verification/Eng_Runs.thy ===== *)
theory Eng_Runs
  imports Eng_Accept
begin

text \<open>
  What an engine goes through: it starts with empty caches and an empty database, its chain grows, it verifies
  headers one at a time, tells their authors, prepares and seals headers, answers for the snapshots, takes proposals,
  and starts again with the database it left. In all of this the caches and the database hold nothing but what the
  reference gives, as long as no two of the headers that are around have the same hash. A chain that is rewound and the
  verification of a batch of headers are left out.
\<close>

text \<open>A longer chain: it still has every header, and the same first one.\<close>

definition extends :: "chainReader \<Rightarrow> chainReader \<Rightarrow> bool" where
  "extends ch ch' \<longleftrightarrow> ch_Genesis ch' = ch_Genesis ch \<and> (\<forall>h n k. ch_GetHeader ch h n = Some k \<longrightarrow> ch_GetHeader ch' h n = Some k)"

inductive eng_reach :: "engEnv \<Rightarrow> Header set \<Rightarrow> chainReader \<Rightarrow> engine \<Rightarrow> bool" for E H where
  start: "chain_ok E ch H \<Longrightarrow> recents c = [] \<Longrightarrow> signatures c = [] \<Longrightarrow> eng_db c = [] \<Longrightarrow> eng_reach E H ch c"
| restart: "eng_reach E H ch c \<Longrightarrow> eng_reach E H ch (c\<lparr>recents := [], signatures := []\<rparr>)"
| grow: "eng_reach E H ch c \<Longrightarrow> extends ch ch' \<Longrightarrow> chain_ok E ch' H \<Longrightarrow> eng_reach E H ch' c"
| verify: "eng_reach E H ch c \<Longrightarrow> verifyBasic E now (genesis ch) = None \<Longrightarrow> h \<in> H \<Longrightarrow>
    verifyHeader E ch now h [] c = Inr (r, c') \<Longrightarrow> eng_reach E H ch c'"
| author: "eng_reach E H ch c \<Longrightarrow> h \<in> H \<Longrightarrow> Author E h c = Inr (a, c') \<Longrightarrow> eng_reach E H ch c'"
| snapshot: "eng_reach E H ch c \<Longrightarrow> verifyBasic E now (genesis ch) = None \<Longrightarrow> ch_GetHeader ch (ZKHashBlock E h) (numberOf h) = Some h \<Longrightarrow>
    GetSnapshot E ch now (Some h) c = Inr (x, c') \<Longrightarrow> eng_reach E H ch c'"
| prepare: "eng_reach E H ch c \<Longrightarrow> verifyBasic E now (genesis ch) = None \<Longrightarrow>
    ch_GetHeader ch (h_ParentHash h) (numberOf h - 1) = Some p \<Longrightarrow> Prepare E ch now rnd h c = Inr (y, c') \<Longrightarrow> eng_reach E H ch c'"
| seal: "eng_reach E H ch c \<Longrightarrow> verifyBasic E now (genesis ch) = None \<Longrightarrow>
    ch_GetHeader ch (h_ParentHash h) (numberOf h - 1) = Some p \<Longrightarrow> Seal E ch now pr signFn h c = Inr (y, c') \<Longrightarrow> eng_reach E H ch c'"
| propose: "eng_reach E H ch c \<Longrightarrow> eng_reach E H ch (Propose a auth c)"
| discard: "eng_reach E H ch c \<Longrightarrow> eng_reach E H ch (Discard a c)"
| authorize: "eng_reach E H ch c \<Longrightarrow> eng_reach E H ch (Authorize a c)"

lemma extends_refSnapshot: "extends ch ch' \<Longrightarrow> refSnapshot E ch n h = Some s \<Longrightarrow> refSnapshot E ch' n h = Some s"
proof (induction n arbitrary: h s)
  case 0
  then show ?case by (auto simp: extends_def genesis_def genesisSnap_def split: if_splits)
next
  case (Suc n)
  from Suc.prems(2) obtain k t where k: "ch_GetHeader ch h (of_nat (Suc n)) = Some k" "refSnapshot E ch n (h_ParentHash k) = Some t" "stepSnap E k t = Some s"
    by (auto simp: bind_eq_Some_conv split: option.splits)
  have "ch_GetHeader ch' h (of_nat (Suc n)) = Some k" using Suc.prems(1) k(1) unfolding extends_def by blast
  then show ?case using Suc.IH [OF Suc.prems(1) k(2)] k(3) by (simp del: of_nat_Suc)
qed

lemma extends_engine_ok: "extends ch ch' \<Longrightarrow> engine_ok E ch H c \<Longrightarrow> engine_ok E ch' H c"
  unfolding engine_ok_def snaps_ok_def using extends_refSnapshot by blast

lemma engine_ok_simps [simp]:
  "engine_ok E ch H (c\<lparr>proposals := ps\<rparr>) = engine_ok E ch H c" "engine_ok E ch H (c\<lparr>eng_signer := a\<rparr>) = engine_ok E ch H c"
  by (simp_all add: engine_ok_def)

lemma engine_ok_empty: "recents c = [] \<Longrightarrow> signatures c = [] \<Longrightarrow> eng_db c = [] \<Longrightarrow> engine_ok E ch H c"
  by (simp add: engine_ok_def sigs_ok_def snaps_ok_def)

lemma Author_ok:
  assumes "chain_ok E ch H" and "engine_ok E ch H c" and "h \<in> H" and "Author E h c = Inr (a, c')"
  shows "engine_ok E ch H c'"
proof -
  have "inj_on (ZKHashBlock E) H" "sigs_ok E H (signatures c)" using assms(1,2) by (simp_all add: chain_ok_def engine_ok_def)
  from ecrecover_ok [OF this(2) assms(3) this(1)] show ?thesis using assms(2,4) by (auto simp: Author_def engine_ok_def)
qed

lemma Prepare_ok:
  assumes "chain_ok E ch H" and "engine_ok E ch H c" and "verifyBasic E now (genesis ch) = None"
    and "ch_GetHeader ch (h_ParentHash h) (numberOf h - 1) = Some p" and "Prepare E ch now rnd h c = Inr (y, c')"
  shows "engine_ok E ch H c'"
proof -
  from eng_snapshot_ref [OF assms(1-4)] obtain q c2 where
    c2: "eng_snapshot E ch now (numberOf h - 1) (h_ParentHash h) [] c = Inr (q, c2)" "engine_ok E ch H c2" by blast
  have num: "numberOf (h\<lparr>h_Coinbase := 0, h_Nonce := 0\<rparr>) = numberOf h" by (simp add: numberOf_def)
  have "c' = c2" using assms(5) c2(1) by (auto simp: Prepare_def Let_def num bind_res_Inr_iff split: sum.splits option.splits)
  then show ?thesis using c2(2) by simp
qed

lemma Seal_ok:
  assumes "chain_ok E ch H" and "engine_ok E ch H c" and "verifyBasic E now (genesis ch) = None"
    and "ch_GetHeader ch (h_ParentHash h) (numberOf h - 1) = Some p" and "Seal E ch now pr signFn h c = Inr (y, c')"
  shows "engine_ok E ch H c'"
proof -
  from eng_snapshot_ref [OF assms(1-4)] obtain q c2 where
    c2: "eng_snapshot E ch now (numberOf h - 1) (h_ParentHash h) [] c = Inr (q, c2)" "engine_ok E ch H c2" by blast
  have "c' = c \<or> c' = c2" using assms(5) c2(1) by (auto simp: Seal_def Let_def bind_res_Inr_iff split: sum.splits if_splits)
  then show ?thesis using c2(2) assms(2) by auto
qed

text \<open>The caches and the database of every engine agree with the reference.\<close>

lemma eng_reach_ok: "eng_reach E H ch c \<Longrightarrow> chain_ok E ch H \<and> engine_ok E ch H c"
proof (induction rule: eng_reach.induct)
  case (start ch c)
  then show ?case by (simp add: engine_ok_empty)
next
  case (restart ch c)
  then show ?case by (simp add: engine_ok_def sigs_ok_def snaps_ok_def)
next
  case (grow ch c ch')
  then show ?case using extends_engine_ok by blast
next
  case (verify ch c now h r c')
  then show ?case using verifyHeader_ref [of E ch H c now h] by auto
next
  case (author ch c h a c')
  then show ?case using Author_ok by blast
next
  case (snapshot ch c now h x c')
  then show ?case using eng_snapshot_ref [of E ch H c now "ZKHashBlock E h" "numberOf h" h] by (auto simp: GetSnapshot_def)
next
  case (prepare ch c now h p rnd y c')
  then show ?case using Prepare_ok by blast
next
  case (seal ch c now h p pr signFn y c')
  then show ?case using Seal_ok by blast
qed (simp_all add: Propose_def Discard_def Authorize_def)

end
