(* ===== verification/Eng_Properties.thy ===== *)
theory Eng_Properties
  imports Eng_Runs
begin

text \<open>
  The properties of the consensus engine: the verification of headers, the snapshots of the vote, the order of the
  signers, and what the hash of a header does not cover.
\<close>

section \<open>An example\<close>

text \<open>Two signers, the first block of their chain, and toy functions for the hashes and the signatures.\<close>

definition exEng :: engEnv where
  "exEng = \<lparr>conf_Period = 3, conf_Epoch = 4, ZKHash = (\<lambda>a b c. a + 1000 * b + 1000000 * c), rlpHash = (\<lambda>i. word_of_int (si_Number i)),
     crypto_Ecrecover = (\<lambda>d sig. Some (ucast (hd sig))), uncleHash = 5\<rparr>"

definition exHeader :: "hash \<Rightarrow> hash \<Rightarrow> int \<Rightarrow> bytes \<Rightarrow> Header" where
  "exHeader parent txs number extra = \<lparr>h_ParentHash = parent, h_UncleHash = 5, h_Coinbase = 0, h_Root = 0, h_RootCMTfd = 0, h_ZKFunds = [],
     h_TxHash = txs, h_ReceiptHash = 0, h_Bloom = [], h_Difficulty = 2, h_Number = number, h_GasLimit = 0, h_GasUsed = 0, h_Time = 10 * number,
     h_Extra = extra, h_MixDigest = 0, h_Nonce = 0\<rparr>"

definition exGenesis :: Header where
  "exGenesis = exHeader 0 100 0 (replicate 32 0 @ addressBytes 9 @ addressBytes 7 @ replicate 65 0)"

definition exChain :: chainReader where
  "exChain = \<lparr>ch_GetHeader = (\<lambda>h n. if h = 100 \<and> n = 0 then Some exGenesis else None), ch_Genesis = exGenesis\<rparr>"

definition exEngine :: "address \<Rightarrow> engine" where
  "exEngine a = \<lparr>recents = [], signatures = [], eng_db = [], proposals = [(7, False), (8, True)], eng_id = 0, eng_signer = a\<rparr>"

definition exSign :: "hash \<Rightarrow> bytes" where
  "exSign d = replicate 65 9"

lemma exHeader_simps [simp]:
  "h_ParentHash (exHeader p t n e) = p" "h_TxHash (exHeader p t n e) = t" "h_Number (exHeader p t n e) = n" "h_Extra (exHeader p t n e) = e"
  "h_Root (exHeader p t n e) = 0" "h_RootCMTfd (exHeader p t n e) = 0" "h_Time (exHeader p t n e) = 10 * n" "h_Nonce (exHeader p t n e) = 0"
  "h_Coinbase (exHeader p t n e) = 0" "h_MixDigest (exHeader p t n e) = 0" "h_UncleHash (exHeader p t n e) = 5" "h_Difficulty (exHeader p t n e) = 2"
  "numberOf (exHeader p t n e) = word_of_int n" "ZKHashBlock exEng (exHeader p t n e) = t"
  by (simp_all add: exHeader_def numberOf_def ZKHashBlock_def exEng_def)

lemma ex_genesis: "genesis exChain = exGenesis" "verifyBasic exEng 0 exGenesis = None"
  "genesisSigners exGenesis = [9, 7]"
  by (simp add: genesis_def exChain_def exGenesis_def exHeader_def) code_simp+

lemma ex_chain_ok: "exGenesis \<in> H \<Longrightarrow> inj_on (ZKHashBlock exEng) H \<Longrightarrow> chain_ok exEng exChain H"
  by (auto simp: chain_ok_def ex_genesis) (auto simp: exChain_def exGenesis_def split: if_splits)

lemma ex_reach: "chain_ok exEng exChain H \<Longrightarrow> eng_reach exEng H exChain (exEngine a)"
  by (erule eng_reach.start) (simp_all add: exEngine_def)

definition exBlock1 :: Header where
  "exBlock1 = exHeader 100 200 1 (replicate 32 0 @ replicate 65 9)"

lemma ex_chain_ok1: "chain_ok exEng exChain {exGenesis, exBlock1}"
  by (rule ex_chain_ok) (simp_all add: exGenesis_def exBlock1_def inj_on_def)

section \<open>Verification\<close>

text \<open>C18: The verification of a header by an engine that started with empty caches returns, and it accepts exactly the headers of the
  reference, which has no caches: a well formed header whose parent is known and old enough, signed by a signer of the snapshot at the parent, with
  the difficulty of its turn. This is for headers that the hash tells apart: the header is one of a set \<open>H\<close> that has all headers of the chain and all that
  the engine has seen and in which no two headers have the same hash. The hash covers three roots only, so that two empty blocks in
  a row or two signatures of one block are not in such a set.\<close>

theorem verification_matches_reference:
  assumes "eng_reach E H ch c" and "verifyBasic E now (genesis ch) = None" and "h \<in> H"
  shows "\<exists>r c'. verifyHeader E ch now h [] c = Inr (r, c') \<and> eng_reach E H ch c' \<and> (r = None \<longleftrightarrow> accepts E ch now h)"
proof -
  from eng_reach_ok [OF assms(1)] have "chain_ok E ch H" "engine_ok E ch H c" by simp_all
  from verifyHeader_ref [OF this assms(2,3)] obtain r c' where
    r: "verifyHeader E ch now h [] c = Inr (r, c')" "r = None \<longleftrightarrow> accepts E ch now h" by blast
  then show ?thesis using eng_reach.verify [OF assms r(1)] by blast
qed

lemma ex_verify: "verifyBasic exEng 20 (genesis exChain) = None" "accepts exEng exChain 20 exBlock1"
  unfolding ex_genesis by code_simp+

theorem verification_matches_reference_witness:
  "\<exists>c1 c2. verifyHeader exEng exChain 20 exBlock1 [] (exEngine 7) = Inr (None, c1) \<and> eng_reach exEng {exGenesis, exBlock1} exChain c1 \<and>
     verifyHeader exEng exChain 20 exBlock1 [] c1 = Inr (None, c2)"
proof -
  from verification_matches_reference [OF ex_reach [OF ex_chain_ok1] ex_verify(1), of exBlock1 7] ex_verify(2) obtain c1 where
    c1: "verifyHeader exEng exChain 20 exBlock1 [] (exEngine 7) = Inr (None, c1)" "eng_reach exEng {exGenesis, exBlock1} exChain c1" by auto
  from verification_matches_reference [OF c1(2) ex_verify(1), of exBlock1] ex_verify(2) show ?thesis using c1 by auto
qed

text \<open>C21: The snapshot of the vote that an engine finds for a block of its chain is the one that the headers give when they are applied
  one by one from the first block on, whichever of the snapshots that it made before it has in memory or in its database, also after a restart; the engine fails
  exactly when this one does not exist. The engine started with empty caches and an empty database, and the headers of the chain and those that it has seen
  have different hashes.\<close>

theorem snapshot_ignores_caches:
  assumes "eng_reach E H ch c" and "verifyBasic E now (genesis ch) = None" and "ch_GetHeader ch h n = Some p"
  shows "\<exists>r c'. eng_snapshot E ch now n h [] c = Inr (r, c') \<and> engine_ok E ch H c' \<and>
    (case refSnapshot E ch (unat n) h of Some s \<Rightarrow> r = Inr s | None \<Rightarrow> \<exists>e. r = Inl e)"
  using eng_snapshot_ref [OF _ _ assms(2,3)] eng_reach_ok [OF assms(1)] by blast

theorem snapshot_ignores_caches_witness:
  "\<exists>c1 c2. verifyHeader exEng exChain 20 exBlock1 [] (exEngine 7) = Inr (None, c1) \<and> recents c1 \<noteq> [] \<and>
     eng_snapshot exEng exChain 20 0 100 [] c1 = Inr (Inr (genesisSnap exEng exChain), c2)"
proof -
  have "case verifyHeader exEng exChain 20 exBlock1 [] (exEngine 7) of Inr (None, c1) \<Rightarrow> recents c1 \<noteq> [] | _ \<Rightarrow> False" by code_simp
  then obtain c1 where v: "verifyHeader exEng exChain 20 exBlock1 [] (exEngine 7) = Inr (None, c1)" "recents c1 \<noteq> []"
    by (auto split: sum.splits option.splits)
  have reach: "eng_reach exEng {exGenesis, exBlock1} exChain c1"
    by (rule eng_reach.verify [OF ex_reach [OF ex_chain_ok1] ex_verify(1) _ v(1)]) simp
  have p: "ch_GetHeader exChain 100 0 = Some exGenesis" by (simp add: exChain_def)
  have "refSnapshot exEng exChain (unat 0) 100 = Some (genesisSnap exEng exChain)" by (simp add: ex_genesis) (simp add: exGenesis_def)
  then show ?thesis using snapshot_ignores_caches [OF reach ex_verify(1) p] v by auto
qed

text \<open>C19: What a signer prepares and seals is accepted: when \<open>Prepare\<close> succeeds on a header, the body is filled in and \<open>Seal\<close> succeeds,
  every other engine on the same chain accepts the result, as soon as its time has come. Both engines started with empty caches and an empty database, and the
  sealed header has a hash of its own: it is in a set \<open>H\<close> with all headers that the two engines have seen, in which no two have the same hash. Without that the
  claim fails: for an empty block on top of an empty block the engine takes the signer of the parent from its cache. The key signs what it is given and the
  signature gives the account of the signer; the time of the parent and the clock are below \<open>2 ^ 63\<close>.\<close>

theorem sealed_header_accepted:
  assumes c: "eng_reach E H ch c" and g: "verifyBasic E now (genesis ch) = None" "verifyBasic E now' (genesis ch) = None"
    and p: "ch_GetHeader ch (h_ParentHash h) (numberOf h - 1) = Some p" "0 \<le> h_Time p" "h_Time p + uint (Period E) < 2 ^ 63" "now < 2 ^ 63"
    and r: "Prepare E ch now rnd h c = Inr (Inr h1, c1)"
    and s: "Seal E ch now pr signFn (withBody E root rootCMTfd zkfunds txHash receiptHash bloom gasUsed h1) c1 = Inr (Inr h2, c2)"
    and sg: "\<And>d. length (signFn d) = extraSeal" "\<And>d. crypto_Ecrecover E d (signFn d) = Some (eng_signer c)"
    and h2: "h2 \<in> H" "h_Time h2 \<le> now'" and c': "eng_reach E H ch c'"
  shows "\<exists>c''. verifyHeader E ch now' h2 [] c' = Inr (None, c'')"
proof -
  let ?b = "withBody E root rootCMTfd zkfunds txHash receiptHash bloom gasUsed h1"
  have ch: "chain_ok E ch H" and o: "engine_ok E ch H c" and o': "engine_ok E ch H c'" using eng_reach_ok [OF c] eng_reach_ok [OF c'] by simp_all
  note pr = Prepare_ref [OF ch o g(1) p(1) r]
  from pr(1) obtain snap where sn: "refSnapshot E ch (unat (numberOf h - 1)) (h_ParentHash h) = Some snap"
    and pf: "preparedFor E now (eng_signer c) p h snap h1" by blast
  have n: "numberOf ?b = numberOf h" "h_ParentHash ?b = h_ParentHash h" using pf by (simp_all add: preparedFor_def numberOf_def withBody_def)
  from Seal_ref [OF ch pr(2) g(1) _ s] p(1) n sn pr(3) obtain d where
    d: "eng_signer c \<in> signerSet snap" "header_sigHash E ?b = Inr d" "h2 = withSignature (signFn d) ?b" by auto
  have "h_Time h1 \<le> now'" using h2(2) d(3) by simp
  from sealed_accepts [OF pf p(2-4) this p(1) sn d(1) refl d(2), where signFn = signFn] sg d(3) have "accepts E ch now' h2" by simp
  then show ?thesis using verifyHeader_ref [OF ch o' g(2) h2(1)] by auto
qed

lemma ok_caseD:
  assumes "case m of Inr (Inr a, b) \<Rightarrow> P a b | _ \<Rightarrow> False"
  obtains a b where "m = Inr (Inr a, b)" "P a b"
proof (cases m)
  case (Inr p)
  then show ?thesis using assms that by (cases "fst p") (auto simp: case_prod_unfold, metis prod.collapse)
qed (use assms in simp)

lemma ex_prepare_seal:
  "case Prepare exEng exChain 20 0 (exHeader 100 0 1 []) (exEngine 9) of
     Inr (Inr h1, c1) \<Rightarrow> (case Seal exEng exChain 20 True exSign (withBody exEng 0 0 [] 200 0 [] 0 h1) c1 of
       Inr (Inr h2, c2) \<Rightarrow> h_Time h2 \<le> 30 \<and> ZKHashBlock exEng h2 = 200 \<and> h_Coinbase h2 = 7 \<and> h_Difficulty h2 = 2
     | _ \<Rightarrow> False)
   | _ \<Rightarrow> False"
  by code_simp

theorem sealed_header_accepted_witness:
  "\<exists>h1 c1 h2 c2 c''. Prepare exEng exChain 20 0 (exHeader 100 0 1 []) (exEngine 9) = Inr (Inr h1, c1) \<and>
     Seal exEng exChain 20 True exSign (withBody exEng 0 0 [] 200 0 [] 0 h1) c1 = Inr (Inr h2, c2) \<and>
     verifyHeader exEng exChain 30 h2 [] (exEngine 7) = Inr (None, c'')"
proof -
  obtain h1 c1 where r: "Prepare exEng exChain 20 0 (exHeader 100 0 1 []) (exEngine 9) = Inr (Inr h1, c1)" and
    s': "case Seal exEng exChain 20 True exSign (withBody exEng 0 0 [] 200 0 [] 0 h1) c1 of
       Inr (Inr h2, c2) \<Rightarrow> h_Time h2 \<le> 30 \<and> ZKHashBlock exEng h2 = 200 \<and> h_Coinbase h2 = 7 \<and> h_Difficulty h2 = 2
     | _ \<Rightarrow> False" by (rule ok_caseD [OF ex_prepare_seal])
  obtain h2 c2 where s: "Seal exEng exChain 20 True exSign (withBody exEng 0 0 [] 200 0 [] 0 h1) c1 = Inr (Inr h2, c2)" and
    h2: "h_Time h2 \<le> 30" "ZKHashBlock exEng h2 = 200" by (rule ok_caseD [OF s']) blast
  have ch: "chain_ok exEng exChain {exGenesis, h2}" using h2(2) by (intro ex_chain_ok) (auto simp: inj_on_def exGenesis_def)
  have g: "verifyBasic exEng 20 (genesis exChain) = None" "verifyBasic exEng 30 (genesis exChain) = None" unfolding ex_genesis by code_simp+
  have p: "ch_GetHeader exChain (h_ParentHash (exHeader 100 0 1 [])) (numberOf (exHeader 100 0 1 []) - 1) = Some exGenesis"
    "0 \<le> h_Time exGenesis" "h_Time exGenesis + uint (Period exEng) < 2 ^ 63" "(20 :: int) < 2 ^ 63"
    by (simp_all add: exChain_def) (simp_all add: exGenesis_def Period_def exEng_def)
  have sg: "length (exSign d) = extraSeal" "crypto_Ecrecover exEng d (exSign d) = Some (eng_signer (exEngine 9))" for d
    by (simp_all add: exSign_def extraSeal_def exEng_def exEngine_def)
  from sealed_header_accepted [OF ex_reach [OF ch] g p r s sg _ h2(1) ex_reach [OF ch, of 7]] r s show ?thesis by blast
qed

section \<open>The vote\<close>

text \<open>C20: Headers are applied to a snapshot as steps on a set of signers. They are applied exactly when they are numbered one after the other
  and each is signed by a signer of its moment and has one of the two nonces; then a header adds the account it names to the set or takes it
  out, at once, and the snapshot is again without open votes.\<close>

theorem apply_refines_vote:
  assumes "quiet s"
  shows "((\<exists>t cache'. snap_apply E hs s cache = Inr (Inr t, cache')) \<longleftrightarrow> consecutive (sn_Number s) hs \<and> signedBy E hs (signerSet s) cache) \<and>
    (\<forall>t cache'. snap_apply E hs s cache = Inr (Inr t, cache') \<longrightarrow>
      quiet t \<and> signerSet t = fold voteStep hs (signerSet s) \<and> sn_Number t = sn_Number s + of_nat (length hs))"
proof (cases "hs = []")
  case False
  have ok: "quiet t \<and> signerSet t = fold voteStep hs (signerSet s) \<and> sn_Number t = sn_Number s + of_nat (length hs) \<and>
      consecutive (sn_Number s) hs \<and> signedBy E hs (signerSet s) cache" if "snap_apply E hs s cache = Inr (Inr t, cache')" for t cache'
  proof -
    from that False obtain r u where c: "consecutive (sn_Number s) hs" and u: "applyHeaders E hs s cache = Inr (r, u)"
      by (auto simp: snap_apply_def consecutive_contiguous bind_res_Inr_iff split: if_splits)
    from that False c u obtain w where w: "r = Inr w" "t = w\<lparr>sn_Number := sn_Number w + of_nat (length hs), sn_Hash := ZKHashBlock E (last hs)\<rparr>"
      by (cases r) (auto simp: snap_apply_def consecutive_contiguous)
    from applyHeaders_ok [OF assms u [unfolded w(1)]] c w(2) show ?thesis by (simp add: quiet_def signerSet_def)
  qed
  moreover have "\<exists>t cache'. snap_apply E hs s cache = Inr (Inr t, cache')" if "consecutive (sn_Number s) hs \<and> signedBy E hs (signerSet s) cache"
    using applyHeaders_signed [OF assms, of E hs cache] that False by (auto simp: snap_apply_def consecutive_contiguous)
  ultimately show ?thesis by blast
qed (use assms in \<open>simp add: snap_apply_def\<close>)

theorem apply_refines_vote_witness:
  "\<exists>t cache'. snap_apply exEng [exBlock1\<lparr>h_Coinbase := 8, h_Nonce := nonceAuthVote\<rparr>] (newSnapshot 0 100 [9, 7]) [] = Inr (Inr t, cache') \<and>
     quiet t \<and> signerSet t = {7, 8, 9} \<and> sn_Number t = 1"
proof -
  let ?h = "exBlock1\<lparr>h_Coinbase := 8, h_Nonce := nonceAuthVote\<rparr>"
  have e: "ecrecover exEng ?h [] = Inr (Inr 9, [(200, 9)])" by code_simp
  have "numberOf ?h = 1" by code_simp
  then have "consecutive (sn_Number (newSnapshot 0 100 [9, 7])) [?h] \<and> signedBy exEng [?h] (signerSet (newSnapshot 0 100 [9, 7])) []"
    by (simp add: e quiet_new) (simp add: newSnapshot_def)
  with apply_refines_vote [OF quiet_new(1), of exEng "[?h]" 0 100 "[9, 7]" "[]"] obtain t cache' where
    t: "snap_apply exEng [?h] (newSnapshot 0 100 [9, 7]) [] = Inr (Inr t, cache')" "quiet t"
      "signerSet t = fold voteStep [?h] (signerSet (newSnapshot 0 100 [9, 7]))" "sn_Number t = sn_Number (newSnapshot 0 100 [9, 7]) + of_nat (length [?h])"
    by blast
  have "signerSet t = {7, 8, 9}" unfolding t(3) quiet_new by (auto simp: voteStep_def)
  moreover have "sn_Number t = 1" unfolding t(4) by (simp add: newSnapshot_def)
  ultimately show ?thesis using t(1,2) by blast
qed

text \<open>C22: The signers are listed in ascending order, and at each height exactly one of them is in turn.\<close>

theorem one_signer_in_turn:
  assumes "quiet s" and "Signers s \<noteq> []" and "length (Signers s) < 2 ^ 64"
  shows "signers s = sorted_list_of_set (signerSet s) \<and> (\<exists>!a. a \<in> signerSet s \<and> inturn n a s = Inr True)"
proof -
  have d: "distinct (mkeys (Signers s))" using assms(1) by (simp add: quiet_def)
  let ?a = "signers s ! (unat n mod length (Signers s))"
  have "?a \<in> set (signers s)" using signers_facts(3) [OF d] assms(2) by (intro nth_mem) simp
  then have "?a \<in> signerSet s" using signers_facts(2) [OF d] by simp
  moreover have "inturn n a s = Inr True \<longleftrightarrow> a = ?a" if "a \<in> signerSet s" for a
    using inturn_iff [OF d assms(2,3)] that by simp
  ultimately show ?thesis using signers_eq [OF d] by (auto simp: signerSet_def)
qed

theorem one_signer_in_turn_witness:
  "signers (newSnapshot 0 0 [9, 7, 8]) = sorted_list_of_set {7, 8, 9} \<and> (\<exists>!a. a \<in> {7, 8, 9} \<and> inturn 5 a (newSnapshot 0 0 [9, 7, 8]) = Inr True)"
proof -
  have "Signers (newSnapshot 0 0 [9, 7, 8]) = [(9, ()), (7, ()), (8, ())]" by code_simp
  moreover have "signerSet (newSnapshot 0 0 [9, 7, 8]) = {7, 8, 9}" by (auto simp: quiet_new)
  ultimately show ?thesis using one_signer_in_turn [OF quiet_new(1), of 0 0 "[9, 7, 8]" 5] by simp
qed

section \<open>What the hash of a header does not cover\<close>

text \<open>Two blocks in a row with the same roots have the same hash, and then the chain stops. Once the snapshot of the first one is in
  memory, it is found for the second one too, and no header is accepted any more on top of the block after the next.\<close>

theorem repeated_hash_stops_chain:
  assumes roots: "h_TxHash k2 = h_TxHash k1" "h_Root k2 = h_Root k1" "h_RootCMTfd k2 = h_RootCMTfd k1"
    and s: "mget (recents c) (ZKHashBlock E k1) = Some s" "sn_Number s = numberOf k1"
    and k3: "h_ParentHash k3 = ZKHashBlock E k2" "numberOf k3 = numberOf k1 + 2" "unat (numberOf k1) + 3 < 2 ^ 64"
      "ch_GetHeader ch (ZKHashBlock E k3) (numberOf k3) = Some k3"
      "mget (recents c) (ZKHashBlock E k3) = None" "mget (eng_db c) (ZKHashBlock E k3) = None"
    and h: "h_ParentHash h = ZKHashBlock E k3" "numberOf h = numberOf k3 + 1"
  shows "\<exists>e. verifyHeader E ch now h [] c = Inr (Some e, c)"
proof -
  have same: "ZKHashBlock E k2 = ZKHashBlock E k1" using roots by (simp add: ZKHashBlock_def)
  have n: "unat (numberOf k3) = Suc (Suc (unat (numberOf k1)))" "of_nat (Suc (Suc (unat (numberOf k1)))) = numberOf k3"
    using k3(2,3) by (simp_all add: unat_word_ariths)
  have h0: "numberOf h \<noteq> 0"
  proof
    assume "numberOf h = 0"
    then have "unat (numberOf k3 + 1) = 0" using h(2) by simp
    then show False using k3(3) n(1) by (simp add: unat_word_ariths)
  qed
  have "findSnapshot E ch now (unat (numberOf k3)) (ZKHashBlock E k3) [] [] c = (Inr (s, [k3]), c)"
    unfolding n(1) findSnapshot.simps [of _ _ _ "Suc (Suc (unat (numberOf k1)))"] n(2)
    using k3(4-6) by (simp add: findSnapshot.simps [of _ _ _ "Suc (unat (numberOf k1))"] k3(1) same s(1) del: of_nat_Suc)
  moreover have "numberOf k3 \<noteq> sn_Number s + 1" using k3(2) s(2) by simp
  ultimately have "eng_snapshot E ch now (numberOf h - 1) (h_ParentHash h) [] c = Inr (Inl InvalidVotingChain, c)"
    using h by (simp add: eng_snapshot_def snap_apply_def)
  then show ?thesis
    using h0 by (cases "verifyBasic E now h") (auto simp: verifyHeader_def verifyCascadingFields_def Let_def split: option.splits)
qed

theorem repeated_hash_stops_chain_witness:
  "\<exists>e. verifyHeader exEng \<lparr>ch_GetHeader = (\<lambda>h n. if h = 300 \<and> n = 3 then Some (exHeader 200 300 3 []) else None), ch_Genesis = exGenesis\<rparr> 100
     (exHeader 300 400 4 (replicate 97 0)) [] ((exEngine 7)\<lparr>recents := [(200, newSnapshot 1 200 [9, 7])]\<rparr>) =
     Inr (Some e, (exEngine 7)\<lparr>recents := [(200, newSnapshot 1 200 [9, 7])]\<rparr>)"
  by (rule repeated_hash_stops_chain [where ?k1.0 = "exHeader 100 200 1 []" and ?k2.0 = "exHeader 200 200 2 []" and ?k3.0 = "exHeader 200 300 3 []"
        and s = "newSnapshot 1 200 [9, 7]"])
    (simp_all add: exEngine_def mget_def newSnapshot_def)

lemma ecrecover_keeps:
  "ecrecover E h cache = Inr (r, cache') \<Longrightarrow> mget cache k = Some a \<Longrightarrow> mget cache' k = Some a"
  by (auto simp: ecrecover_def bind_res_Inr_iff split: option.splits if_splits)

lemma applyHeaders_keeps:
  "applyHeaders E hs s cache = Inr (r, cache') \<Longrightarrow> mget cache k = Some a \<Longrightarrow> mget cache' k = Some a"
proof (induction hs arbitrary: s cache)
  case (Cons h hs)
  have one: "mget cache1 k = Some a" if "applyHeader E h s cache = Inr (q, cache1)" for q cache1
  proof -
    from that obtain p cache2 where p: "ecrecover E h cache = Inr (p, cache2)" by (auto simp: applyHeader_def Let_def bind_res_Inr_iff)
    then have "cache2 = cache1" using that by (cases p) (auto simp: applyHeader_def Let_def case_prod_unfold split: if_split_asm)
    then show ?thesis using ecrecover_keeps [OF p Cons.prems(2)] by simp
  qed
  from Cons.prems(1) obtain q cache1 where q: "applyHeader E h s cache = Inr (q, cache1)" by (auto simp: bind_res_Inr_iff)
  then show ?case using Cons.prems(1) Cons.IH [OF _ one [OF q]] one [OF q] by (cases q) auto
qed simp

lemma eng_snapshot_keeps:
  assumes "eng_snapshot E ch now n h ps c = Inr (r, c')" and "mget (signatures c) k = Some a"
  shows "mget (signatures c') k = Some a"
proof -
  obtain q c1 where q: "findSnapshot E ch now (unat n) h ps [] c = (q, c1)" by fastforce
  with findSnapshot_frame [of E ch now "unat n" h ps "[]" c] have c1: "signatures c1 = signatures c" by auto
  show ?thesis
  proof (cases q)
    case (Inr p)
    obtain s hs where p: "p = (s, hs)" by fastforce
    from assms(1) obtain x cache' where x: "snap_apply E (rev hs) s (signatures c) = Inr (x, cache')"
      by (auto simp: eng_snapshot_def q Inr p c1 bind_res_Inr_iff)
    have "mget cache' k = Some a"
    proof (cases "\<exists>y cache1. applyHeaders E (rev hs) s (signatures c) = Inr (y, cache1) \<and> cache1 = cache'")
      case True
      then show ?thesis using applyHeaders_keeps assms(2) by blast
    next
      case False
      have "cache' = signatures c" if "applyHeaders E (rev hs) s (signatures c) = Inr (y, cache1)" for y cache1
        using x False that by (cases y) (auto simp: snap_apply_def split: if_split_asm)
      then have "cache' = signatures c" using x by (auto simp: snap_apply_def bind_res_Inr_iff split: if_split_asm)
      then show ?thesis using assms(2) by simp
    qed
    then show ?thesis using assms(1) x by (cases x) (auto simp: eng_snapshot_def q Inr p c1 Let_def split: if_splits)
  qed (use assms q c1 in \<open>simp add: eng_snapshot_def\<close>)
qed

text \<open>The signer of a header is remembered under its hash, which covers three roots and no signature. Once a header has been verified, it
  may be given any other vanity and any other signature: the verification does not look at them and ends as for the header itself.\<close>

theorem cached_seal_not_checked:
  assumes a: "mget (signatures c) (ZKHashBlock E h) = Some a" and n: "numberOf h mod Epoch E \<noteq> 0" and l: "length extra = length (h_Extra h)"
  shows "verifyHeader E ch now (h\<lparr>h_Extra := extra\<rparr>) ps c = verifyHeader E ch now h ps c"
proof -
  let ?h = "h\<lparr>h_Extra := extra\<rparr>"
  have num: "numberOf ?h = numberOf h" "ZKHashBlock E ?h = ZKHashBlock E h" "h_ParentHash ?h = h_ParentHash h" "h_Time ?h = h_Time h"
      "h_Difficulty ?h = h_Difficulty h" by (simp_all add: numberOf_def ZKHashBlock_def)
  have b: "verifyBasic E now ?h = verifyBasic E now h" using l by (simp add: verifyBasic_def num Let_def cong: if_cong)
  have rec: "ecrecover E ?h cache = ecrecover E h cache" if "mget cache (ZKHashBlock E h) = Some a" for cache
    using that by (simp add: ecrecover_def num)
  have seal: "verifySeal E ch now ?h ps c1 = verifySeal E ch now h ps c1" if "mget (signatures c1) (ZKHashBlock E h) = Some a" for c1
  proof (cases "eng_snapshot E ch now (numberOf h - 1) (h_ParentHash h) ps c1")
    case (Inr p)
    obtain r c2 where p: "p = (r, c2)" by fastforce
    show ?thesis unfolding verifySeal_def num Let_def Inr p bind_res_simps prod.case
      by (cases r) (simp_all add: rec [OF eng_snapshot_keeps [OF Inr [unfolded p] that]])
  qed (simp add: verifySeal_def num Let_def)
  have "verifyCascadingFields E ch now ?h ps c = verifyCascadingFields E ch now h ps c"
  proof (cases "eng_snapshot E ch now (numberOf h - 1) (h_ParentHash h) ps c")
    case (Inr p)
    obtain r c2 where p: "p = (r, c2)" by fastforce
    have z: "(numberOf h mod Epoch E = 0) = False" using n by simp
    show ?thesis unfolding verifyCascadingFields_def num Let_def Inr p bind_res_simps prod.case z simp_thms if_False
      seal [OF eng_snapshot_keeps [OF Inr [unfolded p] a]] by simp
  next
    case (Inl e)
    show ?thesis unfolding verifyCascadingFields_def num Let_def Inl bind_res_simps by simp
  qed
  then show ?thesis unfolding verifyHeader_def b by (rule arg_cong)
qed

theorem cached_seal_not_checked_witness:
  "verifyHeader exEng exChain 20 (exBlock1\<lparr>h_Extra := replicate 97 255\<rparr>) [] ((exEngine 7)\<lparr>signatures := [(200, 9)]\<rparr>) =
   verifyHeader exEng exChain 20 exBlock1 [] ((exEngine 7)\<lparr>signatures := [(200, 9)]\<rparr>) \<and>
   authorOf exEng (exBlock1\<lparr>h_Extra := replicate 97 255\<rparr>) = Some 255"
proof -
  have "mget (signatures ((exEngine 7)\<lparr>signatures := [(200, 9)]\<rparr>)) (ZKHashBlock exEng exBlock1) = Some 9" by code_simp
  moreover have "numberOf exBlock1 mod Epoch exEng \<noteq> 0" by code_simp
  moreover have "length (replicate 97 (255 :: 8 word)) = length (h_Extra exBlock1)" by code_simp
  moreover have "authorOf exEng (exBlock1\<lparr>h_Extra := replicate 97 255\<rparr>) = Some 255" by code_simp
  ultimately show ?thesis using cached_seal_not_checked by blast
qed

end
