(* ===== verification/Tx_Heap.thy ===== *)
theory Tx_Heap
  imports Zkhc_Prelude "HOL-Library.Multiset"
begin

text \<open>
  The binary heaps of Go's standard library (\<open>container/heap\<close>) over a slice, with the comparison given by a key: \<open>up\<close>, \<open>down\<close>,
  \<open>Init\<close>, \<open>Push\<close>, \<open>Pop\<close>, \<open>Remove\<close> and \<open>Fix\<close>, which the lists of the transaction pool and the order of the
  miner are built on. The interface \<open>go_heap\<close> lists what its clients rely on.
\<close>

section \<open>The operations\<close>

definition swap :: "nat \<Rightarrow> nat \<Rightarrow> 'a list \<Rightarrow> 'a list" where
  "swap i j h = h[i := h ! j, j := h ! i]"

fun heap_up :: "('a \<Rightarrow> 'k::linorder) \<Rightarrow> nat \<Rightarrow> 'a list \<Rightarrow> 'a list" where
  "heap_up key j h = (let i = (j - 1) div 2 in
     if j = 0 \<or> \<not> key (h ! j) < key (h ! i) then h else heap_up key i (swap i j h))"

declare heap_up.simps [simp del]

text \<open>The child of \<open>i\<close> that \<open>down\<close> compares with, among the first \<open>n\<close> entries.\<close>

definition smallerChild :: "('a \<Rightarrow> 'k::linorder) \<Rightarrow> nat \<Rightarrow> nat \<Rightarrow> 'a list \<Rightarrow> nat" where
  "smallerChild key i n h = (if 2 * i + 2 < n \<and> key (h ! (2 * i + 2)) < key (h ! (2 * i + 1)) then 2 * i + 2 else 2 * i + 1)"

lemma smallerChild_bounds: "2 * i + 1 < n \<Longrightarrow> i < smallerChild key i n h \<and> smallerChild key i n h < n"
  by (simp add: smallerChild_def)

function heap_down :: "('a \<Rightarrow> 'k::linorder) \<Rightarrow> nat \<Rightarrow> nat \<Rightarrow> 'a list \<Rightarrow> 'a list" where
  "heap_down key i n h =
     (if 2 * i + 1 \<ge> n then h
      else let j = smallerChild key i n h in
        if \<not> key (h ! j) < key (h ! i) then h else heap_down key j n (swap i j h))"
  by auto
termination
  by (relation "measure (\<lambda>(key, i, n, h). n - i)") (auto simp: smallerChild_def)

declare heap_down.simps [simp del]

definition heap_Init :: "('a \<Rightarrow> 'k::linorder) \<Rightarrow> 'a list \<Rightarrow> 'a list" where
  "heap_Init key h = fold (\<lambda>i h. heap_down key i (length h) h) (rev [0..<length h div 2]) h"

definition heap_Push :: "('a \<Rightarrow> 'k::linorder) \<Rightarrow> 'a \<Rightarrow> 'a list \<Rightarrow> 'a list" where
  "heap_Push key x h = heap_up key (length h) (h @ [x])"

text \<open>The callers pop a heap that is not empty.\<close>

definition heap_Pop :: "('a \<Rightarrow> 'k::linorder) \<Rightarrow> 'a list \<Rightarrow> 'a \<times> 'a list" where
  "heap_Pop key h = (let n = length h - 1; h' = heap_down key 0 n (swap 0 n h) in (last h', butlast h'))"

lemma length_heap_down [simp]: "length (heap_down key i n h) = length h"
  by (induction key i n h rule: heap_down.induct) (simp add: heap_down.simps Let_def swap_def)

lemma length_heap_Pop [simp]: "length (snd (heap_Pop key h)) = length h - 1"
  by (simp add: heap_Pop_def Let_def swap_def)

text \<open>\<open>down\<close>, and \<open>up\<close> if it did not move an entry, which is the case when it did not change the slice.\<close>

definition heap_sift :: "('a \<Rightarrow> 'k::linorder) \<Rightarrow> nat \<Rightarrow> nat \<Rightarrow> 'a list \<Rightarrow> 'a list" where
  "heap_sift key i n h = (let h' = heap_down key i n h in if h' = h then heap_up key i h else h')"

definition heap_Remove :: "('a \<Rightarrow> 'k::linorder) \<Rightarrow> nat \<Rightarrow> 'a list \<Rightarrow> 'a list" where
  "heap_Remove key i h = (let n = length h - 1 in butlast (if n = i then h else heap_sift key i n (swap i n h)))"

definition heap_Fix :: "('a \<Rightarrow> 'k::linorder) \<Rightarrow> nat \<Rightarrow> 'a list \<Rightarrow> 'a list" where
  "heap_Fix key i h = heap_sift key i (length h) h"

section \<open>Heaps\<close>

text \<open>The first \<open>n\<close> entries are a heap as far as the nodes from \<open>k\<close> on are concerned.\<close>

definition heap_from :: "('a \<Rightarrow> 'k::linorder) \<Rightarrow> nat \<Rightarrow> nat \<Rightarrow> 'a list \<Rightarrow> bool" where
  "heap_from key k n h \<longleftrightarrow> (\<forall>i<n. 0 < i \<longrightarrow> k \<le> (i - 1) div 2 \<longrightarrow> key (h ! ((i - 1) div 2)) \<le> key (h ! i))"

abbreviation is_heap :: "('a \<Rightarrow> 'k::linorder) \<Rightarrow> 'a list \<Rightarrow> bool" where
  "is_heap key h \<equiv> heap_from key 0 (length h) h"

lemma parent_less: "0 < (x :: nat) \<Longrightarrow> (x - 1) div 2 < x"
  by linarith

lemma length_swap [simp]: "length (swap i j h) = length h"
  by (simp add: swap_def)

lemma mset_swap_entries [simp]: "i < length h \<Longrightarrow> j < length h \<Longrightarrow> mset (swap i j h) = mset h"
  by (simp add: swap_def mset_swap)

lemma nth_swap: "i < length h \<Longrightarrow> j < length h \<Longrightarrow> l < length h \<Longrightarrow> swap i j h ! l = (if l = i then h ! j else if l = j then h ! i else h ! l)"
  by (auto simp: swap_def nth_list_update)

text \<open>Children of \<open>i\<close> among the first \<open>n\<close> entries are at least the parent of \<open>i\<close>.\<close>

definition below :: "('a \<Rightarrow> 'k::linorder) \<Rightarrow> nat \<Rightarrow> nat \<Rightarrow> nat \<Rightarrow> 'a list \<Rightarrow> bool" where
  "below key k i n h \<longleftrightarrow> (\<forall>c<n. 0 < c \<longrightarrow> (c - 1) div 2 = i \<longrightarrow> 0 < i \<longrightarrow> k \<le> (i - 1) div 2 \<longrightarrow> key (h ! ((i - 1) div 2)) \<le> key (h ! c))"

lemma heap_down_spec:
  assumes "n \<le> length h" and "i < n \<or> n \<le> 2 * i + 1" and "k \<le> i"
    and "\<forall>c<n. 0 < c \<longrightarrow> k \<le> (c - 1) div 2 \<longrightarrow> (c - 1) div 2 \<noteq> i \<longrightarrow> key (h ! ((c - 1) div 2)) \<le> key (h ! c)" and "below key k i n h"
  shows "heap_from key k n (heap_down key i n h) \<and> mset (heap_down key i n h) = mset h \<and> length (heap_down key i n h) = length h \<and>
    (\<forall>l. n \<le> l \<longrightarrow> l < length h \<longrightarrow> heap_down key i n h ! l = h ! l)"
  using assms
proof (induction key i n h rule: heap_down.induct)
  case (1 key i n h)
  show ?case
  proof (cases "2 * i + 1 \<ge> n")
    case True
    have "(c - 1) div 2 \<noteq> i" if "0 < c" "c < n" for c using True that by auto
    then show ?thesis using 1 True by (auto simp: heap_down.simps heap_from_def)
  next
    case False
    define j where "j = smallerChild key i n h"
    have j: "i < j" "j < n" "(j - 1) div 2 = i" using False by (auto simp: j_def smallerChild_def)
    have small: "key (h ! j) \<le> key (h ! c)" if "c < n" "0 < c" "(c - 1) div 2 = i" for c
    proof -
      have "c = 2 * i + 1 \<or> c = 2 * i + 2" using that by auto
      then show ?thesis using that(1) by (auto simp: j_def smallerChild_def)
    qed
    show ?thesis
    proof (cases "key (h ! j) < key (h ! i)")
      case False2: False
      have "heap_from key k n h"
        unfolding heap_from_def using 1(5) small False2 by (metis le_less_linear order_trans)
      then show ?thesis using False False2 by (simp add: heap_down.simps [of key i] j_def Let_def)
    next
      case True
      let ?h = "swap i j h"
      have len: "i < length h" "j < length h" using j 1(2) by auto
      have par: "(c - 1) div 2 < n" if "c < n" for c using that by auto
      have A: "\<forall>c<n. 0 < c \<longrightarrow> k \<le> (c - 1) div 2 \<longrightarrow> (c - 1) div 2 \<noteq> j \<longrightarrow> key (?h ! ((c - 1) div 2)) \<le> key (?h ! c)"
      proof (intro allI impI)
        fix c assume c: "c < n" "0 < c" "k \<le> (c - 1) div 2" "(c - 1) div 2 \<noteq> j"
        have cl: "c < length h" "(c - 1) div 2 < length h" using c(1) 1(2) by auto
        consider "c = j" | "c \<noteq> j" "(c - 1) div 2 = i" | "c = i" "(c - 1) div 2 \<noteq> i" | "c \<noteq> j" "c \<noteq> i" "(c - 1) div 2 \<noteq> i" by blast
        then show "key (?h ! ((c - 1) div 2)) \<le> key (?h ! c)"
        proof cases
          case 1
          then show ?thesis using True len cl j by (simp add: nth_swap)
        next
          case 2
          then have "c \<noteq> i" using c(2) by auto
          then show ?thesis using 2 small [of c] c len cl by (simp add: nth_swap)
        next
          case 3
          have "key (h ! ((i - 1) div 2)) \<le> key (h ! j)" using \<open>below key k i n h\<close> j c 3 unfolding below_def by auto
          then show ?thesis using 3 c(4) len cl j(1) by (simp add: nth_swap)
        next
          case 4
          then show ?thesis using \<open>\<forall>c<n. 0 < c \<longrightarrow> k \<le> (c - 1) div 2 \<longrightarrow> (c - 1) div 2 \<noteq> i \<longrightarrow> key (h ! ((c - 1) div 2)) \<le> key (h ! c)\<close> c len cl
            by (simp add: nth_swap)
        qed
      qed
      have B: "below key k j n ?h"
        unfolding below_def
      proof (intro allI impI)
        fix c assume c: "c < n" "0 < c" "(c - 1) div 2 = j"
        have "c \<noteq> i" "c \<noteq> j" using c j by auto
        moreover have "key (h ! j) \<le> key (h ! c)"
          using \<open>\<forall>c<n. 0 < c \<longrightarrow> k \<le> (c - 1) div 2 \<longrightarrow> (c - 1) div 2 \<noteq> i \<longrightarrow> key (h ! ((c - 1) div 2)) \<le> key (h ! c)\<close> c j \<open>k \<le> i\<close> by auto
        ultimately show "key (?h ! ((j - 1) div 2)) \<le> key (?h ! c)" using c len j \<open>n \<le> length h\<close> by (simp add: nth_swap)
      qed
      have IH: "heap_from key k n (heap_down key j n ?h) \<and> mset (heap_down key j n ?h) = mset ?h \<and> length (heap_down key j n ?h) = length ?h \<and>
        (\<forall>l. n \<le> l \<longrightarrow> l < length ?h \<longrightarrow> heap_down key j n ?h ! l = ?h ! l)"
        using "1.IH" [OF False j_def] True A B j \<open>n \<le> length h\<close> \<open>k \<le> i\<close> by simp
      then show ?thesis using False True len j by (auto simp: heap_down.simps [of key i] j_def [symmetric] Let_def nth_swap)
    qed
  qed
qed

lemma heap_up_spec:
  assumes "n \<le> length h" and "j < n"
    and "\<forall>c<n. 0 < c \<longrightarrow> c \<noteq> j \<longrightarrow> key (h ! ((c - 1) div 2)) \<le> key (h ! c)" and "below key 0 j n h"
  shows "heap_from key 0 n (heap_up key j h) \<and> mset (heap_up key j h) = mset h \<and> length (heap_up key j h) = length h \<and>
    (\<forall>l. n \<le> l \<longrightarrow> l < length h \<longrightarrow> heap_up key j h ! l = h ! l)"
  using assms
proof (induction key j h rule: heap_up.induct)
  case (1 key j h)
  let ?i = "(j - 1) div 2"
  show ?case
  proof (cases "j = 0 \<or> \<not> key (h ! j) < key (h ! ?i)")
    case True
    then have "heap_from key 0 n h" unfolding heap_from_def using 1(4) by (metis not_less not_gr_zero)
    then show ?thesis using True by (auto simp: heap_up.simps)
  next
    case False
    then have ij: "?i < j" by auto
    have len: "?i < length h" "j < length h" using ij 1(2,3) by auto
    let ?h = "swap ?i j h"
    have A: "\<forall>c<n. 0 < c \<longrightarrow> c \<noteq> ?i \<longrightarrow> key (?h ! ((c - 1) div 2)) \<le> key (?h ! c)"
    proof (intro allI impI)
      fix c assume c: "c < n" "0 < c" "c \<noteq> ?i"
      have cl: "c < length h" "(c - 1) div 2 < length h" "(c - 1) div 2 < c" using c 1(2) by auto
      have base: "key (h ! ((c - 1) div 2)) \<le> key (h ! c)" if "c \<noteq> j" using 1(4) c that by simp
      consider "c = j" | "c \<noteq> j" "(c - 1) div 2 = j" | "c \<noteq> j" "(c - 1) div 2 = ?i" | "c \<noteq> j" "(c - 1) div 2 \<noteq> j" "(c - 1) div 2 \<noteq> ?i" by blast
      then show "key (?h ! ((c - 1) div 2)) \<le> key (?h ! c)"
      proof cases
        case 1
        then show ?thesis using False len ij by (simp add: nth_swap)
      next
        case 2
        have "key (h ! ?i) \<le> key (h ! c)" using \<open>below key 0 j n h\<close> c 2 False unfolding below_def by auto
        then show ?thesis using 2 c len cl ij by (simp add: nth_swap)
      next
        case 3
        then show ?thesis using base False c len cl ij by (simp add: nth_swap)
      next
        case 4
        then show ?thesis using base c len cl by (simp add: nth_swap)
      qed
    qed
    have B: "below key 0 ?i n ?h"
      unfolding below_def
    proof (intro allI impI)
      fix c assume c: "c < n" "0 < c" "(c - 1) div 2 = ?i" "0 < ?i"
      have p: "key (h ! ((?i - 1) div 2)) \<le> key (h ! ?i)" using 1(3,4) c(4) ij by auto
      have q: "(?i - 1) div 2 < ?i" "(?i - 1) div 2 < length h" using parent_less [OF c(4)] len by auto
      have "?i < c" using parent_less [OF c(2)] c(3) by simp
      then have e: "?h ! ((?i - 1) div 2) = h ! ((?i - 1) div 2)" "?h ! c = (if c = j then h ! ?i else h ! c)"
        using q len ij c(1) 1(2) by (auto simp: nth_swap)
      have "key (h ! ?i) \<le> key (h ! c)" if "c \<noteq> j" using 1(4) c that by (metis c(3))
      then show "key (?h ! ((?i - 1) div 2)) \<le> key (?h ! c)" unfolding e using p by (auto intro: order_trans)
    qed
    have "heap_from key 0 n (heap_up key ?i ?h) \<and> mset (heap_up key ?i ?h) = mset ?h \<and> length (heap_up key ?i ?h) = length ?h \<and>
      (\<forall>l. n \<le> l \<longrightarrow> l < length ?h \<longrightarrow> heap_up key ?i ?h ! l = ?h ! l)"
      using "1.IH" [OF refl False] A B ij 1(2,3) by simp
    then show ?thesis using False len ij 1(3) by (auto simp: heap_up.simps [of key j] Let_def nth_swap)
  qed
qed

lemma heap_sift_spec:
  assumes n: "n \<le> length h" "i < n" and A: "\<forall>c<n. 0 < c \<longrightarrow> c \<noteq> i \<longrightarrow> (c - 1) div 2 \<noteq> i \<longrightarrow> key (h ! ((c - 1) div 2)) \<le> key (h ! c)"
    and B: "below key 0 i n h"
  shows "heap_from key 0 n (heap_sift key i n h) \<and> mset (heap_sift key i n h) = mset h \<and> length (heap_sift key i n h) = length h \<and>
    (\<forall>l. n \<le> l \<longrightarrow> l < length h \<longrightarrow> heap_sift key i n h ! l = h ! l)"
proof (cases "0 < i \<and> key (h ! i) < key (h ! ((i - 1) div 2))")
  case False
  then have A': "\<forall>c<n. 0 < c \<longrightarrow> 0 \<le> (c - 1) div 2 \<longrightarrow> (c - 1) div 2 \<noteq> i \<longrightarrow> key (h ! ((c - 1) div 2)) \<le> key (h ! c)"
    using A by (metis not_less)
  have up: "heap_up key i h = h" using False by (auto simp: heap_up.simps)
  show ?thesis using heap_down_spec [OF n(1) _ _ A' B] n(2) up
    by (cases "heap_down key i n h = h") (simp_all add: heap_sift_def)
next
  case True
  have kids: "key (h ! ((i - 1) div 2)) \<le> key (h ! c)" if "c < n" "0 < c" "(c - 1) div 2 = i" for c using B that True by (auto simp: below_def)
  have "heap_down key i n h = h"
  proof (cases "2 * i + 1 \<ge> n")
    case False
    have "smallerChild key i n h < n" "0 < smallerChild key i n h" "(smallerChild key i n h - 1) div 2 = i" using False by (auto simp: smallerChild_def)
    from kids [OF this] have "\<not> key (h ! smallerChild key i n h) < key (h ! i)" using True by auto
    then show ?thesis by (simp add: heap_down.simps Let_def)
  qed (simp add: heap_down.simps)
  moreover have "\<forall>c<n. 0 < c \<longrightarrow> c \<noteq> i \<longrightarrow> key (h ! ((c - 1) div 2)) \<le> key (h ! c)"
  proof (intro allI impI)
    fix c assume c: "c < n" "0 < c" "c \<noteq> i"
    show "key (h ! ((c - 1) div 2)) \<le> key (h ! c)"
    proof (cases "(c - 1) div 2 = i")
      case c2: True
      have "key (h ! i) \<le> key (h ! c)" using kids [OF c(1,2) c2] True by (meson less_imp_le less_le_trans)
      then show ?thesis using c2 by simp
    qed (use A c in blast)
  qed
  ultimately show ?thesis using heap_up_spec [OF n _ B] by (simp add: heap_sift_def)
qed

section \<open>The interface\<close>

text \<open>What the clients of a heap rely on: the entries, and that the first one has a smallest key.\<close>

locale go_heap =
  fixes key :: "'a \<Rightarrow> 'k::linorder"
    and init :: "'a list \<Rightarrow> 'a list"
    and push :: "'a \<Rightarrow> 'a list \<Rightarrow> 'a list"
    and pop :: "'a list \<Rightarrow> 'a \<times> 'a list"
    and remove :: "nat \<Rightarrow> 'a list \<Rightarrow> 'a list"
    and refix :: "nat \<Rightarrow> 'a list \<Rightarrow> 'a list"
    and heap :: "'a list \<Rightarrow> bool"
  assumes heap_empty: "heap []"
    and heap_top: "heap h \<Longrightarrow> y \<in> set h \<Longrightarrow> key (hd h) \<le> key y"
    and heap_init: "heap (init h) \<and> mset (init h) = mset h"
    and heap_push: "heap h \<Longrightarrow> heap (push x h) \<and> mset (push x h) = add_mset x (mset h)"
    and heap_pop: "heap h \<Longrightarrow> h \<noteq> [] \<Longrightarrow> fst (pop h) = hd h \<and> heap (snd (pop h)) \<and> mset h = add_mset (hd h) (mset (snd (pop h)))"
    and heap_remove: "heap h \<Longrightarrow> i < length h \<Longrightarrow> heap (remove i h) \<and> mset h = add_mset (h ! i) (mset (remove i h))"
    and heap_refix: "heap h \<Longrightarrow> i < length h \<Longrightarrow> heap (refix i (h[i := x])) \<and> mset (refix i (h[i := x])) = mset (h[i := x])"
begin

lemma length_pop: "heap h \<Longrightarrow> h \<noteq> [] \<Longrightarrow> length h = Suc (length (snd (pop h)))"
  using heap_pop [of h] by (metis size_add_mset size_mset)

lemma set_push: "heap h \<Longrightarrow> set (push x h) = insert x (set h)"
  using heap_push by (metis set_mset_add_mset_insert set_mset_mset)

lemma set_init: "set (init h) = set h"
  using heap_init by (metis set_mset_mset)

end

lemma heap_root:
  assumes "is_heap key h"
  shows "i < length h \<Longrightarrow> key (h ! 0) \<le> key (h ! i)"
proof (induction i rule: less_induct)
  case (less i)
  show ?case
  proof (cases "i = 0")
    case False
    then have p: "(i - 1) div 2 < i" using parent_less by blast
    then have "key (h ! 0) \<le> key (h ! ((i - 1) div 2))" using less by simp
    also have "\<dots> \<le> key (h ! i)" using assms less.prems False by (simp add: heap_from_def)
    finally show ?thesis .
  qed simp
qed

lemma heap_fromD: "heap_from key 0 n h \<Longrightarrow> c < n \<Longrightarrow> 0 < c \<Longrightarrow> key (h ! ((c - 1) div 2)) \<le> key (h ! c)"
  by (simp add: heap_from_def)

lemma heap_butlast: "heap_from key 0 (length h - 1) h \<Longrightarrow> is_heap key (butlast h)"
  by (auto simp: heap_from_def nth_butlast)

lemma mset_last_butlast: "h \<noteq> [] \<Longrightarrow> mset h = add_mset (last h) (mset (butlast h))"
  by (metis append_butlast_last_id mset_append mset.simps union_mset_add_mset_right add_mset_add_single)

lemma heap_Init_spec: "is_heap key (heap_Init key h) \<and> mset (heap_Init key h) = mset h"
proof -
  let ?n = "length h" and ?F = "\<lambda>i h. heap_down key i (length h) h"
  have step: "heap_from key i (length g) (?F i g) \<and> mset (?F i g) = mset g \<and> length (?F i g) = length g"
    if g: "heap_from key (Suc i) (length g) g" "i < length g" for i and g :: "'a list"
  proof -
    have A: "\<forall>c<length g. 0 < c \<longrightarrow> i \<le> (c - 1) div 2 \<longrightarrow> (c - 1) div 2 \<noteq> i \<longrightarrow> key (g ! ((c - 1) div 2)) \<le> key (g ! c)"
      using g(1) unfolding heap_from_def by (auto simp: Suc_le_eq le_less)
    have "below key i i (length g) g" unfolding below_def using parent_less by (metis leD)
    from heap_down_spec [OF order.refl _ order.refl A this] g(2) show ?thesis by simp
  qed
  have "heap_from key (m - k) (length h) (fold ?F (rev [m - k..<m]) h) \<and> mset (fold ?F (rev [m - k..<m]) h) = mset h"
    if "m = ?n div 2" "k \<le> m" for m k using that
  proof (induction k)
    case 0
    have "\<not> m \<le> (i - 1) div 2" if "i < ?n" "0 < i" for i using that 0 by linarith
    then show ?case by (auto simp: heap_from_def)
  next
    case (Suc k)
    let ?g = "fold ?F (rev [m - k..<m]) h"
    have IH: "heap_from key (m - k) ?n ?g" "mset ?g = mset h" using Suc by simp_all
    have len: "length ?g = ?n" using mset_eq_length [OF IH(2)] .
    have sk: "Suc (m - Suc k) = m - k" using Suc.prems by simp
    have up: "[m - Suc k..<m] = (m - Suc k) # [m - k..<m]" using upt_conv_Cons [of "m - Suc k" m] Suc.prems sk by simp
    note sk
    moreover have "m - Suc k < ?n" using Suc.prems by auto
    ultimately show ?case using step [of "m - Suc k" ?g] IH len by (simp add: up)
  qed
  from this [of "?n div 2" "?n div 2"] have "heap_from key 0 ?n (heap_Init key h) \<and> mset (heap_Init key h) = mset h"
    by (simp add: heap_Init_def)
  then show ?thesis using mset_eq_length [of "heap_Init key h" h] by simp
qed

lemma heap_Push_spec:
  assumes "is_heap key h"
  shows "is_heap key (heap_Push key x h) \<and> mset (heap_Push key x h) = add_mset x (mset h)"
proof -
  let ?h = "h @ [x]" and ?n = "length h"
  have A: "\<forall>c<length ?h. 0 < c \<longrightarrow> c \<noteq> ?n \<longrightarrow> key (?h ! ((c - 1) div 2)) \<le> key (?h ! c)"
    using heap_fromD [OF assms] parent_less by (auto simp: nth_append)
  have "below key 0 ?n (length ?h) ?h" unfolding below_def using parent_less by (metis length_append_singleton less_Suc_eq less_asym' not_less_iff_gr_or_eq)
  from heap_up_spec [OF order.refl _ A this] show ?thesis by (simp add: heap_Push_def)
qed

lemma heap_Pop_spec:
  assumes h: "is_heap key h" "h \<noteq> []"
  shows "fst (heap_Pop key h) = hd h \<and> is_heap key (snd (heap_Pop key h)) \<and> mset h = add_mset (hd h) (mset (snd (heap_Pop key h)))"
proof -
  let ?n = "length h - 1" let ?s = "swap 0 ?n h" let ?d = "heap_down key 0 ?n ?s"
  have n: "?n < length h" "0 < length h" using h(2) by simp_all
  have "key (?s ! ((c - 1) div 2)) \<le> key (?s ! c)" if "c < ?n" "0 < c" "(c - 1) div 2 \<noteq> 0" for c
    using heap_fromD [OF h(1), of c] that parent_less [of c] n by (simp add: nth_swap)
  then have A: "\<forall>c<?n. 0 < c \<longrightarrow> 0 \<le> (c - 1) div 2 \<longrightarrow> (c - 1) div 2 \<noteq> 0 \<longrightarrow> key (?s ! ((c - 1) div 2)) \<le> key (?s ! c)" by blast
  have "below key 0 0 ?n ?s" "0 < ?n \<or> ?n \<le> 2 * 0 + 1" "?n \<le> length ?s" by (auto simp: below_def)
  from heap_down_spec [OF this(3,2) _ A this(1)] n
  have d: "heap_from key 0 ?n ?d" "mset ?d = mset h" "length ?d = length h" "?d ! ?n = ?s ! ?n" by (simp_all del: One_nat_def)
  have ne: "?d \<noteq> []" using d(3) h(2) by (metis length_0_conv)
  have l: "last ?d = hd h" using d(3,4) ne n by (simp add: last_conv_nth nth_swap hd_conv_nth)
  show ?thesis using d heap_butlast [of key ?d] mset_last_butlast [OF ne] l by (simp add: heap_Pop_def Let_def)
qed

lemma heap_Remove_spec:
  assumes h: "is_heap key h" "i < length h"
  shows "is_heap key (heap_Remove key i h) \<and> mset h = add_mset (h ! i) (mset (heap_Remove key i h))"
proof (cases "length h - 1 = i")
  case True
  have "h \<noteq> []" using h(2) by auto
  then show ?thesis using True mset_last_butlast [of h] heap_butlast [of key h] h(1)
    by (auto simp: heap_Remove_def last_conv_nth heap_from_def)
next
  case False
  let ?n = "length h - 1" let ?s = "swap i ?n h" let ?d = "heap_sift key i ?n ?s"
  have n: "i < ?n" "?n < length h" using False h(2) by auto
  have A: "\<forall>c<?n. 0 < c \<longrightarrow> c \<noteq> i \<longrightarrow> (c - 1) div 2 \<noteq> i \<longrightarrow> key (?s ! ((c - 1) div 2)) \<le> key (?s ! c)"
    using heap_fromD [OF h(1)] parent_less n by (auto simp: nth_swap)
  have B: "below key 0 i ?n ?s"
    unfolding below_def
  proof (intro allI impI)
    fix c assume c: "c < ?n" "0 < c" "(c - 1) div 2 = i" "0 < i"
    have p: "(i - 1) div 2 < i" "i < c" using parent_less c by auto
    have "key (h ! ((i - 1) div 2)) \<le> key (h ! i)" "key (h ! i) \<le> key (h ! c)"
      using heap_fromD [OF h(1), of i] heap_fromD [OF h(1), of c] c n by auto
    then show "key (?s ! ((i - 1) div 2)) \<le> key (?s ! c)" using p c n by (auto simp: nth_swap)
  qed
  from heap_sift_spec [OF _ n(1) A B] n have d: "heap_from key 0 ?n ?d" "mset ?d = mset h" "length ?d = length h" "?d ! ?n = ?s ! ?n" by auto
  have ne: "?d \<noteq> []" using d(3) n by auto
  have l: "last ?d = h ! i" using d(3,4) ne n by (simp add: last_conv_nth nth_swap)
  show ?thesis using d heap_butlast [of key ?d] mset_last_butlast [OF ne] l False by (simp add: heap_Remove_def Let_def)
qed

lemma heap_Fix_spec:
  assumes h: "is_heap key h" "i < length h"
  shows "is_heap key (heap_Fix key i (h[i := x])) \<and> mset (heap_Fix key i (h[i := x])) = mset (h[i := x])"
proof -
  let ?s = "h[i := x]" and ?n = "length h"
  have A: "\<forall>c<?n. 0 < c \<longrightarrow> c \<noteq> i \<longrightarrow> (c - 1) div 2 \<noteq> i \<longrightarrow> key (?s ! ((c - 1) div 2)) \<le> key (?s ! c)"
    using heap_fromD [OF h(1)] by simp
  have B: "below key 0 i ?n ?s"
    unfolding below_def
  proof (intro allI impI)
    fix c assume c: "c < ?n" "0 < c" "(c - 1) div 2 = i" "0 < i"
    have p: "(i - 1) div 2 < i" "i < c" using parent_less c by auto
    have "key (h ! ((i - 1) div 2)) \<le> key (h ! i)" "key (h ! i) \<le> key (h ! c)"
      using heap_fromD [OF h(1), of i] heap_fromD [OF h(1), of c] c h(2) by auto
    then show "key (?s ! ((i - 1) div 2)) \<le> key (?s ! c)" using p by auto
  qed
  show ?thesis using heap_sift_spec [OF _ h(2) A B] by (simp add: heap_Fix_def)
qed

interpretation hp: go_heap key "heap_Init key" "heap_Push key" "heap_Pop key" "heap_Remove key" "heap_Fix key" "is_heap key" for key :: "'a \<Rightarrow> 'k::linorder"
proof
  show "is_heap key []" by (simp add: heap_from_def)
  show "key (hd h) \<le> key y" if "is_heap key h" "y \<in> set h" for h y
    using that heap_root [OF that(1)] by (metis hd_conv_nth in_set_conv_nth length_pos_if_in_set length_greater_0_conv)
qed (rule heap_Init_spec heap_Push_spec heap_Pop_spec heap_Remove_spec heap_Fix_spec; assumption)+

end
