(* ===== verification/Tx_List.thy ===== *)
theory Tx_List
  imports Tx_Heap Zk_Processor
begin

text \<open>
  The lists of the transaction pool (\<open>core/tx_list.go\<close>): transactions by nonce with a heap of nonces and a cached order
  (\<open>txSortedMap\<close>), the list of an account (\<open>txList\<close>) and the transactions by price (\<open>txPricedList\<close>).

  A slice of pointers that may hold nil is a list of options. The standard library's sort is \<open>sort\<close>; the nonces it is
  applied to are different from each other. The map of all transactions, which the price list points to, is an argument.
\<close>

section \<open>Transactions by nonce\<close>

record txSortedMap =
  sm_items :: "(u64 \<times> Transaction) list"
  sm_index :: "u64 list"
  sm_cache :: "Transaction list option"

definition newTxSortedMap :: txSortedMap where
  "newTxSortedMap = \<lparr>sm_items = [], sm_index = [], sm_cache = None\<rparr>"

definition sm_Get :: "u64 \<Rightarrow> txSortedMap \<Rightarrow> Transaction option" where
  "sm_Get n m = mget (sm_items m) n"

definition sm_Put :: "Transaction \<Rightarrow> txSortedMap \<Rightarrow> txSortedMap" where
  "sm_Put tx m = (let n = tx_AccountNonce tx in
     m\<lparr>sm_index := (if sm_Get n m = None then heap_Push id n (sm_index m) else sm_index m),
       sm_items := mput n tx (sm_items m), sm_cache := None\<rparr>)"

fun forwardLoop :: "u64 \<Rightarrow> (u64 \<times> Transaction) list \<Rightarrow> u64 list \<Rightarrow> Transaction option list \<times> (u64 \<times> Transaction) list \<times> u64 list" where
  "forwardLoop threshold items index =
     (if index \<noteq> [] \<and> index ! 0 < threshold
      then let nonce = fst (heap_Pop id index);
               (removed, r) = forwardLoop threshold (mdel nonce items) (snd (heap_Pop id index))
        in (mget items nonce # removed, r)
      else ([], items, index))"

declare forwardLoop.simps [simp del]

definition sm_Forward :: "u64 \<Rightarrow> txSortedMap \<Rightarrow> (Transaction option list \<times> txSortedMap) res" where
  "sm_Forward threshold m =
     (let (removed, items, index) = forwardLoop threshold (sm_items m) (sm_index m); m = m\<lparr>sm_items := items, sm_index := index\<rparr> in
      case sm_cache m of
        None \<Rightarrow> Inr (removed, m)
      | Some c \<Rightarrow> if length c < length removed then Inl (Panic ''slice bounds out of range'')
          else Inr (removed, m\<lparr>sm_cache := Some (drop (length removed) c)\<rparr>))"

definition sm_Filter :: "(Transaction \<Rightarrow> bool) \<Rightarrow> txSortedMap \<Rightarrow> Transaction list \<times> txSortedMap" where
  "sm_Filter p m =
     (let removed = filter p (map snd (sm_items m)); items = filter (\<lambda>(n, tx). \<not> p tx) (sm_items m) in
      (removed, if removed \<noteq> [] then m\<lparr>sm_items := items, sm_index := heap_Init id (mkeys items), sm_cache := None\<rparr> else m))"

text \<open>The loop of \<open>Cap\<close> over a sorted index, from the last entry down.\<close>

fun capLoop :: "u64 list \<Rightarrow> nat \<Rightarrow> nat \<Rightarrow> (u64 \<times> Transaction) list \<Rightarrow> Transaction option list \<times> (u64 \<times> Transaction) list" where
  "capLoop index threshold 0 items = ([], items)"
| "capLoop index threshold (Suc k) items =
     (if Suc k > threshold
      then let n = index ! k; (drops, r) = capLoop index threshold k (mdel n items) in (mget items n # drops, r)
      else ([], items))"

definition sm_Cap :: "int \<Rightarrow> txSortedMap \<Rightarrow> (Transaction option list \<times> txSortedMap) res" where
  "sm_Cap threshold m =
     (if int (length (sm_items m)) \<le> threshold then Inr ([], m)
      else if threshold < 0 \<or> length (sm_index m) < length (sm_items m) then Inl (Panic ''index out of range'')
      else
        let index = sort (sm_index m); (drops, items) = capLoop index (nat threshold) (length (sm_items m)) (sm_items m);
            m = m\<lparr>sm_items := items, sm_index := heap_Init id (take (nat threshold) index)\<rparr>
        in case sm_cache m of
             None \<Rightarrow> Inr (drops, m)
           | Some c \<Rightarrow> if length c < length drops then Inl (Panic ''slice bounds out of range'')
               else Inr (drops, m\<lparr>sm_cache := Some (take (length c - length drops) c)\<rparr>))"

fun positionOf :: "'a \<Rightarrow> 'a list \<Rightarrow> nat option" where
  "positionOf x [] = None"
| "positionOf x (y # ys) = (if y = x then Some 0 else map_option Suc (positionOf x ys))"

definition sm_Remove :: "u64 \<Rightarrow> txSortedMap \<Rightarrow> bool \<times> txSortedMap" where
  "sm_Remove nonce m =
     (if \<not> mhas (sm_items m) nonce then (False, m)
      else (True, m\<lparr>sm_index := (case positionOf nonce (sm_index m) of Some i \<Rightarrow> heap_Remove id i (sm_index m) | None \<Rightarrow> sm_index m),
             sm_items := mdel nonce (sm_items m), sm_cache := None\<rparr>))"

fun readyLoop :: "u64 \<Rightarrow> (u64 \<times> Transaction) list \<Rightarrow> u64 list \<Rightarrow> Transaction option list \<times> (u64 \<times> Transaction) list \<times> u64 list" where
  "readyLoop next items index =
     (if index \<noteq> [] \<and> index ! 0 = next
      then let (ready, r) = readyLoop (next + 1) (mdel next items) (snd (heap_Pop id index)) in (mget items next # ready, r)
      else ([], items, index))"

declare readyLoop.simps [simp del]

definition sm_Ready :: "u64 \<Rightarrow> txSortedMap \<Rightarrow> Transaction option list \<times> txSortedMap" where
  "sm_Ready start m =
     (if sm_index m = [] \<or> sm_index m ! 0 > start then ([], m)
      else let (ready, items, index) = readyLoop (sm_index m ! 0) (sm_items m) (sm_index m)
        in (ready, m\<lparr>sm_items := items, sm_index := index, sm_cache := None\<rparr>))"

definition sm_Len :: "txSortedMap \<Rightarrow> int" where
  "sm_Len m = int (length (sm_items m))"

definition sm_Flatten :: "txSortedMap \<Rightarrow> Transaction list \<times> txSortedMap" where
  "sm_Flatten m = (case sm_cache m of
     Some c \<Rightarrow> (c, m)
   | None \<Rightarrow> let c = sort_key tx_AccountNonce (map snd (sm_items m)) in (c, m\<lparr>sm_cache := Some c\<rparr>))"

section \<open>The list of an account\<close>

record txList =
  tl_strict :: bool
  tl_txs :: txSortedMap
  tl_costcap :: int
  tl_gascap :: int

definition newTxList :: "bool \<Rightarrow> txList" where
  "newTxList strict = \<lparr>tl_strict = strict, tl_txs = newTxSortedMap, tl_costcap = 0, tl_gascap = 0\<rparr>"

definition tx_Cost :: "Transaction \<Rightarrow> int" where
  "tx_Cost tx = tx_Price tx * tx_GasLimit tx + tx_Amount tx"

definition tl_Overlaps :: "Transaction \<Rightarrow> txList \<Rightarrow> bool" where
  "tl_Overlaps tx l = (sm_Get (tx_AccountNonce tx) (tl_txs l) \<noteq> None)"

text \<open>The price that a transaction has to exceed to replace another one.\<close>

definition bumped :: "Transaction \<Rightarrow> u64 \<Rightarrow> int" where
  "bumped old priceBump = tx_Price old * sint (100 + priceBump) div 100"

definition tl_Add :: "Transaction \<Rightarrow> u64 \<Rightarrow> txList \<Rightarrow> (bool \<times> Transaction option) \<times> txList" where
  "tl_Add tx priceBump l =
     (let old = sm_Get (tx_AccountNonce tx) (tl_txs l) in
      if (case old of Some old \<Rightarrow> bumped old priceBump \<ge> tx_Price tx | None \<Rightarrow> False) then ((False, None), l)
      else ((True, old), l\<lparr>tl_txs := sm_Put tx (tl_txs l),
             tl_costcap := (if tl_costcap l < tx_Cost tx then tx_Cost tx else tl_costcap l),
             tl_gascap := (if tl_gascap l < tx_GasLimit tx then tx_GasLimit tx else tl_gascap l)\<rparr>))"

definition tl_Forward :: "u64 \<Rightarrow> txList \<Rightarrow> (Transaction option list \<times> txList) res" where
  "tl_Forward threshold l = bind_res (sm_Forward threshold (tl_txs l)) (\<lambda>(removed, m). Inr (removed, l\<lparr>tl_txs := m\<rparr>))"

definition tl_Filter :: "int \<Rightarrow> int \<Rightarrow> txList \<Rightarrow> (Transaction list \<times> Transaction list) \<times> txList" where
  "tl_Filter costLimit gasLimit l =
     (if tl_costcap l \<le> costLimit \<and> tl_gascap l \<le> gasLimit then (([], []), l)
      else
        let (removed, m) = sm_Filter (\<lambda>tx. tx_Cost tx > costLimit \<or> tx_GasLimit tx > gasLimit) (tl_txs l);
            l = l\<lparr>tl_costcap := costLimit, tl_gascap := gasLimit, tl_txs := m\<rparr>
        in if tl_strict l \<and> removed \<noteq> []
           then let lowest = fold (\<lambda>tx low. if low > tx_AccountNonce tx then tx_AccountNonce tx else low) removed (- 1);
                    (invalids, m) = sm_Filter (\<lambda>tx. tx_AccountNonce tx > lowest) m
             in ((removed, invalids), l\<lparr>tl_txs := m\<rparr>)
           else ((removed, []), l))"

definition tl_Cap :: "int \<Rightarrow> txList \<Rightarrow> (Transaction option list \<times> txList) res" where
  "tl_Cap threshold l = bind_res (sm_Cap threshold (tl_txs l)) (\<lambda>(drops, m). Inr (drops, l\<lparr>tl_txs := m\<rparr>))"

definition tl_Remove :: "Transaction \<Rightarrow> txList \<Rightarrow> (bool \<times> Transaction list) \<times> txList" where
  "tl_Remove tx l =
     (let nonce = tx_AccountNonce tx; (removed, m) = sm_Remove nonce (tl_txs l) in
      if \<not> removed then ((False, []), l)
      else if tl_strict l
      then let (invalids, m) = sm_Filter (\<lambda>tx. tx_AccountNonce tx > nonce) m in ((True, invalids), l\<lparr>tl_txs := m\<rparr>)
      else ((True, []), l\<lparr>tl_txs := m\<rparr>))"

definition tl_Ready :: "u64 \<Rightarrow> txList \<Rightarrow> Transaction option list \<times> txList" where
  "tl_Ready start l = (let (ready, m) = sm_Ready start (tl_txs l) in (ready, l\<lparr>tl_txs := m\<rparr>))"

definition tl_Len :: "txList \<Rightarrow> int" where
  "tl_Len l = sm_Len (tl_txs l)"

definition tl_Empty :: "txList \<Rightarrow> bool" where
  "tl_Empty l \<longleftrightarrow> tl_Len l = 0"

definition tl_Flatten :: "txList \<Rightarrow> Transaction list \<times> txList" where
  "tl_Flatten l = (let (txs, m) = sm_Flatten (tl_txs l) in (txs, l\<lparr>tl_txs := m\<rparr>))"

section \<open>Transactions by price\<close>

record txPricedList =
  pl_items :: "Transaction list"
  pl_stales :: int

definition newTxPricedList :: txPricedList where
  "newTxPricedList = \<lparr>pl_items = [], pl_stales = 0\<rparr>"

text \<open>
  The set of local accounts, with the signer that finds the sender of a transaction (the function \<open>types.Sender\<close> of that
  signer).
\<close>

record accountSet =
  as_accounts :: "address list"
  as_signer :: "Transaction \<Rightarrow> address option"

definition newAccountSet :: "(Transaction \<Rightarrow> address option) \<Rightarrow> accountSet" where
  "newAccountSet signer = \<lparr>as_accounts = [], as_signer = signer\<rparr>"

definition as_contains :: "address \<Rightarrow> accountSet \<Rightarrow> bool" where
  "as_contains a as \<longleftrightarrow> a \<in> set (as_accounts as)"

definition containsTx :: "accountSet \<Rightarrow> Transaction \<Rightarrow> bool" where
  "containsTx as tx = (case as_signer as tx of Some a \<Rightarrow> as_contains a as | None \<Rightarrow> False)"

definition as_add :: "address \<Rightarrow> accountSet \<Rightarrow> accountSet" where
  "as_add a as = as\<lparr>as_accounts := List.insert a (as_accounts as)\<rparr>"

definition pl_Put :: "Transaction \<Rightarrow> txPricedList \<Rightarrow> txPricedList" where
  "pl_Put tx l = l\<lparr>pl_items := heap_Push tx_Price tx (pl_items l)\<rparr>"

definition pl_Removed :: "(hash \<times> Transaction) list \<Rightarrow> txPricedList \<Rightarrow> txPricedList" where
  "pl_Removed all l =
     (let l = l\<lparr>pl_stales := pl_stales l + 1\<rparr> in
      if pl_stales l \<le> int (length (pl_items l)) div 4 then l
      else l\<lparr>pl_stales := 0, pl_items := heap_Init tx_Price (map snd all)\<rparr>)"

text \<open>The loop of \<open>Cap\<close>: the transactions to drop, those to keep, and what is left.\<close>

fun capPrices :: "(Transaction \<Rightarrow> bool) \<Rightarrow> int \<Rightarrow> accountSet \<Rightarrow> Transaction list \<Rightarrow> int
    \<Rightarrow> Transaction list \<times> Transaction list \<times> Transaction list \<times> int" where
  "capPrices known threshold locals items stales =
     (if items = [] then ([], [], items, stales)
      else let tx = fst (heap_Pop tx_Price items); items' = snd (heap_Pop tx_Price items) in
        if \<not> known tx then capPrices known threshold locals items' (stales - 1)
        else if tx_Price tx \<ge> threshold then ([], [], items', stales)
        else let (drop, save, r) = capPrices known threshold locals items' stales in
          if containsTx locals tx then (drop, tx # save, r) else (tx # drop, save, r))"

declare capPrices.simps [simp del]

definition pl_Cap :: "(Transaction \<Rightarrow> hash) \<Rightarrow> (hash \<times> Transaction) list \<Rightarrow> int \<Rightarrow> accountSet \<Rightarrow> txPricedList \<Rightarrow> Transaction list \<times> txPricedList" where
  "pl_Cap H all threshold locals l =
     (let (drop, save, items, stales) = capPrices (\<lambda>tx. mhas all (H tx)) threshold locals (pl_items l) (pl_stales l)
      in (drop, \<lparr>pl_items = fold (heap_Push tx_Price) save items, pl_stales = stales\<rparr>))"

fun dropStale :: "(Transaction \<Rightarrow> bool) \<Rightarrow> Transaction list \<Rightarrow> int \<Rightarrow> Transaction list \<times> int" where
  "dropStale known items stales =
     (if items \<noteq> [] \<and> \<not> known (items ! 0) then dropStale known (snd (heap_Pop tx_Price items)) (stales - 1) else (items, stales))"

declare dropStale.simps [simp del]

definition pl_Underpriced :: "(Transaction \<Rightarrow> hash) \<Rightarrow> (hash \<times> Transaction) list \<Rightarrow> Transaction \<Rightarrow> accountSet \<Rightarrow> txPricedList \<Rightarrow> bool \<times> txPricedList" where
  "pl_Underpriced H all tx locals l =
     (if containsTx locals tx then (False, l)
      else let (items, stales) = dropStale (\<lambda>tx. mhas all (H tx)) (pl_items l) (pl_stales l); l = \<lparr>pl_items = items, pl_stales = stales\<rparr> in
        (if items = [] then False else tx_Price (items ! 0) \<ge> tx_Price tx, l))"

fun discardPrices :: "(Transaction \<Rightarrow> bool) \<Rightarrow> int \<Rightarrow> accountSet \<Rightarrow> Transaction list \<Rightarrow> int
    \<Rightarrow> Transaction list \<times> Transaction list \<times> Transaction list \<times> int" where
  "discardPrices known howMany locals items stales =
     (if items = [] \<or> howMany \<le> 0 then ([], [], items, stales)
      else let tx = fst (heap_Pop tx_Price items); items' = snd (heap_Pop tx_Price items) in
        if \<not> known tx then discardPrices known howMany locals items' (stales - 1)
        else if containsTx locals tx
        then let (drop, save, r) = discardPrices known howMany locals items' stales in (drop, tx # save, r)
        else let (drop, save, r) = discardPrices known (howMany - 1) locals items' stales in (tx # drop, save, r))"

declare discardPrices.simps [simp del]

definition pl_Discard :: "(Transaction \<Rightarrow> hash) \<Rightarrow> (hash \<times> Transaction) list \<Rightarrow> int \<Rightarrow> accountSet \<Rightarrow> txPricedList \<Rightarrow> Transaction list \<times> txPricedList" where
  "pl_Discard H all howMany locals l =
     (let (drop, save, items, stales) = discardPrices (\<lambda>tx. mhas all (H tx)) howMany locals (pl_items l) (pl_stales l)
      in (drop, \<lparr>pl_items = fold (heap_Push tx_Price) save items, pl_stales = stales\<rparr>))"

end
