(* ===== verification/Tx_Sorted.thy ===== *)
theory Tx_Sorted
  imports Tx_List
begin

text \<open>
  The map of transactions by nonce implements a list of transactions in the order of their nonces: every operation
  is one on that list.
\<close>

section \<open>The list behind the map\<close>

definition ordered :: "(u64 \<times> Transaction) list \<Rightarrow> Transaction list" where
  "ordered items = sort_key tx_AccountNonce (map snd items)"

lemma set_ordered [simp]: "set (ordered items) = snd ` set items"
  by (simp add: ordered_def)

lemma mset_ordered: "mset (ordered items) = mset (map snd items)"
  by (simp add: ordered_def)

lemma sorted_ordered [simp]: "sorted (map tx_AccountNonce (ordered items))"
  by (simp add: ordered_def)

lemma length_ordered [simp]: "length (ordered items) = length items"
  by (simp add: ordered_def)

lemma ordered_Nil [simp]: "ordered [] = []"
  by (simp add: ordered_def)

definition inOrder :: "txSortedMap \<Rightarrow> Transaction list" where
  "inOrder m = ordered (sm_items m)"

text \<open>The items are stored under their nonces, the index has the same nonces, and a cached order is the order.\<close>

definition keyed :: "(u64 \<times> Transaction) list \<Rightarrow> bool" where
  "keyed items \<longleftrightarrow> distinct (mkeys items) \<and> (\<forall>(n, tx)\<in>set items. tx_AccountNonce tx = n)"

definition indexed :: "(u64 \<times> Transaction) list \<Rightarrow> u64 list \<Rightarrow> bool" where
  "indexed items index \<longleftrightarrow> keyed items \<and> is_heap id index \<and> mset index = mset (mkeys items)"

definition sm_ok :: "txSortedMap \<Rightarrow> bool" where
  "sm_ok m \<longleftrightarrow> indexed (sm_items m) (sm_index m) \<and> (\<forall>c. sm_cache m = Some c \<longrightarrow> c = inOrder m)"

lemma keyed_nonces: "keyed items \<Longrightarrow> map tx_AccountNonce (map snd items) = mkeys items"
  by (auto simp: keyed_def mkeys_def)

lemma keyed_get: "keyed items \<Longrightarrow> mget items n = Some tx \<longleftrightarrow> tx \<in> set (map snd items) \<and> tx_AccountNonce tx = n"
  by (force simp: keyed_def mget_def mkeys_def)

lemma keyed_distinct: "keyed items \<Longrightarrow> distinct (map tx_AccountNonce (map snd items))"
  using keyed_nonces [of items] by (simp add: keyed_def)

lemma keyed_inj: "keyed items \<Longrightarrow> inj_on tx_AccountNonce (set (map snd items))"
  using keyed_distinct [of items] unfolding distinct_map [of tx_AccountNonce] by blast

lemma nonces_ordered: "keyed items \<Longrightarrow> map tx_AccountNonce (ordered items) = sort (mkeys items)"
proof (rule properties_for_sort [symmetric])
  assume k: "keyed items"
  show "mset (map tx_AccountNonce (ordered items)) = mset (mkeys items)"
    unfolding mset_map mset_ordered keyed_nonces [OF k, symmetric] by (rule refl)
qed simp

lemma ordered_distinct: "keyed items \<Longrightarrow> distinct (map tx_AccountNonce (ordered items))"
  unfolding nonces_ordered by (simp add: keyed_def)

text \<open>Two lists in the order of different nonces with the same transactions are equal.\<close>

lemma ordered_unique:
  assumes "keyed items" and "mset xs = mset (map snd items)" and "sorted (map tx_AccountNonce xs)"
  shows "ordered items = xs"
  using sort_key_inj_key_eq [OF assms(2) [symmetric] keyed_inj [OF assms(1)] assms(3)] by (simp add: ordered_def)

section \<open>Single entries\<close>

lemma keyed_del: "keyed items \<Longrightarrow> keyed (mdel n items)"
  by (auto simp: keyed_def mdel_def AList.delete_eq mkeys_def intro!: distinct_map_filter)

lemma snd_del: "keyed items \<Longrightarrow> map snd (mdel n items) = filter (\<lambda>tx. tx_AccountNonce tx \<noteq> n) (map snd items)"
  by (auto simp: keyed_def mdel_def AList.delete_eq filter_map intro!: arg_cong [where f = "map snd"] filter_cong)

lemma ordered_del: "keyed items \<Longrightarrow> ordered (mdel n items) = filter (\<lambda>tx. tx_AccountNonce tx \<noteq> n) (ordered items)"
  by (simp only: ordered_def snd_del filter_sort)

lemma mkeys_del: "mkeys (mdel n items) = filter (\<lambda>k. k \<noteq> n) (mkeys items)"
  by (induction items) (auto simp: mkeys_def mdel_def)

lemma filter_add_mset_distinct: "distinct xs \<Longrightarrow> mset xs = add_mset x M \<Longrightarrow> mset (filter (\<lambda>k. k \<noteq> x) xs) = M"
proof -
  assume d: "distinct xs" and m: "mset xs = add_mset x M"
  have "count (mset xs) x \<le> 1" using d by (simp add: distinct_count_atmost_1)
  then have "x \<notin># M" using m by (auto simp: count_eq_zero_iff)
  then show ?thesis using m by (auto simp: filter_mset_eq_conv)
qed

lemma indexed_pop:
  assumes "indexed items index" and ne: "index \<noteq> []"
  obtains tx rest where "ordered items = tx # rest" "tx_AccountNonce tx = index ! 0" "mget items (index ! 0) = Some tx"
    "indexed (mdel (index ! 0) items) (snd (heap_Pop id index))" "ordered (mdel (index ! 0) items) = rest" "fst (heap_Pop id index) = index ! 0"
proof -
  have k: "keyed items" and h: "is_heap id index" and m: "mset index = mset (mkeys items)" using assms(1) by (simp_all add: indexed_def)
  note p = hp.heap_pop [OF h ne]
  have hd: "hd index = index ! 0" using ne by (simp add: hd_conv_nth)
  have "\<forall>y\<in>set (snd (heap_Pop id index)). index ! 0 \<le> y"
    using hp.heap_top [OF h] p hd by (metis id_apply insertCI set_mset_add_mset_insert set_mset_mset)
  then have s: "sort (mkeys items) = index ! 0 # sort (snd (heap_Pop id index))"
    using p m hd by (intro properties_for_sort) simp_all
  then obtain tx rest where o: "ordered items = tx # rest" "tx_AccountNonce tx = index ! 0" using nonces_ordered [OF k] by (metis map_eq_Cons_D)
  have "tx \<in> set (ordered items)" using o by simp
  then have g: "mget items (index ! 0) = Some tx" using keyed_get [OF k] o(2) by simp
  have "distinct (map tx_AccountNonce (tx # rest))" using ordered_distinct [OF k] o(1) by simp
  then have r: "filter (\<lambda>tx. tx_AccountNonce tx \<noteq> index ! 0) (tx # rest) = rest" using o(2) by (force simp: filter_id_conv)
  have "distinct (mkeys items)" using k by (simp add: keyed_def)
  from filter_add_mset_distinct [OF this, of "index ! 0" "mset (snd (heap_Pop id index))"] p m hd
  have "indexed (mdel (index ! 0) items) (snd (heap_Pop id index))" using keyed_del [OF k] by (simp add: indexed_def mkeys_del)
  then show thesis using that [OF o(1) o(2) g] ordered_del [OF k] o(1) r p hd by simp
qed

section \<open>The operations\<close>

lemma sm_ok_new: "sm_ok newTxSortedMap" "inOrder newTxSortedMap = []"
  by (simp_all add: sm_ok_def newTxSortedMap_def indexed_def keyed_def inOrder_def heap_from_def)

lemma sm_okD:
  assumes "sm_ok m"
  shows "keyed (sm_items m)" "indexed (sm_items m) (sm_index m)" "sm_cache m = Some c \<Longrightarrow> c = inOrder m"
  using assms by (auto simp: sm_ok_def indexed_def)

lemma sm_Get_inOrder:
  assumes "sm_ok m"
  shows "sm_Get n m = find (\<lambda>tx. tx_AccountNonce tx = n) (inOrder m)"
proof (cases "sm_Get n m")
  case None
  have "mget (sm_items m) n \<noteq> Some tx" for tx using None by (simp add: sm_Get_def)
  then have "\<forall>tx\<in>set (inOrder m). tx_AccountNonce tx \<noteq> n" using keyed_get [OF sm_okD(1) [OF assms]] by (auto simp: inOrder_def)
  then have "find (\<lambda>tx. tx_AccountNonce tx = n) (inOrder m) = None" by (auto simp: find_None_iff)
  then show ?thesis using None by simp
next
  case (Some tx)
  then have t: "tx \<in> set (inOrder m)" "tx_AccountNonce tx = n" using keyed_get [OF sm_okD(1) [OF assms]] by (auto simp: inOrder_def sm_Get_def)
  then obtain tx' where f: "find (\<lambda>tx. tx_AccountNonce tx = n) (inOrder m) = Some tx'" by (cases "find (\<lambda>tx. tx_AccountNonce tx = n) (inOrder m)") (auto simp: find_None_iff)
  then have "tx' \<in> set (inOrder m)" "tx_AccountNonce tx' = n" by (auto simp: find_Some_iff)
  then show ?thesis using keyed_inj [OF sm_okD(1) [OF assms]] t f Some by (auto simp: inj_on_def inOrder_def)
qed

lemma snd_put: "keyed items \<Longrightarrow> mset (map snd (mput (tx_AccountNonce tx) tx items)) =
    add_mset tx (mset (filter (\<lambda>t. tx_AccountNonce t \<noteq> tx_AccountNonce tx) (map snd items)))"
proof (induction items)
  case (Cons p items)
  obtain n t where p: "p = (n, t)" by fastforce
  have k: "keyed items" "tx_AccountNonce t = n" "n \<notin> set (mkeys items)" using Cons.prems by (auto simp: keyed_def p mkeys_def)
  have "filter (\<lambda>t. tx_AccountNonce t \<noteq> n) (map snd items) = map snd items"
    using keyed_nonces [OF k(1)] k(3) by (auto simp: filter_id_conv simp flip: keyed_nonces [OF k(1)])
  then show ?case using Cons.IH [OF k(1)] k(2) by (cases "n = tx_AccountNonce tx") (simp_all add: p mput_def del: mset_map mset_filter)
qed (simp add: mput_def)

lemma keyed_put: "keyed items \<Longrightarrow> keyed (mput (tx_AccountNonce tx) tx items)"
proof -
  assume k: "keyed items"
  have "set (mput (tx_AccountNonce tx) tx items) \<subseteq> insert (tx_AccountNonce tx, tx) (set items)"
    by (induction items) (auto simp: mput_def)
  then show ?thesis using k by (auto simp: keyed_def)
qed

lemma mset_insort_by: "mset (insort_key f x xs) = add_mset x (mset xs)"
  by (induction xs) simp_all

lemma sm_Put_spec:
  assumes ok: "sm_ok m"
  shows "sm_ok (sm_Put tx m) \<and> inOrder (sm_Put tx m) = insort_key tx_AccountNonce tx (filter (\<lambda>t. tx_AccountNonce t \<noteq> tx_AccountNonce tx) (inOrder m))"
proof -
  let ?n = "tx_AccountNonce tx" and ?items = "sm_items m"
  note k = sm_okD(1,2) [OF ok]
  have kp: "keyed (mput ?n tx ?items)" using keyed_put [OF k(1)] .
  have m: "mset (mkeys (mput ?n tx ?items)) = (if mget ?items ?n = None then add_mset ?n (mset (mkeys ?items)) else mset (mkeys ?items))"
    by (auto simp: mget_def mput_def mkeys_def update_keys map_of_eq_None_iff)
  have "indexed (sm_items (sm_Put tx m)) (sm_index (sm_Put tx m))"
    using kp m k(2) hp.heap_push [of id "sm_index m" ?n] by (auto simp: indexed_def sm_Put_def Let_def sm_Get_def)
  moreover have "ordered (mput ?n tx ?items) = insort_key tx_AccountNonce tx (filter (\<lambda>t. tx_AccountNonce t \<noteq> ?n) (ordered ?items))"
  proof (rule ordered_unique [OF kp])
    show "mset (insort_key tx_AccountNonce tx (filter (\<lambda>t. tx_AccountNonce t \<noteq> ?n) (ordered ?items))) = mset (map snd (mput ?n tx ?items))"
      unfolding snd_put [OF k(1)] mset_insort_by mset_filter mset_ordered by (rule refl)
    show "sorted (map tx_AccountNonce (insort_key tx_AccountNonce tx (filter (\<lambda>t. tx_AccountNonce t \<noteq> ?n) (ordered ?items))))"
      by (simp add: sorted_insort_key sorted_filter)
  qed
  ultimately show ?thesis by (simp add: sm_ok_def inOrder_def sm_Put_def Let_def)
qed

lemma forwardLoop_spec:
  assumes "indexed items index"
  shows "\<exists>items' index'. forwardLoop t items index = (map Some (takeWhile (\<lambda>tx. tx_AccountNonce tx < t) (ordered items)), items', index') \<and>
    indexed items' index' \<and> ordered items' = dropWhile (\<lambda>tx. tx_AccountNonce tx < t) (ordered items)"
  using assms
proof (induction t items index rule: forwardLoop.induct)
  case (1 t items index)
  show ?case
  proof (cases "index = []")
    case True
    then have "items = []" using 1(2) by (auto simp: indexed_def mkeys_def)
    then show ?thesis using True 1(2) by (simp add: forwardLoop.simps)
  next
    case False
    from indexed_pop [OF 1(2) False] obtain tx rest where
      p: "ordered items = tx # rest" "tx_AccountNonce tx = index ! 0" "mget items (index ! 0) = Some tx"
        "indexed (mdel (index ! 0) items) (snd (heap_Pop id index))" "ordered (mdel (index ! 0) items) = rest" "fst (heap_Pop id index) = index ! 0" .
    show ?thesis
    proof (cases "index ! 0 < t")
      case True
      have c: "index \<noteq> [] \<and> index ! 0 < t" using True False by simp
      from "1.IH" [OF c p(6) [symmetric] p(4)] obtain items' index' where
        f: "forwardLoop t (mdel (index ! 0) items) (snd (heap_Pop id index)) = (map Some (takeWhile (\<lambda>tx. tx_AccountNonce tx < t) rest), items', index')"
        "indexed items' index'" "ordered items' = dropWhile (\<lambda>tx. tx_AccountNonce tx < t) rest" unfolding p(5) by blast
      have "forwardLoop t items index = (Some tx # map Some (takeWhile (\<lambda>tx. tx_AccountNonce tx < t) rest), items', index')"
        by (subst forwardLoop.simps) (simp add: c p(3,6) f(1))
      then show ?thesis using f(2,3) True unfolding p(1) by (auto simp: p(2))
    next
      case ge: False
      then show ?thesis using False p 1(2) by (simp add: forwardLoop.simps [of t items index])
    qed
  qed
qed

lemma sm_Forward_spec:
  assumes ok: "sm_ok m"
  shows "\<exists>m'. sm_Forward t m = Inr (map Some (takeWhile (\<lambda>tx. tx_AccountNonce tx < t) (inOrder m)), m') \<and> sm_ok m' \<and>
    inOrder m' = dropWhile (\<lambda>tx. tx_AccountNonce tx < t) (inOrder m)"
proof -
  let ?P = "\<lambda>tx. tx_AccountNonce tx < t" and ?L = "inOrder m"
  from forwardLoop_spec [OF sm_okD(2) [OF ok], of t] obtain items' index' where
    f: "forwardLoop t (sm_items m) (sm_index m) = (map Some (takeWhile ?P ?L), items', index')" "indexed items' index'" "ordered items' = dropWhile ?P ?L"
    unfolding inOrder_def by blast
  have d: "drop (length (takeWhile ?P ?L)) ?L = dropWhile ?P ?L" by (simp add: dropWhile_eq_drop)
  show ?thesis
  proof (cases "sm_cache m")
    case None
    then show ?thesis using f by (auto simp: sm_Forward_def sm_ok_def inOrder_def)
  next
    case (Some c)
    then have c: "c = ?L" using sm_okD(3) [OF ok] by blast
    then show ?thesis using f Some d length_takeWhile_le [of ?P ?L]
      by (auto simp: sm_Forward_def sm_ok_def inOrder_def not_less)
  qed
qed

lemma sm_Filter_spec:
  assumes ok: "sm_ok m"
  shows "sm_ok (snd (sm_Filter p m)) \<and> inOrder (snd (sm_Filter p m)) = filter (\<lambda>tx. \<not> p tx) (inOrder m) \<and>
    mset (fst (sm_Filter p m)) = mset (filter p (inOrder m))"
proof -
  let ?items = "filter (\<lambda>(n, tx). \<not> p tx) (sm_items m)"
  note k = sm_okD(1,2) [OF ok]
  have ki: "keyed ?items" using k(1) by (auto simp: keyed_def mkeys_def intro!: distinct_map_filter)
  have sn: "map snd ?items = filter (\<lambda>tx. \<not> p tx) (map snd (sm_items m))" by (simp add: filter_map case_prod_unfold comp_def)
  have o: "ordered ?items = filter (\<lambda>tx. \<not> p tx) (inOrder m)" unfolding ordered_def inOrder_def sn by (simp add: filter_sort)
  have same: "filter (\<lambda>tx. \<not> p tx) (inOrder m) = inOrder m" if "filter p (map snd (sm_items m)) = []"
    using that by (force simp: filter_id_conv filter_empty_conv inOrder_def)
  have "mset (filter p (map snd (sm_items m))) = mset (filter p (inOrder m))" unfolding mset_filter inOrder_def mset_ordered by (rule refl)
  moreover have "indexed ?items (heap_Init id (mkeys ?items))" using ki hp.heap_init by (auto simp: indexed_def)
  ultimately show ?thesis using o same ok by (auto simp: sm_Filter_def Let_def sm_ok_def inOrder_def)
qed

lemma capLoop_spec:
  assumes "keyed items" and "ordered items = take k L" and "k \<le> length L" and "index = map tx_AccountNonce L" and "distinct index"
  shows "\<exists>items'. capLoop index t k items = (map Some (rev (drop t (take k L))), items') \<and> keyed items' \<and> ordered items' = take t (take k L)"
  using assms
proof (induction k arbitrary: items)
  case (Suc k)
  show ?case
  proof (cases "Suc k > t")
    case True
    let ?n = "index ! k"
    have o: "ordered items = take k L @ [L ! k]" "?n = tx_AccountNonce (L ! k)" using Suc.prems by (simp_all add: take_Suc_conv_app_nth)
    have "L ! k \<in> set (ordered items)" using o(1) by simp
    then have g: "mget items ?n = Some (L ! k)" using keyed_get [OF Suc.prems(1)] o(2) by simp
    have "distinct (map tx_AccountNonce (take k L @ [L ! k]))" using ordered_distinct [OF Suc.prems(1)] o(1) by simp
    then have "ordered (mdel ?n items) = take k L" unfolding ordered_del [OF Suc.prems(1)] o
      by (auto simp: filter_id_conv) (metis (mono_tags, lifting) image_eqI)
    from Suc.IH [OF keyed_del [OF Suc.prems(1)] this] Suc.prems(3-5) obtain items' where
      i: "capLoop index t k (mdel ?n items) = (map Some (rev (drop t (take k L))), items')" "keyed items'" "ordered items' = take t (take k L)" by auto
    have "drop t (take (Suc k) L) = drop t (take k L) @ [L ! k]" "take t (take (Suc k) L) = take t (take k L)"
      using True Suc.prems(3) by (simp_all add: take_Suc_conv_app_nth)
    then show ?thesis using i g True by simp
  qed (use Suc.prems in \<open>auto simp: min_def\<close>)
qed simp

lemma sm_Cap_spec:
  assumes ok: "sm_ok m" and t: "0 \<le> t"
  shows "\<exists>m'. sm_Cap t m = Inr (map Some (rev (drop (nat t) (inOrder m))), m') \<and> sm_ok m' \<and> inOrder m' = take (nat t) (inOrder m)"
proof (cases "int (length (sm_items m)) \<le> t")
  case True
  then show ?thesis using ok by (simp add: sm_Cap_def inOrder_def nat_le_iff le_nat_iff)
next
  case False
  let ?L = "inOrder m" and ?t = "nat t"
  note k = sm_okD(1,2) [OF ok]
  have m: "mset (sm_index m) = mset (mkeys (sm_items m))" using k(2) by (simp add: indexed_def)
  then have len: "length (sm_index m) = length (sm_items m)" by (metis mset_eq_length mkeys_def length_map)
  have idx: "sort (sm_index m) = map tx_AccountNonce ?L" unfolding inOrder_def nonces_ordered [OF k(1)]
    by (rule properties_for_sort) (simp_all add: m)
  have d: "distinct (map tx_AccountNonce ?L)" unfolding inOrder_def by (rule ordered_distinct [OF k(1)])
  from capLoop_spec [OF k(1) _ _ idx, of "length (sm_items m)" ?t] d idx obtain items' where
    c: "capLoop (sort (sm_index m)) ?t (length (sm_items m)) (sm_items m) = (map Some (rev (drop ?t ?L)), items')" "keyed items'" "ordered items' = take ?t ?L"
    by (auto simp: inOrder_def)
  have "mset (take ?t (sort (sm_index m))) = mset (mkeys items')"
    unfolding idx take_map c(3) [symmetric] nonces_ordered [OF c(2)] by simp
  then have i: "indexed items' (heap_Init id (take ?t (sort (sm_index m))))" using c(2) hp.heap_init by (auto simp: indexed_def)
  show ?thesis
  proof (cases "sm_cache m")
    case None
    then show ?thesis using False t len c i by (auto simp: sm_Cap_def sm_ok_def inOrder_def Let_def)
  next
    case (Some l)
    then have "l = ?L" using sm_okD(3) [OF ok] by blast
    then show ?thesis using Some False t len c i by (auto simp: sm_Cap_def sm_ok_def inOrder_def Let_def)
  qed
qed

lemma positionOf_Some: "x \<in> set xs \<Longrightarrow> \<exists>i. positionOf x xs = Some i \<and> i < length xs \<and> xs ! i = x"
  by (induction xs) auto

lemma sm_Remove_spec:
  assumes ok: "sm_ok m"
  shows "fst (sm_Remove n m) = (n \<in> tx_AccountNonce ` set (inOrder m)) \<and> sm_ok (snd (sm_Remove n m)) \<and>
    inOrder (snd (sm_Remove n m)) = filter (\<lambda>tx. tx_AccountNonce tx \<noteq> n) (inOrder m)"
proof -
  note k = sm_okD(1,2) [OF ok]
  have keys: "set (mkeys (sm_items m)) = tx_AccountNonce ` set (inOrder m)"
    unfolding keyed_nonces [OF k(1), symmetric] by (simp add: inOrder_def image_image)
  show ?thesis
  proof (cases "mhas (sm_items m) n")
    case False
    then have "\<forall>tx\<in>set (inOrder m). tx_AccountNonce tx \<noteq> n" using keys by (auto simp: mhas_iff)
    then show ?thesis using False ok keys by (auto simp: sm_Remove_def mhas_iff filter_id_conv)
  next
    case True
    have m: "mset (sm_index m) = mset (mkeys (sm_items m))" "is_heap id (sm_index m)" using k(2) by (simp_all add: indexed_def)
    then have "n \<in> set (sm_index m)" using True by (metis mhas_iff set_mset_mset)
    then obtain i where i: "positionOf n (sm_index m) = Some i" "i < length (sm_index m)" "sm_index m ! i = n" using positionOf_Some by fastforce
    note r = hp.heap_remove [OF m(2) i(2)]
    have "distinct (mkeys (sm_items m))" using k(1) by (simp add: keyed_def)
    from filter_add_mset_distinct [OF this, of n "mset (heap_Remove id i (sm_index m))"] r m(1) i(3)
    have "indexed (mdel n (sm_items m)) (heap_Remove id i (sm_index m))" using keyed_del [OF k(1)] r by (simp add: indexed_def mkeys_del)
    then show ?thesis using True i keys ordered_del [OF k(1)] by (auto simp: sm_Remove_def sm_ok_def inOrder_def mhas_iff)
  qed
qed

text \<open>The transactions at the front of a list whose nonces follow each other, from a nonce on.\<close>

fun runFrom :: "u64 \<Rightarrow> Transaction list \<Rightarrow> Transaction list" where
  "runFrom n [] = []"
| "runFrom n (tx # txs) = (if tx_AccountNonce tx = n then tx # runFrom (n + 1) txs else [])"

lemma readyLoop_spec:
  assumes "indexed items index"
  shows "\<exists>items' index'. readyLoop n items index = (map Some (runFrom n (ordered items)), items', index') \<and>
    indexed items' index' \<and> ordered items' = drop (length (runFrom n (ordered items))) (ordered items)"
  using assms
proof (induction n items index rule: readyLoop.induct)
  case (1 n items index)
  show ?case
  proof (cases "index = []")
    case True
    then have "items = []" using 1(2) by (auto simp: indexed_def mkeys_def)
    then show ?thesis using True 1(2) by (simp add: readyLoop.simps)
  next
    case False
    from indexed_pop [OF 1(2) False] obtain tx rest where
      p: "ordered items = tx # rest" "tx_AccountNonce tx = index ! 0" "mget items (index ! 0) = Some tx"
        "indexed (mdel (index ! 0) items) (snd (heap_Pop id index))" "ordered (mdel (index ! 0) items) = rest" .
    show ?thesis
    proof (cases "index ! 0 = n")
      case True
      have c: "index \<noteq> [] \<and> index ! 0 = n" using True False by simp
      from "1.IH" [OF c] p(4) True obtain items' index' where
        f: "readyLoop (n + 1) (mdel n items) (snd (heap_Pop id index)) = (map Some (runFrom (n + 1) rest), items', index')"
        "indexed items' index'" "ordered items' = drop (length (runFrom (n + 1) rest)) rest" unfolding p(5) [unfolded True] by blast
      have "readyLoop n items index = (Some tx # map Some (runFrom (n + 1) rest), items', index')"
        by (subst readyLoop.simps) (use p(3) True in \<open>simp add: c f(1)\<close>)
      then show ?thesis using f(2,3) True unfolding p(1) by (auto simp: p(2))
    next
      case ne: False
      have "readyLoop n items index = ([], items, index)" by (subst readyLoop.simps) (use ne in simp)
      then show ?thesis using ne 1(2) p(1,2) by auto
    qed
  qed
qed

lemma indexed_hd:
  assumes "indexed items index"
  shows "index = [] \<longleftrightarrow> ordered items = []" "index \<noteq> [] \<Longrightarrow> index ! 0 = tx_AccountNonce (hd (ordered items))"
proof -
  have "length index = length items" using assms by (metis indexed_def mkeys_def length_map mset_eq_length)
  then show "index = [] \<longleftrightarrow> ordered items = []" by (metis length_0_conv length_ordered)
  assume "index \<noteq> []"
  from indexed_pop [OF assms this] show "index ! 0 = tx_AccountNonce (hd (ordered items))" by (metis list.sel(1))
qed

definition readyFrom :: "u64 \<Rightarrow> Transaction list \<Rightarrow> Transaction list" where
  "readyFrom start L = (if L = [] \<or> tx_AccountNonce (hd L) > start then [] else runFrom (tx_AccountNonce (hd L)) L)"

lemma sm_Ready_spec:
  assumes ok: "sm_ok m"
  shows "fst (sm_Ready start m) = map Some (readyFrom start (inOrder m)) \<and> sm_ok (snd (sm_Ready start m)) \<and>
    inOrder (snd (sm_Ready start m)) = drop (length (readyFrom start (inOrder m))) (inOrder m)"
proof -
  note h = indexed_hd [OF sm_okD(2) [OF ok]]
  show ?thesis
  proof (cases "sm_index m = [] \<or> sm_index m ! 0 > start")
    case True
    then show ?thesis using h ok by (auto simp: sm_Ready_def readyFrom_def inOrder_def)
  next
    case False
    then have r: "readyFrom start (inOrder m) = runFrom (sm_index m ! 0) (inOrder m)" using h by (auto simp: readyFrom_def inOrder_def)
    from readyLoop_spec [OF sm_okD(2) [OF ok], of "sm_index m ! 0"] obtain items' index' where
      "readyLoop (sm_index m ! 0) (sm_items m) (sm_index m) = (map Some (runFrom (sm_index m ! 0) (inOrder m)), items', index')"
      "indexed items' index'" "ordered items' = drop (length (runFrom (sm_index m ! 0) (inOrder m))) (inOrder m)" unfolding inOrder_def by blast
    then show ?thesis unfolding r using False by (simp add: sm_Ready_def sm_ok_def inOrder_def)
  qed
qed

lemma sm_Flatten_spec:
  assumes ok: "sm_ok m"
  shows "fst (sm_Flatten m) = inOrder m \<and> sm_ok (snd (sm_Flatten m)) \<and> inOrder (snd (sm_Flatten m)) = inOrder m"
  using ok sm_okD(3) [OF ok] by (cases "sm_cache m") (auto simp: sm_Flatten_def Let_def sm_ok_def inOrder_def ordered_def)

section \<open>The list of an account\<close>

definition tl_ok :: "txList \<Rightarrow> bool" where
  "tl_ok l \<longleftrightarrow> sm_ok (tl_txs l) \<and> (\<forall>tx\<in>set (inOrder (tl_txs l)). tx_Cost tx \<le> tl_costcap l \<and> tx_GasLimit tx \<le> tl_gascap l)"

definition tooDear :: "int \<Rightarrow> int \<Rightarrow> Transaction \<Rightarrow> bool" where
  "tooDear costLimit gasLimit tx \<longleftrightarrow> tx_Cost tx > costLimit \<or> tx_GasLimit tx > gasLimit"

lemma fold_lowest:
  fixes low :: u64 and txs :: "Transaction list"
  defines "r \<equiv> fold (\<lambda>tx low. if low > tx_AccountNonce tx then tx_AccountNonce tx else low) txs low"
  shows "r \<le> low \<and> (\<forall>tx\<in>set txs. r \<le> tx_AccountNonce tx) \<and> (r = low \<or> (\<exists>tx\<in>set txs. r = tx_AccountNonce tx))"
  unfolding r_def
proof (induction txs arbitrary: low)
  case (Cons tx txs)
  show ?case using Cons.IH [of "if low > tx_AccountNonce tx then tx_AccountNonce tx else low"] by (force split: if_splits)
qed simp

lemma tl_Add_ok:
  assumes "tl_ok l"
  shows "tl_ok (snd (tl_Add tx bump l))"
proof -
  have "set (inOrder (sm_Put tx (tl_txs l))) \<subseteq> insert tx (set (inOrder (tl_txs l)))"
    using sm_Put_spec [of "tl_txs l" tx] assms by (auto simp: tl_ok_def set_insort_key)
  then show ?thesis using assms sm_Put_spec [of "tl_txs l" tx]
    by (fastforce simp: tl_ok_def tl_Add_def Let_def)
qed

text \<open>
  Cutting a list at the lowest nonce of what was taken out leaves the part before the first
  transaction that was taken out.
\<close>

lemma cut_at_lowest:
  fixes L :: "Transaction list"
  assumes s: "sorted (map tx_AccountNonce L)" and d: "distinct (map tx_AccountNonce L)" and m: "mset removed = mset (filter P L)" and ne: "removed \<noteq> []"
    and low: "lowest = fold (\<lambda>tx low. if low > tx_AccountNonce tx then tx_AccountNonce tx else low) removed (- 1)"
  shows "filter (\<lambda>tx. \<not> tx_AccountNonce tx > lowest) (filter (\<lambda>tx. \<not> P tx) L) = takeWhile (\<lambda>tx. \<not> P tx) L"
proof -
  have rs: "set removed = {x \<in> set L. P x}" using m by (metis set_filter set_mset_mset)
  then have "\<exists>x\<in>set L. \<not> \<not> P x" using ne by (cases removed) auto
  then have "dropWhile (\<lambda>tx. \<not> P tx) L \<noteq> []" by (auto simp: dropWhile_eq_Nil_conv)
  then obtain e B where B: "dropWhile (\<lambda>tx. \<not> P tx) L = e # B" by (cases "dropWhile (\<lambda>tx. \<not> P tx) L") auto
  define A where "A = takeWhile (\<lambda>tx. \<not> P tx) L"
  have L: "L = A @ e # B" using takeWhile_dropWhile_id [of "\<lambda>tx. \<not> P tx" L] B by (simp add: A_def)
  have A: "\<forall>x\<in>set A. \<not> P x" using set_takeWhileD by (fastforce simp: A_def)
  have e: "P e" using B by (metis dropWhile_eq_Cons_conv)
  have lt: "\<forall>x\<in>set A. tx_AccountNonce x < tx_AccountNonce e" "\<forall>x\<in>set B. tx_AccountNonce e < tx_AccountNonce x"
  proof -
    have le: "\<forall>x\<in>set A. tx_AccountNonce x \<le> tx_AccountNonce e" "\<forall>x\<in>set B. tx_AccountNonce e \<le> tx_AccountNonce x"
      using s by (simp_all add: L sorted_append)
    have ne: "tx_AccountNonce e \<notin> tx_AccountNonce ` set A" "tx_AccountNonce e \<notin> tx_AccountNonce ` set B"
      using d by (auto simp add: L)
    show "\<forall>x\<in>set A. tx_AccountNonce x < tx_AccountNonce e"
      using le(1) ne(1) by (metis imageI order.not_eq_order_implies_strict)
    show "\<forall>x\<in>set B. tx_AccountNonce e < tx_AccountNonce x"
      using le(2) ne(2) by (metis imageI order.not_eq_order_implies_strict)
  qed
  note f = fold_lowest [of removed "- 1", folded low]
  have "lowest \<le> tx_AccountNonce e" using f rs e L by auto
  moreover have "tx_AccountNonce e \<le> lowest"
  proof (cases "lowest = - 1")
    case True
    then show ?thesis by simp
  next
    case False
    then obtain x where x: "x \<in> set removed" "lowest = tx_AccountNonce x" using f by blast
    then have "x \<in> set (e # B)" using rs A L by auto
    then show ?thesis using x(2) lt(2) by auto
  qed
  ultimately have low: "lowest = tx_AccountNonce e" by simp
  have "filter (\<lambda>tx. \<not> tx_AccountNonce tx > lowest \<and> \<not> P tx) A = A" "filter (\<lambda>tx. \<not> tx_AccountNonce tx > lowest \<and> \<not> P tx) B = []"
    using lt A low by (auto simp: filter_id_conv filter_empty_conv)
  then show ?thesis using e unfolding A_def [symmetric] by (simp add: L conj_commute)
qed

lemma tl_Filter_spec:
  fixes costLimit gasLimit :: int
  assumes ok: "tl_ok l"
  defines "L \<equiv> inOrder (tl_txs l)" and "L' \<equiv> inOrder (tl_txs (snd (tl_Filter costLimit gasLimit l)))"
  shows "mset (fst (fst (tl_Filter costLimit gasLimit l))) = mset (filter (tooDear costLimit gasLimit) L) \<and> tl_ok (snd (tl_Filter costLimit gasLimit l)) \<and>
    L' = (if tl_strict l then takeWhile (\<lambda>tx. \<not> tooDear costLimit gasLimit tx) L else filter (\<lambda>tx. \<not> tooDear costLimit gasLimit tx) L) \<and>
    mset L = mset (fst (fst (tl_Filter costLimit gasLimit l))) + mset (snd (fst (tl_Filter costLimit gasLimit l))) + mset L'"
proof -
  let ?P = "tooDear costLimit gasLimit"
  have P: "(\<lambda>tx. tx_Cost tx > costLimit \<or> tx_GasLimit tx > gasLimit) = ?P" by (simp add: tooDear_def fun_eq_iff)
  have so: "sm_ok (tl_txs l)" using ok by (simp add: tl_ok_def)
  show ?thesis
  proof (cases "tl_costcap l \<le> costLimit \<and> tl_gascap l \<le> gasLimit")
    case True
    then have n: "\<forall>tx\<in>set L. \<not> ?P tx" using ok by (force simp: tl_ok_def L_def tooDear_def)
    have "filter ?P L = []" "filter (\<lambda>tx. \<not> ?P tx) L = L" "takeWhile (\<lambda>tx. \<not> ?P tx) L = L"
      using n by (simp_all add: filter_empty_conv filter_id_conv takeWhile_eq_all_conv)
    moreover have "tl_Filter costLimit gasLimit l = (([], []), l)" using True by (simp add: tl_Filter_def)
    ultimately show ?thesis using ok by (simp only: L'_def L_def fst_conv snd_conv) simp
  next
    case False
    obtain removed m1 where f1: "sm_Filter ?P (tl_txs l) = (removed, m1)" by fastforce
    note s1 = sm_Filter_spec [OF so, of ?P, unfolded f1, simplified, folded L_def]
    have split: "mset L = mset removed + mset (filter (\<lambda>tx. \<not> ?P tx) L)" using s1 by (metis multiset_partition mset_filter)
    have cheap: "tx_Cost tx \<le> costLimit \<and> tx_GasLimit tx \<le> gasLimit" if "\<not> ?P tx" for tx using that by (auto simp: tooDear_def)
    show ?thesis
    proof (cases "tl_strict l \<and> removed \<noteq> []")
      case False2: False
      have tw: "takeWhile (\<lambda>tx. \<not> ?P tx) L = filter (\<lambda>tx. \<not> ?P tx) L" if "tl_strict l"
      proof -
        have "filter ?P L = []" using that False2 s1 by auto
        then have "\<forall>tx\<in>set L. \<not> ?P tx" by (simp add: filter_empty_conv)
        then have "takeWhile (\<lambda>tx. \<not> ?P tx) L = L" "filter (\<lambda>tx. \<not> ?P tx) L = L" by (simp_all add: filter_id_conv takeWhile_eq_all_conv)
        then show ?thesis by simp
      qed
      let ?l = "l\<lparr>tl_costcap := costLimit, tl_gascap := gasLimit, tl_txs := m1\<rparr>"
      have "tl_Filter costLimit gasLimit l = ((removed, []), ?l)"
        using False False2 by (cases "tl_strict l") (auto simp: tl_Filter_def P f1 Let_def)
      moreover have "tl_ok ?l" using s1 cheap by (simp add: tl_ok_def)
      moreover have "inOrder m1 = (if tl_strict l then takeWhile (\<lambda>tx. \<not> ?P tx) L else filter (\<lambda>tx. \<not> ?P tx) L)"
        using s1 tw by simp
      moreover have "mset L = mset removed + mset [] + mset (inOrder m1)" using split s1 by simp
      ultimately show ?thesis unfolding L'_def using s1 by (simp del: if_split)
    next
      case True
      define lowest where "lowest = fold (\<lambda>tx low. if low > tx_AccountNonce tx then tx_AccountNonce tx else low) removed (- 1)"
      obtain invalids m2 where f2: "sm_Filter (\<lambda>tx. tx_AccountNonce tx > lowest) m1 = (invalids, m2)" by fastforce
      have s2: "sm_ok m2" "inOrder m2 = filter (\<lambda>tx. \<not> tx_AccountNonce tx > lowest) (inOrder m1)" "mset invalids = mset (filter (\<lambda>tx. tx_AccountNonce tx > lowest) (inOrder m1))"
        using sm_Filter_spec [of m1 "\<lambda>tx. tx_AccountNonce tx > lowest"] s1 by (simp_all add: f2)
      let ?l = "l\<lparr>tl_costcap := costLimit, tl_gascap := gasLimit, tl_txs := m2\<rparr>"
      have "tl_Filter costLimit gasLimit l = ((removed, invalids), ?l)"
        using False True by (auto simp: tl_Filter_def P f1 f2 Let_def lowest_def [symmetric])
      moreover have o: "inOrder m2 = takeWhile (\<lambda>tx. \<not> ?P tx) L"
        using cut_at_lowest [of L removed ?P lowest] s1 s2(2) True lowest_def sm_okD(1) [OF so] by (simp add: L_def inOrder_def ordered_distinct)
      moreover have "mset (inOrder m1) = mset invalids + mset (inOrder m2)" unfolding s2(2,3) mset_filter by (rule multiset_partition)
      then have "mset L = mset removed + mset invalids + mset (inOrder m2)" using split s1 by (metis add.assoc)
      moreover have "tl_ok ?l" using s2(1,2) s1 cheap by (simp add: tl_ok_def)
      moreover have "mset removed = mset (filter ?P L)" using s1 by simp
      moreover have "tl_txs ?l = m2" by simp
      ultimately show ?thesis using True unfolding L'_def by (simp only: fst_conv snd_conv txList.simps simp_thms if_True)
    qed
  qed
qed

end
