(* ===== verification/Tx_Priced.thy ===== *)
theory Tx_Priced
  imports Tx_Sorted
begin

text \<open>
  The price list of the pool: which transactions \<open>Discard\<close>, \<open>Cap\<close> and \<open>Underpriced\<close> take off the heap of prices. The
  proofs use the heap only through the laws of \<open>go_heap\<close>.
\<close>

definition pl_ok :: "txPricedList \<Rightarrow> bool" where
  "pl_ok l \<longleftrightarrow> is_heap tx_Price (pl_items l)"

lemma pop_filter:
  assumes "is_heap key h" "h \<noteq> []"
  shows "mset (filter p h) = (if p (hd h) then {#hd h#} else {#}) + mset (filter p (snd (heap_Pop key h)))"
  using hp.heap_pop [OF assms] by simp

lemma pop_set:
  assumes "is_heap key h" "h \<noteq> []"
  shows "set h = insert (hd h) (set (snd (heap_Pop key h)))"
  using hp.heap_pop [OF assms] by (metis set_mset_add_mset_insert set_mset_mset)

lemma push_all:
  assumes "is_heap key h"
  shows "is_heap key (fold (heap_Push key) xs h) \<and> mset (fold (heap_Push key) xs h) = mset xs + mset h"
  using assms
proof (induction xs arbitrary: h)
  case (Cons x xs)
  then show ?case using hp.heap_push [of key h x] by simp
qed simp

lemma discardPrices_spec:
  assumes "is_heap tx_Price items" and "discardPrices known howMany locals items stales = (gone, save, items', stales')"
  shows "is_heap tx_Price items' \<and> mset (filter known items) = mset gone + mset save + mset (filter known items') \<and>
    (\<forall>x\<in>set gone. known x \<and> \<not> containsTx locals x) \<and> (\<forall>x\<in>set save. known x \<and> containsTx locals x) \<and>
    (\<forall>x\<in>set gone. \<forall>y\<in>set items'. tx_Price x \<le> tx_Price y) \<and>
    length gone \<le> nat howMany \<and> (length gone < nat howMany \<longrightarrow> items' = []) \<and> set items' \<subseteq> set items \<and>
    stales' + int (length (filter (\<lambda>x. \<not> known x) items)) = stales + int (length (filter (\<lambda>x. \<not> known x) items'))"
  using assms
proof (induction known howMany locals items stales arbitrary: gone save items' stales' rule: discardPrices.induct)
  case (1 known howMany locals items stales)
  show ?case
  proof (cases "items = [] \<or> howMany \<le> 0")
    case True
    then show ?thesis using 1(4,5) by (auto simp: discardPrices.simps)
  next
    case False
    then have ne: "items \<noteq> []" and pos: "0 < howMany" by auto
    let ?tx = "fst (heap_Pop tx_Price items)" and ?rest = "snd (heap_Pop tx_Price items)"
    have tx: "?tx = hd items" and h: "is_heap tx_Price ?rest" using hp.heap_pop [OF 1(4) ne] by auto
    note pf = pop_filter [OF 1(4) ne]
    have pl: "length (filter p items) = (if p (hd items) then 1 else 0) + length (filter p ?rest)" for p
      using arg_cong [OF pf [of p], of size] by (simp del: mset_filter)
    have s: "set items = insert (hd items) (set ?rest)" by (rule pop_set [OF 1(4) ne])
    then have sub: "set ?rest \<subseteq> set items" by blast
    have top: "\<forall>y\<in>set ?rest. tx_Price (hd items) \<le> tx_Price y" using hp.heap_top [OF 1(4)] s by blast
    obtain d v r st where rec: "discardPrices known (if known ?tx \<and> \<not> containsTx locals ?tx then howMany - 1 else howMany) locals ?rest (if known ?tx then stales else stales - 1) = (d, v, r, st)"
      by (metis prod_cases4)
    consider (stale) "\<not> known ?tx" | (own) "known ?tx" "containsTx locals ?tx" | (other) "known ?tx" "\<not> containsTx locals ?tx" by blast
    then show ?thesis
    proof cases
      case stale
      then have r: "gone = d" "save = v" "items' = r" "stales' = st" and rec: "discardPrices known howMany locals ?rest (stales - 1) = (d, v, r, st)"
        using 1(5) rec ne pos by (simp_all add: discardPrices.simps [of known howMany locals items] Let_def)
      note ih = 1(1) [OF False refl refl stale h rec]
      have "mset (filter known items) = mset (filter known ?rest)" using pf [of known] stale tx by simp
      moreover have "length (filter (\<lambda>x. \<not> known x) items) = Suc (length (filter (\<lambda>x. \<not> known x) ?rest))" using pl [of "\<lambda>x. \<not> known x"] stale tx by simp
      moreover have "set r \<subseteq> set items" using ih sub by blast
      ultimately show ?thesis unfolding r using ih by (simp only: simp_thms) linarith
    next
      case own
      then have r: "gone = d" "save = ?tx # v" "items' = r" "stales' = st" and rec: "discardPrices known howMany locals ?rest stales = (d, v, r, st)"
        using 1(5) rec ne pos by (auto simp: discardPrices.simps [of known howMany locals items] Let_def)
      note ih = 1(2) [OF False refl refl _ _ h rec, simplified own simp_thms]
      have "mset (filter known items) = add_mset ?tx (mset (filter known ?rest))" using pf [of known] own tx by simp
      moreover have "length (filter (\<lambda>x. \<not> known x) items) = length (filter (\<lambda>x. \<not> known x) ?rest)" using pl [of "\<lambda>x. \<not> known x"] own tx by simp
      moreover have "set r \<subseteq> set items" using ih sub by blast
      ultimately show ?thesis unfolding r using ih own by (simp only: simp_thms) simp
    next
      case other
      then have r: "gone = ?tx # d" "save = v" "items' = r" "stales' = st" and rec: "discardPrices known (howMany - 1) locals ?rest stales = (d, v, r, st)"
        using 1(5) rec ne pos by (auto simp: discardPrices.simps [of known howMany locals items] Let_def)
      note ih = 1(3) [OF False refl refl _ _ h rec, simplified other simp_thms]
      have "mset (filter known items) = add_mset ?tx (mset (filter known ?rest))" using pf [of known] other tx by simp
      moreover have "length (filter (\<lambda>x. \<not> known x) items) = length (filter (\<lambda>x. \<not> known x) ?rest)" using pl [of "\<lambda>x. \<not> known x"] other tx by simp
      moreover have "set r \<subseteq> set items" "\<forall>y\<in>set r. tx_Price ?tx \<le> tx_Price y" using ih sub top tx by auto
      moreover have "nat howMany = Suc (nat (howMany - 1))" using pos by simp
      ultimately show ?thesis unfolding r using ih other by (simp only: simp_thms) simp
    qed
  qed
qed

lemma capPrices_spec:
  assumes "is_heap tx_Price items" and "capPrices known threshold locals items stales = (gone, save, items', stales')"
  shows "is_heap tx_Price items' \<and> set items' \<subseteq> set items \<and>
    mset gone = mset (filter (\<lambda>x. known x \<and> tx_Price x < threshold \<and> \<not> containsTx locals x) items) \<and>
    mset save = mset (filter (\<lambda>x. known x \<and> tx_Price x < threshold \<and> containsTx locals x) items) \<and>
    (\<exists>lost. mset (filter (\<lambda>x. known x \<and> tx_Price x \<ge> threshold) items) = mset (filter known items') + mset lost \<and>
      length lost = (if \<exists>x\<in>set items. known x \<and> tx_Price x \<ge> threshold then 1 else 0)) \<and> (\<forall>y\<in>set items'. tx_Price y \<ge> threshold)"
  using assms
proof (induction known threshold locals items stales arbitrary: gone save items' stales' rule: capPrices.induct)
  case (1 known threshold locals items stales)
  show ?case
  proof (cases "items = []")
    case True
    then show ?thesis using 1(3,4) by (auto simp: capPrices.simps)
  next
    case ne: False
    let ?tx = "fst (heap_Pop tx_Price items)" and ?rest = "snd (heap_Pop tx_Price items)"
    have tx: "?tx = hd items" and h: "is_heap tx_Price ?rest" using hp.heap_pop [OF 1(3) ne] by auto
    note pf = pop_filter [OF 1(3) ne]
    have s: "set items = insert (hd items) (set ?rest)" by (rule pop_set [OF 1(3) ne])
    have top: "\<forall>y\<in>set ?rest. tx_Price (hd items) \<le> tx_Price y" using hp.heap_top [OF 1(3)] s by blast
    obtain d v r st where rec: "capPrices known threshold locals ?rest (if known ?tx then stales else stales - 1) = (d, v, r, st)"
      by (metis prod_cases4)
    consider (stale) "\<not> known ?tx" | (stop) "known ?tx" "tx_Price ?tx \<ge> threshold" | (below) "known ?tx" "\<not> tx_Price ?tx \<ge> threshold" by blast
    then show ?thesis
    proof cases
      case stale
      then have "gone = d" "save = v" "items' = r" using 1(4) rec ne by (simp_all add: capPrices.simps [of known threshold locals items] Let_def)
      then show ?thesis using 1(1) [OF ne refl refl stale h, of d v r st] rec stale tx pf s by (simp del: mset_filter) blast
    next
      case stop
      then have r: "gone = []" "save = []" "items' = ?rest" using 1(4) ne by (simp_all add: capPrices.simps [of known threshold locals items] Let_def)
      have ge: "\<forall>y\<in>set items. tx_Price y \<ge> threshold" using top stop(2) tx s by auto
      then have "filter (\<lambda>x. known x \<and> tx_Price x \<ge> threshold) items = filter known items" by (auto intro!: filter_cong)
      then have "mset (filter (\<lambda>x. known x \<and> tx_Price x \<ge> threshold) items) = mset (filter known ?rest) + mset [hd items]"
        using pf [of known] stop(1) tx by simp
      moreover have "filter (\<lambda>x. known x \<and> tx_Price x < threshold \<and> p x) items = []" for p using ge by (auto simp: filter_empty_conv)
      moreover have "\<exists>x\<in>set items. known x \<and> tx_Price x \<ge> threshold" using stop tx s by auto
      ultimately show ?thesis unfolding r using h s ge by (intro conjI exI [of _ "[hd items]"]) auto
    next
      case below
      show ?thesis
      proof (cases "containsTx locals ?tx")
        case True
        then have "gone = d" "save = ?tx # v" "items' = r" using 1(4) rec ne below by (auto simp: capPrices.simps [of known threshold locals items] Let_def)
        then show ?thesis using 1(2) [OF ne refl refl _ _ h, of d v r st] rec below True tx pf s by (simp del: mset_filter) blast
      next
        case False
        then have "gone = ?tx # d" "save = v" "items' = r" using 1(4) rec ne below by (auto simp: capPrices.simps [of known threshold locals items] Let_def)
        then show ?thesis using 1(2) [OF ne refl refl _ _ h, of d v r st] rec below False tx pf s by (simp del: mset_filter) blast
      qed
    qed
  qed
qed

lemma dropStale_spec:
  assumes "is_heap tx_Price items" and "dropStale known items stales = (items', stales')"
  shows "is_heap tx_Price items' \<and> mset (filter known items') = mset (filter known items) \<and> (items' \<noteq> [] \<longrightarrow> known (hd items'))"
  using assms
proof (induction known items stales arbitrary: items' stales' rule: dropStale.induct)
  case (1 known items stales)
  show ?case
  proof (cases "items \<noteq> [] \<and> \<not> known (items ! 0)")
    case True
    then have ne: "items \<noteq> []" and u: "\<not> known (hd items)" by (auto simp: hd_conv_nth)
    have "dropStale known (snd (heap_Pop tx_Price items)) (stales - 1) = (items', stales')" using 1(3) True by (simp add: dropStale.simps [of known items])
    from 1(1) [OF True conjunct1 [OF conjunct2 [OF hp.heap_pop [OF 1(2) ne]]] this] show ?thesis
      using pop_filter [OF 1(2) ne, of known] u by simp
  next
    case False
    then show ?thesis using 1(2,3) by (auto simp: dropStale.simps [of known items] hd_conv_nth)
  qed
qed

end
