(* ===== verification/Tx_Runs.thy ===== *)
theory Tx_Runs
  imports Tx_Priced
begin

text \<open>
  Sequences of operations on the lists of the pool: a run of a \<open>txSortedMap\<close> next to the same run on a plain list in the
  order of the nonces, and the account lists that the operations of \<open>txList\<close> can reach.
\<close>

section \<open>Runs of a sorted map\<close>

datatype smOp =
    OpGet u64 | OpPut Transaction | OpForward u64 | OpFilter "Transaction \<Rightarrow> bool" | OpCap nat
  | OpRemove u64 | OpReady u64 | OpLen | OpFlatten

datatype smOut = NoOut | Entry "Transaction option" | Entries "Transaction option list" | Found bool | Entered int

text \<open>
  One operation and what the caller sees of it. \<open>Filter\<close> returns the transactions in the order in which Go visits a map,
  which is not specified, and is observed in the order of the nonces.
\<close>

fun sm_do :: "smOp \<Rightarrow> txSortedMap \<Rightarrow> (smOut \<times> txSortedMap) res" where
  "sm_do (OpGet n) m = Inr (Entry (sm_Get n m), m)"
| "sm_do (OpPut tx) m = Inr (NoOut, sm_Put tx m)"
| "sm_do (OpForward t) m = bind_res (sm_Forward t m) (\<lambda>(removed, m). Inr (Entries removed, m))"
| "sm_do (OpFilter p) m = (let (removed, m) = sm_Filter p m in Inr (Entries (map Some (sort_key tx_AccountNonce removed)), m))"
| "sm_do (OpCap t) m = bind_res (sm_Cap (int t) m) (\<lambda>(drops, m). Inr (Entries drops, m))"
| "sm_do (OpRemove n) m = (let (ok, m) = sm_Remove n m in Inr (Found ok, m))"
| "sm_do (OpReady n) m = (let (ready, m) = sm_Ready n m in Inr (Entries ready, m))"
| "sm_do OpLen m = Inr (Entered (sm_Len m), m)"
| "sm_do OpFlatten m = (let (txs, m) = sm_Flatten m in Inr (Entries (map Some txs), m))"

fun sm_run :: "smOp list \<Rightarrow> txSortedMap \<Rightarrow> smOut list res" where
  "sm_run [] m = Inr []"
| "sm_run (x # xs) m = bind_res (sm_do x m) (\<lambda>(out, m). bind_res (sm_run xs m) (\<lambda>outs. Inr (out # outs)))"

text \<open>The same operations on a list of transactions in ascending order of their nonces.\<close>

fun list_do :: "smOp \<Rightarrow> Transaction list \<Rightarrow> smOut \<times> Transaction list" where
  "list_do (OpGet n) L = (Entry (find (\<lambda>tx. tx_AccountNonce tx = n) L), L)"
| "list_do (OpPut tx) L = (NoOut, insort_key tx_AccountNonce tx (filter (\<lambda>t. tx_AccountNonce t \<noteq> tx_AccountNonce tx) L))"
| "list_do (OpForward t) L = (Entries (map Some (takeWhile (\<lambda>tx. tx_AccountNonce tx < t) L)), dropWhile (\<lambda>tx. tx_AccountNonce tx < t) L)"
| "list_do (OpFilter p) L = (Entries (map Some (filter p L)), filter (\<lambda>tx. \<not> p tx) L)"
| "list_do (OpCap t) L = (Entries (map Some (rev (drop t L))), take t L)"
| "list_do (OpRemove n) L = (Found (n \<in> tx_AccountNonce ` set L), filter (\<lambda>tx. tx_AccountNonce tx \<noteq> n) L)"
| "list_do (OpReady n) L = (Entries (map Some (readyFrom n L)), drop (length (readyFrom n L)) L)"
| "list_do OpLen L = (Entered (int (length L)), L)"
| "list_do OpFlatten L = (Entries (map Some L), L)"

fun list_run :: "smOp list \<Rightarrow> Transaction list \<Rightarrow> smOut list" where
  "list_run [] L = []"
| "list_run (x # xs) L = (let (out, L) = list_do x L in out # list_run xs L)"

lemma length_inOrder: "length (inOrder m) = length (sm_items m)"
  by (simp add: inOrder_def)

lemma sort_filtered:
  assumes ok: "sm_ok m" and r: "mset removed = mset (filter p (inOrder m))"
  shows "sort_key tx_AccountNonce removed = filter p (inOrder m)"
proof (rule properties_for_sort_key)
  show "mset (filter p (inOrder m)) = mset removed" using r by simp
  show "sorted (map tx_AccountNonce (filter p (inOrder m)))" by (simp add: inOrder_def sorted_filter)
  fix k assume k: "k \<in> set (filter p (inOrder m))"
  have "distinct (map tx_AccountNonce (inOrder m))" using ok sm_okD(1) [OF ok] by (simp add: inOrder_def ordered_distinct)
  then have i: "inj_on tx_AccountNonce (set (inOrder m))" by (simp add: distinct_map)
  have e: "filter (\<lambda>x. tx_AccountNonce k = tx_AccountNonce x) xs = filter (\<lambda>x. x = k) xs" if "set xs \<subseteq> set (inOrder m)" for xs
    using that i k by (intro filter_cong) (auto dest: inj_onD)
  have rs: "set removed \<subseteq> set (inOrder m)" using r by (metis filter_is_subset set_mset_mset)
  have c: "filter (\<lambda>x. x = k) xs = replicate (count (mset xs) k) k" for xs :: "Transaction list" by (induction xs) auto
  show "filter (\<lambda>x. tx_AccountNonce k = tx_AccountNonce x) (filter p (inOrder m)) = filter (\<lambda>x. tx_AccountNonce k = tx_AccountNonce x) removed"
    unfolding e [OF rs] e [OF filter_is_subset] c r by (rule refl)
qed

lemma sm_do_refines:
  assumes ok: "sm_ok m"
  shows "\<exists>m'. sm_do x m = Inr (fst (list_do x (inOrder m)), m') \<and> sm_ok m' \<and> inOrder m' = snd (list_do x (inOrder m))"
proof (cases x)
  case (OpFilter p)
  then show ?thesis using sm_Filter_spec [OF ok, of p] sort_filtered [OF ok, of "fst (sm_Filter p m)" p]
    by (simp add: Let_def case_prod_beta del: mset_filter)
next
  case (OpForward t)
  then show ?thesis using sm_Forward_spec [OF ok, of t] by auto
next
  case (OpCap t)
  then show ?thesis using sm_Cap_spec [OF ok, of "int t"] by auto
qed (use ok sm_Get_inOrder [OF ok] sm_Put_spec [OF ok] sm_Remove_spec [OF ok] sm_Ready_spec [OF ok] sm_Flatten_spec [OF ok] in
    \<open>simp_all add: sm_Len_def length_inOrder Let_def case_prod_beta\<close>)

lemma sm_run_refines:
  assumes "sm_ok m"
  shows "sm_run xs m = Inr (list_run xs (inOrder m))"
  using assms
proof (induction xs arbitrary: m)
  case (Cons x xs)
  then show ?case using sm_do_refines [of m x] by (auto simp: Let_def case_prod_beta)
qed simp

section \<open>Reachable account lists\<close>

inductive tl_reach :: "bool \<Rightarrow> txList \<Rightarrow> bool" for strict :: bool where
  reach_new: "tl_reach strict (newTxList strict)"
| reach_add: "tl_reach strict l \<Longrightarrow> tl_reach strict (snd (tl_Add tx bump l))"
| reach_forward: "tl_reach strict l \<Longrightarrow> tl_Forward t l = Inr (removed, l') \<Longrightarrow> tl_reach strict l'"
| reach_filter: "tl_reach strict l \<Longrightarrow> tl_reach strict (snd (tl_Filter costLimit gasLimit l))"
| reach_cap: "tl_reach strict l \<Longrightarrow> 0 \<le> t \<Longrightarrow> tl_Cap t l = Inr (drops, l') \<Longrightarrow> tl_reach strict l'"
| reach_remove: "tl_reach strict l \<Longrightarrow> tl_reach strict (snd (tl_Remove tx l))"
| reach_ready: "tl_reach strict l \<Longrightarrow> tl_reach strict (snd (tl_Ready n l))"
| reach_flatten: "tl_reach strict l \<Longrightarrow> tl_reach strict (snd (tl_Flatten l))"

lemma tl_ok_sub: "tl_ok l \<Longrightarrow> sm_ok m \<Longrightarrow> set (inOrder m) \<subseteq> set (inOrder (tl_txs l)) \<Longrightarrow> tl_ok (l\<lparr>tl_txs := m\<rparr>)"
  by (auto simp: tl_ok_def)

lemma tl_okD: "tl_ok l \<Longrightarrow> sm_ok (tl_txs l)"
  by (simp add: tl_ok_def)

lemma tl_Forward_ok:
  assumes ok: "tl_ok l"
  shows "\<exists>m. tl_Forward t l = Inr (map Some (takeWhile (\<lambda>tx. tx_AccountNonce tx < t) (inOrder (tl_txs l))), l\<lparr>tl_txs := m\<rparr>) \<and>
    tl_ok (l\<lparr>tl_txs := m\<rparr>) \<and> inOrder m = dropWhile (\<lambda>tx. tx_AccountNonce tx < t) (inOrder (tl_txs l))"
proof -
  obtain m where m: "sm_Forward t (tl_txs l) = Inr (map Some (takeWhile (\<lambda>tx. tx_AccountNonce tx < t) (inOrder (tl_txs l))), m)" "sm_ok m"
      "inOrder m = dropWhile (\<lambda>tx. tx_AccountNonce tx < t) (inOrder (tl_txs l))"
    using sm_Forward_spec [OF tl_okD [OF ok], of t] by blast
  then have "tl_ok (l\<lparr>tl_txs := m\<rparr>)" by (intro tl_ok_sub [OF ok]) (auto dest: set_dropWhileD)
  then show ?thesis using m by (auto simp: tl_Forward_def)
qed

lemma tl_Cap_ok:
  assumes ok: "tl_ok l" and t: "0 \<le> t"
  shows "\<exists>m. tl_Cap t l = Inr (map Some (rev (drop (nat t) (inOrder (tl_txs l)))), l\<lparr>tl_txs := m\<rparr>) \<and>
    tl_ok (l\<lparr>tl_txs := m\<rparr>) \<and> inOrder m = take (nat t) (inOrder (tl_txs l))"
proof -
  obtain m where m: "sm_Cap t (tl_txs l) = Inr (map Some (rev (drop (nat t) (inOrder (tl_txs l)))), m)" "sm_ok m" "inOrder m = take (nat t) (inOrder (tl_txs l))"
    using sm_Cap_spec [OF tl_okD [OF ok] t] by blast
  then have "tl_ok (l\<lparr>tl_txs := m\<rparr>)" by (intro tl_ok_sub [OF ok]) (auto dest: in_set_takeD)
  then show ?thesis using m by (auto simp: tl_Cap_def)
qed

lemma tl_Ready_ok:
  assumes ok: "tl_ok l"
  shows "\<exists>m. tl_Ready n l = (map Some (readyFrom n (inOrder (tl_txs l))), l\<lparr>tl_txs := m\<rparr>) \<and>
    tl_ok (l\<lparr>tl_txs := m\<rparr>) \<and> inOrder m = drop (length (readyFrom n (inOrder (tl_txs l)))) (inOrder (tl_txs l))"
proof -
  note s = sm_Ready_spec [OF tl_okD [OF ok], of n]
  then have "tl_ok (l\<lparr>tl_txs := snd (sm_Ready n (tl_txs l))\<rparr>)" by (intro tl_ok_sub [OF ok]) (auto dest: in_set_dropD)
  then show ?thesis using s by (auto simp: tl_Ready_def Let_def case_prod_beta)
qed

lemma tl_Flatten_ok:
  assumes ok: "tl_ok l"
  shows "\<exists>m. tl_Flatten l = (inOrder (tl_txs l), l\<lparr>tl_txs := m\<rparr>) \<and> tl_ok (l\<lparr>tl_txs := m\<rparr>) \<and> inOrder m = inOrder (tl_txs l)"
proof -
  note s = sm_Flatten_spec [OF tl_okD [OF ok]]
  then have "tl_ok (l\<lparr>tl_txs := snd (sm_Flatten (tl_txs l))\<rparr>)" by (intro tl_ok_sub [OF ok]) auto
  then show ?thesis using s by (auto simp: tl_Flatten_def Let_def case_prod_beta)
qed

text \<open>Removing a transaction: a strict list loses all that follow it as well.\<close>

lemma tl_Remove_ok:
  fixes tx :: Transaction
  assumes ok: "tl_ok l"
  defines "L \<equiv> inOrder (tl_txs l)" and "n \<equiv> tx_AccountNonce tx"
  shows "\<exists>m invalids. tl_Remove tx l = ((n \<in> tx_AccountNonce ` set L, invalids), l\<lparr>tl_txs := m\<rparr>) \<and> tl_ok (l\<lparr>tl_txs := m\<rparr>) \<and>
    inOrder m = (if tl_strict l \<and> n \<in> tx_AccountNonce ` set L then filter (\<lambda>t. tx_AccountNonce t < n) L else filter (\<lambda>t. tx_AccountNonce t \<noteq> n) L) \<and>
    mset invalids = (if tl_strict l \<and> n \<in> tx_AccountNonce ` set L then mset (filter (\<lambda>t. tx_AccountNonce t > n) L) else {#})"
proof -
  obtain b m where r: "sm_Remove n (tl_txs l) = (b, m)" by fastforce
  have s: "b = (n \<in> tx_AccountNonce ` set L)" "sm_ok m" "inOrder m = filter (\<lambda>tx. tx_AccountNonce tx \<noteq> n) L"
    using sm_Remove_spec [OF tl_okD [OF ok], of n] r by (simp_all add: L_def)
  show ?thesis
  proof (cases b)
    case False
    then have "n \<notin> tx_AccountNonce ` set L" using s by simp
    then have "filter (\<lambda>t. tx_AccountNonce t \<noteq> n) L = L" by (auto simp: filter_id_conv)
    then show ?thesis using False s r ok by (intro exI [of _ "tl_txs l"] exI [of _ "[]"]) (auto simp: tl_Remove_def n_def Let_def L_def)
  next
    case b: True
    show ?thesis
    proof (cases "tl_strict l")
      case True
      obtain invalids m2 where f: "sm_Filter (\<lambda>t. tx_AccountNonce t > n) m = (invalids, m2)" by fastforce
      note s2 = sm_Filter_spec [OF s(2), of "\<lambda>t. tx_AccountNonce t > n", unfolded f s(3), simplified]
      have "filter (\<lambda>t. \<not> tx_AccountNonce t > n \<and> tx_AccountNonce t \<noteq> n) L = filter (\<lambda>t. tx_AccountNonce t < n) L" by (auto intro!: filter_cong)
      moreover have "filter (\<lambda>t. tx_AccountNonce t > n \<and> tx_AccountNonce t \<noteq> n) L = filter (\<lambda>t. tx_AccountNonce t > n) L" by (auto intro!: filter_cong)
      ultimately have o: "inOrder m2 = filter (\<lambda>t. tx_AccountNonce t < n) L" "mset invalids = mset (filter (\<lambda>t. tx_AccountNonce t > n) L)"
        using s2 by (auto simp: filter_filter conj_commute filter_filter_mset intro!: filter_mset_cong)
      then have "tl_ok (l\<lparr>tl_txs := m2\<rparr>)" using s2 by (intro tl_ok_sub [OF ok]) (auto simp: L_def)
      then show ?thesis using True b s r f o by (intro exI [of _ m2] exI [of _ invalids]) (auto simp: tl_Remove_def n_def Let_def)
    next
      case False
      have "tl_ok (l\<lparr>tl_txs := m\<rparr>)" using s by (intro tl_ok_sub [OF ok]) (auto simp: L_def)
      then show ?thesis using False b s r by (intro exI [of _ m] exI [of _ "[]"]) (auto simp: tl_Remove_def n_def Let_def)
    qed
  qed
qed

lemma tl_strict_keeps:
  "tl_strict (snd (tl_Add tx bump l)) = tl_strict l" "tl_strict (snd (tl_Filter costLimit gasLimit l)) = tl_strict l"
  by (auto simp: tl_Add_def tl_Filter_def Let_def case_prod_beta)

lemma tl_reach_ok: "tl_reach strict l \<Longrightarrow> tl_ok l \<and> tl_strict l = strict"
proof (induction rule: tl_reach.induct)
  case reach_new
  then show ?case by (simp add: tl_ok_def newTxList_def sm_ok_new)
next
  case (reach_add l tx bump)
  then show ?case by (simp add: tl_Add_ok tl_strict_keeps)
next
  case (reach_forward l t removed l')
  then show ?case using tl_Forward_ok [of l t] by auto
next
  case (reach_filter l costLimit gasLimit)
  then show ?case using tl_Filter_spec [of l costLimit gasLimit] by (simp add: tl_strict_keeps)
next
  case (reach_cap l t drops l')
  then show ?case using tl_Cap_ok [of l t] by auto
next
  case (reach_remove l tx)
  then show ?case using tl_Remove_ok [of l tx] by auto
next
  case (reach_ready l n)
  then show ?case using tl_Ready_ok [of l n] by auto
next
  case (reach_flatten l)
  then show ?case using tl_Flatten_ok [of l] by auto
qed

end
