(* ===== verification/Tx_By_Price.thy ===== *)
theory Tx_By_Price
  imports Tx_Runs "HOL-Library.Sublist"
begin

text \<open>
  The order in which the miner takes transactions: \<open>TransactionsByPriceAndNonce\<close> (\<open>core/types/transaction.go\<close>), a heap of
  the next transaction of each account, and the loop \<open>commitTransactions\<close> of \<open>miner/worker.go\<close> over it.

  The signer of \<open>Shift\<close> is an argument, \<open>types.Sender\<close> for the signer that \<open>deriveSigner\<close> guesses; its error leaves the zero
  address. Whether the block is past the EIP 155 fork is an argument of the loop. The loop finds the sender of a transaction for a log line only; this and the
  events at its end are left out. The counter and the failed transactions of the work are arguments, as the miner may call it again on the same work.
\<close>

section \<open>Transactions by price and nonce\<close>

record byPriceAndNonce =
  bp_txs :: "(address \<times> Transaction list) list"
  bp_heads :: "Transaction list"

text \<open>\<open>TxByPrice\<close> puts the highest price first.\<close>

definition byPrice :: "Transaction \<Rightarrow> int" where
  "byPrice tx = - tx_Price tx"

fun takeHeads :: "(address \<times> Transaction list) list \<Rightarrow> (Transaction list \<times> (address \<times> Transaction list) list) res" where
  "takeHeads [] = Inr ([], [])"
| "takeHeads ((acc, accTxs) # m) = (case accTxs of
     [] \<Rightarrow> Inl (Panic ''index out of range'')
   | tx # txs \<Rightarrow> bind_res (takeHeads m) (\<lambda>(heads, m). Inr (tx # heads, (acc, txs) # m)))"

definition NewTransactionsByPriceAndNonce :: "(address \<times> Transaction list) list \<Rightarrow> byPriceAndNonce res" where
  "NewTransactionsByPriceAndNonce txs = bind_res (takeHeads txs) (\<lambda>(heads, txs). Inr \<lparr>bp_txs = txs, bp_heads = heap_Init byPrice heads\<rparr>)"

definition bp_Peek :: "byPriceAndNonce \<Rightarrow> Transaction option" where
  "bp_Peek t = (if bp_heads t = [] then None else Some (bp_heads t ! 0))"

definition bp_Pop :: "byPriceAndNonce \<Rightarrow> byPriceAndNonce res" where
  "bp_Pop t = (if bp_heads t = [] then Inl (Panic ''index out of range'') else Inr (t\<lparr>bp_heads := snd (heap_Pop byPrice (bp_heads t))\<rparr>))"

definition bp_Shift :: "(Transaction \<Rightarrow> address option) \<Rightarrow> byPriceAndNonce \<Rightarrow> byPriceAndNonce res" where
  "bp_Shift signer t =
     (if bp_heads t = [] then Inl (Panic ''index out of range'')
      else let acc = (case signer (bp_heads t ! 0) of Some a \<Rightarrow> a | None \<Rightarrow> 0) in
        case mget (bp_txs t) acc of
          Some (tx # txs) \<Rightarrow> Inr (t\<lparr>bp_heads := heap_Fix byPrice 0 ((bp_heads t)[0 := tx]), bp_txs := mput acc txs (bp_txs t)\<rparr>)
        | _ \<Rightarrow> bp_Pop t)"

text \<open>The number of transactions that are left.\<close>

definition bp_left :: "byPriceAndNonce \<Rightarrow> nat" where
  "bp_left t = length (bp_heads t) + sum_list (map (length \<circ> snd) (bp_txs t))"

lemma sum_lengths_put: "mget m k = Some v \<Longrightarrow> sum_list (map (length \<circ> snd) (mput k w m)) + length v = sum_list (map (length \<circ> snd) m) + length w"
  by (induction m) (auto simp: mget_def mput_def)

lemma mget_keys: "mget m k = None \<longleftrightarrow> k \<notin> set (mkeys m)"
  by (induction m) (auto simp: mget_def mkeys_def)

lemma mkeys_put_same: "k \<in> set (mkeys m) \<Longrightarrow> mkeys (mput k w m) = mkeys m"
  by (induction m) (auto simp: mput_def mkeys_def)

lemma length_heap_up [simp]: "length (heap_up key j h) = length h"
  by (induction key j h rule: heap_up.induct) (simp add: heap_up.simps Let_def swap_def)

lemma length_heap_Fix [simp]: "length (heap_Fix key i h) = length h"
  unfolding heap_Fix_def heap_sift_def Let_def by (simp add: length_heap_up)

lemma bp_Pop_left: "bp_Pop t = Inr t' \<Longrightarrow> bp_left t' < bp_left t"
  by (auto simp: bp_Pop_def bp_left_def split: if_splits)

lemma bp_Shift_left: "bp_Shift signer t = Inr t' \<Longrightarrow> bp_left t' < bp_left t"
proof -
  assume a: "bp_Shift signer t = Inr t'"
  let ?acc = "case signer (bp_heads t ! 0) of Some a \<Rightarrow> a | None \<Rightarrow> 0"
  show ?thesis
  proof (cases "mget (bp_txs t) ?acc")
    case (Some l)
    show ?thesis
    proof (cases l)
      case Nil
      then show ?thesis using a Some bp_Pop_left by (auto simp: bp_Shift_def Let_def split: if_splits)
    next
      case (Cons tx txs)
      then show ?thesis using a Some sum_lengths_put [OF Some, of txs] by (auto simp: bp_Shift_def Let_def bp_left_def split: if_splits)
    qed
  qed (use a bp_Pop_left in \<open>auto simp: bp_Shift_def Let_def split: if_splits\<close>)
qed

section \<open>The miner's loop\<close>

definition tx_Protected :: "Transaction \<Rightarrow> bool" where
  "tx_Protected tx \<longleftrightarrow> (if tx_V tx < 256 then tx_V tx \<noteq> 27 \<and> tx_V tx \<noteq> 28 else True)"

record committing =
  cm_work :: Work
  cm_gp :: int
  cm_tcount :: nat
  cm_failedTxs :: "Transaction list"
  cm_logs :: "Log list"

text \<open>One round of the loop for the transaction at the front: the new state and whether the next transaction of its account is shifted in.\<close>

definition commitNext :: "zkEnv \<Rightarrow> bool \<Rightarrow> Transaction \<Rightarrow> committing \<Rightarrow> (bool \<times> committing) res" where
  "commitNext Z isEIP155 tx c =
     (if tx_TxType tx = TxNormal \<and> tx_Protected tx \<and> \<not> isEIP155 then Inr (False, c)
      else
        let w = (cm_work c)\<lparr>w_state := sdb_Prepare (zk_txHash Z tx) 0 (cm_tcount c) (w_state (cm_work c))\<rparr> in
        bind_res (commitTransaction Z tx (cm_gp c) w) (\<lambda>(err, ls, gp, w).
          let c = c\<lparr>cm_work := w, cm_gp := gp\<rparr> in
          case err of
            None \<Rightarrow> Inr (True, c\<lparr>cm_logs := cm_logs c @ ls, cm_tcount := Suc (cm_tcount c)\<rparr>)
          | Some e \<Rightarrow> Inr (False, if e = ErrGasLimitReached then c else c\<lparr>cm_failedTxs := cm_failedTxs c @ [tx]\<rparr>)))"

function commitLoop :: "zkEnv \<Rightarrow> (Transaction \<Rightarrow> address option) \<Rightarrow> bool \<Rightarrow> byPriceAndNonce \<Rightarrow> committing \<Rightarrow> committing res" where
  "commitLoop Z signer isEIP155 t c = (case bp_Peek t of
     None \<Rightarrow> Inr c
   | Some tx \<Rightarrow> (case commitNext Z isEIP155 tx c of
       Inl e \<Rightarrow> Inl e
     | Inr (shift, c) \<Rightarrow> (case (if shift then bp_Shift signer t else bp_Pop t) of
         Inl e \<Rightarrow> Inl e
       | Inr t \<Rightarrow> commitLoop Z signer isEIP155 t c)))"
  by pat_completeness auto
termination
  by (relation "measure (\<lambda>(Z, signer, eip, t, c). bp_left t)") (auto simp: bp_Pop_left bp_Shift_left split: if_splits)

declare commitLoop.simps [simp del]

definition commitTransactions :: "zkEnv \<Rightarrow> (Transaction \<Rightarrow> address option) \<Rightarrow> bool \<Rightarrow> int \<Rightarrow> byPriceAndNonce \<Rightarrow> Work \<Rightarrow> nat \<Rightarrow> Transaction list \<Rightarrow> committing res" where
  "commitTransactions Z signer isEIP155 gasLimit t w tcount failedTxs =
     commitLoop Z signer isEIP155 t \<lparr>cm_work = w, cm_gp = AddGas gasLimit 0, cm_tcount = tcount, cm_failedTxs = failedTxs, cm_logs = []\<rparr>"

section \<open>The order of the transactions in a block\<close>

text \<open>
  A transaction has at least the price of the first transaction that each other account has after it.
\<close>

definition bestFirst :: "(Transaction \<Rightarrow> address) \<Rightarrow> Transaction list \<Rightarrow> bool" where
  "bestFirst owner out \<longleftrightarrow> (\<forall>j<length out. \<forall>i<j. (\<forall>k. i \<le> k \<longrightarrow> k < j \<longrightarrow> owner (out ! k) \<noteq> owner (out ! j)) \<longrightarrow> tx_Price (out ! j) \<le> tx_Price (out ! i))"

definition lookupTxs :: "(address \<times> Transaction list) list \<Rightarrow> address \<Rightarrow> Transaction list" where
  "lookupTxs m a = (case mget m a of Some l \<Rightarrow> l | None \<Rightarrow> [])"

definition picking :: "(Transaction \<Rightarrow> address) \<Rightarrow> (address \<times> Transaction list) list \<Rightarrow> byPriceAndNonce \<Rightarrow> Transaction list \<Rightarrow> bool" where
  "picking owner all t out \<longleftrightarrow> is_heap byPrice (bp_heads t) \<and> distinct (map owner (bp_heads t)) \<and> mkeys (bp_txs t) = mkeys all \<and>
     (\<forall>h\<in>set (bp_heads t). lookupTxs all (owner h) = filter (\<lambda>x. owner x = owner h) out @ h # lookupTxs (bp_txs t) (owner h)) \<and>
     (\<forall>a. prefix (filter (\<lambda>x. owner x = a) out) (lookupTxs all a)) \<and> bestFirst owner out \<and>
     (\<forall>h\<in>set (bp_heads t). \<forall>i<length out. (\<forall>k. i \<le> k \<longrightarrow> k < length out \<longrightarrow> owner (out ! k) \<noteq> owner h) \<longrightarrow> tx_Price h \<le> tx_Price (out ! i))"

lemma bestFirst_snoc:
  assumes "bestFirst owner out"
    and "\<forall>i<length out. (\<forall>k. i \<le> k \<longrightarrow> k < length out \<longrightarrow> owner (out ! k) \<noteq> owner h) \<longrightarrow> tx_Price h \<le> tx_Price (out ! i)"
  shows "bestFirst owner (out @ [h])"
  using assms by (auto simp: bestFirst_def nth_append less_Suc_eq)

lemma picking_pop:
  assumes p: "picking owner all t out" and t: "bp_Pop t = Inr t'"
  shows "picking owner all t' out"
proof -
  have h: "is_heap byPrice (bp_heads t)" "bp_heads t \<noteq> []" and t': "t' = t\<lparr>bp_heads := snd (heap_Pop byPrice (bp_heads t))\<rparr>"
    using p t by (auto simp: picking_def bp_Pop_def split: if_splits)
  note hh = hp.heap_pop [OF h]
  have "mset (map owner (bp_heads t)) = mset (owner (hd (bp_heads t)) # map owner (bp_heads t'))" using hh by (simp add: t')
  then have "distinct (map owner (bp_heads t'))" using p mset_eq_imp_distinct_iff unfolding picking_def by (metis distinct.simps(2))
  moreover have "set (bp_heads t') \<subseteq> set (bp_heads t)" using pop_set [OF h] by (auto simp: t')
  ultimately show ?thesis using p hh by (auto simp: picking_def t')
qed

text \<open>What follows when the transaction at the front goes into the block.\<close>

lemma picking_out:
  assumes p: "picking owner all t out" and h: "bp_heads t \<noteq> []"
  defines "tx \<equiv> hd (bp_heads t)"
  shows "bestFirst owner (out @ [tx])" and "\<forall>a. prefix (filter (\<lambda>x. owner x = a) (out @ [tx])) (lookupTxs all a)"
    and "\<forall>h\<in>set (bp_heads t). owner h \<noteq> owner tx \<longrightarrow> lookupTxs all (owner h) = filter (\<lambda>x. owner x = owner h) (out @ [tx]) @ h # lookupTxs (bp_txs t) (owner h)"
    and "\<forall>h. (h \<in> set (bp_heads t) \<or> owner h = owner tx) \<longrightarrow> (\<forall>i<length (out @ [tx]). (\<forall>k. i \<le> k \<longrightarrow> k < length (out @ [tx]) \<longrightarrow> owner ((out @ [tx]) ! k) \<noteq> owner h) \<longrightarrow> tx_Price h \<le> tx_Price ((out @ [tx]) ! i))"
proof -
  have m: "tx \<in> set (bp_heads t)" using h by (simp add: tx_def)
  show "bestFirst owner (out @ [tx])" using p m by (intro bestFirst_snoc) (auto simp: picking_def)
  have "lookupTxs all (owner tx) = filter (\<lambda>x. owner x = owner tx) out @ tx # lookupTxs (bp_txs t) (owner tx)" using p m by (simp add: picking_def)
  then show "\<forall>a. prefix (filter (\<lambda>x. owner x = a) (out @ [tx])) (lookupTxs all a)" using p by (auto simp: picking_def prefix_def)
  show "\<forall>h\<in>set (bp_heads t). owner h \<noteq> owner tx \<longrightarrow> lookupTxs all (owner h) = filter (\<lambda>x. owner x = owner h) (out @ [tx]) @ h # lookupTxs (bp_txs t) (owner h)"
    using p by (auto simp: picking_def)
  have top: "\<forall>h\<in>set (bp_heads t). tx_Price h \<le> tx_Price tx"
    using hp.heap_top [of byPrice "bp_heads t"] p by (auto simp: picking_def byPrice_def tx_def)
  show "\<forall>h. (h \<in> set (bp_heads t) \<or> owner h = owner tx) \<longrightarrow> (\<forall>i<length (out @ [tx]). (\<forall>k. i \<le> k \<longrightarrow> k < length (out @ [tx]) \<longrightarrow> owner ((out @ [tx]) ! k) \<noteq> owner h) \<longrightarrow> tx_Price h \<le> tx_Price ((out @ [tx]) ! i))"
  proof (intro allI impI)
    fix h i assume a: "h \<in> set (bp_heads t) \<or> owner h = owner tx" and i: "i < length (out @ [tx])"
      and k: "\<forall>k. i \<le> k \<longrightarrow> k < length (out @ [tx]) \<longrightarrow> owner ((out @ [tx]) ! k) \<noteq> owner h"
    have "owner tx \<noteq> owner h" using k [rule_format, of "length out"] i by simp
    then have hin: "h \<in> set (bp_heads t)" using a by auto
    show "tx_Price h \<le> tx_Price ((out @ [tx]) ! i)"
    proof (cases "i < length out")
      case True
      have "\<forall>k. i \<le> k \<longrightarrow> k < length out \<longrightarrow> owner (out ! k) \<noteq> owner h" using k by (metis length_append_singleton less_SucI nth_append)
      then show ?thesis using p hin True by (simp add: picking_def nth_append)
    next
      case False
      then show ?thesis using i top hin by (simp add: nth_append)
    qed
  qed
qed

lemma picking_take:
  assumes p: "picking owner all t out" and ne: "bp_heads t \<noteq> []" and t: "bp_Pop t = Inr t'"
  shows "picking owner all t' (out @ [hd (bp_heads t)])"
proof -
  note q = picking_pop [OF p t] note o = picking_out [OF p ne]
  have t': "t' = t\<lparr>bp_heads := snd (heap_Pop byPrice (bp_heads t))\<rparr>" using t ne by (simp add: bp_Pop_def)
  have h: "is_heap byPrice (bp_heads t)" using p by (simp add: picking_def)
  have "mset (map owner (bp_heads t)) = mset (owner (hd (bp_heads t)) # map owner (bp_heads t'))" using hp.heap_pop [OF h ne] by (simp add: t')
  then have "distinct (owner (hd (bp_heads t)) # map owner (bp_heads t'))" using p mset_eq_imp_distinct_iff unfolding picking_def by metis
  then have n: "\<forall>h\<in>set (bp_heads t'). owner h \<noteq> owner (hd (bp_heads t))" by (metis distinct.simps(2) image_eqI image_set)
  have sub: "set (bp_heads t') \<subseteq> set (bp_heads t)" using pop_set [OF h ne] by (auto simp: t')
  have "\<forall>h\<in>set (bp_heads t'). lookupTxs all (owner h) = filter (\<lambda>x. owner x = owner h) (out @ [hd (bp_heads t)]) @ h # lookupTxs (bp_txs t') (owner h)"
    using o(3) n sub by (auto simp: t')
  then show ?thesis using q o(1,2,4) sub unfolding picking_def by blast
qed

lemma picking_shift:
  assumes p: "picking owner all t out" and ne: "bp_heads t \<noteq> []" and t: "bp_Shift signer t = Inr t'"
    and own: "\<forall>a. \<forall>x\<in>set (lookupTxs all a). owner x = a \<and> (signer x = Some a \<or> signer x = None \<and> mget all 0 = None)"
  shows "picking owner all t' (out @ [hd (bp_heads t)])"
proof -
  let ?h = "hd (bp_heads t)"
  let ?acc = "case signer ?h of Some a \<Rightarrow> a | None \<Rightarrow> 0"
  have nth: "bp_heads t ! 0 = ?h" using ne by (simp add: hd_conv_nth)
  have lh: "lookupTxs all (owner ?h) = filter (\<lambda>x. owner x = owner ?h) out @ ?h # lookupTxs (bp_txs t) (owner ?h)" using p ne by (simp add: picking_def)
  then have sg: "signer ?h = Some (owner ?h) \<or> signer ?h = None \<and> mget all 0 = None" using own [rule_format, of ?h "owner ?h"] by simp
  show ?thesis
  proof (cases "\<exists>tx txs. mget (bp_txs t) ?acc = Some (tx # txs)")
    case False
    then have "bp_Shift signer t = bp_Pop t" using ne by (auto simp: bp_Shift_def Let_def nth split: option.splits list.splits)
    then show ?thesis using picking_take [OF p ne] t by simp
  next
    case True
    then obtain tx txs where m: "mget (bp_txs t) ?acc = Some (tx # txs)" by blast
    have keys: "mkeys (bp_txs t) = mkeys all" using p by (simp add: picking_def)
    have "mget all ?acc \<noteq> None" using m keys by (metis mget_keys option.distinct(1))
    then have acc: "?acc = owner ?h" using sg by auto
    have t': "t' = t\<lparr>bp_heads := heap_Fix byPrice 0 ((bp_heads t)[0 := tx]), bp_txs := mput (owner ?h) txs (bp_txs t)\<rparr>"
      using t ne m acc by (simp add: bp_Shift_def Let_def nth)
    have rest: "lookupTxs (bp_txs t) (owner ?h) = tx # txs" using m acc by (simp add: lookupTxs_def)
    have otx: "owner tx = owner ?h" using own [rule_format, of tx "owner ?h"] lh rest by simp
    have h: "is_heap byPrice (bp_heads t)" using p by (simp add: picking_def)
    have f: "is_heap byPrice (bp_heads t')" "mset (bp_heads t') = mset ((bp_heads t)[0 := tx])" using hp.heap_refix [OF h, of 0 tx] ne by (auto simp: t')
    have u: "(bp_heads t)[0 := tx] = tx # tl (bp_heads t)" "bp_heads t = ?h # tl (bp_heads t)" using ne by (cases "bp_heads t"; simp)+
    have d: "distinct (map owner (bp_heads t))" using p by (simp add: picking_def)
    have d0: "distinct (owner ?h # map owner (tl (bp_heads t)))" using d u(2) by (metis list.simps(9))
    have "mset (map owner (bp_heads t')) = mset (owner ?h # map owner (tl (bp_heads t)))" unfolding mset_map f(2) u(1) by (simp add: otx)
    then have d': "distinct (map owner (bp_heads t'))" using d0 mset_eq_imp_distinct_iff by metis
    have s: "set (bp_heads t') = insert tx (set (tl (bp_heads t)))" using f(2) u(1) by (metis list.simps(15) set_mset_mset)
    have n: "\<forall>h\<in>set (tl (bp_heads t)). h \<in> set (bp_heads t) \<and> owner h \<noteq> owner ?h" using d0 u(2) by (metis distinct.simps(2) image_eqI image_set list.set_intros(2))
    have k: "mkeys (bp_txs t') = mkeys all" using keys m acc mget_keys [of "bp_txs t" "owner ?h"] by (simp add: t' mkeys_put_same)
    note o = picking_out [OF p ne]
    have l: "\<forall>h\<in>set (bp_heads t'). lookupTxs all (owner h) = filter (\<lambda>x. owner x = owner h) (out @ [?h]) @ h # lookupTxs (bp_txs t') (owner h)"
    proof
      fix h assume "h \<in> set (bp_heads t')"
      then consider "h = tx" | "h \<in> set (tl (bp_heads t))" using s by auto
      then show "lookupTxs all (owner h) = filter (\<lambda>x. owner x = owner h) (out @ [?h]) @ h # lookupTxs (bp_txs t') (owner h)"
      proof cases
        case 1
        then show ?thesis using lh rest otx by (simp add: t' lookupTxs_def)
      next
        case 2
        then show ?thesis using n o(3) by (auto simp: t' lookupTxs_def)
      qed
    qed
    have "\<forall>h\<in>set (bp_heads t'). h \<in> set (bp_heads t) \<or> owner h = owner ?h" using s n otx by auto
    then show ?thesis using f(1) d' k l o(1,2,4) unfolding picking_def by blast
  qed
qed

lemma takeHeads_spec:
  assumes "takeHeads m = Inr (heads, txs)"
  shows "\<forall>(a, l)\<in>set m. l \<noteq> []" and "heads = map (hd \<circ> snd) m" and "txs = map (\<lambda>(a, l). (a, tl l)) m"
  using assms
proof (induction m arbitrary: heads txs)
  case (Cons p m)
  case 1 then show ?case using Cons.IH by (cases p) (auto simp: bind_res_Inr_iff split: list.splits)
  case 2 then show ?case using Cons.IH by (cases p) (auto simp: bind_res_Inr_iff split: list.splits)
  case 3 then show ?case using Cons.IH by (cases p) (auto simp: bind_res_Inr_iff split: list.splits)
qed auto

lemma picking_new:
  assumes d: "distinct (mkeys all)" and t: "NewTransactionsByPriceAndNonce all = Inr t"
    and own: "\<forall>a. \<forall>x\<in>set (lookupTxs all a). owner x = a"
  shows "picking owner all t []"
proof -
  obtain heads txs where h: "takeHeads all = Inr (heads, txs)" and t: "t = \<lparr>bp_txs = txs, bp_heads = heap_Init byPrice heads\<rparr>"
    using t by (auto simp: NewTransactionsByPriceAndNonce_def bind_res_Inr_iff)
  note s = takeHeads_spec [OF h]
  have i: "is_heap byPrice (bp_heads t)" "mset (bp_heads t) = mset heads" using hp.heap_init [of byPrice heads] by (auto simp: t)
  have get: "lookupTxs all a = l" if "(a, l) \<in> set all" for a l using mget_SomeI [OF d that] by (simp add: lookupTxs_def)
  have o: "owner (hd l) = a" if "(a, l) \<in> set all" for a l
    using own [rule_format, of "hd l" a] get [OF that] s(1) that by force
  have ho: "map owner heads = mkeys all" using o by (auto simp: s(2) mkeys_def)
  have k: "mkeys (bp_txs t) = mkeys all" by (simp add: t s(3) mkeys_def split_def)
  have tl: "lookupTxs (bp_txs t) a = tl l" if "(a, l) \<in> set all" for a l
    using mget_SomeI [of "bp_txs t" a "tl l"] that d k by (force simp: lookupTxs_def t s(3))
  have "mset (map owner (bp_heads t)) = mset (map owner heads)" using i(2) by simp
  then have "distinct (map owner (bp_heads t))" using ho d mset_eq_imp_distinct_iff by metis
  moreover have "lookupTxs all (owner h) = h # lookupTxs (bp_txs t) (owner h)" if "h \<in> set (bp_heads t)" for h
  proof -
    have "h \<in> set heads" using that i(2) by (metis set_mset_mset)
    then obtain a l where l: "(a, l) \<in> set all" "h = hd l" by (auto simp: s(2))
    then show ?thesis using get [OF l(1)] tl [OF l(1)] o [OF l(1)] s(1) by fastforce
  qed
  ultimately show ?thesis using i k by (simp add: picking_def bestFirst_def)
qed

lemma commitTransaction_txs:
  assumes "commitTransaction Z tx gp w = Inr (err, lg, gp', w')"
  shows "w_txs w' = w_txs w @ (if err = None then [tx] else [])"
proof -
  let ?s = "Snapshot (w_state w)"
  obtain r g u s where a: "ApplyTransaction Z tx gp (w_gasUsed w) (snd ?s) = Inr (r, g, u, s)"
    using assms by (cases "ApplyTransaction Z tx gp (w_gasUsed w) (snd ?s)") (auto simp: commitTransaction_def Let_def case_prod_beta)
  show ?thesis
  proof (cases r)
    case (Inl e)
    then show ?thesis using assms a by (auto simp: commitTransaction_def Let_def case_prod_beta bind_res_Inr_iff)
  next
    case (Inr receipt)
    then show ?thesis using assms a by (auto simp: commitTransaction_def Let_def case_prod_beta)
  qed
qed

lemma commitNext_txs:
  assumes "commitNext Z eip tx c = Inr (shift, c')"
  shows "w_txs (cm_work c') = w_txs (cm_work c) @ (if shift then [tx] else []) \<and> cm_tcount c' = cm_tcount c + (if shift then 1 else 0)"
proof (cases "tx_TxType tx = TxNormal \<and> tx_Protected tx \<and> \<not> eip")
  case True
  then show ?thesis using assms by (auto simp: commitNext_def)
next
  case False
  let ?w = "(cm_work c)\<lparr>w_state := sdb_Prepare (zk_txHash Z tx) 0 (cm_tcount c) (w_state (cm_work c))\<rparr>"
  obtain err logs gp w where m: "commitTransaction Z tx (cm_gp c) ?w = Inr (err, logs, gp, w)"
    using assms False by (cases "commitTransaction Z tx (cm_gp c) ?w") (auto simp: commitNext_def Let_def)
  have "w_txs w = w_txs (cm_work c) @ (if err = None then [tx] else [])"
    using commitTransaction_txs [OF m] by simp
  then show ?thesis using assms False m by (auto simp: commitNext_def Let_def split: option.splits)
qed

lemma commitLoop_order:
  assumes "picking owner all t (w_txs (cm_work c))" and "commitLoop Z signer eip t c = Inr c'"
    and own: "\<forall>a. \<forall>x\<in>set (lookupTxs all a). owner x = a \<and> (signer x = Some a \<or> signer x = None \<and> mget all 0 = None)"
  shows "(\<forall>a. prefix (filter (\<lambda>x. owner x = a) (w_txs (cm_work c'))) (lookupTxs all a)) \<and> bestFirst owner (w_txs (cm_work c')) \<and>
    int (cm_tcount c') - int (length (w_txs (cm_work c'))) = int (cm_tcount c) - int (length (w_txs (cm_work c)))"
  using assms
proof (induction Z signer eip t c rule: commitLoop.induct)
  case (1 Z signer eip t c)
  show ?case
  proof (cases "bp_Peek t")
    case None
    then show ?thesis using 1 by (auto simp: commitLoop.simps picking_def)
  next
    case (Some tx)
    then have ne: "bp_heads t \<noteq> []" and tx: "tx = hd (bp_heads t)" by (auto simp: bp_Peek_def hd_conv_nth split: if_splits)
    obtain shift c1 where c1: "commitNext Z eip tx c = Inr (shift, c1)"
      using 1(3) Some by (cases "commitNext Z eip tx c") (auto simp: commitLoop.simps [of Z signer eip t c])
    obtain t1 where t1: "(if shift then bp_Shift signer t else bp_Pop t) = Inr t1"
      using 1(3) Some c1 by (cases "if shift then bp_Shift signer t else bp_Pop t") (auto simp: commitLoop.simps [of Z signer eip t c])
    have rec: "commitLoop Z signer eip t1 c1 = Inr c'" using 1(3) Some c1 t1 by (simp add: commitLoop.simps [of Z signer eip t c])
    note w = commitNext_txs [OF c1]
    have "picking owner all t1 (w_txs (cm_work c1))"
    proof (cases shift)
      case True
      then show ?thesis using picking_shift [OF 1(2) ne _ 1(4)] t1 w tx by simp
    next
      case False
      then show ?thesis using picking_pop [OF 1(2)] t1 w by simp
    qed
    from 1(1) [OF Some c1 refl t1 this rec 1(4)] show ?thesis using w by (auto split: if_splits)
  qed
qed

end
