(* ===== verification/Tx_Properties.thy ===== *)
theory Tx_Properties
  imports Tx_By_Price Zk_Properties
begin

text \<open>
  The properties of the lists of the transaction pool, of the transactions by price and of the order in which the miner takes them,
  with concrete instances.
\<close>

section \<open>Lists by nonce\<close>

text \<open>C27: Whatever is done to a \<open>txSortedMap\<close> after it is made, no operation panics, and each returns what the
  same operations return on a plain list in the order of the nonces: the heap of nonces and the cached order cannot be told from it.\<close>

theorem sorted_map_refines_list: "sm_run xs newTxSortedMap = Inr (list_run xs [])"
  using sm_run_refines [OF sm_ok_new(1), of xs] by (simp add: sm_ok_new(2))

text \<open>C36: \<open>Filter\<close> of an account list drops exactly the transactions above one of the limits, although it may return early on
  the cost and gas caps it keeps. A strict list keeps what comes before the first of them and hands back the rest as invalid, another list keeps
  everything else.\<close>

theorem account_list_filter_exact:
  assumes "tl_reach strict l" and "tl_Filter costLimit gasLimit l = ((drops, invalids), l')"
  shows "mset drops = mset (filter (tooDear costLimit gasLimit) (fst (tl_Flatten l))) \<and>
    fst (tl_Flatten l') = (if strict then takeWhile (\<lambda>tx. \<not> tooDear costLimit gasLimit tx) (fst (tl_Flatten l))
      else filter (\<lambda>tx. \<not> tooDear costLimit gasLimit tx) (fst (tl_Flatten l))) \<and>
    mset (fst (tl_Flatten l)) = mset drops + mset invalids + mset (fst (tl_Flatten l'))"
proof -
  note ok = tl_reach_ok [OF assms(1)]
  note s = tl_Filter_spec [OF conjunct1 [OF ok], of costLimit gasLimit, unfolded assms(2)]
  have f: "fst (tl_Flatten k) = inOrder (tl_txs k)" if "tl_ok k" for k using tl_Flatten_ok [OF that] by auto
  show ?thesis using s ok by (simp add: f del: mset_filter)
qed

definition exNonce :: "int \<Rightarrow> u64 \<Rightarrow> Transaction" where
  "exNonce price nonce = (exTx TxNormal 0 0 3 nonce)\<lparr>tx_Price := price\<rparr>"

definition exAccountList :: txList where
  "exAccountList = snd (tl_Add (exNonce 1 6) 10 (snd (tl_Add (exNonce 9 5) 10 (snd (tl_Add (exNonce 2 4) 10 (newTxList True))))))"

theorem account_list_filter_exact_witness:
  "let ((drops, invalids), l') = tl_Filter 100000 50000 exAccountList
   in mset drops = {#exNonce 9 5#} \<and> mset [exNonce 2 4, exNonce 9 5, exNonce 1 6] = mset drops + mset invalids + mset (fst (tl_Flatten l')) \<and>
     fst (tl_Flatten l') = [exNonce 2 4]"
proof -
  have r: "tl_reach True exAccountList" unfolding exAccountList_def by (intro tl_reach.intros)
  have f: "fst (tl_Flatten exAccountList) = [exNonce 2 4, exNonce 9 5, exNonce 1 6]" by code_simp
  have d: "map (tooDear 100000 50000) [exNonce 2 4, exNonce 9 5, exNonce 1 6] = [False, True, False]" by code_simp
  obtain drops invalids l' where e: "tl_Filter 100000 50000 exAccountList = ((drops, invalids), l')" by (metis surj_pair)
  show ?thesis using account_list_filter_exact [OF r e] d by (simp add: e f)
qed

section \<open>Prices\<close>

lemma mset_filter_parts: "mset xs = mset ys + mset zs \<Longrightarrow> mset (filter p xs) = mset (filter p ys) + mset (filter p zs)"
  by simp

text \<open>C35: \<open>Discard\<close> drops as many transactions as it is asked for, or all that are known and not local; of these it drops the
  cheapest, and everything else that is known stays in the price list, which is a heap again.\<close>

theorem discard_drops_cheapest:
  assumes "is_heap tx_Price (pl_items l)" and "pl_Discard H all n locals l = (gone, l')"
  shows "(\<forall>x\<in>set gone. mhas all (H x) \<and> \<not> containsTx locals x) \<and>
    length gone = min (nat n) (length (filter (\<lambda>x. mhas all (H x) \<and> \<not> containsTx locals x) (pl_items l))) \<and>
    (\<forall>x\<in>set gone. \<forall>y\<in>set (pl_items l'). mhas all (H y) \<and> \<not> containsTx locals y \<longrightarrow> tx_Price x \<le> tx_Price y) \<and>
    mset (filter (\<lambda>x. mhas all (H x)) (pl_items l)) = mset gone + mset (filter (\<lambda>x. mhas all (H x)) (pl_items l')) \<and>
    is_heap tx_Price (pl_items l')"
proof -
  let ?k = "\<lambda>x. mhas all (H x)"
  obtain save items stales where d: "discardPrices ?k n locals (pl_items l) (pl_stales l) = (gone, save, items, stales)"
    and l': "l' = \<lparr>pl_items = fold (heap_Push tx_Price) save items, pl_stales = stales\<rparr>"
    using assms(2) by (auto simp: pl_Discard_def split: prod.splits)
  note s = discardPrices_spec [OF assms(1) d]
  have p: "is_heap tx_Price (pl_items l')" "mset (pl_items l') = mset save + mset items" using push_all [of tx_Price items save] s by (simp_all add: l')
  then have set: "set (pl_items l') = set save \<union> set items" by (metis set_mset_mset set_mset_union)
  have sv: "filter ?k save = save" using s by (simp add: filter_id_conv)
  have "mset (filter ?k (pl_items l)) = mset gone + mset (filter ?k (pl_items l'))" using s unfolding mset_filter_parts [OF p(2)] sv by (simp del: mset_filter)
  moreover have "length (filter (\<lambda>x. ?k x \<and> \<not> containsTx locals x) (pl_items l)) = length gone + length (filter (\<lambda>x. ?k x \<and> \<not> containsTx locals x) items)"
  proof -
    let ?r = "\<lambda>x. \<not> containsTx locals x"
    have "mset (filter ?k (pl_items l)) = mset (gone @ save) + mset (filter ?k items)" using s by (simp del: mset_filter)
    note m = mset_filter_parts [OF this, of ?r]
    have g: "filter ?r (gone @ save) = gone" using s by (simp add: filter_empty_conv filter_id_conv)
    have "mset (filter (\<lambda>x. ?k x \<and> ?r x) (pl_items l)) = mset gone + mset (filter (\<lambda>x. ?k x \<and> ?r x) items)"
      using m unfolding g by (simp del: mset_filter)
    from arg_cong [OF this, of size] show ?thesis by (simp del: mset_filter)
  qed
  then have "length gone = min (nat n) (length (filter (\<lambda>x. ?k x \<and> \<not> containsTx locals x) (pl_items l)))" using s by (cases "length gone < nat n") auto
  ultimately show ?thesis using s p(1) set by auto
qed

definition exPriced :: txPricedList where
  "exPriced = fold pl_Put [exNonce 5 0, exNonce 3 1, exNonce 8 2, exNonce 4 3] newTxPricedList"

definition exKnown :: "(hash \<times> Transaction) list" where
  "exKnown = [(0, exNonce 5 0), (1, exNonce 3 1), (2, exNonce 8 2), (3, exNonce 4 3)]"

definition exByNonce :: "Transaction \<Rightarrow> hash" where
  "exByNonce tx = ucast (tx_AccountNonce tx)"

lemma exPriced_heap: "is_heap tx_Price (pl_items exPriced)"
  by code_simp

theorem discard_drops_cheapest_witness:
  "let (gone, l') = pl_Discard exByNonce exKnown 2 (newAccountSet tx_Sender) exPriced
   in length gone = 2 \<and> is_heap tx_Price (pl_items l') \<and> (\<forall>x\<in>set gone. \<forall>y\<in>set (pl_items l'). mhas exKnown (exByNonce y) \<longrightarrow> tx_Price x \<le> tx_Price y)"
proof -
  obtain gone l' where e: "pl_Discard exByNonce exKnown 2 (newAccountSet tx_Sender) exPriced = (gone, l')" by (metis surj_pair)
  have n: "\<not> containsTx (newAccountSet tx_Sender) x" for x by (simp add: containsTx_def newAccountSet_def as_contains_def split: option.splits)
  have "length (filter (\<lambda>x. mhas exKnown (exByNonce x) \<and> \<not> containsTx (newAccountSet tx_Sender) x) (pl_items exPriced)) = 4" by code_simp
  then show ?thesis using discard_drops_cheapest [OF exPriced_heap e] by (simp add: e n)
qed

text \<open>\<open>Cap\<close> of the price list drops the known transactions below the threshold that are not local, and keeps the local ones. Of those that
  are not below the threshold it loses one, if there is any: it is neither dropped nor in the list any more.\<close>

theorem price_cap_loses_one:
  assumes "is_heap tx_Price (pl_items l)" and "pl_Cap H all threshold locals l = (gone, l')"
  shows "mset gone = mset (filter (\<lambda>x. mhas all (H x) \<and> tx_Price x < threshold \<and> \<not> containsTx locals x) (pl_items l)) \<and>
    (\<exists>lost. mset (filter (\<lambda>x. mhas all (H x)) (pl_items l)) = mset gone + mset lost + mset (filter (\<lambda>x. mhas all (H x)) (pl_items l')) \<and>
      length lost = (if \<exists>x\<in>set (pl_items l). mhas all (H x) \<and> tx_Price x \<ge> threshold then 1 else 0))"
proof -
  let ?k = "\<lambda>x. mhas all (H x)"
  obtain save items stales where d: "capPrices ?k threshold locals (pl_items l) (pl_stales l) = (gone, save, items, stales)"
    and l': "l' = \<lparr>pl_items = fold (heap_Push tx_Price) save items, pl_stales = stales\<rparr>"
    using assms(2) by (auto simp: pl_Cap_def split: prod.splits)
  note s = capPrices_spec [OF assms(1) d]
  obtain lost where lost: "mset (filter (\<lambda>x. ?k x \<and> tx_Price x \<ge> threshold) (pl_items l)) = mset (filter ?k items) + mset lost"
    "length lost = (if \<exists>x\<in>set (pl_items l). ?k x \<and> tx_Price x \<ge> threshold then 1 else 0)" using s by blast
  have p: "mset (pl_items l') = mset save + mset items" using push_all [of tx_Price items save] s by (simp add: l')
  have "set save \<subseteq> {x. ?k x}" using s by (metis (mono_tags, lifting) mem_Collect_eq mset_eq_setD set_filter subsetI)
  then have sv: "filter ?k save = save" by (auto simp: filter_id_conv)
  have part: "mset (filter ?k xs) = mset (filter (\<lambda>x. ?k x \<and> tx_Price x < threshold \<and> \<not> containsTx locals x) xs) +
    mset (filter (\<lambda>x. ?k x \<and> tx_Price x < threshold \<and> containsTx locals x) xs) + mset (filter (\<lambda>x. ?k x \<and> tx_Price x \<ge> threshold) xs)" for xs
    by (induction xs) auto
  have "mset (filter ?k (pl_items l')) = mset save + mset (filter ?k items)" unfolding mset_filter_parts [OF p] sv by (rule refl)
  then have "mset (filter ?k (pl_items l)) = mset gone + mset lost + mset (filter ?k (pl_items l'))"
    unfolding part [of "pl_items l"] lost(1) using s by (simp del: mset_filter add: ac_simps)
  then show ?thesis using s lost(2) by blast
qed

theorem price_cap_loses_one_witness:
  "let (gone, l') = pl_Cap exByNonce exKnown 4 (newAccountSet tx_Sender) exPriced
   in mset gone = {#exNonce 3 1#} \<and> length (filter (\<lambda>x. mhas exKnown (exByNonce x)) (pl_items l')) = 2"
proof -
  obtain gone l' where e: "pl_Cap exByNonce exKnown 4 (newAccountSet tx_Sender) exPriced = (gone, l')" by (metis surj_pair)
  note c = price_cap_loses_one [OF exPriced_heap e]
  have f: "filter (\<lambda>x. mhas exKnown (exByNonce x) \<and> tx_Price x < 4 \<and> \<not> containsTx (newAccountSet tx_Sender) x) (pl_items exPriced) = [exNonce 3 1]" by code_simp
  then have g: "mset gone = {#exNonce 3 1#}" using c by (simp del: mset_filter)
  have "list_ex (\<lambda>x. mhas exKnown (exByNonce x) \<and> tx_Price x \<ge> 4) (pl_items exPriced)" by code_simp
  then obtain lost where l: "mset (filter (\<lambda>x. mhas exKnown (exByNonce x)) (pl_items exPriced)) = mset gone + mset lost + mset (filter (\<lambda>x. mhas exKnown (exByNonce x)) (pl_items l'))"
    "length lost = 1" using c unfolding list_ex_iff by auto
  have "length (filter (\<lambda>x. mhas exKnown (exByNonce x)) (pl_items exPriced)) = 4" by code_simp
  moreover have "length gone = 1" using g by (metis size_mset size_single)
  ultimately have "length (filter (\<lambda>x. mhas exKnown (exByNonce x)) (pl_items l')) = 2"
    using l(2) arg_cong [OF l(1), of size] by (simp del: mset_filter)
  then show ?thesis using g by (simp add: e)
qed

section \<open>The order of a block\<close>

text \<open>C34: When the miner's loop over the pending transactions returns, the block holds, for every account, the first transactions of its list in their
  order, without a gap; a transaction comes before one of another account only if it pays at least the price of the first transaction that account has
  after it; and the counter of the loop has gone up by the number of transactions. The transactions of an account have to be attributed to it, or to no account.\<close>

theorem mined_in_order:
  assumes "distinct (mkeys txs)" and "NewTransactionsByPriceAndNonce txs = Inr t"
    and "\<forall>a. \<forall>x\<in>set (lookupTxs txs a). owner x = a \<and> (signer x = Some a \<or> signer x = None \<and> mget txs 0 = None)"
    and "w_txs w = []" and "commitTransactions Z signer isEIP155 gasLimit t w tcount failedTxs = Inr c"
  shows "(\<forall>a. prefix (filter (\<lambda>x. owner x = a) (w_txs (cm_work c))) (lookupTxs txs a)) \<and> bestFirst owner (w_txs (cm_work c)) \<and>
    cm_tcount c = tcount + length (w_txs (cm_work c))"
proof -
  have "picking owner txs t []" using picking_new [OF assms(1,2)] assms(3) by blast
  then have "picking owner txs t (w_txs w)" using assms(4) by simp
  then have "picking owner txs t (w_txs (cm_work \<lparr>cm_work = w, cm_gp = AddGas gasLimit 0, cm_tcount = tcount, cm_failedTxs = failedTxs, cm_logs = []\<rparr>))" by simp
  from commitLoop_order [OF this assms(5) [unfolded commitTransactions_def] assms(3)] show ?thesis using assms(4) by simp
qed

definition exMined :: "u64 \<Rightarrow> int \<Rightarrow> address \<Rightarrow> Transaction" where
  "exMined nonce price a = (exNonce price nonce)\<lparr>tx_Sender := Some a, tx_V := 27\<rparr>"

definition exPending :: "(address \<times> Transaction list) list" where
  "exPending = [(2, [exMined 0 0 2]), (1, [exMined 0 1 1, exMined 1 2 1])]"

theorem mined_in_order_witness:
  "\<exists>t c. NewTransactionsByPriceAndNonce exPending = Inr t \<and> commitTransactions exZk tx_Sender True 100000 t exWork 0 [] = Inr c \<and>
     cm_tcount c = length (w_txs (cm_work c)) \<and> bestFirst (\<lambda>x. the (tx_Sender x)) (w_txs (cm_work c)) \<and>
     w_txs (cm_work c) = [exMined 0 1 1, exMined 1 2 1, exMined 0 0 2]"
proof -
  have "case NewTransactionsByPriceAndNonce exPending of Inr t \<Rightarrow> (case commitTransactions exZk tx_Sender True 100000 t exWork 0 [] of
      Inr c \<Rightarrow> w_txs (cm_work c) = [exMined 0 1 1, exMined 1 2 1, exMined 0 0 2] | Inl _ \<Rightarrow> False) | Inl _ \<Rightarrow> False" by code_simp
  then obtain t c where e: "NewTransactionsByPriceAndNonce exPending = Inr t" "commitTransactions exZk tx_Sender True 100000 t exWork 0 [] = Inr c"
    "w_txs (cm_work c) = [exMined 0 1 1, exMined 1 2 1, exMined 0 0 2]" by (auto split: sum.splits)
  have "distinct (mkeys exPending)" by code_simp
  moreover have "\<forall>a. \<forall>x\<in>set (lookupTxs exPending a). the (tx_Sender x) = a \<and> (tx_Sender x = Some a \<or> tx_Sender x = None \<and> mget exPending 0 = None)"
    by (simp add: lookupTxs_def exPending_def mget_def exMined_def)
  moreover have "w_txs exWork = []" by (simp add: exWork_def)
  ultimately show ?thesis using mined_in_order [OF _ e(1) _ _ e(2), of "\<lambda>x. the (tx_Sender x)", unfolded add_0] e by blast
qed

end
