(* ===== verification/Cross_Proof.thy ===== *)
theory Cross_Proof
  imports Eng_Verify Zk_Processor
begin

text \<open>
  Proofs of cross-chain transactions: the hash of a transaction (\<open>ZKHashTx\<close> of \<open>core/types/transaction.go\<close>), the root of a
  list of transactions (\<open>merkleTree/merkle.go\<close>), and the check of a proof, which leads from a transaction of one chain over
  blocks of the chains above it to a block of the root chain (\<open>ValidateCrossChainTx\<close> of \<open>core/tx_pool.go\<close>).

  The hash and the Merkle root of the C++ library, RLP decoding and the hash of a byte slice are parameters
  (\<open>crossEnv\<close>), and so are the level and the name of the chain. Decoding reads one value from the front of the bytes. The
  database is a map from keys to values, or nil.
\<close>

record crossEnv =
  x_eng :: engEnv
  x_Chash :: "bytes \<Rightarrow> hash"
  x_genRoot :: "hash list \<Rightarrow> hash"
  x_decodeTx :: "bytes \<Rightarrow> Transaction option"
  x_decodeBlock :: "bytes \<Rightarrow> (Header \<times> Transaction list) option"
  x_Hash :: "bytes \<Rightarrow> hash"
  x_TotalLevel :: u32
  x_ID :: bytes

type_synonym database = "(bytes \<times> bytes) list option"

definition hashBytes :: "hash \<Rightarrow> bytes" where
  "hashBytes h = map (\<lambda>i. ucast (drop_bit (8 * i) h)) (rev [0..<32])"

section \<open>Hashes\<close>

text \<open>The hash that stands for no header and for an empty leaf: 32 bytes 0xff.\<close>

definition emptynode :: hash where
  "emptynode = - 1"

definition ZKHashTx :: "crossEnv \<Rightarrow> Transaction \<Rightarrow> hash res" where
  "ZKHashTx X tx =
     (let header = (case tx_Headers tx of h # _ \<Rightarrow> h | [] \<Rightarrow> emptynode) in
      case tx_Sender tx of
        None \<Rightarrow> Inl (Panic ''nil Sender'')
      | Some a \<Rightarrow> Inr (x_Chash X (hashBytes (tx_ZKSN tx) @ hashBytes (tx_ZKCMTbal tx) @ hashBytes header @ addressBytes a)))"

definition TxMerkleNODES :: nat where
  "TxMerkleNODES = 16"

definition GenTxRoot :: "crossEnv \<Rightarrow> hash list \<Rightarrow> hash" where
  "GenTxRoot X nodes =
     (if length nodes > TxMerkleNODES then 0
      else x_genRoot X (nodes @ replicate (TxMerkleNODES - length nodes) emptynode))"

fun txHashes :: "crossEnv \<Rightarrow> Transaction list \<Rightarrow> hash list res" where
  "txHashes X [] = Inr []"
| "txHashes X (tx # txs) = bind_res (ZKHashTx X tx) (\<lambda>h. bind_res (txHashes X txs) (\<lambda>hs. Inr (h # hs)))"

definition DeriveShaTx :: "crossEnv \<Rightarrow> Transaction list \<Rightarrow> hash res" where
  "DeriveShaTx X txs = bind_res (txHashes X txs) (\<lambda>hs. Inr (GenTxRoot X hs))"

section \<open>The check of a proof\<close>

definition RootChainBlockHashSuffix :: bytes where "RootChainBlockHashSuffix = [4]"
definition TxProofSuffix :: bytes where "TxProofSuffix = [5]"

definition checkHeaderExist :: "Transaction \<Rightarrow> hash \<Rightarrow> bool" where
  "checkHeaderExist tx h \<longleftrightarrow> h \<in> set (tx_Headers tx)"

definition ValidateProofRoot :: "hash \<Rightarrow> database \<Rightarrow> bool" where
  "ValidateProofRoot h db = (case db of None \<Rightarrow> True | Some d \<Rightarrow> mhas d (hashBytes h @ RootChainBlockHashSuffix))"

definition ValidateProofAlreadyExist :: "crossEnv \<Rightarrow> bytes \<Rightarrow> database \<Rightarrow> bool" where
  "ValidateProofAlreadyExist X proof db = (case db of None \<Rightarrow> False | Some d \<Rightarrow> mhas d (hashBytes (x_Hash X proof) @ TxProofSuffix))"

text \<open>The loop over the transactions of the first block: it looks at all of them.\<close>

fun containTx :: "crossEnv \<Rightarrow> hash \<Rightarrow> Transaction list \<Rightarrow> bool \<Rightarrow> bool res" where
  "containTx X h [] found = Inr found"
| "containTx X h (tx # txs) found = bind_res (ZKHashTx X tx) (\<lambda>g. containTx X h txs (if g = h then True else found))"

text \<open>The loop over the blocks of the chains above: the hash of the last one, or none if a block does not hold the hash before it.\<close>

fun climb :: "crossEnv \<Rightarrow> bytes list \<Rightarrow> hash \<Rightarrow> hash option" where
  "climb X [] h = Some h"
| "climb X (p # ps) h = (case x_decodeBlock X p of
     None \<Rightarrow> None
   | Some (header, txs) \<Rightarrow> if list_ex (\<lambda>t. checkHeaderExist t h) txs then climb X ps (ZKHashBlock (x_eng X) header) else None)"

definition VerifyProof :: "crossEnv \<Rightarrow> bytes list \<Rightarrow> database \<Rightarrow> bool res" where
  "VerifyProof X proof db =
     (if length proof < 2 then Inr False
      else case x_decodeTx X (proof ! 0) of
        None \<Rightarrow> Inr False
      | Some tx \<Rightarrow> (case x_decodeBlock X (proof ! 1) of
          None \<Rightarrow> Inr False
        | Some (header, txs) \<Rightarrow>
            bind_res (ZKHashTx X tx) (\<lambda>h. bind_res (containTx X h txs False) (\<lambda>found.
              if \<not> found then Inr False
              else bind_res (DeriveShaTx X txs) (\<lambda>root.
                if root \<noteq> h_TxHash header then Inr False
                else case climb X (drop 2 proof) (ZKHashBlock (x_eng X) header) of
                  None \<Rightarrow> Inr False
                | Some summit \<Rightarrow> Inr (ValidateProofRoot summit db \<and> \<not> ValidateProofAlreadyExist X (proof ! 0) db))))))"

datatype crosserr = WrongProofSize | DecodeTxErr | DecodeBlockErr | WrongProof | WrongSender | WrongValue

definition ValidateCrossChainTx :: "crossEnv \<Rightarrow> Transaction \<Rightarrow> database \<Rightarrow> crosserr option res" where
  "ValidateCrossChainTx X tx db =
     (let proof = tx_CrossTxProof tx in
      if length proof \<noteq> unat (x_TotalLevel X) + 1 then Inr (Some WrongProofSize)
      else case x_decodeTx X (proof ! 0) of
        None \<Rightarrow> Inr (Some DecodeTxErr)
      | Some oldtx \<Rightarrow>
          if length proof < 2 then Inl (Panic ''index out of range'')
          else case x_decodeBlock X (proof ! 1) of
            None \<Rightarrow> Inr (Some DecodeBlockErr)
          | Some _ \<Rightarrow>
              bind_res (VerifyProof X proof db) (\<lambda>ok.
                if \<not> ok then Inr (Some WrongProof)
                else case tx_Sender oldtx of
                  None \<Rightarrow> Inl (Panic ''nil Sender'')
                | Some s \<Rightarrow>
                    if tx_CrossChainSender tx \<noteq> s then Inr (Some WrongSender)
                    else case tx_Recipient tx of
                      None \<Rightarrow> Inl (Panic ''nil Recipient'')
                    | Some r \<Rightarrow>
                        if r \<noteq> tx_CrossChainRecipient oldtx then Inr (Some WrongSender)
                        else if tx_Amount tx > tx_Amount oldtx then Inr (Some WrongValue)
                        else Inr None))"

text \<open>\<open>validateTx\<close> records the proof of a cross-chain transaction as used; a nil database panics.\<close>

definition recordProof :: "crossEnv \<Rightarrow> Transaction \<Rightarrow> database \<Rightarrow> database res" where
  "recordProof X tx db = (case tx_CrossTxProof tx of
     [] \<Rightarrow> Inr db
   | p # _ \<Rightarrow> (case db of None \<Rightarrow> Inl (Panic ''nil database'') | Some d \<Rightarrow> Inr (Some (mput (hashBytes (x_Hash X p) @ TxProofSuffix) p d))))"

section \<open>What the check means\<close>

text \<open>The blocks lead from one hash to another: each holds a transaction with the hash of the block before it.\<close>

inductive carried :: "crossEnv \<Rightarrow> hash \<Rightarrow> bytes list \<Rightarrow> hash \<Rightarrow> bool" for X :: crossEnv where
  carried_end: "carried X h [] h"
| carried_up: "x_decodeBlock X p = Some (header, txs) \<Longrightarrow> t \<in> set txs \<Longrightarrow> checkHeaderExist t h \<Longrightarrow>
    carried X (ZKHashBlock (x_eng X) header) ps summit \<Longrightarrow> carried X h (p # ps) summit"

inductive_simps carried_Nil: "carried X h [] summit"
inductive_simps carried_Cons: "carried X h (p # ps) summit"

lemma climb_carried: "climb X ps h = Some summit \<longleftrightarrow> carried X h ps summit"
  by (induction ps arbitrary: h) (auto simp: carried_Nil carried_Cons list_ex_iff split: option.splits)

lemma ZKHashTx_total: "tx_Sender tx \<noteq> None \<Longrightarrow> \<exists>h. ZKHashTx X tx = Inr h"
  by (auto simp: ZKHashTx_def Let_def)

lemma containTx_spec:
  assumes "\<forall>t\<in>set txs. tx_Sender t \<noteq> None"
  shows "containTx X h txs found = Inr (found \<or> (\<exists>t\<in>set txs. ZKHashTx X t = Inr h))"
  using assms
proof (induction txs arbitrary: found)
  case (Cons t txs)
  then obtain g where "ZKHashTx X t = Inr g" using ZKHashTx_total by fastforce
  then show ?case using Cons by auto
qed simp

lemma DeriveShaTx_total:
  assumes "\<forall>t\<in>set txs. tx_Sender t \<noteq> None"
  shows "\<exists>r. DeriveShaTx X txs = Inr r"
proof -
  have "\<exists>hs. txHashes X txs = Inr hs" using assms
  proof (induction txs)
    case (Cons t txs)
    then obtain g where "ZKHashTx X t = Inr g" using ZKHashTx_total by fastforce
    then show ?case using Cons by auto
  qed simp
  then show ?thesis by (auto simp: DeriveShaTx_def)
qed

text \<open>A proof as the check reads it: the transaction, the block that holds it and the blocks above.\<close>

definition provenBy :: "crossEnv \<Rightarrow> database \<Rightarrow> bytes \<Rightarrow> bytes \<Rightarrow> bytes list \<Rightarrow> Transaction \<Rightarrow> bool" where
  "provenBy X db p0 p1 ps old \<longleftrightarrow>
     x_decodeTx X p0 = Some old \<and>
     (\<exists>header txs summit. x_decodeBlock X p1 = Some (header, txs) \<and> (\<exists>t\<in>set txs. ZKHashTx X t = ZKHashTx X old) \<and>
        DeriveShaTx X txs = Inr (h_TxHash header) \<and> carried X (ZKHashBlock (x_eng X) header) ps summit \<and> ValidateProofRoot summit db) \<and>
     \<not> ValidateProofAlreadyExist X p0 db"

definition sendersPresent :: "crossEnv \<Rightarrow> bytes \<Rightarrow> bytes \<Rightarrow> bool" where
  "sendersPresent X p0 p1 \<longleftrightarrow> (\<forall>tx. x_decodeTx X p0 = Some tx \<longrightarrow> tx_Sender tx \<noteq> None) \<and>
     (\<forall>header txs. x_decodeBlock X p1 = Some (header, txs) \<longrightarrow> (\<forall>t\<in>set txs. tx_Sender t \<noteq> None))"

lemma VerifyProof_spec:
  assumes s: "sendersPresent X p0 p1"
  shows "VerifyProof X (p0 # p1 # ps) db = Inr (\<exists>old. provenBy X db p0 p1 ps old)"
proof (cases "x_decodeTx X p0")
  case None
  then show ?thesis by (simp add: VerifyProof_def provenBy_def)
next
  case (Some old)
  obtain h where h: "ZKHashTx X old = Inr h" using s Some ZKHashTx_total by (metis sendersPresent_def)
  show ?thesis
  proof (cases "x_decodeBlock X p1")
    case None
    then show ?thesis using Some by (simp add: VerifyProof_def provenBy_def)
  next
    case s2: (Some b)
    obtain header txs where b: "b = (header, txs)" by (cases b)
    have t: "\<forall>t\<in>set txs. tx_Sender t \<noteq> None" using s s2 b by (simp add: sendersPresent_def)
    obtain root where r: "DeriveShaTx X txs = Inr root" using DeriveShaTx_total [OF t] by blast
    show ?thesis
      by (cases "climb X ps (ZKHashBlock (x_eng X) header)")
        (auto simp: VerifyProof_def provenBy_def Some s2 b h r containTx_spec [OF t] climb_carried [symmetric])
  qed
qed

text \<open>What is checked of a cross-chain transaction besides its proof.\<close>

definition claimFits :: "Transaction \<Rightarrow> Transaction \<Rightarrow> bool" where
  "claimFits tx old \<longleftrightarrow> tx_Sender old = Some (tx_CrossChainSender tx) \<and> tx_Recipient tx = Some (tx_CrossChainRecipient old) \<and> tx_Amount tx \<le> tx_Amount old"

lemma ValidateCrossChainTx_spec:
  assumes p: "tx_CrossTxProof tx = p0 # p1 # ps" and s: "sendersPresent X p0 p1"
  shows "ValidateCrossChainTx X tx db = Inr None \<longleftrightarrow>
    length ps + 1 = unat (x_TotalLevel X) \<and> (\<exists>old. provenBy X db p0 p1 ps old \<and> claimFits tx old)"
proof (cases "x_decodeTx X p0")
  case None
  then show ?thesis by (auto simp: ValidateCrossChainTx_def Let_def p provenBy_def)
next
  case (Some old)
  show ?thesis
  proof (cases "length ps + 1 = unat (x_TotalLevel X)")
    case False
    then show ?thesis by (auto simp: ValidateCrossChainTx_def Let_def p)
  next
    case True
    then have l: "length (p0 # p1 # ps) = unat (x_TotalLevel X) + 1" by simp
    have u: "provenBy X db p0 p1 ps oo \<longleftrightarrow> oo = old \<and> provenBy X db p0 p1 ps old" for oo using Some by (auto simp: provenBy_def)
    show ?thesis
    proof (cases "x_decodeBlock X p1")
      case None
      then show ?thesis using Some l by (auto simp: ValidateCrossChainTx_def Let_def p provenBy_def)
    next
      case s2: (Some b)
      have "(\<exists>oo. provenBy X db p0 p1 ps oo) \<longleftrightarrow> provenBy X db p0 p1 ps old" using u by blast
      then have v: "VerifyProof X (p0 # p1 # ps) db = Inr (provenBy X db p0 p1 ps old)" using VerifyProof_spec [OF s, of ps db] by simp
      have e: "(\<exists>oo. provenBy X db p0 p1 ps oo \<and> claimFits tx oo) \<longleftrightarrow> provenBy X db p0 p1 ps old \<and> claimFits tx old" using u by metis
      show ?thesis unfolding e using True l Some s2 v
        by (auto simp: ValidateCrossChainTx_def Let_def p claimFits_def split: option.splits)
    qed
  qed
qed

end
