(* ===== verification/Tx_Pool.thy ===== *)
theory Tx_Pool
  imports Tx_Runs Cross_Proof
begin

text \<open>
  The transaction pool (\<open>core/tx_pool.go\<close>): validation, insertion, replacement and removal of transactions, the move of
  executable transactions from the queue of an account to its pending list and back, and the limits on their number.

  Parameters (\<open>poolEnv\<close>): the size of a transaction, the recovery of a sender from an ECDSA signature, the check of a HIBE
  signature, and the order in which the priority queue of the package \<open>prque\<close> returns its entries. What the callbacks
  \<open>currentState\<close> and \<open>gasLimit\<close> return, when there is a state, is an argument (\<open>poolView\<close>), and so is the clock. Every operation runs under the lock of
  the pool. Metrics, log output and the events that are posted are left out.

  The hash and the sender of a transaction dereference its \<open>Sender\<close>; \<open>add\<close> does this first and panics there. Later uses, for
  transactions that are in the pool, are written with the total functions \<open>txHash\<close> and \<open>fromOf\<close>.
\<close>

unbundle bit_operations_syntax

section \<open>Configuration and state\<close>

record TxPoolConfig =
  cf_NoLocals :: bool
  cf_PriceLimit :: u64
  cf_PriceBump :: u64
  cf_AccountSlots :: u64
  cf_GlobalSlots :: u64
  cf_AccountQueue :: u64
  cf_GlobalQueue :: u64
  cf_Lifetime :: int

definition DefaultTxPoolConfig :: TxPoolConfig where
  "DefaultTxPoolConfig = \<lparr>cf_NoLocals = False, cf_PriceLimit = 1, cf_PriceBump = 10, cf_AccountSlots = 16, cf_GlobalSlots = 4096,
     cf_AccountQueue = 64, cf_GlobalQueue = 1024, cf_Lifetime = 3 * 3600 * 10 ^ 9\<rparr>"

definition sanitize :: "TxPoolConfig \<Rightarrow> TxPoolConfig" where
  "sanitize conf =
     (let conf = (if cf_PriceLimit conf < 1 then conf\<lparr>cf_PriceLimit := cf_PriceLimit DefaultTxPoolConfig\<rparr> else conf) in
      if cf_PriceBump conf < 1 then conf\<lparr>cf_PriceBump := cf_PriceBump DefaultTxPoolConfig\<rparr> else conf)"

record poolEnv =
  P_config :: TxPoolConfig
  P_cross :: crossEnv
  P_Size :: "Transaction \<Rightarrow> int"
  P_recover :: "Transaction \<Rightarrow> address option"
  P_hibeVerify :: "Transaction \<Rightarrow> bool"
  P_prque :: "(address \<times> int) list \<Rightarrow> address list"

text \<open>What the callbacks of the pool return: nonces and balances of the current state and the gas limit of the current block.\<close>

record poolView =
  pv_nonce :: "address \<Rightarrow> u64"
  pv_balance :: "address \<Rightarrow> int"
  pv_gasLimit :: int

text \<open>
  \<open>ManagedState\<close>, as far as the pool uses it: a copy of the state and the nonces that were set on top of it.
\<close>

record ManagedState =
  ms_state :: "address \<Rightarrow> u64"
  ms_accounts :: "(address \<times> u64) list"

definition ManageState :: "poolView \<Rightarrow> ManagedState" where
  "ManageState v = \<lparr>ms_state = pv_nonce v, ms_accounts = []\<rparr>"

definition ms_GetNonce :: "address \<Rightarrow> ManagedState \<Rightarrow> u64" where
  "ms_GetNonce a m = (case mget (ms_accounts m) a of Some n \<Rightarrow> n | None \<Rightarrow> ms_state m a)"

definition ms_SetNonce :: "address \<Rightarrow> u64 \<Rightarrow> ManagedState \<Rightarrow> ManagedState" where
  "ms_SetNonce a n m = m\<lparr>ms_accounts := mput a n (ms_accounts m)\<rparr>"

record TxPool =
  tp_pendingState :: ManagedState
  tp_gasPrice :: int
  tp_locals :: accountSet
  tp_pending :: "(address \<times> txList) list"
  tp_queue :: "(address \<times> txList) list"
  tp_beats :: "(address \<times> int) list"
  tp_all :: "(hash \<times> Transaction) list"
  tp_priced :: txPricedList
  tp_homestead :: bool
  tp_db :: database

datatype poolerr =
    ErrInvalidSender | ErrNonceTooLow | ErrUnderpriced | ErrReplaceUnderpriced | ErrInsufficientFunds | ErrIntrinsicGas
  | ErrGasLimit | ErrNegativeValue | ErrOversizedData | KnownTransaction | ErrCrossChain crosserr

section \<open>Senders\<close>

text \<open>\<open>StringToAddress\<close> of forty letters f keeps the last twenty.\<close>

definition zkAbstractAddress :: address where
  "zkAbstractAddress = bytesAddress (replicate 20 0x66)"

definition zkSender :: "Transaction \<Rightarrow> address option res" where
  "zkSender tx =
     (if tx_TxCode tx \<in> {TxConvert, TxRedeem, TxDeposit, TxWithdraw}
      then case tx_Sender tx of None \<Rightarrow> Inl (Panic ''nil Sender'') | Some a \<Rightarrow> Inr (Some a)
      else Inr (Some zkAbstractAddress))"

definition hibeSender :: "poolEnv \<Rightarrow> Transaction \<Rightarrow> address option res" where
  "hibeSender P tx =
     (if tx_TxType tx = TxCrossChain \<and> tx_Recipient tx = None then Inl (Panic ''nil Recipient'')
      else case tx_Sender tx of
        None \<Rightarrow> Inl (Panic ''nil Sender'')
      | Some a \<Rightarrow> Inr (if P_hibeVerify P tx then Some a else None))"

text \<open>\<open>types.Sender\<close> with the signer that belongs to the type of a transaction.\<close>

definition senderOf :: "poolEnv \<Rightarrow> Transaction \<Rightarrow> address option res" where
  "senderOf P tx =
     (if tx_TxType tx = TxNormal then Inr (P_recover P tx)
      else if tx_TxType tx \<in> {TxDhibe, TxHeader, TxCrossChain} then hibeSender P tx
      else if tx_TxType tx = TxZK then zkSender tx
      else Inl (Panic ''nil Signer''))"

definition fromOf :: "poolEnv \<Rightarrow> Transaction \<Rightarrow> address" where
  "fromOf P tx = (case senderOf P tx of Inr (Some a) \<Rightarrow> a | _ \<Rightarrow> 0)"

text \<open>
  \<open>types.Sender\<close> with the signer of the pool, for a transaction that has been validated: the cached sender of a transaction
  of type ZK is taken for every signer, as its signer claims to equal all others.
\<close>

definition localSender :: "poolEnv \<Rightarrow> Transaction \<Rightarrow> address option" where
  "localSender P tx = (if tx_TxType tx = TxZK then Some (fromOf P tx) else P_recover P tx)"

definition txHash :: "poolEnv \<Rightarrow> Transaction \<Rightarrow> hash" where
  "txHash P tx = (case ZKHashTx (P_cross P) tx of Inr h \<Rightarrow> h | Inl _ \<Rightarrow> 0)"

section \<open>Validation\<close>

text \<open>\<open>string(b)\<close> of a byte is its UTF-8 encoding.\<close>

definition utf8Byte :: "8 word \<Rightarrow> bytes" where
  "utf8Byte b = (if b < 0x80 then [b] else [0xC0 OR drop_bit 6 b, 0x80 OR (b AND 0x3F)])"

definition AddressID :: "address \<Rightarrow> bytes" where
  "AddressID a = concat (map utf8Byte (takeWhile (\<lambda>b. b \<noteq> 0) (take 16 (addressBytes a))))"

definition PID :: "bytes \<Rightarrow> bytes res" where
  "PID i = (if i = [] then Inr [] else if length i < 2 then Inl (Panic ''slice bounds out of range'') else Inr (take (length i - 2) i))"

text \<open>The last part of \<open>validateTx\<close>: the proof of a cross-chain transaction.\<close>

definition validateCross :: "poolEnv \<Rightarrow> Transaction \<Rightarrow> TxPool \<Rightarrow> (poolerr option \<times> TxPool) res" where
  "validateCross P tx pool = (case tx_Recipient tx of
     None \<Rightarrow> Inl (Panic ''nil Recipient'')
   | Some recipient \<Rightarrow>
       if tx_TxType tx \<noteq> TxCrossChain then Inr (None, pool)
       else bind_res (PID (AddressID recipient)) (\<lambda>pid.
         bind_res (if pid = x_ID (P_cross P) then ValidateCrossChainTx (P_cross P) tx (tp_db pool) else Inr None) (\<lambda>err.
           case err of
             Some e \<Rightarrow> Inr (Some (ErrCrossChain e), pool)
           | None \<Rightarrow> bind_res (recordProof (P_cross P) tx (tp_db pool)) (\<lambda>db. Inr (None, pool\<lparr>tp_db := db\<rparr>)))))"

definition validateTx :: "poolEnv \<Rightarrow> poolView \<Rightarrow> Transaction \<Rightarrow> bool \<Rightarrow> TxPool \<Rightarrow> (poolerr option \<times> TxPool) res" where
  "validateTx P v tx local pool =
     (if P_Size P tx > 32 * 1024 then Inr (Some ErrOversizedData, pool)
      else if tx_Amount tx < 0 then Inr (Some ErrNegativeValue, pool)
      else if pv_gasLimit v < tx_GasLimit tx then Inr (Some ErrGasLimit, pool)
      else bind_res (senderOf P tx) (\<lambda>r.
        case r of
          None \<Rightarrow> Inr (Some ErrInvalidSender, pool)
        | Some from \<Rightarrow>
            let local = (local \<or> as_contains from (tp_locals pool)); pool = pool\<lparr>tp_gasPrice := 0\<rparr> in
            if \<not> local \<and> tp_gasPrice pool > tx_Price tx then Inr (Some ErrUnderpriced, pool)
            else if pv_nonce v from > tx_AccountNonce tx then Inr (Some ErrNonceTooLow, pool)
            else if pv_balance v from < tx_Cost tx then Inr (Some ErrInsufficientFunds, pool)
            else if tx_TxType tx = TxZK \<and> tx_TxCode tx \<in> {TxConvert, TxDeposit} \<and> word_of_int (pv_balance v from) < tx_ZKValue tx
              then Inr (Some ErrInsufficientFunds, pool)
            else if tx_GasLimit tx < IntrinsicGas (tx_Payload tx) (tx_Recipient tx = None) (tp_homestead pool)
              then Inr (Some ErrIntrinsicGas, pool)
            else validateCross P tx pool))"

section \<open>Queue and pending list\<close>

definition forget :: "hash \<Rightarrow> TxPool \<Rightarrow> TxPool" where
  "forget h pool = (let all = mdel h (tp_all pool) in pool\<lparr>tp_all := all, tp_priced := pl_Removed all (tp_priced pool)\<rparr>)"

definition remember :: "hash \<Rightarrow> Transaction \<Rightarrow> TxPool \<Rightarrow> TxPool" where
  "remember h tx pool = pool\<lparr>tp_all := mput h tx (tp_all pool), tp_priced := pl_Put tx (tp_priced pool)\<rparr>"

definition forgetOld :: "poolEnv \<Rightarrow> Transaction option \<Rightarrow> TxPool \<Rightarrow> TxPool" where
  "forgetOld P old pool = (case old of None \<Rightarrow> pool | Some o' \<Rightarrow> forget (txHash P o') pool)"

definition listOr :: "bool \<Rightarrow> txList option \<Rightarrow> txList" where
  "listOr strict l = (case l of Some l \<Rightarrow> l | None \<Rightarrow> newTxList strict)"

definition enqueueTx :: "poolEnv \<Rightarrow> hash \<Rightarrow> Transaction \<Rightarrow> TxPool \<Rightarrow> (poolerr + bool) \<times> TxPool" where
  "enqueueTx P h tx pool =
     (let from = fromOf P tx; ((inserted, old), l) = tl_Add tx (cf_PriceBump (P_config P)) (listOr False (mget (tp_queue pool) from));
          pool = pool\<lparr>tp_queue := mput from l (tp_queue pool)\<rparr>
      in if \<not> inserted then (Inl ErrReplaceUnderpriced, pool)
         else (Inr (old \<noteq> None), remember h tx (forgetOld P old pool)))"

definition promoteTx :: "poolEnv \<Rightarrow> int \<Rightarrow> address \<Rightarrow> hash \<Rightarrow> Transaction \<Rightarrow> TxPool \<Rightarrow> TxPool" where
  "promoteTx P now addr h tx pool =
     (let ((inserted, old), l) = tl_Add tx (cf_PriceBump (P_config P)) (listOr True (mget (tp_pending pool) addr));
          pool = pool\<lparr>tp_pending := mput addr l (tp_pending pool)\<rparr>
      in if \<not> inserted then forget h pool
         else
           let pool = forgetOld P old pool;
               pool = (if mget (tp_all pool) h = None then remember h tx pool else pool)
           in pool\<lparr>tp_beats := mput addr now (tp_beats pool),
                tp_pendingState := ms_SetNonce addr (tx_AccountNonce tx + 1) (tp_pendingState pool)\<rparr>)"

text \<open>The nonce of an account is lowered to that of a transaction that leaves its pending list.\<close>

definition lowerNonce :: "address \<Rightarrow> u64 \<Rightarrow> TxPool \<Rightarrow> TxPool" where
  "lowerNonce addr n pool =
     (if ms_GetNonce addr (tp_pendingState pool) > n then pool\<lparr>tp_pendingState := ms_SetNonce addr n (tp_pendingState pool)\<rparr> else pool)"

definition removeQueued :: "address \<Rightarrow> Transaction \<Rightarrow> TxPool \<Rightarrow> TxPool" where
  "removeQueued addr tx pool = (case mget (tp_queue pool) addr of
     None \<Rightarrow> pool
   | Some l \<Rightarrow> let l = snd (tl_Remove tx l) in pool\<lparr>tp_queue := (if tl_Empty l then mdel addr (tp_queue pool) else mput addr l (tp_queue pool))\<rparr>)"

definition removeTx :: "poolEnv \<Rightarrow> hash \<Rightarrow> TxPool \<Rightarrow> TxPool" where
  "removeTx P h pool = (case mget (tp_all pool) h of
     None \<Rightarrow> pool
   | Some tx \<Rightarrow>
       let addr = fromOf P tx; pool = forget h pool in
       case mget (tp_pending pool) addr of
         None \<Rightarrow> removeQueued addr tx pool
       | Some l \<Rightarrow>
           let ((removed, invalids), l) = tl_Remove tx l in
           if removed
           then lowerNonce addr (tx_AccountNonce tx)
             (if tl_Empty l then pool\<lparr>tp_pending := mdel addr (tp_pending pool), tp_beats := mdel addr (tp_beats pool)\<rparr>
              else fold (\<lambda>t pool. snd (enqueueTx P (txHash P t) t pool)) invalids (pool\<lparr>tp_pending := mput addr l (tp_pending pool)\<rparr>))
           else removeQueued addr tx pool)"

section \<open>Insertion\<close>

text \<open>Making room in a full pool.\<close>

definition makeRoom :: "poolEnv \<Rightarrow> Transaction \<Rightarrow> TxPool \<Rightarrow> poolerr option \<times> TxPool" where
  "makeRoom P tx pool =
     (let limit = cf_GlobalSlots (P_config P) + cf_GlobalQueue (P_config P) in
      if of_nat (length (tp_all pool)) \<ge> limit
      then
        let (under, priced) = pl_Underpriced (txHash P) (tp_all pool) tx (tp_locals pool) (tp_priced pool); pool = pool\<lparr>tp_priced := priced\<rparr> in
        if under then (Some ErrUnderpriced, pool)
        else
          let (gone, priced) = pl_Discard (txHash P) (tp_all pool) (int (length (tp_all pool)) - sint (limit - 1)) (tp_locals pool) (tp_priced pool)
          in (None, fold (\<lambda>t. removeTx P (txHash P t)) gone (pool\<lparr>tp_priced := priced\<rparr>))
      else (None, pool))"

definition tp_insert :: "poolEnv \<Rightarrow> hash \<Rightarrow> Transaction \<Rightarrow> bool \<Rightarrow> TxPool \<Rightarrow> (poolerr + bool) \<times> TxPool" where
  "tp_insert P h tx local pool =
     (let from = fromOf P tx in
      case mget (tp_pending pool) from of
        Some l \<Rightarrow>
          if tl_Overlaps tx l
          then let ((inserted, old), l) = tl_Add tx (cf_PriceBump (P_config P)) l; pool = pool\<lparr>tp_pending := mput from l (tp_pending pool)\<rparr> in
            if \<not> inserted then (Inl ErrReplaceUnderpriced, pool)
            else (Inr (old \<noteq> None), remember h tx (forgetOld P old pool))
          else (case enqueueTx P h tx pool of
              (Inl e, pool) \<Rightarrow> (Inl e, pool)
            | (Inr replace, pool) \<Rightarrow> (Inr replace, if local then pool\<lparr>tp_locals := as_add from (tp_locals pool)\<rparr> else pool))
      | None \<Rightarrow> (case enqueueTx P h tx pool of
            (Inl e, pool) \<Rightarrow> (Inl e, pool)
          | (Inr replace, pool) \<Rightarrow> (Inr replace, if local then pool\<lparr>tp_locals := as_add from (tp_locals pool)\<rparr> else pool)))"

definition tp_add :: "poolEnv \<Rightarrow> poolView \<Rightarrow> Transaction \<Rightarrow> bool \<Rightarrow> TxPool \<Rightarrow> ((poolerr + bool) \<times> TxPool) res" where
  "tp_add P v tx local pool = bind_res (ZKHashTx (P_cross P) tx) (\<lambda>h.
     if mget (tp_all pool) h \<noteq> None then Inr (Inl KnownTransaction, pool)
     else bind_res (validateTx P v tx local pool) (\<lambda>(err, pool).
       case err of
         Some e \<Rightarrow> Inr (Inl e, pool)
       | None \<Rightarrow> (case makeRoom P tx pool of
           (Some e, pool) \<Rightarrow> Inr (Inl e, pool)
         | (None, pool) \<Rightarrow> Inr (tp_insert P h tx local pool))))"

end
