(* ===== verification/Tx_Pool_Ops.thy ===== *)
theory Tx_Pool_Ops
  imports Tx_Pool
begin

text \<open>
  The operations of the transaction pool that go over many accounts: promotion with its limits, demotion, reset to a new state,
  batches of transactions, eviction and queries (\<open>core/tx_pool.go\<close>).

  The loops that even out the pending lists get as many rounds as the list that bounds them has transactions, and report
  \<open>OutOfDepth\<close> beyond that. The heartbeat of an account that has none is 0, before all others. Accounts with the same heartbeat
  are taken in the order of the queue map.
\<close>

section \<open>Promotion\<close>

definition forgetEach :: "poolEnv \<Rightarrow> Transaction option list \<Rightarrow> TxPool \<Rightarrow> TxPool res" where
  "forgetEach P txs = fold_res (\<lambda>t pool. case t of None \<Rightarrow> Inl (Panic ''nil Transaction'') | Some t \<Rightarrow> Inr (forget (txHash P t) pool)) txs"

definition setQueue :: "address \<Rightarrow> txList \<Rightarrow> TxPool \<Rightarrow> TxPool" where
  "setQueue addr l pool = pool\<lparr>tp_queue := mput addr l (tp_queue pool)\<rparr>"

definition setPending :: "address \<Rightarrow> txList \<Rightarrow> TxPool \<Rightarrow> TxPool" where
  "setPending addr l pool = pool\<lparr>tp_pending := mput addr l (tp_pending pool)\<rparr>"

text \<open>The promotion loop of \<open>promoteExecutables\<close> for one account.\<close>

definition promoteReady :: "poolEnv \<Rightarrow> int \<Rightarrow> address \<Rightarrow> Transaction option \<Rightarrow> TxPool \<Rightarrow> TxPool res" where
  "promoteReady P now addr t pool = (case t of None \<Rightarrow> Inl (Panic ''nil Transaction'') | Some t \<Rightarrow> Inr (promoteTx P now addr (txHash P t) t pool))"

definition capQueue :: "poolEnv \<Rightarrow> address \<Rightarrow> txList \<Rightarrow> TxPool \<Rightarrow> (txList \<times> TxPool) res" where
  "capQueue P addr l pool =
     (if as_contains addr (tp_locals pool) then Inr (l, pool)
      else bind_res (tl_Cap (sint (cf_AccountQueue (P_config P))) l) (\<lambda>(drops, l).
        bind_res (forgetEach P drops (setQueue addr l pool)) (\<lambda>pool. Inr (l, pool))))"

definition promoteAccount :: "poolEnv \<Rightarrow> poolView \<Rightarrow> int \<Rightarrow> address \<Rightarrow> TxPool \<Rightarrow> TxPool res" where
  "promoteAccount P v now addr pool = (case mget (tp_queue pool) addr of
     None \<Rightarrow> Inr pool
   | Some l \<Rightarrow>
       let ((drops, _), l) = tl_Filter (pv_balance v addr) (pv_gasLimit v) l;
           pool = fold (\<lambda>t. forget (txHash P t)) drops (setQueue addr l pool);
           (ready, l) = tl_Ready (ms_GetNonce addr (tp_pendingState pool)) l
       in bind_res (fold_res (promoteReady P now addr) ready (setQueue addr l pool)) (\<lambda>pool.
          bind_res (capQueue P addr l pool) (\<lambda>(l, pool).
            Inr (if tl_Empty l then pool\<lparr>tp_queue := mdel addr (tp_queue pool)\<rparr> else pool))))"

section \<open>The limit on pending transactions\<close>

definition lenOf :: "address \<Rightarrow> TxPool \<Rightarrow> int res" where
  "lenOf addr pool = (case mget (tp_pending pool) addr of None \<Rightarrow> Inl (Panic ''nil txList'') | Some l \<Rightarrow> Inr (tl_Len l))"

definition countTxs :: "(address \<times> txList) list \<Rightarrow> u64" where
  "countTxs m = sum_list (map (\<lambda>(a, l). word_of_int (tl_Len l)) m)"

definition capPending :: "poolEnv \<Rightarrow> address \<Rightarrow> TxPool \<Rightarrow> TxPool res" where
  "capPending P addr pool = (case mget (tp_pending pool) addr of
     None \<Rightarrow> Inl (Panic ''nil txList'')
   | Some l \<Rightarrow> bind_res (tl_Cap (tl_Len l - 1) l) (\<lambda>(drops, l).
       fold_res (\<lambda>t pool. case t of None \<Rightarrow> Inl (Panic ''nil Transaction'')
           | Some t \<Rightarrow> Inr (lowerNonce addr (tx_AccountNonce t) (forget (txHash P t) pool)))
         drops (setPending addr l pool)))"

fun capRound :: "poolEnv \<Rightarrow> address list \<Rightarrow> TxPool \<times> u64 \<Rightarrow> (TxPool \<times> u64) res" where
  "capRound P [] (pool, n) = Inr (pool, n)"
| "capRound P (a # as) (pool, n) = bind_res (capPending P a pool) (\<lambda>pool. capRound P as (pool, n - 1))"

text \<open>Rounds over some accounts while there are too many pending transactions and the list of one of them is too long.\<close>

fun capRounds :: "poolEnv \<Rightarrow> nat \<Rightarrow> (int \<Rightarrow> bool) \<Rightarrow> address \<Rightarrow> address list \<Rightarrow> TxPool \<times> u64 \<Rightarrow> (TxPool \<times> u64) res" where
  "capRounds P 0 long a as (pool, n) = Inl OutOfDepth"
| "capRounds P (Suc k) long a as (pool, n) =
     (if n > cf_GlobalSlots (P_config P)
      then bind_res (lenOf a pool) (\<lambda>len.
        if long len then bind_res (capRound P as (pool, n)) (capRounds P k long a as) else Inr (pool, n))
      else Inr (pool, n))"

definition roundsFor :: "address \<Rightarrow> TxPool \<Rightarrow> nat" where
  "roundsFor a pool = (case lenOf a pool of Inr n \<Rightarrow> nat n + 1 | Inl _ \<Rightarrow> 1)"

fun gatherOffenders :: "poolEnv \<Rightarrow> address list \<Rightarrow> address list \<Rightarrow> TxPool \<times> u64 \<Rightarrow> (address list \<times> TxPool \<times> u64) res" where
  "gatherOffenders P [] offenders (pool, n) = Inr (offenders, pool, n)"
| "gatherOffenders P (a # as) offenders (pool, n) =
     (if n > cf_GlobalSlots (P_config P)
      then if offenders = [] then gatherOffenders P as [a] (pool, n)
        else bind_res (lenOf a pool) (\<lambda>threshold.
          bind_res (capRounds P (roundsFor (last offenders) pool) (\<lambda>len. len > threshold) (last offenders) offenders (pool, n))
            (gatherOffenders P as (offenders @ [a])))
      else Inr (offenders, pool, n))"

definition spammers :: "poolEnv \<Rightarrow> TxPool \<Rightarrow> (address \<times> int) list" where
  "spammers P pool = map (\<lambda>(a, l). (a, tl_Len l))
     (filter (\<lambda>(a, l). \<not> as_contains a (tp_locals pool) \<and> word_of_int (tl_Len l) > cf_AccountSlots (P_config P)) (tp_pending pool))"

definition limitPending :: "poolEnv \<Rightarrow> TxPool \<Rightarrow> TxPool res" where
  "limitPending P pool =
     (let n = countTxs (tp_pending pool) in
      if n > cf_GlobalSlots (P_config P)
      then bind_res (gatherOffenders P (P_prque P (spammers P pool)) [] (pool, n)) (\<lambda>(offenders, pool, n).
        if n > cf_GlobalSlots (P_config P) \<and> offenders \<noteq> []
        then bind_res (capRounds P (roundsFor (last offenders) pool) (\<lambda>len. word_of_int len > cf_AccountSlots (P_config P)) (last offenders) offenders (pool, n))
          (\<lambda>(pool, n). Inr pool)
        else Inr pool)
      else Inr pool)"

section \<open>The limit on queued transactions\<close>

definition beatOf :: "TxPool \<Rightarrow> address \<Rightarrow> int" where
  "beatOf pool a = (case mget (tp_beats pool) a of Some t \<Rightarrow> t | None \<Rightarrow> 0)"

definition removeTxs :: "poolEnv \<Rightarrow> Transaction list \<Rightarrow> TxPool \<Rightarrow> TxPool" where
  "removeTxs P txs pool = fold (\<lambda>t. removeTx P (txHash P t)) txs pool"

fun dropQueued :: "poolEnv \<Rightarrow> address list \<Rightarrow> u64 \<Rightarrow> TxPool \<Rightarrow> TxPool res" where
  "dropQueued P [] n pool = Inr pool"
| "dropQueued P (a # as) n pool =
     (if n = 0 then Inr pool
      else case mget (tp_queue pool) a of
        None \<Rightarrow> Inl (Panic ''nil txList'')
      | Some l \<Rightarrow>
          let len = word_of_int (tl_Len l); (txs, l) = tl_Flatten l; pool = setQueue a l pool in
          if len \<le> n then dropQueued P as (n - len) (removeTxs P txs pool)
          else dropQueued P as (n - of_nat (length (take (unat n) (rev txs)))) (removeTxs P (take (unat n) (rev txs)) pool))"

definition limitQueue :: "poolEnv \<Rightarrow> TxPool \<Rightarrow> TxPool res" where
  "limitQueue P pool =
     (let queued = countTxs (tp_queue pool) in
      if queued > cf_GlobalQueue (P_config P)
      then dropQueued P (rev (sort_key (beatOf pool) (filter (\<lambda>a. \<not> as_contains a (tp_locals pool)) (mkeys (tp_queue pool)))))
        (queued - cf_GlobalQueue (P_config P)) pool
      else Inr pool)"

definition promoteExecutables :: "poolEnv \<Rightarrow> poolView \<Rightarrow> int \<Rightarrow> address list option \<Rightarrow> TxPool \<Rightarrow> TxPool res" where
  "promoteExecutables P v now accounts pool =
     (let accounts = (case accounts of None \<Rightarrow> mkeys (tp_queue pool) | Some as \<Rightarrow> as) in
      bind_res (fold_res (promoteAccount P v now) accounts pool) (\<lambda>pool.
        bind_res (limitPending P pool) (limitQueue P)))"

section \<open>Demotion and reset\<close>

definition demoteAccount :: "poolEnv \<Rightarrow> poolView \<Rightarrow> address \<Rightarrow> TxPool \<Rightarrow> TxPool res" where
  "demoteAccount P v addr pool = (case mget (tp_pending pool) addr of
     None \<Rightarrow> Inr pool
   | Some l \<Rightarrow> bind_res (tl_Forward (pv_nonce v addr) l) (\<lambda>(old, l).
       bind_res (forgetEach P old (setPending addr l pool)) (\<lambda>pool.
         let ((drops, invalids), l) = tl_Filter (pv_balance v addr) (pv_gasLimit v) l;
             pool = fold (\<lambda>t. forget (txHash P t)) drops (setPending addr l pool);
             pool = fold (\<lambda>t pool. snd (enqueueTx P (txHash P t) t pool)) invalids pool
         in Inr (if tl_Empty l then pool\<lparr>tp_pending := mdel addr (tp_pending pool), tp_beats := mdel addr (tp_beats pool)\<rparr> else pool))))"

definition demoteUnexecutables :: "poolEnv \<Rightarrow> poolView \<Rightarrow> TxPool \<Rightarrow> TxPool res" where
  "demoteUnexecutables P v pool = fold_res (demoteAccount P v) (mkeys (tp_pending pool)) pool"

definition renewNonce :: "address \<Rightarrow> TxPool \<Rightarrow> TxPool res" where
  "renewNonce addr pool = (case mget (tp_pending pool) addr of
     None \<Rightarrow> Inl (Panic ''nil txList'')
   | Some l \<Rightarrow> let (txs, l) = tl_Flatten l; pool = setPending addr l pool in
       if txs = [] then Inl (Panic ''index out of range'')
       else Inr (pool\<lparr>tp_pendingState := ms_SetNonce addr (tx_AccountNonce (last txs) + 1) (tp_pendingState pool)\<rparr>))"

definition resetState :: "poolEnv \<Rightarrow> poolView \<Rightarrow> int \<Rightarrow> TxPool \<Rightarrow> TxPool res" where
  "resetState P v now pool =
     bind_res (demoteUnexecutables P v (pool\<lparr>tp_pendingState := ManageState v\<rparr>)) (\<lambda>pool.
       bind_res (fold_res renewNonce (mkeys (tp_pending pool)) pool) (promoteExecutables P v now None))"

section \<open>The interface of the pool\<close>

text \<open>\<open>NewTxPool\<close>; the configuration of the pool is the one it was given, passed through \<open>sanitize\<close>.\<close>

definition NewTxPool :: "poolEnv \<Rightarrow> poolView \<Rightarrow> int \<Rightarrow> database \<Rightarrow> TxPool res" where
  "NewTxPool P v now db = resetState P v now
     \<lparr>tp_pendingState = ManageState v, tp_gasPrice = uint (cf_PriceLimit (P_config P)), tp_locals = newAccountSet (localSender P),
      tp_pending = [], tp_queue = [], tp_beats = [], tp_all = [], tp_priced = newTxPricedList, tp_homestead = False, tp_db = db\<rparr>"

definition addTx :: "poolEnv \<Rightarrow> poolView \<Rightarrow> int \<Rightarrow> Transaction \<Rightarrow> bool \<Rightarrow> TxPool \<Rightarrow> (poolerr option \<times> TxPool) res" where
  "addTx P v now tx local pool = bind_res (tp_add P v tx local pool) (\<lambda>(r, pool).
     case r of
       Inl e \<Rightarrow> Inr (Some e, pool)
     | Inr replace \<Rightarrow> if replace then Inr (None, pool)
         else bind_res (promoteExecutables P v now (Some [fromOf P tx]) pool) (\<lambda>pool. Inr (None, pool)))"

definition AddLocal :: "poolEnv \<Rightarrow> poolView \<Rightarrow> int \<Rightarrow> Transaction \<Rightarrow> TxPool \<Rightarrow> (poolerr option \<times> TxPool) res" where
  "AddLocal P v now tx = addTx P v now tx (\<not> cf_NoLocals (P_config P))"

definition AddRemote :: "poolEnv \<Rightarrow> poolView \<Rightarrow> int \<Rightarrow> Transaction \<Rightarrow> TxPool \<Rightarrow> (poolerr option \<times> TxPool) res" where
  "AddRemote P v now tx = addTx P v now tx False"

definition addDirty :: "poolEnv \<Rightarrow> poolView \<Rightarrow> bool \<Rightarrow> Transaction \<Rightarrow> address list \<times> TxPool \<Rightarrow> (address list \<times> TxPool) res" where
  "addDirty P v local tx s = bind_res (tp_add P v tx local (snd s)) (\<lambda>(r, pool).
     Inr (if r = Inr False then List.insert (fromOf P tx) (fst s) else fst s, pool))"

definition addTxs :: "poolEnv \<Rightarrow> poolView \<Rightarrow> int \<Rightarrow> Transaction list \<Rightarrow> bool \<Rightarrow> TxPool \<Rightarrow> TxPool res" where
  "addTxs P v now txs local pool = bind_res (fold_res (addDirty P v local) txs ([], pool)) (\<lambda>(dirty, pool).
     if dirty \<noteq> [] then promoteExecutables P v now (Some dirty) pool else Inr pool)"

definition tp_Get :: "hash \<Rightarrow> TxPool \<Rightarrow> Transaction option" where
  "tp_Get h pool = mget (tp_all pool) h"

definition SetGasPrice :: "poolEnv \<Rightarrow> int \<Rightarrow> TxPool \<Rightarrow> TxPool" where
  "SetGasPrice P price pool =
     (let (gone, priced) = pl_Cap (txHash P) (tp_all pool) price (tp_locals pool) (tp_priced pool)
      in removeTxs P gone (pool\<lparr>tp_gasPrice := price, tp_priced := priced\<rparr>))"

text \<open>One tick of \<open>expirationLoop\<close>.\<close>

definition expireAccount :: "poolEnv \<Rightarrow> int \<Rightarrow> address \<Rightarrow> TxPool \<Rightarrow> TxPool" where
  "expireAccount P now addr pool =
     (if as_contains addr (tp_locals pool) then pool
      else if now - beatOf pool addr > cf_Lifetime (P_config P)
      then case mget (tp_queue pool) addr of
          None \<Rightarrow> pool
        | Some l \<Rightarrow> let (txs, l) = tl_Flatten l in removeTxs P txs (setQueue addr l pool)
      else pool)"

definition expireQueued :: "poolEnv \<Rightarrow> int \<Rightarrow> TxPool \<Rightarrow> TxPool" where
  "expireQueued P now pool = fold (expireAccount P now) (mkeys (tp_queue pool)) pool"

text \<open>\<open>eventLoop\<close> on a new head of the chain; the block may be nil.\<close>

definition onChainHead :: "poolEnv \<Rightarrow> poolView \<Rightarrow> int \<Rightarrow> bool \<Rightarrow> TxPool \<Rightarrow> TxPool res" where
  "onChainHead P v now isHomestead pool = resetState P v now (if isHomestead then pool\<lparr>tp_homestead := True\<rparr> else pool)"

definition tp_stats :: "TxPool \<Rightarrow> int \<times> int" where
  "tp_stats pool = (sum_list (map (tl_Len \<circ> snd) (tp_pending pool)), sum_list (map (tl_Len \<circ> snd) (tp_queue pool)))"

fun flattenEach :: "(address \<times> txList) list \<Rightarrow> (address \<times> Transaction list) list \<times> (address \<times> txList) list" where
  "flattenEach [] = ([], [])"
| "flattenEach ((a, l) # m) = (let (txs, l) = tl_Flatten l; (r, m) = flattenEach m in ((a, txs) # r, (a, l) # m))"

definition tp_Pending :: "TxPool \<Rightarrow> (address \<times> Transaction list) list \<times> TxPool" where
  "tp_Pending pool = (let (r, m) = flattenEach (tp_pending pool) in (r, pool\<lparr>tp_pending := m\<rparr>))"

definition tp_Content :: "TxPool \<Rightarrow> ((address \<times> Transaction list) list \<times> (address \<times> Transaction list) list) \<times> TxPool" where
  "tp_Content pool = (let (p, m) = flattenEach (tp_pending pool); (q, m') = flattenEach (tp_queue pool)
     in ((p, q), pool\<lparr>tp_pending := m, tp_queue := m'\<rparr>))"

end
