(* ===== verification/Tx_Pool_Invariant.thy ===== *)
theory Tx_Pool_Invariant
  imports Tx_Pool_Ops
begin

text \<open>
  The invariant of the transaction pool: the lists of every account are in order and hold transactions of that account, a nonce
  is pending or queued but not both, and every transaction in a list is known under its hash. Moving a transaction between lists and
  removing one keep it.
\<close>

section \<open>The invariant\<close>

definition txsOf :: "(address \<times> txList) list \<Rightarrow> address \<Rightarrow> Transaction list" where
  "txsOf m a = (case mget m a of Some l \<Rightarrow> inOrder (tl_txs l) | None \<Rightarrow> [])"

definition lists_ok :: "bool \<Rightarrow> (address \<times> txList) list \<Rightarrow> bool" where
  "lists_ok strict m \<longleftrightarrow> distinct (mkeys m) \<and> (\<forall>a l. mget m a = Some l \<longrightarrow> tl_ok l \<and> tl_strict l = strict)"

definition listed :: "TxPool \<Rightarrow> Transaction \<Rightarrow> bool" where
  "listed pool x \<longleftrightarrow> (\<exists>a. x \<in> set (txsOf (tp_pending pool) a) \<or> x \<in> set (txsOf (tp_queue pool) a))"

definition shape_ok :: "poolEnv \<Rightarrow> TxPool \<Rightarrow> bool" where
  "shape_ok P pool \<longleftrightarrow> lists_ok True (tp_pending pool) \<and> lists_ok False (tp_queue pool) \<and>
     (\<forall>a. \<forall>x\<in>set (txsOf (tp_pending pool) a) \<union> set (txsOf (tp_queue pool) a). fromOf P x = a) \<and>
     (\<forall>a. \<forall>x\<in>set (txsOf (tp_pending pool) a). \<forall>y\<in>set (txsOf (tp_queue pool) a). tx_AccountNonce x \<noteq> tx_AccountNonce y)"

definition known_ok :: "poolEnv \<Rightarrow> TxPool \<Rightarrow> bool" where
  "known_ok P pool \<longleftrightarrow> (\<forall>x. listed pool x \<longrightarrow> mget (tp_all pool) (txHash P x) = Some x)"

definition all_ok :: "poolEnv \<Rightarrow> TxPool \<Rightarrow> bool" where
  "all_ok P pool \<longleftrightarrow> (\<forall>h x. mget (tp_all pool) h = Some x \<longrightarrow> txHash P x = h) \<and> pl_ok (tp_priced pool)"

definition pool_ok :: "poolEnv \<Rightarrow> TxPool \<Rightarrow> bool" where
  "pool_ok P pool \<longleftrightarrow> shape_ok P pool \<and> known_ok P pool \<and> all_ok P pool"

lemma pool_okI [intro]: "shape_ok P pool \<Longrightarrow> known_ok P pool \<Longrightarrow> all_ok P pool \<Longrightarrow> pool_ok P pool"
  by (simp add: pool_ok_def)

lemma pool_okD: "pool_ok P pool \<Longrightarrow> shape_ok P pool" "pool_ok P pool \<Longrightarrow> known_ok P pool" "pool_ok P pool \<Longrightarrow> all_ok P pool"
  by (simp_all add: pool_ok_def)

lemma txsOf_put [simp]: "txsOf (mput a l m) b = (if b = a then inOrder (tl_txs l) else txsOf m b)"
  by (simp add: txsOf_def)

lemma txsOf_del [simp]: "txsOf (mdel a m) b = (if b = a then [] else txsOf m b)"
  by (simp add: txsOf_def)

lemma txsOf_Some: "mget m a = Some l \<Longrightarrow> txsOf m a = inOrder (tl_txs l)"
  by (simp add: txsOf_def)

lemma lists_ok_put [intro]: "lists_ok strict m \<Longrightarrow> tl_ok l \<Longrightarrow> tl_strict l = strict \<Longrightarrow> lists_ok strict (mput a l m)"
  by (simp add: lists_ok_def)

lemma lists_ok_del [intro]: "lists_ok strict m \<Longrightarrow> lists_ok strict (mdel a m)"
  by (simp add: lists_ok_def)

lemma lists_okD: "lists_ok strict m \<Longrightarrow> mget m a = Some l \<Longrightarrow> tl_ok l \<and> tl_strict l = strict"
  by (simp add: lists_ok_def)

text \<open>The invariant looks only at the lists, the known transactions and the prices.\<close>

lemma pool_ok_cong:
  assumes "tp_pending pool' = tp_pending pool" "tp_queue pool' = tp_queue pool" "tp_all pool' = tp_all pool" "pl_ok (tp_priced pool')"
  shows "pool_ok P pool \<Longrightarrow> pool_ok P pool'"
  using assms by (auto simp: pool_ok_def shape_ok_def known_ok_def all_ok_def listed_def)

section \<open>Known transactions\<close>

lemma forget_fields [simp]:
  "tp_pending (forget h pool) = tp_pending pool" "tp_queue (forget h pool) = tp_queue pool" "tp_all (forget h pool) = mdel h (tp_all pool)"
  "listed (forget h pool) = listed pool" "shape_ok P (forget h pool) = shape_ok P pool" "tp_locals (forget h pool) = tp_locals pool"
  by (simp_all add: forget_def Let_def listed_def shape_ok_def fun_eq_iff)

lemma remember_fields [simp]:
  "tp_pending (remember h tx pool) = tp_pending pool" "tp_queue (remember h tx pool) = tp_queue pool" "tp_all (remember h tx pool) = mput h tx (tp_all pool)"
  "listed (remember h tx pool) = listed pool" "shape_ok P (remember h tx pool) = shape_ok P pool" "tp_locals (remember h tx pool) = tp_locals pool"
  by (simp_all add: remember_def listed_def shape_ok_def fun_eq_iff)

lemma forgetOld_fields [simp]:
  "tp_pending (forgetOld P old pool) = tp_pending pool" "tp_queue (forgetOld P old pool) = tp_queue pool"
  "listed (forgetOld P old pool) = listed pool" "shape_ok Q (forgetOld P old pool) = shape_ok Q pool" "tp_locals (forgetOld P old pool) = tp_locals pool"
  by (simp_all add: forgetOld_def split: option.splits)

lemma pl_ok_Removed [intro]: "pl_ok l \<Longrightarrow> pl_ok (pl_Removed all l)"
  using hp.heap_init by (auto simp: pl_ok_def pl_Removed_def Let_def)

lemma pl_ok_Put [intro]: "pl_ok l \<Longrightarrow> pl_ok (pl_Put tx l)"
  using hp.heap_push [of tx_Price "pl_items l" tx] by (simp add: pl_ok_def pl_Put_def)

lemma all_ok_forget [intro]: "all_ok P pool \<Longrightarrow> all_ok P (forget h pool)"
  by (auto simp: all_ok_def forget_def Let_def split: if_splits)

lemma all_ok_forgetOld [intro]: "all_ok P pool \<Longrightarrow> all_ok P (forgetOld P old pool)"
  by (auto simp: forgetOld_def split: option.splits)

lemma all_ok_remember [intro]: "all_ok P pool \<Longrightarrow> h = txHash P tx \<Longrightarrow> all_ok P (remember h tx pool)"
  by (auto simp: all_ok_def remember_def split: if_splits)

lemma forget_ok:
  assumes "pool_ok P pool" and "\<not> listed pool x" and "mget (tp_all pool) (txHash P x) \<in> {None, Some x}"
  shows "pool_ok P (forget (txHash P x) pool)"
proof -
  have "txHash P y \<noteq> txHash P x" if "listed pool y" for y using assms that by (auto simp: pool_ok_def known_ok_def)
  then show ?thesis using assms(1) by (auto simp: pool_ok_def known_ok_def)
qed

lemma forget_all_ok:
  assumes "pool_ok P pool" and "\<forall>x\<in>set xs. \<not> listed pool x \<and> mget (tp_all pool) (txHash P x) \<in> {None, Some x}"
  shows "pool_ok P (fold (\<lambda>t. forget (txHash P t)) xs pool)"
  using assms
proof (induction xs arbitrary: pool)
  case (Cons x xs)
  have "pool_ok P (forget (txHash P x) pool)" using forget_ok [of P pool x] Cons.prems by simp
  moreover have "\<forall>y\<in>set xs. \<not> listed (forget (txHash P x) pool) y \<and> mget (tp_all (forget (txHash P x) pool)) (txHash P y) \<in> {None, Some y}"
    using Cons.prems by simp
  ultimately show ?case using Cons.IH by simp
qed simp

lemma fold_forget_fields [simp]:
  "tp_pending (fold (\<lambda>t. forget (H t)) xs pool) = tp_pending pool" "tp_queue (fold (\<lambda>t. forget (H t)) xs pool) = tp_queue pool"
  "listed (fold (\<lambda>t. forget (H t)) xs pool) = listed pool" "tp_locals (fold (\<lambda>t. forget (H t)) xs pool) = tp_locals pool"
  by (induction xs arbitrary: pool) simp_all

lemma fold_forget_all: "mget (tp_all (fold (\<lambda>t. forget (H t)) xs pool)) h = (if h \<in> H ` set xs then None else mget (tp_all pool) h)"
  by (induction xs arbitrary: pool) auto

lemma forgetEach_Some: "forgetEach P (map Some xs) pool = Inr (fold (\<lambda>t. forget (txHash P t)) xs pool)"
  by (induction xs arbitrary: pool) (simp_all add: forgetEach_def)

text \<open>A transaction takes the place of another one, which is forgotten.\<close>

lemma swap_known:
  assumes "known_ok P pool" and "tp_all pool' = tp_all pool" and "\<And>x. listed pool' x \<Longrightarrow> x = tx \<or> listed pool x \<and> old \<noteq> Some x"
    and "\<And>x. old = Some x \<Longrightarrow> listed pool x" and "mget (tp_all pool) (txHash P tx) \<in> {None, Some tx}"
  shows "known_ok P (remember (txHash P tx) tx (forgetOld P old pool'))"
  unfolding known_ok_def
proof (intro allI impI)
  fix x assume "listed (remember (txHash P tx) tx (forgetOld P old pool')) x"
  then consider "x = tx" | "x \<noteq> tx" "listed pool x" "old \<noteq> Some x" using assms(3) [of x] by auto
  then show "mget (tp_all (remember (txHash P tx) tx (forgetOld P old pool'))) (txHash P x) = Some x"
  proof cases
    case 2
    have k: "mget (tp_all pool) (txHash P y) = Some y" if "listed pool y" for y using assms(1) that by (simp add: known_ok_def)
    have "txHash P x \<noteq> txHash P tx" using k [OF 2(2)] assms(5) 2(1) by auto
    moreover have "txHash P x \<noteq> txHash P y" if "old = Some y" for y using k [OF 2(2)] k [OF assms(4) [OF that]] 2(3) that by auto
    ultimately show ?thesis using k [OF 2(2)] assms(2) by (cases old) (simp_all add: forgetOld_def)
  qed simp
qed

section \<open>Lists\<close>

lemma listed_setQueue: "listed (setQueue a l pool) x \<longleftrightarrow> (\<exists>b. x \<in> set (txsOf (tp_pending pool) b)) \<or> x \<in> set (inOrder (tl_txs l)) \<or> (\<exists>b. b \<noteq> a \<and> x \<in> set (txsOf (tp_queue pool) b))"
  by (auto simp: listed_def setQueue_def split: if_splits)

lemma listed_setPending: "listed (setPending a l pool) x \<longleftrightarrow> (\<exists>b. x \<in> set (txsOf (tp_queue pool) b)) \<or> x \<in> set (inOrder (tl_txs l)) \<or> (\<exists>b. b \<noteq> a \<and> x \<in> set (txsOf (tp_pending pool) b))"
  by (auto simp: listed_def setPending_def split: if_splits)

lemma setQueue_shape:
  assumes "shape_ok P pool" "tl_ok l" "\<not> tl_strict l" "\<forall>x\<in>set (inOrder (tl_txs l)). fromOf P x = a"
    "\<forall>x\<in>set (txsOf (tp_pending pool) a). \<forall>y\<in>set (inOrder (tl_txs l)). tx_AccountNonce x \<noteq> tx_AccountNonce y"
  shows "shape_ok P (setQueue a l pool)"
  using assms by (auto simp: shape_ok_def setQueue_def)

lemma setPending_shape:
  assumes "shape_ok P pool" "tl_ok l" "tl_strict l" "\<forall>x\<in>set (inOrder (tl_txs l)). fromOf P x = a"
    "\<forall>x\<in>set (inOrder (tl_txs l)). \<forall>y\<in>set (txsOf (tp_queue pool) a). tx_AccountNonce x \<noteq> tx_AccountNonce y"
  shows "shape_ok P (setPending a l pool)"
  using assms by (auto simp: shape_ok_def setPending_def)

lemma setQueue_sub:
  assumes ok: "pool_ok P pool" and l: "tl_ok l" "\<not> tl_strict l" "set (inOrder (tl_txs l)) \<subseteq> set (txsOf (tp_queue pool) a)"
  shows "pool_ok P (setQueue a l pool)"
proof
  show "shape_ok P (setQueue a l pool)" using ok l by (intro setQueue_shape) (auto simp: pool_ok_def shape_ok_def)
  show "known_ok P (setQueue a l pool)" using ok l(3) by (auto simp: pool_ok_def known_ok_def listed_setQueue) (auto simp: setQueue_def listed_def)
  show "all_ok P (setQueue a l pool)" using ok by (auto simp: pool_ok_def all_ok_def setQueue_def)
qed

lemma setPending_sub:
  assumes ok: "pool_ok P pool" and l: "tl_ok l" "tl_strict l" "set (inOrder (tl_txs l)) \<subseteq> set (txsOf (tp_pending pool) a)"
  shows "pool_ok P (setPending a l pool)"
proof
  show "shape_ok P (setPending a l pool)" using ok l by (intro setPending_shape) (auto simp: pool_ok_def shape_ok_def)
  show "known_ok P (setPending a l pool)" using ok l(3) by (auto simp: pool_ok_def known_ok_def listed_setPending) (auto simp: setPending_def listed_def)
  show "all_ok P (setPending a l pool)" using ok by (auto simp: pool_ok_def all_ok_def setPending_def)
qed

lemma delQueue_ok: "pool_ok P pool \<Longrightarrow> pool_ok P (pool\<lparr>tp_queue := mdel a (tp_queue pool)\<rparr>)"
  by (auto simp: pool_ok_def shape_ok_def known_ok_def all_ok_def listed_def split: if_splits)

lemma delPending_ok: "pool_ok P pool \<Longrightarrow> pool_ok P (pool\<lparr>tp_pending := mdel a (tp_pending pool), tp_beats := b\<rparr>)"
  by (auto simp: pool_ok_def shape_ok_def known_ok_def all_ok_def listed_def split: if_splits)

section \<open>Moving a transaction\<close>

lemma tl_Add_cases [consumes 1, case_names no yes]:
  assumes ok: "tl_ok l"
  obtains (no) "tl_Add tx bump l = ((False, None), l)" "\<exists>x\<in>set (inOrder (tl_txs l)). tx_AccountNonce x = tx_AccountNonce tx"
  | (yes) old l' where "tl_Add tx bump l = ((True, old), l')" "tl_ok l'" "tl_strict l' = tl_strict l"
      "old = find (\<lambda>x. tx_AccountNonce x = tx_AccountNonce tx) (inOrder (tl_txs l))"
      "set (inOrder (tl_txs l')) = insert tx {x \<in> set (inOrder (tl_txs l)). tx_AccountNonce x \<noteq> tx_AccountNonce tx}"
proof -
  let ?old = "sm_Get (tx_AccountNonce tx) (tl_txs l)"
  have g: "?old = find (\<lambda>x. tx_AccountNonce x = tx_AccountNonce tx) (inOrder (tl_txs l))" using sm_Get_inOrder [OF tl_okD [OF ok]] .
  show thesis
  proof (cases "case ?old of Some old \<Rightarrow> bumped old bump \<ge> tx_Price tx | None \<Rightarrow> False")
    case True
    then obtain x where x: "?old = Some x" by (auto split: option.splits)
    then have "x \<in> set (inOrder (tl_txs l))" "tx_AccountNonce x = tx_AccountNonce tx" unfolding g by (auto simp: find_Some_iff)
    then show thesis using True no by (auto simp: tl_Add_def Let_def)
  next
    case False
    let ?l = "snd (tl_Add tx bump l)"
    have f: "tl_Add tx bump l = ((True, ?old), ?l)" using False by (simp add: tl_Add_def Let_def split: option.splits)
    have "tl_txs ?l = sm_Put tx (tl_txs l)" using False by (simp add: tl_Add_def Let_def split: option.splits)
    then have "set (inOrder (tl_txs ?l)) = insert tx {x \<in> set (inOrder (tl_txs l)). tx_AccountNonce x \<noteq> tx_AccountNonce tx}"
      using sm_Put_spec [OF tl_okD [OF ok], of tx] by (simp add: set_insort_key)
    then show thesis using f tl_Add_ok [OF ok, of tx bump] g by (intro yes [of ?old ?l]) (simp_all add: tl_strict_keeps)
  qed
qed

lemma listOr_ok: "lists_ok strict m \<Longrightarrow> tl_ok (listOr strict (mget m a)) \<and> tl_strict (listOr strict (mget m a)) = strict \<and> inOrder (tl_txs (listOr strict (mget m a))) = txsOf m a"
  by (cases "mget m a") (auto simp: listOr_def lists_ok_def txsOf_def tl_ok_def newTxList_def sm_ok_new)

lemma find_not: "\<forall>x\<in>set xs. f x \<noteq> y \<Longrightarrow> find (\<lambda>x. f x = y) xs = None"
  by (simp add: find_None_iff)

lemma enqueueTx_ok:
  assumes ok: "pool_ok P pool" and h: "mget (tp_all pool) (txHash P tx) \<in> {None, Some tx}"
    and n: "\<forall>x\<in>set (txsOf (tp_pending pool) (fromOf P tx)). tx_AccountNonce x \<noteq> tx_AccountNonce tx"
  defines "pool' \<equiv> snd (enqueueTx P (txHash P tx) tx pool)"
  shows "pool_ok P pool' \<and> tp_pending pool' = tp_pending pool \<and> tp_locals pool' = tp_locals pool \<and>
    (\<forall>k. k \<noteq> txHash P tx \<longrightarrow> mget (tp_all pool') k \<in> {None, mget (tp_all pool) k})"
proof -
  let ?a = "fromOf P tx" let ?l = "listOr False (mget (tp_queue pool) ?a)"
  have sh: "shape_ok P pool" using ok by (simp add: pool_ok_def)
  have l: "tl_ok ?l" "\<not> tl_strict ?l" "inOrder (tl_txs ?l) = txsOf (tp_queue pool) ?a"
    using listOr_ok [of False "tp_queue pool" ?a] sh by (auto simp: shape_ok_def)
  show ?thesis using l(1)
  proof (cases rule: tl_Add_cases [where tx = tx and bump = "cf_PriceBump (P_config P)"])
    case no
    then have "pool' = setQueue ?a ?l pool" by (simp add: pool'_def enqueueTx_def Let_def setQueue_def)
    then show ?thesis using setQueue_sub [OF ok l(1,2), of ?a] l(3) by (simp add: setQueue_def)
  next
    case (yes old l')
    have pool': "pool' = remember (txHash P tx) tx (forgetOld P old (setQueue ?a l' pool))"
      using yes(1) by (simp add: pool'_def enqueueTx_def Let_def setQueue_def)
    have s: "set (inOrder (tl_txs l')) = insert tx {x \<in> set (txsOf (tp_queue pool) ?a). tx_AccountNonce x \<noteq> tx_AccountNonce tx}"
      using yes(5) l(3) by simp
    have o: "x \<in> set (txsOf (tp_queue pool) ?a) \<and> tx_AccountNonce x = tx_AccountNonce tx" if "old = Some x" for x
    proof -
      have "find (\<lambda>x. tx_AccountNonce x = tx_AccountNonce tx) (txsOf (tp_queue pool) ?a) = Some x" using yes(4) that l(3) by simp
      then show ?thesis by (auto simp: find_Some_iff)
    qed
    have own: "fromOf P x = b" if "x \<in> set (txsOf (tp_pending pool) b) \<or> x \<in> set (txsOf (tp_queue pool) b)" for x b
      using sh that by (auto simp: shape_ok_def)
    have "shape_ok P (setQueue ?a l' pool)"
      using sh n own by (intro setQueue_shape yes) (auto simp: s l yes(3) shape_ok_def)
    moreover have "known_ok P pool'"
      unfolding pool'
    proof (rule swap_known [where pool = pool])
      show "listed pool x" if "old = Some x" for x using o [OF that] by (auto simp: listed_def)
      show "x = tx \<or> listed pool x \<and> old \<noteq> Some x" if x: "listed (setQueue ?a l' pool) x" for x
      proof (cases "x = tx")
        case False
        have "old \<noteq> Some x"
        proof
          assume e: "old = Some x"
          have "fromOf P x = ?a" using o [OF e] own by blast
          then have "b = ?a" if "x \<in> set (txsOf (tp_pending pool) b) \<or> x \<in> set (txsOf (tp_queue pool) b)" for b using own [OF that] by simp
          then show False using x False o [OF e] n unfolding listed_setQueue s by blast
        qed
        then show ?thesis using x [unfolded listed_setQueue s] False unfolding listed_def by blast
      qed simp
    qed (use ok h in \<open>auto simp: pool_ok_def setQueue_def\<close>)
    moreover have "all_ok P (setQueue ?a l' pool)" using ok by (auto simp: pool_ok_def all_ok_def setQueue_def)
    then have "all_ok P pool'" unfolding pool' by blast
    moreover have "mget (tp_all pool') k \<in> {None, mget (tp_all pool) k}" if "k \<noteq> txHash P tx" for k
      using that by (cases old) (auto simp: pool' forgetOld_def setQueue_def)
    ultimately show ?thesis by (auto simp: pool' setQueue_def)
  qed
qed

lemma enqueue_all_ok:
  assumes "pool_ok P pool" and "distinct (map (txHash P) zs)" and "\<forall>z\<in>set zs. mget (tp_all pool) (txHash P z) \<in> {None, Some z}"
    and "\<forall>z\<in>set zs. \<forall>x\<in>set (txsOf (tp_pending pool) (fromOf P z)). tx_AccountNonce x \<noteq> tx_AccountNonce z"
  defines "pool' \<equiv> fold (\<lambda>t pool. snd (enqueueTx P (txHash P t) t pool)) zs pool"
  shows "pool_ok P pool' \<and> tp_pending pool' = tp_pending pool \<and> tp_locals pool' = tp_locals pool \<and>
    (\<forall>k. k \<notin> txHash P ` set zs \<longrightarrow> mget (tp_all pool') k \<in> {None, mget (tp_all pool) k})"
  using assms(1-4) unfolding pool'_def
proof (induction zs arbitrary: pool)
  case (Cons z zs)
  let ?p = "snd (enqueueTx P (txHash P z) z pool)"
  have e: "pool_ok P ?p" "tp_pending ?p = tp_pending pool" "tp_locals ?p = tp_locals pool"
    "\<And>k. k \<noteq> txHash P z \<Longrightarrow> mget (tp_all ?p) k \<in> {None, mget (tp_all pool) k}"
    using enqueueTx_ok [of P pool z] Cons.prems by auto
  have "\<forall>y\<in>set zs. mget (tp_all ?p) (txHash P y) \<in> {None, Some y}"
  proof
    fix y assume y: "y \<in> set zs"
    then have "txHash P y \<noteq> txHash P z" using Cons.prems(2) by (metis distinct.simps(2) image_eqI image_set list.simps(9))
    then show "mget (tp_all ?p) (txHash P y) \<in> {None, Some y}" using e(4) Cons.prems(3) y by fastforce
  qed
  then have ih: "pool_ok P (fold (\<lambda>t pool. snd (enqueueTx P (txHash P t) t pool)) zs ?p)"
    "tp_pending (fold (\<lambda>t pool. snd (enqueueTx P (txHash P t) t pool)) zs ?p) = tp_pending ?p"
    "tp_locals (fold (\<lambda>t pool. snd (enqueueTx P (txHash P t) t pool)) zs ?p) = tp_locals ?p"
    "\<And>k. k \<notin> txHash P ` set zs \<Longrightarrow> mget (tp_all (fold (\<lambda>t pool. snd (enqueueTx P (txHash P t) t pool)) zs ?p)) k \<in> {None, mget (tp_all ?p) k}"
    using Cons.IH [of ?p] e(1,2) Cons.prems by auto
  show ?case
  proof (intro conjI allI impI)
    fix k assume k: "k \<notin> txHash P ` set (z # zs)"
    then show "mget (tp_all (fold (\<lambda>t pool. snd (enqueueTx P (txHash P t) t pool)) (z # zs) pool)) k \<in> {None, mget (tp_all pool) k}"
      using ih(4) [of k] e(4) [of k] by auto
  qed (use ih e in auto)
qed simp

lemma promoteTx_ok:
  fixes now :: int
  assumes ok: "pool_ok P pool" and h: "mget (tp_all pool) (txHash P tx) = Some tx" and a: "fromOf P tx = a"
    and n: "\<forall>x\<in>set (txsOf (tp_pending pool) a) \<union> set (txsOf (tp_queue pool) a). tx_AccountNonce x \<noteq> tx_AccountNonce tx"
  defines "pool' \<equiv> promoteTx P now a (txHash P tx) tx pool"
  shows "pool_ok P pool' \<and> tp_queue pool' = tp_queue pool \<and> tp_all pool' = tp_all pool \<and> tp_locals pool' = tp_locals pool \<and>
    set (txsOf (tp_pending pool') a) = insert tx (set (txsOf (tp_pending pool) a))"
proof -
  let ?l = "listOr True (mget (tp_pending pool) a)"
  have sh: "shape_ok P pool" using ok by (simp add: pool_ok_def)
  have l: "tl_ok ?l" "tl_strict ?l" "inOrder (tl_txs ?l) = txsOf (tp_pending pool) a"
    using listOr_ok [of True "tp_pending pool" a] sh by (auto simp: shape_ok_def)
  show ?thesis using l(1)
  proof (cases rule: tl_Add_cases [where tx = tx and bump = "cf_PriceBump (P_config P)"])
    case no
    then show ?thesis using n l(3) by auto
  next
    case (yes old l')
    have old: "old = None" using yes(4) n unfolding l(3) by (simp add: find_not)
    have s: "set (inOrder (tl_txs l')) = insert tx (set (txsOf (tp_pending pool) a))" using yes(5) n l(3) by auto
    let ?q = "setPending a l' pool"
    have pool': "pool' = ?q\<lparr>tp_beats := mput a now (tp_beats ?q), tp_pendingState := ms_SetNonce a (tx_AccountNonce tx + 1) (tp_pendingState ?q)\<rparr>"
      using yes(1) h old by (simp add: pool'_def promoteTx_def Let_def setPending_def forgetOld_def)
    have "shape_ok P ?q" using sh n a by (intro setPending_shape yes) (auto simp: s l yes(3) shape_ok_def)
    moreover have "known_ok P ?q" unfolding known_ok_def listed_setPending s
      using ok h by (auto simp: pool_ok_def known_ok_def listed_def setPending_def)
    moreover have "all_ok P ?q" using ok by (auto simp: pool_ok_def all_ok_def setPending_def)
    ultimately have "pool_ok P ?q" by blast
    then have "pool_ok P pool'" unfolding pool' by (rule pool_ok_cong [rotated -1]) (use ok in \<open>simp_all add: setPending_def pool_ok_def all_ok_def\<close>)
    then show ?thesis using s by (simp add: pool' setPending_def)
  qed
qed

section \<open>Removing a transaction\<close>

lemma forget_commute:
  "forget h (pool\<lparr>tp_pending := X\<rparr>) = (forget h pool)\<lparr>tp_pending := X\<rparr>" "forget h (pool\<lparr>tp_queue := X\<rparr>) = (forget h pool)\<lparr>tp_queue := X\<rparr>"
  "forget h (pool\<lparr>tp_beats := B\<rparr>) = (forget h pool)\<lparr>tp_beats := B\<rparr>" "tp_beats (forget h pool) = tp_beats pool"
  by (simp_all add: forget_def Let_def)

lemma lowerNonce_ok: "pool_ok P pool \<Longrightarrow> pool_ok P (lowerNonce a n pool)"
  by (rule pool_ok_cong) (auto simp: lowerNonce_def pool_ok_def all_ok_def)

lemma lowerNonce_fields [simp]:
  "tp_pending (lowerNonce a n pool) = tp_pending pool" "tp_queue (lowerNonce a n pool) = tp_queue pool" "tp_all (lowerNonce a n pool) = tp_all pool"
  "tp_locals (lowerNonce a n pool) = tp_locals pool" "listed (lowerNonce a n pool) = listed pool"
  by (simp_all add: lowerNonce_def listed_def fun_eq_iff)

lemma own_tx:
  assumes "shape_ok P pool"
  shows "x \<in> set (txsOf (tp_pending pool) b) \<Longrightarrow> fromOf P x = b" and "x \<in> set (txsOf (tp_queue pool) b) \<Longrightarrow> fromOf P x = b"
  using assms by (auto simp: shape_ok_def)

lemma nonce_disjoint: "shape_ok P pool \<Longrightarrow> x \<in> set (txsOf (tp_pending pool) a) \<Longrightarrow> y \<in> set (txsOf (tp_queue pool) a) \<Longrightarrow> tx_AccountNonce x \<noteq> tx_AccountNonce y"
  by (auto simp: shape_ok_def)

lemma listed_iff: "shape_ok P pool \<Longrightarrow> listed pool x \<longleftrightarrow> x \<in> set (txsOf (tp_pending pool) (fromOf P x)) \<or> x \<in> set (txsOf (tp_queue pool) (fromOf P x))"
  by (auto simp: listed_def dest: own_tx)

lemma removeQueued_ok:
  fixes a :: address and tx :: Transaction
  assumes ok: "pool_ok P pool"
  defines "pool' \<equiv> removeQueued a tx pool"
  shows "pool_ok P pool' \<and> tp_pending pool' = tp_pending pool \<and> tp_all pool' = tp_all pool \<and> tp_locals pool' = tp_locals pool \<and>
    set (txsOf (tp_queue pool') a) = {x \<in> set (txsOf (tp_queue pool) a). tx_AccountNonce x \<noteq> tx_AccountNonce tx}"
proof (cases "mget (tp_queue pool) a")
  case None
  then show ?thesis using ok by (simp add: pool'_def removeQueued_def txsOf_def)
next
  case (Some l)
  have l: "tl_ok l" "\<not> tl_strict l" using ok Some by (auto simp: pool_ok_def shape_ok_def lists_ok_def)
  obtain m inv b where r: "tl_Remove tx l = ((b, inv), l\<lparr>tl_txs := m\<rparr>)" "tl_ok (l\<lparr>tl_txs := m\<rparr>)" "inOrder m = filter (\<lambda>t. tx_AccountNonce t \<noteq> tx_AccountNonce tx) (inOrder (tl_txs l))"
    using tl_Remove_ok [OF l(1), of tx] l(2) by auto
  have q: "txsOf (tp_queue pool) a = inOrder (tl_txs l)" using Some by (rule txsOf_Some)
  let ?l = "l\<lparr>tl_txs := m\<rparr>"
  show ?thesis
  proof (cases "tl_Empty ?l")
    case True
    then have e: "inOrder m = []" using length_inOrder [of m] by (simp add: tl_Empty_def tl_Len_def sm_Len_def)
    have "pool' = pool\<lparr>tp_queue := mdel a (tp_queue pool)\<rparr>" using Some r True by (simp add: pool'_def removeQueued_def Let_def)
    then show ?thesis using delQueue_ok [OF ok] e r(3) q by (auto simp: filter_empty_conv)
  next
    case False
    then have "pool' = setQueue a ?l pool" using Some r by (simp add: pool'_def removeQueued_def setQueue_def Let_def)
    then show ?thesis using setQueue_sub [OF ok r(2), of a] l(2) r(3) q by (auto simp: setQueue_def)
  qed
qed

lemma removeQueued_forget: "removeQueued a tx (forget h pool) = forget h (removeQueued a tx pool)"
  by (auto simp: removeQueued_def Let_def forget_commute split: option.splits)

lemma distinct_hashes:
  assumes "\<forall>z\<in>set zs. mget m (f z) = Some z" "distinct zs"
  shows "distinct (map f zs)"
  using assms by (auto simp: distinct_map inj_on_def) (metis option.inject)

lemma distinct_inOrder: "sm_ok m \<Longrightarrow> distinct (inOrder m)"
  using sm_okD(1) ordered_distinct distinct_map by (metis inOrder_def)

lemma removeTx_ok:
  fixes h :: hash
  assumes ok: "pool_ok P pool"
  defines "pool' \<equiv> removeTx P h pool"
  shows "pool_ok P pool' \<and> tp_locals pool' = tp_locals pool \<and> (\<forall>k. mget (tp_all pool) k = None \<longrightarrow> mget (tp_all pool') k = None)"
proof (cases "mget (tp_all pool) h")
  case None
  then show ?thesis using ok by (simp add: pool'_def removeTx_def)
next
  case (Some tx)
  let ?a = "fromOf P tx" and ?n = "tx_AccountNonce tx"
  have sh: "shape_ok P pool" and h: "h = txHash P tx" using ok Some by (auto simp: pool_ok_def all_ok_def)
  have L: "mget (tp_all pool) (txHash P x) = Some x" if "listed pool x" for x using ok that by (auto simp: pool_ok_def known_ok_def)
  have queued: ?thesis if e: "pool' = removeQueued ?a tx (forget h pool)" and n: "?n \<notin> tx_AccountNonce ` set (txsOf (tp_pending pool) ?a)"
  proof -
    let ?q = "removeQueued ?a tx pool"
    note q = removeQueued_ok [OF ok, of ?a tx]
    have "shape_ok P ?q" using q by (simp add: pool_ok_def)
    then have "\<not> listed ?q tx" using q n by (auto simp: listed_iff)
    then have "pool_ok P (forget h ?q)" using forget_ok [of P ?q tx] q Some h by simp
    then show ?thesis using q e by (auto simp: removeQueued_forget split: if_splits)
  qed
  show ?thesis
  proof (cases "mget (tp_pending pool) ?a")
    case None
    then show ?thesis using queued Some by (simp add: pool'_def removeTx_def Let_def txsOf_def)
  next
    case s: (Some l)
    have l: "tl_ok l" "tl_strict l" using sh s by (auto simp: shape_ok_def lists_ok_def)
    have p: "txsOf (tp_pending pool) ?a = inOrder (tl_txs l)" using s by (rule txsOf_Some)
    obtain m inv where r: "tl_Remove tx l = ((?n \<in> tx_AccountNonce ` set (inOrder (tl_txs l)), inv), l\<lparr>tl_txs := m\<rparr>)" "tl_ok (l\<lparr>tl_txs := m\<rparr>)"
      "inOrder m = (if ?n \<in> tx_AccountNonce ` set (inOrder (tl_txs l)) then filter (\<lambda>t. tx_AccountNonce t < ?n) (inOrder (tl_txs l)) else filter (\<lambda>t. tx_AccountNonce t \<noteq> ?n) (inOrder (tl_txs l)))"
      "mset inv = (if ?n \<in> tx_AccountNonce ` set (inOrder (tl_txs l)) then mset (filter (\<lambda>t. tx_AccountNonce t > ?n) (inOrder (tl_txs l))) else {#})"
      using tl_Remove_ok [OF l(1), of tx] l(2) by auto
    let ?l = "l\<lparr>tl_txs := m\<rparr>"
    show ?thesis
    proof (cases "?n \<in> tx_AccountNonce ` set (inOrder (tl_txs l))")
      case False
      then show ?thesis using queued Some s r(1) p by (simp add: pool'_def removeTx_def Let_def)
    next
      case True
      have o: "set (inOrder m) = {x \<in> set (inOrder (tl_txs l)). tx_AccountNonce x < ?n}" using r(3) True by auto
      obtain y where "y \<in> set (txsOf (tp_pending pool) ?a)" "tx_AccountNonce y = ?n" using True p by auto
      then have nq: "tx \<notin> set (txsOf (tp_queue pool) ?a)" using sh unfolding shape_ok_def by metis
      show ?thesis
      proof (cases "tl_Empty ?l")
        case e: True
        let ?q = "pool\<lparr>tp_pending := mdel ?a (tp_pending pool), tp_beats := mdel ?a (tp_beats pool)\<rparr>"
        have q: "pool_ok P ?q" using delPending_ok [OF ok] .
        then have "\<not> listed ?q tx" using nq by (auto simp: listed_iff pool_ok_def)
        then have "pool_ok P (forget h ?q)" using forget_ok [OF q, of tx] Some h by simp
        moreover have "pool' = lowerNonce ?a ?n (forget h ?q)" using Some s r(1) True e by (simp add: pool'_def removeTx_def Let_def forget_commute)
        ultimately show ?thesis by (auto simp: lowerNonce_ok split: if_splits)
      next
        case ne: False
        let ?q = "forget h (setPending ?a ?l pool)"
        have q0: "pool_ok P (setPending ?a ?l pool)" using o p l(2) by (intro setPending_sub [OF ok r(2)]) auto
        have "tx \<notin> set (txsOf (tp_pending (setPending ?a ?l pool)) ?a)" "tx \<notin> set (txsOf (tp_queue (setPending ?a ?l pool)) ?a)"
          using nq o by (simp_all add: setPending_def)
        then have "\<not> listed (setPending ?a ?l pool) tx" using listed_iff [OF pool_okD(1) [OF q0]] by blast
        then have q: "pool_ok P ?q" using forget_ok [OF q0, of tx] Some h by (simp add: setPending_def)
        have inv: "set inv = {x \<in> set (inOrder (tl_txs l)). tx_AccountNonce x > ?n}" using r(4) True by (metis set_filter set_mset_mset)
        have iL: "\<forall>z\<in>set inv. mget (tp_all pool) (txHash P z) = Some z"
        proof
          fix z assume "z \<in> set inv"
          then have "z \<in> set (txsOf (tp_pending pool) ?a)" using inv p by simp
          then show "mget (tp_all pool) (txHash P z) = Some z" using L [of z] by (auto simp: listed_def)
        qed
        have "distinct inv" using r(4) True distinct_inOrder [OF tl_okD [OF l(1)]] by (metis distinct_filter mset_eq_imp_distinct_iff)
        then have d: "distinct (map (txHash P) inv)" using distinct_hashes iL by blast
        have own: "\<forall>z\<in>set inv. fromOf P z = ?a" using inv own_tx(1) [OF sh] p by auto
        have "\<forall>z\<in>set inv. mget (tp_all ?q) (txHash P z) \<in> {None, Some z}" using iL by (simp add: setPending_def)
        moreover have "\<forall>z\<in>set inv. \<forall>x\<in>set (txsOf (tp_pending ?q) (fromOf P z)). tx_AccountNonce x \<noteq> tx_AccountNonce z"
          using own inv o by (auto simp: setPending_def)
        ultimately have f: "pool_ok P (fold (\<lambda>t pool. snd (enqueueTx P (txHash P t) t pool)) inv ?q)"
          "tp_locals (fold (\<lambda>t pool. snd (enqueueTx P (txHash P t) t pool)) inv ?q) = tp_locals pool"
          "\<And>k. k \<notin> txHash P ` set inv \<Longrightarrow> mget (tp_all (fold (\<lambda>t pool. snd (enqueueTx P (txHash P t) t pool)) inv ?q)) k \<in> {None, mget (tp_all ?q) k}"
          using enqueue_all_ok [OF q d] by (auto simp: setPending_def)
        have "pool' = lowerNonce ?a ?n (fold (\<lambda>t pool. snd (enqueueTx P (txHash P t) t pool)) inv ?q)"
          using Some s r(1) True ne by (simp add: pool'_def removeTx_def Let_def setPending_def forget_commute)
        moreover have "mget (tp_all (fold (\<lambda>t pool. snd (enqueueTx P (txHash P t) t pool)) inv ?q)) k = None" if "mget (tp_all pool) k = None" for k
        proof -
          have "k \<notin> txHash P ` set inv" using iL that by auto
          then show ?thesis using f(3) [of k] that by (auto simp: setPending_def)
        qed
        ultimately show ?thesis using f(1,2) lowerNonce_ok by auto
      qed
    qed
  qed
qed

lemma removeTxs_ok:
  assumes "pool_ok P pool"
  shows "pool_ok P (removeTxs P txs pool) \<and> tp_locals (removeTxs P txs pool) = tp_locals pool \<and>
    (\<forall>k. mget (tp_all pool) k = None \<longrightarrow> mget (tp_all (removeTxs P txs pool)) k = None)"
  using assms
proof (induction txs arbitrary: pool)
  case (Cons t txs)
  have "pool_ok P (removeTx P (txHash P t) pool)" "tp_locals (removeTx P (txHash P t) pool) = tp_locals pool"
    "\<And>k. mget (tp_all pool) k = None \<Longrightarrow> mget (tp_all (removeTx P (txHash P t) pool)) k = None"
    using removeTx_ok [OF Cons.prems, of "txHash P t"] by auto
  then show ?case using Cons.IH [of "removeTx P (txHash P t) pool"] by (auto simp: removeTxs_def)
qed (simp add: removeTxs_def)

end
