(* ===== verification/Tx_Pool_Kept.thy ===== *)
theory Tx_Pool_Kept
  imports Tx_Pool_Invariant
begin

text \<open>
  Every operation of the transaction pool keeps its invariant: promotion, demotion, the limits, insertion, eviction and queries,
  and so every pool that can be reached satisfies it. Promotion of an account and demotion always return; what is said of the other
  loops holds when they return.
\<close>

section \<open>Promotion and demotion\<close>

lemma runFrom_take: "runFrom n L = take (length (runFrom n L)) L"
  by (induction n L rule: runFrom.induct) auto

lemma readyFrom_take: "readyFrom n L = take (length (readyFrom n L)) L"
  using runFrom_take by (auto simp: readyFrom_def)

lemma setQueue_fields [simp]:
  "tp_pending (setQueue a l pool) = tp_pending pool" "tp_queue (setQueue a l pool) = mput a l (tp_queue pool)" "tp_all (setQueue a l pool) = tp_all pool"
  "tp_locals (setQueue a l pool) = tp_locals pool"
  by (simp_all add: setQueue_def)

lemma setPending_fields [simp]:
  "tp_queue (setPending a l pool) = tp_queue pool" "tp_pending (setPending a l pool) = mput a l (tp_pending pool)" "tp_all (setPending a l pool) = tp_all pool"
  "tp_locals (setPending a l pool) = tp_locals pool"
  by (simp_all add: setPending_def)

lemma promoteReady_Some: "promoteReady P now a (Some t) pool = Inr (promoteTx P now a (txHash P t) t pool)"
  by (simp add: promoteReady_def)

lemma promote_all_ok:
  assumes "pool_ok P pool" and "\<forall>x\<in>set R. mget (tp_all pool) (txHash P x) = Some x \<and> fromOf P x = a" and "distinct (map tx_AccountNonce R)"
    and "\<forall>x\<in>set R. \<forall>y\<in>set (txsOf (tp_pending pool) a) \<union> set (txsOf (tp_queue pool) a). tx_AccountNonce y \<noteq> tx_AccountNonce x"
  shows "\<exists>pool'. fold_res (promoteReady P now a) (map Some R) pool = Inr pool' \<and> pool_ok P pool' \<and> tp_queue pool' = tp_queue pool \<and>
    tp_all pool' = tp_all pool \<and> tp_locals pool' = tp_locals pool"
  using assms
proof (induction R arbitrary: pool)
  case (Cons x R)
  let ?p = "promoteTx P now a (txHash P x) x pool"
  have p: "pool_ok P ?p" "tp_queue ?p = tp_queue pool" "tp_all ?p = tp_all pool" "tp_locals ?p = tp_locals pool"
    "set (txsOf (tp_pending ?p) a) = insert x (set (txsOf (tp_pending pool) a))"
    using promoteTx_ok [of P pool x a now] Cons.prems by auto
  have "\<forall>y\<in>set R. tx_AccountNonce x \<noteq> tx_AccountNonce y" using Cons.prems(3) by auto
  then have "\<exists>pool'. fold_res (promoteReady P now a) (map Some R) ?p = Inr pool' \<and> pool_ok P pool' \<and> tp_queue pool' = tp_queue ?p \<and>
    tp_all pool' = tp_all ?p \<and> tp_locals pool' = tp_locals ?p"
    using Cons.prems p by (intro Cons.IH) auto
  then show ?case using p by (auto simp: promoteReady_Some)
qed simp

lemma listedI: "x \<in> set (txsOf (tp_pending pool) a) \<Longrightarrow> listed pool x" "x \<in> set (txsOf (tp_queue pool) a) \<Longrightarrow> listed pool x"
  by (auto simp: listed_def)

lemma known_listed: "pool_ok P pool \<Longrightarrow> listed pool x \<Longrightarrow> mget (tp_all pool) (txHash P x) = Some x"
  by (simp add: pool_ok_def known_ok_def)

text \<open>Transactions that have left the queue of an account are not listed any more, and the same for the pending list.\<close>

lemma left_queue:
  assumes ok: "pool_ok P pool" and x: "x \<in> set (txsOf (tp_queue pool) a)" "x \<notin> set (inOrder (tl_txs l))"
  shows "\<not> listed (setQueue a l pool) x"
proof -
  have sh: "shape_ok P pool" using ok by (rule pool_okD)
  have a: "fromOf P x = a" using own_tx(2) [OF sh] x by blast
  have "x \<notin> set (txsOf (tp_pending pool) b)" for b using nonce_disjoint [OF sh, of x b x] x(1) own_tx(1) [OF sh, of x b] a by auto
  moreover have "x \<notin> set (txsOf (tp_queue pool) b)" if "b \<noteq> a" for b using own_tx(2) [OF sh, of x b] a that by auto
  ultimately show ?thesis using x(2) by (auto simp: listed_setQueue)
qed

lemma left_pending:
  assumes ok: "pool_ok P pool" and x: "x \<in> set (txsOf (tp_pending pool) a)" "x \<notin> set (inOrder (tl_txs l))"
  shows "\<not> listed (setPending a l pool) x"
proof -
  have sh: "shape_ok P pool" using ok by (rule pool_okD)
  have a: "fromOf P x = a" using own_tx(1) [OF sh] x by blast
  have "x \<notin> set (txsOf (tp_queue pool) b)" for b using nonce_disjoint [OF sh, of x b x] x(1) own_tx(2) [OF sh, of x b] a by auto
  moreover have "x \<notin> set (txsOf (tp_pending pool) b)" if "b \<noteq> a" for b using own_tx(1) [OF sh, of x b] a that by auto
  ultimately show ?thesis using x(2) by (auto simp: listed_setPending)
qed

text \<open>The queue of an account is cut down and what falls out is forgotten.\<close>

lemma cut_queue_ok:
  assumes ok: "pool_ok P pool" and l: "tl_ok l" "\<not> tl_strict l" "set (inOrder (tl_txs l)) \<subseteq> set (txsOf (tp_queue pool) a)"
    and out: "set xs = set (txsOf (tp_queue pool) a) - set (inOrder (tl_txs l))"
  shows "pool_ok P (fold (\<lambda>t. forget (txHash P t)) xs (setQueue a l pool))"
proof (rule forget_all_ok [OF setQueue_sub [OF ok l]])
  show "\<forall>x\<in>set xs. \<not> listed (setQueue a l pool) x \<and> mget (tp_all (setQueue a l pool)) (txHash P x) \<in> {None, Some x}"
    using left_queue [OF ok, of _ a l] known_listed [OF ok listedI(2)] out by auto
qed

lemma cut_pending_ok:
  assumes ok: "pool_ok P pool" and l: "tl_ok l" "tl_strict l" "set (inOrder (tl_txs l)) \<subseteq> set (txsOf (tp_pending pool) a)"
    and out: "set xs \<subseteq> set (txsOf (tp_pending pool) a) - set (inOrder (tl_txs l))"
  shows "pool_ok P (fold (\<lambda>t. forget (txHash P t)) xs (setPending a l pool))"
proof (rule forget_all_ok [OF setPending_sub [OF ok l]])
  show "\<forall>x\<in>set xs. \<not> listed (setPending a l pool) x \<and> mget (tp_all (setPending a l pool)) (txHash P x) \<in> {None, Some x}"
    using left_pending [OF ok, of _ a l] known_listed [OF ok listedI(1)] out by auto
qed

lemma set_take_drop: "distinct xs \<Longrightarrow> set (drop n xs) = set xs - set (take n xs)"
  by (metis Diff_cancel Un_Diff append_take_drop_id distinct_append inf_commute set_append Diff_triv Un_empty_left)

lemma set_of_filter: "mset xs = mset (filter p ys) \<Longrightarrow> set xs = {y \<in> set ys. p y}"
  by (metis set_filter set_mset_mset)

lemma tl_Filter_facts:
  assumes ok: "tl_ok l" and f: "tl_Filter c g l = ((drops, invs), l')"
  shows "tl_ok l'" and "tl_strict l' = tl_strict l" and "set drops = {x \<in> set (inOrder (tl_txs l)). tooDear c g x}"
    and "inOrder (tl_txs l') = (if tl_strict l then takeWhile (\<lambda>x. \<not> tooDear c g x) (inOrder (tl_txs l)) else filter (\<lambda>x. \<not> tooDear c g x) (inOrder (tl_txs l)))"
    and "mset (inOrder (tl_txs l)) = mset drops + mset invs + mset (inOrder (tl_txs l'))"
proof -
  note s = tl_Filter_spec [OF ok, of c g, unfolded f fst_conv snd_conv]
  show "tl_ok l'" using s by blast
  show "tl_strict l' = tl_strict l" using tl_strict_keeps(2) [of c g l] by (simp add: f)
  show "set drops = {x \<in> set (inOrder (tl_txs l)). tooDear c g x}" by (rule set_of_filter [OF conjunct1 [OF s]])
  show "inOrder (tl_txs l') = (if tl_strict l then takeWhile (\<lambda>x. \<not> tooDear c g x) (inOrder (tl_txs l)) else filter (\<lambda>x. \<not> tooDear c g x) (inOrder (tl_txs l)))"
    using s by blast
  show "mset (inOrder (tl_txs l)) = mset drops + mset invs + mset (inOrder (tl_txs l'))" using s by blast
qed

lemma capQueue_ok:
  assumes ok: "pool_ok P pool" and q: "0 \<le> sint (cf_AccountQueue (P_config P))" and g: "mget (tp_queue pool) a = Some l"
  shows "\<exists>l' pool'. capQueue P a l pool = Inr (l', pool') \<and> pool_ok P pool' \<and> tp_locals pool' = tp_locals pool \<and> mget (tp_queue pool') a = Some l'"
proof (cases "as_contains a (tp_locals pool)")
  case True
  then show ?thesis using ok g by (simp add: capQueue_def)
next
  case False
  let ?t = "sint (cf_AccountQueue (P_config P))"
  have l: "tl_ok l" "\<not> tl_strict l" using ok g by (auto simp: pool_ok_def shape_ok_def lists_ok_def)
  obtain m where m: "tl_Cap ?t l = Inr (map Some (rev (drop (nat ?t) (inOrder (tl_txs l)))), l\<lparr>tl_txs := m\<rparr>)" "tl_ok (l\<lparr>tl_txs := m\<rparr>)" "inOrder m = take (nat ?t) (inOrder (tl_txs l))"
    using tl_Cap_ok [OF l(1) q] by blast
  let ?l = "l\<lparr>tl_txs := m\<rparr>" and ?d = "rev (drop (nat ?t) (inOrder (tl_txs l)))"
  have t: "txsOf (tp_queue pool) a = inOrder (tl_txs l)" using g by (rule txsOf_Some)
  have "pool_ok P (fold (\<lambda>t. forget (txHash P t)) ?d (setQueue a ?l pool))"
    using m l t set_take_drop [OF distinct_inOrder [OF tl_okD [OF l(1)]]] by (intro cut_queue_ok [OF ok]) (auto dest: in_set_takeD)
  then show ?thesis using False m(1) by (simp add: capQueue_def forgetEach_Some)
qed

lemma promoteAccount_ok:
  assumes ok: "pool_ok P pool" and q: "0 \<le> sint (cf_AccountQueue (P_config P))"
  shows "\<exists>pool'. promoteAccount P v now a pool = Inr pool' \<and> pool_ok P pool' \<and> tp_locals pool' = tp_locals pool"
proof (cases "mget (tp_queue pool) a")
  case None
  then show ?thesis using ok by (simp add: promoteAccount_def)
next
  case (Some l)
  have l: "tl_ok l" "\<not> tl_strict l" using ok Some by (auto simp: pool_ok_def shape_ok_def lists_ok_def)
  have t: "txsOf (tp_queue pool) a = inOrder (tl_txs l)" using Some by (rule txsOf_Some)
  obtain drops inv l1 where f: "tl_Filter (pv_balance v a) (pv_gasLimit v) l = ((drops, inv), l1)" by (metis prod.collapse)
  let ?P = "tooDear (pv_balance v a) (pv_gasLimit v)"
  have l1: "tl_ok l1" "\<not> tl_strict l1" "inOrder (tl_txs l1) = filter (\<lambda>x. \<not> ?P x) (inOrder (tl_txs l))" "set drops = {x \<in> set (inOrder (tl_txs l)). ?P x}"
    using tl_Filter_facts [OF l(1) f] l(2) by (simp_all del: if_split)
  define p1 where "p1 = fold (\<lambda>t. forget (txHash P t)) drops (setQueue a l1 pool)"
  have p1: "pool_ok P p1" "tp_queue p1 = mput a l1 (tp_queue pool)" "tp_locals p1 = tp_locals pool"
  proof -
    have "set drops = set (inOrder (tl_txs l)) - set (inOrder (tl_txs l1))" unfolding l1(3,4) by auto
    then show "pool_ok P p1" unfolding p1_def using l1(1,2,3) by (intro cut_queue_ok [OF ok]) (simp_all add: t)
  qed (simp_all add: p1_def)
  define n where "n = ms_GetNonce a (tp_pendingState p1)"
  define R where "R = readyFrom n (inOrder (tl_txs l1))"
  obtain m where m: "tl_Ready n l1 = (map Some R, l1\<lparr>tl_txs := m\<rparr>)" "tl_ok (l1\<lparr>tl_txs := m\<rparr>)" "inOrder m = drop (length R) (inOrder (tl_txs l1))"
    using tl_Ready_ok [OF l1(1), of n] unfolding R_def by blast
  let ?l2 = "l1\<lparr>tl_txs := m\<rparr>" and ?L = "inOrder (tl_txs l1)" and ?p2 = "setQueue a (l1\<lparr>tl_txs := m\<rparr>) p1"
  have t1: "txsOf (tp_queue p1) a = ?L" using p1(2) by simp
  have p2: "pool_ok P ?p2" using m l1(2) by (intro setQueue_sub [OF p1(1)]) (auto simp: t1 dest: in_set_dropD)
  have RL: "R = take (length R) ?L" unfolding R_def by (rule readyFrom_take)
  have RI: "set R \<subseteq> set ?L" using RL by (metis set_take_subset)
  have dL: "distinct (map tx_AccountNonce ?L)" using sm_okD(1) [OF tl_okD [OF l1(1)]] by (simp add: inOrder_def ordered_distinct)
  then have dR: "distinct (map tx_AccountNonce R)" by (metis RL distinct_take take_map)
  have sh: "shape_ok P p1" using p1(1) by (rule pool_okD)
  have "distinct (map tx_AccountNonce (R @ inOrder m))" using dL m(3) RL by (metis append_take_drop_id)
  then have "\<forall>x\<in>set R. \<forall>y\<in>set (inOrder m). tx_AccountNonce y \<noteq> tx_AccountNonce x" by (auto simp: disjoint_iff)
  moreover have "\<forall>x\<in>set R. \<forall>y\<in>set (txsOf (tp_pending p1) a). tx_AccountNonce y \<noteq> tx_AccountNonce x"
  proof (intro ballI)
    fix x y assume "x \<in> set R" "y \<in> set (txsOf (tp_pending p1) a)"
    then show "tx_AccountNonce y \<noteq> tx_AccountNonce x" using nonce_disjoint [OF sh, of y a x] RI t1 by auto
  qed
  ultimately have away: "\<forall>x\<in>set R. \<forall>y\<in>set (txsOf (tp_pending ?p2) a) \<union> set (txsOf (tp_queue ?p2) a). tx_AccountNonce y \<noteq> tx_AccountNonce x" by auto
  have "\<forall>x\<in>set R. mget (tp_all ?p2) (txHash P x) = Some x \<and> fromOf P x = a"
  proof
    fix x assume "x \<in> set R"
    then have x: "x \<in> set (txsOf (tp_queue p1) a)" using RI t1 by auto
    show "mget (tp_all ?p2) (txHash P x) = Some x \<and> fromOf P x = a" using known_listed [OF p1(1) listedI(2) [OF x]] own_tx(2) [OF sh x] by simp
  qed
  from promote_all_ok [OF p2 this dR away, of now] obtain p3 where p3: "fold_res (promoteReady P now a) (map Some R) ?p2 = Inr p3" "pool_ok P p3" "tp_queue p3 = tp_queue ?p2" "tp_locals p3 = tp_locals ?p2"
    by blast
  obtain l4 p4 where p4: "capQueue P a ?l2 p3 = Inr (l4, p4)" "pool_ok P p4" "tp_locals p4 = tp_locals p3"
    using capQueue_ok [OF p3(2) q, of a ?l2] p3(3) by auto
  have "promoteAccount P v now a pool = Inr (if tl_Empty l4 then p4\<lparr>tp_queue := mdel a (tp_queue p4)\<rparr> else p4)"
    using Some m(1) p3(1) p4(1) by (simp add: promoteAccount_def f Let_def p1_def [symmetric] n_def [symmetric])
  then show ?thesis using delQueue_ok [OF p4(2)] p4 p3(4) p1(3) by simp
qed

lemma nonce_inj: "tl_ok l \<Longrightarrow> inj_on tx_AccountNonce (set (inOrder (tl_txs l)))"
  using ordered_distinct [OF sm_okD(1) [OF tl_okD], of l] unfolding inOrder_def distinct_map by blast

lemma set_takeWhile_dropWhile: "distinct xs \<Longrightarrow> set (takeWhile p xs) = set xs - set (dropWhile p xs)"
proof -
  assume "distinct xs"
  then have "distinct (takeWhile p xs @ dropWhile p xs)" by simp
  then have "set (takeWhile p xs) \<inter> set (dropWhile p xs) = {}" by (simp only: distinct_append)
  moreover have "set xs = set (takeWhile p xs) \<union> set (dropWhile p xs)" by (metis set_append takeWhile_dropWhile_id)
  ultimately show ?thesis by blast
qed

text \<open>A list falls apart into three.\<close>

lemma distinct_parts:
  assumes "mset xs = mset as + mset bs + mset cs" and "distinct xs"
  shows "distinct bs" and "set bs \<subseteq> set xs" and "set bs \<inter> set cs = {}" and "set cs \<subseteq> set xs"
proof -
  have "mset xs = mset (as @ bs @ cs)" using assms(1) by simp
  then have "distinct (as @ bs @ cs)" "set xs = set (as @ bs @ cs)" using assms(2) by (metis mset_eq_imp_distinct_iff, metis set_mset_mset)
  then show "distinct bs" "set bs \<subseteq> set xs" "set bs \<inter> set cs = {}" "set cs \<subseteq> set xs" by auto
qed

lemma demoteAccount_ok:
  assumes ok: "pool_ok P pool"
  shows "\<exists>pool'. demoteAccount P v a pool = Inr pool' \<and> pool_ok P pool' \<and> tp_locals pool' = tp_locals pool"
proof (cases "mget (tp_pending pool) a")
  case None
  then show ?thesis using ok by (simp add: demoteAccount_def)
next
  case (Some l)
  have l: "tl_ok l" "tl_strict l" using ok Some by (auto simp: pool_ok_def shape_ok_def lists_ok_def)
  have t: "txsOf (tp_pending pool) a = inOrder (tl_txs l)" using Some by (rule txsOf_Some)
  let ?L = "inOrder (tl_txs l)" and ?q = "\<lambda>tx. tx_AccountNonce tx < pv_nonce v a"
  obtain m where m: "tl_Forward (pv_nonce v a) l = Inr (map Some (takeWhile ?q ?L), l\<lparr>tl_txs := m\<rparr>)" "tl_ok (l\<lparr>tl_txs := m\<rparr>)" "inOrder m = dropWhile ?q ?L"
    using tl_Forward_ok [OF l(1)] by blast
  let ?l1 = "l\<lparr>tl_txs := m\<rparr>"
  define p1 where "p1 = fold (\<lambda>t. forget (txHash P t)) (takeWhile ?q ?L) (setPending a ?l1 pool)"
  have p1: "pool_ok P p1" unfolding p1_def using l(2) t m set_takeWhile_dropWhile [OF distinct_inOrder [OF tl_okD [OF l(1)]]]
    by (intro cut_pending_ok [OF ok m(2)]) (auto dest: set_dropWhileD)
  have t1: "txsOf (tp_pending p1) a = inOrder m" by (simp add: p1_def)
  obtain drops invs l2 where f: "tl_Filter (pv_balance v a) (pv_gasLimit v) ?l1 = ((drops, invs), l2)" by (metis prod.collapse)
  note F = tl_Filter_facts [OF m(2) f, simplified]
  have l2: "inOrder (tl_txs l2) = takeWhile (\<lambda>x. \<not> tooDear (pv_balance v a) (pv_gasLimit v) x) (inOrder m)" using F(4) l(2) by simp
  define p2 where "p2 = fold (\<lambda>t. forget (txHash P t)) drops (setPending a l2 p1)"
  have p2: "pool_ok P p2" unfolding p2_def using F(2,3) l(2) l2 t1 by (intro cut_pending_ok [OF p1 F(1)]) (auto dest: set_takeWhileD)
  have t2: "txsOf (tp_pending p2) a = inOrder (tl_txs l2)" by (simp add: p2_def)
  note parts = distinct_parts [OF F(5) distinct_inOrder [OF tl_okD [OF m(2), simplified]]]
  have inv: "mget (tp_all p1) (txHash P z) = Some z" "fromOf P z = a" if "z \<in> set invs" for z
    using known_listed [OF p1 listedI(1), of z a] own_tx(1) [OF pool_okD(1) [OF p1], of z a] parts(2) that t1 by auto
  then have d: "distinct (map (txHash P) invs)" using distinct_hashes [of invs "tp_all p1"] parts(1) by blast
  have k: "\<forall>z\<in>set invs. mget (tp_all p2) (txHash P z) \<in> {None, Some z}" using inv(1) by (simp add: p2_def fold_forget_all)
  have away: "\<forall>z\<in>set invs. \<forall>x\<in>set (txsOf (tp_pending p2) (fromOf P z)). tx_AccountNonce x \<noteq> tx_AccountNonce z"
  proof (intro ballI)
    fix z x assume z: "z \<in> set invs" and "x \<in> set (txsOf (tp_pending p2) (fromOf P z))"
    then have "x \<in> set (inOrder (tl_txs l2))" using inv(2) t2 by simp
    then have "x \<noteq> z" "x \<in> set (inOrder m)" "z \<in> set (inOrder m)" using parts z by auto
    then show "tx_AccountNonce x \<noteq> tx_AccountNonce z" using nonce_inj [OF m(2)] by (auto dest: inj_onD)
  qed
  let ?p3 = "fold (\<lambda>t pool. snd (enqueueTx P (txHash P t) t pool)) invs p2"
  have p3: "pool_ok P ?p3" "tp_locals ?p3 = tp_locals p2"
    using enqueue_all_ok [OF p2 d k away] by blast+
  have "demoteAccount P v a pool = Inr (if tl_Empty l2 then ?p3\<lparr>tp_pending := mdel a (tp_pending ?p3), tp_beats := mdel a (tp_beats ?p3)\<rparr> else ?p3)"
    using Some m(1) by (simp add: demoteAccount_def forgetEach_Some f Let_def p1_def [symmetric] p2_def [symmetric])
  then show ?thesis using p3 delPending_ok [OF p3(1)] by (simp add: p2_def p1_def)
qed

lemma fold_res_ok:
  assumes "pool_ok P pool" and "\<And>x pool. pool_ok P pool \<Longrightarrow> \<exists>pool'. body x pool = Inr pool' \<and> pool_ok P pool' \<and> tp_locals pool' = tp_locals pool"
  shows "\<exists>pool'. fold_res body xs pool = Inr pool' \<and> pool_ok P pool' \<and> tp_locals pool' = tp_locals pool"
  using assms(1)
proof (induction xs arbitrary: pool)
  case (Cons x xs)
  obtain p where p: "body x pool = Inr p" "pool_ok P p" "tp_locals p = tp_locals pool" using assms(2) [OF Cons.prems] by blast
  then show ?case using Cons.IH [OF p(2)] by auto
qed simp

lemma demoteUnexecutables_ok:
  "pool_ok P pool \<Longrightarrow> \<exists>pool'. demoteUnexecutables P v pool = Inr pool' \<and> pool_ok P pool' \<and> tp_locals pool' = tp_locals pool"
  unfolding demoteUnexecutables_def by (rule fold_res_ok [OF _ demoteAccount_ok])

section \<open>Limits\<close>

text \<open>What the loops keep.\<close>

abbreviation keeps :: "poolEnv \<Rightarrow> TxPool \<Rightarrow> TxPool \<Rightarrow> bool" where
  "keeps P pool pool' \<equiv> pool_ok P pool' \<and> tp_locals pool' = tp_locals pool"

lemma lower_forget_ok:
  assumes "pool_ok P pool" and "\<forall>x\<in>set xs. \<not> listed pool x \<and> mget (tp_all pool) (txHash P x) \<in> {None, Some x}"
  shows "\<exists>pool'. fold_res (\<lambda>t pool. case t of None \<Rightarrow> Inl (Panic ''nil Transaction'') | Some t \<Rightarrow> Inr (lowerNonce a (tx_AccountNonce t) (forget (txHash P t) pool))) (map Some xs) pool = Inr pool' \<and>
    keeps P pool pool' \<and> tp_pending pool' = tp_pending pool \<and> tp_queue pool' = tp_queue pool"
  using assms
proof (induction xs arbitrary: pool)
  case (Cons x xs)
  let ?p = "lowerNonce a (tx_AccountNonce x) (forget (txHash P x) pool)"
  have "pool_ok P ?p" using forget_ok [of P pool x] Cons.prems lowerNonce_ok by simp
  moreover have "\<forall>y\<in>set xs. \<not> listed ?p y \<and> mget (tp_all ?p) (txHash P y) \<in> {None, Some y}" using Cons.prems(2) by simp
  ultimately show ?case using Cons.IH [of ?p] by simp
qed simp

text \<open>A pending list loses its last transaction.\<close>

lemma capPending_ok:
  assumes ok: "pool_ok P pool" and l: "mget (tp_pending pool) a = Some l" and ne: "txsOf (tp_pending pool) a \<noteq> []"
  shows "\<exists>pool' l'. capPending P a pool = Inr pool' \<and> keeps P pool pool' \<and> tp_pending pool' = mput a l' (tp_pending pool) \<and> tp_queue pool' = tp_queue pool \<and>
    inOrder (tl_txs l') = butlast (txsOf (tp_pending pool) a)"
proof -
  have t: "txsOf (tp_pending pool) a = inOrder (tl_txs l)" using l by (rule txsOf_Some)
  have lo: "tl_ok l" "tl_strict l" using ok l by (auto simp: pool_ok_def shape_ok_def lists_ok_def)
  have len: "tl_Len l = int (length (inOrder (tl_txs l)))" by (simp add: tl_Len_def sm_Len_def length_inOrder)
  have pos: "0 \<le> tl_Len l - 1" "nat (tl_Len l - 1) = length (inOrder (tl_txs l)) - 1" using ne t len by (cases "inOrder (tl_txs l)"; simp)+
  let ?d = "drop (length (inOrder (tl_txs l)) - 1) (inOrder (tl_txs l))"
  obtain m where m: "tl_Cap (tl_Len l - 1) l = Inr (map Some (rev ?d), l\<lparr>tl_txs := m\<rparr>)" "tl_ok (l\<lparr>tl_txs := m\<rparr>)" "inOrder m = butlast (inOrder (tl_txs l))"
    using tl_Cap_ok [OF lo(1) pos(1)] pos(2) by (auto simp: butlast_conv_take)
  let ?q = "setPending a (l\<lparr>tl_txs := m\<rparr>) pool"
  have d: "set ?d = set (inOrder (tl_txs l)) - set (inOrder m)"
    unfolding m(3) butlast_conv_take by (rule set_take_drop [OF distinct_inOrder [OF tl_okD [OF lo(1)]]])
  have q: "pool_ok P ?q" using m lo(2) t by (intro setPending_sub [OF ok]) (auto dest: in_set_butlastD)
  have "\<forall>x\<in>set (rev ?d). \<not> listed ?q x \<and> mget (tp_all ?q) (txHash P x) \<in> {None, Some x}"
    using left_pending [OF ok, of _ a "l\<lparr>tl_txs := m\<rparr>"] known_listed [OF ok listedI(1), of _ a] d t by auto
  from lower_forget_ok [OF q this, of a] obtain pool' where p: "fold_res (\<lambda>t pool. case t of None \<Rightarrow> Inl (Panic ''nil Transaction'')
      | Some t \<Rightarrow> Inr (lowerNonce a (tx_AccountNonce t) (forget (txHash P t) pool))) (map Some (rev ?d)) ?q = Inr pool'"
      "keeps P ?q pool'" "tp_pending pool' = tp_pending ?q" "tp_queue pool' = tp_queue ?q" by blast
  then have "capPending P a pool = Inr pool'" using l m(1) by (simp add: capPending_def)
  then show ?thesis using p m(3) t by (intro exI [of _ pool'] exI [of _ "l\<lparr>tl_txs := m\<rparr>"]) simp
qed

lemma capPending_post: "pool_ok P pool \<Longrightarrow> post (keeps P pool) (capPending P a pool)"
proof (cases "mget (tp_pending pool) a")
  case (Some l)
  assume ok: "pool_ok P pool"
  show ?thesis
  proof (cases "txsOf (tp_pending pool) a = []")
    case True
    then have "sm_items (tl_txs l) = []" using txsOf_Some [OF Some] length_inOrder [of "tl_txs l"] by simp
    then have "tl_Cap (tl_Len l - 1) l = Inl (Panic ''index out of range'')" by (simp add: tl_Cap_def sm_Cap_def tl_Len_def sm_Len_def)
    then show ?thesis using Some by (simp add: capPending_def)
  next
    case False
    then show ?thesis using capPending_ok [OF ok Some] by auto
  qed
qed (simp add: capPending_def)

lemma capRound_post: "pool_ok P pool \<Longrightarrow> post (\<lambda>(pool', n). keeps P pool pool') (capRound P as (pool, n))"
proof (induction as arbitrary: pool n)
  case (Cons a as)
  show ?case unfolding capRound.simps
    by (rule post_bind [OF capPending_post [OF Cons.prems]]) (auto intro: post_mono [OF Cons.IH])
qed simp

lemma capRounds_post: "pool_ok P pool \<Longrightarrow> post (\<lambda>(pool', n). keeps P pool pool') (capRounds P k long a as (pool, n))"
proof (induction k arbitrary: pool n)
  case (Suc k)
  have r: "post (\<lambda>(pool', n). keeps P pool pool') (bind_res (capRound P as (pool, n)) (capRounds P k long a as))"
    by (rule post_bind [OF capRound_post [OF Suc.prems]]) (auto intro: post_mono [OF Suc.IH])
  show ?case using r Suc.prems by (cases "lenOf a pool") (auto simp: post_def)
qed simp

lemma gatherOffenders_post: "pool_ok P pool \<Longrightarrow> post (\<lambda>(offs, pool', n). keeps P pool pool') (gatherOffenders P as offs (pool, n))"
proof (induction as arbitrary: offs pool n)
  case (Cons a as)
  have r: "post (\<lambda>(offs, pool', n). keeps P pool pool') (bind_res (capRounds P k long b offs (pool, n)) (gatherOffenders P as (offs @ [a])))" for k long b
    by (rule post_bind [OF capRounds_post [OF Cons.prems]]) (auto intro: post_mono [OF Cons.IH])
  show ?case using r Cons.prems Cons.IH [OF Cons.prems] by (cases "lenOf a pool") auto
qed simp

lemma limitPending_post: "pool_ok P pool \<Longrightarrow> post (keeps P pool) (limitPending P pool)"
proof -
  assume ok: "pool_ok P pool"
  have r: "post (keeps P pool) (bind_res (capRounds P k long b offs (p, n)) (\<lambda>(pool, n). Inr pool))" if "keeps P pool p" for k long b offs p n
    by (rule post_bind [OF capRounds_post]) (use that in auto)
  show ?thesis unfolding limitPending_def Let_def
    by (rule post_if, rule post_bind [OF gatherOffenders_post [OF ok]]) (use ok r in auto)
qed

lemma setQueue_flat:
  assumes ok: "pool_ok P pool" and l: "mget (tp_queue pool) a = Some l"
  shows "pool_ok P (setQueue a (snd (tl_Flatten l)) pool)"
proof -
  have lo: "tl_ok l" "\<not> tl_strict l" using ok l by (auto simp: pool_ok_def shape_ok_def lists_ok_def)
  then show ?thesis using tl_Flatten_ok [OF lo(1)] txsOf_Some [OF l] by (auto intro!: setQueue_sub [OF ok])
qed

lemma dropQueued_post: "pool_ok P pool \<Longrightarrow> post (keeps P pool) (dropQueued P as n pool)"
proof (induction as arbitrary: n pool)
  case (Cons a as)
  show ?case
  proof (cases "mget (tp_queue pool) a")
    case (Some l)
    let ?q = "setQueue a (snd (tl_Flatten l)) pool"
    have q: "keeps P pool (removeTxs P xs ?q)" for xs using removeTxs_ok [OF setQueue_flat [OF Cons.prems Some], of xs] by simp
    have "post (keeps P pool) (dropQueued P as k (removeTxs P xs ?q))" for k xs
      by (rule post_mono [OF Cons.IH]) (use q [of xs] in auto)
    then show ?thesis using Some Cons.prems by (simp add: Let_def case_prod_beta)
  qed (use Cons.prems in simp)
qed simp

lemma limitQueue_post: "pool_ok P pool \<Longrightarrow> post (keeps P pool) (limitQueue P pool)"
  by (simp add: limitQueue_def Let_def dropQueued_post)

lemma promoteExecutables_post:
  assumes ok: "pool_ok P pool" and q: "0 \<le> sint (cf_AccountQueue (P_config P))"
  shows "post (keeps P pool) (promoteExecutables P v now accounts pool)"
proof -
  obtain p where p: "fold_res (promoteAccount P v now) (case accounts of None \<Rightarrow> mkeys (tp_queue pool) | Some as \<Rightarrow> as) pool = Inr p" "keeps P pool p"
    using fold_res_ok [OF ok, of "promoteAccount P v now"] promoteAccount_ok [OF _ q] by blast
  have "post (keeps P pool) (bind_res (limitPending P p) (limitQueue P))"
    by (rule post_bind [OF limitPending_post]) (use p in \<open>auto intro: post_mono [OF limitQueue_post]\<close>)
  then show ?thesis using p(1) by (simp add: promoteExecutables_def)
qed

section \<open>The operations of the pool\<close>

lemma renewNonce_post: "pool_ok P pool \<Longrightarrow> post (keeps P pool) (renewNonce a pool)"
proof (cases "mget (tp_pending pool) a")
  case (Some l)
  assume ok: "pool_ok P pool"
  have lo: "tl_ok l" "tl_strict l" using ok Some by (auto simp: pool_ok_def shape_ok_def lists_ok_def)
  obtain m where f: "tl_Flatten l = (inOrder (tl_txs l), l\<lparr>tl_txs := m\<rparr>)" "tl_ok (l\<lparr>tl_txs := m\<rparr>)" "inOrder m = inOrder (tl_txs l)" using tl_Flatten_ok [OF lo(1)] by blast
  have "pool_ok P (setPending a (l\<lparr>tl_txs := m\<rparr>) pool)" using f lo(2) txsOf_Some [OF Some] by (intro setPending_sub [OF ok]) auto
  then have "pool_ok P (setPending a (l\<lparr>tl_txs := m\<rparr>) pool\<lparr>tp_pendingState := ms\<rparr>)" for ms
    by (rule pool_ok_cong [rotated -1]) (use ok in \<open>simp_all add: setPending_def pool_ok_def all_ok_def\<close>)
  then show ?thesis using Some f(1) by (simp add: renewNonce_def Let_def)
qed (simp add: renewNonce_def)

lemma resetState_post:
  assumes ok: "pool_ok P pool" and q: "0 \<le> sint (cf_AccountQueue (P_config P))"
  shows "post (keeps P pool) (resetState P v now pool)"
proof -
  have "pool_ok P (pool\<lparr>tp_pendingState := ManageState v\<rparr>)" by (rule pool_ok_cong [OF _ _ _ _ ok]) (use ok in \<open>auto simp: pool_ok_def all_ok_def\<close>)
  from demoteUnexecutables_ok [OF this, of v] obtain p where p: "demoteUnexecutables P v (pool\<lparr>tp_pendingState := ManageState v\<rparr>) = Inr p" "keeps P pool p" by auto
  have "post (keeps P pool) (fold_res renewNonce (mkeys (tp_pending p)) p)"
    by (rule post_fold_res) (use p in \<open>auto intro: post_mono [OF renewNonce_post]\<close>)
  then have "post (keeps P pool) (bind_res (fold_res renewNonce (mkeys (tp_pending p)) p) (promoteExecutables P v now None))"
    by (rule post_bind) (auto intro: post_mono [OF promoteExecutables_post [OF _ q]])
  then show ?thesis using p(1) by (simp add: resetState_def)
qed

lemma pl_ok_ops:
  assumes "pl_ok l"
  shows "pl_ok (snd (pl_Underpriced H all tx locals l))" "pl_ok (snd (pl_Discard H all n locals l))" "pl_ok (snd (pl_Cap H all p locals l))"
proof -
  obtain i s where d: "dropStale (\<lambda>tx. mhas all (H tx)) (pl_items l) (pl_stales l) = (i, s)" by fastforce
  show "pl_ok (snd (pl_Underpriced H all tx locals l))" using dropStale_spec [OF _ d] assms by (simp add: pl_Underpriced_def d Let_def pl_ok_def)
  obtain gone save i s where d: "discardPrices (\<lambda>tx. mhas all (H tx)) n locals (pl_items l) (pl_stales l) = (gone, save, i, s)" by (metis prod_cases4)
  have "is_heap tx_Price i" using discardPrices_spec [OF _ d] assms by (simp add: pl_ok_def)
  then show "pl_ok (snd (pl_Discard H all n locals l))" using push_all [of tx_Price i save] by (simp add: pl_Discard_def d pl_ok_def)
  obtain gone save i s where d: "capPrices (\<lambda>tx. mhas all (H tx)) p locals (pl_items l) (pl_stales l) = (gone, save, i, s)" by (metis prod_cases4)
  have "is_heap tx_Price i" using capPrices_spec [OF _ d] assms by (simp add: pl_ok_def)
  then show "pl_ok (snd (pl_Cap H all p locals l))" using push_all [of tx_Price i save] by (simp add: pl_Cap_def d pl_ok_def)
qed

lemma validateTx_keeps:
  "post (\<lambda>(e, pool'). tp_pending pool' = tp_pending pool \<and> tp_queue pool' = tp_queue pool \<and> tp_all pool' = tp_all pool \<and> tp_priced pool' = tp_priced pool \<and> tp_locals pool' = tp_locals pool)
    (validateTx P v tx local pool)"
proof -
  have c: "post (\<lambda>(e, pool'). tp_pending pool' = tp_pending p \<and> tp_queue pool' = tp_queue p \<and> tp_all pool' = tp_all p \<and> tp_priced pool' = tp_priced p \<and> tp_locals pool' = tp_locals p)
    (validateCross P tx p)" for p
    by (auto simp: validateCross_def post_def bind_res_Inr_iff split: option.splits if_splits)
  show ?thesis
  proof (cases "senderOf P tx")
    case (Inr r)
    show ?thesis using c [of "pool\<lparr>tp_gasPrice := 0\<rparr>"]
      by (cases r) (simp_all add: validateTx_def Inr Let_def)
  qed (simp add: validateTx_def)
qed

lemma makeRoom_ok:
  assumes ok: "pool_ok P pool" and m: "makeRoom P tx pool = (e, pool')"
  shows "keeps P pool pool' \<and> (\<forall>k. mget (tp_all pool) k = None \<longrightarrow> mget (tp_all pool') k = None)"
proof -
  have pr: "pool_ok P (pool\<lparr>tp_priced := l\<rparr>)" if "pl_ok l" for l by (rule pool_ok_cong [OF _ _ _ _ ok]) (use that in auto)
  have pl: "pl_ok (tp_priced pool)" using ok by (simp add: pool_ok_def all_ok_def)
  let ?u = "pl_Underpriced (txHash P) (tp_all pool) tx (tp_locals pool) (tp_priced pool)"
  have u: "pl_ok (snd ?u)" by (rule pl_ok_ops(1) [OF pl])
  have d: "pl_ok (snd (pl_Discard (txHash P) (tp_all pool) n (tp_locals pool) (snd ?u)))" for n by (rule pl_ok_ops(2) [OF u])
  have r: "keeps P pool (removeTxs P xs (pool\<lparr>tp_priced := l\<rparr>)) \<and> (\<forall>k. mget (tp_all pool) k = None \<longrightarrow> mget (tp_all (removeTxs P xs (pool\<lparr>tp_priced := l\<rparr>))) k = None)"
    if "pl_ok l" for xs l using removeTxs_ok [OF pr [OF that], of xs] by simp
  show ?thesis using m pr [OF u] r [OF d] ok unfolding makeRoom_def Let_def case_prod_beta removeTxs_def [symmetric]
    by (auto split: if_splits)
qed

text \<open>A transaction takes the place of a pending one with the same nonce.\<close>

lemma replacePending_ok:
  assumes ok: "pool_ok P pool" and l: "mget (tp_pending pool) a = Some l" and a: "fromOf P tx = a" and h: "mget (tp_all pool) (txHash P tx) = None"
    and o: "tl_Overlaps tx l" and add: "tl_Add tx b l = ((True, old), l')"
  shows "pool_ok P (remember (txHash P tx) tx (forgetOld P old (setPending a l' pool)))"
proof -
  have sh: "shape_ok P pool" using ok by (rule pool_okD)
  have lo: "tl_ok l" "tl_strict l" using sh l by (auto simp: shape_ok_def lists_ok_def)
  have t: "txsOf (tp_pending pool) a = inOrder (tl_txs l)" using l by (rule txsOf_Some)
  have l': "tl_ok l'" "tl_strict l'" and oldf: "old = find (\<lambda>x. tx_AccountNonce x = tx_AccountNonce tx) (inOrder (tl_txs l))"
    and s: "set (inOrder (tl_txs l')) = insert tx {x \<in> set (inOrder (tl_txs l)). tx_AccountNonce x \<noteq> tx_AccountNonce tx}"
    using lo(1) by (cases rule: tl_Add_cases [where tx = tx and bump = b]; use add lo in simp)+
  have "sm_Get (tx_AccountNonce tx) (tl_txs l) \<noteq> None" using o by (simp add: tl_Overlaps_def)
  then obtain y where y: "old = Some y" unfolding oldf sm_Get_inOrder [OF tl_okD [OF lo(1)]] by blast
  then have yin: "y \<in> set (txsOf (tp_pending pool) a)" "tx_AccountNonce y = tx_AccountNonce tx" using oldf t by (auto simp: find_Some_iff)
  have "tx_AccountNonce tx \<noteq> tx_AccountNonce z" if "z \<in> set (txsOf (tp_queue pool) a)" for z using nonce_disjoint [OF sh yin(1) that] yin(2) by simp
  then have "shape_ok P (setPending a l' pool)" using own_tx(1) [OF sh, where b = a, unfolded t] nonce_disjoint [OF sh, where a = a, unfolded t] a by (intro setPending_shape sh l') (auto simp: s)
  moreover have "known_ok P (remember (txHash P tx) tx (forgetOld P old (setPending a l' pool)))"
  proof (rule swap_known [where pool = pool])
    show "listed pool x" if "old = Some x" for x using that y yin(1) listedI(1) by auto
    show "x = tx \<or> listed pool x \<and> old \<noteq> Some x" if x: "listed (setPending a l' pool) x" for x
    proof (cases "x = tx")
      case False
      have "\<not> listed (setPending a l' pool) y" if "y \<noteq> tx" using left_pending [OF ok yin(1)] yin(2) that by (simp add: s)
      then have "old \<noteq> Some x" using x y False by auto
      then show ?thesis using x [unfolded listed_setPending s, folded t] False unfolding listed_def by blast
    qed simp
  qed (use ok h in \<open>auto simp: pool_ok_def\<close>)
  moreover have "all_ok P (setPending a l' pool)" using ok by (auto simp: pool_ok_def all_ok_def setPending_def)
  then have "all_ok P (remember (txHash P tx) tx (forgetOld P old (setPending a l' pool)))" by blast
  ultimately show ?thesis by (intro pool_okI) simp_all
qed

lemma insert_ok:
  assumes ok: "pool_ok P pool" and h: "mget (tp_all pool) (txHash P tx) = None"
  shows "pool_ok P (snd (tp_insert P (txHash P tx) tx local pool))"
proof -
  let ?a = "fromOf P tx"
  have loc: "pool_ok P p \<Longrightarrow> pool_ok P (p\<lparr>tp_locals := ls\<rparr>)" for p ls by (rule pool_ok_cong) (auto simp: pool_ok_def all_ok_def)
  have q: "pool_ok P (snd (case enqueueTx P (txHash P tx) tx pool of (Inl e, p) \<Rightarrow> (Inl e, p) | (Inr r, p) \<Rightarrow> (Inr r, if local then p\<lparr>tp_locals := as_add ?a (tp_locals p)\<rparr> else p)))"
    if "\<forall>x\<in>set (txsOf (tp_pending pool) ?a). tx_AccountNonce x \<noteq> tx_AccountNonce tx"
    using enqueueTx_ok [OF ok _ that] h loc by (cases "enqueueTx P (txHash P tx) tx pool") (auto split: sum.splits)
  show ?thesis
  proof (cases "mget (tp_pending pool) ?a")
    case None
    then show ?thesis using q by (simp add: tp_insert_def txsOf_def)
  next
    case (Some l)
    have lo: "tl_ok l" using ok Some by (auto simp: pool_ok_def shape_ok_def lists_ok_def)
    show ?thesis
    proof (cases "tl_Overlaps tx l")
      case False
      then have "find (\<lambda>x. tx_AccountNonce x = tx_AccountNonce tx) (inOrder (tl_txs l)) = None" using sm_Get_inOrder [OF tl_okD [OF lo]] by (simp add: tl_Overlaps_def)
      then show ?thesis using q Some False txsOf_Some [OF Some] by (auto simp: tp_insert_def find_None_iff)
    next
      case True
      show ?thesis using lo
      proof (cases rule: tl_Add_cases [where tx = tx and bump = "cf_PriceBump (P_config P)"])
        case no
        then show ?thesis using Some True ok by (auto simp: tp_insert_def Let_def intro!: setPending_sub [OF ok, of l ?a, unfolded setPending_def])
          (auto simp: pool_ok_def shape_ok_def lists_ok_def txsOf_def)
      next
        case (yes old l')
        then show ?thesis using replacePending_ok [OF ok Some refl h True yes(1)] Some True by (simp add: tp_insert_def Let_def setPending_def)
      qed
    qed
  qed
qed

lemma tp_add_post:
  assumes ok: "pool_ok P pool"
  shows "post (\<lambda>(r, pool'). pool_ok P pool') (tp_add P v tx local pool)"
proof (cases "ZKHashTx (P_cross P) tx")
  case (Inr h)
  then have h: "h = txHash P tx" by (simp add: txHash_def)
  show ?thesis
  proof (cases "mget (tp_all pool) h")
    case None
    have k: "pool_ok P p" "mget (tp_all p) h = None" if "validateTx P v tx local pool = Inr (e, p)" for e p
      using validateTx_keeps [of pool P v tx local, unfolded that] None ok
      by (auto simp: pool_ok_def shape_ok_def known_ok_def all_ok_def listed_def)
    have "post (\<lambda>(r, pool'). pool_ok P pool') (case makeRoom P tx p of (Some e, pool) \<Rightarrow> Inr (Inl e, pool) | (None, pool) \<Rightarrow> Inr (tp_insert P h tx local pool))"
      if "validateTx P v tx local pool = Inr (e, p)" for e p
      using makeRoom_ok [OF k(1) [OF that]] insert_ok [of P _ tx local] k(2) [OF that]
      by (cases "makeRoom P tx p") (auto simp: h case_prod_beta split: option.splits)
    then show ?thesis using Inr None k(1)
      by (cases "validateTx P v tx local pool") (auto simp: tp_add_def split: option.splits)
  qed (use Inr ok in \<open>auto simp: tp_add_def\<close>)
qed (simp add: tp_add_def)

lemma addTx_post:
  assumes ok: "pool_ok P pool" and q: "0 \<le> sint (cf_AccountQueue (P_config P))"
  shows "post (\<lambda>(e, pool'). pool_ok P pool') (addTx P v now tx local pool)"
  unfolding addTx_def
proof (rule post_bind [OF tp_add_post [OF ok]])
  fix x :: "(poolerr + bool) \<times> TxPool" assume "case x of (r, pool') \<Rightarrow> pool_ok P pool'"
  moreover have "post (\<lambda>(e, pool'). pool_ok P pool') (bind_res (promoteExecutables P v now as p) (\<lambda>pool. Inr (None, pool)))" if "pool_ok P p" for as p
    by (rule post_bind [OF promoteExecutables_post [OF that q]]) simp
  ultimately show "post (\<lambda>(e, pool'). pool_ok P pool') (case x of (Inl e, pool) \<Rightarrow> Inr (Some e, pool) | (Inr replace, pool) \<Rightarrow> if replace then Inr (None, pool)
      else bind_res (promoteExecutables P v now (Some [fromOf P tx]) pool) (\<lambda>pool. Inr (None, pool)))"
    by (auto split: sum.splits)
qed

lemma addTxs_post:
  assumes ok: "pool_ok P pool" and q: "0 \<le> sint (cf_AccountQueue (P_config P))"
  shows "post (pool_ok P) (addTxs P v now txs local pool)"
  unfolding addTxs_def
proof (rule post_bind [where R = "\<lambda>(dirty, p). pool_ok P p"])
  show "post (\<lambda>(dirty, p). pool_ok P p) (fold_res (addDirty P v local) txs ([], pool))"
  proof (rule post_fold_res)
    fix tx and s :: "address list \<times> TxPool" assume "case s of (dirty, p) \<Rightarrow> pool_ok P p"
    then have "pool_ok P (snd s)" by (simp add: case_prod_beta)
    then show "post (\<lambda>(dirty, p). pool_ok P p) (addDirty P v local tx s)" unfolding addDirty_def
      by (rule post_bind [OF tp_add_post]) auto
  qed (use ok in simp)
  fix s :: "address list \<times> TxPool" assume "case s of (dirty, p) \<Rightarrow> pool_ok P p"
  then show "post (pool_ok P) (case s of (dirty, pool) \<Rightarrow> if dirty \<noteq> [] then promoteExecutables P v now (Some dirty) pool else Inr pool)"
    using post_mono [OF promoteExecutables_post [OF _ q]] by (auto simp: case_prod_beta)
qed

lemma SetGasPrice_ok:
  assumes ok: "pool_ok P pool"
  shows "pool_ok P (SetGasPrice P price pool)"
proof -
  have "pl_ok (tp_priced pool)" using ok by (simp add: pool_ok_def all_ok_def)
  then have "pool_ok P (pool\<lparr>tp_gasPrice := price, tp_priced := snd (pl_Cap (txHash P) (tp_all pool) price (tp_locals pool) (tp_priced pool))\<rparr>)"
    by (intro pool_ok_cong [OF _ _ _ _ ok]) (auto intro: pl_ok_ops)
  then show ?thesis using removeTxs_ok by (simp add: SetGasPrice_def Let_def case_prod_beta)
qed

lemma expireAccount_ok: "pool_ok P pool \<Longrightarrow> pool_ok P (expireAccount P now a pool)"
  using setQueue_flat [of P pool a] removeTxs_ok by (auto simp: expireAccount_def case_prod_beta Let_def split: option.splits)

lemma expireQueued_ok: "pool_ok P pool \<Longrightarrow> pool_ok P (expireQueued P now pool)"
proof -
  have "pool_ok P pool \<Longrightarrow> pool_ok P (fold (expireAccount P now) as pool)" for as by (induction as arbitrary: pool) (simp_all add: expireAccount_ok)
  then show "pool_ok P pool \<Longrightarrow> pool_ok P (expireQueued P now pool)" by (simp add: expireQueued_def)
qed

text \<open>Reading the lists only fills their caches.\<close>

lemma flattenEach_spec:
  assumes "lists_ok strict m"
  shows "lists_ok strict (snd (flattenEach m)) \<and> (\<forall>a. txsOf (snd (flattenEach m)) a = txsOf m a) \<and> mkeys (snd (flattenEach m)) = mkeys m \<and>
    fst (flattenEach m) = map (\<lambda>(a, l). (a, inOrder (tl_txs l))) m"
  using assms
proof (induction m)
  case (Cons p m)
  obtain a l where p: "p = (a, l)" by (cases p)
  have d: "distinct (mkeys m)" "a \<notin> set (mkeys m)" using Cons.prems by (auto simp: p lists_ok_def mkeys_def)
  have l: "tl_ok l" "tl_strict l = strict" using lists_okD [OF Cons.prems, of a l] by (auto simp: p mget_def)
  have "lists_ok strict m" using Cons.prems d by (auto simp: p lists_ok_def mget_def mkeys_def split: if_splits)
  then have ih: "lists_ok strict (snd (flattenEach m))" "\<And>a. txsOf (snd (flattenEach m)) a = txsOf m a" "mkeys (snd (flattenEach m)) = mkeys m"
    "fst (flattenEach m) = map (\<lambda>(a, l). (a, inOrder (tl_txs l))) m" using Cons.IH by auto
  obtain n where f: "tl_Flatten l = (inOrder (tl_txs l), l\<lparr>tl_txs := n\<rparr>)" "tl_ok (l\<lparr>tl_txs := n\<rparr>)" "inOrder n = inOrder (tl_txs l)" using tl_Flatten_ok [OF l(1)] by blast
  show ?case using ih f d l by (auto simp: p Let_def case_prod_beta lists_ok_def mkeys_def mget_def txsOf_def)
qed (simp add: lists_ok_def)

lemma flatten_ok:
  assumes ok: "pool_ok P pool"
  shows "pool_ok P (snd (tp_Pending pool))" and "pool_ok P (snd (tp_Content pool))"
proof -
  have sh: "lists_ok True (tp_pending pool)" "lists_ok False (tp_queue pool)" using ok by (simp_all add: pool_ok_def shape_ok_def)
  note p = flattenEach_spec [OF sh(1)] and q = flattenEach_spec [OF sh(2)]
  show "pool_ok P (snd (tp_Pending pool))" using ok p
    by (simp add: tp_Pending_def case_prod_beta Let_def pool_ok_def shape_ok_def known_ok_def all_ok_def listed_def)
  show "pool_ok P (snd (tp_Content pool))" using ok p q
    by (simp add: tp_Content_def case_prod_beta Let_def pool_ok_def shape_ok_def known_ok_def all_ok_def listed_def)
qed

lemma NewTxPool_post:
  assumes "0 \<le> sint (cf_AccountQueue (P_config P))"
  shows "post (pool_ok P) (NewTxPool P v now db)"
  unfolding NewTxPool_def
  by (rule post_mono [OF resetState_post [OF _ assms]])
    (auto simp: pool_ok_def shape_ok_def known_ok_def all_ok_def listed_def lists_ok_def txsOf_def newTxPricedList_def pl_ok_def heap_from_def)

section \<open>Reachable pools\<close>

inductive pool_reach :: "poolEnv \<Rightarrow> TxPool \<Rightarrow> bool" for P :: poolEnv where
  pool_new: "NewTxPool P v now db = Inr pool \<Longrightarrow> pool_reach P pool"
| pool_add: "pool_reach P pool \<Longrightarrow> addTx P v now tx local pool = Inr (e, pool') \<Longrightarrow> pool_reach P pool'"
| pool_addTxs: "pool_reach P pool \<Longrightarrow> addTxs P v now txs local pool = Inr pool' \<Longrightarrow> pool_reach P pool'"
| pool_remove: "pool_reach P pool \<Longrightarrow> pool_reach P (removeTx P h pool)"
| pool_price: "pool_reach P pool \<Longrightarrow> pool_reach P (SetGasPrice P price pool)"
| pool_expire: "pool_reach P pool \<Longrightarrow> pool_reach P (expireQueued P now pool)"
| pool_head: "pool_reach P pool \<Longrightarrow> onChainHead P v now isHomestead pool = Inr pool' \<Longrightarrow> pool_reach P pool'"
| pool_pending: "pool_reach P pool \<Longrightarrow> pool_reach P (snd (tp_Pending pool))"
| pool_content: "pool_reach P pool \<Longrightarrow> pool_reach P (snd (tp_Content pool))"
| pool_db: "pool_reach P pool \<Longrightarrow> pool_reach P (pool\<lparr>tp_db := db\<rparr>)"

lemma pool_reach_ok:
  assumes "pool_reach P pool" and q: "0 \<le> sint (cf_AccountQueue (P_config P))"
  shows "pool_ok P pool"
  using assms(1)
proof (induction rule: pool_reach.induct)
  case (pool_new v now db pool)
  then show ?case using NewTxPool_post [OF q] by (blast dest: postD)
next
  case (pool_add pool v now tx local e pool')
  then show ?case using addTx_post [OF _ q] by (fastforce dest: postD)
next
  case (pool_addTxs pool v now txs local pool')
  then show ?case using addTxs_post [OF _ q] by (blast dest: postD)
next
  case (pool_head pool v now isHomestead pool')
  have "pool_ok P (if isHomestead then pool\<lparr>tp_homestead := True\<rparr> else pool)"
    by (rule pool_ok_cong [OF _ _ _ _ pool_head.IH]) (use pool_head.IH in \<open>simp_all add: pool_ok_def all_ok_def\<close>)
  then show ?case using resetState_post [OF _ q] pool_head.hyps(2) by (auto simp: onChainHead_def dest: postD)
next
  case (pool_db pool db)
  show ?case by (rule pool_ok_cong [OF _ _ _ _ pool_db.IH]) (use pool_db.IH in \<open>simp_all add: pool_ok_def all_ok_def\<close>)
qed (simp_all add: removeTx_ok SetGasPrice_ok expireQueued_ok flatten_ok)

end
