(* ===== verification/Tx_Pool_Bounds.thy ===== *)
theory Tx_Pool_Bounds
  imports Tx_Pool_Kept
begin

text \<open>
  The limit on pending transactions: the loops of \<open>promoteExecutables\<close> that even out the pending lists return, leave no more
  than the limit or no account with more than its guaranteed share, and take nothing from a guaranteed share.
\<close>

definition pendingLen :: "TxPool \<Rightarrow> address \<Rightarrow> nat" where
  "pendingLen pool a = length (txsOf (tp_pending pool) a)"

definition totalLen :: "(address \<times> txList) list \<Rightarrow> nat" where
  "totalLen m = sum_list (map (length \<circ> inOrder \<circ> tl_txs \<circ> snd) m)"

lemma sum_put:
  fixes f :: "'v \<Rightarrow> nat"
  shows "mget m k = Some v \<Longrightarrow> sum_list (map (f \<circ> snd) (mput k w m)) + f v = sum_list (map (f \<circ> snd) m) + f w"
  by (induction m) (auto simp: mget_def mput_def)

lemma keys_put_same: "mget m k = Some v \<Longrightarrow> mkeys (mput k w m) = mkeys m"
  by (induction m) (auto simp: mget_def mput_def mkeys_def)

lemma tl_Len_length: "tl_Len l = int (length (inOrder (tl_txs l)))"
  by (simp add: tl_Len_def sm_Len_def length_inOrder)

lemma countTxs_total: "countTxs m = of_nat (totalLen m)"
  by (induction m) (auto simp: countTxs_def totalLen_def tl_Len_length)

lemma member_total: "mget m a = Some l \<Longrightarrow> length (inOrder (tl_txs l)) \<le> totalLen m"
  by (induction m) (auto simp: mget_def totalLen_def split: if_splits)

lemma pendingLen_total: "pendingLen pool a \<le> totalLen (tp_pending pool)"
  by (cases "mget (tp_pending pool) a") (auto simp: pendingLen_def txsOf_def member_total)

lemma lenOf_pendingLen: "0 < pendingLen pool a \<Longrightarrow> lenOf a pool = Inr (int (pendingLen pool a))"
  by (auto simp: pendingLen_def txsOf_def lenOf_def tl_Len_length split: option.splits)

text \<open>The pool after some accounts have lost some transactions each.\<close>

definition shrunk :: "poolEnv \<Rightarrow> TxPool \<Rightarrow> TxPool \<Rightarrow> (address \<Rightarrow> nat) \<Rightarrow> nat \<Rightarrow> bool" where
  "shrunk P pool pool' loss k \<longleftrightarrow> keeps P pool pool' \<and> mkeys (tp_pending pool') = mkeys (tp_pending pool) \<and> tp_queue pool' = tp_queue pool \<and>
     (\<forall>a. txsOf (tp_pending pool') a = take (pendingLen pool a - loss a) (txsOf (tp_pending pool) a) \<and> loss a \<le> pendingLen pool a) \<and>
     totalLen (tp_pending pool') + k = totalLen (tp_pending pool)"

lemma shrunk_len: "shrunk P pool pool' loss k \<Longrightarrow> pendingLen pool' a = pendingLen pool a - loss a"
  by (auto simp: shrunk_def pendingLen_def)

lemma shrunk_refl: "pool_ok P pool \<Longrightarrow> shrunk P pool pool (\<lambda>_. 0) 0"
  by (simp add: shrunk_def pendingLen_def)

lemma shrunk_trans:
  assumes s: "shrunk P p1 p2 b1 k1" and t: "shrunk P p2 p3 b2 k2"
  shows "shrunk P p1 p3 (\<lambda>a. b1 a + b2 a) (k1 + k2)"
proof -
  have "txsOf (tp_pending p3) a = take (pendingLen p1 a - (b1 a + b2 a)) (txsOf (tp_pending p1) a) \<and> b1 a + b2 a \<le> pendingLen p1 a" for a
  proof -
    have 1: "txsOf (tp_pending p2) a = take (pendingLen p1 a - b1 a) (txsOf (tp_pending p1) a)" "b1 a \<le> pendingLen p1 a"
      and 2: "txsOf (tp_pending p3) a = take (pendingLen p2 a - b2 a) (txsOf (tp_pending p2) a)" "b2 a \<le> pendingLen p2 a"
      using s t by (auto simp: shrunk_def)
    have 3: "pendingLen p2 a = pendingLen p1 a - b1 a" by (rule shrunk_len [OF s])
    show ?thesis using 2(2) 1(2) unfolding 2(1) 1(1) 3 by (simp add: min_def)
  qed
  then show ?thesis using s t by (auto simp: shrunk_def)
qed

lemma shrunk_cong: "shrunk P p q b k \<Longrightarrow> (\<And>a. b a = b' a) \<Longrightarrow> k = k' \<Longrightarrow> shrunk P p q b' k'"
  by (simp add: shrunk_def)

lemma capPending_shrunk:
  assumes ok: "pool_ok P pool" and l: "0 < pendingLen pool a"
  shows "\<exists>pool'. capPending P a pool = Inr pool' \<and> shrunk P pool pool' (\<lambda>b. if b = a then 1 else 0) 1"
proof -
  obtain v where v: "mget (tp_pending pool) a = Some v" using l by (auto simp: pendingLen_def txsOf_def split: option.splits)
  have ne: "txsOf (tp_pending pool) a \<noteq> []" using l by (auto simp: pendingLen_def)
  obtain pool' l' where p: "capPending P a pool = Inr pool'" "keeps P pool pool'" "tp_pending pool' = mput a l' (tp_pending pool)" "tp_queue pool' = tp_queue pool"
    "inOrder (tl_txs l') = butlast (txsOf (tp_pending pool) a)" using capPending_ok [OF ok v ne] by blast
  have "totalLen (tp_pending pool') + length (inOrder (tl_txs v)) = totalLen (tp_pending pool) + length (inOrder (tl_txs l'))"
    using sum_put [OF v, of "length \<circ> inOrder \<circ> tl_txs" l'] by (simp add: totalLen_def p(3) comp_assoc)
  moreover have "length (inOrder (tl_txs l')) + 1 = length (inOrder (tl_txs v))" using ne p(5) txsOf_Some [OF v] by (cases "length (inOrder (tl_txs v))") auto
  ultimately have "totalLen (tp_pending pool') + 1 = totalLen (tp_pending pool)" by linarith
  then show ?thesis using p keys_put_same [OF v] l by (auto simp: shrunk_def pendingLen_def butlast_conv_take Suc_le_eq)
qed

lemma capRound_shrunk:
  assumes "pool_ok P pool" and "distinct as" and "\<forall>a\<in>set as. 0 < pendingLen pool a"
  shows "\<exists>pool'. capRound P as (pool, n) = Inr (pool', n - of_nat (length as)) \<and> shrunk P pool pool' (\<lambda>b. if b \<in> set as then 1 else 0) (length as)"
  using assms
proof (induction as arbitrary: pool n)
  case (Cons a as)
  obtain p where p: "capPending P a pool = Inr p" "shrunk P pool p (\<lambda>b. if b = a then 1 else 0) 1" using capPending_shrunk [of P pool a] Cons.prems by auto
  have "\<forall>b\<in>set as. 0 < pendingLen p b" using Cons.prems shrunk_len [OF p(2)] by auto
  moreover have "pool_ok P p" using p(2) by (simp add: shrunk_def)
  ultimately obtain q where q: "capRound P as (p, n - 1) = Inr (q, n - 1 - of_nat (length as))" "shrunk P p q (\<lambda>b. if b \<in> set as then 1 else 0) (length as)"
    using Cons.IH [of p "n - 1"] Cons.prems(2) by auto
  have "shrunk P pool q (\<lambda>b. if b \<in> set (a # as) then 1 else 0) (length (a # as))"
    by (rule shrunk_cong [OF shrunk_trans [OF p(2) q(2)]]) (use Cons.prems(2) in auto)
  then show ?case using p(1) q(1) by (simp add: algebra_simps)
qed (simp add: shrunk_refl)

lemma capRounds_shrunk:
  assumes "pool_ok P pool" and "distinct as" and "a \<in> set as" and "\<forall>b\<in>set as. pendingLen pool b = c" and "0 < c" and "c < k"
    and "\<forall>j\<le>c. long (int j) \<longleftrightarrow> t < j" and n: "n = of_nat (totalLen (tp_pending pool))" "totalLen (tp_pending pool) < 2 ^ 64"
  shows "\<exists>pool' d. capRounds P k long a as (pool, n) = Inr (pool', of_nat (totalLen (tp_pending pool'))) \<and>
    shrunk P pool pool' (\<lambda>b. if b \<in> set as then d else 0) (d * length as) \<and> (d = 0 \<or> t < Suc (c - d)) \<and>
    (totalLen (tp_pending pool') \<le> unat (cf_GlobalSlots (P_config P)) \<or> c - d \<le> t)"
  using assms
proof (induction k arbitrary: pool c n)
  case (Suc k)
  let ?S = "cf_GlobalSlots (P_config P)"
  have un: "unat n = totalLen (tp_pending pool)" using Suc.prems(8,9) by (simp add: unsigned_of_nat take_bit_nat_eq_self)
  have len: "lenOf a pool = Inr (int c)" using lenOf_pendingLen [of pool a] Suc.prems(3-5) by simp
  show ?case
  proof (cases "n > ?S \<and> t < c")
    case False
    then have "capRounds P (Suc k) long a as (pool, n) = Inr (pool, n)" using len Suc.prems(7) by auto
    moreover have "totalLen (tp_pending pool) \<le> unat ?S \<or> c \<le> t" using False un by (auto simp: word_less_nat_alt)
    ultimately show ?thesis using shrunk_refl [OF Suc.prems(1)] Suc.prems(8) by (intro exI [of _ pool] exI [of _ 0]) auto
  next
    case True
    obtain p where p: "capRound P as (pool, n) = Inr (p, n - of_nat (length as))" "shrunk P pool p (\<lambda>b. if b \<in> set as then 1 else 0) (length as)"
      using capRound_shrunk [of P pool as n] Suc.prems by auto
    have e: "capRounds P (Suc k) long a as (pool, n) = capRounds P k long a as (p, n - of_nat (length as))" using True len p(1) Suc.prems(7) by simp
    have tot: "totalLen (tp_pending p) + length as = totalLen (tp_pending pool)" using p(2) by (simp add: shrunk_def)
    have n': "n - of_nat (length as) = of_nat (totalLen (tp_pending p))" unfolding Suc.prems(8) tot [symmetric] by simp
    have cp: "\<forall>b\<in>set as. pendingLen p b = c - 1" using shrunk_len [OF p(2)] Suc.prems(4) by auto
    show ?thesis
    proof (cases "c = 1")
      case one: True
      have "totalLen (tp_pending p) \<le> unat ?S \<or> t < 1" using True one by simp
      have pa: "pendingLen p a = 0" using cp Suc.prems(3) one by simp
      obtain v where v: "mget (tp_pending p) a = Some v"
      proof -
        have "a \<in> set (mkeys (tp_pending p))"
        proof -
          have "mget (tp_pending pool) a \<noteq> None" using Suc.prems(3-5) by (auto simp: pendingLen_def txsOf_def split: option.splits)
          then have "a \<in> set (mkeys (tp_pending pool))" using am.set_keys [of "tp_pending pool"] by blast
          then show ?thesis using p(2) by (simp add: shrunk_def)
        qed
        then have "mget (tp_pending p) a \<noteq> None" using am.set_keys [of "tp_pending p"] by blast
        then show thesis using that by blast
      qed
      have "lenOf a p = Inr 0" using v pa by (simp add: lenOf_def tl_Len_length pendingLen_def txsOf_def)
      moreover have "\<not> long 0" using Suc.prems(7) [rule_format, of 0] by simp
      moreover obtain k' where "k = Suc k'" using Suc.prems(5,6) one by (cases k) auto
      ultimately have "capRounds P k long a as (p, n - of_nat (length as)) = Inr (p, n - of_nat (length as))" by simp
      then show ?thesis using e n' p(2) True one by (intro exI [of _ p] exI [of _ 1]) simp
    next
      case False
      have "pool_ok P p" using p(2) by (simp add: shrunk_def)
      moreover have "0 < c - 1" "c - 1 < k" "\<forall>j\<le>c - 1. long (int j) \<longleftrightarrow> t < j" using False Suc.prems(5-7) by auto
      moreover have "totalLen (tp_pending p) < 2 ^ 64" using tot Suc.prems(9) by simp
      ultimately obtain q d where q: "capRounds P k long a as (p, n - of_nat (length as)) = Inr (q, of_nat (totalLen (tp_pending q)))"
        "shrunk P p q (\<lambda>b. if b \<in> set as then d else 0) (d * length as)" "d = 0 \<or> t < Suc (c - 1 - d)"
        "totalLen (tp_pending q) \<le> unat ?S \<or> c - 1 - d \<le> t"
        using Suc.IH [OF _ Suc.prems(2,3) cp _ _ _ n'] by blast
      have "shrunk P pool q (\<lambda>b. if b \<in> set as then Suc d else 0) (Suc d * length as)"
        by (rule shrunk_cong [OF shrunk_trans [OF p(2) q(2)]]) auto
      moreover have "t < Suc (c - Suc d)" using q(3) True by auto
      ultimately show ?thesis using e q(1,4) by (intro exI [of _ q] exI [of _ "Suc d"]) simp
    qed
  qed
qed simp

section \<open>Evening out\<close>

lemma gather_shrunk:
  fixes as offs :: "address list" and P :: poolEnv
  defines "A \<equiv> unat (cf_AccountSlots (P_config P))" and "S \<equiv> unat (cf_GlobalSlots (P_config P))"
  assumes "pool_ok P pool" and "distinct (offs @ as)" and "sorted_wrt (\<lambda>a b. pendingLen pool b \<le> pendingLen pool a) as"
    and "\<forall>b\<in>set (offs @ as). A < pendingLen pool b"
    and "S < totalLen (tp_pending pool) \<longrightarrow> (\<forall>b\<in>set offs. pendingLen pool b = c) \<and> (offs \<noteq> [] \<longrightarrow> (\<forall>b\<in>set as. pendingLen pool b \<le> c))"
    and "n = of_nat (totalLen (tp_pending pool))" and "totalLen (tp_pending pool) < 2 ^ 64"
  shows "\<exists>offs' pool' loss k. gatherOffenders P as offs (pool, n) = Inr (offs', pool', of_nat (totalLen (tp_pending pool'))) \<and> shrunk P pool pool' loss k \<and>
    (\<forall>b. b \<notin> set (offs @ as) \<longrightarrow> loss b = 0) \<and> distinct offs' \<and> set offs' \<subseteq> set (offs @ as) \<and> (\<forall>b\<in>set (offs @ as). A < pendingLen pool' b) \<and>
    (S < totalLen (tp_pending pool') \<longrightarrow> set offs' = set (offs @ as) \<and> (\<exists>c. \<forall>b\<in>set offs'. pendingLen pool' b = c))"
  using assms(3-)
proof (induction as arbitrary: offs pool c n)
  case Nil
  show ?case using Nil shrunk_refl [OF Nil(1)] by (intro exI [of _ offs] exI [of _ pool] exI [of _ "\<lambda>_. 0"] exI [of _ 0]) auto
next
  case (Cons a as)
  note ok = Cons.prems(1) and dist = Cons.prems(2) and srt = Cons.prems(3) and big = Cons.prems(4) and even = Cons.prems(5) and n = Cons.prems(6,7)
  have un: "n > cf_GlobalSlots (P_config P) \<longleftrightarrow> S < totalLen (tp_pending pool)" using n by (simp add: word_less_nat_alt unsigned_of_nat take_bit_nat_eq_self S_def)
  show ?case
  proof (cases "S < totalLen (tp_pending pool)")
    case False
    then show ?thesis using un n shrunk_refl [OF ok] dist big by (intro exI [of _ offs] exI [of _ pool] exI [of _ "\<lambda>_. 0"] exI [of _ 0]) auto
  next
    case T: True
    show ?thesis
    proof (cases "offs = []")
      case True
      then show ?thesis using Cons.IH [of pool "[a]" "pendingLen pool a" n] ok dist srt big n T un by auto
    next
      case ne: False
      let ?la = "pendingLen pool a"
      have c: "\<forall>b\<in>set offs. pendingLen pool b = c" "?la \<le> c" using even T ne by auto
      have la: "A < ?la" "lenOf a pool = Inr (int ?la)" using big lenOf_pendingLen [of pool a] by auto
      have lst: "last offs \<in> set offs" using ne by simp
      then have "pendingLen pool (last offs) = c" using c(1) by blast
      then have f: "roundsFor (last offs) pool = c + 1" using lenOf_pendingLen [of pool "last offs"] c(2) la(1) by (simp add: roundsFor_def)
      obtain p d where p: "capRounds P (c + 1) (\<lambda>len. len > int ?la) (last offs) offs (pool, n) = Inr (p, of_nat (totalLen (tp_pending p)))"
        "shrunk P pool p (\<lambda>b. if b \<in> set offs then d else 0) (d * length offs)" "d = 0 \<or> ?la < Suc (c - d)" "totalLen (tp_pending p) \<le> S \<or> c - d \<le> ?la"
        using capRounds_shrunk [of P pool offs "last offs" c "c + 1" "\<lambda>len. len > int ?la" ?la n] ok dist lst c la(1) n by (auto simp: S_def)
      have len: "pendingLen p b = (if b \<in> set offs then c - d else pendingLen pool b)" for b using shrunk_len [OF p(2)] c(1) by auto
      have cd: "?la \<le> c - d" using p(3) c(2) by auto
      have notin: "b \<notin> set offs" if "b \<in> set (a # as)" for b using dist that by auto
      have srt': "sorted_wrt (\<lambda>x y. pendingLen p y \<le> pendingLen p x) as"
        by (rule sorted_wrt_mono_rel [of _ "\<lambda>x y. pendingLen pool y \<le> pendingLen pool x"]) (use srt notin in \<open>auto simp: len\<close>)
      have big': "\<forall>b\<in>set ((offs @ [a]) @ as). A < pendingLen p b" using big cd la(1) by (auto simp: len)
      have even': "S < totalLen (tp_pending p) \<longrightarrow> (\<forall>b\<in>set (offs @ [a]). pendingLen p b = ?la) \<and> (offs @ [a] \<noteq> [] \<longrightarrow> (\<forall>b\<in>set as. pendingLen p b \<le> ?la))"
        using p(4) cd srt notin by (auto simp: len)
      have tot: "totalLen (tp_pending p) < 2 ^ 64" using p(2) n(2) by (simp add: shrunk_def)
      have okp: "pool_ok P p" using p(2) by (simp add: shrunk_def)
      have dist': "distinct ((offs @ [a]) @ as)" using dist by simp
      from Cons.IH [OF okp dist' srt' big' even' refl tot] obtain offs' q loss k where
        q: "gatherOffenders P as (offs @ [a]) (p, of_nat (totalLen (tp_pending p))) = Inr (offs', q, of_nat (totalLen (tp_pending q)))" "shrunk P p q loss k"
        "\<forall>b. b \<notin> set ((offs @ [a]) @ as) \<longrightarrow> loss b = 0" "distinct offs'" "set offs' \<subseteq> set ((offs @ [a]) @ as)" "\<forall>b\<in>set ((offs @ [a]) @ as). A < pendingLen q b"
        "S < totalLen (tp_pending q) \<longrightarrow> set offs' = set ((offs @ [a]) @ as) \<and> (\<exists>c. \<forall>b\<in>set offs'. pendingLen q b = c)" by blast
      have "gatherOffenders P (a # as) offs (pool, n) = Inr (offs', q, of_nat (totalLen (tp_pending q)))"
        using T un ne la(2) f p(1) q(1) by simp
      then show ?thesis using shrunk_trans [OF p(2) q(2)] q(3-7)
        by (intro exI [of _ offs'] exI [of _ q] exI [of _ "\<lambda>b. (if b \<in> set offs then d else 0) + loss b"] exI [of _ "d * length offs + k"]) auto
    qed
  qed
qed

text \<open>What is relied on of the priority queue: it returns its entries from the highest priority to the lowest.\<close>

definition prque_ok :: "poolEnv \<Rightarrow> bool" where
  "prque_ok P \<longleftrightarrow> (\<forall>xs. \<exists>ys. mset ys = mset xs \<and> sorted_wrt (\<lambda>x y. y \<le> x) (map snd ys) \<and> P_prque P xs = map fst ys)"

lemma spammers_spec:
  assumes ok: "pool_ok P pool" and big: "totalLen (tp_pending pool) < 2 ^ 64"
  shows "distinct (map fst (spammers P pool))" and "\<forall>(a, k)\<in>set (spammers P pool). k = int (pendingLen pool a)"
    and "set (map fst (spammers P pool)) = {a. \<not> as_contains a (tp_locals pool) \<and> unat (cf_AccountSlots (P_config P)) < pendingLen pool a}"
proof -
  have d: "distinct (mkeys (tp_pending pool))" using ok by (simp add: pool_ok_def shape_ok_def lists_ok_def)
  have len: "length (inOrder (tl_txs l)) = pendingLen pool a" if "(a, l) \<in> set (tp_pending pool)" for a l
    using mget_SomeI [OF d that] by (simp add: pendingLen_def txsOf_def)
  have w: "word_of_int (tl_Len l) > (x :: u64) \<longleftrightarrow> unat x < pendingLen pool a" if "(a, l) \<in> set (tp_pending pool)" for a l x
  proof -
    have "pendingLen pool a < 2 ^ 64" using pendingLen_total [of pool a] big by simp
    then show ?thesis using len [OF that] by (simp add: tl_Len_length word_less_nat_alt unsigned_of_nat take_bit_nat_eq_self)
  qed
  have fst: "map fst (spammers P pool) = map fst (filter (\<lambda>(a, l). \<not> as_contains a (tp_locals pool) \<and> word_of_int (tl_Len l) > cf_AccountSlots (P_config P)) (tp_pending pool))"
    by (simp add: spammers_def case_prod_beta comp_def)
  show "distinct (map fst (spammers P pool))" unfolding fst using d by (simp add: mkeys_def distinct_map_filter)
  show "\<forall>(a, k)\<in>set (spammers P pool). k = int (pendingLen pool a)" by (auto simp: spammers_def tl_Len_length len)
  show "set (map fst (spammers P pool)) = {a. \<not> as_contains a (tp_locals pool) \<and> unat (cf_AccountSlots (P_config P)) < pendingLen pool a}" (is "_ = ?R")
  proof
    show "set (map fst (spammers P pool)) \<subseteq> ?R" unfolding fst using w by auto
    show "?R \<subseteq> set (map fst (spammers P pool))"
    proof
      fix a assume a: "a \<in> ?R"
      then obtain l where l: "mget (tp_pending pool) a = Some l" by (auto simp: pendingLen_def txsOf_def split: option.splits)
      then have "(a, l) \<in> set (tp_pending pool)" by (rule mget_SomeD)
      then show "a \<in> set (map fst (spammers P pool))" unfolding fst using a w by force
    qed
  qed
qed

lemma limitPending_spec:
  fixes P :: poolEnv
  defines "A \<equiv> unat (cf_AccountSlots (P_config P))" and "S \<equiv> unat (cf_GlobalSlots (P_config P))"
  assumes ok: "pool_ok P pool" and pq: "prque_ok P" and big: "totalLen (tp_pending pool) < 2 ^ 64"
  shows "\<exists>pool' loss k. limitPending P pool = Inr pool' \<and> shrunk P pool pool' loss k \<and> (\<forall>a. as_contains a (tp_locals pool) \<longrightarrow> loss a = 0) \<and>
    (\<forall>a. min (pendingLen pool a) A \<le> pendingLen pool' a) \<and>
    (totalLen (tp_pending pool') \<le> S \<or> (\<forall>a. \<not> as_contains a (tp_locals pool) \<longrightarrow> pendingLen pool' a \<le> A))"
proof (cases "S < totalLen (tp_pending pool)")
  case False
  then have "limitPending P pool = Inr pool" using big
    by (simp add: limitPending_def Let_def countTxs_total word_less_nat_alt unsigned_of_nat take_bit_nat_eq_self S_def)
  then show ?thesis using shrunk_refl [OF ok] False by (intro exI [of _ pool] exI [of _ "\<lambda>_. 0"] exI [of _ 0]) auto
next
  case T: True
  note sp = spammers_spec [OF ok big]
  obtain ys where ys: "mset ys = mset (spammers P pool)" "sorted_wrt (\<lambda>x y. y \<le> x) (map snd ys)" "P_prque P (spammers P pool) = map fst ys"
    using pq by (auto simp: prque_ok_def)
  let ?as = "map fst ys"
  have sy: "set ys = set (spammers P pool)" using ys(1) by (metis set_mset_mset)
  have d: "distinct ([] @ ?as)" using sp(1) ys(1) by (metis append_Nil mset_eq_imp_distinct_iff mset_map)
  have sas: "set ?as = {a. \<not> as_contains a (tp_locals pool) \<and> A < pendingLen pool a}" using sp(3) sy by (simp add: A_def)
  have k: "\<forall>y\<in>set ys. snd y = int (pendingLen pool (fst y))" using sp(2) sy by auto
  have srt: "sorted_wrt (\<lambda>a b. pendingLen pool b \<le> pendingLen pool a) ?as"
    unfolding sorted_wrt_map by (rule sorted_wrt_mono_rel [of _ "\<lambda>x y. snd y \<le> snd x"]) (use ys(2) k in \<open>auto simp: sorted_wrt_map\<close>)
  have n: "countTxs (tp_pending pool) = of_nat (totalLen (tp_pending pool))" by (rule countTxs_total)
  obtain offs p loss k where g: "gatherOffenders P ?as [] (pool, countTxs (tp_pending pool)) = Inr (offs, p, of_nat (totalLen (tp_pending p)))" "shrunk P pool p loss k"
    "\<forall>b. b \<notin> set ?as \<longrightarrow> loss b = 0" "distinct offs" "set offs \<subseteq> set ?as" "\<forall>b\<in>set ?as. A < pendingLen p b"
    "S < totalLen (tp_pending p) \<longrightarrow> set offs = set ?as \<and> (\<exists>c. \<forall>b\<in>set offs. pendingLen p b = c)"
  proof -
    have m: "\<forall>b\<in>set ([] @ ?as). unat (cf_AccountSlots (P_config P)) < pendingLen pool b" using sas unfolding A_def by auto
    have z: "unat (cf_GlobalSlots (P_config P)) < totalLen (tp_pending pool) \<longrightarrow> (\<forall>b\<in>set []. pendingLen pool b = 0) \<and> ([] \<noteq> ([] :: address list) \<longrightarrow> (\<forall>b\<in>set ?as. pendingLen pool b \<le> 0))" by simp
    show thesis using gather_shrunk [OF ok d srt m z n big] that unfolding A_def S_def append_Nil by blast
  qed
  have okp: "pool_ok P p" and totp: "totalLen (tp_pending p) < 2 ^ 64" and loc: "tp_locals p = tp_locals pool" using g(2) big by (auto simp: shrunk_def)
  have cmp: "of_nat (totalLen (tp_pending q)) > cf_GlobalSlots (P_config P) \<longleftrightarrow> S < totalLen (tp_pending q)" if "totalLen (tp_pending q) < 2 ^ 64" for q
    using that by (simp add: word_less_nat_alt unsigned_of_nat take_bit_nat_eq_self S_def)
  have keep: "min (pendingLen pool a) A \<le> pendingLen p a" for a using g(3,6) shrunk_len [OF g(2), of a] by (cases "a \<in> set ?as") auto
  have local: "loss a = 0" if "as_contains a (tp_locals pool)" for a using g(3) sas that by auto
  have lim: "limitPending P pool = (if S < totalLen (tp_pending p) \<and> offs \<noteq> []
      then bind_res (capRounds P (roundsFor (last offs) p) (\<lambda>len. word_of_int len > cf_AccountSlots (P_config P)) (last offs) offs (p, of_nat (totalLen (tp_pending p)))) (\<lambda>(pool, n). Inr pool)
      else Inr p)"
    using T g(1) ys(3) cmp [OF big] cmp [OF totp] by (simp add: limitPending_def Let_def n)
  show ?thesis
  proof (cases "S < totalLen (tp_pending p) \<and> offs \<noteq> []")
    case False
    have "pendingLen p a \<le> A" if "S < totalLen (tp_pending p)" "\<not> as_contains a (tp_locals pool)" for a
      using False g(7) that sas shrunk_len [OF g(2), of a] by auto
    then show ?thesis using False lim g(2) keep local by (intro exI [of _ p] exI [of _ loss] exI [of _ k]) auto
  next
    case True
    then obtain c where c: "\<forall>b\<in>set offs. pendingLen p b = c" and so: "set offs = set ?as" using g(7) by blast
    have lst: "last offs \<in> set offs" using True by simp
    have cA: "A < c" using c so g(6) lst by force
    then have f: "roundsFor (last offs) p = c + 1" using lenOf_pendingLen [of p "last offs"] c lst by (simp add: roundsFor_def)
    have c64: "c < 2 ^ 64" using pendingLen_total [of p "last offs"] c lst totp by simp
    have long: "\<forall>j\<le>c. (word_of_int (int j) > cf_AccountSlots (P_config P)) \<longleftrightarrow> A < j"
      using c64 by (auto simp: word_less_nat_alt unsigned_of_nat take_bit_nat_eq_self A_def)
    obtain q e where q: "capRounds P (c + 1) (\<lambda>len. word_of_int len > cf_AccountSlots (P_config P)) (last offs) offs (p, of_nat (totalLen (tp_pending p))) = Inr (q, of_nat (totalLen (tp_pending q)))"
      "shrunk P p q (\<lambda>b. if b \<in> set offs then e else 0) (e * length offs)" "e = 0 \<or> A < Suc (c - e)" "totalLen (tp_pending q) \<le> S \<or> c - e \<le> A"
      using capRounds_shrunk [OF okp g(4) lst c, of "c + 1" "\<lambda>len. word_of_int len > cf_AccountSlots (P_config P)" A] cA long totp by (auto simp: S_def)
    have len: "pendingLen q b = (if b \<in> set offs then c - e else pendingLen p b)" for b using shrunk_len [OF q(2)] c by auto
    have "pendingLen p a \<le> A" if "\<not> as_contains a (tp_locals pool)" "a \<notin> set offs" for a using that so sas shrunk_len [OF g(2), of a] by auto
    then have "totalLen (tp_pending q) \<le> S \<or> (\<forall>a. \<not> as_contains a (tp_locals pool) \<longrightarrow> pendingLen q a \<le> A)" using q(4) by (auto simp: len)
    moreover have "min (pendingLen pool a) A \<le> pendingLen q a" for a using keep [of a] q(3) cA by (auto simp: len)
    moreover have "loss a + (if a \<in> set offs then e else 0) = 0" if "as_contains a (tp_locals pool)" for a using local [OF that] that so sas by auto
    ultimately show ?thesis using lim True f q(1) shrunk_trans [OF g(2) q(2)]
      by (intro exI [of _ q] exI [of _ "\<lambda>b. loss b + (if b \<in> set offs then e else 0)"] exI [of _ "k + e * length offs"]) auto
  qed
qed

end
