(* ===== verification/Pool_Properties.thy ===== *)
theory Pool_Properties
  imports Tx_Pool_Bounds Tx_Properties Eng_Properties
begin

text \<open>
  The properties of the transaction pool and of cross-chain proofs, with concrete instances.
\<close>

section \<open>An example\<close>

text \<open>
  Toy functions for hashes and decoding. The transaction that is encoded as 1 is in the block encoded as 10, whose hash is
  in the block encoded as 11, which is known of the root chain. The bytes 2 encode the same transaction with another value.
\<close>

definition exOld :: Transaction where
  "exOld = (exTx TxCrossChain 0 0 3 0)\<lparr>tx_CrossChainRecipient := 8\<rparr>"

definition exCross :: crossEnv where
  "exCross = \<lparr>x_eng = exEng, x_Chash = (\<lambda>b. ucast (b ! 31) * 256 + ucast (last b)), x_genRoot = hd,
     x_decodeTx = (\<lambda>b. if b = [1] then Some exOld else if b = [2] then Some (exOld\<lparr>tx_Amount := 1000, tx_CrossChainRecipient := 9\<rparr>) else None),
     x_decodeBlock = (\<lambda>b. if b = [10] then Some (exHeader 0 769 1 [], [exOld])
       else if b = [11] then Some (exHeader 0 55 2 [], [(exTx TxHeader 0 0 7 0)\<lparr>tx_Headers := [769]\<rparr>]) else None),
     x_Hash = (\<lambda>b. ucast (hd b)), x_TotalLevel = 2, x_ID = []\<rparr>"

definition exClaim :: Transaction where
  "exClaim = (exTx TxCrossChain 0 0 5 0)\<lparr>tx_CrossChainSender := 1, tx_Recipient := Some 8, tx_CrossTxProof := [[1], [10], [11]]\<rparr>"

definition exRootDb :: database where
  "exRootDb = Some [(hashBytes 55 @ RootChainBlockHashSuffix, [])]"

lemma ex_senders: "p \<in> {[1], [2]} \<Longrightarrow> sendersPresent exCross p [10]"
  by (auto simp: sendersPresent_def exCross_def exOld_def exTx_def)

definition exPoolEnv :: poolEnv where
  "exPoolEnv = \<lparr>P_config = DefaultTxPoolConfig\<lparr>cf_AccountSlots := 1, cf_GlobalSlots := 2\<rparr>, P_cross = exCross, P_Size = (\<lambda>_. 100), P_recover = tx_Sender,
     P_hibeVerify = (\<lambda>_. True), P_prque = (\<lambda>xs. map fst (rev (sort_key snd xs)))\<rparr>"

definition exView :: poolView where
  "exView = \<lparr>pv_nonce = (\<lambda>_. 0), pv_balance = (\<lambda>_. 10 ^ 6), pv_gasLimit = 10 ^ 6\<rparr>"

definition exPoolTx :: "u64 \<Rightarrow> hash \<Rightarrow> address \<Rightarrow> Transaction" where
  "exPoolTx nonce sn a = (exTx TxNormal 0 0 sn nonce)\<lparr>tx_Sender := Some a\<rparr>"

fun exRun :: "Transaction list \<Rightarrow> TxPool res" where
  "exRun [] = NewTxPool exPoolEnv exView 0 exRootDb"
| "exRun (tx # txs) = bind_res (exRun txs) (\<lambda>pool. bind_res (addTx exPoolEnv exView 0 tx False pool) (\<lambda>(e, pool). Inr pool))"

lemma exRun_reach: "exRun txs = Inr pool \<Longrightarrow> pool_reach exPoolEnv pool"
  by (induction txs arbitrary: pool) (auto simp: bind_res_Inr_iff intro: pool_new pool_add)

lemma ex_queue: "0 \<le> sint (cf_AccountQueue (P_config exPoolEnv))"
  by (simp add: exPoolEnv_def DefaultTxPoolConfig_def)

section \<open>Cross-chain proofs\<close>

text \<open>C32: A cross-chain transaction passes the check exactly when its proof has one entry more than there are levels, and leads from a transaction in a block
  with the right root over blocks that each hold the hash of the one before to a block of the root chain, was not used before, and sender, recipient and
  value fit the transaction that is proved.\<close>

theorem cross_check_exact:
  assumes "tx_CrossTxProof tx = p0 # p1 # ps" and "sendersPresent X p0 p1"
  shows "ValidateCrossChainTx X tx db = Inr None \<longleftrightarrow>
    length ps + 1 = unat (x_TotalLevel X) \<and> (\<exists>old. provenBy X db p0 p1 ps old \<and> claimFits tx old)"
  using assms by (rule ValidateCrossChainTx_spec)

theorem cross_check_exact_witness:
  "\<exists>old. provenBy exCross exRootDb [1] [10] [[11]] old \<and> claimFits exClaim old"
proof -
  have "tx_CrossTxProof exClaim = [1] # [10] # [[11]]" by (simp add: exClaim_def)
  moreover have "ValidateCrossChainTx exCross exClaim exRootDb = Inr None" by code_simp
  ultimately show ?thesis using cross_check_exact [OF _ ex_senders [of "[1]"]] by blast
qed

text \<open>The value and the recipient of the transaction that is proved are not covered by its hash: when a claim passes the check, so does any claim
  for another recipient and another value, with the first entry of the proof replaced by the transaction that says so.\<close>

theorem cross_value_forged:
  assumes p: "tx_CrossTxProof tx = p0 # p1 # ps" and ok: "ValidateCrossChainTx X tx db = Inr None"
    and s: "sendersPresent X p0 p1" and old: "x_decodeTx X p0 = Some old"
    and new: "x_decodeTx X p0' = Some (old\<lparr>tx_Amount := v, tx_CrossChainRecipient := r\<rparr>)" "\<not> ValidateProofAlreadyExist X p0' db"
  shows "ValidateCrossChainTx X (tx\<lparr>tx_CrossTxProof := p0' # p1 # ps, tx_Amount := v, tx_Recipient := Some r\<rparr>) db = Inr None"
proof -
  have l: "length ps + 1 = unat (x_TotalLevel X)" and pv: "provenBy X db p0 p1 ps old" and f: "claimFits tx old"
    using ValidateCrossChainTx_spec [OF p s] ok old by (auto simp: provenBy_def)
  have "ZKHashTx X (old\<lparr>tx_Amount := v, tx_CrossChainRecipient := r\<rparr>) = ZKHashTx X old" by (cases "tx_Sender old") (simp_all add: ZKHashTx_def Let_def)
  then have pv': "provenBy X db p0' p1 ps (old\<lparr>tx_Amount := v, tx_CrossChainRecipient := r\<rparr>)" using pv new by (simp add: provenBy_def)
  have "sendersPresent X p0' p1" using s old new(1) by (simp add: sendersPresent_def)
  then show ?thesis using l pv' f
    by (subst ValidateCrossChainTx_spec [where ps = ps]) (auto simp: claimFits_def intro!: exI [of _ "old\<lparr>tx_Amount := v, tx_CrossChainRecipient := r\<rparr>"])
qed

theorem cross_value_forged_witness:
  "ValidateCrossChainTx exCross (exClaim\<lparr>tx_CrossTxProof := [[2], [10], [11]], tx_Amount := 1000, tx_Recipient := Some 9\<rparr>) exRootDb = Inr None"
proof -
  have p: "tx_CrossTxProof exClaim = [1] # [10] # [[11]]" by (simp add: exClaim_def)
  have ok: "ValidateCrossChainTx exCross exClaim exRootDb = Inr None" by code_simp
  have s: "sendersPresent exCross [1] [10]" by (rule ex_senders) simp
  have old: "x_decodeTx exCross [1] = Some exOld" by (simp add: exCross_def)
  have new: "x_decodeTx exCross [2] = Some (exOld\<lparr>tx_Amount := 1000, tx_CrossChainRecipient := 9\<rparr>)" by (simp add: exCross_def)
  have "\<not> ValidateProofAlreadyExist exCross [2] exRootDb" by code_simp
  from cross_value_forged [OF p ok s old new this] show ?thesis .
qed

lemma recordProof_keeps: "recordProof X tx db = Inr db' \<Longrightarrow> ValidateProofAlreadyExist X p db \<Longrightarrow> ValidateProofAlreadyExist X p db'"
  by (auto simp: recordProof_def ValidateProofAlreadyExist_def mhas_def split: list.splits option.splits)

text \<open>C33: A proof is used once: after \<open>validateTx\<close> has recorded a transaction, and whatever it records afterwards, no transaction whose proof begins with the
  same bytes passes the check.\<close>

theorem proof_used_once:
  assumes "recordProof X tx db = Inr db1" and "tx_CrossTxProof tx = p # ps"
    and "fold_res (recordProof X) txs db1 = Inr db2" and "tx_CrossTxProof tx2 = p # ps2"
  shows "ValidateCrossChainTx X tx2 db2 \<noteq> Inr None"
proof -
  have "ValidateProofAlreadyExist X p db1"
    using assms(1,2) by (auto simp: recordProof_def ValidateProofAlreadyExist_def mhas_def split: option.splits)
  with assms(3) have e: "ValidateProofAlreadyExist X p db2"
    by (induction txs arbitrary: db1) (auto simp: bind_res_Inr_iff dest: recordProof_keeps)
  then have v: "VerifyProof X (p # ps2) db2 \<noteq> Inr True"
    by (cases "x_decodeTx X p"; cases "x_decodeBlock X ((p # ps2) ! 1)") (auto simp: VerifyProof_def bind_res_Inr_iff split: option.splits if_splits)
  show ?thesis
  proof
    assume a: "ValidateCrossChainTx X tx2 db2 = Inr None"
    then obtain old b where d: "x_decodeTx X p = Some old" "x_decodeBlock X (ps2 ! 0) = Some b"
      by (auto simp: ValidateCrossChainTx_def Let_def assms(4) split: option.splits if_splits)
    obtain ok where "VerifyProof X (p # ps2) db2 = Inr ok" using a d
      by (cases "VerifyProof X (p # ps2) db2") (auto simp: ValidateCrossChainTx_def Let_def assms(4) split: if_splits)
    then show False using a d v by (cases ok) (auto simp: ValidateCrossChainTx_def Let_def assms(4) split: if_splits)
  qed
qed

theorem proof_used_once_witness:
  "\<exists>db1. recordProof exCross exClaim exRootDb = Inr db1 \<and> ValidateCrossChainTx exCross exClaim exRootDb = Inr None \<and>
     ValidateCrossChainTx exCross exClaim db1 \<noteq> Inr None"
proof -
  have "\<not> isl (recordProof exCross exClaim exRootDb)" by code_simp
  then obtain db1 where r: "recordProof exCross exClaim exRootDb = Inr db1" by (cases "recordProof exCross exClaim exRootDb") auto
  have p: "tx_CrossTxProof exClaim = [1] # [[10], [11]]" by (simp add: exClaim_def)
  have "ValidateCrossChainTx exCross exClaim exRootDb = Inr None" by code_simp
  then show ?thesis using proof_used_once [OF r p _ p, of "[]" db1] r by simp
qed

section \<open>The pool\<close>

lemma lists_ascending:
  assumes "lists_ok strict m"
  shows "sorted_wrt (<) (map tx_AccountNonce (txsOf m a))"
proof (cases "mget m a")
  case (Some l)
  then have "keyed (sm_items (tl_txs l))" using assms sm_okD(1) [OF tl_okD] by (auto simp: lists_ok_def)
  then have "sorted (map tx_AccountNonce (txsOf m a))" "distinct (map tx_AccountNonce (txsOf m a))"
    using Some ordered_distinct by (simp_all add: txsOf_def inOrder_def)
  then show ?thesis by (simp add: strict_sorted_iff)
qed (simp add: txsOf_def)

text \<open>C26: In every pool that can be reached, the pending and the queued transactions of an account are in ascending order of different nonces, belong to
  that account, no nonce is both pending and queued, and each of them is found under its hash.\<close>

theorem pool_lists_consistent:
  assumes "pool_reach P pool" and "0 \<le> sint (cf_AccountQueue (P_config P))"
  shows "sorted_wrt (<) (map tx_AccountNonce (txsOf (tp_pending pool) a)) \<and> sorted_wrt (<) (map tx_AccountNonce (txsOf (tp_queue pool) a)) \<and>
    (\<forall>x\<in>set (txsOf (tp_pending pool) a @ txsOf (tp_queue pool) a). fromOf P x = a \<and> tp_Get (txHash P x) pool = Some x) \<and>
    tx_AccountNonce ` set (txsOf (tp_pending pool) a) \<inter> tx_AccountNonce ` set (txsOf (tp_queue pool) a) = {}"
proof -
  have ok: "shape_ok P pool" "known_ok P pool" using pool_reach_ok [OF assms] by (auto simp: pool_ok_def)
  then have "lists_ok True (tp_pending pool)" "lists_ok False (tp_queue pool)" by (simp_all add: shape_ok_def)
  moreover have "fromOf P x = a \<and> tp_Get (txHash P x) pool = Some x" if "x \<in> set (txsOf (tp_pending pool) a) \<union> set (txsOf (tp_queue pool) a)" for x
    using ok that by (auto simp: shape_ok_def known_ok_def listed_def tp_Get_def)
  ultimately show ?thesis using ok(1) by (auto simp: lists_ascending shape_ok_def)
qed

definition exPooled :: "Transaction list" where
  "exPooled = [exPoolTx 2 12 1, exPoolTx 1 11 1, exPoolTx 0 10 1, exPoolTx 4 13 6]"

lemma exPooled_run: "case exRun exPooled of Inr pool \<Rightarrow> map tx_AccountNonce (txsOf (tp_pending pool) 1) = [0, 1] \<and> map tx_AccountNonce (txsOf (tp_queue pool) 6) = [4]
  | Inl _ \<Rightarrow> False"
  by code_simp

theorem pool_lists_consistent_witness:
  "\<exists>pool. exRun exPooled = Inr pool \<and> map tx_AccountNonce (txsOf (tp_pending pool) 1) = [0, 1] \<and>
     (\<forall>x\<in>set (txsOf (tp_pending pool) 1). fromOf exPoolEnv x = 1 \<and> tp_Get (txHash exPoolEnv x) pool = Some x)"
proof -
  obtain pool where r: "exRun exPooled = Inr pool" "map tx_AccountNonce (txsOf (tp_pending pool) 1) = [0, 1]"
    using exPooled_run by (auto split: sum.splits)
  show ?thesis using pool_lists_consistent [OF exRun_reach [OF r(1)] ex_queue, of 1] r by auto
qed







text \<open>A transaction is refused as known when the pool holds one with the same sender, serial number, commitment and first header, whatever its nonce, value,
  recipient and data are.\<close>

theorem same_hash_refused:
  assumes "tp_Get (txHash P old) pool = Some old" and "tx_Sender old = Some a"
  shows "addTx P v now (tx\<lparr>tx_Sender := Some a, tx_ZKSN := tx_ZKSN old, tx_ZKCMTbal := tx_ZKCMTbal old, tx_Headers := tx_Headers old\<rparr>) local pool =
    Inr (Some KnownTransaction, pool)"
  using assms by (auto simp: addTx_def tp_add_def ZKHashTx_def Let_def tp_Get_def txHash_def)

theorem same_hash_refused_witness:
  "\<exists>pool. exRun [exPoolTx 0 10 1] = Inr pool \<and> addTx exPoolEnv exView 0 (exPoolTx 1 10 1) False pool = Inr (Some KnownTransaction, pool)"
proof -
  have "case exRun [exPoolTx 0 10 1] of Inr pool \<Rightarrow> tp_Get (txHash exPoolEnv (exPoolTx 0 10 1)) pool = Some (exPoolTx 0 10 1) | Inl _ \<Rightarrow> False" by code_simp
  then obtain pool where r: "exRun [exPoolTx 0 10 1] = Inr pool" "tp_Get (txHash exPoolEnv (exPoolTx 0 10 1)) pool = Some (exPoolTx 0 10 1)"
    by (auto simp del: exRun.simps split: sum.splits)
  show ?thesis using same_hash_refused [OF r(2), of 1 exView 0 "exPoolTx 1 10 1" False] r(1) by (simp add: exPoolTx_def exTx_def)
qed

text \<open>A transaction that creates a contract, with a valid signature, nonce, balance and gas, makes the validation panic.\<close>

theorem contract_creation_panics:
  assumes "tx_TxType tx = TxNormal" and "tx_Recipient tx = None" and "P_Size P tx \<le> 32 * 1024" and "0 \<le> tx_Amount tx" and "tx_GasLimit tx \<le> pv_gasLimit v"
    and "P_recover P tx = Some a" and "0 \<le> tx_Price tx" and "pv_nonce v a \<le> tx_AccountNonce tx" and "tx_Cost tx \<le> pv_balance v a"
    and "IntrinsicGas (tx_Payload tx) True (tp_homestead pool) \<le> tx_GasLimit tx"
  shows "validateTx P v tx local pool = Inl (Panic ''nil Recipient'')"
  using assms by (auto simp: validateTx_def senderOf_def validateCross_def Let_def TxNormal_def TxZK_def)

theorem contract_creation_panics_witness:
  "\<exists>pool. exRun [] = Inr pool \<and> validateTx exPoolEnv exView ((exPoolTx 0 10 1)\<lparr>tx_Recipient := None\<rparr>) False pool = Inl (Panic ''nil Recipient'')"
proof -
  have "case exRun [] of Inr pool \<Rightarrow> tp_homestead pool = False | Inl _ \<Rightarrow> False" by code_simp
  then obtain pool where r: "exRun [] = Inr pool" "\<not> tp_homestead pool" by (auto simp del: exRun.simps split: sum.splits)
  have "IntrinsicGas (tx_Payload (exPoolTx 0 10 1)) True False \<le> tx_GasLimit (exPoolTx 0 10 1)" "tx_Cost (exPoolTx 0 10 1) \<le> 10 ^ 6" by code_simp+
  then show ?thesis using contract_creation_panics [of "(exPoolTx 0 10 1)\<lparr>tx_Recipient := None\<rparr>" exPoolEnv exView 1 pool False] r
    by (auto simp: exPoolTx_def exTx_def exPoolEnv_def exView_def TxNormal_def tx_Cost_def)
qed

text \<open>When the first of several pending transactions of an account is removed, the following ones leave the pending list and are not queued again, but
  the pool still knows them.\<close>

theorem removal_orphans_followers:
  assumes "pool_reach P pool" and "0 \<le> sint (cf_AccountQueue (P_config P))" and x: "txsOf (tp_pending pool) a = x # xs" and y: "y \<in> set xs"
  shows "tp_Get (txHash P y) (removeTx P (txHash P x) pool) = Some y \<and> \<not> listed (removeTx P (txHash P x) pool) y"
proof -
  let ?p = "removeTx P (txHash P x) pool"
  have ok: "shape_ok P pool" "known_ok P pool" using pool_reach_ok [OF assms(1,2)] by (auto simp: pool_ok_def)
  obtain l where l: "mget (tp_pending pool) a = Some l" "inOrder (tl_txs l) = x # xs" using x by (auto simp: txsOf_def split: option.splits)
  have lo: "tl_ok l" "tl_strict l" using ok(1) l(1) by (auto simp: shape_ok_def lists_ok_def)
  have in_p: "x \<in> set (txsOf (tp_pending pool) a)" "y \<in> set (txsOf (tp_pending pool) a)" using x y by auto
  then have kn: "mget (tp_all pool) (txHash P x) = Some x" "mget (tp_all pool) (txHash P y) = Some y" and fr: "fromOf P x = a" "fromOf P y = a"
    using ok by (auto simp: known_ok_def listed_def shape_ok_def)
  have srt: "\<forall>z\<in>set xs. tx_AccountNonce x < tx_AccountNonce z" using lists_ascending [of True "tp_pending pool" a] ok(1) x by (auto simp: shape_ok_def)
  then have "txHash P y \<noteq> txHash P x" using kn y by auto
  moreover obtain m invalids where r: "tl_Remove x l = ((True, invalids), l\<lparr>tl_txs := m\<rparr>)" "inOrder m = []"
  proof -
    have "filter (\<lambda>t. tx_AccountNonce t < tx_AccountNonce x) (x # xs) = []" using srt by (auto simp: filter_empty_conv)
    then show thesis using tl_Remove_ok [OF lo(1), of x] lo(2) that unfolding l(2) by auto
  qed
  moreover have "sm_Len m = 0" using length_inOrder [of m] r(2) by (simp add: sm_Len_def)
  ultimately have e: "tp_pending ?p = mdel a (tp_pending pool)" "tp_queue ?p = tp_queue pool" "mget (tp_all ?p) (txHash P y) = Some y"
    using kn fr l(1) by (simp_all add: removeTx_def Let_def lowerNonce_def tl_Empty_def tl_Len_def)
  have own: "b = fromOf P z" if "z \<in> set (txsOf (tp_pending pool) b) \<union> set (txsOf (tp_queue pool) b)" for z b
    using ok(1) that by (auto simp: shape_ok_def)
  have "y \<notin> set (txsOf (tp_queue pool) b)" for b
  proof
    assume "y \<in> set (txsOf (tp_queue pool) b)"
    moreover from this own fr(2) have "b = a" by blast
    ultimately show False using ok(1) in_p(2) unfolding shape_ok_def by blast
  qed
  moreover have "y \<notin> set (txsOf (mdel a (tp_pending pool)) b)" for b using own [of y b] fr(2) by auto
  ultimately show ?thesis using e by (auto simp: listed_def tp_Get_def)
qed

theorem removal_orphans_followers_witness:
  "\<exists>pool. exRun exPooled = Inr pool \<and> \<not> listed (removeTx exPoolEnv (txHash exPoolEnv (exPoolTx 0 10 1)) pool) (exPoolTx 1 11 1) \<and>
     tp_Get (txHash exPoolEnv (exPoolTx 1 11 1)) (removeTx exPoolEnv (txHash exPoolEnv (exPoolTx 0 10 1)) pool) = Some (exPoolTx 1 11 1)"
proof -
  have "case exRun exPooled of Inr pool \<Rightarrow> txsOf (tp_pending pool) 1 = [exPoolTx 0 10 1, exPoolTx 1 11 1] | Inl _ \<Rightarrow> False" by code_simp
  then obtain pool where r: "exRun exPooled = Inr pool" "txsOf (tp_pending pool) 1 = [exPoolTx 0 10 1, exPoolTx 1 11 1]" by (auto split: sum.splits)
  from removal_orphans_followers [OF exRun_reach [OF r(1)] ex_queue r(2), of "exPoolTx 1 11 1"] show ?thesis using r(1) by auto
qed

end
