(* ===== verification/Chain_Headers.thy ===== *)
theory Chain_Headers
  imports Eng_Verify
begin

text \<open>
  The chain of headers: the part of the database that holds it (\<open>core/database_util.go\<close>), the caches in front of it
  (\<open>hashicorp/golang-lru\<close>) and \<open>HeaderChain\<close> (\<open>core/headerchain.go\<close>), which stores headers with their total
  difficulty, chooses the heaviest chain and numbers its headers.

  The database is a map for each kind of key; the fallbacks for databases of older versions are left out, and an
  encoded header decodes to itself. The random choice between chains of the same difficulty, the random choice of headers whose seal is
  checked, the result of the engine's verification and whether an import is interrupted are arguments. A write
  that fails ends the program (\<open>log.Crit\<close>) and is not modelled.
\<close>

section \<open>Caches\<close>

text \<open>The entries of a cache, the most recently used one first.\<close>

definition lru_Get :: "'k \<Rightarrow> ('k \<times> 'v) list \<Rightarrow> 'v option \<times> ('k \<times> 'v) list" where
  "lru_Get k c = (case mget c k of None \<Rightarrow> (None, c) | Some v \<Rightarrow> (Some v, (k, v) # mdel k c))"

definition lru_Add :: "nat \<Rightarrow> 'k \<Rightarrow> 'v \<Rightarrow> ('k \<times> 'v) list \<Rightarrow> ('k \<times> 'v) list" where
  "lru_Add limit k v c = (if mhas c k then (k, v) # mdel k c else take limit ((k, v) # c))"

definition headerCacheLimit :: nat where "headerCacheLimit = 512"
definition tdCacheLimit :: nat where "tdCacheLimit = 1024"
definition numberCacheLimit :: nat where "numberCacheLimit = 2048"

section \<open>The database\<close>

record chainStore =
  cs_canon :: "(u64 \<times> hash) list"
  cs_headers :: "((u64 \<times> hash) \<times> Header) list"
  cs_numbers :: "(hash \<times> u64) list"
  cs_tds :: "((u64 \<times> hash) \<times> int) list"
  cs_headHeader :: hash
  cs_headBlock :: hash

definition missingNumber :: u64 where "missingNumber = 0xffffffffffffffff"

definition GetCanonicalHash :: "u64 \<Rightarrow> chainStore \<Rightarrow> hash" where
  "GetCanonicalHash n db = (case mget (cs_canon db) n of Some h \<Rightarrow> h | None \<Rightarrow> 0)"

definition WriteCanonicalHash :: "hash \<Rightarrow> u64 \<Rightarrow> chainStore \<Rightarrow> chainStore" where
  "WriteCanonicalHash h n db = db\<lparr>cs_canon := mput n h (cs_canon db)\<rparr>"

definition DeleteCanonicalHash :: "u64 \<Rightarrow> chainStore \<Rightarrow> chainStore" where
  "DeleteCanonicalHash n db = db\<lparr>cs_canon := mdel n (cs_canon db)\<rparr>"

definition db_GetBlockNumber :: "hash \<Rightarrow> chainStore \<Rightarrow> u64" where
  "db_GetBlockNumber h db = (case mget (cs_numbers db) h of Some n \<Rightarrow> n | None \<Rightarrow> missingNumber)"

definition db_GetHeader :: "hash \<Rightarrow> u64 \<Rightarrow> chainStore \<Rightarrow> Header option" where
  "db_GetHeader h n db = mget (cs_headers db) (n, h)"

definition db_WriteHeader :: "engEnv \<Rightarrow> Header \<Rightarrow> chainStore \<Rightarrow> chainStore" where
  "db_WriteHeader E x db = (let h = ZKHashBlock E x; n = numberOf x in
     db\<lparr>cs_numbers := mput h n (cs_numbers db), cs_headers := mput (n, h) x (cs_headers db)\<rparr>)"

definition DeleteHeader :: "hash \<Rightarrow> u64 \<Rightarrow> chainStore \<Rightarrow> chainStore" where
  "DeleteHeader h n db = db\<lparr>cs_numbers := mdel h (cs_numbers db), cs_headers := mdel (n, h) (cs_headers db)\<rparr>"

definition db_GetTd :: "hash \<Rightarrow> u64 \<Rightarrow> chainStore \<Rightarrow> int option" where
  "db_GetTd h n db = mget (cs_tds db) (n, h)"

definition db_WriteTd :: "hash \<Rightarrow> u64 \<Rightarrow> int \<Rightarrow> chainStore \<Rightarrow> chainStore" where
  "db_WriteTd h n td db = db\<lparr>cs_tds := mput (n, h) td (cs_tds db)\<rparr>"

definition DeleteTd :: "hash \<Rightarrow> u64 \<Rightarrow> chainStore \<Rightarrow> chainStore" where
  "DeleteTd h n db = db\<lparr>cs_tds := mdel (n, h) (cs_tds db)\<rparr>"

text \<open>
  What \<open>Genesis.Commit\<close> writes about headers; None is the error of a first block with a number. The total difficulty is that of
  the specification, not that of the header: they differ when the specification has none, which is encoded as 0.
\<close>

definition emptyStore :: chainStore where
  "emptyStore = \<lparr>cs_canon = [], cs_headers = [], cs_numbers = [], cs_tds = [], cs_headHeader = 0, cs_headBlock = 0\<rparr>"

definition commitGenesis :: "engEnv \<Rightarrow> int \<Rightarrow> Header \<Rightarrow> chainStore \<Rightarrow> chainStore option" where
  "commitGenesis E difficulty g db =
     (let h = ZKHashBlock E g; n = numberOf g in
      if h_Number g \<noteq> 0 then None
      else Some ((WriteCanonicalHash h n (db_WriteHeader E g (db_WriteTd h n difficulty db)))\<lparr>cs_headBlock := h, cs_headHeader := h\<rparr>))"

section \<open>Reading\<close>

record HeaderChain =
  hc_db :: chainStore
  hc_genesis :: Header
  hc_current :: Header
  hc_currentHash :: hash
  hc_headerCache :: "(hash \<times> Header) list"
  hc_tdCache :: "(hash \<times> int) list"
  hc_numberCache :: "(hash \<times> u64) list"

definition hc_GetBlockNumber :: "hash \<Rightarrow> HeaderChain \<Rightarrow> u64 \<times> HeaderChain" where
  "hc_GetBlockNumber h hc = (case lru_Get h (hc_numberCache hc) of
     (Some n, c) \<Rightarrow> (n, hc\<lparr>hc_numberCache := c\<rparr>)
   | (None, c) \<Rightarrow> (let n = db_GetBlockNumber h (hc_db hc) in
       (n, if n \<noteq> missingNumber then hc\<lparr>hc_numberCache := lru_Add numberCacheLimit h n c\<rparr> else hc)))"

definition hc_GetTd :: "hash \<Rightarrow> u64 \<Rightarrow> HeaderChain \<Rightarrow> int option \<times> HeaderChain" where
  "hc_GetTd h n hc = (case lru_Get h (hc_tdCache hc) of
     (Some td, c) \<Rightarrow> (Some td, hc\<lparr>hc_tdCache := c\<rparr>)
   | (None, c) \<Rightarrow> (case db_GetTd h n (hc_db hc) of
       None \<Rightarrow> (None, hc) | Some td \<Rightarrow> (Some td, hc\<lparr>hc_tdCache := lru_Add tdCacheLimit h td c\<rparr>)))"

definition hc_WriteTd :: "hash \<Rightarrow> u64 \<Rightarrow> int \<Rightarrow> HeaderChain \<Rightarrow> HeaderChain" where
  "hc_WriteTd h n td hc = hc\<lparr>hc_db := db_WriteTd h n td (hc_db hc), hc_tdCache := lru_Add tdCacheLimit h td (hc_tdCache hc)\<rparr>"

definition hc_GetHeader :: "hash \<Rightarrow> u64 \<Rightarrow> HeaderChain \<Rightarrow> Header option \<times> HeaderChain" where
  "hc_GetHeader h n hc = (case lru_Get h (hc_headerCache hc) of
     (Some x, c) \<Rightarrow> (Some x, hc\<lparr>hc_headerCache := c\<rparr>)
   | (None, c) \<Rightarrow> (case db_GetHeader h n (hc_db hc) of
       None \<Rightarrow> (None, hc) | Some x \<Rightarrow> (Some x, hc\<lparr>hc_headerCache := lru_Add headerCacheLimit h x c\<rparr>)))"

definition hc_GetHeaderByHash :: "hash \<Rightarrow> HeaderChain \<Rightarrow> Header option \<times> HeaderChain" where
  "hc_GetHeaderByHash h hc = (let (n, hc) = hc_GetBlockNumber h hc in hc_GetHeader h n hc)"

definition HasHeader :: "hash \<Rightarrow> HeaderChain \<Rightarrow> bool \<times> HeaderChain" where
  "HasHeader h hc = (let (x, hc) = hc_GetHeaderByHash h hc in (x \<noteq> None, hc))"

definition GetTdByHash :: "hash \<Rightarrow> HeaderChain \<Rightarrow> int option \<times> HeaderChain" where
  "GetTdByHash h hc = (let (n, hc) = hc_GetBlockNumber h hc in hc_GetTd h n hc)"

definition hc_GetHeaderByNumber :: "u64 \<Rightarrow> HeaderChain \<Rightarrow> Header option \<times> HeaderChain" where
  "hc_GetHeaderByNumber n hc = (let h = GetCanonicalHash n (hc_db hc) in if h = 0 then (None, hc) else hc_GetHeader h n hc)"

fun hashesFrom :: "nat \<Rightarrow> Header \<Rightarrow> HeaderChain \<Rightarrow> hash list \<times> HeaderChain" where
  "hashesFrom 0 x hc = ([], hc)"
| "hashesFrom (Suc k) x hc = (case hc_GetHeader (h_ParentHash x) (numberOf x - 1) hc of
     (None, hc) \<Rightarrow> ([], hc)
   | (Some p, hc) \<Rightarrow> if h_Number p = 0 then ([h_ParentHash x], hc)
       else let (hs, hc) = hashesFrom k p hc in (h_ParentHash x # hs, hc))"

definition GetBlockHashesFromHash :: "hash \<Rightarrow> u64 \<Rightarrow> HeaderChain \<Rightarrow> hash list \<times> HeaderChain" where
  "GetBlockHashesFromHash h mx hc = (case hc_GetHeaderByHash h hc of (None, hc) \<Rightarrow> ([], hc) | (Some x, hc) \<Rightarrow> hashesFrom (unat mx) x hc)"

definition SetCurrentHeader :: "engEnv \<Rightarrow> Header \<Rightarrow> HeaderChain \<Rightarrow> HeaderChain" where
  "SetCurrentHeader E x hc = hc\<lparr>hc_db := (hc_db hc)\<lparr>cs_headHeader := ZKHashBlock E x\<rparr>, hc_current := x, hc_currentHash := ZKHashBlock E x\<rparr>"

definition SetGenesis :: "Header \<Rightarrow> HeaderChain \<Rightarrow> HeaderChain" where
  "SetGenesis x hc = hc\<lparr>hc_genesis := x\<rparr>"

text \<open>\<open>NewHeaderChain\<close>; None stands for the error of a database without a first header.\<close>

definition NewHeaderChain :: "engEnv \<Rightarrow> chainStore \<Rightarrow> HeaderChain option" where
  "NewHeaderChain E db =
     (let g = GetCanonicalHash 0 db in
      case (if g = 0 then None else db_GetHeader g 0 db) of
        None \<Rightarrow> None
      | Some x \<Rightarrow>
          let hc = \<lparr>hc_db = db, hc_genesis = x, hc_current = x, hc_currentHash = ZKHashBlock E x, hc_headerCache = [(g, x)], hc_tdCache = [], hc_numberCache = []\<rparr> in
          if cs_headBlock db = 0 then Some hc
          else (case hc_GetHeaderByHash (cs_headBlock db) hc of
              (None, hc) \<Rightarrow> Some hc
            | (Some y, hc) \<Rightarrow> Some (hc\<lparr>hc_current := y, hc_currentHash := ZKHashBlock E y\<rparr>)))"

section \<open>Writing\<close>

datatype writeStatus = NonStatTy | CanonStatTy | SideStatTy

text \<open>Deleting the canonical numbers from a height on.\<close>

function deleteAbove :: "u64 \<Rightarrow> chainStore \<Rightarrow> chainStore" where
  "deleteAbove i db = (if GetCanonicalHash i db = 0 then db else deleteAbove (i + 1) (DeleteCanonicalHash i db))"
  by pat_completeness auto
termination
proof (relation "measure (\<lambda>(i, db). length (cs_canon db))")
  fix i :: u64 and db :: chainStore
  assume "GetCanonicalHash i db \<noteq> 0"
  then obtain h where "(i, h) \<in> set (cs_canon db)" using mget_SomeD [of "cs_canon db" i] by (auto simp: GetCanonicalHash_def split: option.splits)
  then have "length (AList.delete i (cs_canon db)) < length (cs_canon db)"
    unfolding AList.delete_eq by (intro length_filter_less [of "(i, h)"]) auto
  then show "((i + 1, DeleteCanonicalHash i db), i, db) \<in> measure (\<lambda>(i, db). length (cs_canon db))"
    by (simp add: DeleteCanonicalHash_def mdel_def)
qed simp

declare deleteAbove.simps [simp del]

text \<open>Renumbering the ancestors of a new head, down to the first one that has its number already.\<close>

fun renumber :: "nat \<Rightarrow> hash \<Rightarrow> u64 \<Rightarrow> Header option \<Rightarrow> HeaderChain \<Rightarrow> HeaderChain res" where
  "renumber 0 h n x hc = Inl OutOfDepth"
| "renumber (Suc k) h n x hc =
     (if GetCanonicalHash n (hc_db hc) = h then Inr hc
      else
        let hc = hc\<lparr>hc_db := WriteCanonicalHash h n (hc_db hc)\<rparr> in
        case x of
          None \<Rightarrow> Inl (Panic ''nil Header'')
        | Some x \<Rightarrow> let (p, hc) = hc_GetHeader (h_ParentHash x) (numberOf x - 1) hc in renumber k (h_ParentHash x) (numberOf x - 1) p hc)"

text \<open>The part of \<open>WriteHeader\<close> that makes a stored header the head of the canonical chain.\<close>

definition makeHead :: "engEnv \<Rightarrow> Header \<Rightarrow> HeaderChain \<Rightarrow> HeaderChain res" where
  "makeHead E x hc =
     (let h = ZKHashBlock E x; n = numberOf x;
          hc = hc\<lparr>hc_db := deleteAbove (n + 1) (hc_db hc)\<rparr>;
          (p, hc) = hc_GetHeader (h_ParentHash x) (n - 1) hc
      in bind_res (renumber (unat n + 1) (h_ParentHash x) (n - 1) p hc) (\<lambda>hc.
         Inr (hc\<lparr>hc_db := (WriteCanonicalHash h n (hc_db hc))\<lparr>cs_headHeader := h\<rparr>, hc_current := x, hc_currentHash := h\<rparr>)))"

definition hc_WriteHeader :: "engEnv \<Rightarrow> bool \<Rightarrow> Header \<Rightarrow> HeaderChain \<Rightarrow> ((engerr + writeStatus) \<times> HeaderChain) res" where
  "hc_WriteHeader E coin x hc =
     (let h = ZKHashBlock E x; n = numberOf x; (ptd, hc) = hc_GetTd (h_ParentHash x) (n - 1) hc in
      case ptd of
        None \<Rightarrow> Inr (Inl UnknownAncestor, hc)
      | Some ptd \<Rightarrow>
          let (localTd, hc) = hc_GetTd (hc_currentHash hc) (numberOf (hc_current hc)) hc; externTd = h_Difficulty x + ptd;
              hc = hc_WriteTd h n externTd hc; hc = hc\<lparr>hc_db := db_WriteHeader E x (hc_db hc)\<rparr> in
          case localTd of
            None \<Rightarrow> Inl (Panic ''nil Int'')
          | Some localTd \<Rightarrow>
              bind_res (if externTd > localTd \<or> externTd = localTd \<and> coin then bind_res (makeHead E x hc) (\<lambda>hc. Inr (CanonStatTy, hc)) else Inr (SideStatTy, hc))
                (\<lambda>(status, hc). Inr (Inr status, hc\<lparr>hc_headerCache := lru_Add headerCacheLimit h x (hc_headerCache hc),
                   hc_numberCache := lru_Add numberCacheLimit h n (hc_numberCache hc)\<rparr>)))"

section \<open>Importing\<close>

definition linkedHeaders :: "engEnv \<Rightarrow> Header list \<Rightarrow> bool" where
  "linkedHeaders E xs \<longleftrightarrow> (\<forall>i<length xs. 1 \<le> i \<longrightarrow> numberOf (xs ! i) = numberOf (xs ! (i - 1)) + 1 \<and> h_ParentHash (xs ! i) = ZKHashBlock E (xs ! (i - 1)))"

definition sealsFor :: "int \<Rightarrow> int list \<Rightarrow> nat \<Rightarrow> bool list" where
  "sealsFor checkFreq rnd n =
     (fold (\<lambda>i seals. seals[min (nat (int i * checkFreq + rnd ! i)) (n - 1) := True]) [0..<nat (int n div checkFreq)] (replicate n False))[n - 1 := True]"

datatype importerr = NonContiguous | Aborted | Blacklisted | EngineErr engerr

fun checkResults :: "engEnv \<Rightarrow> (hash \<Rightarrow> bool) \<Rightarrow> (nat \<Rightarrow> bool) \<Rightarrow> nat \<Rightarrow> (Header \<times> engerr option) list \<Rightarrow> (nat \<times> importerr) option" where
  "checkResults E bad interrupt i [] = None"
| "checkResults E bad interrupt i ((x, r) # xs) =
     (if interrupt i then Some (0, Aborted)
      else if bad (ZKHashBlock E x) then Some (i, Blacklisted)
      else case r of Some e \<Rightarrow> Some (i, EngineErr e) | None \<Rightarrow> checkResults E bad interrupt (Suc i) xs)"

text \<open>\<open>ValidateHeaderChain\<close>, with the results that the engine returns for the headers and the chosen seals.\<close>

definition ValidateHeaderChain :: "engEnv \<Rightarrow> (hash \<Rightarrow> bool) \<Rightarrow> (nat \<Rightarrow> bool) \<Rightarrow> int \<Rightarrow> int list \<Rightarrow> (Header list \<Rightarrow> bool list \<Rightarrow> engerr option list) \<Rightarrow> Header list
    \<Rightarrow> (nat \<times> importerr) option res" where
  "ValidateHeaderChain E bad interrupt checkFreq rnd verify xs =
     (if \<not> linkedHeaders E xs then Inr (Some (0, NonContiguous))
      else if checkFreq = 0 then Inl (Panic ''integer divide by zero'')
      else if xs = [] then Inl (Panic ''index out of range'')
      else Inr (checkResults E bad interrupt 0 (zip xs (verify xs (sealsFor checkFreq rnd (length xs))))))"

fun insertHeaders :: "engEnv \<Rightarrow> (nat \<Rightarrow> bool) \<Rightarrow> (nat \<Rightarrow> bool) \<Rightarrow> nat \<Rightarrow> Header list \<Rightarrow> HeaderChain \<Rightarrow> ((nat \<times> importerr) option \<times> HeaderChain) res" where
  "insertHeaders E interrupt coin i [] hc = Inr (None, hc)"
| "insertHeaders E interrupt coin i (x # xs) hc =
     (if interrupt i then Inr (Some (i, Aborted), hc)
      else
        let (known, hc) = hc_GetHeader (ZKHashBlock E x) (numberOf x) hc in
        if known \<noteq> None then insertHeaders E interrupt coin (Suc i) xs hc
        else bind_res (hc_WriteHeader E (coin i) x hc) (\<lambda>(r, hc).
          case r of Inl e \<Rightarrow> Inr (Some (i, EngineErr e), hc) | Inr _ \<Rightarrow> insertHeaders E interrupt coin (Suc i) xs hc))"

text \<open>\<open>InsertHeaderChain\<close>, with the writer that \<open>BlockChain\<close> passes to it.\<close>

definition hc_InsertHeaderChain :: "engEnv \<Rightarrow> (nat \<Rightarrow> bool) \<Rightarrow> (nat \<Rightarrow> bool) \<Rightarrow> Header list \<Rightarrow> HeaderChain \<Rightarrow> ((nat \<times> importerr) option \<times> HeaderChain) res" where
  "hc_InsertHeaderChain E interrupt coin xs hc = bind_res (insertHeaders E interrupt coin 0 xs hc) (\<lambda>(r, hc).
     if r = None \<and> xs = [] then Inl (Panic ''index out of range'') else Inr (r, hc))"

section \<open>Rewinding\<close>

fun rewindHeaders :: "engEnv \<Rightarrow> nat \<Rightarrow> u64 \<Rightarrow> Header option \<Rightarrow> HeaderChain \<Rightarrow> (Header option \<times> HeaderChain) res" where
  "rewindHeaders E 0 head x hc = Inl OutOfDepth"
| "rewindHeaders E (Suc k) head x hc = (case x of
     None \<Rightarrow> Inr (None, hc)
   | Some x \<Rightarrow>
       if numberOf x > head
       then let h = ZKHashBlock E x; n = numberOf x; hc = hc\<lparr>hc_db := DeleteTd h n (DeleteHeader h n (hc_db hc))\<rparr>;
                (p, hc) = hc_GetHeader (h_ParentHash x) (n - 1) hc
         in rewindHeaders E k head p hc
       else Inr (Some x, hc))"

text \<open>\<open>SetHead\<close> without a callback. The numbers are deleted from the old height down.\<close>

definition hc_SetHead :: "engEnv \<Rightarrow> u64 \<Rightarrow> HeaderChain \<Rightarrow> HeaderChain res" where
  "hc_SetHead E head hc =
     (let height = numberOf (hc_current hc) in
      bind_res (rewindHeaders E (unat height + 1) head (Some (hc_current hc)) hc) (\<lambda>(x, hc).
        let db = fold (\<lambda>i db. DeleteCanonicalHash (of_nat i) db) (rev [unat head + 1..<unat height + 1]) (hc_db hc);
            x = (case x of Some x \<Rightarrow> x | None \<Rightarrow> hc_genesis hc); h = ZKHashBlock E x
        in Inr (hc\<lparr>hc_db := db\<lparr>cs_headHeader := h\<rparr>, hc_current := x, hc_currentHash := h, hc_headerCache := [], hc_tdCache := [], hc_numberCache := []\<rparr>)))"

end
