(* ===== verification/Chain_Canonical.thy ===== *)
theory Chain_Canonical
  imports Chain_Headers
begin

text \<open>
  The invariant of the chain of headers: the caches agree with the database, every stored header has its parent, and the canonical
  numbers lead from the first header to the current one, which has the highest total difficulty. Renumbering keeps it.

  The hash of a header does not cover its parent and its number, and the database is keyed by hashes: the headers that are
  around are taken from a set in which the hash identifies a header.
\<close>

section \<open>Caches\<close>

text \<open>What the chain relies on: a cache returns what was put in last, and may have forgotten it.\<close>

locale cache =
  fixes lookup :: "'c \<Rightarrow> 'k \<Rightarrow> 'v option" and get :: "'k \<Rightarrow> 'c \<Rightarrow> 'v option \<times> 'c" and add :: "'k \<Rightarrow> 'v \<Rightarrow> 'c \<Rightarrow> 'c"
  assumes get_result: "fst (get k c) = lookup c k"
    and get_keeps: "lookup (snd (get k c)) j = lookup c j"
    and add_entries: "lookup (add k v c) j = Some w \<Longrightarrow> j = k \<and> w = v \<or> lookup c j = Some w"
begin

definition holds :: "('k \<Rightarrow> 'v \<Rightarrow> bool) \<Rightarrow> 'c \<Rightarrow> bool" where
  "holds Q c \<longleftrightarrow> (\<forall>k v. lookup c k = Some v \<longrightarrow> Q k v)"

lemma holds_get: "holds Q c \<Longrightarrow> holds Q (snd (get k c))"
  by (simp add: holds_def get_keeps)

lemma holds_add: "holds Q c \<Longrightarrow> Q k v \<Longrightarrow> holds Q (add k v c)"
  by (auto simp: holds_def dest: add_entries)

lemma holds_hit: "holds Q c \<Longrightarrow> fst (get k c) = Some v \<Longrightarrow> Q k v"
  by (simp add: holds_def get_result)

lemma holds_mono: "holds Q c \<Longrightarrow> (\<And>k v. Q k v \<Longrightarrow> R k v) \<Longrightarrow> holds R c"
  by (simp add: holds_def)

end

lemma mget_take: "mget (take n xs) j = Some w \<Longrightarrow> mget xs j = Some w"
  by (induction xs arbitrary: n) (auto simp: mget_def take_Cons split: nat.splits if_splits)

lemma mget_Cons: "mget ((k, v) # c) j = (if j = k then Some v else mget c j)"
  by (simp add: mget_def)

interpretation lr: cache mget lru_Get "lru_Add limit" for limit
proof
  show "fst (lru_Get k c) = mget c k" for k and c :: "('a \<times> 'b) list" by (simp add: lru_Get_def split: option.splits)
  show "mget (snd (lru_Get k c)) j = mget c j" for k j and c :: "('a \<times> 'b) list" by (simp add: lru_Get_def mget_Cons split: option.splits)
  show "j = k \<and> w = v \<or> mget c j = Some w" if "mget (lru_Add limit k v c) j = Some w" for k v j w and c :: "('a \<times> 'b) list"
    using that mget_take [of limit "(k, v) # c" j w] by (auto simp: lru_Add_def mget_Cons split: if_splits)
qed

section \<open>The invariant\<close>

definition universe :: "engEnv \<Rightarrow> Header set \<Rightarrow> Header \<Rightarrow> bool" where
  "universe E H g \<longleftrightarrow> g \<in> H \<and> numberOf g = 0 \<and> inj_on (ZKHashBlock E) H \<and>
     (\<forall>x\<in>H. ZKHashBlock E x \<noteq> 0 \<and> numberOf x \<noteq> - 1 \<and> (numberOf x = 0 \<longrightarrow> x = g) \<and> h_ParentHash g \<noteq> ZKHashBlock E x) \<and>
     (\<forall>x\<in>H. \<forall>p\<in>H. h_ParentHash x = ZKHashBlock E p \<longrightarrow> numberOf x = numberOf p + 1)"

definition known :: "engEnv \<Rightarrow> chainStore \<Rightarrow> Header \<Rightarrow> bool" where
  "known E db x \<longleftrightarrow> db_GetHeader (ZKHashBlock E x) (numberOf x) db = Some x"

definition tdOf :: "engEnv \<Rightarrow> chainStore \<Rightarrow> Header \<Rightarrow> int option" where
  "tdOf E db x = db_GetTd (ZKHashBlock E x) (numberOf x) db"

definition store_ok :: "engEnv \<Rightarrow> Header set \<Rightarrow> Header \<Rightarrow> chainStore \<Rightarrow> bool" where
  "store_ok E H g db \<longleftrightarrow> known E db g \<and>
     (\<forall>h n x. db_GetHeader h n db = Some x \<longrightarrow> x \<in> H \<and> h = ZKHashBlock E x \<and> n = numberOf x) \<and>
     (\<forall>h n. db_GetTd h n db = None \<longleftrightarrow> db_GetHeader h n db = None) \<and>
     (\<forall>h n. mget (cs_numbers db) h = Some n \<longrightarrow> db_GetHeader h n db \<noteq> None) \<and>
     (\<forall>x. known E db x \<longrightarrow> x \<noteq> g \<longrightarrow> (\<exists>p td. known E db p \<and> h_ParentHash x = ZKHashBlock E p \<and> tdOf E db p = Some td \<and> tdOf E db x = Some (td + h_Difficulty x)))"

definition caches_ok :: "engEnv \<Rightarrow> HeaderChain \<Rightarrow> bool" where
  "caches_ok E hc \<longleftrightarrow>
     lr.holds (\<lambda>h x. h = ZKHashBlock E x \<and> known E (hc_db hc) x) (hc_headerCache hc) \<and>
     lr.holds (\<lambda>h td. \<exists>x. h = ZKHashBlock E x \<and> known E (hc_db hc) x \<and> tdOf E (hc_db hc) x = Some td) (hc_tdCache hc) \<and>
     lr.holds (\<lambda>h n. \<exists>x. h = ZKHashBlock E x \<and> known E (hc_db hc) x \<and> n = numberOf x) (hc_numberCache hc)"

text \<open>The canonical numbers as a function on natural numbers.\<close>

definition canonOf :: "chainStore \<Rightarrow> nat \<Rightarrow> hash option" where
  "canonOf db m = mget (cs_canon db) (of_nat m)"

definition height :: "Header \<Rightarrow> nat" where
  "height x = unat (numberOf x)"

definition atNumber :: "engEnv \<Rightarrow> chainStore \<Rightarrow> nat \<Rightarrow> Header \<Rightarrow> bool" where
  "atNumber E db m y \<longleftrightarrow> known E db y \<and> height y = m \<and> canonOf db m = Some (ZKHashBlock E y)"

definition canonical_ok :: "engEnv \<Rightarrow> Header \<Rightarrow> chainStore \<Rightarrow> Header \<Rightarrow> bool" where
  "canonical_ok E g db x \<longleftrightarrow> atNumber E db (height x) x \<and> atNumber E db 0 g \<and>
     (\<forall>m. height x < m \<longrightarrow> m < 2 ^ 64 \<longrightarrow> canonOf db m = None) \<and>
     (\<forall>m. 0 < m \<longrightarrow> m \<le> height x \<longrightarrow> (\<exists>y. atNumber E db m y \<and> canonOf db (m - 1) = Some (h_ParentHash y)))"

definition hc_ok :: "engEnv \<Rightarrow> Header set \<Rightarrow> HeaderChain \<Rightarrow> bool" where
  "hc_ok E H hc \<longleftrightarrow> store_ok E H (hc_genesis hc) (hc_db hc) \<and> caches_ok E hc \<and> canonical_ok E (hc_genesis hc) (hc_db hc) (hc_current hc) \<and>
     hc_currentHash hc = ZKHashBlock E (hc_current hc) \<and>
     (\<forall>x td top. known E (hc_db hc) x \<longrightarrow> tdOf E (hc_db hc) x = Some td \<longrightarrow> tdOf E (hc_db hc) (hc_current hc) = Some top \<longrightarrow> td \<le> top)"

lemma universe_inj: "universe E H g \<Longrightarrow> x \<in> H \<Longrightarrow> y \<in> H \<Longrightarrow> ZKHashBlock E x = ZKHashBlock E y \<Longrightarrow> x = y"
  by (auto simp: universe_def dest: inj_onD)

lemma found_known: "store_ok E H g db \<Longrightarrow> db_GetHeader h n db = Some x \<Longrightarrow> x \<in> H \<and> known E db x \<and> h = ZKHashBlock E x \<and> n = numberOf x"
  unfolding store_ok_def known_def by blast

lemma known_in: "store_ok E H g db \<Longrightarrow> known E db x \<Longrightarrow> x \<in> H"
  using found_known by (metis known_def)

lemma known_same: "universe E H g \<Longrightarrow> store_ok E H g db \<Longrightarrow> known E db x \<Longrightarrow> known E db y \<Longrightarrow> ZKHashBlock E x = ZKHashBlock E y \<Longrightarrow> x = y"
  by (meson known_in universe_inj)

lemma store_td: "store_ok E H g db \<Longrightarrow> db_GetTd h n db = None \<longleftrightarrow> db_GetHeader h n db = None"
  unfolding store_ok_def by blast

lemma known_td: "store_ok E H g db \<Longrightarrow> known E db x \<Longrightarrow> \<exists>td. tdOf E db x = Some td"
  using store_td [of E H g db "ZKHashBlock E x" "numberOf x"] by (auto simp: known_def tdOf_def)

lemma height_small: "universe E H g \<Longrightarrow> x \<in> H \<Longrightarrow> height x < 2 ^ 64 - 1"
proof -
  assume u: "universe E H g" "x \<in> H"
  have "numberOf x \<noteq> - 1" using u by (simp add: universe_def)
  then have "numberOf x < - 1" by (simp add: word_neq_0_conv word_order.not_eq_extremum)
  then have "unat (numberOf x) < unat (- 1 :: u64)" by (simp add: word_less_nat_alt)
  then show ?thesis by (simp add: height_def unsigned_minus_1_eq_mask mask_eq_exp_minus_1)
qed

lemma height_number: "of_nat (height x) = numberOf x"
  by (simp add: height_def)

lemma parent_height:
  assumes u: "universe E H g" and "x \<in> H" "p \<in> H" "h_ParentHash x = ZKHashBlock E p"
  shows "height x = Suc (height p)" and "numberOf x - 1 = numberOf p"
proof -
  have n: "numberOf x = numberOf p + 1" using assms by (auto simp: universe_def)
  then show "numberOf x - 1 = numberOf p" by simp
  have "height p < 2 ^ 64 - 1" by (rule height_small [OF u assms(3)])
  then show "height x = Suc (height p)" using n by (simp add: height_def unat_word_ariths)
qed

section \<open>Reading\<close>

text \<open>Reading changes caches only.\<close>

definition reads :: "engEnv \<Rightarrow> HeaderChain \<Rightarrow> HeaderChain \<Rightarrow> bool" where
  "reads E hc hc' \<longleftrightarrow> hc_db hc' = hc_db hc \<and> hc_genesis hc' = hc_genesis hc \<and> hc_current hc' = hc_current hc \<and> hc_currentHash hc' = hc_currentHash hc \<and> caches_ok E hc'"

lemma reads_trans: "reads E a b \<Longrightarrow> reads E b c \<Longrightarrow> reads E a c"
  by (simp add: reads_def)

lemma hc_GetHeader_reads:
  assumes s: "store_ok E H g (hc_db hc)" and c: "caches_ok E hc" and r: "hc_GetHeader h n hc = (r, hc')"
  shows "reads E hc hc' \<and> (\<forall>x. r = Some x \<longrightarrow> known E (hc_db hc) x \<and> h = ZKHashBlock E x) \<and> (r = None \<longrightarrow> db_GetHeader h n (hc_db hc) = None)"
proof -
  let ?Q = "\<lambda>h x. h = ZKHashBlock E x \<and> known E (hc_db hc) x"
  obtain f c' where g: "lru_Get h (hc_headerCache hc) = (f, c')" by fastforce
  have Q: "lr.holds ?Q (hc_headerCache hc)" using c by (simp add: caches_ok_def)
  have Q': "lr.holds ?Q c'" using lr.holds_get [OF Q, of h] g by simp
  show ?thesis
  proof (cases f)
    case (Some x)
    then show ?thesis using lr.holds_hit [OF Q, of h x] r c Q' g by (auto simp: hc_GetHeader_def reads_def caches_ok_def)
  next
    case None
    show ?thesis
    proof (cases "db_GetHeader h n (hc_db hc)")
      case s2: (Some x)
      have "?Q h x" using found_known [OF s s2] by simp
      then show ?thesis using None s2 r c g lr.holds_add [OF Q', of h x] by (auto simp: hc_GetHeader_def reads_def caches_ok_def)
    qed (use None r c g in \<open>auto simp: hc_GetHeader_def reads_def\<close>)
  qed
qed

lemma hc_GetHeader_known:
  assumes u: "universe E H g" and s: "store_ok E H g (hc_db hc)" and c: "caches_ok E hc" and p: "known E (hc_db hc) p"
  shows "\<exists>hc'. hc_GetHeader (ZKHashBlock E p) (numberOf p) hc = (Some p, hc') \<and> reads E hc hc'"
proof -
  obtain r hc' where r: "hc_GetHeader (ZKHashBlock E p) (numberOf p) hc = (r, hc')" by fastforce
  note k = hc_GetHeader_reads [OF s c r]
  have "r \<noteq> None" using k p by (auto simp: known_def)
  then have "r = Some p" using k known_same [OF u s _ p] by auto
  then show ?thesis using r k by blast
qed

lemma hc_GetTd_reads:
  assumes s: "store_ok E H g (hc_db hc)" and c: "caches_ok E hc" and r: "hc_GetTd h n hc = (r, hc')"
  shows "reads E hc hc' \<and> (\<forall>td. r = Some td \<longrightarrow> (\<exists>x. known E (hc_db hc) x \<and> h = ZKHashBlock E x \<and> tdOf E (hc_db hc) x = Some td)) \<and>
    (r = None \<longrightarrow> db_GetTd h n (hc_db hc) = None)"
proof -
  let ?Q = "\<lambda>h td. \<exists>x. h = ZKHashBlock E x \<and> known E (hc_db hc) x \<and> tdOf E (hc_db hc) x = Some td"
  obtain f c' where g: "lru_Get h (hc_tdCache hc) = (f, c')" by fastforce
  have Q: "lr.holds ?Q (hc_tdCache hc)" using c by (simp add: caches_ok_def)
  have Q': "lr.holds ?Q c'" using lr.holds_get [OF Q, of h] g by simp
  show ?thesis
  proof (cases f)
    case (Some td)
    then show ?thesis using lr.holds_hit [OF Q, of h td] r c Q' g by (auto simp: hc_GetTd_def reads_def caches_ok_def)
  next
    case None
    show ?thesis
    proof (cases "db_GetTd h n (hc_db hc)")
      case s2: (Some td)
      then obtain x where "db_GetHeader h n (hc_db hc) = Some x" using store_td [OF s, of h n] by auto
      then have "known E (hc_db hc) x \<and> h = ZKHashBlock E x \<and> n = numberOf x" using found_known [OF s] by blast
      then have q: "?Q h td" using s2 by (auto simp: tdOf_def)
      then show ?thesis using None s2 r c g lr.holds_add [OF Q', of h td] by (auto simp: hc_GetTd_def reads_def caches_ok_def)
    qed (use None r c g in \<open>auto simp: hc_GetTd_def reads_def\<close>)
  qed
qed

lemma hc_GetTd_known:
  assumes u: "universe E H g" and s: "store_ok E H g (hc_db hc)" and c: "caches_ok E hc" and p: "known E (hc_db hc) p"
  shows "\<exists>td hc'. hc_GetTd (ZKHashBlock E p) (numberOf p) hc = (Some td, hc') \<and> tdOf E (hc_db hc) p = Some td \<and> reads E hc hc'"
proof -
  obtain r hc' where r: "hc_GetTd (ZKHashBlock E p) (numberOf p) hc = (r, hc')" by fastforce
  note k = hc_GetTd_reads [OF s c r]
  have "r \<noteq> None" using k known_td [OF s p] by (auto simp: tdOf_def)
  then show ?thesis using k r known_same [OF u s _ p] by fastforce
qed

section \<open>Canonical numbers\<close>

lemma frame_simps [simp]:
  "db_GetHeader h n (db\<lparr>cs_canon := c\<rparr>) = db_GetHeader h n db" "db_GetTd h n (db\<lparr>cs_canon := c\<rparr>) = db_GetTd h n db"
  "known E (db\<lparr>cs_canon := c\<rparr>) = known E db" "tdOf E (db\<lparr>cs_canon := c\<rparr>) = tdOf E db" "store_ok E H g (db\<lparr>cs_canon := c\<rparr>) = store_ok E H g db"
  "db_GetHeader h n (db\<lparr>cs_headHeader := hh\<rparr>) = db_GetHeader h n db" "db_GetTd h n (db\<lparr>cs_headHeader := hh\<rparr>) = db_GetTd h n db"
  "known E (db\<lparr>cs_headHeader := hh\<rparr>) = known E db" "tdOf E (db\<lparr>cs_headHeader := hh\<rparr>) = tdOf E db" "store_ok E H g (db\<lparr>cs_headHeader := hh\<rparr>) = store_ok E H g db"
  "canonOf (db\<lparr>cs_headHeader := hh\<rparr>) = canonOf db"
  by (simp_all add: db_GetHeader_def db_GetTd_def known_def tdOf_def store_ok_def canonOf_def fun_eq_iff)

lemma number_inj: "m < 2 ^ 64 \<Longrightarrow> k < 2 ^ 64 \<Longrightarrow> (of_nat m :: u64) = of_nat k \<longleftrightarrow> m = k"
  by (auto simp: word_unat_eq_iff unsigned_of_nat take_bit_nat_eq_self)

lemma write_canon:
  "\<exists>c. WriteCanonicalHash h n db = db\<lparr>cs_canon := c\<rparr>"
  "m < 2 ^ 64 \<Longrightarrow> k < 2 ^ 64 \<Longrightarrow> canonOf (WriteCanonicalHash h (of_nat k) db) m = (if m = k then Some h else canonOf db m)"
  by (auto simp: WriteCanonicalHash_def canonOf_def number_inj)

lemma GetCanonicalHash_canonOf: "h \<noteq> 0 \<Longrightarrow> GetCanonicalHash (numberOf x) db = h \<longleftrightarrow> canonOf db (height x) = Some h"
  by (auto simp: GetCanonicalHash_def canonOf_def height_number split: option.splits)

lemma deleteAbove_spec:
  assumes "\<forall>m. k \<le> m \<longrightarrow> m \<le> T \<longrightarrow> (\<exists>h. h \<noteq> 0 \<and> canonOf db m = Some h)" and "\<forall>m. T < m \<longrightarrow> m < 2 ^ 64 \<longrightarrow> canonOf db m = None"
    and "T < 2 ^ 64 - 1" and "k < 2 ^ 64"
  shows "\<exists>c. deleteAbove (of_nat k) db = db\<lparr>cs_canon := c\<rparr> \<and> (\<forall>m<2 ^ 64. canonOf (db\<lparr>cs_canon := c\<rparr>) m = (if k \<le> m then None else canonOf db m))"
  using assms
proof (induction "Suc T - k" arbitrary: k db)
  case 0
  then have "canonOf db k = None" by auto
  then have "deleteAbove (of_nat k) db = db" by (simp add: deleteAbove.simps GetCanonicalHash_def canonOf_def)
  moreover have "canonOf db m = None" if "m < 2 ^ 64" "k \<le> m" for m using 0 that by auto
  ultimately show ?case by (intro exI [of _ "cs_canon db"]) auto
next
  case (Suc d)
  then have kT: "k \<le> T" by simp
  then obtain h where h: "h \<noteq> 0" "canonOf db k = Some h" using Suc.prems(1) by blast
  let ?db = "DeleteCanonicalHash (of_nat k) db"
  have del: "canonOf ?db m = (if m = k then None else canonOf db m)" if "m < 2 ^ 64" for m
    using that Suc.prems(4) by (auto simp: DeleteCanonicalHash_def canonOf_def number_inj)
  have 1: "\<forall>m. Suc k \<le> m \<longrightarrow> m \<le> T \<longrightarrow> (\<exists>h. h \<noteq> 0 \<and> canonOf ?db m = Some h)" using Suc.prems(1,3) by (auto simp: del)
  have 2: "\<forall>m. T < m \<longrightarrow> m < 2 ^ 64 \<longrightarrow> canonOf ?db m = None" using Suc.prems(2) by (auto simp: del)
  have "d = Suc T - Suc k" "Suc k < 2 ^ 64" using Suc.hyps(2) kT Suc.prems(3) by auto
  from Suc.hyps(1) [OF this(1) 1 2 Suc.prems(3) this(2)] obtain c where c: "deleteAbove (of_nat (Suc k)) ?db = ?db\<lparr>cs_canon := c\<rparr>"
    "\<forall>m<2 ^ 64. canonOf (?db\<lparr>cs_canon := c\<rparr>) m = (if Suc k \<le> m then None else canonOf ?db m)" by blast
  have "deleteAbove (of_nat k) db = deleteAbove (of_nat (Suc k)) ?db" using h by (subst deleteAbove.simps) (simp add: GetCanonicalHash_def canonOf_def add.commute)
  moreover have "?db\<lparr>cs_canon := c\<rparr> = db\<lparr>cs_canon := c\<rparr>" by (simp add: DeleteCanonicalHash_def)
  ultimately show ?case using c del by (intro exI [of _ c]) (auto simp: le_less_Suc_eq Suc_le_eq)
qed

text \<open>Only caches and canonical numbers change.\<close>

definition renumbered :: "engEnv \<Rightarrow> HeaderChain \<Rightarrow> HeaderChain \<Rightarrow> bool" where
  "renumbered E hc hc' \<longleftrightarrow> (\<exists>c. hc_db hc' = (hc_db hc)\<lparr>cs_canon := c\<rparr>) \<and> hc_genesis hc' = hc_genesis hc \<and> hc_current hc' = hc_current hc \<and>
     hc_currentHash hc' = hc_currentHash hc \<and> caches_ok E hc'"

lemma renumbered_trans: "renumbered E a b \<Longrightarrow> renumbered E b c \<Longrightarrow> renumbered E a c"
  by (auto simp: renumbered_def)

lemma reads_moved: "reads E hc hc' \<Longrightarrow> renumbered E hc hc'"
  by (auto simp: renumbered_def reads_def intro!: exI [of _ "cs_canon (hc_db hc)"])

lemma renumbered_store: "renumbered E hc hc' \<Longrightarrow> known E (hc_db hc') = known E (hc_db hc) \<and> tdOf E (hc_db hc') = tdOf E (hc_db hc) \<and>
    store_ok E H g (hc_db hc') = store_ok E H g (hc_db hc)"
  by (auto simp: renumbered_def)

lemma renumbered_canon:
  assumes "caches_ok E hc" and "hc_db hc' = (hc_db hc)\<lparr>cs_canon := c\<rparr>" "hc_genesis hc' = hc_genesis hc" "hc_current hc' = hc_current hc"
    "hc_currentHash hc' = hc_currentHash hc" "hc_headerCache hc' = hc_headerCache hc" "hc_tdCache hc' = hc_tdCache hc" "hc_numberCache hc' = hc_numberCache hc"
  shows "renumbered E hc hc'"
  using assms by (auto simp: renumbered_def caches_ok_def)

definition linkedUpTo :: "engEnv \<Rightarrow> Header \<Rightarrow> chainStore \<Rightarrow> nat \<Rightarrow> bool" where
  "linkedUpTo E g db n \<longleftrightarrow> canonOf db 0 = Some (ZKHashBlock E g) \<and>
     (\<forall>m. 0 < m \<longrightarrow> m \<le> n \<longrightarrow> canonOf db m \<noteq> None \<longrightarrow> (\<exists>y. atNumber E db m y \<and> canonOf db (m - 1) = Some (h_ParentHash y)))"

lemma linkedD:
  "linkedUpTo E g db n \<Longrightarrow> 0 < m \<Longrightarrow> m \<le> n \<Longrightarrow> canonOf db m \<noteq> None \<Longrightarrow> \<exists>y. atNumber E db m y \<and> canonOf db (m - 1) = Some (h_ParentHash y)"
  unfolding linkedUpTo_def by blast

lemma linked_down:
  assumes "linkedUpTo E g db n" and "canonOf db n \<noteq> None" and "m \<le> n"
  shows "canonOf db m \<noteq> None"
  using assms
proof (induction n)
  case (Suc n)
  show ?case
  proof (cases "m = Suc n")
    case False
    have "canonOf db n \<noteq> None" using linkedD [OF Suc.prems(1) _ _ Suc.prems(2)] by auto
    moreover have "linkedUpTo E g db n" using Suc.prems(1) by (simp add: linkedUpTo_def)
    ultimately show ?thesis using Suc.IH Suc.prems(3) False by simp
  qed (use Suc.prems in simp)
qed simp

lemma atNumber_cong: "known E db' = known E db \<Longrightarrow> canonOf db' m = canonOf db m \<Longrightarrow> atNumber E db' m y = atNumber E db m y"
  by (simp add: atNumber_def)

lemma linked_cong:
  assumes "linkedUpTo E g db n" and "known E db' = known E db" and "\<forall>m\<le>n. canonOf db' m = canonOf db m"
  shows "linkedUpTo E g db' n"
  using assms by (auto simp: linkedUpTo_def atNumber_def)

text \<open>The chain below a header is numbered.\<close>

definition chained :: "engEnv \<Rightarrow> Header \<Rightarrow> chainStore \<Rightarrow> Header \<Rightarrow> bool" where
  "chained E g db x \<longleftrightarrow> atNumber E db (height x) x \<and> atNumber E db 0 g \<and>
     (\<forall>m. 0 < m \<longrightarrow> m \<le> height x \<longrightarrow> (\<exists>y. atNumber E db m y \<and> canonOf db (m - 1) = Some (h_ParentHash y)))"

lemma canonical_chained: "canonical_ok E g db x \<longleftrightarrow> chained E g db x \<and> (\<forall>m. height x < m \<longrightarrow> m < 2 ^ 64 \<longrightarrow> canonOf db m = None)"
  by (auto simp: canonical_ok_def chained_def)

lemma linked_chained:
  assumes "linkedUpTo E g db (height x)" and "canonOf db (height x) = Some (ZKHashBlock E x)" and "known E db x" "known E db g" "height g = 0"
  shows "chained E g db x"
  unfolding chained_def
proof (intro conjI allI impI)
  show "atNumber E db (height x) x" using assms by (simp add: atNumber_def)
  show "atNumber E db 0 g" using assms by (simp add: atNumber_def linkedUpTo_def)
  fix m assume m: "0 < m" "m \<le> height x"
  then have "canonOf db m \<noteq> None" using linked_down [OF assms(1)] assms(2) by blast
  then show "\<exists>y. atNumber E db m y \<and> canonOf db (m - 1) = Some (h_ParentHash y)" using linkedD [OF assms(1) m] by blast
qed

text \<open>A new head on top of a numbered parent.\<close>

lemma chained_step:
  assumes p: "chained E g db p" and x: "known E db' x" "height x = Suc (height p)" "h_ParentHash x = ZKHashBlock E p" "canonOf db' (height x) = Some (ZKHashBlock E x)"
    and k: "known E db' = known E db" and c: "\<forall>m\<le>height p. canonOf db' m = canonOf db m"
  shows "chained E g db' x"
  unfolding chained_def
proof (intro conjI allI impI)
  show "atNumber E db' (height x) x" using x by (simp add: atNumber_def)
  show "atNumber E db' 0 g" using p c k by (simp add: chained_def atNumber_def)
  fix m assume m: "0 < m" "m \<le> height x"
  show "\<exists>y. atNumber E db' m y \<and> canonOf db' (m - 1) = Some (h_ParentHash y)"
  proof (cases "m = height x")
    case True
    have "canonOf db' (height p) = Some (ZKHashBlock E p)" using p c by (simp add: chained_def atNumber_def)
    then show ?thesis using True x by (intro exI [of _ x]) (simp add: atNumber_def)
  next
    case False
    then have le: "m \<le> height p" "m - 1 \<le> height p" using m x(2) by auto
    from p m(1) le(1) obtain y where "atNumber E db m y" "canonOf db (m - 1) = Some (h_ParentHash y)" unfolding chained_def by blast
    then show ?thesis using atNumber_cong [OF k, of m] c le by auto
  qed
qed

lemma renumber_spec:
  assumes u: "universe E H g" and "store_ok E H g (hc_db hc)" and "caches_ok E hc" and "known E (hc_db hc) x" and "height x < k"
    and "linkedUpTo E g (hc_db hc) (height x)"
  shows "\<exists>hc'. renumber k (ZKHashBlock E x) (numberOf x) (Some x) hc = Inr hc' \<and> renumbered E hc hc' \<and> chained E g (hc_db hc') x \<and>
    (\<forall>m<2 ^ 64. height x < m \<longrightarrow> canonOf (hc_db hc') m = canonOf (hc_db hc) m)"
  using assms(2-)
proof (induction "height x" arbitrary: x hc k)
  have g: "height g = 0" "g \<in> H" using u by (auto simp: universe_def height_def)
  have stop: "\<exists>hc'. renumber k (ZKHashBlock E x) (numberOf x) (Some x) hc = Inr hc' \<and> renumbered E hc hc' \<and> chained E g (hc_db hc') x \<and>
      (\<forall>m<2 ^ 64. height x < m \<longrightarrow> canonOf (hc_db hc') m = canonOf (hc_db hc) m)"
    if s: "store_ok E H g (hc_db hc)" "caches_ok E hc" "known E (hc_db hc) x" "height x < k" "linkedUpTo E g (hc_db hc) (height x)"
      and c: "GetCanonicalHash (numberOf x) (hc_db hc) = ZKHashBlock E x" for x k hc
  proof -
    obtain j where "k = Suc j" using s(4) by (cases k) auto
    then have "renumber k (ZKHashBlock E x) (numberOf x) (Some x) hc = Inr hc" using c by simp
    moreover have "ZKHashBlock E x \<noteq> 0" using known_in [OF s(1,3)] u by (auto simp: universe_def)
    then have "canonOf (hc_db hc) (height x) = Some (ZKHashBlock E x)" using GetCanonicalHash_canonOf c by blast
    moreover have "known E (hc_db hc) g" using s(1) by (simp add: store_ok_def)
    ultimately show ?thesis using linked_chained [OF s(5)] s(2,3) g reads_moved [of E hc hc] by (auto simp: reads_def)
  qed
  {
    case 0
    have "x \<in> H" by (rule known_in [OF 0(2,4)])
    then have "x = g" using u 0(1) by (auto simp: universe_def height_def unat_eq_0)
    then have "canonOf (hc_db hc) (height x) = Some (ZKHashBlock E x)" using 0 by (simp add: linkedUpTo_def)
    then have "GetCanonicalHash (numberOf x) (hc_db hc) = ZKHashBlock E x" using GetCanonicalHash_canonOf u \<open>x \<in> H\<close> by (auto simp: universe_def)
    then show ?case using stop 0 by blast
  next
    case (Suc n)
    note s = Suc.prems
    have xH: "x \<in> H" by (rule known_in [OF s(1,3)])
    show ?case
    proof (cases "GetCanonicalHash (numberOf x) (hc_db hc) = ZKHashBlock E x")
      case True
      then show ?thesis using stop s by blast
    next
      case False
      have "x \<noteq> g" using Suc.hyps(2) g by auto
      then obtain p where p: "known E (hc_db hc) p" "h_ParentHash x = ZKHashBlock E p" using s(1,3) unfolding store_ok_def by blast
      have pH: "p \<in> H" by (rule known_in [OF s(1) p(1)])
      note ph = parent_height [OF u xH pH p(2)]
      have small: "height x < 2 ^ 64" using height_small [OF u xH] by simp
      obtain j where k: "k = Suc j" using s(4) by (cases k) auto
      define w where "w = hc\<lparr>hc_db := WriteCanonicalHash (ZKHashBlock E x) (numberOf x) (hc_db hc)\<rparr>"
      obtain c where c: "WriteCanonicalHash (ZKHashBlock E x) (numberOf x) (hc_db hc) = (hc_db hc)\<lparr>cs_canon := c\<rparr>" using write_canon(1) by blast
      have cw: "canonOf (hc_db w) m = (if m = height x then Some (ZKHashBlock E x) else canonOf (hc_db hc) m)" if "m < 2 ^ 64" for m
        using write_canon(2) [OF that small, of "ZKHashBlock E x" "hc_db hc"] by (simp add: height_number w_def)
      have mw: "renumbered E hc w" by (rule renumbered_canon [OF s(2)]) (simp_all add: c w_def)
      have kw: "known E (hc_db w) = known E (hc_db hc)" using renumbered_store [OF mw] by blast
      have sw: "store_ok E H g (hc_db w)" "caches_ok E w" "known E (hc_db w) p" using mw s(1) p(1) by (auto simp: renumbered_def)
      obtain hc1 where r: "hc_GetHeader (ZKHashBlock E p) (numberOf p) w = (Some p, hc1)" "reads E w hc1" using hc_GetHeader_known [OF u sw] by blast
      have db1: "hc_db hc1 = hc_db w" "caches_ok E hc1" using r(2) by (auto simp: reads_def)
      have "linkedUpTo E g (hc_db hc) (height p)" using s(5) ph(1) by (simp add: linkedUpTo_def)
      then have lk: "linkedUpTo E g (hc_db hc1) (height p)"
        by (rule linked_cong) (use ph(1) small in \<open>auto simp: db1 cw kw\<close>)
      have np: "n = height p" "height p < j" using Suc.hyps(2) ph(1) s(4) k by auto
      from Suc.hyps(1) [OF np(1) _ db1(2) _ np(2) lk] sw db1 obtain hc2 where
        h2: "renumber j (ZKHashBlock E p) (numberOf p) (Some p) hc1 = Inr hc2" "renumbered E hc1 hc2" "chained E g (hc_db hc2) p"
        "\<forall>m<2 ^ 64. height p < m \<longrightarrow> canonOf (hc_db hc2) m = canonOf (hc_db hc1) m" by auto
      have e: "renumber k (ZKHashBlock E x) (numberOf x) (Some x) hc = Inr hc2" using False k p(2) ph(2) r(1) h2(1) by (simp add: Let_def w_def)
      have mv: "renumbered E hc hc2" using mw reads_moved [OF r(2)] h2(2) renumbered_trans by blast
      have "known E (hc_db hc2) x" using renumbered_store [OF mv] s(3) by metis
      then have "chained E g (hc_db hc2) x" by (rule chained_step [OF h2(3) _ ph(1) p(2)]) (use h2(4) small ph(1) in \<open>auto simp: db1 cw\<close>)
      moreover have "\<forall>m<2 ^ 64. height x < m \<longrightarrow> canonOf (hc_db hc2) m = canonOf (hc_db hc) m" using h2(4) ph(1) by (simp add: db1 cw)
      ultimately show ?thesis using e mv by blast
    qed
  }
qed

lemma makeHead_spec:
  assumes u: "universe E H g" and s: "store_ok E H g (hc_db hc)" and c: "caches_ok E hc" and old: "canonical_ok E g (hc_db hc) t"
    and x: "known E (hc_db hc) x" and p: "known E (hc_db hc) p" "h_ParentHash x = ZKHashBlock E p"
  shows "\<exists>hc' cn. makeHead E x hc = Inr hc' \<and> canonical_ok E g (hc_db hc') x \<and> caches_ok E hc' \<and> hc_genesis hc' = hc_genesis hc \<and>
    hc_current hc' = x \<and> hc_currentHash hc' = ZKHashBlock E x \<and> hc_db hc' = (hc_db hc)\<lparr>cs_canon := cn, cs_headHeader := ZKHashBlock E x\<rparr>"
proof -
  have g: "height g = 0" "g \<in> H" using u by (auto simp: universe_def height_def)
  have tk: "known E (hc_db hc) t" using old by (simp add: canonical_ok_def atNumber_def)
  have H: "x \<in> H" "p \<in> H" "t \<in> H" using known_in [OF s] x p(1) tk by auto
  have small: "height x < 2 ^ 64 - 1" "height t < 2 ^ 64 - 1" using height_small [OF u] H by auto
  note ph = parent_height [OF u H(1,2) p(2)]
  have nz: "ZKHashBlock E y \<noteq> 0" if "known E (hc_db hc) y" for y using known_in [OF s that] u by (auto simp: universe_def)
  have have_low: "canonOf (hc_db hc) m \<noteq> None \<and> (\<forall>h. canonOf (hc_db hc) m = Some h \<longrightarrow> h \<noteq> 0)" if le: "m \<le> height t" for m
  proof -
    obtain y where "atNumber E (hc_db hc) m y"
    proof (cases "m = 0")
      case True
      then show thesis using old that unfolding canonical_ok_def by blast
    next
      case False
      then show thesis using old le that unfolding canonical_ok_def by blast
    qed
    then show ?thesis using nz by (auto simp: atNumber_def)
  qed
  have suc: "numberOf x + 1 = of_nat (Suc (height x))" by (simp add: height_number)
  obtain c1 where c1: "deleteAbove (numberOf x + 1) (hc_db hc) = (hc_db hc)\<lparr>cs_canon := c1\<rparr>"
    "\<forall>m<2 ^ 64. canonOf ((hc_db hc)\<lparr>cs_canon := c1\<rparr>) m = (if Suc (height x) \<le> m then None else canonOf (hc_db hc) m)"
  proof -
    have "\<forall>m. Suc (height x) \<le> m \<longrightarrow> m \<le> height t \<longrightarrow> (\<exists>h. h \<noteq> 0 \<and> canonOf (hc_db hc) m = Some h)" using have_low by (metis option.exhaust)
    moreover have "\<forall>m. height t < m \<longrightarrow> m < 2 ^ 64 \<longrightarrow> canonOf (hc_db hc) m = None" using old by (simp add: canonical_ok_def)
    ultimately show thesis using deleteAbove_spec [of "Suc (height x)" "height t" "hc_db hc"] small that unfolding suc by auto
  qed
  define w where "w = hc\<lparr>hc_db := deleteAbove (numberOf x + 1) (hc_db hc)\<rparr>"
  have mw: "renumbered E hc w" by (rule renumbered_canon [OF c]) (simp_all add: w_def c1)
  have cw: "canonOf (hc_db w) m = (if Suc (height x) \<le> m then None else canonOf (hc_db hc) m)" if "m < 2 ^ 64" for m using c1 that by (simp add: w_def)
  have kw: "known E (hc_db w) = known E (hc_db hc)" "store_ok E H g (hc_db w)" "caches_ok E w" using renumbered_store [OF mw, of H g] mw s by (auto simp: renumbered_def)
  have pw: "known E (hc_db w) p" using p(1) kw by simp
  obtain hc1 where r: "hc_GetHeader (ZKHashBlock E p) (numberOf p) w = (Some p, hc1)" "reads E w hc1" using hc_GetHeader_known [OF u kw(2,3) pw] by blast
  have db1: "hc_db hc1 = hc_db w" "caches_ok E hc1" using r(2) by (auto simp: reads_def)
  have "linkedUpTo E g (hc_db hc) (height p)" unfolding linkedUpTo_def
  proof (intro conjI allI impI)
    show "canonOf (hc_db hc) 0 = Some (ZKHashBlock E g)" using old by (simp add: canonical_ok_def atNumber_def)
    fix m assume m: "0 < m" "m \<le> height p" "canonOf (hc_db hc) m \<noteq> None"
    have "m \<le> height t" using m(2,3) ph(1) small old unfolding canonical_ok_def by (metis (no_types, lifting) Suc_le_lessD le_less_trans less_imp_diff_less linorder_not_less nat_less_le)
    then show "\<exists>y. atNumber E (hc_db hc) m y \<and> canonOf (hc_db hc) (m - 1) = Some (h_ParentHash y)" using old m(1) unfolding canonical_ok_def by blast
  qed
  then have lk: "linkedUpTo E g (hc_db hc1) (height p)" by (rule linked_cong) (use ph(1) small in \<open>auto simp: db1 cw kw\<close>)
  have "store_ok E H g (hc_db hc1)" "known E (hc_db hc1) p" "height p < unat (numberOf x) + 1" using kw pw db1 ph(1) by (auto simp: height_def)
  from renumber_spec [OF u this(1) db1(2) this(2,3) lk] obtain hc2 where
    h2: "renumber (unat (numberOf x) + 1) (ZKHashBlock E p) (numberOf p) (Some p) hc1 = Inr hc2" "renumbered E hc1 hc2" "chained E g (hc_db hc2) p"
    "\<forall>m<2 ^ 64. height p < m \<longrightarrow> canonOf (hc_db hc2) m = canonOf (hc_db hc1) m" by blast
  have mv: "renumbered E hc hc2" using mw reads_moved [OF r(2)] h2(2) renumbered_trans by blast
  define hc3 where "hc3 = hc2\<lparr>hc_db := (WriteCanonicalHash (ZKHashBlock E x) (numberOf x) (hc_db hc2))\<lparr>cs_headHeader := ZKHashBlock E x\<rparr>, hc_current := x, hc_currentHash := ZKHashBlock E x\<rparr>"
  obtain c3 where c3: "WriteCanonicalHash (ZKHashBlock E x) (numberOf x) (hc_db hc2) = (hc_db hc2)\<lparr>cs_canon := c3\<rparr>" using write_canon(1) by blast
  have e: "makeHead E x hc = Inr hc3" using r(1) h2(1) p(2) ph(2) by (simp add: makeHead_def Let_def w_def hc3_def del: renumber.simps)
  have cn: "canonOf (hc_db hc3) m = (if m = height x then Some (ZKHashBlock E x) else canonOf (hc_db hc2) m)" if "m < 2 ^ 64" for m
    using write_canon(2) [of m "height x" "ZKHashBlock E x" "hc_db hc2"] that small by (simp add: height_number hc3_def)
  have k3: "known E (hc_db hc3) = known E (hc_db hc2)" by (simp add: hc3_def c3)
  have "known E (hc_db hc3) x" using renumbered_store [OF mv, of H g] x k3 by simp
  then have "chained E g (hc_db hc3) x" by (rule chained_step [OF h2(3) _ ph(1) p(2) _ k3]) (use cn small ph(1) in auto)
  moreover have "canonOf (hc_db hc3) m = None" if "height x < m" "m < 2 ^ 64" for m using cn [OF that(2)] h2(4) that ph(1) cw [OF that(2)] by (simp add: db1)
  ultimately have "canonical_ok E g (hc_db hc3) x" by (simp add: canonical_chained)
  moreover have "caches_ok E hc3" using mv by (simp add: renumbered_def caches_ok_def hc3_def c3)
  moreover obtain c4 where "hc_db hc2 = (hc_db hc)\<lparr>cs_canon := c4\<rparr>" "hc_genesis hc2 = hc_genesis hc" using mv by (auto simp: renumbered_def)
  moreover have "hc_db hc3 = (hc_db hc2)\<lparr>cs_canon := c3, cs_headHeader := ZKHashBlock E x\<rparr>" "hc_genesis hc3 = hc_genesis hc2"
    "hc_current hc3 = x" "hc_currentHash hc3 = ZKHashBlock E x" by (simp_all add: hc3_def c3)
  ultimately show ?thesis using e by (intro exI [of _ hc3] exI [of _ c3]) simp
qed

lemma canonical_mono:
  assumes "canonical_ok E g db t" and k: "\<And>y. known E db y \<Longrightarrow> known E db' y" and c: "canonOf db' = canonOf db"
  shows "canonical_ok E g db' t"
proof -
  have "atNumber E db m y \<Longrightarrow> atNumber E db' m y" for m y using k c by (simp add: atNumber_def)
  then show ?thesis using assms(1) unfolding canonical_ok_def c by blast
qed

section \<open>Writing a header\<close>

text \<open>Storing a header under its hash and number.\<close>

lemma store_put:
  assumes u: "universe E H g" and s: "store_ok E H g db" and x: "x \<in> H" and p: "known E db p" "h_ParentHash x = ZKHashBlock E p" "tdOf E db p = Some ptd"
  defines "db' \<equiv> db_WriteHeader E x (db_WriteTd (ZKHashBlock E x) (numberOf x) (h_Difficulty x + ptd) db)"
  shows "store_ok E H g db'" and "known E db' y \<longleftrightarrow> y = x \<or> known E db y" and "tdOf E db' x = Some (h_Difficulty x + ptd)"
    and "known E db y \<Longrightarrow> tdOf E db' y = tdOf E db y" and "canonOf db' = canonOf db" and "cs_headBlock db' = cs_headBlock db"
proof -
  have xg: "x \<noteq> g" using u p known_in [OF s p(1)] by (auto simp: universe_def)
  have get: "db_GetHeader h n db' = (if h = ZKHashBlock E x \<and> n = numberOf x then Some x else db_GetHeader h n db)" for h n
    by (auto simp: db'_def db_WriteHeader_def db_WriteTd_def db_GetHeader_def Let_def)
  have td: "db_GetTd h n db' = (if h = ZKHashBlock E x \<and> n = numberOf x then Some (h_Difficulty x + ptd) else db_GetTd h n db)" for h n
    by (auto simp: db'_def db_WriteHeader_def db_WriteTd_def db_GetTd_def Let_def)
  have num: "mget (cs_numbers db') h = (if h = ZKHashBlock E x then Some (numberOf x) else mget (cs_numbers db) h)" for h
    by (simp add: db'_def db_WriteHeader_def db_WriteTd_def Let_def)
  have same: "y = x" if "known E db y" "ZKHashBlock E y = ZKHashBlock E x" for y using universe_inj [OF u known_in [OF s that(1)] x that(2)] .
  show k: "known E db' y \<longleftrightarrow> y = x \<or> known E db y" for y using same [of y] by (auto simp: known_def get)
  show tx: "tdOf E db' x = Some (h_Difficulty x + ptd)" by (simp add: tdOf_def td)
  have old: "tdOf E db x = Some (h_Difficulty x + ptd)" if kx: "known E db x"
  proof -
    obtain q t where q: "known E db q" "h_ParentHash x = ZKHashBlock E q" "tdOf E db q = Some t" "tdOf E db x = Some (t + h_Difficulty x)"
      using s kx xg unfolding store_ok_def by blast
    have "q = p" using known_same [OF u s q(1) p(1)] q(2) p(2) by simp
    then show ?thesis using q p(3) by simp
  qed
  show ty: "tdOf E db' y = tdOf E db y" if ky: "known E db y" for y
  proof (cases "ZKHashBlock E y = ZKHashBlock E x")
    case True
    then show ?thesis using same [OF ky] old ky tx by auto
  qed (simp add: tdOf_def td)
  show "canonOf db' = canonOf db" "cs_headBlock db' = cs_headBlock db" by (simp_all add: db'_def db_WriteHeader_def db_WriteTd_def canonOf_def Let_def fun_eq_iff)
  show "store_ok E H g db'" unfolding store_ok_def
  proof (intro conjI allI impI)
    show "known E db' g" using k s by (auto simp: store_ok_def)
    show "y \<in> H" "h = ZKHashBlock E y" "n = numberOf y" if "db_GetHeader h n db' = Some y" for h n y
      using that x found_known [OF s] by (auto simp: get split: if_splits)
    show "db_GetTd h n db' = None \<longleftrightarrow> db_GetHeader h n db' = None" for h n using store_td [OF s] by (auto simp: get td)
    show "db_GetHeader h n db' \<noteq> None" if "mget (cs_numbers db') h = Some n" for h n
    proof (cases "h = ZKHashBlock E x")
      case False
      then have "mget (cs_numbers db) h = Some n" using that by (simp add: num)
      then have "db_GetHeader h n db \<noteq> None" using s unfolding store_ok_def by blast
      then show ?thesis by (auto simp: get)
    qed (use that in \<open>simp add: num get\<close>)
    fix y assume y: "known E db' y" "y \<noteq> g"
    show "\<exists>p td. known E db' p \<and> h_ParentHash y = ZKHashBlock E p \<and> tdOf E db' p = Some td \<and> tdOf E db' y = Some (td + h_Difficulty y)"
    proof (cases "y = x")
      case True
      then show ?thesis using p k ty [OF p(1)] tx by (intro exI [of _ p] exI [of _ ptd]) simp
    next
      case False
      then have ky: "known E db y" using y k by blast
      then obtain q t where "known E db q" "h_ParentHash y = ZKHashBlock E q" "tdOf E db q = Some t" "tdOf E db y = Some (t + h_Difficulty y)"
        using s y(2) unfolding store_ok_def by blast
      then show ?thesis using k ty ky by (intro exI [of _ q] exI [of _ t]) simp
    qed
  qed
qed

end
