(* ===== verification/Chain_Write.thy ===== *)
theory Chain_Write
  imports Chain_Canonical
begin

text \<open>
  Writing a header keeps the invariant of the chain: the header is stored when its parent is, and it becomes the current one when its
  total difficulty is higher, or the same and the coin says so. The chains that a node reaches all satisfy the invariant.
\<close>

section \<open>Writing a header\<close>

definition heaviest :: "engEnv \<Rightarrow> chainStore \<Rightarrow> Header \<Rightarrow> bool" where
  "heaviest E db t \<longleftrightarrow> (\<forall>x td top. known E db x \<longrightarrow> tdOf E db x = Some td \<longrightarrow> tdOf E db t = Some top \<longrightarrow> td \<le> top)"

lemma hc_ok_heaviest: "hc_ok E H hc \<longleftrightarrow> store_ok E H (hc_genesis hc) (hc_db hc) \<and> caches_ok E hc \<and> canonical_ok E (hc_genesis hc) (hc_db hc) (hc_current hc) \<and>
  hc_currentHash hc = ZKHashBlock E (hc_current hc) \<and> heaviest E (hc_db hc) (hc_current hc)"
  by (simp add: hc_ok_def heaviest_def)

text \<open>The last step of \<open>WriteHeader\<close> puts the header into the caches.\<close>

definition cacheHeader :: "engEnv \<Rightarrow> Header \<Rightarrow> HeaderChain \<Rightarrow> HeaderChain" where
  "cacheHeader E x hc = hc\<lparr>hc_headerCache := lru_Add headerCacheLimit (ZKHashBlock E x) x (hc_headerCache hc),
     hc_numberCache := lru_Add numberCacheLimit (ZKHashBlock E x) (numberOf x) (hc_numberCache hc)\<rparr>"

lemma cacheHeader_simps [simp]: "hc_db (cacheHeader E x hc) = hc_db hc" "hc_genesis (cacheHeader E x hc) = hc_genesis hc"
  "hc_current (cacheHeader E x hc) = hc_current hc" "hc_currentHash (cacheHeader E x hc) = hc_currentHash hc"
  by (simp_all add: cacheHeader_def)

lemma cacheHeader_caches: "caches_ok E hc \<Longrightarrow> known E (hc_db hc) x \<Longrightarrow> caches_ok E (cacheHeader E x hc)"
  using lr.holds_add [of _ "hc_headerCache hc" "ZKHashBlock E x" x headerCacheLimit] lr.holds_add [of _ "hc_numberCache hc" "ZKHashBlock E x" "numberOf x" numberCacheLimit]
  by (auto simp: caches_ok_def cacheHeader_def)

lemma written_caches:
  assumes c: "caches_ok E hc" and k: "\<And>y. known E db y \<longleftrightarrow> y = x \<or> known E (hc_db hc) y" and tx: "tdOf E db x = Some td"
    and ty: "\<And>y. known E (hc_db hc) y \<Longrightarrow> tdOf E db y = tdOf E (hc_db hc) y"
  shows "caches_ok E ((hc_WriteTd (ZKHashBlock E x) n td hc)\<lparr>hc_db := db\<rparr>)"
proof -
  let ?T = "\<lambda>h td. \<exists>y. h = ZKHashBlock E y \<and> known E db y \<and> tdOf E db y = Some td"
  have "lr.holds (\<lambda>h y. h = ZKHashBlock E y \<and> known E db y) (hc_headerCache hc)" using c by (auto simp: caches_ok_def k elim: lr.holds_mono)
  moreover have "lr.holds (\<lambda>h n. \<exists>y. h = ZKHashBlock E y \<and> known E db y \<and> n = numberOf y) (hc_numberCache hc)" using c by (auto simp: caches_ok_def k elim: lr.holds_mono)
  moreover have "lr.holds ?T (hc_tdCache hc)" using c ty by (auto simp: caches_ok_def k elim!: lr.holds_mono)
  then have "lr.holds ?T (lru_Add tdCacheLimit (ZKHashBlock E x) td (hc_tdCache hc))" by (rule lr.holds_add) (use k tx in blast)
  ultimately show ?thesis by (simp add: caches_ok_def hc_WriteTd_def)
qed

lemma write_unknown:
  assumes u: "universe E H (hc_genesis hc)" and ok: "hc_ok E H hc" and x: "x \<in> H" and no: "\<nexists>p. known E (hc_db hc) p \<and> h_ParentHash x = ZKHashBlock E p"
  shows "\<exists>hc'. hc_WriteHeader E coin x hc = Inr (Inl UnknownAncestor, hc') \<and> reads E hc hc'"
proof -
  obtain r hc1 where g: "hc_GetTd (h_ParentHash x) (numberOf x - 1) hc = (r, hc1)" by fastforce
  have d: "reads E hc hc1 \<and> (\<forall>td. r = Some td \<longrightarrow> (\<exists>y. known E (hc_db hc) y \<and> h_ParentHash x = ZKHashBlock E y \<and> tdOf E (hc_db hc) y = Some td))"
    using hc_GetTd_reads [OF _ _ g] ok unfolding hc_ok_def by blast
  then have "r = None" using no by (cases r) auto
  then show ?thesis using g d by (simp add: hc_WriteHeader_def)
qed

text \<open>With a known parent the header and its total difficulty are stored first; what follows depends on the difficulty of the current header.\<close>

lemma write_step:
  assumes u: "universe E H (hc_genesis hc)" and ok: "hc_ok E H hc" and x: "x \<in> H" and p: "known E (hc_db hc) p" "h_ParentHash x = ZKHashBlock E p" "tdOf E (hc_db hc) p = Some ptd"
  defines "db \<equiv> db_WriteHeader E x (db_WriteTd (ZKHashBlock E x) (numberOf x) (h_Difficulty x + ptd) (hc_db hc))"
  shows "\<exists>lt hc'. tdOf E (hc_db hc) (hc_current hc) = Some lt \<and> hc_db hc' = db \<and> hc_genesis hc' = hc_genesis hc \<and> hc_current hc' = hc_current hc \<and>
    hc_currentHash hc' = hc_currentHash hc \<and> caches_ok E hc' \<and> hc_WriteHeader E coin x hc =
      bind_res (if h_Difficulty x + ptd > lt \<or> h_Difficulty x + ptd = lt \<and> coin then bind_res (makeHead E x hc') (\<lambda>hc. Inr (CanonStatTy, hc)) else Inr (SideStatTy, hc'))
        (\<lambda>(status, hc). Inr (Inr status, cacheHeader E x hc))"
proof -
  let ?g = "hc_genesis hc" and ?db = "hc_db hc" and ?h = "ZKHashBlock E x" and ?td = "h_Difficulty x + ptd"
  have s: "store_ok E H ?g ?db" and c: "caches_ok E hc" and kc: "known E ?db (hc_current hc)" and ch: "hc_currentHash hc = ZKHashBlock E (hc_current hc)"
    using ok by (auto simp: hc_ok_def canonical_ok_def atNumber_def)
  have np: "numberOf x - 1 = numberOf p" by (rule parent_height(2) [OF u x known_in [OF s p(1)] p(2)])
  obtain hc1 where g1: "hc_GetTd (h_ParentHash x) (numberOf x - 1) hc = (Some ptd, hc1)" "reads E hc hc1"
    using hc_GetTd_known [OF u s c p(1)] p(2,3) np by auto
  then have e1: "hc_db hc1 = ?db" "hc_current hc1 = hc_current hc" "hc_currentHash hc1 = hc_currentHash hc" "caches_ok E hc1" by (auto simp: reads_def)
  obtain lt hc2 where g2: "hc_GetTd (hc_currentHash hc1) (numberOf (hc_current hc1)) hc1 = (Some lt, hc2)" "tdOf E ?db (hc_current hc) = Some lt" "reads E hc1 hc2"
    using hc_GetTd_known [OF u, of hc1 "hc_current hc"] s e1 kc ch by auto
  have "reads E hc hc2" by (rule reads_trans [OF g1(2) g2(3)])
  then have e2: "hc_db hc2 = ?db" "hc_genesis hc2 = ?g" "hc_current hc2 = hc_current hc" "hc_currentHash hc2 = hc_currentHash hc" "caches_ok E hc2" by (auto simp: reads_def)
  note st = store_put [OF u s x p, folded db_def]
  define hc3 where "hc3 = (hc_WriteTd ?h (numberOf x) ?td hc2)\<lparr>hc_db := db\<rparr>"
  have "caches_ok E hc3" unfolding hc3_def by (rule written_caches [OF e2(5)]) (use st e2 in auto)
  moreover have "hc_db hc3 = db" "hc_genesis hc3 = ?g" "hc_current hc3 = hc_current hc" "hc_currentHash hc3 = hc_currentHash hc" using e2 by (auto simp: hc3_def hc_WriteTd_def)
  moreover have "hc_WriteHeader E coin x hc = bind_res (if ?td > lt \<or> ?td = lt \<and> coin then bind_res (makeHead E x hc3) (\<lambda>hc. Inr (CanonStatTy, hc)) else Inr (SideStatTy, hc3))
    (\<lambda>(status, hc). Inr (Inr status, cacheHeader E x hc))"
    using g1(1) g2(1) e2(1) by (simp add: hc_WriteHeader_def Let_def hc3_def db_def cacheHeader_def hc_WriteTd_def)
  ultimately show ?thesis using g2(2) by (intro exI [of _ lt] exI [of _ hc3]) simp
qed

lemma write_known:
  assumes u: "universe E H (hc_genesis hc)" and ok: "hc_ok E H hc" and x: "x \<in> H" and p: "known E (hc_db hc) p" "h_ParentHash x = ZKHashBlock E p"
  shows "\<exists>st hc'. hc_WriteHeader E coin x hc = Inr (Inr st, hc') \<and> hc_ok E H hc' \<and> hc_genesis hc' = hc_genesis hc \<and>
    (\<forall>y. known E (hc_db hc') y \<longleftrightarrow> y = x \<or> known E (hc_db hc) y) \<and> (\<forall>y. known E (hc_db hc) y \<longrightarrow> tdOf E (hc_db hc') y = tdOf E (hc_db hc) y) \<and>
    hc_current hc' = (if st = CanonStatTy then x else hc_current hc) \<and> st \<noteq> NonStatTy"
proof -
  let ?g = "hc_genesis hc" and ?db = "hc_db hc" and ?t = "hc_current hc"
  have s: "store_ok E H ?g ?db" and can: "canonical_ok E ?g ?db ?t" and ch: "hc_currentHash hc = ZKHashBlock E ?t" and top: "heaviest E ?db ?t" and kt: "known E ?db ?t"
    using ok by (auto simp: hc_ok_heaviest canonical_ok_def atNumber_def)
  obtain ptd where ptd: "tdOf E ?db p = Some ptd" using known_td [OF s p(1)] by blast
  define db where "db = db_WriteHeader E x (db_WriteTd (ZKHashBlock E x) (numberOf x) (h_Difficulty x + ptd) ?db)"
  note st = store_put [OF u s x p ptd, folded db_def]
  from write_step [OF u ok x p ptd, of coin, folded db_def] obtain lt hc3 where
    lt: "tdOf E ?db ?t = Some lt" and e3: "hc_db hc3 = db" "hc_genesis hc3 = ?g" "hc_current hc3 = ?t" "hc_currentHash hc3 = hc_currentHash hc" "caches_ok E hc3"
    and step: "hc_WriteHeader E coin x hc = bind_res (if h_Difficulty x + ptd > lt \<or> h_Difficulty x + ptd = lt \<and> coin then bind_res (makeHead E x hc3) (\<lambda>hc. Inr (CanonStatTy, hc)) else Inr (SideStatTy, hc3))
      (\<lambda>(status, hc). Inr (Inr status, cacheHeader E x hc))" by blast
  have can3: "canonical_ok E ?g db ?t" by (rule canonical_mono [OF can]) (use st(2,5) in auto)
  have kx: "known E db x" "known E db p" using st(2) p(1) by auto
  have old: "td \<le> lt" if "known E db y" "y \<noteq> x" "tdOf E db y = Some td" for y td
    using that top st(2,4) lt unfolding heaviest_def by metis
  show ?thesis
  proof (cases "h_Difficulty x + ptd > lt \<or> h_Difficulty x + ptd = lt \<and> coin")
    case True
    obtain hc4 cn where m: "makeHead E x hc3 = Inr hc4" "canonical_ok E ?g (hc_db hc4) x" "caches_ok E hc4" "hc_genesis hc4 = ?g" "hc_current hc4 = x"
      "hc_currentHash hc4 = ZKHashBlock E x" "hc_db hc4 = db\<lparr>cs_canon := cn, cs_headHeader := ZKHashBlock E x\<rparr>"
      using makeHead_spec [OF u st(1) [folded e3(1)] e3(5) can3 [folded e3(1)] kx [folded e3(1)] p(2)] unfolding e3 by blast
    have st4: "known E (hc_db hc4) = known E db" "tdOf E (hc_db hc4) = tdOf E db" "store_ok E H ?g (hc_db hc4)" using m(7) st(1) by auto
    have "heaviest E (hc_db hc4) x" unfolding heaviest_def st4(1,2) using old st(3) True by fastforce
    then have "hc_ok E H (cacheHeader E x hc4)" using st4(1,3) m(2-6) kx(1) cacheHeader_caches by (simp add: hc_ok_heaviest)
    then show ?thesis using step True m st4 st(2,4) by (intro exI [of _ CanonStatTy] exI [of _ "cacheHeader E x hc4"]) auto
  next
    case False
    have "heaviest E db ?t" unfolding heaviest_def using old st(3) st(4) [OF kt] lt False by fastforce
    then have "hc_ok E H (cacheHeader E x hc3)" using st(1) can3 ch e3 kx(1) cacheHeader_caches by (simp add: hc_ok_heaviest)
    then show ?thesis using step False e3 st(2,4) by (intro exI [of _ SideStatTy] exI [of _ "cacheHeader E x hc3"]) auto
  qed
qed

lemma hc_reads_ok: "hc_ok E H hc \<Longrightarrow> reads E hc hc' \<Longrightarrow> hc_ok E H hc' \<and> hc_genesis hc' = hc_genesis hc"
  by (simp add: hc_ok_def reads_def)

lemma hc_WriteHeader_ok:
  assumes u: "universe E H (hc_genesis hc)" and ok: "hc_ok E H hc" and x: "x \<in> H"
  shows "\<exists>r hc'. hc_WriteHeader E coin x hc = Inr (r, hc') \<and> hc_ok E H hc' \<and> hc_genesis hc' = hc_genesis hc"
proof (cases "\<exists>p. known E (hc_db hc) p \<and> h_ParentHash x = ZKHashBlock E p")
  case True
  then show ?thesis using write_known [OF u ok x] by blast
next
  case False
  then show ?thesis using write_unknown [OF u ok x] hc_reads_ok [OF ok] by blast
qed

section \<open>Reachable chains\<close>

lemma new_chain_db:
  assumes u: "universe E H g" and db: "commitGenesis E difficulty g emptyStore = Some db"
  shows "\<exists>hc. NewHeaderChain E db = Some hc \<and> hc_ok E H hc \<and> hc_genesis hc = g \<and> hc_current hc = g \<and> hc_db hc = db \<and> (\<forall>x. known E db x \<longleftrightarrow> x = g)"
proof -
  let ?db = db and ?h = "ZKHashBlock E g"
  have n: "numberOf g = 0" and h: "?h \<noteq> 0" and gH: "g \<in> H" and pg: "\<And>x. x \<in> H \<Longrightarrow> h_ParentHash g \<noteq> ZKHashBlock E x" using u by (auto simp: universe_def)
  have e: "db = (WriteCanonicalHash ?h 0 (db_WriteHeader E g (db_WriteTd ?h 0 difficulty emptyStore)))\<lparr>cs_headBlock := ?h, cs_headHeader := ?h\<rparr>"
    using db n by (simp add: commitGenesis_def Let_def split: if_splits)
  have get: "db_GetHeader k m ?db = (if k = ?h \<and> m = 0 then Some g else None)" "db_GetTd k m ?db = (if k = ?h \<and> m = 0 then Some difficulty else None)"
    "mget (cs_numbers ?db) k = (if k = ?h then Some 0 else None)" "mget (cs_canon ?db) m = (if m = 0 then Some ?h else None)" "cs_headBlock ?db = ?h" for k m
    by (auto simp: e Let_def db_WriteHeader_def db_WriteTd_def WriteCanonicalHash_def emptyStore_def db_GetHeader_def db_GetTd_def n)
  have kn: "known E ?db x \<longleftrightarrow> x = g" for x by (auto simp: known_def get n)
  have s: "store_ok E H g ?db" by (auto simp: store_ok_def kn get n gH split: if_splits)
  have z: "(of_nat m :: u64) = 0 \<longleftrightarrow> m = 0" if "m < 2 ^ 64" for m using number_inj [OF that, of 0] by simp
  have can: "canonical_ok E g ?db g" by (auto simp: canonical_ok_def atNumber_def kn height_def n canonOf_def get z)
  have mis: "0 \<noteq> missingNumber" by (simp add: missingNumber_def)
  define hc where "hc = \<lparr>hc_db = ?db, hc_genesis = g, hc_current = g, hc_currentHash = ?h, hc_headerCache = [(?h, g)], hc_tdCache = [], hc_numberCache = [(?h, 0)]\<rparr>"
  have "NewHeaderChain E ?db = Some hc"
    using h mis by (simp add: NewHeaderChain_def Let_def GetCanonicalHash_def get hc_GetHeaderByHash_def hc_GetBlockNumber_def lru_Get_def mget_Cons
      db_GetBlockNumber_def lru_Add_def mhas_def numberCacheLimit_def hc_GetHeader_def mdel_def hc_def)
  moreover have "caches_ok E hc" by (simp add: caches_ok_def lr.holds_def hc_def mget_Cons kn n)
  moreover have "hc_ok E H hc" using s can \<open>caches_ok E hc\<close> by (auto simp: hc_ok_def hc_def kn)
  ultimately show ?thesis using kn by (intro exI [of _ hc]) (simp add: hc_def)
qed

inductive hc_reach :: "engEnv \<Rightarrow> Header set \<Rightarrow> Header \<Rightarrow> HeaderChain \<Rightarrow> bool" for E :: engEnv and H :: "Header set" and g :: Header where
  reach_start: "commitGenesis E difficulty g emptyStore = Some db \<Longrightarrow> NewHeaderChain E db = Some hc \<Longrightarrow> hc_reach E H g hc"
| reach_write: "hc_reach E H g hc \<Longrightarrow> x \<in> H \<Longrightarrow> hc_WriteHeader E coin x hc = Inr (r, hc') \<Longrightarrow> hc_reach E H g hc'"
| reach_import: "hc_reach E H g hc \<Longrightarrow> set xs \<subseteq> H \<Longrightarrow> hc_InsertHeaderChain E interrupt coins xs hc = Inr (e, hc') \<Longrightarrow> hc_reach E H g hc'"
| reach_get: "hc_reach E H g hc \<Longrightarrow> hc_GetHeader h n hc = (y, hc') \<Longrightarrow> hc_reach E H g hc'"
| reach_td: "hc_reach E H g hc \<Longrightarrow> hc_GetTd h n hc = (t, hc') \<Longrightarrow> hc_reach E H g hc'"

lemma insertHeaders_ok:
  assumes u: "universe E H g" and "hc_ok E H hc" and "hc_genesis hc = g" and "set xs \<subseteq> H"
  shows "\<exists>e hc'. insertHeaders E interrupt coins i xs hc = Inr (e, hc') \<and> hc_ok E H hc' \<and> hc_genesis hc' = g"
  using assms(2-)
proof (induction xs arbitrary: i hc)
  case (Cons x xs)
  obtain y hc1 where r: "hc_GetHeader (ZKHashBlock E x) (numberOf x) hc = (y, hc1)" by fastforce
  have s: "store_ok E H g (hc_db hc)" "caches_ok E hc" using Cons.prems by (auto simp: hc_ok_def)
  have "reads E hc hc1" using hc_GetHeader_reads [OF s r] by blast
  then have ok1: "hc_ok E H hc1" "hc_genesis hc1 = g" using hc_reads_ok [OF Cons.prems(1)] Cons.prems(2) by auto
  obtain s hc2 where w: "hc_WriteHeader E (coins i) x hc1 = Inr (s, hc2)" "hc_ok E H hc2" "hc_genesis hc2 = g"
    using hc_WriteHeader_ok [of E H hc1 x "coins i"] u ok1 Cons.prems(3) by auto
  show ?case using Cons.IH [OF ok1, of "Suc i"] Cons.IH [OF w(2,3), of "Suc i"] Cons.prems r w ok1
    by (cases "interrupt i"; cases "y = None"; cases s) auto
qed simp

lemma hc_reach_ok:
  assumes "hc_reach E H g hc" and u: "universe E H g"
  shows "hc_ok E H hc \<and> hc_genesis hc = g"
  using assms(1)
proof (induction rule: hc_reach.induct)
  case (reach_start difficulty db hc)
  then show ?case using new_chain_db [OF u] by fastforce
next
  case (reach_write hc x coin r hc')
  then show ?case using hc_WriteHeader_ok [of E H hc x coin] u by auto
next
  case (reach_import hc xs interrupt coins e hc')
  then show ?case using insertHeaders_ok [OF u, of hc xs interrupt coins 0] by (auto simp: hc_InsertHeaderChain_def split: if_splits)
next
  case (reach_get hc h n y hc')
  then show ?case using hc_GetHeader_reads [of E H g hc h n y hc'] hc_reads_ok [of E H hc hc'] by (auto simp: hc_ok_def)
next
  case (reach_td hc h n t hc')
  then show ?case using hc_GetTd_reads [of E H g hc h n t hc'] hc_reads_ok [of E H hc hc'] by (auto simp: hc_ok_def)
qed

end
