(* ===== verification/Chain_Rewind.thy ===== *)
theory Chain_Rewind
  imports Chain_Write
begin

text \<open>
  The canonical chain as the database shows it, and rewinding: \<open>SetHead\<close> makes an earlier canonical header the current one and removes
  the numbers above it.
\<close>

section \<open>The canonical chain in the database\<close>

lemma canon_word: "canonOf db (unat n) = mget (cs_canon db) n"
  by (simp add: canonOf_def)

lemma number_small: "unat (n :: u64) < 2 ^ 64"
  using unsigned_less [of n] by simp

lemma atNumber_get:
  assumes "atNumber E db (unat n) y"
  shows "GetCanonicalHash n db = ZKHashBlock E y" and "db_GetHeader (ZKHashBlock E y) n db = Some y" and "numberOf y = n"
proof -
  show n: "numberOf y = n" using assms by (simp add: atNumber_def height_def word_unat_eq_iff)
  show "GetCanonicalHash n db = ZKHashBlock E y" using assms by (simp add: atNumber_def canon_word GetCanonicalHash_def)
  show "db_GetHeader (ZKHashBlock E y) n db = Some y" using assms n by (simp add: atNumber_def known_def)
qed

lemma chained_numbers:
  assumes "chained E g db x" and "n \<le> numberOf x"
  shows "\<exists>y. atNumber E db (unat n) y \<and> (n \<noteq> 0 \<longrightarrow> GetCanonicalHash (n - 1) db = h_ParentHash y)"
proof (cases "n = 0")
  case True
  then show ?thesis using assms(1) by (auto simp: chained_def)
next
  case False
  then have "0 < unat n" "unat n \<le> height x" using assms(2) by (auto simp: height_def word_le_nat_alt unat_gt_0)
  then obtain y where y: "atNumber E db (unat n) y" "canonOf db (unat n - 1) = Some (h_ParentHash y)" using assms(1) unfolding chained_def by blast
  have "unat n - 1 = unat (n - 1)" using False by (simp add: unat_minus_one)
  then show ?thesis using y by (auto simp: canon_word GetCanonicalHash_def)
qed

lemma canonical_numbers:
  "canonical_ok E g db x \<Longrightarrow> n \<le> numberOf x \<Longrightarrow> \<exists>y. atNumber E db (unat n) y \<and> (n \<noteq> 0 \<longrightarrow> GetCanonicalHash (n - 1) db = h_ParentHash y)"
  unfolding canonical_chained by (elim conjE, rule chained_numbers)

lemma canonical_above: "canonical_ok E g db x \<Longrightarrow> numberOf x < n \<Longrightarrow> GetCanonicalHash n db = 0"
  using number_small [of n] by (simp add: canonical_ok_def height_def word_less_nat_alt GetCanonicalHash_def canon_word [symmetric])

lemma canonical_parent:
  assumes u: "universe E H g" and s: "store_ok E H g db" and c: "canonical_ok E g db t" and x: "atNumber E db (Suc n) x" "Suc n \<le> height t"
  shows "\<exists>p. atNumber E db n p \<and> h_ParentHash x = ZKHashBlock E p"
proof -
  obtain y where y: "atNumber E db (Suc n) y" "canonOf db n = Some (h_ParentHash y)" 
  proof -
    have "0 < Suc n \<longrightarrow> Suc n \<le> height t \<longrightarrow> (\<exists>y. atNumber E db (Suc n) y \<and> canonOf db (Suc n - 1) = Some (h_ParentHash y))"
      using c unfolding canonical_ok_def by blast
    then show thesis using that x(2) by auto
  qed
  have "y = x" using x(1) y(1) known_same [OF u s] by (auto simp: atNumber_def)
  moreover obtain p where "atNumber E db n p"
  proof (cases n)
    case 0
    then show thesis using c that by (auto simp: canonical_ok_def)
  next
    case (Suc k)
    then have "0 < n" "n \<le> height t" using x(2) by auto
    then show thesis using c that unfolding canonical_ok_def by blast
  qed
  ultimately show ?thesis using y(2) by (auto simp: atNumber_def)
qed

section \<open>Rewinding\<close>

text \<open>Headers in the cache may have been deleted from the database; they are still those of the chain that is rewound.\<close>

lemma rewindHeaders_spec:
  assumes u: "universe E H g" and s: "store_ok E H g db" and c: "canonical_ok E g db t"
    and "atNumber E db (height x) x" and "height x \<le> height t" and "height x < k"
    and "lr.holds (\<lambda>h y. h = ZKHashBlock E y \<and> known E db y) (hc_headerCache hc)" and "\<forall>y. known E db y \<longrightarrow> height y \<le> height x \<longrightarrow> known E (hc_db hc) y"
  shows "\<exists>y hc'. rewindHeaders E k head (Some x) hc = Inr (Some y, hc') \<and> atNumber E db (min (height x) (unat head)) y \<and>
    cs_canon (hc_db hc') = cs_canon (hc_db hc) \<and> hc_genesis hc' = hc_genesis hc \<and> (\<forall>y. known E db y \<longrightarrow> height y \<le> min (height x) (unat head) \<longrightarrow> known E (hc_db hc') y)"
  using assms(4-)
proof (induction k arbitrary: x hc)
  case (Suc k)
  let ?Q = "\<lambda>h y. h = ZKHashBlock E y \<and> known E db y"
  show ?case
  proof (cases "numberOf x > head")
    case False
    then have "min (height x) (unat head) = height x" by (simp add: height_def word_less_nat_alt)
    then show ?thesis using False Suc.prems by auto
  next
    case True
    then obtain n where n: "height x = Suc n" "unat head \<le> n" by (cases "height x") (auto simp: height_def word_less_nat_alt)
    obtain p where p: "atNumber E db n p" "h_ParentHash x = ZKHashBlock E p" using canonical_parent [OF u s c, of n x] Suc.prems(1,2) n(1) by auto
    have kp: "known E db p" "height p = n" and kx: "known E db x" using p Suc.prems(1) by (auto simp: atNumber_def)
    have np: "numberOf x - 1 = numberOf p" using parent_height(2) [OF u known_in [OF s kx] known_in [OF s kp(1)] p(2)] .
    define hc1 where "hc1 = hc\<lparr>hc_db := DeleteTd (ZKHashBlock E x) (numberOf x) (DeleteHeader (ZKHashBlock E x) (numberOf x) (hc_db hc))\<rparr>"
    have k1: "known E (hc_db hc1) y" if "known E db y" "height y \<le> n" for y
    proof -
      have "numberOf y \<noteq> numberOf x" using that(2) n(1) by (auto simp: height_def)
      then show ?thesis using Suc.prems(5) that n(1) by (simp add: hc1_def known_def db_GetHeader_def DeleteTd_def DeleteHeader_def)
    qed
    obtain f c' where l: "lru_Get (ZKHashBlock E p) (hc_headerCache hc) = (f, c')" by fastforce
    have Q': "lr.holds ?Q c'" using lr.holds_get [OF Suc.prems(4), of "ZKHashBlock E p"] l by simp
    obtain hc2 where r: "hc_GetHeader (ZKHashBlock E p) (numberOf p) hc1 = (Some p, hc2)" "hc_db hc2 = hc_db hc1" "hc_genesis hc2 = hc_genesis hc" "lr.holds ?Q (hc_headerCache hc2)"
    proof (cases f)
      case (Some y)
      then have "y = p" using lr.holds_hit [OF Suc.prems(4), of "ZKHashBlock E p" y] l known_same [OF u s _ kp(1)] by auto
      then show thesis using that [of "hc1\<lparr>hc_headerCache := c'\<rparr>"] l Some Q' by (simp add: hc_GetHeader_def hc1_def)
    next
      case None
      have "db_GetHeader (ZKHashBlock E p) (numberOf p) (hc_db hc1) = Some p" using k1 [OF kp(1)] kp(2) by (simp add: known_def)
      then show thesis using that [of "hc1\<lparr>hc_headerCache := lru_Add headerCacheLimit (ZKHashBlock E p) p c'\<rparr>"] l None lr.holds_add [OF Q', of "ZKHashBlock E p" p] kp(1)
        by (simp add: hc_GetHeader_def hc1_def)
    qed
    have mn: "min (height x) (unat head) = min (height p) (unat head)" using n kp(2) by simp
    have "\<exists>y hc'. rewindHeaders E k head (Some p) hc2 = Inr (Some y, hc') \<and> atNumber E db (min (height p) (unat head)) y \<and>
      cs_canon (hc_db hc') = cs_canon (hc_db hc2) \<and> hc_genesis hc' = hc_genesis hc2 \<and> (\<forall>y. known E db y \<longrightarrow> height y \<le> min (height p) (unat head) \<longrightarrow> known E (hc_db hc') y)"
      using p(1) kp(2) Suc.prems(2,3) n(1) r(2,4) k1 by (intro Suc.IH) auto
    moreover have "rewindHeaders E (Suc k) head (Some x) hc = rewindHeaders E k head (Some p) hc2" using True r(1) p(2) np by (simp add: Let_def hc1_def)
    moreover have "cs_canon (hc_db hc2) = cs_canon (hc_db hc)" by (simp add: r(2) hc1_def DeleteTd_def DeleteHeader_def)
    ultimately show ?thesis unfolding mn r(3) by simp
  qed
qed simp

lemma delete_numbers:
  assumes "\<forall>i\<in>set is. i < 2 ^ 64"
  shows "\<exists>c. fold (\<lambda>i db. DeleteCanonicalHash (of_nat i) db) is db = db\<lparr>cs_canon := c\<rparr> \<and>
    (\<forall>m<2 ^ 64. canonOf (db\<lparr>cs_canon := c\<rparr>) m = (if m \<in> set is then None else canonOf db m))"
  using assms
proof (induction "is" arbitrary: db)
  case Nil
  show ?case by (intro exI [of _ "cs_canon db"]) simp
next
  case (Cons i "is")
  let ?db = "DeleteCanonicalHash (of_nat i) db"
  have del: "canonOf ?db m = (if m = i then None else canonOf db m)" if "m < 2 ^ 64" for m
    using that Cons.prems by (auto simp: DeleteCanonicalHash_def canonOf_def number_inj)
  obtain c where c: "fold (\<lambda>i db. DeleteCanonicalHash (of_nat i) db) is ?db = ?db\<lparr>cs_canon := c\<rparr>"
    "\<forall>m<2 ^ 64. canonOf (?db\<lparr>cs_canon := c\<rparr>) m = (if m \<in> set is then None else canonOf ?db m)" using Cons by fastforce
  have "?db\<lparr>cs_canon := c\<rparr> = db\<lparr>cs_canon := c\<rparr>" by (simp add: DeleteCanonicalHash_def)
  then show ?case using c del by (intro exI [of _ c]) auto
qed

lemma hc_SetHead_spec:
  assumes u: "universe E H (hc_genesis hc)" and ok: "hc_ok E H hc" and h: "head \<le> numberOf (hc_current hc)"
  shows "\<exists>hc'. hc_SetHead E head hc = Inr hc' \<and> canonical_ok E (hc_genesis hc) (hc_db hc') (hc_current hc') \<and> numberOf (hc_current hc') = head \<and>
    hc_currentHash hc' = ZKHashBlock E (hc_current hc') \<and> cs_headHeader (hc_db hc') = ZKHashBlock E (hc_current hc') \<and>
    (\<forall>n\<le>head. GetCanonicalHash n (hc_db hc') = GetCanonicalHash n (hc_db hc))"
proof -
  let ?g = "hc_genesis hc" and ?db = "hc_db hc" and ?t = "hc_current hc"
  have s: "store_ok E H ?g ?db" and c: "canonical_ok E ?g ?db ?t" and q: "lr.holds (\<lambda>h y. h = ZKHashBlock E y \<and> known E ?db y) (hc_headerCache hc)"
    using ok by (auto simp: hc_ok_def caches_ok_def)
  have t: "atNumber E ?db (height ?t) ?t" using c by (simp add: canonical_ok_def)
  have le: "unat head \<le> height ?t" using h by (simp add: height_def word_le_nat_alt)
  then have mn: "min (height ?t) (unat head) = unat head" by simp
  from rewindHeaders_spec [OF u s c t _ _ q, of "height ?t + 1" head, unfolded mn] obtain y hc1 where
    r: "rewindHeaders E (height ?t + 1) head (Some ?t) hc = Inr (Some y, hc1)" "atNumber E ?db (unat head) y" "cs_canon (hc_db hc1) = cs_canon ?db"
    "hc_genesis hc1 = ?g" "\<forall>y. known E ?db y \<longrightarrow> height y \<le> unat head \<longrightarrow> known E (hc_db hc1) y" by auto
  have tH: "?t \<in> H" using t known_in [OF s] by (auto simp: atNumber_def)
  have small: "height ?t < 2 ^ 64 - 1" by (rule height_small [OF u tH])
  let ?is = "rev [unat head + 1..<height ?t + 1]"
  have "\<forall>i\<in>set ?is. i < 2 ^ 64" using small by auto
  from delete_numbers [OF this, of "hc_db hc1"] obtain cn where cn: "fold (\<lambda>i db. DeleteCanonicalHash (of_nat i) db) ?is (hc_db hc1) = (hc_db hc1)\<lparr>cs_canon := cn\<rparr>"
    "\<forall>m<2 ^ 64. canonOf ((hc_db hc1)\<lparr>cs_canon := cn\<rparr>) m = (if m \<in> set ?is then None else canonOf (hc_db hc1) m)" by blast
  define hc' where "hc' = hc1\<lparr>hc_db := (hc_db hc1)\<lparr>cs_canon := cn, cs_headHeader := ZKHashBlock E y\<rparr>, hc_current := y, hc_currentHash := ZKHashBlock E y,
    hc_headerCache := [], hc_tdCache := [], hc_numberCache := []\<rparr>"
  have e: "hc_SetHead E head hc = Inr hc'"
    using r(1) cn(1) by (simp add: hc_SetHead_def Let_def hc'_def height_def del: rewindHeaders.simps)
  have db': "hc_db hc' = (hc_db hc1)\<lparr>cs_canon := cn, cs_headHeader := ZKHashBlock E y\<rparr>" "hc_current hc' = y" by (simp_all add: hc'_def)
  have co: "canonOf (hc_db hc') m = (if unat head < m then None else canonOf ?db m)" if "m < 2 ^ 64" for m
  proof -
    have same: "canonOf (hc_db hc1) m = canonOf ?db m" by (simp add: canonOf_def r(3))
    have "canonOf ?db m = None" if "height ?t < m" using c that \<open>m < 2 ^ 64\<close> by (simp add: canonical_ok_def)
    then show ?thesis using cn(2) that same by (auto simp: db')
  qed
  have hy: "height y = unat head" using r(2) by (simp add: atNumber_def)
  have keep: "atNumber E (hc_db hc') m z" if "atNumber E ?db m z" "m \<le> unat head" for m z
    using that co [of m] small le r(5) by (auto simp: atNumber_def db')
  have "canonical_ok E ?g (hc_db hc') y" unfolding canonical_ok_def hy
  proof (intro conjI allI impI)
    show "atNumber E (hc_db hc') (unat head) y" using keep r(2) by simp
    show "atNumber E (hc_db hc') 0 ?g" using keep c by (simp add: canonical_ok_def)
    show "canonOf (hc_db hc') m = None" if "unat head < m" "m < 2 ^ 64" for m using co that by simp
    fix m assume m: "0 < m" "m \<le> unat head"
    then obtain z where z: "atNumber E ?db m z" "canonOf ?db (m - 1) = Some (h_ParentHash z)" using c le unfolding canonical_ok_def by (meson le_trans)
    then show "\<exists>z. atNumber E (hc_db hc') m z \<and> canonOf (hc_db hc') (m - 1) = Some (h_ParentHash z)" using keep m co [of "m - 1"] small le by auto
  qed
  moreover have "GetCanonicalHash n (hc_db hc') = GetCanonicalHash n ?db" if "n \<le> head" for n
    using co [of "unat n"] that number_small [of n] by (simp add: GetCanonicalHash_def canon_word word_le_nat_alt)
  moreover have "numberOf y = head" using hy by (simp add: height_def word_unat_eq_iff)
  moreover have "hc_currentHash hc' = ZKHashBlock E y" "cs_headHeader (hc_db hc') = ZKHashBlock E y" by (simp_all add: hc'_def)
  ultimately show ?thesis using e db'(2) by (intro exI [of _ hc']) auto
qed

lemma canonical_current:
  assumes "canonical_ok E g db x"
  shows "GetCanonicalHash (numberOf x) db = ZKHashBlock E x" and "db_GetHeader (ZKHashBlock E x) (numberOf x) db = Some x"
proof -
  have "atNumber E db (unat (numberOf x)) x" using assms by (simp add: canonical_ok_def height_def)
  from atNumber_get [OF this] show "GetCanonicalHash (numberOf x) db = ZKHashBlock E x" "db_GetHeader (ZKHashBlock E x) (numberOf x) db = Some x" by simp_all
qed

end
