(* ===== verification/Chain_Properties.thy ===== *)
theory Chain_Properties
  imports Chain_Rewind Eng_Properties
begin

text \<open>
  The claims about the chain of headers: the canonical numbers of every reachable chain, the choice of the current header, writing
  a header, and rewinding.
\<close>

section \<open>An example chain\<close>

text \<open>A first header, two headers on it with a child each, and a later child.\<close>

definition ch0 :: Header where "ch0 = exHeader 0 100 0 []"
definition chA1 :: Header where "chA1 = exHeader 100 201 1 []"
definition chA2 :: Header where "chA2 = exHeader 201 202 2 []"
definition chB2 :: Header where "chB2 = exHeader 201 302 2 []"
definition chB3 :: Header where "chB3 = exHeader 302 303 3 []"

definition chAll :: "Header set" where "chAll = {ch0, chA1, chA2, chB2, chB3}"

lemmas ch_defs = ch0_def chA1_def chA2_def chB2_def chB3_def

lemma ch_universe: "universe exEng chAll ch0"
  by (auto simp: universe_def chAll_def ch_defs inj_on_def)

text \<open>The chain after writing some headers, the coin always falling on the side of the old head.\<close>

fun chWrite :: "Header list \<Rightarrow> HeaderChain \<Rightarrow> HeaderChain res" where
  "chWrite [] hc = Inr hc"
| "chWrite (x # xs) hc = bind_res (hc_WriteHeader exEng False x hc) (\<lambda>(r, hc). chWrite xs hc)"

definition chStart :: HeaderChain where
  "chStart = the (NewHeaderChain exEng (the (commitGenesis exEng 2 ch0 emptyStore)))"

lemma ch_start: "hc_reach exEng chAll ch0 chStart"
proof -
  obtain db where db: "commitGenesis exEng 2 ch0 emptyStore = Some db" by (simp add: commitGenesis_def ch0_def Let_def)
  then obtain hc where hc: "NewHeaderChain exEng db = Some hc" using new_chain_db [OF ch_universe] by blast
  have "hc_reach exEng chAll ch0 hc" by (rule reach_start [OF db hc])
  then show ?thesis by (simp add: chStart_def db hc)
qed

lemma ch_write: "hc_reach exEng chAll ch0 hc \<Longrightarrow> set xs \<subseteq> chAll \<Longrightarrow> chWrite xs hc = Inr hc' \<Longrightarrow> hc_reach exEng chAll ch0 hc'"
proof (induction xs arbitrary: hc)
  case (Cons x xs)
  then obtain r hc1 where w: "hc_WriteHeader exEng False x hc = Inr (r, hc1)" "chWrite xs hc1 = Inr hc'" by (auto elim: bind_res_InrE)
  have "x \<in> chAll" "set xs \<subseteq> chAll" using Cons.prems(2) by auto
  then show ?case using Cons.IH [OF reach_write [OF Cons.prems(1) _ w(1)] _ w(2)] by blast
qed simp

section \<open>The canonical chain\<close>

text \<open>C25: In every chain of headers that starts with a committed first header and grows by \<open>WriteHeader\<close> and \<open>InsertHeaderChain\<close>,
  from headers that their hashes identify and whose numbers follow their parents', each number up to that of the current header is assigned
  to a stored header whose parent has the number before; the numbers start at the first header, the current
  header has its own number, and no higher number is assigned, whatever reorganisations have happened.
\<close>

theorem canonical_chain_linked:
  assumes "hc_reach E H g hc" and "universe E H g"
  shows "GetCanonicalHash 0 (hc_db hc) = ZKHashBlock E g \<and> GetCanonicalHash (numberOf (hc_current hc)) (hc_db hc) = ZKHashBlock E (hc_current hc) \<and>
    (\<forall>n>numberOf (hc_current hc). GetCanonicalHash n (hc_db hc) = 0) \<and>
    (\<forall>n\<le>numberOf (hc_current hc). \<exists>y. db_GetHeader (GetCanonicalHash n (hc_db hc)) n (hc_db hc) = Some y \<and> numberOf y = n \<and>
       (n \<noteq> 0 \<longrightarrow> GetCanonicalHash (n - 1) (hc_db hc) = h_ParentHash y))"
proof -
  have c: "canonical_ok E g (hc_db hc) (hc_current hc)" using hc_reach_ok [OF assms] by (auto simp: hc_ok_def)
  have "atNumber E (hc_db hc) (unat (0 :: u64)) g" "atNumber E (hc_db hc) (unat (numberOf (hc_current hc))) (hc_current hc)"
    using c by (auto simp: canonical_ok_def height_def)
  note ends = this [THEN atNumber_get(1)]
  have "\<exists>y. db_GetHeader (GetCanonicalHash n (hc_db hc)) n (hc_db hc) = Some y \<and> numberOf y = n \<and> (n \<noteq> 0 \<longrightarrow> GetCanonicalHash (n - 1) (hc_db hc) = h_ParentHash y)"
    if n: "n \<le> numberOf (hc_current hc)" for n
  proof -
    obtain y where y: "atNumber E (hc_db hc) (unat n) y" "n \<noteq> 0 \<longrightarrow> GetCanonicalHash (n - 1) (hc_db hc) = h_ParentHash y" using canonical_numbers [OF c n] by blast
    then show ?thesis using atNumber_get [OF y(1)] by (intro exI [of _ y]) simp
  qed
  then show ?thesis using ends canonical_above [OF c] by blast
qed

lemma canonical_chain_linked_witness:
  "\<exists>hc. chWrite [chA1, chA2, chB2, chB3] chStart = Inr hc \<and> numberOf (hc_current hc) = 3 \<and> GetCanonicalHash 2 (hc_db hc) = 302 \<and> GetCanonicalHash 4 (hc_db hc) = 0"
proof -
  have "(case chWrite [chA1, chA2, chB2, chB3] chStart of Inr hc \<Rightarrow> numberOf (hc_current hc) = 3 \<and> GetCanonicalHash 2 (hc_db hc) = 302 | Inl _ \<Rightarrow> False)" by code_simp
  then obtain hc where hc: "chWrite [chA1, chA2, chB2, chB3] chStart = Inr hc" "numberOf (hc_current hc) = 3" "GetCanonicalHash 2 (hc_db hc) = 302" by (auto split: sum.splits)
  have "hc_reach exEng chAll ch0 hc" by (rule ch_write [OF ch_start _ hc(1)]) (simp add: chAll_def)
  then have "GetCanonicalHash 4 (hc_db hc) = 0" using canonical_chain_linked [OF _ ch_universe, of hc] hc(2) by simp
  then show ?thesis using hc by blast
qed

text \<open>No stored header of a reachable chain has a higher total difficulty than the current header, and the total difficulty of
  every stored header but the first is that of its parent, which is stored, plus its own difficulty.
\<close>

theorem current_header_heaviest:
  assumes "hc_reach E H g hc" and "universe E H g" and "db_GetHeader h n (hc_db hc) = Some x"
  shows "\<exists>td top. db_GetTd h n (hc_db hc) = Some td \<and> db_GetTd (hc_currentHash hc) (numberOf (hc_current hc)) (hc_db hc) = Some top \<and> td \<le> top \<and>
    (x \<noteq> g \<longrightarrow> (\<exists>p m. db_GetHeader (h_ParentHash x) m (hc_db hc) = Some p \<and> db_GetTd (h_ParentHash x) m (hc_db hc) = Some (td - h_Difficulty x)))"
proof -
  let ?db = "hc_db hc"
  have ok: "hc_ok E H hc" "hc_genesis hc = g" using hc_reach_ok [OF assms(1,2)] by auto
  then have s: "store_ok E H g ?db" and top: "heaviest E ?db (hc_current hc)" and kt: "known E ?db (hc_current hc)" and ch: "hc_currentHash hc = ZKHashBlock E (hc_current hc)"
    by (auto simp: hc_ok_heaviest canonical_ok_def atNumber_def)
  have x: "known E ?db x" "h = ZKHashBlock E x" "n = numberOf x" using found_known [OF s assms(3)] by auto
  obtain td top where t: "tdOf E ?db x = Some td" "tdOf E ?db (hc_current hc) = Some top" using known_td [OF s x(1)] known_td [OF s kt] by blast
  have "\<exists>p td'. known E ?db p \<and> h_ParentHash x = ZKHashBlock E p \<and> tdOf E ?db p = Some td' \<and> tdOf E ?db x = Some (td' + h_Difficulty x)" if "x \<noteq> g"
    using s x(1) that unfolding store_ok_def by blast
  then have "\<exists>p. db_GetHeader (h_ParentHash x) (numberOf p) ?db = Some p \<and> db_GetTd (h_ParentHash x) (numberOf p) ?db = Some (td - h_Difficulty x)" if "x \<noteq> g"
    using that t(1) by (fastforce simp: known_def tdOf_def)
  moreover have "td \<le> top" using top x(1) t unfolding heaviest_def by blast
  ultimately show ?thesis using t x ch by (auto simp: tdOf_def)
qed

lemma current_header_heaviest_witness:
  "\<exists>hc. chWrite [chA1, chA2, chB2] chStart = Inr hc \<and> hc_current hc = chA2 \<and> (\<exists>td top. db_GetTd 302 2 (hc_db hc) = Some td \<and> db_GetTd 202 2 (hc_db hc) = Some top \<and> td \<le> top)"
proof -
  have "(case chWrite [chA1, chA2, chB2] chStart of Inr hc \<Rightarrow> db_GetHeader 302 2 (hc_db hc) = Some chB2 \<and> hc_current hc = chA2 \<and> hc_currentHash hc = 202 | Inl _ \<Rightarrow> False)" by code_simp
  then obtain hc where hc: "chWrite [chA1, chA2, chB2] chStart = Inr hc" "db_GetHeader 302 2 (hc_db hc) = Some chB2" "hc_current hc = chA2" "hc_currentHash hc = 202" by (auto split: sum.splits)
  have "hc_reach exEng chAll ch0 hc" by (rule ch_write [OF ch_start _ hc(1)]) (simp add: chAll_def)
  then show ?thesis using current_header_heaviest [OF _ ch_universe hc(2)] hc by (auto simp: chA2_def)
qed

section \<open>Writing\<close>

text \<open>C30: Writing a header to a reachable chain returns, whatever the coin. When the parent is stored the header is stored too, everything stored before still is, and
  the header becomes the current one or the current one stays, as the status says; otherwise the error is the unknown ancestor
  and the database does not change.
\<close>

theorem header_written:
  assumes "hc_reach E H g hc" and "universe E H g" and "x \<in> H"
  shows "\<exists>r hc'. hc_WriteHeader E coin x hc = Inr (r, hc') \<and>
    (if \<exists>n. db_GetHeader (h_ParentHash x) n (hc_db hc) \<noteq> None
     then db_GetHeader (ZKHashBlock E x) (numberOf x) (hc_db hc') = Some x \<and>
       (\<forall>h n y. db_GetHeader h n (hc_db hc) = Some y \<longrightarrow> db_GetHeader h n (hc_db hc') = Some y \<and> db_GetTd h n (hc_db hc') = db_GetTd h n (hc_db hc)) \<and>
       (r = Inr CanonStatTy \<and> hc_current hc' = x \<or> r = Inr SideStatTy \<and> hc_current hc' = hc_current hc)
     else r = Inl UnknownAncestor \<and> hc_db hc' = hc_db hc)"
proof -
  have ok: "hc_ok E H hc" "hc_genesis hc = g" using hc_reach_ok [OF assms(1,2)] by auto
  then have s: "store_ok E H g (hc_db hc)" and u: "universe E H (hc_genesis hc)" using assms(2) by (auto simp: hc_ok_def)
  note found = found_known [OF s]
  show ?thesis
  proof (cases "\<exists>n. db_GetHeader (h_ParentHash x) n (hc_db hc) \<noteq> None")
    case True
    then obtain p where "known E (hc_db hc) p" "h_ParentHash x = ZKHashBlock E p" using found by blast
    from write_known [OF u ok(1) assms(3) this, of coin] obtain st hc' where w: "hc_WriteHeader E coin x hc = Inr (Inr st, hc')"
      "\<forall>y. known E (hc_db hc') y \<longleftrightarrow> y = x \<or> known E (hc_db hc) y" "\<forall>y. known E (hc_db hc) y \<longrightarrow> tdOf E (hc_db hc') y = tdOf E (hc_db hc) y"
      "hc_current hc' = (if st = CanonStatTy then x else hc_current hc)" "st \<noteq> NonStatTy" by blast
    have "db_GetHeader h n (hc_db hc') = Some y \<and> db_GetTd h n (hc_db hc') = db_GetTd h n (hc_db hc)" if "db_GetHeader h n (hc_db hc) = Some y" for h n y
      using found [OF that] w(2,3) by (auto simp: known_def tdOf_def)
    moreover have "db_GetHeader (ZKHashBlock E x) (numberOf x) (hc_db hc') = Some x" using w(2) by (simp add: known_def)
    ultimately show ?thesis using True w(1,4,5) by (intro exI [of _ "Inr st"] exI [of _ hc']) (cases st; simp)
  next
    case False
    then have "\<nexists>p. known E (hc_db hc) p \<and> h_ParentHash x = ZKHashBlock E p" by (auto simp: known_def)
    from write_unknown [OF u ok(1) assms(3) this, of coin] show ?thesis using False by (auto simp: reads_def)
  qed
qed

lemma header_written_witness:
  "(\<exists>r hc'. hc_WriteHeader exEng False chA1 chStart = Inr (r, hc') \<and> db_GetHeader 201 1 (hc_db hc') = Some chA1) \<and>
   (\<exists>hc'. hc_WriteHeader exEng False chB3 chStart = Inr (Inl UnknownAncestor, hc') \<and> hc_db hc' = hc_db chStart)"
proof -
  have e: "h_ParentHash chA1 = 100" "ZKHashBlock exEng chA1 = 201" "numberOf chA1 = 1" "h_ParentHash chB3 = 302" by (simp_all add: ch_defs)
  have "db_GetHeader 100 0 (hc_db chStart) \<noteq> None" by code_simp
  then have "\<exists>n. db_GetHeader 100 n (hc_db chStart) \<noteq> None" by blast
  moreover have "db_GetHeader 302 n (hc_db chStart) = None" for n
  proof -
    have "cs_headers (hc_db chStart) = [((0, 100), ch0)]" by code_simp
    then show ?thesis by (simp add: db_GetHeader_def mget_def)
  qed
  ultimately show ?thesis using header_written [OF ch_start ch_universe, of chA1 False, unfolded e] header_written [OF ch_start ch_universe, of chB3 False, unfolded e]
    by (simp add: chAll_def) blast
qed

section \<open>Rewinding\<close>

text \<open>C31: Rewinding a reachable chain to a number that is not above the current one returns a chain whose current header is the header that was canonical
  at that number: its hash is the canonical hash of the number before and after, it is stored, and it is noted as the head in memory and in the
  database. The canonical numbers are those of before up to it and none above; they still link the current header to the first one through
  stored headers.
\<close>

theorem set_head_rewinds:
  assumes "hc_reach E H g hc" and "universe E H g" and "head \<le> numberOf (hc_current hc)"
  shows "\<exists>hc'. hc_SetHead E head hc = Inr hc' \<and> numberOf (hc_current hc') = head \<and>
    ZKHashBlock E (hc_current hc') = GetCanonicalHash head (hc_db hc) \<and>
    db_GetHeader (GetCanonicalHash head (hc_db hc)) head (hc_db hc') = Some (hc_current hc') \<and>
    hc_currentHash hc' = GetCanonicalHash head (hc_db hc) \<and> cs_headHeader (hc_db hc') = GetCanonicalHash head (hc_db hc) \<and>
    (\<forall>n. GetCanonicalHash n (hc_db hc') = (if n \<le> head then GetCanonicalHash n (hc_db hc) else 0)) \<and>
    (\<forall>n\<le>head. \<exists>y. db_GetHeader (GetCanonicalHash n (hc_db hc')) n (hc_db hc') = Some y \<and> (n \<noteq> 0 \<longrightarrow> GetCanonicalHash (n - 1) (hc_db hc') = h_ParentHash y))"
proof -
  have ok: "hc_ok E H hc" "hc_genesis hc = g" using hc_reach_ok [OF assms(1,2)] by auto
  from hc_SetHead_spec [of E H hc head] obtain hc' where r: "hc_SetHead E head hc = Inr hc'" "canonical_ok E g (hc_db hc') (hc_current hc')" "numberOf (hc_current hc') = head"
    "\<forall>n\<le>head. GetCanonicalHash n (hc_db hc') = GetCanonicalHash n (hc_db hc)"
    "hc_currentHash hc' = ZKHashBlock E (hc_current hc')" "cs_headHeader (hc_db hc') = ZKHashBlock E (hc_current hc')" using ok assms(2,3) by auto
  have cur: "ZKHashBlock E (hc_current hc') = GetCanonicalHash head (hc_db hc)" "db_GetHeader (ZKHashBlock E (hc_current hc')) head (hc_db hc') = Some (hc_current hc')"
    using canonical_current [OF r(2)] r(3,4) by auto
  have "GetCanonicalHash n (hc_db hc') = (if n \<le> head then GetCanonicalHash n (hc_db hc) else 0)" for n
    using r(4) canonical_above [OF r(2), of n] r(3) by auto
  moreover have "\<exists>y. db_GetHeader (GetCanonicalHash n (hc_db hc')) n (hc_db hc') = Some y \<and> (n \<noteq> 0 \<longrightarrow> GetCanonicalHash (n - 1) (hc_db hc') = h_ParentHash y)" if "n \<le> head" for n
  proof -
    obtain y where y: "atNumber E (hc_db hc') (unat n) y" "n \<noteq> 0 \<longrightarrow> GetCanonicalHash (n - 1) (hc_db hc') = h_ParentHash y"
      using canonical_numbers [OF r(2), of n] r(3) \<open>n \<le> head\<close> by auto
    then show ?thesis using atNumber_get [OF y(1)] by (intro exI [of _ y]) simp
  qed
  ultimately show ?thesis using r(1,3,5,6) cur by (intro exI [of _ hc']) simp
qed

lemma set_head_rewinds_witness:
  "\<exists>hc hc'. chWrite [chA1, chA2] chStart = Inr hc \<and> hc_SetHead exEng 1 hc = Inr hc' \<and> hc_currentHash hc' = 201 \<and> GetCanonicalHash 1 (hc_db hc') = 201 \<and> GetCanonicalHash 2 (hc_db hc') = 0"
proof -
  have "(case chWrite [chA1, chA2] chStart of Inr hc \<Rightarrow> numberOf (hc_current hc) = 2 \<and> GetCanonicalHash 1 (hc_db hc) = 201 | Inl _ \<Rightarrow> False)" by code_simp
  then obtain hc where hc: "chWrite [chA1, chA2] chStart = Inr hc" "numberOf (hc_current hc) = 2" "GetCanonicalHash 1 (hc_db hc) = 201" by (auto split: sum.splits)
  have "hc_reach exEng chAll ch0 hc" by (rule ch_write [OF ch_start _ hc(1)]) (simp add: chAll_def)
  moreover have "(1 :: u64) \<le> numberOf (hc_current hc)" by (simp add: hc(2))
  ultimately obtain hc' where r: "hc_SetHead exEng 1 hc = Inr hc'" "hc_currentHash hc' = GetCanonicalHash 1 (hc_db hc)" "\<forall>n. GetCanonicalHash n (hc_db hc') = (if n \<le> 1 then GetCanonicalHash n (hc_db hc) else 0)"
    using set_head_rewinds [OF _ ch_universe] by blast
  have "GetCanonicalHash 1 (hc_db hc') = 201" "GetCanonicalHash 2 (hc_db hc') = 0" using r(3) hc(3) by (simp_all add: word_le_nat_alt)
  then show ?thesis using hc(1,3) r(1,2) by auto
qed

text \<open>Rewinding removes the headers of the canonical chain only. A header on a side branch stays in the database with its total
  difficulty when its parent is removed, and a child of it then passes the check for a known ancestor, has the highest total difficulty, and
  the renumbering of its ancestors dereferences the missing header: writing it ends in a panic.
\<close>

theorem rewound_branch_panics:
  "\<exists>hc hc'. chWrite [chA1, chA2, chB2] chStart = Inr hc \<and> hc_reach exEng chAll ch0 hc \<and> hc_SetHead exEng 0 hc = Inr hc' \<and>
    db_GetHeader 302 2 (hc_db hc') = Some chB2 \<and> db_GetHeader 201 1 (hc_db hc') = None \<and> hc_WriteHeader exEng False chB3 hc' = Inl (Panic ''nil Header'')"
proof -
  have "(case chWrite [chA1, chA2, chB2] chStart of Inr hc \<Rightarrow> (case hc_SetHead exEng 0 hc of Inr hc' \<Rightarrow>
      db_GetHeader 302 2 (hc_db hc') = Some chB2 \<and> db_GetHeader 201 1 (hc_db hc') = None \<and> hc_WriteHeader exEng False chB3 hc' = Inl (Panic ''nil Header'') | Inl _ \<Rightarrow> False) | Inl _ \<Rightarrow> False)" by code_simp
  then obtain hc hc' where hc: "chWrite [chA1, chA2, chB2] chStart = Inr hc" "hc_SetHead exEng 0 hc = Inr hc'" "db_GetHeader 302 2 (hc_db hc') = Some chB2"
    "db_GetHeader 201 1 (hc_db hc') = None" "hc_WriteHeader exEng False chB3 hc' = Inl (Panic ''nil Header'')" by (auto split: sum.splits)
  moreover have "hc_reach exEng chAll ch0 hc" by (rule ch_write [OF ch_start _ hc(1)]) (simp add: chAll_def)
  ultimately show ?thesis by blast
qed

end
