(* ===== verification/Chain_Blocks.thy ===== *)
theory Chain_Blocks
  imports Chain_Headers Cross_Proof
begin

text \<open>
  The chain of blocks (\<open>core/blockchain.go\<close>), its part of the database (\<open>core/database_util.go\<close>) and the validation of
  blocks (\<open>core/block_validator.go\<close>): reading blocks through the cache, inserting a head, reorganising the chain, writing a block, and
  importing a list of blocks, which verifies, processes and validates each of them.

  Parameters (\<open>bcEnv\<close>): the hash functions, the checks of proofs, the environment of the virtual machine, which depends on the header of a block, the
  trie root of receipts, their bloom filter, the hash of uncles, and the hashes that are refused. The results of the engine for the headers of an
  import, the clock, interrupts and the coin between chains of the same difficulty are arguments. A trie is the map it
  implements, stored under its root. Contract codes and storage tries are looked up through the environment. Bloom filters per range of blocks, the
  images of hashes and the caches of bodies are written for queries only and are left out, and so are events and log output.
  The operations run one after the other under the locks of the chain.
\<close>

section \<open>State\<close>

record chainBlock =
  cb_header :: Header
  cb_txs :: "Transaction list"
  cb_uncles :: "Header list"

record bcEnv =
  be_cross :: crossEnv
  be_zk :: zkEnv
  be_vm :: "Header \<Rightarrow> vmEnv"
  be_emptyRoot :: hash
  be_receiptSha :: "Receipt list \<Rightarrow> hash"
  be_bloom :: "Receipt list \<Rightarrow> bytes"
  be_uncleHash :: "Header list \<Rightarrow> hash"
  be_bad :: "hash \<Rightarrow> bool"

definition be_eng :: "bcEnv \<Rightarrow> engEnv" where
  "be_eng B = x_eng (be_cross B)"

definition zkFor :: "bcEnv \<Rightarrow> Header \<Rightarrow> zkEnv" where
  "zkFor B x = (be_zk B)\<lparr>zk_vm := be_vm B x\<rparr>"

definition blockHash :: "bcEnv \<Rightarrow> chainBlock \<Rightarrow> hash" where
  "blockHash B b = ZKHashBlock (be_eng B) (cb_header b)"

definition blockNumber :: "chainBlock \<Rightarrow> u64" where
  "blockNumber b = numberOf (cb_header b)"

definition parentHash :: "chainBlock \<Rightarrow> hash" where
  "parentHash b = h_ParentHash (cb_header b)"

definition blockCacheLimit :: nat where "blockCacheLimit = 256"
definition maxFutureBlocks :: nat where "maxFutureBlocks = 256"
definition maxTimeFutureBlocks :: int where "maxTimeFutureBlocks = 30"
definition badBlockLimit :: nat where "badBlockLimit = 10"

record BlockChain =
  bc_hc :: HeaderChain
  bc_bodies :: "((u64 \<times> hash) \<times> Transaction list \<times> Header list) list"
  bc_blockReceipts :: "((u64 \<times> hash) \<times> Receipt list) list"
  bc_txs :: "(hash \<times> Transaction) list"
  bc_txMeta :: "(hash \<times> hash \<times> u64 \<times> u64) list"
  bc_headerMeta :: "(hash \<times> hash \<times> u64 \<times> hash \<times> u64) list"
  bc_receipts :: "(hash \<times> Receipt) list"
  bc_states :: "(hash \<times> (address \<times> Account) list) list"
  bc_headFast :: hash
  bc_genesis :: chainBlock
  bc_current :: chainBlock
  bc_currentFast :: chainBlock
  bc_blockCache :: "(hash \<times> chainBlock) list"
  bc_futureBlocks :: "(hash \<times> chainBlock) list"
  bc_badBlocks :: "(hash \<times> Header) list"

definition bc_db :: "BlockChain \<Rightarrow> chainStore" where
  "bc_db bc = hc_db (bc_hc bc)"

datatype inserterr =
    EngineError engerr | KnownBlock | UnclesNotAllowed | UncleRootMismatch | TxRootMismatch | GasUsedMismatch | BloomMismatch
  | ReceiptRootMismatch | StateRootMismatch | MissingState | ProcessError txerr | InvalidOldChain | InvalidNewChain | BadHash
  | NotContiguous | TooFarInFuture

section \<open>The database\<close>

definition WriteBody :: "hash \<Rightarrow> u64 \<Rightarrow> Transaction list \<times> Header list \<Rightarrow> BlockChain \<Rightarrow> BlockChain" where
  "WriteBody h n body bc = bc\<lparr>bc_bodies := mput (n, h) body (bc_bodies bc)\<rparr>"

definition db_WriteBlock :: "bcEnv \<Rightarrow> chainBlock \<Rightarrow> BlockChain \<Rightarrow> BlockChain" where
  "db_WriteBlock B b bc =
     (let bc = WriteBody (blockHash B b) (blockNumber b) (cb_txs b, cb_uncles b) bc; hc = bc_hc bc in
      bc\<lparr>bc_hc := hc\<lparr>hc_db := db_WriteHeader (be_eng B) (cb_header b) (hc_db hc)\<rparr>\<rparr>)"

definition db_GetBlock :: "hash \<Rightarrow> u64 \<Rightarrow> BlockChain \<Rightarrow> chainBlock option" where
  "db_GetBlock h n bc = (case db_GetHeader h n (bc_db bc) of
     None \<Rightarrow> None
   | Some x \<Rightarrow> (case mget (bc_bodies bc) (n, h) of None \<Rightarrow> None | Some (txs, uncles) \<Rightarrow> Some \<lparr>cb_header = x, cb_txs = txs, cb_uncles = uncles\<rparr>))"

definition WriteBlockReceipts :: "hash \<Rightarrow> u64 \<Rightarrow> Receipt list \<Rightarrow> BlockChain \<Rightarrow> BlockChain" where
  "WriteBlockReceipts h n receipts bc = bc\<lparr>bc_blockReceipts := mput (n, h) receipts (bc_blockReceipts bc)\<rparr>"

definition GetBlockReceipts :: "hash \<Rightarrow> u64 \<Rightarrow> BlockChain \<Rightarrow> Receipt list" where
  "GetBlockReceipts h n bc = (case mget (bc_blockReceipts bc) (n, h) of None \<Rightarrow> [] | Some rs \<Rightarrow> rs)"

text \<open>A transaction with its place, and the place of the headers of other chains that it carries.\<close>

definition writeTransaction :: "bcEnv \<Rightarrow> chainBlock \<Rightarrow> nat \<times> Transaction \<Rightarrow> BlockChain \<Rightarrow> BlockChain res" where
  "writeTransaction B b = (\<lambda>(i, tx) bc. bind_res (ZKHashTx (be_cross B) tx) (\<lambda>h.
     let bc = bc\<lparr>bc_txs := mput h tx (bc_txs bc), bc_txMeta := mput h (blockHash B b, blockNumber b, of_nat i) (bc_txMeta bc)\<rparr> in
     Inr (if tx_TxType tx = TxHeader
       then bc\<lparr>bc_headerMeta := fold (\<lambda>hh. mput hh (blockHash B b, blockNumber b, h, of_nat i)) (tx_Headers tx) (bc_headerMeta bc)\<rparr>
       else bc)))"

definition WriteTransactions :: "bcEnv \<Rightarrow> chainBlock \<Rightarrow> BlockChain \<Rightarrow> BlockChain res" where
  "WriteTransactions B b bc = fold_res (writeTransaction B b) (zip [0..<length (cb_txs b)] (cb_txs b)) bc"

definition WriteReceipts :: "Receipt list \<Rightarrow> BlockChain \<Rightarrow> BlockChain" where
  "WriteReceipts receipts bc = bc\<lparr>bc_receipts := fold (\<lambda>r. mput (rc_TxHash r) r) receipts (bc_receipts bc)\<rparr>"

definition DeleteTransaction :: "hash \<Rightarrow> BlockChain \<Rightarrow> BlockChain" where
  "DeleteTransaction h bc = bc\<lparr>bc_txs := mdel h (bc_txs bc), bc_txMeta := mdel h (bc_txMeta bc)\<rparr>"

definition DeleteReceipt :: "hash \<Rightarrow> BlockChain \<Rightarrow> BlockChain" where
  "DeleteReceipt h bc = bc\<lparr>bc_receipts := mdel h (bc_receipts bc)\<rparr>"

definition OpenTrie :: "bcEnv \<Rightarrow> hash \<Rightarrow> BlockChain \<Rightarrow> (address \<times> Account) list option" where
  "OpenTrie B root bc = (if root = 0 \<or> root = be_emptyRoot B then Some [] else mget (bc_states bc) root)"

section \<open>Reading blocks\<close>

definition bc_GetBlock :: "bcEnv \<Rightarrow> hash \<Rightarrow> u64 \<Rightarrow> BlockChain \<Rightarrow> chainBlock option \<times> BlockChain" where
  "bc_GetBlock B h n bc = (case lru_Get h (bc_blockCache bc) of
     (Some b, c) \<Rightarrow> (Some b, bc\<lparr>bc_blockCache := c\<rparr>)
   | (None, c) \<Rightarrow> (case db_GetBlock h n bc of
       None \<Rightarrow> (None, bc) | Some b \<Rightarrow> (Some b, bc\<lparr>bc_blockCache := lru_Add blockCacheLimit (blockHash B b) b c\<rparr>)))"

definition bc_GetBlockByHash :: "bcEnv \<Rightarrow> hash \<Rightarrow> BlockChain \<Rightarrow> chainBlock option \<times> BlockChain" where
  "bc_GetBlockByHash B h bc = (let (n, hc) = hc_GetBlockNumber h (bc_hc bc) in bc_GetBlock B h n (bc\<lparr>bc_hc := hc\<rparr>))"

definition bc_GetBlockByNumber :: "bcEnv \<Rightarrow> u64 \<Rightarrow> BlockChain \<Rightarrow> chainBlock option \<times> BlockChain" where
  "bc_GetBlockByNumber B n bc = (let h = GetCanonicalHash n (bc_db bc) in if h = 0 then (None, bc) else bc_GetBlock B h n bc)"

definition HasBlock :: "bcEnv \<Rightarrow> hash \<Rightarrow> BlockChain \<Rightarrow> bool \<times> BlockChain" where
  "HasBlock B h bc = (let (b, bc) = bc_GetBlockByHash B h bc in (b \<noteq> None, bc))"

definition HasBlockAndState :: "bcEnv \<Rightarrow> hash \<Rightarrow> BlockChain \<Rightarrow> bool \<times> BlockChain" where
  "HasBlockAndState B h bc = (case bc_GetBlockByHash B h bc of
     (None, bc) \<Rightarrow> (False, bc) | (Some b, bc) \<Rightarrow> (OpenTrie B (h_Root (cb_header b)) bc \<noteq> None, bc))"

fun blocksFrom :: "bcEnv \<Rightarrow> nat \<Rightarrow> hash \<Rightarrow> u64 \<Rightarrow> BlockChain \<Rightarrow> chainBlock list \<times> BlockChain" where
  "blocksFrom B 0 h n bc = ([], bc)"
| "blocksFrom B (Suc k) h n bc = (case bc_GetBlock B h n bc of
     (None, bc) \<Rightarrow> ([], bc)
   | (Some b, bc) \<Rightarrow> let (bs, bc) = blocksFrom B k (parentHash b) (n - 1) bc in (b # bs, bc))"

definition GetBlocksFromHash :: "bcEnv \<Rightarrow> hash \<Rightarrow> nat \<Rightarrow> BlockChain \<Rightarrow> chainBlock list \<times> BlockChain" where
  "GetBlocksFromHash B h k bc = (let (n, hc) = hc_GetBlockNumber h (bc_hc bc) in blocksFrom B k h n (bc\<lparr>bc_hc := hc\<rparr>))"

section \<open>Reorganisation\<close>

definition bc_insert :: "bcEnv \<Rightarrow> chainBlock \<Rightarrow> BlockChain \<Rightarrow> BlockChain" where
  "bc_insert B b bc =
     (let h = blockHash B b; n = blockNumber b; hc = bc_hc bc;
          updateHeads = (GetCanonicalHash n (hc_db hc) \<noteq> h);
          hc = hc\<lparr>hc_db := (WriteCanonicalHash h n (hc_db hc))\<lparr>cs_headBlock := h\<rparr>\<rparr>;
          bc = bc\<lparr>bc_hc := hc, bc_current := b\<rparr>
      in if updateHeads
         then bc\<lparr>bc_hc := SetCurrentHeader (be_eng B) (cb_header b) hc, bc_headFast := h, bc_currentFast := b\<rparr>
         else bc)"

text \<open>The logs that are collected go to an event; looking up the number of the block changes a cache.\<close>

definition collectLogs :: "hash \<Rightarrow> BlockChain \<Rightarrow> BlockChain" where
  "collectLogs h bc = bc\<lparr>bc_hc := snd (hc_GetBlockNumber h (bc_hc bc))\<rparr>"

fun reduceChain :: "bcEnv \<Rightarrow> bool \<Rightarrow> nat \<Rightarrow> u64 \<Rightarrow> chainBlock option \<Rightarrow> BlockChain \<Rightarrow> (chainBlock list \<times> chainBlock option \<times> BlockChain) res" where
  "reduceChain B collect 0 n b bc = Inl OutOfDepth"
| "reduceChain B collect (Suc k) n b bc = (case b of
     None \<Rightarrow> Inr ([], None, bc)
   | Some b \<Rightarrow>
       if blockNumber b = n then Inr ([], Some b, bc)
       else
         let bc = (if collect then collectLogs (blockHash B b) bc else bc);
             (p, bc) = bc_GetBlock B (parentHash b) (blockNumber b - 1) bc
         in bind_res (reduceChain B collect k n p bc) (\<lambda>(bs, r, bc). Inr (b # bs, r, bc)))"

text \<open>Down both chains to the block that they share, collecting the blocks of each.\<close>

fun toCommon :: "bcEnv \<Rightarrow> nat \<Rightarrow> chainBlock \<Rightarrow> chainBlock \<Rightarrow> BlockChain \<Rightarrow> ((inserterr + chainBlock list \<times> chainBlock list) \<times> BlockChain) res" where
  "toCommon B 0 old new bc = Inl OutOfDepth"
| "toCommon B (Suc k) old new bc =
     (if blockHash B old = blockHash B new then Inr (Inr ([], []), bc)
      else
        let bc = collectLogs (blockHash B old) bc;
            (po, bc) = bc_GetBlock B (parentHash old) (blockNumber old - 1) bc;
            (pn, bc) = bc_GetBlock B (parentHash new) (blockNumber new - 1) bc
        in case po of
          None \<Rightarrow> Inr (Inl InvalidOldChain, bc)
        | Some po \<Rightarrow> (case pn of
            None \<Rightarrow> Inr (Inl InvalidNewChain, bc)
          | Some pn \<Rightarrow> bind_res (toCommon B k po pn bc) (\<lambda>(r, bc). case r of
              Inl e \<Rightarrow> Inr (Inl e, bc) | Inr (os, ns) \<Rightarrow> Inr (Inr (old # os, new # ns), bc))))"

definition insertCanonical :: "bcEnv \<Rightarrow> chainBlock \<Rightarrow> BlockChain \<Rightarrow> BlockChain res" where
  "insertCanonical B b bc = bind_res (WriteTransactions B b (bc_insert B b bc)) (\<lambda>bc.
     Inr (WriteReceipts (GetBlockReceipts (blockHash B b) (blockNumber b) bc) bc))"

definition hashAll :: "bcEnv \<Rightarrow> Transaction list \<Rightarrow> (hash \<times> Transaction) list res" where
  "hashAll B txs = bind_res (txHashes (be_cross B) txs) (\<lambda>hs. Inr (zip hs txs))"

text \<open>\<open>TxDifference\<close>, with the hashes that it compares.\<close>

definition TxDifference :: "bcEnv \<Rightarrow> Transaction list \<Rightarrow> Transaction list \<Rightarrow> (hash \<times> Transaction) list res" where
  "TxDifference B a b = bind_res (hashAll B b) (\<lambda>remove. bind_res (hashAll B a) (\<lambda>a.
     Inr (filter (\<lambda>(h, tx). h \<notin> fst ` set remove) a)))"

definition findFork :: "bcEnv \<Rightarrow> chainBlock \<Rightarrow> chainBlock \<Rightarrow> BlockChain \<Rightarrow> ((inserterr + chainBlock list \<times> chainBlock list) \<times> BlockChain) res" where
  "findFork B old new bc =
     (let fuel = (\<lambda>b. unat (blockNumber b) + 1); oldHigher = blockNumber old > blockNumber new in
      bind_res (if oldHigher then reduceChain B True (fuel old) (blockNumber new) (Some old) bc
                else reduceChain B False (fuel new) (blockNumber old) (Some new) bc) (\<lambda>(bs, r, bc).
        case r of
          None \<Rightarrow> Inr (Inl (if oldHigher then InvalidOldChain else InvalidNewChain), bc)
        | Some b \<Rightarrow>
            let (old, new) = (if oldHigher then (b, new) else (old, b)) in
            bind_res (toCommon B (fuel b) old new bc) (\<lambda>(r, bc). case r of
              Inl e \<Rightarrow> Inr (Inl e, bc)
            | Inr (os, ns) \<Rightarrow> Inr (Inr (if oldHigher then (bs @ os, ns) else (os, bs @ ns)), bc))))"

text \<open>\<open>reorg\<close> returns the transactions that are posted as removed.\<close>

definition reorg :: "bcEnv \<Rightarrow> chainBlock \<Rightarrow> chainBlock \<Rightarrow> BlockChain \<Rightarrow> ((inserterr + Transaction list) \<times> BlockChain) res" where
  "reorg B old new bc = bind_res (findFork B old new bc) (\<lambda>(r, bc). case r of
     Inl e \<Rightarrow> Inr (Inl e, bc)
   | Inr (oldChain, newChain) \<Rightarrow>
       bind_res (fold_res (insertCanonical B) newChain bc) (\<lambda>bc.
       bind_res (TxDifference B (concat (map cb_txs oldChain)) (concat (map cb_txs newChain))) (\<lambda>diff.
         Inr (Inr (map snd diff), fold (\<lambda>(h, tx) bc. DeleteTransaction h (DeleteReceipt h bc)) diff bc))))"

section \<open>Writing a block\<close>

definition bc_WriteBlock :: "bcEnv \<Rightarrow> bool \<Rightarrow> chainBlock \<Rightarrow> BlockChain \<Rightarrow> ((inserterr + writeStatus) \<times> BlockChain) res" where
  "bc_WriteBlock B coin b bc =
     (let h = blockHash B b; n = blockNumber b; (ptd, hc) = hc_GetTd (parentHash b) (n - 1) (bc_hc bc); bc = bc\<lparr>bc_hc := hc\<rparr> in
      case ptd of
        None \<Rightarrow> Inr (Inl (EngineError UnknownAncestor), bc)
      | Some ptd \<Rightarrow>
          let (localTd, hc) = hc_GetTd (blockHash B (bc_current bc)) (blockNumber (bc_current bc)) (bc_hc bc);
              externTd = h_Difficulty (cb_header b) + ptd;
              bc = db_WriteBlock B b (bc\<lparr>bc_hc := hc_WriteTd h n externTd hc\<rparr>);
              finish = (\<lambda>bc st. Inr (Inr st, bc\<lparr>bc_futureBlocks := mdel h (bc_futureBlocks bc)\<rparr>))
          in case localTd of
            None \<Rightarrow> Inl (Panic ''nil Int'')
          | Some localTd \<Rightarrow>
              if externTd > localTd \<or> externTd = localTd \<and> coin
              then
                bind_res (if parentHash b \<noteq> blockHash B (bc_current bc) then reorg B (bc_current bc) b bc else Inr (Inr [], bc)) (\<lambda>(r, bc).
                  case r of Inl e \<Rightarrow> Inr (Inl e, bc) | Inr _ \<Rightarrow> finish (bc_insert B b bc) CanonStatTy)
              else finish bc SideStatTy)"

section \<open>Validation\<close>

text \<open>The engine allows no uncles (\<open>VerifyUncles\<close>).\<close>

definition ValidateBody :: "bcEnv \<Rightarrow> chainBlock \<Rightarrow> BlockChain \<Rightarrow> (inserterr option \<times> BlockChain) res" where
  "ValidateBody B b bc =
     (let (known, bc) = HasBlockAndState B (blockHash B b) bc in
      if known then Inr (Some KnownBlock, bc)
      else
        let (linked, bc) = HasBlockAndState B (parentHash b) bc in
        if \<not> linked then Inr (Some (EngineError UnknownAncestor), bc)
        else if cb_uncles b \<noteq> [] then Inr (Some UnclesNotAllowed, bc)
        else if be_uncleHash B (cb_uncles b) \<noteq> h_UncleHash (cb_header b) then Inr (Some UncleRootMismatch, bc)
        else bind_res (DeriveShaTx (be_cross B) (cb_txs b)) (\<lambda>root.
          Inr (if root \<noteq> h_TxHash (cb_header b) then Some TxRootMismatch else None, bc)))"

definition ValidateState :: "bcEnv \<Rightarrow> chainBlock \<Rightarrow> StateDB \<Rightarrow> Receipt list \<Rightarrow> int \<Rightarrow> (inserterr option \<times> StateDB) res" where
  "ValidateState B b s receipts usedGas =
     (let x = cb_header b; Z = zkFor B x in
      if h_GasUsed x \<noteq> usedGas then Inr (Some GasUsedMismatch, s)
      else if be_bloom B receipts \<noteq> h_Bloom x then Inr (Some BloomMismatch, s)
      else if be_receiptSha B receipts \<noteq> h_ReceiptHash x then Inr (Some ReceiptRootMismatch, s)
      else bind_res (IntermediateRoot (zk_db Z) (vm_IsEIP158 (zk_vm Z)) s) (\<lambda>s.
        Inr (if h_Root x \<noteq> zk_stateRoot Z (sdb_trie s) then Some StateRootMismatch else None, s)))"

definition MinGasLimit :: int where "MinGasLimit = 5000"
definition GasLimitBoundDivisor :: int where "GasLimitBoundDivisor = 1024"

definition CalcGasLimit :: "int \<Rightarrow> chainBlock \<Rightarrow> int" where
  "CalcGasLimit target parent =
     (let limit = h_GasLimit (cb_header parent); used = h_GasUsed (cb_header parent);
          contrib = (used * 3 div 2) div GasLimitBoundDivisor;
          decay = limit div GasLimitBoundDivisor - 1;
          gl = max (limit - decay + contrib) MinGasLimit
      in if gl < target then min (limit + decay) target else gl)"

section \<open>Importing\<close>

definition addBadBlock :: "bcEnv \<Rightarrow> chainBlock \<Rightarrow> BlockChain \<Rightarrow> BlockChain" where
  "addBadBlock B b bc = bc\<lparr>bc_badBlocks := lru_Add badBlockLimit (blockHash B b) (cb_header b) (bc_badBlocks bc)\<rparr>"

definition addFuture :: "bcEnv \<Rightarrow> chainBlock \<Rightarrow> BlockChain \<Rightarrow> BlockChain" where
  "addFuture B b bc = bc\<lparr>bc_futureBlocks := lru_Add maxFutureBlocks (blockHash B b) b (bc_futureBlocks bc)\<rparr>"

text \<open>What an import does with a block that the engine or the validation of bodies does not accept: None goes on with the next block.\<close>

definition notAccepted :: "bcEnv \<Rightarrow> int \<Rightarrow> chainBlock \<Rightarrow> inserterr \<Rightarrow> BlockChain \<Rightarrow> inserterr option \<times> BlockChain" where
  "notAccepted B now b e bc =
     (if e = KnownBlock then (None, bc)
      else if e = EngineError FutureBlock
      then (if h_Time (cb_header b) > now + maxTimeFutureBlocks then (Some TooFarInFuture, bc) else (None, addFuture B b bc))
      else if e = EngineError UnknownAncestor \<and> mhas (bc_futureBlocks bc) (parentHash b) then (None, addFuture B b bc)
      else (Some e, addBadBlock B b bc))"

definition toProcess :: "bcEnv \<Rightarrow> chainBlock \<Rightarrow> Block" where
  "toProcess B b = \<lparr>b_Hash = blockHash B b, b_Transactions = cb_txs b, b_GasLimit = h_GasLimit (cb_header b), b_ZKFunds = h_ZKFunds (cb_header b)\<rparr>"

text \<open>A block that has been validated is written with its state, its receipts and, on the canonical chain, its transactions.\<close>

definition commitBlock :: "bcEnv \<Rightarrow> bool \<Rightarrow> chainBlock \<Rightarrow> Receipt list \<Rightarrow> StateDB \<Rightarrow> BlockChain \<Rightarrow> (inserterr option \<times> BlockChain) res" where
  "commitBlock B coin b receipts s bc =
     (let Z = zkFor B (cb_header b) in
      bind_res (CommitTo (zk_db Z) (vm_IsEIP158 (zk_vm Z)) s) (\<lambda>(s, codes).
        let bc = bc\<lparr>bc_states := mput (zk_stateRoot Z (sdb_trie s)) (sdb_trie s) (bc_states bc)\<rparr>;
            bc = WriteBlockReceipts (blockHash B b) (blockNumber b) receipts bc
        in bind_res (bc_WriteBlock B coin b bc) (\<lambda>(r, bc). case r of
             Inl e \<Rightarrow> Inr (Some e, bc)
           | Inr st \<Rightarrow>
               if st = CanonStatTy then bind_res (WriteTransactions B b bc) (\<lambda>bc. Inr (None, WriteReceipts receipts bc))
               else Inr (None, bc))))"

text \<open>Processing and validation of a block on the state of its parent.\<close>

definition executeBlock :: "bcEnv \<Rightarrow> bool \<Rightarrow> chainBlock \<Rightarrow> chainBlock \<Rightarrow> BlockChain \<Rightarrow> (inserterr option \<times> BlockChain) res" where
  "executeBlock B coin parent b bc = (case OpenTrie B (h_Root (cb_header parent)) bc of
     None \<Rightarrow> Inr (Some MissingState, bc)
   | Some tr \<Rightarrow>
       bind_res (Process (zkFor B (cb_header b)) (toProcess B b) (sdb_New tr)) (\<lambda>r. case r of
         Inl e \<Rightarrow> Inr (Some (ProcessError e), addBadBlock B b bc)
       | Inr (receipts, ls, usedGas, s) \<Rightarrow>
           bind_res (ValidateState B b s receipts usedGas) (\<lambda>(err, s). case err of
             Some e \<Rightarrow> Inr (Some e, addBadBlock B b bc)
           | None \<Rightarrow> commitBlock B coin b receipts s bc)))"

definition importBlock :: "bcEnv \<Rightarrow> int \<Rightarrow> bool \<Rightarrow> chainBlock option \<Rightarrow> chainBlock \<Rightarrow> engerr option \<Rightarrow> BlockChain \<Rightarrow> (inserterr option \<times> BlockChain) res" where
  "importBlock B now coin prev b result bc =
     (if be_bad B (blockHash B b) then Inr (Some BadHash, addBadBlock B b bc)
      else bind_res (case result of Some e \<Rightarrow> Inr (Some (EngineError e), bc) | None \<Rightarrow> ValidateBody B b bc) (\<lambda>(err, bc).
        case err of
          Some e \<Rightarrow> Inr (notAccepted B now b e bc)
        | None \<Rightarrow>
            let (parent, bc) = (case prev of Some p \<Rightarrow> (Some p, bc) | None \<Rightarrow> bc_GetBlock B (parentHash b) (blockNumber b - 1) bc) in
            case parent of None \<Rightarrow> Inl (Panic ''nil Block'') | Some p \<Rightarrow> executeBlock B coin p b bc))"

definition linkedBlocks :: "bcEnv \<Rightarrow> chainBlock list \<Rightarrow> bool" where
  "linkedBlocks B bs \<longleftrightarrow> (\<forall>i<length bs. 1 \<le> i \<longrightarrow> blockNumber (bs ! i) = blockNumber (bs ! (i - 1)) + 1 \<and> parentHash (bs ! i) = blockHash B (bs ! (i - 1)))"

fun importBlocks :: "bcEnv \<Rightarrow> (nat \<Rightarrow> bool) \<Rightarrow> (nat \<Rightarrow> int) \<Rightarrow> (nat \<Rightarrow> bool) \<Rightarrow> nat \<Rightarrow> chainBlock option \<Rightarrow> (chainBlock \<times> engerr option) list \<Rightarrow> BlockChain
    \<Rightarrow> ((nat \<times> inserterr) option \<times> BlockChain) res" where
  "importBlocks B interrupt now coin i prev [] bc = Inr (None, bc)"
| "importBlocks B interrupt now coin i prev ((b, r) # bs) bc =
     (if interrupt i then Inr (None, bc)
      else bind_res (importBlock B (now i) (coin i) prev b r bc) (\<lambda>(err, bc).
        case err of Some e \<Rightarrow> Inr (Some (i, e), bc) | None \<Rightarrow> importBlocks B interrupt now coin (Suc i) (Some b) bs bc))"

definition InsertChain :: "bcEnv \<Rightarrow> (nat \<Rightarrow> bool) \<Rightarrow> (nat \<Rightarrow> int) \<Rightarrow> (nat \<Rightarrow> bool) \<Rightarrow> engerr option list \<Rightarrow> chainBlock list \<Rightarrow> BlockChain
    \<Rightarrow> ((nat \<times> inserterr) option \<times> BlockChain) res" where
  "InsertChain B interrupt now coin results bs bc =
     (if \<not> linkedBlocks B bs then Inr (Some (0, NotContiguous), bc)
      else importBlocks B interrupt now coin 0 None (zip bs results) bc)"

text \<open>Blocks that came too early, from the lowest number, one at a time; errors are ignored.\<close>

definition procFutureBlocks :: "bcEnv \<Rightarrow> (nat \<Rightarrow> bool) \<Rightarrow> (nat \<Rightarrow> int) \<Rightarrow> (nat \<Rightarrow> bool) \<Rightarrow> (chainBlock \<Rightarrow> engerr option) \<Rightarrow> BlockChain \<Rightarrow> BlockChain res" where
  "procFutureBlocks B interrupt now coin verify bc =
     fold_res (\<lambda>b bc. bind_res (InsertChain B interrupt now coin [verify b] [b] bc) (\<lambda>(r, bc). Inr bc))
       (sort_key (\<lambda>b. h_Number (cb_header b)) (rev (map snd (bc_futureBlocks bc)))) bc"

text \<open>\<open>InsertHeaderChain\<close> and \<open>Rollback\<close>.\<close>

definition bc_InsertHeaderChain :: "bcEnv \<Rightarrow> (nat \<Rightarrow> bool) \<Rightarrow> (nat \<Rightarrow> bool) \<Rightarrow> (nat \<Rightarrow> bool) \<Rightarrow> int \<Rightarrow> int list \<Rightarrow> (Header list \<Rightarrow> bool list \<Rightarrow> engerr option list)
    \<Rightarrow> Header list \<Rightarrow> BlockChain \<Rightarrow> ((nat \<times> importerr) option \<times> BlockChain) res" where
  "bc_InsertHeaderChain B checking interrupt coin checkFreq rnd verify xs bc =
     bind_res (ValidateHeaderChain (be_eng B) (be_bad B) checking checkFreq rnd verify xs) (\<lambda>r. case r of
       Some e \<Rightarrow> Inr (Some e, bc)
     | None \<Rightarrow> bind_res (hc_InsertHeaderChain (be_eng B) interrupt coin xs (bc_hc bc)) (\<lambda>(r, hc). Inr (r, bc\<lparr>bc_hc := hc\<rparr>)))"

definition rollbackOne :: "bcEnv \<Rightarrow> hash \<Rightarrow> BlockChain \<Rightarrow> BlockChain res" where
  "rollbackOne B h bc =
     bind_res (let x = hc_current (bc_hc bc) in
       if ZKHashBlock (be_eng B) x \<noteq> h then Inr bc
       else (case hc_GetHeader (h_ParentHash x) (numberOf x - 1) (bc_hc bc) of
           (None, hc) \<Rightarrow> Inl (Panic ''nil Header'') | (Some p, hc) \<Rightarrow> Inr (bc\<lparr>bc_hc := SetCurrentHeader (be_eng B) p hc\<rparr>))) (\<lambda>bc.
     bind_res (let f = bc_currentFast bc in
       if blockHash B f \<noteq> h then Inr bc
       else (case bc_GetBlock B (parentHash f) (blockNumber f - 1) bc of
           (None, bc) \<Rightarrow> Inl (Panic ''nil Block'') | (Some p, bc) \<Rightarrow> Inr (bc\<lparr>bc_currentFast := p, bc_headFast := blockHash B p\<rparr>))) (\<lambda>bc.
     let b = bc_current bc in
       if blockHash B b \<noteq> h then Inr bc
       else (case bc_GetBlock B (parentHash b) (blockNumber b - 1) bc of
           (None, bc) \<Rightarrow> Inl (Panic ''nil Block'')
         | (Some p, bc) \<Rightarrow> Inr (bc\<lparr>bc_current := p, bc_hc := (bc_hc bc)\<lparr>hc_db := (bc_db bc)\<lparr>cs_headBlock := blockHash B p\<rparr>\<rparr>\<rparr>))))"

definition Rollback :: "bcEnv \<Rightarrow> hash list \<Rightarrow> BlockChain \<Rightarrow> BlockChain res" where
  "Rollback B hs bc = fold_res (rollbackOne B) (rev hs) bc"

section \<open>Starting\<close>

text \<open>
  The database that \<open>Genesis.Commit\<close> writes, with the state of the first block; the fields that are not in the database
  do not matter.
\<close>

definition commitGenesisBlock :: "bcEnv \<Rightarrow> int \<Rightarrow> chainBlock \<Rightarrow> (address \<times> Account) list \<Rightarrow> BlockChain option" where
  "commitGenesisBlock B difficulty g tr =
     (let h = blockHash B g; n = blockNumber g in
      case commitGenesis (be_eng B) difficulty (cb_header g) emptyStore of
        None \<Rightarrow> None
      | Some db \<Rightarrow> Some
          \<lparr>bc_hc = \<lparr>hc_db = db, hc_genesis = cb_header g, hc_current = cb_header g, hc_currentHash = h, hc_headerCache = [], hc_tdCache = [], hc_numberCache = []\<rparr>,
           bc_bodies = [((n, h), cb_txs g, cb_uncles g)], bc_blockReceipts = [((n, h), [])], bc_txs = [], bc_txMeta = [], bc_headerMeta = [], bc_receipts = [],
           bc_states = [(zk_stateRoot (be_zk B) tr, tr)], bc_headFast = 0, bc_genesis = g, bc_current = g, bc_currentFast = g, bc_blockCache = [], bc_futureBlocks = [], bc_badBlocks = []\<rparr>)"

text \<open>\<open>loadLastState\<close>; None stands for the branches that reset the chain, which happen when the head block or its state is missing.\<close>

definition loadLastState :: "bcEnv \<Rightarrow> BlockChain \<Rightarrow> BlockChain option" where
  "loadLastState B bc =
     (let head = cs_headBlock (bc_db bc) in
      if head = 0 then None
      else case bc_GetBlockByHash B head bc of
        (None, bc) \<Rightarrow> None
      | (Some b, bc) \<Rightarrow>
          if OpenTrie B (h_Root (cb_header b)) bc = None then None
          else
            let hh = cs_headHeader (bc_db bc);
                (found, hc) = (if hh = 0 then (None, bc_hc bc) else hc_GetHeaderByHash hh (bc_hc bc));
                x = (case found of Some x \<Rightarrow> x | None \<Rightarrow> cb_header b);
                bc = bc\<lparr>bc_hc := SetCurrentHeader (be_eng B) x hc, bc_current := b\<rparr>;
                (fast, bc) = (if bc_headFast bc = 0 then (None, bc) else bc_GetBlockByHash B (bc_headFast bc) bc);
                f = (case fast of Some f \<Rightarrow> f | None \<Rightarrow> b);
                hc = snd (hc_GetTd (ZKHashBlock (be_eng B) x) (numberOf x) (bc_hc bc));
                hc = snd (hc_GetTd (blockHash B b) (blockNumber b) hc);
                hc = snd (hc_GetTd (blockHash B f) (blockNumber f) hc)
            in Some (bc\<lparr>bc_hc := hc, bc_currentFast := f\<rparr>))"

text \<open>\<open>NewBlockChain\<close> on a database; the search for refused hashes in it is left out.\<close>

definition NewBlockChain :: "bcEnv \<Rightarrow> BlockChain \<Rightarrow> BlockChain option" where
  "NewBlockChain B db = (case NewHeaderChain (be_eng B) (bc_db db) of
     None \<Rightarrow> None
   | Some hc \<Rightarrow> (case bc_GetBlockByNumber B 0 (db\<lparr>bc_hc := hc, bc_blockCache := [], bc_futureBlocks := [], bc_badBlocks := []\<rparr>) of
       (None, bc) \<Rightarrow> None | (Some g, bc) \<Rightarrow> loadLastState B (bc\<lparr>bc_genesis := g\<rparr>)))"

end
