(* ===== verification/Chain_Reorg.thy ===== *)
theory Chain_Reorg
  imports Chain_Blocks Chain_Write
begin

text \<open>
  The blocks in the database, and reorganisation: both chains lead down to the block they share, and after the blocks of the new chain have been
  inserted the canonical numbers lead to its head.
\<close>

section \<open>Stored blocks\<close>

text \<open>The blocks that are around: the hash of a header identifies a block, and every transaction has a sender.\<close>

definition blockUniverse :: "bcEnv \<Rightarrow> chainBlock set \<Rightarrow> chainBlock \<Rightarrow> bool" where
  "blockUniverse B U g \<longleftrightarrow> universe (be_eng B) (cb_header ` U) (cb_header g) \<and> g \<in> U \<and> inj_on cb_header U \<and> (\<forall>b\<in>U. \<forall>tx\<in>set (cb_txs b). tx_Sender tx \<noteq> None)"

definition stored :: "bcEnv \<Rightarrow> BlockChain \<Rightarrow> chainBlock \<Rightarrow> bool" where
  "stored B bc b \<longleftrightarrow> db_GetBlock (blockHash B b) (blockNumber b) bc = Some b"

definition blocks_ok :: "bcEnv \<Rightarrow> chainBlock set \<Rightarrow> chainBlock \<Rightarrow> BlockChain \<Rightarrow> bool" where
  "blocks_ok B U g bc \<longleftrightarrow> store_ok (be_eng B) (cb_header ` U) (cb_header g) (bc_db bc) \<and> caches_ok (be_eng B) (bc_hc bc) \<and>
     (\<forall>b\<in>U. known (be_eng B) (bc_db bc) (cb_header b) \<longrightarrow> mget (bc_bodies bc) (blockNumber b, blockHash B b) = Some (cb_txs b, cb_uncles b)) \<and>
     lr.holds (\<lambda>h b. h = blockHash B b \<and> stored B bc b) (bc_blockCache bc)"

abbreviation bheight :: "chainBlock \<Rightarrow> nat" where
  "bheight b \<equiv> height (cb_header b)"

lemma stored_known:
  assumes u: "blockUniverse B U g" and ok: "blocks_ok B U g bc"
  shows "stored B bc b \<longleftrightarrow> b \<in> U \<and> known (be_eng B) (bc_db bc) (cb_header b)"
proof
  assume st: "stored B bc b"
  then have k: "known (be_eng B) (bc_db bc) (cb_header b)"
    by (auto simp: stored_def db_GetBlock_def known_def blockHash_def blockNumber_def split: option.splits)
  then obtain c where c: "c \<in> U" "cb_header c = cb_header b" using known_in [of "be_eng B" "cb_header ` U" "cb_header g" "bc_db bc"] ok by (force simp: blocks_ok_def)
  have "mget (bc_bodies bc) (blockNumber c, blockHash B c) = Some (cb_txs c, cb_uncles c)" using ok c k by (simp add: blocks_ok_def)
  then have "b = c" using st c(2) by (auto simp: stored_def db_GetBlock_def blockHash_def blockNumber_def split: option.splits)
  then show "b \<in> U \<and> known (be_eng B) (bc_db bc) (cb_header b)" using c(1) k by simp
next
  assume b: "b \<in> U \<and> known (be_eng B) (bc_db bc) (cb_header b)"
  then have "mget (bc_bodies bc) (blockNumber b, blockHash B b) = Some (cb_txs b, cb_uncles b)" using ok by (simp add: blocks_ok_def)
  then show "stored B bc b" using b by (simp add: stored_def db_GetBlock_def known_def blockHash_def blockNumber_def)
qed

lemma found_stored:
  assumes u: "blockUniverse B U g" and ok: "blocks_ok B U g bc" and f: "db_GetBlock h n bc = Some b"
  shows "stored B bc b \<and> h = blockHash B b"
proof -
  have s: "store_ok (be_eng B) (cb_header ` U) (cb_header g) (bc_db bc)" using ok by (simp add: blocks_ok_def)
  have "db_GetHeader h n (bc_db bc) = Some (cb_header b)" using f by (auto simp: db_GetBlock_def split: option.splits)
  then have "h = blockHash B b" "n = blockNumber b" using found_known [OF s] by (auto simp: blockHash_def blockNumber_def)
  then show ?thesis using f by (simp add: stored_def)
qed

lemma stored_cong: "bc_db bc' = bc_db bc \<Longrightarrow> bc_bodies bc' = bc_bodies bc \<Longrightarrow> stored B bc' = stored B bc"
  by (simp add: stored_def db_GetBlock_def fun_eq_iff cong: option.case_cong)

lemma blockUniverse_header: "blockUniverse B U g \<Longrightarrow> universe (be_eng B) (cb_header ` U) (cb_header g)"
  by (simp add: blockUniverse_def)

lemma stored_same: "blockUniverse B U g \<Longrightarrow> b \<in> U \<Longrightarrow> c \<in> U \<Longrightarrow> blockHash B b = blockHash B c \<Longrightarrow> b = c"
  using universe_inj [of "be_eng B" "cb_header ` U" "cb_header g" "cb_header b" "cb_header c"]
  by (auto simp: blockUniverse_def blockHash_def inj_on_def)

lemma stored_parent:
  assumes u: "blockUniverse B U g" and ok: "blocks_ok B U g bc" and b: "stored B bc b" "b \<noteq> g"
  shows "\<exists>p. stored B bc p \<and> parentHash b = blockHash B p \<and> bheight b = Suc (bheight p) \<and> blockNumber b - 1 = blockNumber p"
proof -
  have uh: "universe (be_eng B) (cb_header ` U) (cb_header g)" and s: "store_ok (be_eng B) (cb_header ` U) (cb_header g) (bc_db bc)" using u ok by (auto simp: blockUniverse_def blocks_ok_def)
  have k: "b \<in> U" "known (be_eng B) (bc_db bc) (cb_header b)" using b(1) stored_known [OF u ok] by auto
  have "cb_header b \<noteq> cb_header g" using k(1) b(2) u by (auto simp: blockUniverse_def inj_on_def)
  then obtain x where x: "known (be_eng B) (bc_db bc) x" "h_ParentHash (cb_header b) = ZKHashBlock (be_eng B) x" using s k(2) unfolding store_ok_def by blast
  then obtain p where p: "p \<in> U" "x = cb_header p" using known_in [OF s] by blast
  have bp: "cb_header b \<in> cb_header ` U" "cb_header p \<in> cb_header ` U" using k(1) p(1) by auto
  have "stored B bc p" using stored_known [OF u ok] p x(1) by simp
  then show ?thesis using parent_height [OF uh bp] x(2) p(2) by (intro exI [of _ p]) (simp add: parentHash_def blockHash_def blockNumber_def)
qed

section \<open>Reading\<close>

definition bc_reads :: "bcEnv \<Rightarrow> chainBlock set \<Rightarrow> chainBlock \<Rightarrow> BlockChain \<Rightarrow> BlockChain \<Rightarrow> bool" where
  "bc_reads B U g bc bc' \<longleftrightarrow> (\<exists>hc c. bc' = bc\<lparr>bc_hc := hc, bc_blockCache := c\<rparr> \<and> reads (be_eng B) (bc_hc bc) hc) \<and> blocks_ok B U g bc'"

lemma bc_readsD:
  assumes "bc_reads B U g bc bc'"
  shows "blocks_ok B U g bc'" "bc_db bc' = bc_db bc" "bc_bodies bc' = bc_bodies bc" "bc_current bc' = bc_current bc" "bc_genesis bc' = bc_genesis bc" "bc_states bc' = bc_states bc"
    "stored B bc' = stored B bc" "reads (be_eng B) (bc_hc bc) (bc_hc bc')"
  using assms stored_cong [of bc' bc B] by (auto simp: bc_reads_def reads_def bc_db_def)

lemma bc_reads_trans: "bc_reads B U g a b \<Longrightarrow> bc_reads B U g b c \<Longrightarrow> bc_reads B U g a c"
  unfolding bc_reads_def by (fastforce intro: reads_trans)

lemma bc_reads_refl: "blocks_ok B U g bc \<Longrightarrow> bc_reads B U g bc bc"
  by (auto simp: bc_reads_def reads_def blocks_ok_def intro!: exI [of _ "bc_hc bc"] exI [of _ "bc_blockCache bc"])

text \<open>A chain of headers that was read, and a cache of stored blocks.\<close>

lemma bc_readsI:
  assumes ok: "blocks_ok B U g bc" and r: "reads (be_eng B) (bc_hc bc) hc" and c: "lr.holds (\<lambda>h b. h = blockHash B b \<and> stored B bc b) c"
  shows "bc_reads B U g bc (bc\<lparr>bc_hc := hc, bc_blockCache := c\<rparr>)"
proof -
  have "stored B (bc\<lparr>bc_hc := hc, bc_blockCache := c\<rparr>) = stored B bc" using r by (intro stored_cong) (simp_all add: bc_db_def reads_def)
  then have "blocks_ok B U g (bc\<lparr>bc_hc := hc, bc_blockCache := c\<rparr>)" using ok r c by (simp add: blocks_ok_def bc_db_def reads_def)
  then show ?thesis using r by (auto simp: bc_reads_def)
qed

lemma bc_GetBlock_reads:
  assumes u: "blockUniverse B U g" and ok: "blocks_ok B U g bc" and r: "bc_GetBlock B h n bc = (r, bc')"
  shows "bc_reads B U g bc bc' \<and> (\<forall>b. r = Some b \<longrightarrow> stored B bc b \<and> h = blockHash B b) \<and> (r = None \<longrightarrow> db_GetBlock h n bc = None)"
proof -
  let ?Q = "\<lambda>h b. h = blockHash B b \<and> stored B bc b"
  obtain f c where l: "lru_Get h (bc_blockCache bc) = (f, c)" by fastforce
  have Q: "lr.holds ?Q (bc_blockCache bc)" using ok by (simp add: blocks_ok_def)
  have Q': "lr.holds ?Q c" using lr.holds_get [OF Q, of h] l by simp
  have rr: "reads (be_eng B) (bc_hc bc) (bc_hc bc)" using ok by (simp add: reads_def blocks_ok_def)
  have put: "bc_reads B U g bc (bc\<lparr>bc_blockCache := d\<rparr>)" if "lr.holds ?Q d" for d using bc_readsI [OF ok rr that] by simp
  show ?thesis
  proof (cases f)
    case (Some b)
    then show ?thesis using lr.holds_hit [OF Q, of h b] r l put [OF Q'] by (auto simp: bc_GetBlock_def)
  next
    case None
    show ?thesis
    proof (cases "db_GetBlock h n bc")
      case s2: (Some b)
      have q: "stored B bc b" "h = blockHash B b" using found_stored [OF u ok s2] by auto
      then show ?thesis using None s2 r l put [OF lr.holds_add [OF Q', of "blockHash B b" b blockCacheLimit]] by (auto simp: bc_GetBlock_def)
    qed (use None r l bc_reads_refl [OF ok] in \<open>auto simp: bc_GetBlock_def\<close>)
  qed
qed

lemma bc_GetBlock_stored:
  assumes u: "blockUniverse B U g" and ok: "blocks_ok B U g bc" and p: "stored B bc p"
  shows "\<exists>bc'. bc_GetBlock B (blockHash B p) (blockNumber p) bc = (Some p, bc') \<and> bc_reads B U g bc bc'"
proof -
  obtain r bc' where r: "bc_GetBlock B (blockHash B p) (blockNumber p) bc = (r, bc')" by fastforce
  note k = bc_GetBlock_reads [OF u ok r]
  have "r \<noteq> None" using k p by (auto simp: stored_def)
  then have "r = Some p" using k p stored_known [OF u ok] stored_same [OF u] by auto
  then show ?thesis using r k by blast
qed

lemma hc_GetBlockNumber_reads:
  assumes s: "store_ok E H g (hc_db hc)" and c: "caches_ok E hc"
  shows "reads E hc (snd (hc_GetBlockNumber h hc))"
proof -
  let ?Q = "\<lambda>h n. \<exists>x. h = ZKHashBlock E x \<and> known E (hc_db hc) x \<and> n = numberOf x"
  obtain f d where l: "lru_Get h (hc_numberCache hc) = (f, d)" by fastforce
  have Q: "lr.holds ?Q (hc_numberCache hc)" using c by (simp add: caches_ok_def)
  have Q': "lr.holds ?Q d" using lr.holds_get [OF Q, of h] l by simp
  show ?thesis
  proof (cases "f = None \<and> db_GetBlockNumber h (hc_db hc) \<noteq> missingNumber")
    case True
    then obtain n where n: "mget (cs_numbers (hc_db hc)) h = Some n" "db_GetBlockNumber h (hc_db hc) = n" by (auto simp: db_GetBlockNumber_def split: option.splits)
    then obtain x where "db_GetHeader h n (hc_db hc) = Some x" using s unfolding store_ok_def by blast
    then have "?Q h n" using found_known [OF s] by blast
    then show ?thesis using True n l c lr.holds_add [OF Q', of h n numberCacheLimit] by (auto simp: hc_GetBlockNumber_def reads_def caches_ok_def)
  qed (use l c Q' in \<open>cases f; auto simp: hc_GetBlockNumber_def reads_def caches_ok_def Let_def\<close>)
qed

lemma collectLogs_reads: "blocks_ok B U g bc \<Longrightarrow> bc_reads B U g bc (collectLogs h bc)"
  using bc_readsI [of B U g bc "snd (hc_GetBlockNumber h (bc_hc bc))" "bc_blockCache bc"] hc_GetBlockNumber_reads [of "be_eng B" "cb_header ` U" "cb_header g" "bc_hc bc" h]
  by (simp add: collectLogs_def blocks_ok_def bc_db_def)

section \<open>The fork\<close>

text \<open>The blocks from one block down to an ancestor, which is left out.\<close>

fun down :: "bcEnv \<Rightarrow> (chainBlock \<Rightarrow> bool) \<Rightarrow> chainBlock list \<Rightarrow> chainBlock \<Rightarrow> chainBlock \<Rightarrow> bool" where
  "down B S [] b c \<longleftrightarrow> b = c"
| "down B S (x # xs) b c \<longleftrightarrow> x = b \<and> S b \<and> (\<exists>p. S p \<and> parentHash b = blockHash B p \<and> bheight b = Suc (bheight p) \<and> down B S xs p c)"

lemma down_append: "down B S xs b c \<Longrightarrow> down B S ys c d \<Longrightarrow> down B S (xs @ ys) b d"
  by (induction xs arbitrary: b) auto

lemma down_all: "down B S xs b c \<Longrightarrow> \<forall>x\<in>set xs. S x"
  by (induction xs arbitrary: b) auto

lemma reduceChain_spec:
  assumes u: "blockUniverse B U g" and "blocks_ok B U g bc" and "stored B bc b" and "unat n \<le> bheight b" and "bheight b < k"
  shows "\<exists>bs c bc'. reduceChain B collect k n (Some b) bc = Inr (bs, Some c, bc') \<and> bc_reads B U g bc bc' \<and> stored B bc c \<and> blockNumber c = n \<and> down B (stored B bc) bs b c"
  using assms(2-)
proof (induction k arbitrary: b bc)
  case (Suc k)
  show ?case
  proof (cases "blockNumber b = n")
    case True
    then show ?thesis using Suc.prems bc_reads_refl by (intro exI [of _ "[]"] exI [of _ b] exI [of _ bc]) simp
  next
    case False
    then have ne: "bheight b \<noteq> unat n" by (auto simp: height_def blockNumber_def word_unat_eq_iff)
    have "bheight g = 0" using blockUniverse_header [OF u] by (auto simp: universe_def height_def)
    then have "b \<noteq> g" using ne Suc.prems(3) by auto
    from stored_parent [OF u Suc.prems(1,2) this] obtain p where
      p: "stored B bc p" "parentHash b = blockHash B p" "bheight b = Suc (bheight p)" "blockNumber b - 1 = blockNumber p" by blast
    define bc1 where "bc1 = (if collect then collectLogs (blockHash B b) bc else bc)"
    have r1: "bc_reads B U g bc bc1" using collectLogs_reads bc_reads_refl Suc.prems(1) by (simp add: bc1_def)
    note d1 = bc_readsD [OF r1]
    obtain bc2 where g2: "bc_GetBlock B (blockHash B p) (blockNumber p) bc1 = (Some p, bc2)" "bc_reads B U g bc1 bc2"
      using bc_GetBlock_stored [OF u d1(1)] p(1) d1(7) by auto
    have r2: "bc_reads B U g bc bc2" by (rule bc_reads_trans [OF r1 g2(2)])
    note d2 = bc_readsD [OF r2]
    have "stored B bc2 p" "unat n \<le> bheight p" "bheight p < k" using p Suc.prems(3,4) ne d2(7) by auto
    from Suc.IH [OF d2(1) this] obtain bs c bc' where i: "reduceChain B collect k n (Some p) bc2 = Inr (bs, Some c, bc')" "bc_reads B U g bc2 bc'" "stored B bc2 c"
      "blockNumber c = n" "down B (stored B bc2) bs p c" by blast
    have "reduceChain B collect (Suc k) n (Some b) bc = Inr (b # bs, Some c, bc')" using False g2(1) i(1) p(2,4) by (simp add: bc1_def Let_def)
    then show ?thesis using bc_reads_trans [OF r2 i(2)] i(3-5) p Suc.prems(2) unfolding d2(7) by (intro exI [of _ "b # bs"] exI [of _ c] exI [of _ bc']) auto
  qed
qed simp

lemma toCommon_spec:
  assumes u: "blockUniverse B U g" and "blocks_ok B U g bc" and "stored B bc b" "stored B bc b'" and "bheight b' = bheight b" and "bheight b < k"
  shows "\<exists>os ns c bc'. toCommon B k b b' bc = Inr (Inr (os, ns), bc') \<and> bc_reads B U g bc bc' \<and> down B (stored B bc) os b c \<and> down B (stored B bc) ns b' c"
  using assms(2-)
proof (induction k arbitrary: b b' bc)
  case (Suc k)
  show ?case
  proof (cases "blockHash B b = blockHash B b'")
    case True
    then have "b = b'" using Suc.prems(2,3) stored_known [OF u Suc.prems(1)] stored_same [OF u] by blast
    then show ?thesis using bc_reads_refl [OF Suc.prems(1)] by (intro exI [of _ "[]"] exI [of _ b] exI [of _ bc]) simp
  next
    case False
    have first: "c = g" if "stored B bc c" "bheight c = 0" for c
    proof -
      have "c \<in> U" using that(1) stored_known [OF u Suc.prems(1)] by simp
      then have "cb_header c = cb_header g" using blockUniverse_header [OF u] that(2) by (auto simp: universe_def height_def unat_eq_0)
      then show ?thesis using u \<open>c \<in> U\<close> by (auto simp: blockUniverse_def inj_on_def)
    qed
    have g0: "bheight g = 0" using blockUniverse_header [OF u] by (auto simp: universe_def height_def)
    have "b \<noteq> g" "b' \<noteq> g" using False first Suc.prems(2-4) g0 by metis+
    then obtain p p' where p: "stored B bc p" "parentHash b = blockHash B p" "bheight b = Suc (bheight p)" "blockNumber b - 1 = blockNumber p"
      and p': "stored B bc p'" "parentHash b' = blockHash B p'" "bheight b' = Suc (bheight p')" "blockNumber b' - 1 = blockNumber p'"
      using stored_parent [OF u Suc.prems(1)] Suc.prems(2,3) by meson
    define bc1 where "bc1 = collectLogs (blockHash B b) bc"
    have r1: "bc_reads B U g bc bc1" using collectLogs_reads Suc.prems(1) by (simp add: bc1_def)
    note d1 = bc_readsD [OF r1]
    obtain bc2 where g2: "bc_GetBlock B (blockHash B p) (blockNumber p) bc1 = (Some p, bc2)" "bc_reads B U g bc1 bc2"
      using bc_GetBlock_stored [OF u d1(1)] p(1) d1(7) by auto
    note d2 = bc_readsD [OF g2(2)]
    obtain bc3 where g3: "bc_GetBlock B (blockHash B p') (blockNumber p') bc2 = (Some p', bc3)" "bc_reads B U g bc2 bc3"
      using bc_GetBlock_stored [OF u d2(1)] p'(1) d1(7) d2(7) by auto
    have r3: "bc_reads B U g bc bc3" using bc_reads_trans r1 g2(2) g3(2) by blast
    note d3 = bc_readsD [OF r3]
    have "stored B bc3 p" "stored B bc3 p'" "bheight p' = bheight p" "bheight p < k" using p p' Suc.prems(4,5) d3(7) by auto
    from Suc.IH [OF d3(1) this] obtain os ns c bc' where i: "toCommon B k p p' bc3 = Inr (Inr (os, ns), bc')" "bc_reads B U g bc3 bc'"
      "down B (stored B bc3) os p c" "down B (stored B bc3) ns p' c" by blast
    have "toCommon B (Suc k) b b' bc = Inr (Inr (b # os, b' # ns), bc')" using False g2(1) g3(1) i(1) p(2,4) p'(2,4) by (simp add: bc1_def Let_def)
    then show ?thesis using bc_reads_trans [OF r3 i(2)] i(3,4) p p' Suc.prems(2,3) unfolding d3(7)
      by (intro exI [of _ "b # os"] exI [of _ "b' # ns"] exI [of _ c] exI [of _ bc']) auto
  qed
qed simp

lemma findFork_spec:
  assumes u: "blockUniverse B U g" and ok: "blocks_ok B U g bc" and b: "stored B bc old" "stored B bc new"
  shows "\<exists>os ns c bc'. findFork B old new bc = Inr (Inr (os, ns), bc') \<and> bc_reads B U g bc bc' \<and> down B (stored B bc) os old c \<and> down B (stored B bc) ns new c"
proof -
  let ?S = "stored B bc"
  define hi lo where "hi = (if blockNumber old > blockNumber new then old else new)" and "lo = (if blockNumber old > blockNumber new then new else old)"
  have S: "?S hi" "?S lo" using b by (auto simp: hi_def lo_def)
  have "unat (blockNumber lo) \<le> bheight hi" by (simp add: hi_def lo_def height_def blockNumber_def word_less_nat_alt)
  moreover have f: "bheight hi < unat (blockNumber hi) + 1" by (simp add: height_def blockNumber_def)
  ultimately obtain bs c1 bc1 where r: "reduceChain B (blockNumber old > blockNumber new) (unat (blockNumber hi) + 1) (blockNumber lo) (Some hi) bc = Inr (bs, Some c1, bc1)"
    "bc_reads B U g bc bc1" "?S c1" "blockNumber c1 = blockNumber lo" "down B ?S bs hi c1" using reduceChain_spec [OF u ok S(1)] by meson
  note d1 = bc_readsD [OF r(2)]
  have same: "bheight c1 = bheight lo" using r(4) by (simp add: height_def blockNumber_def)
  have f1: "bheight c1 < unat (blockNumber c1) + 1" by (simp add: height_def blockNumber_def)
  show ?thesis
  proof (cases "blockNumber old > blockNumber new")
    case True
    then have e: "hi = old" "lo = new" by (simp_all add: hi_def lo_def)
    obtain os ns c bc2 where t: "toCommon B (unat (blockNumber c1) + 1) c1 new bc1 = Inr (Inr (os, ns), bc2)" "bc_reads B U g bc1 bc2" "down B ?S os c1 c" "down B ?S ns new c"
      using toCommon_spec [OF u d1(1), of c1 new "unat (blockNumber c1) + 1"] r(3) b(2) same f1 unfolding d1(7) e by auto
    have "findFork B old new bc = Inr (Inr (bs @ os, ns), bc2)" using True r(1) t(1) by (simp add: findFork_def Let_def e del: reduceChain.simps toCommon.simps)
    then show ?thesis using bc_reads_trans [OF r(2) t(2)] down_append r(5) t(3,4) unfolding e by blast
  next
    case False
    then have e: "hi = new" "lo = old" by (simp_all add: hi_def lo_def)
    obtain os ns c bc2 where t: "toCommon B (unat (blockNumber c1) + 1) old c1 bc1 = Inr (Inr (os, ns), bc2)" "bc_reads B U g bc1 bc2" "down B ?S os old c" "down B ?S ns c1 c"
      using toCommon_spec [OF u d1(1), of old c1 "unat (blockNumber c1) + 1"] r(3) b(1) same f1 unfolding d1(7) e by auto
    have "findFork B old new bc = Inr (Inr (os, bs @ ns), bc2)" using False r(1) t(1) by (simp add: findFork_def Let_def e del: reduceChain.simps toCommon.simps)
    then show ?thesis using bc_reads_trans [OF r(2) t(2)] down_append r(5) t(3,4) unfolding e by blast
  qed
qed

end
