(* ===== verification/Chain_Insert.thy ===== *)
theory Chain_Insert
  imports Chain_Reorg
begin

text \<open>
  Writing a block keeps the invariant of the chain of blocks: every stored block has its parent and its body, the caches agree with the database, and
  the canonical numbers lead from the first block to the current one, which has the highest total difficulty.
\<close>

section \<open>Inserting heads\<close>

text \<open>What reading, renumbering and writing transactions and receipts keep.\<close>

definition bc_kept :: "bcEnv \<Rightarrow> chainBlock set \<Rightarrow> chainBlock \<Rightarrow> BlockChain \<Rightarrow> BlockChain \<Rightarrow> bool" where
  "bc_kept B U g bc bc' \<longleftrightarrow> blocks_ok B U g bc' \<and> known (be_eng B) (bc_db bc') = known (be_eng B) (bc_db bc) \<and> tdOf (be_eng B) (bc_db bc') = tdOf (be_eng B) (bc_db bc) \<and>
     stored B bc' = stored B bc \<and> bc_genesis bc' = bc_genesis bc \<and> bc_states bc' = bc_states bc"

lemma kept_trans: "bc_kept B U g a b \<Longrightarrow> bc_kept B U g b c \<Longrightarrow> bc_kept B U g a c"
  by (simp add: bc_kept_def)

lemma kept_ok: "bc_kept B U g bc bc' \<Longrightarrow> blocks_ok B U g bc'"
  by (simp add: bc_kept_def)

lemma kept_reads: "bc_reads B U g bc bc' \<Longrightarrow> bc_kept B U g bc bc'"
  using bc_readsD [of B U g bc bc'] by (simp add: bc_kept_def)

definition renewed :: "BlockChain \<Rightarrow> BlockChain \<Rightarrow> bool" where
  "renewed bc bc' \<longleftrightarrow> cs_headers (bc_db bc') = cs_headers (bc_db bc) \<and> cs_numbers (bc_db bc') = cs_numbers (bc_db bc) \<and> cs_tds (bc_db bc') = cs_tds (bc_db bc) \<and>
     bc_bodies bc' = bc_bodies bc \<and> bc_blockCache bc' = bc_blockCache bc \<and> hc_headerCache (bc_hc bc') = hc_headerCache (bc_hc bc) \<and>
     hc_tdCache (bc_hc bc') = hc_tdCache (bc_hc bc) \<and> hc_numberCache (bc_hc bc') = hc_numberCache (bc_hc bc) \<and> bc_genesis bc' = bc_genesis bc \<and> bc_states bc' = bc_states bc"

lemma store_frame:
  assumes "cs_headers db' = cs_headers db" "cs_numbers db' = cs_numbers db" "cs_tds db' = cs_tds db"
  shows "db_GetHeader h n db' = db_GetHeader h n db" "known E db' = known E db" "tdOf E db' = tdOf E db" "store_ok E H g db' = store_ok E H g db"
  using assms by (simp_all add: db_GetHeader_def db_GetTd_def known_def tdOf_def store_ok_def fun_eq_iff)

lemma stored_frame: "(\<And>h n. db_GetHeader h n (bc_db bc') = db_GetHeader h n (bc_db bc)) \<Longrightarrow> bc_bodies bc' = bc_bodies bc \<Longrightarrow> stored B bc' = stored B bc"
  by (simp add: stored_def db_GetBlock_def fun_eq_iff cong: option.case_cong)

lemma kept_renewed:
  assumes ok: "blocks_ok B U g bc" and r: "renewed bc bc'"
  shows "bc_kept B U g bc bc'"
proof -
  have "cs_headers (bc_db bc') = cs_headers (bc_db bc)" "cs_numbers (bc_db bc') = cs_numbers (bc_db bc)" "cs_tds (bc_db bc') = cs_tds (bc_db bc)" using r by (auto simp: renewed_def)
  note f = store_frame [OF this]
  have st: "stored B bc' = stored B bc" by (rule stored_frame) (use r f(1) in \<open>auto simp: renewed_def\<close>)
  have "caches_ok (be_eng B) (bc_hc bc')" using ok r f(2,3) by (simp add: caches_ok_def blocks_ok_def renewed_def bc_db_def)
  then have "blocks_ok B U g bc'" using ok r by (simp add: blocks_ok_def f st renewed_def)
  then show ?thesis using r st by (simp add: bc_kept_def f renewed_def)
qed

lemma renewed_trans: "renewed a b \<Longrightarrow> renewed b c \<Longrightarrow> renewed a c"
  by (simp add: renewed_def)

lemma renewed_refl: "renewed bc bc"
  by (simp add: renewed_def)

lemma bc_insert_spec:
  shows "renewed bc (bc_insert B b bc)" and "bc_current (bc_insert B b bc) = b"
    and "bheight b < 2 ^ 64 \<Longrightarrow> m < 2 ^ 64 \<Longrightarrow> canonOf (bc_db (bc_insert B b bc)) m = (if m = bheight b then Some (blockHash B b) else canonOf (bc_db bc) m)"
proof -
  show "renewed bc (bc_insert B b bc)" by (simp add: renewed_def bc_insert_def Let_def SetCurrentHeader_def bc_db_def WriteCanonicalHash_def)
  show "bc_current (bc_insert B b bc) = b" by (simp add: bc_insert_def Let_def)
  have "cs_canon (bc_db (bc_insert B b bc)) = cs_canon (WriteCanonicalHash (blockHash B b) (blockNumber b) (bc_db bc))"
    by (simp add: bc_insert_def Let_def SetCurrentHeader_def bc_db_def WriteCanonicalHash_def)
  then have "canonOf (bc_db (bc_insert B b bc)) m = canonOf (WriteCanonicalHash (blockHash B b) (blockNumber b) (bc_db bc)) m" by (simp add: canonOf_def)
  then show "canonOf (bc_db (bc_insert B b bc)) m = (if m = bheight b then Some (blockHash B b) else canonOf (bc_db bc) m)" if "bheight b < 2 ^ 64" "m < 2 ^ 64"
    using write_canon(2) [OF that(2,1), of "blockHash B b" "bc_db bc"] by (simp add: height_number blockNumber_def)
qed

lemma write_transactions:
  assumes "\<forall>tx\<in>set (cb_txs b). tx_Sender tx \<noteq> None"
  shows "\<exists>t m hm. WriteTransactions B b bc = Inr (bc\<lparr>bc_txs := t, bc_txMeta := m, bc_headerMeta := hm\<rparr>)"
proof -
  have "\<exists>t m hm. fold_res (writeTransaction B b) xs bc = Inr (bc\<lparr>bc_txs := t, bc_txMeta := m, bc_headerMeta := hm\<rparr>)" if "\<forall>(i, tx)\<in>set xs. tx_Sender tx \<noteq> None" for xs
    using that
  proof (induction xs arbitrary: bc)
    case Nil
    show ?case by (intro exI [of _ "bc_txs bc"] exI [of _ "bc_txMeta bc"] exI [of _ "bc_headerMeta bc"]) simp
  next
    case (Cons x xs)
    obtain i tx where x: "x = (i, tx)" by fastforce
    then obtain h where h: "ZKHashTx (be_cross B) tx = Inr h" using Cons.prems ZKHashTx_total [of tx] by auto
    have "\<exists>t m hm. writeTransaction B b x bc = Inr (bc\<lparr>bc_txs := t, bc_txMeta := m, bc_headerMeta := hm\<rparr>)"
      by (intro exI [of _ "mput h tx (bc_txs bc)"] exI [of _ "mput h (blockHash B b, blockNumber b, of_nat i) (bc_txMeta bc)"]
        exI [of _ "if tx_TxType tx = TxHeader then fold (\<lambda>hh. mput hh (blockHash B b, blockNumber b, h, of_nat i)) (tx_Headers tx) (bc_headerMeta bc) else bc_headerMeta bc"])
        (simp add: writeTransaction_def x h Let_def)
    then obtain t m hm where w: "writeTransaction B b x bc = Inr (bc\<lparr>bc_txs := t, bc_txMeta := m, bc_headerMeta := hm\<rparr>)" by blast
    have "\<forall>(i, tx)\<in>set xs. tx_Sender tx \<noteq> None" using Cons.prems by simp
    from Cons.IH [OF this, of "bc\<lparr>bc_txs := t, bc_txMeta := m, bc_headerMeta := hm\<rparr>"] show ?case using w by auto
  qed
  moreover have "\<forall>(i, tx)\<in>set (zip [0..<length (cb_txs b)] (cb_txs b)). tx_Sender tx \<noteq> None" using assms by (auto dest: set_zip_rightD)
  ultimately show ?thesis unfolding WriteTransactions_def by blast
qed

lemma insertCanonical_spec:
  assumes "\<forall>tx\<in>set (cb_txs b). tx_Sender tx \<noteq> None"
  shows "\<exists>bc'. insertCanonical B b bc = Inr bc' \<and> renewed bc bc' \<and> canonOf (bc_db bc') = canonOf (bc_db (bc_insert B b bc))"
proof -
  obtain t m hm where w: "WriteTransactions B b (bc_insert B b bc) = Inr ((bc_insert B b bc)\<lparr>bc_txs := t, bc_txMeta := m, bc_headerMeta := hm\<rparr>)"
    using write_transactions [OF assms] by blast
  define bc' where "bc' = WriteReceipts (GetBlockReceipts (blockHash B b) (blockNumber b) (bc_insert B b bc)) ((bc_insert B b bc)\<lparr>bc_txs := t, bc_txMeta := m, bc_headerMeta := hm\<rparr>)"
  have "insertCanonical B b bc = Inr bc'" by (simp add: insertCanonical_def w bc'_def GetBlockReceipts_def)
  moreover have "renewed (bc_insert B b bc) bc'" using renewed_refl [of "bc_insert B b bc"] by (simp add: renewed_def bc'_def WriteReceipts_def bc_db_def)
  then have "renewed bc bc'" using renewed_trans bc_insert_spec(1) by blast
  moreover have "bc_db bc' = bc_db (bc_insert B b bc)" by (simp add: bc'_def WriteReceipts_def bc_db_def)
  ultimately show ?thesis by auto
qed

lemma chained_cong:
  assumes "chained E g db x" and "known E db' = known E db" and "\<forall>m\<le>height x. canonOf db' m = canonOf db m"
  shows "chained E g db' x"
proof -
  have n: "atNumber E db' m y = atNumber E db m y" if "m \<le> height x" for m y using atNumber_cong assms(2,3) that by blast
  have c: "canonOf db' (m - 1) = canonOf db (m - 1)" if "m \<le> height x" for m using assms(3) that by simp
  show ?thesis using assms(1) n c unfolding chained_def by auto
qed

lemma chained_parent:
  assumes u: "universe E H g" and s: "store_ok E H g db" and c: "chained E g db x" and p: "known E db p" "h_ParentHash x = ZKHashBlock E p" "height x = Suc (height p)"
  shows "chained E g db p"
proof -
  have "0 < height x \<longrightarrow> height x \<le> height x \<longrightarrow> (\<exists>y. atNumber E db (height x) y \<and> canonOf db (height x - 1) = Some (h_ParentHash y))"
    using c unfolding chained_def by blast
  then obtain y where y: "atNumber E db (height x) y" "canonOf db (height p) = Some (h_ParentHash y)" using p(3) by auto
  have "y = x" using y(1) c known_same [OF u s] by (auto simp: atNumber_def chained_def)
  then have "atNumber E db (height p) p" using y(2) p by (simp add: atNumber_def)
  then show ?thesis using c p(3) unfolding chained_def by (metis le_SucI)
qed

lemma chained_down:
  assumes u: "blockUniverse B U g" and ok: "blocks_ok B U g bc" and "chained (be_eng B) (cb_header g) (bc_db bc) (cb_header b)" and "down B (stored B bc) xs b c"
  shows "chained (be_eng B) (cb_header g) (bc_db bc) (cb_header c)"
  using assms(3,4)
proof (induction xs arbitrary: b)
  case (Cons x xs)
  then obtain p where p: "stored B bc p" "parentHash b = blockHash B p" "bheight b = Suc (bheight p)" "down B (stored B bc) xs p c" by auto
  have s: "store_ok (be_eng B) (cb_header ` U) (cb_header g) (bc_db bc)" using ok by (simp add: blocks_ok_def)
  have "known (be_eng B) (bc_db bc) (cb_header p)" using p(1) stored_known [OF u ok] by simp
  then have "chained (be_eng B) (cb_header g) (bc_db bc) (cb_header p)"
    using chained_parent [OF blockUniverse_header [OF u] s Cons.prems(1)] p(2,3) by (simp add: parentHash_def blockHash_def)
  then show ?case using Cons.IH p(4) by blast
qed simp

lemma insertAll_spec:
  assumes u: "blockUniverse B U g" and "blocks_ok B U g bc" and "down B (stored B bc) ns b c" and "chained (be_eng B) (cb_header g) (bc_db bc) (cb_header c)"
  shows "\<exists>bc'. fold_res (insertCanonical B) ns bc = Inr bc' \<and> renewed bc bc' \<and> chained (be_eng B) (cb_header g) (bc_db bc') (cb_header b) \<and>
    (\<forall>m<2 ^ 64. bheight b < m \<longrightarrow> canonOf (bc_db bc') m = canonOf (bc_db bc) m) \<and> bheight c \<le> bheight b"
  using assms(2-)
proof (induction ns arbitrary: b bc)
  case Nil
  then show ?case using renewed_refl by (intro exI [of _ bc]) simp
next
  case (Cons x ns)
  let ?E = "be_eng B" and ?g = "cb_header g"
  obtain p where p: "stored B bc p" "parentHash b = blockHash B p" "bheight b = Suc (bheight p)" "down B (stored B bc) ns p c" and b: "x = b" "stored B bc b" using Cons.prems(2) by auto
  have bU: "b \<in> U" and kb: "known ?E (bc_db bc) (cb_header b)" using b(2) stored_known [OF u Cons.prems(1)] by auto
  have small: "bheight b < 2 ^ 64" using height_small [OF blockUniverse_header [OF u], of "cb_header b"] bU by auto
  have "\<forall>tx\<in>set (cb_txs b). tx_Sender tx \<noteq> None" using u bU by (simp add: blockUniverse_def)
  then obtain bc1 where i: "insertCanonical B b bc = Inr bc1" "renewed bc bc1" "canonOf (bc_db bc1) = canonOf (bc_db (bc_insert B b bc))" using insertCanonical_spec by blast
  have k1: "bc_kept B U g bc bc1" by (rule kept_renewed [OF Cons.prems(1) i(2)])
  have cn: "canonOf (bc_db bc1) m = (if m = bheight b then Some (blockHash B b) else canonOf (bc_db bc) m)" if "m < 2 ^ 64" for m
    using bc_insert_spec(3) [OF small that] i(3) by simp
  have hc: "bheight c \<le> bheight p" using p(4)
    by (induction ns arbitrary: p) (auto, fastforce)
  have "chained ?E ?g (bc_db bc1) (cb_header c)" by (rule chained_cong [OF Cons.prems(3)]) (use k1 cn hc p(3) small in \<open>auto simp: bc_kept_def\<close>)
  moreover have "down B (stored B bc1) ns p c" using p(4) k1 by (simp add: bc_kept_def)
  ultimately obtain bc2 where f: "fold_res (insertCanonical B) ns bc1 = Inr bc2" "renewed bc1 bc2" "chained ?E ?g (bc_db bc2) (cb_header p)"
    "\<forall>m<2 ^ 64. bheight p < m \<longrightarrow> canonOf (bc_db bc2) m = canonOf (bc_db bc1) m" using Cons.IH [OF kept_ok [OF k1]] by blast
  have r2: "renewed bc bc2" by (rule renewed_trans [OF i(2) f(2)])
  have "known ?E (bc_db bc2) (cb_header b)" using kept_renewed [OF Cons.prems(1) r2] kb by (simp add: bc_kept_def)
  then have "chained ?E ?g (bc_db bc2) (cb_header b)"
    by (rule chained_step [OF f(3) _ p(3) _ _ refl]) (use p(2,3) f(4) cn small in \<open>auto simp: parentHash_def blockHash_def\<close>)
  moreover have "fold_res (insertCanonical B) (x # ns) bc = Inr bc2" using i(1) f(1) b(1) by simp
  ultimately show ?case using r2 f(4) cn p(3) hc by (intro exI [of _ bc2]) auto
qed

section \<open>Reorganisation\<close>

lemma hashAll_total:
  assumes "\<forall>tx\<in>set txs. tx_Sender tx \<noteq> None"
  shows "\<exists>r. hashAll B txs = Inr r"
proof -
  have "\<exists>hs. txHashes (be_cross B) txs = Inr hs" using assms
  proof (induction txs)
    case (Cons t txs)
    then obtain g where "ZKHashTx (be_cross B) t = Inr g" using ZKHashTx_total by fastforce
    then show ?case using Cons by auto
  qed simp
  then show ?thesis by (auto simp: hashAll_def)
qed

lemma delete_renewed: "renewed bc (fold (\<lambda>(h, tx) bc. DeleteTransaction h (DeleteReceipt h bc)) diff bc)"
proof (induction diff arbitrary: bc)
  case (Cons x diff)
  obtain h tx where "x = (h, tx)" by fastforce
  moreover have "renewed bc (DeleteTransaction h (DeleteReceipt h bc))" by (simp add: renewed_def DeleteTransaction_def DeleteReceipt_def bc_db_def)
  ultimately show ?case using renewed_trans [OF _ Cons.IH] by simp
qed (simp add: renewed_refl)

lemma delete_db: "bc_db (fold (\<lambda>(h, tx) bc. DeleteTransaction h (DeleteReceipt h bc)) diff bc) = bc_db bc"
  by (induction diff arbitrary: bc) (auto simp: DeleteTransaction_def DeleteReceipt_def bc_db_def)

lemma reorg_spec:
  assumes u: "blockUniverse B U g" and ok: "blocks_ok B U g bc" and b: "stored B bc old" "stored B bc new" and c: "chained (be_eng B) (cb_header g) (bc_db bc) (cb_header old)"
  shows "\<exists>txs bc'. reorg B old new bc = Inr (Inr txs, bc') \<and> bc_kept B U g bc bc' \<and> chained (be_eng B) (cb_header g) (bc_db bc') (cb_header new)"
proof -
  obtain os ns d bc1 where f: "findFork B old new bc = Inr (Inr (os, ns), bc1)" "bc_reads B U g bc bc1" "down B (stored B bc) os old d" "down B (stored B bc) ns new d"
    using findFork_spec [OF u ok b] by blast
  note d1 = bc_readsD [OF f(2)]
  have "chained (be_eng B) (cb_header g) (bc_db bc1) (cb_header d)" using chained_down [OF u ok c f(3)] d1(2) by simp
  then obtain bc2 where i: "fold_res (insertCanonical B) ns bc1 = Inr bc2" "renewed bc1 bc2" "chained (be_eng B) (cb_header g) (bc_db bc2) (cb_header new)"
    using insertAll_spec [OF u d1(1), of ns new d] f(4) d1(7) by auto
  have send: "\<forall>tx\<in>set (concat (map cb_txs xs)). tx_Sender tx \<noteq> None" if "\<forall>x\<in>set xs. stored B bc x" for xs
    using that u stored_known [OF u ok] by (fastforce simp: blockUniverse_def)
  obtain r1 r2 where "hashAll B (concat (map cb_txs os)) = Inr r1" "hashAll B (concat (map cb_txs ns)) = Inr r2"
    using hashAll_total send down_all [OF f(3)] down_all [OF f(4)] by meson
  then obtain diff where t: "TxDifference B (concat (map cb_txs os)) (concat (map cb_txs ns)) = Inr diff" by (simp add: TxDifference_def)
  define bc3 where "bc3 = fold (\<lambda>(h, tx) bc. DeleteTransaction h (DeleteReceipt h bc)) diff bc2"
  have "reorg B old new bc = Inr (Inr (map snd diff), bc3)" by (simp add: reorg_def f(1) i(1) t bc3_def)
  moreover have "renewed bc1 bc3" unfolding bc3_def by (rule renewed_trans [OF i(2) delete_renewed])
  then have "bc_kept B U g bc bc3" using kept_trans [OF kept_reads [OF f(2)]] kept_renewed [OF d1(1)] by blast
  moreover have "chained (be_eng B) (cb_header g) (bc_db bc3) (cb_header new)" using i(3) by (simp add: bc3_def delete_db)
  ultimately show ?thesis by blast
qed

section \<open>Writing a block\<close>

definition bc_ok :: "bcEnv \<Rightarrow> chainBlock set \<Rightarrow> BlockChain \<Rightarrow> bool" where
  "bc_ok B U bc \<longleftrightarrow> blocks_ok B U (bc_genesis bc) bc \<and> stored B bc (bc_current bc) \<and>
     chained (be_eng B) (cb_header (bc_genesis bc)) (bc_db bc) (cb_header (bc_current bc)) \<and> heaviest (be_eng B) (bc_db bc) (cb_header (bc_current bc))"

lemma bc_reads_ok: "bc_ok B U bc \<Longrightarrow> bc_reads B U (bc_genesis bc) bc bc' \<Longrightarrow> bc_ok B U bc'"
  using bc_readsD [of B U "bc_genesis bc" bc bc'] by (simp add: bc_ok_def)

text \<open>Storing a block keeps the caches and the bodies.\<close>

lemma store_block:
  assumes u: "blockUniverse B U g" and ok: "blocks_ok B U g bc" and b: "b \<in> U" and p: "known (be_eng B) (bc_db bc) p" "parentHash b = ZKHashBlock (be_eng B) p" "tdOf (be_eng B) (bc_db bc) p = Some ptd"
  defines "bc' \<equiv> db_WriteBlock B b (bc\<lparr>bc_hc := hc_WriteTd (blockHash B b) (blockNumber b) (h_Difficulty (cb_header b) + ptd) (bc_hc bc)\<rparr>)"
  shows "blocks_ok B U g bc'" and "known (be_eng B) (bc_db bc') y \<longleftrightarrow> y = cb_header b \<or> known (be_eng B) (bc_db bc) y" and "tdOf (be_eng B) (bc_db bc') (cb_header b) = Some (h_Difficulty (cb_header b) + ptd)"
    and "known (be_eng B) (bc_db bc) y \<Longrightarrow> tdOf (be_eng B) (bc_db bc') y = tdOf (be_eng B) (bc_db bc) y" and "canonOf (bc_db bc') = canonOf (bc_db bc)"
    and "bc_genesis bc' = bc_genesis bc" "bc_current bc' = bc_current bc" "bc_states bc' = bc_states bc"
proof -
  let ?E = "be_eng B" and ?x = "cb_header b" and ?td = "h_Difficulty (cb_header b) + ptd"
  have s: "store_ok ?E (cb_header ` U) (cb_header g) (bc_db bc)" and c: "caches_ok ?E (bc_hc bc)" using ok by (auto simp: blocks_ok_def)
  have xU: "?x \<in> cb_header ` U" using b by simp
  note st = store_put [OF blockUniverse_header [OF u] s xU p(1) p(2) [unfolded parentHash_def] p(3)]
  define hc where "hc = (hc_WriteTd (blockHash B b) (blockNumber b) ?td (bc_hc bc))\<lparr>hc_db := db_WriteHeader ?E ?x (db_WriteTd (ZKHashBlock ?E ?x) (numberOf ?x) ?td (bc_db bc))\<rparr>"
  have e: "bc_hc bc' = hc" "bc_bodies bc' = mput (blockNumber b, blockHash B b) (cb_txs b, cb_uncles b) (bc_bodies bc)" "bc_blockCache bc' = bc_blockCache bc"
    by (simp_all add: bc'_def db_WriteBlock_def hc_def hc_WriteTd_def WriteBody_def Let_def bc_db_def blockHash_def blockNumber_def)
  have db: "bc_db bc' = db_WriteHeader ?E ?x (db_WriteTd (ZKHashBlock ?E ?x) (numberOf ?x) ?td (bc_db bc))" by (simp add: bc_db_def e(1) hc_def)
  show k: "known ?E (bc_db bc') y \<longleftrightarrow> y = ?x \<or> known ?E (bc_db bc) y" for y using st(2) by (simp add: db)
  show tx: "tdOf ?E (bc_db bc') ?x = Some ?td" using st(3) by (simp add: db)
  show ty: "tdOf ?E (bc_db bc') y = tdOf ?E (bc_db bc) y" if "known ?E (bc_db bc) y" for y using st(4) [OF that] by (simp add: db)
  show "canonOf (bc_db bc') = canonOf (bc_db bc)" using st(5) by (simp add: db)
  show "bc_genesis bc' = bc_genesis bc" "bc_current bc' = bc_current bc" "bc_states bc' = bc_states bc" by (simp_all add: bc'_def db_WriteBlock_def WriteBody_def Let_def)
  have c': "caches_ok ?E (bc_hc bc')"
  proof -
    have "caches_ok ?E ((hc_WriteTd (ZKHashBlock ?E ?x) (blockNumber b) ?td (bc_hc bc))\<lparr>hc_db := bc_db bc'\<rparr>)"
      by (rule written_caches [OF c]) (use k tx ty in \<open>auto simp: bc_db_def\<close>)
    then show ?thesis by (simp add: e(1) hc_def db blockHash_def)
  qed
  have body: "mget (bc_bodies bc') (blockNumber d, blockHash B d) = Some (cb_txs d, cb_uncles d)" if d: "d \<in> U" "known ?E (bc_db bc') (cb_header d)" for d
  proof (cases "d = b")
    case False
    then have ne: "cb_header d \<noteq> ?x" "blockHash B d \<noteq> blockHash B b" using d(1) b stored_same [OF u] by (auto simp: blockHash_def)
    then have "known ?E (bc_db bc) (cb_header d)" using d(2) k by blast
    then show ?thesis using ok d(1) ne(2) by (auto simp: e(2) blocks_ok_def)
  qed (simp add: e(2))
  have old: "stored B bc' d" if "stored B bc d" for d
  proof -
    have "d \<in> U" "known ?E (bc_db bc') (cb_header d)" using that stored_known [OF u ok] k by auto
    then show ?thesis using body by (simp add: stored_def db_GetBlock_def known_def blockHash_def blockNumber_def)
  qed
  have "lr.holds (\<lambda>h b. h = blockHash B b \<and> stored B bc' b) (bc_blockCache bc')"
    using ok old unfolding e(3) blocks_ok_def by (auto elim!: lr.holds_mono)
  then show "blocks_ok B U g bc'" using st(1) c' body unfolding blocks_ok_def db by auto
qed

lemma chained_mono:
  assumes "chained E g db t" and k: "\<And>y. known E db y \<Longrightarrow> known E db' y" and c: "canonOf db' = canonOf db"
  shows "chained E g db' t"
proof -
  have "atNumber E db m y \<Longrightarrow> atNumber E db' m y" for m y using k c by (simp add: atNumber_def)
  then show ?thesis using assms(1) unfolding chained_def c by blast
qed

text \<open>The block becomes the head, after a reorganisation when its parent is not the current block.\<close>

lemma new_head:
  assumes u: "blockUniverse B U g" and ok: "blocks_ok B U g bc" and b: "stored B bc t" "stored B bc b" "b \<noteq> g" and c: "chained (be_eng B) (cb_header g) (bc_db bc) (cb_header t)"
  shows "\<exists>r bc'. (if parentHash b \<noteq> blockHash B t then reorg B t b bc else Inr (Inr [], bc)) = Inr (Inr r, bc') \<and> bc_kept B U g bc (bc_insert B b bc') \<and>
    chained (be_eng B) (cb_header g) (bc_db (bc_insert B b bc')) (cb_header b)"
proof -
  let ?E = "be_eng B"
  have bU: "b \<in> U" and kb: "known ?E (bc_db bc) (cb_header b)" using b(2) stored_known [OF u ok] by auto
  have small: "bheight b < 2 ^ 64" using height_small [OF blockUniverse_header [OF u], of "cb_header b"] bU by auto
  note ins = bc_insert_spec(3) [OF small]
  have kp: "bc_kept B U g bc (bc_insert B b bc')" if "bc_kept B U g bc bc'" for bc'
    using kept_trans [OF that] kept_renewed [OF kept_ok [OF that] bc_insert_spec(1)] by blast
  show ?thesis
  proof (cases "parentHash b = blockHash B t")
    case True
    obtain p where p: "stored B bc p" "parentHash b = blockHash B p" "bheight b = Suc (bheight p)" using stored_parent [OF u ok b(2,3)] by blast
    have "p = t" using True p(1,2) b(1) stored_known [OF u ok] stored_same [OF u] by auto
    have k0: "bc_kept B U g bc bc" by (rule kept_reads [OF bc_reads_refl [OF ok]])
    have k1: "known ?E (bc_db (bc_insert B b bc)) = known ?E (bc_db bc)" using kp [OF k0] by (simp add: bc_kept_def)
    have "chained ?E (cb_header g) (bc_db (bc_insert B b bc)) (cb_header b)"
      by (rule chained_step [OF c _ _ _ _ k1]) (use k1 kb p \<open>p = t\<close> ins small in \<open>auto simp: parentHash_def blockHash_def\<close>)
    then show ?thesis using True kp [OF k0] by (intro exI [of _ "[]"] exI [of _ bc]) simp
  next
    case False
    obtain r bc' where r: "reorg B t b bc = Inr (Inr r, bc')" "bc_kept B U g bc bc'" "chained ?E (cb_header g) (bc_db bc') (cb_header b)"
      using reorg_spec [OF u ok b(1,2) c] by blast
    have k1: "known ?E (bc_db (bc_insert B b bc')) = known ?E (bc_db bc')" using kp [OF r(2)] r(2) by (simp add: bc_kept_def)
    have "canonOf (bc_db bc') (bheight b) = Some (blockHash B b)" using r(3) by (simp add: chained_def atNumber_def blockHash_def)
    then have "\<forall>m\<le>bheight b. canonOf (bc_db (bc_insert B b bc')) m = canonOf (bc_db bc') m" using ins small by auto
    then have "chained ?E (cb_header g) (bc_db (bc_insert B b bc')) (cb_header b)" by (rule chained_cong [OF r(3) k1])
    then show ?thesis using False kp [OF r(2)] r(1) by (intro exI [of _ r] exI [of _ bc']) simp
  qed
qed

lemma write_block_step:
  assumes u: "blockUniverse B U (bc_genesis bc)" and ok: "bc_ok B U bc" and b: "b \<in> U" and p: "stored B bc p" "parentHash b = blockHash B p" and ptd: "tdOf (be_eng B) (bc_db bc) (cb_header p) = Some ptd"
  shows "\<exists>lt bc1. tdOf (be_eng B) (bc_db bc) (cb_header (bc_current bc)) = Some lt \<and> bc_reads B U (bc_genesis bc) bc bc1 \<and>
    (let bc3 = db_WriteBlock B b (bc1\<lparr>bc_hc := hc_WriteTd (blockHash B b) (blockNumber b) (h_Difficulty (cb_header b) + ptd) (bc_hc bc1)\<rparr>);
         finish = (\<lambda>bc st. Inr (Inr st, bc\<lparr>bc_futureBlocks := mdel (blockHash B b) (bc_futureBlocks bc)\<rparr>))
     in bc_WriteBlock B coin b bc =
       (if h_Difficulty (cb_header b) + ptd > lt \<or> h_Difficulty (cb_header b) + ptd = lt \<and> coin
        then bind_res (if parentHash b \<noteq> blockHash B (bc_current bc) then reorg B (bc_current bc) b bc3 else Inr (Inr [], bc3)) (\<lambda>(r, bc).
          case r of Inl e \<Rightarrow> Inr (Inl e, bc) | Inr _ \<Rightarrow> finish (bc_insert B b bc) CanonStatTy)
        else finish bc3 SideStatTy))"
proof -
  let ?E = "be_eng B" and ?g = "bc_genesis bc" and ?t = "bc_current bc"
  have bl: "blocks_ok B U ?g bc" and st: "stored B bc ?t" using ok by (auto simp: bc_ok_def)
  have s: "store_ok ?E (cb_header ` U) (cb_header ?g) (hc_db (bc_hc bc))" and c: "caches_ok ?E (bc_hc bc)" and Q: "lr.holds (\<lambda>h b. h = blockHash B b \<and> stored B bc b) (bc_blockCache bc)"
    using bl by (auto simp: blocks_ok_def bc_db_def)
  note uh = blockUniverse_header [OF u]
  have kp: "p \<in> U" "known ?E (hc_db (bc_hc bc)) (cb_header p)" and kt: "?t \<in> U" "known ?E (hc_db (bc_hc bc)) (cb_header ?t)" using p(1) st stored_known [OF u bl] by (auto simp: bc_db_def)
  have np: "blockNumber b - 1 = numberOf (cb_header p)" using parent_height(2) [OF uh, of "cb_header b" "cb_header p"] b kp(1) p(2) by (simp add: parentHash_def blockHash_def blockNumber_def)
  obtain hc1 where g1: "hc_GetTd (parentHash b) (blockNumber b - 1) (bc_hc bc) = (Some ptd, hc1)" "reads ?E (bc_hc bc) hc1"
    using hc_GetTd_known [OF uh s c kp(2)] p(2) np ptd by (auto simp: blockHash_def bc_db_def)
  have e1: "hc_db hc1 = hc_db (bc_hc bc)" "caches_ok ?E hc1" using g1(2) by (auto simp: reads_def)
  obtain lt hc2 where g2: "hc_GetTd (blockHash B ?t) (blockNumber ?t) hc1 = (Some lt, hc2)" "tdOf ?E (bc_db bc) (cb_header ?t) = Some lt" "reads ?E hc1 hc2"
    using hc_GetTd_known [OF uh, of hc1 "cb_header ?t"] s kt(2) e1 by (auto simp: blockHash_def blockNumber_def bc_db_def)
  have "bc_reads B U ?g bc (bc\<lparr>bc_hc := hc2\<rparr>)" using bc_readsI [OF bl reads_trans [OF g1(2) g2(3)] Q] by simp
  then show ?thesis using g1(1) g2(1,2) by (intro exI [of _ lt] exI [of _ "bc\<lparr>bc_hc := hc2\<rparr>"]) (simp add: bc_WriteBlock_def Let_def db_WriteBlock_def WriteBody_def)
qed

lemma write_block_known:
  assumes u: "blockUniverse B U (bc_genesis bc)" and ok: "bc_ok B U bc" and b: "b \<in> U" and p: "stored B bc p" "parentHash b = blockHash B p"
  shows "\<exists>st bc'. bc_WriteBlock B coin b bc = Inr (Inr st, bc') \<and> bc_ok B U bc' \<and> bc_genesis bc' = bc_genesis bc \<and> bc_states bc' = bc_states bc \<and>
    (\<forall>d. stored B bc' d \<longleftrightarrow> d = b \<or> stored B bc d) \<and> bc_current bc' = (if st = CanonStatTy then b else bc_current bc) \<and> st \<noteq> NonStatTy"
proof -
  let ?E = "be_eng B" and ?g = "bc_genesis bc" and ?t = "bc_current bc"
  have bl: "blocks_ok B U ?g bc" and st: "stored B bc ?t" and ch: "chained ?E (cb_header ?g) (bc_db bc) (cb_header ?t)" and top: "heaviest ?E (bc_db bc) (cb_header ?t)" using ok by (auto simp: bc_ok_def)
  have kp: "p \<in> U" "known ?E (bc_db bc) (cb_header p)" and kt: "?t \<in> U" "known ?E (bc_db bc) (cb_header ?t)" using p(1) st stored_known [OF u bl] by auto
  have s: "store_ok ?E (cb_header ` U) (cb_header ?g) (bc_db bc)" using bl by (simp add: blocks_ok_def)
  obtain ptd where ptd: "tdOf ?E (bc_db bc) (cb_header p) = Some ptd" using known_td [OF s kp(2)] by blast
  let ?td = "h_Difficulty (cb_header b) + ptd"
  from write_block_step [OF u ok b p ptd, of coin] obtain lt bc1 where lt: "tdOf ?E (bc_db bc) (cb_header ?t) = Some lt" and r1: "bc_reads B U ?g bc bc1"
    and step: "let bc3 = db_WriteBlock B b (bc1\<lparr>bc_hc := hc_WriteTd (blockHash B b) (blockNumber b) ?td (bc_hc bc1)\<rparr>);
         finish = (\<lambda>bc st. Inr (Inr st, bc\<lparr>bc_futureBlocks := mdel (blockHash B b) (bc_futureBlocks bc)\<rparr>))
     in bc_WriteBlock B coin b bc =
       (if ?td > lt \<or> ?td = lt \<and> coin
        then bind_res (if parentHash b \<noteq> blockHash B (bc_current bc) then reorg B (bc_current bc) b bc3 else Inr (Inr [], bc3)) (\<lambda>(r, bc).
          case r of Inl e \<Rightarrow> Inr (Inl e, bc) | Inr _ \<Rightarrow> finish (bc_insert B b bc) CanonStatTy)
        else finish bc3 SideStatTy)" by blast
  note d1 = bc_readsD [OF r1]
  define bc3 where "bc3 = db_WriteBlock B b (bc1\<lparr>bc_hc := hc_WriteTd (blockHash B b) (blockNumber b) ?td (bc_hc bc1)\<rparr>)"
  have "known ?E (bc_db bc1) (cb_header p)" "parentHash b = ZKHashBlock ?E (cb_header p)" "tdOf ?E (bc_db bc1) (cb_header p) = Some ptd" using kp(2) p(2) ptd d1(2) by (auto simp: blockHash_def)
  note sb = store_block [OF u d1(1) b this, folded bc3_def, unfolded d1(2,4,5,6)]
  have st3: "stored B bc3 d \<longleftrightarrow> d = b \<or> stored B bc d" for d
    using stored_known [OF u sb(1)] stored_known [OF u bl] sb(2) b u by (auto simp: blockUniverse_def inj_on_def)
  have bg: "b \<noteq> ?g" using blockUniverse_header [OF u] p(2) kp(1) by (auto simp: universe_def parentHash_def blockHash_def)
  have ch3: "chained ?E (cb_header ?g) (bc_db bc3) (cb_header ?t)" by (rule chained_mono [OF ch]) (use sb(2,5) in auto)
  have old: "td \<le> lt" if "known ?E (bc_db bc3) y" "y \<noteq> cb_header b" "tdOf ?E (bc_db bc3) y = Some td" for y td
    using that top sb(2,4) lt unfolding heaviest_def by metis
  define fin where "fin bc = bc\<lparr>bc_futureBlocks := mdel (blockHash B b) (bc_futureBlocks bc)\<rparr>" for bc :: BlockChain
  have fin: "renewed bcx (fin bcx)" "bc_db (fin bcx) = bc_db bcx" "bc_current (fin bcx) = bc_current bcx" "bc_genesis (fin bcx) = bc_genesis bcx" "bc_states (fin bcx) = bc_states bcx" for bcx
    by (simp_all add: fin_def renewed_def bc_db_def)
  show ?thesis
  proof (cases "?td > lt \<or> ?td = lt \<and> coin")
    case True
    obtain r bc4 where h: "(if parentHash b \<noteq> blockHash B ?t then reorg B ?t b bc3 else Inr (Inr [], bc3)) = Inr (Inr r, bc4)" "bc_kept B U ?g bc3 (bc_insert B b bc4)"
      "chained ?E (cb_header ?g) (bc_db (bc_insert B b bc4)) (cb_header b)" using new_head [OF u sb(1) _ _ bg ch3] st3 st by blast
    define bc5 where "bc5 = fin (bc_insert B b bc4)"
    have k5: "bc_kept B U ?g bc3 bc5" using kept_trans [OF h(2)] kept_renewed [OF kept_ok [OF h(2)] fin(1)] by (simp add: bc5_def)
    have e: "bc_WriteBlock B coin b bc = Inr (Inr CanonStatTy, bc5)" using step True h(1) by (simp add: Let_def bc3_def [symmetric] bc5_def fin_def)
    have cur: "bc_current bc5 = b" "bc_db bc5 = bc_db (bc_insert B b bc4)" by (simp_all add: bc5_def fin bc_insert_spec(2))
    have "heaviest ?E (bc_db bc3) (cb_header b)" unfolding heaviest_def using old sb(3) True by fastforce
    then have "heaviest ?E (bc_db bc5) (cb_header b)" using k5 by (simp add: heaviest_def bc_kept_def)
    then have "bc_ok B U bc5" using k5 h(3) cur st3 sb(6) by (simp add: bc_ok_def bc_kept_def)
    then show ?thesis using e k5 st3 sb(6,8) cur by (intro exI [of _ CanonStatTy] exI [of _ bc5]) (simp add: bc_kept_def)
  next
    case False
    define bc5 where "bc5 = fin bc3"
    have k5: "bc_kept B U ?g bc3 bc5" using kept_renewed [OF sb(1) fin(1)] by (simp add: bc5_def)
    have e: "bc_WriteBlock B coin b bc = Inr (Inr SideStatTy, bc5)" using step False by (simp add: Let_def bc3_def [symmetric] bc5_def fin_def)
    have cur: "bc_current bc5 = ?t" "bc_db bc5 = bc_db bc3" by (simp_all add: bc5_def fin sb)
    have "heaviest ?E (bc_db bc3) (cb_header ?t)" unfolding heaviest_def using old sb(3) sb(4) [OF kt(2)] lt False by fastforce
    then have "bc_ok B U bc5" using k5 ch3 cur st3 st sb(6) by (simp add: bc_ok_def bc_kept_def)
    then show ?thesis using e k5 st3 sb(6,8) cur by (intro exI [of _ SideStatTy] exI [of _ bc5]) (simp add: bc_kept_def)
  qed
qed

lemma write_block_unknown:
  assumes u: "blockUniverse B U (bc_genesis bc)" and ok: "bc_ok B U bc" and b: "b \<in> U" and no: "\<nexists>p. stored B bc p \<and> parentHash b = blockHash B p"
  shows "\<exists>bc'. bc_WriteBlock B coin b bc = Inr (Inl (EngineError UnknownAncestor), bc') \<and> bc_reads B U (bc_genesis bc) bc bc'"
proof -
  let ?E = "be_eng B" and ?g = "bc_genesis bc"
  have bl: "blocks_ok B U ?g bc" using ok by (simp add: bc_ok_def)
  have s: "store_ok ?E (cb_header ` U) (cb_header ?g) (hc_db (bc_hc bc))" and c: "caches_ok ?E (bc_hc bc)" and Q: "lr.holds (\<lambda>h b. h = blockHash B b \<and> stored B bc b) (bc_blockCache bc)"
    using bl by (auto simp: blocks_ok_def bc_db_def)
  obtain r hc1 where g: "hc_GetTd (parentHash b) (blockNumber b - 1) (bc_hc bc) = (r, hc1)" by fastforce
  note d = hc_GetTd_reads [OF s c g]
  have "r = None"
  proof (rule ccontr)
    assume "r \<noteq> None"
    then obtain x where x: "known ?E (bc_db bc) x" "parentHash b = ZKHashBlock ?E x" using d by (auto simp: bc_db_def)
    then obtain q where q: "q \<in> U" "x = cb_header q" using known_in [OF s] by (auto simp: bc_db_def)
    then have "stored B bc q" using stored_known [OF u bl] x(1) by simp
    then show False using no x(2) q(2) by (auto simp: blockHash_def)
  qed
  moreover have "bc_reads B U ?g bc (bc\<lparr>bc_hc := hc1\<rparr>)" using bc_readsI [OF bl _ Q, of hc1] d by simp
  ultimately show ?thesis using g by (simp add: bc_WriteBlock_def)
qed

end
