(* ===== verification/Chain_Import.thy ===== *)
theory Chain_Import
  imports Chain_Insert
begin

text \<open>
  The chains of blocks that a node reaches from a committed first block by importing blocks and by writing blocks of its own:
  they satisfy the invariant of \<open>Chain_Insert\<close>, and every imported block has been validated against the state of its parent.
\<close>

section \<open>The first block\<close>

text \<open>The headers are read before and after the current header is set, which only moves a mark in the database.\<close>

lemma set_current_renewed: "renewed bc (bc\<lparr>bc_hc := SetCurrentHeader (be_eng B) x (bc_hc bc), bc_current := b\<rparr>)"
  by (simp add: renewed_def SetCurrentHeader_def bc_db_def)

lemma bc_GetBlockByHash_reads:
  assumes u: "blockUniverse B U g" and ok: "blocks_ok B U g bc" and r: "bc_GetBlockByHash B h bc = (r, bc')"
  shows "bc_reads B U g bc bc' \<and> (\<forall>b. r = Some b \<longrightarrow> stored B bc b \<and> h = blockHash B b)"
proof -
  obtain n hc where n: "hc_GetBlockNumber h (bc_hc bc) = (n, hc)" by fastforce
  have r1: "bc_reads B U g bc (collectLogs h bc)" by (rule collectLogs_reads [OF ok])
  have e: "bc\<lparr>bc_hc := hc\<rparr> = collectLogs h bc" by (simp add: collectLogs_def n)
  have "bc_GetBlock B h n (collectLogs h bc) = (r, bc')" using r n by (simp add: bc_GetBlockByHash_def e)
  then show ?thesis using bc_GetBlock_reads [OF u bc_readsD(1) [OF r1]] bc_reads_trans [OF r1] bc_readsD(7) [OF r1] by metis
qed

lemma td_reads:
  assumes ok: "blocks_ok B U g bc"
  shows "bc_reads B U g bc (bc\<lparr>bc_hc := snd (hc_GetTd h n (bc_hc bc))\<rparr>)"
proof -
  obtain r hc where g: "hc_GetTd h n (bc_hc bc) = (r, hc)" by fastforce
  have "reads (be_eng B) (bc_hc bc) hc" using hc_GetTd_reads [OF _ _ g] ok unfolding blocks_ok_def bc_db_def by blast
  then show ?thesis using bc_readsI [OF ok, of hc "bc_blockCache bc"] ok g by (simp add: blocks_ok_def)
qed

lemma header_reads:
  assumes ok: "blocks_ok B U g bc" and r: "hc_GetHeaderByHash h (bc_hc bc) = (r, hc)"
  shows "bc_reads B U g bc (bc\<lparr>bc_hc := hc\<rparr>)"
proof -
  obtain n hc1 where n: "hc_GetBlockNumber h (bc_hc bc) = (n, hc1)" by fastforce
  have s: "store_ok (be_eng B) (cb_header ` U) (cb_header g) (hc_db (bc_hc bc))" and c: "caches_ok (be_eng B) (bc_hc bc)" using ok by (auto simp: blocks_ok_def bc_db_def)
  have r1: "reads (be_eng B) (bc_hc bc) hc1" using hc_GetBlockNumber_reads [OF s c, of h] n by simp
  have g: "hc_GetHeader h n hc1 = (r, hc)" using r n by (simp add: hc_GetHeaderByHash_def)
  have "reads (be_eng B) hc1 hc" using hc_GetHeader_reads [OF _ _ g] s r1 by (simp add: reads_def)
  then show ?thesis using bc_readsI [OF ok reads_trans [OF r1], of hc "bc_blockCache bc"] ok by (simp add: blocks_ok_def)
qed

text \<open>Loading keeps the invariant of the stored blocks and makes the block under the mark the current one.\<close>

lemma loadLastState_spec:
  assumes u: "blockUniverse B U g" and ok: "blocks_ok B U g bc" and b: "stored B bc b" "cs_headBlock (bc_db bc) = blockHash B b" "OpenTrie B (h_Root (cb_header b)) bc \<noteq> None"
    and r: "bc_GetBlockByHash B (blockHash B b) bc = (Some b, bc1)"
  shows "\<exists>bc'. loadLastState B bc = Some bc' \<and> bc_kept B U g bc bc' \<and> canonOf (bc_db bc') = canonOf (bc_db bc) \<and> bc_current bc' = b"
proof -
  let ?E = "be_eng B"
  have nz: "blockHash B b \<noteq> 0" using b(1) stored_known [OF u ok] blockUniverse_header [OF u] by (auto simp: universe_def blockHash_def)
  have r1: "bc_reads B U g bc bc1" using bc_GetBlockByHash_reads [OF u ok r] by blast
  note d1 = bc_readsD [OF r1]
  have o: "OpenTrie B (h_Root (cb_header b)) bc1 \<noteq> None" using b(3) d1(6) by (auto simp: OpenTrie_def)
  obtain fd hc where hc: "(if cs_headHeader (bc_db bc1) = 0 then (None, bc_hc bc1) else hc_GetHeaderByHash (cs_headHeader (bc_db bc1)) (bc_hc bc1)) = (fd, hc)" by fastforce
  have r2: "bc_reads B U g bc1 (bc1\<lparr>bc_hc := hc\<rparr>)" using hc header_reads [OF d1(1)] bc_reads_refl [OF d1(1)] by (auto split: if_splits)
  define x where "x = (case fd of Some x \<Rightarrow> x | None \<Rightarrow> cb_header b)"
  define bc2 where "bc2 = bc1\<lparr>bc_hc := SetCurrentHeader ?E x hc, bc_current := b\<rparr>"
  have k2: "bc_kept B U g (bc1\<lparr>bc_hc := hc\<rparr>) bc2" using kept_renewed [OF bc_readsD(1) [OF r2] set_current_renewed [where bc = "bc1\<lparr>bc_hc := hc\<rparr>" and B = B and x = x and b = b]] by (simp add: bc2_def)
  obtain ft bc3 where f: "(if bc_headFast bc2 = 0 then (None, bc2) else bc_GetBlockByHash B (bc_headFast bc2) bc2) = (ft, bc3)" by fastforce
  have r3: "bc_reads B U g bc2 bc3" using f bc_GetBlockByHash_reads [OF u kept_ok [OF k2]] bc_reads_refl [OF kept_ok [OF k2]] by (auto split: if_splits)
  define fb where "fb = (case ft of Some f \<Rightarrow> f | None \<Rightarrow> b)"
  define bc4 where "bc4 = bc3\<lparr>bc_hc := snd (hc_GetTd (ZKHashBlock ?E x) (numberOf x) (bc_hc bc3))\<rparr>"
  define bc5 where "bc5 = bc4\<lparr>bc_hc := snd (hc_GetTd (blockHash B b) (blockNumber b) (bc_hc bc4))\<rparr>"
  define bc6 where "bc6 = bc5\<lparr>bc_hc := snd (hc_GetTd (blockHash B fb) (blockNumber fb) (bc_hc bc5))\<rparr>"
  have r4: "bc_reads B U g bc3 bc4" unfolding bc4_def by (rule td_reads [OF bc_readsD(1) [OF r3]])
  have r5: "bc_reads B U g bc4 bc5" unfolding bc5_def by (rule td_reads [OF bc_readsD(1) [OF r4]])
  have r6: "bc_reads B U g bc5 bc6" unfolding bc6_def by (rule td_reads [OF bc_readsD(1) [OF r5]])
  have r36: "bc_reads B U g bc2 bc6" using bc_reads_trans r3 r4 r5 r6 by blast
  define bc7 where "bc7 = bc6\<lparr>bc_currentFast := fb\<rparr>"
  have k7: "bc_kept B U g bc6 bc7" by (rule kept_renewed [OF bc_readsD(1) [OF r36]]) (simp add: bc7_def renewed_def bc_db_def)
  have "bc_kept B U g bc bc7" using kept_trans kept_reads r1 r2 k2 r36 k7 by meson
  moreover have "loadLastState B bc = Some bc7"
    using nz b(2) o r hc f unfolding loadLastState_def bc7_def bc6_def bc5_def bc4_def fb_def bc2_def x_def by (simp add: Let_def split: prod.splits if_splits)
  moreover have "canonOf (bc_db bc7) = canonOf (bc_db bc)"
    using bc_readsD(2) [OF r36] bc_readsD(2) [OF r1] bc_readsD(2) [OF r2] by (simp add: bc7_def bc_db_def bc2_def SetCurrentHeader_def)
  moreover have "bc_current bc7 = b" using bc_readsD(4) [OF r36] by (simp add: bc7_def bc2_def)
  ultimately show ?thesis by blast
qed

lemma cached_block: "mget (bc_blockCache bc) h = Some b \<Longrightarrow> \<exists>bc'. bc_GetBlockByHash B h bc = (Some b, bc')"
  by (simp add: bc_GetBlockByHash_def bc_GetBlock_def lru_Get_def split: prod.splits)

lemma new_block_chain:
  assumes u: "blockUniverse B U g" and root: "h_Root (cb_header g) = zk_stateRoot (be_zk B) tr" and db: "commitGenesisBlock B difficulty g tr = Some db"
  shows "\<exists>bc. NewBlockChain B db = Some bc \<and> bc_ok B U bc \<and> bc_genesis bc = g \<and> bc_current bc = g \<and> bc_states bc = [(h_Root (cb_header g), tr)] \<and> (\<forall>b. stored B bc b \<longleftrightarrow> b = g)"
proof -
  let ?E = "be_eng B" and ?x = "cb_header g" and ?h = "blockHash B g"
  note uh = blockUniverse_header [OF u]
  have n: "numberOf ?x = 0" and gU: "g \<in> U" and nz: "?h \<noteq> 0" using uh u by (auto simp: universe_def blockUniverse_def blockHash_def)
  obtain st where st: "commitGenesis ?E difficulty ?x emptyStore = Some st" using db by (auto simp: commitGenesisBlock_def Let_def split: option.splits)
  obtain hc where hc: "NewHeaderChain ?E st = Some hc" "hc_ok ?E (cb_header ` U) hc" "hc_genesis hc = ?x" "hc_current hc = ?x" "hc_db hc = st" "\<And>y. known ?E st y \<longleftrightarrow> y = ?x"
    using new_chain_db [OF uh st] by blast
  define bc0 where "bc0 = db\<lparr>bc_hc := hc, bc_blockCache := [], bc_futureBlocks := [], bc_badBlocks := []\<rparr>"
  have d0: "bc_db db = st" "bc_bodies db = [((0, ?h), cb_txs g, cb_uncles g)]" "bc_states db = [(h_Root ?x, tr)]" "bc_headFast db = 0" "cs_headBlock st = ?h"
    using db st n root by (auto simp: commitGenesisBlock_def commitGenesis_def bc_db_def Let_def blockHash_def blockNumber_def split: if_splits)
  have b0: "bc_db bc0 = st" "bc_bodies bc0 = bc_bodies db" "bc_states bc0 = bc_states db" "bc_hc bc0 = hc" "bc_blockCache bc0 = []" by (simp_all add: bc0_def bc_db_def hc(5))
  have s: "store_ok ?E (cb_header ` U) ?x st" and c: "caches_ok ?E hc" and can: "chained ?E ?x st ?x" and top: "heaviest ?E st ?x" using hc by (auto simp: hc_ok_heaviest canonical_chained)
  have only: "b = g" if "b \<in> U" "cb_header b = ?x" for b using that gU u by (auto simp: blockUniverse_def inj_on_def)
  have "mget (bc_bodies bc0) (blockNumber b, blockHash B b) = Some (cb_txs b, cb_uncles b)" if "b \<in> U" "known ?E st (cb_header b)" for b
    using only [OF that(1)] that(2) hc(6) n by (simp add: b0 d0 mget_def blockNumber_def)
  then have ok0: "blocks_ok B U g bc0" using s c by (simp add: blocks_ok_def b0 lr.holds_def mget_def)
  have sg: "stored B bc0 b \<longleftrightarrow> b = g" for b using stored_known [OF u ok0] hc(6) gU only by (auto simp: b0)
  have "canonOf st 0 = Some (ZKHashBlock ?E ?x)" using can by (simp add: chained_def atNumber_def)
  then have gc: "GetCanonicalHash 0 (bc_db bc0) = ?h" by (simp add: GetCanonicalHash_def canonOf_def b0 blockHash_def)
  obtain bc1 where g1: "bc_GetBlock B ?h 0 bc0 = (Some g, bc1)" "bc_reads B U g bc0 bc1" using bc_GetBlock_stored [OF u ok0] sg n by (auto simp: blockNumber_def)
  have "mget (bc_blockCache bc1) ?h = Some g" using g1(1) b0(5) by (auto simp: bc_GetBlock_def lru_Get_def mget_def lru_Add_def mhas_def mget_Cons blockCacheLimit_def split: option.splits)
  note d1 = bc_readsD [OF g1(2)]
  define bc2 where "bc2 = bc1\<lparr>bc_genesis := g\<rparr>"
  have k2: "blocks_ok B U g bc2" "stored B bc2 = stored B bc1" "bc_db bc2 = bc_db bc1" "bc_states bc2 = bc_states bc1"
    using d1(1) stored_cong [of bc2 bc1 B] by (auto simp: bc2_def blocks_ok_def bc_db_def)
  obtain bc3 where r: "bc_GetBlockByHash B ?h bc2 = (Some g, bc3)" using cached_block [of bc2 ?h g B] \<open>mget (bc_blockCache bc1) ?h = Some g\<close> by (auto simp: bc2_def)
  have "OpenTrie B (h_Root ?x) bc2 \<noteq> None" using k2(4) d1(6) b0 d0 by (simp add: OpenTrie_def mget_def)
  then obtain bc where l: "loadLastState B bc2 = Some bc" "bc_kept B U g bc2 bc" "canonOf (bc_db bc) = canonOf (bc_db bc2)" "bc_current bc = g"
    using loadLastState_spec [OF u k2(1) _ _ _ r] sg k2 d1 b0 d0 by auto
  have "NewBlockChain B db = Some bc" using hc(1) gc nz g1(1) l(1) by (simp add: NewBlockChain_def d0 bc0_def [symmetric] bc_GetBlockByNumber_def Let_def bc2_def)
  moreover have gen: "bc_genesis bc = g" using l(2) by (simp add: bc_kept_def bc2_def)
  moreover have kn: "known ?E (bc_db bc) = known ?E st" "tdOf ?E (bc_db bc) = tdOf ?E st" "canonOf (bc_db bc) = canonOf st" using l(2,3) k2(3) d1(2) b0 by (auto simp: bc_kept_def)
  have "chained ?E ?x (bc_db bc) ?x" by (rule chained_mono [OF can]) (use kn in auto)
  moreover have "heaviest ?E (bc_db bc) ?x" using top by (simp add: heaviest_def kn)
  moreover have "stored B bc b \<longleftrightarrow> b = g" for b using l(2) k2(2) d1(7) sg by (simp add: bc_kept_def)
  moreover have "bc_states bc = [(h_Root ?x, tr)]" using l(2) k2(4) d1(6) b0(3) d0(3) unfolding bc_kept_def by metis
  ultimately show ?thesis using kept_ok [OF l(2)] l(4) by (intro exI [of _ bc]) (simp add: bc_ok_def)
qed

section \<open>Validation\<close>

text \<open>A state under a root: the root is its hash, or the zero root that stands for the empty trie.\<close>

definition rooted :: "bcEnv \<Rightarrow> hash \<Rightarrow> (address \<times> Account) list \<Rightarrow> bool" where
  "rooted B root tr \<longleftrightarrow> zk_stateRoot (be_zk B) tr = root \<or> root = 0 \<and> tr = []"

definition states_ok :: "bcEnv \<Rightarrow> BlockChain \<Rightarrow> bool" where
  "states_ok B bc \<longleftrightarrow> (\<forall>root tr. mget (bc_states bc) root = Some tr \<longrightarrow> zk_stateRoot (be_zk B) tr = root)"

text \<open>
  What an import establishes of a block and its parent: the transactions have the root of the header, and processing them on the state
  of the parent uses the gas of the header and gives its state root, receipts root and bloom filter.
\<close>

definition validBlock :: "bcEnv \<Rightarrow> chainBlock \<Rightarrow> chainBlock \<Rightarrow> bool" where
  "validBlock B p b \<longleftrightarrow> parentHash b = blockHash B p \<and> cb_uncles b = [] \<and> \<not> be_bad B (blockHash B b) \<and>
     DeriveShaTx (be_cross B) (cb_txs b) = Inr (h_TxHash (cb_header b)) \<and>
     (\<exists>tr receipts ls s s'. rooted B (h_Root (cb_header p)) tr \<and>
        Process (zkFor B (cb_header b)) (toProcess B b) (sdb_New tr) = Inr (Inr (receipts, ls, h_GasUsed (cb_header b), s)) \<and>
        be_bloom B receipts = h_Bloom (cb_header b) \<and> be_receiptSha B receipts = h_ReceiptHash (cb_header b) \<and>
        IntermediateRoot (zk_db (zkFor B (cb_header b))) (vm_IsEIP158 (be_vm B (cb_header b))) s = Inr s' \<and> zk_stateRoot (be_zk B) (sdb_trie s') = h_Root (cb_header b))"

lemma zkFor_simps [simp]: "zk_stateRoot (zkFor B x) = zk_stateRoot (be_zk B)" "zk_vm (zkFor B x) = be_vm B x"
  by (simp_all add: zkFor_def)

lemma OpenTrie_rooted: "states_ok B bc \<Longrightarrow> be_emptyRoot B = zk_stateRoot (be_zk B) [] \<Longrightarrow> OpenTrie B root bc = Some tr \<Longrightarrow> rooted B root tr"
  by (auto simp: OpenTrie_def states_ok_def rooted_def split: if_splits)

lemma HasBlockAndState_reads:
  assumes u: "blockUniverse B U g" and ok: "blocks_ok B U g bc" and r: "HasBlockAndState B h bc = (f, bc')"
  shows "bc_reads B U g bc bc' \<and> (f \<longrightarrow> (\<exists>b. stored B bc b \<and> h = blockHash B b))"
proof -
  obtain q bc1 where q: "bc_GetBlockByHash B h bc = (q, bc1)" by fastforce
  then show ?thesis using bc_GetBlockByHash_reads [OF u ok q] r by (auto simp: HasBlockAndState_def split: option.splits)
qed

lemma ValidateBody_spec:
  assumes u: "blockUniverse B U g" and ok: "blocks_ok B U g bc" and r: "ValidateBody B b bc = Inr (err, bc')"
  shows "bc_reads B U g bc bc' \<and> (err = None \<longrightarrow> (\<exists>p. stored B bc p \<and> parentHash b = blockHash B p) \<and> cb_uncles b = [] \<and> DeriveShaTx (be_cross B) (cb_txs b) = Inr (h_TxHash (cb_header b)))"
proof -
  obtain f1 bc1 where h1: "HasBlockAndState B (blockHash B b) bc = (f1, bc1)" by fastforce
  have r1: "bc_reads B U g bc bc1" using HasBlockAndState_reads [OF u ok h1] by blast
  note d1 = bc_readsD [OF r1]
  obtain f2 bc2 where h2: "HasBlockAndState B (parentHash b) bc1 = (f2, bc2)" by fastforce
  have r2: "bc_reads B U g bc1 bc2" "f2 \<longrightarrow> (\<exists>p. stored B bc p \<and> parentHash b = blockHash B p)" using HasBlockAndState_reads [OF u d1(1) h2] d1(7) by auto
  note r12 = bc_reads_trans [OF r1 r2(1)]
  show ?thesis using r h1 h2 r1 r12 r2(2) by (auto simp: ValidateBody_def bind_res_Inr_iff split: if_splits)
qed

section \<open>Importing\<close>

text \<open>Steps that touch neither headers nor bodies nor heads.\<close>

definition beside :: "BlockChain \<Rightarrow> BlockChain \<Rightarrow> bool" where
  "beside bc bc' \<longleftrightarrow> bc_hc bc' = bc_hc bc \<and> bc_bodies bc' = bc_bodies bc \<and> bc_blockCache bc' = bc_blockCache bc \<and> bc_genesis bc' = bc_genesis bc \<and> bc_current bc' = bc_current bc"

lemma beside_ok: "beside bc bc' \<Longrightarrow> stored B bc' = stored B bc \<and> bc_ok B U bc' = bc_ok B U bc"
  using stored_cong [of bc' bc B] by (simp add: beside_def bc_db_def bc_ok_def blocks_ok_def)

text \<open>The invariant: \<open>M\<close> are the blocks that the node has written without importing them.\<close>

definition chain_valid :: "bcEnv \<Rightarrow> chainBlock set \<Rightarrow> chainBlock \<Rightarrow> chainBlock set \<Rightarrow> BlockChain \<Rightarrow> bool" where
  "chain_valid B U g M bc \<longleftrightarrow> bc_ok B U bc \<and> bc_genesis bc = g \<and> states_ok B bc \<and> (\<forall>b. stored B bc b \<longrightarrow> b = g \<or> b \<in> M \<or> (\<exists>p. stored B bc p \<and> validBlock B p b))"

lemma chain_valid_beside: "chain_valid B U g M bc \<Longrightarrow> beside bc bc' \<Longrightarrow> states_ok B bc' \<Longrightarrow> chain_valid B U g M bc'"
  using beside_ok [of bc bc' B U] by (simp add: chain_valid_def beside_def)

lemma chain_valid_reads: "chain_valid B U g M bc \<Longrightarrow> bc_reads B U g bc bc' \<Longrightarrow> chain_valid B U g M bc'"
  using bc_reads_ok [of B U bc bc'] bc_readsD [of B U g bc bc'] by (simp add: chain_valid_def states_ok_def)

lemma chain_valid_write:
  assumes u: "blockUniverse B U g" and v: "chain_valid B U g M bc" and b: "b \<in> U" "b \<in> M' \<or> (\<exists>p. stored B bc p \<and> validBlock B p b)" and w: "bc_WriteBlock B coin b bc = Inr (r, bc')"
  shows "chain_valid B U g (M \<union> M') bc'"
proof -
  have ok: "bc_ok B U bc" and ug: "blockUniverse B U (bc_genesis bc)" using v u by (auto simp: chain_valid_def)
  show ?thesis
  proof (cases "\<exists>p. stored B bc p \<and> parentHash b = blockHash B p")
    case True
    then obtain st where k: "bc_ok B U bc'" "bc_genesis bc' = bc_genesis bc" "bc_states bc' = bc_states bc" "\<forall>d. stored B bc' d \<longleftrightarrow> d = b \<or> stored B bc d"
      using write_block_known [OF ug ok b(1), of _ coin] w by fastforce
    then show ?thesis using v b(2) unfolding chain_valid_def states_ok_def by (metis UnCI)
  next
    case False
    then have "bc_reads B U g bc bc'" using write_block_unknown [OF ug ok b(1) False, of coin] w v by (auto simp: chain_valid_def)
    then have "chain_valid B U g M bc'" by (rule chain_valid_reads [OF v])
    then show ?thesis unfolding chain_valid_def by blast
  qed
qed

lemma write_transactions_beside:
  assumes "WriteTransactions B b bc = Inr bc'"
  shows "beside bc bc' \<and> bc_states bc' = bc_states bc"
proof -
  have "beside bc bc' \<and> bc_states bc' = bc_states bc" if "fold_res (writeTransaction B b) xs bc = Inr bc'" for xs
    using that
  proof (induction xs arbitrary: bc)
    case (Cons x xs)
    then obtain bc1 where w: "writeTransaction B b x bc = Inr bc1" "fold_res (writeTransaction B b) xs bc1 = Inr bc'" by (auto simp: bind_res_Inr_iff)
    have "beside bc bc1 \<and> bc_states bc1 = bc_states bc" using w(1) by (auto simp: writeTransaction_def bind_res_Inr_iff Let_def beside_def split: prod.splits if_splits)
    then show ?case using Cons.IH [OF w(2)] by (simp add: beside_def)
  qed (simp add: beside_def)
  then show ?thesis using assms by (simp add: WriteTransactions_def)
qed

lemma ValidateState_spec:
  assumes "ValidateState B b s receipts usedGas = Inr (None, s')"
  shows "h_GasUsed (cb_header b) = usedGas" "be_bloom B receipts = h_Bloom (cb_header b)" "be_receiptSha B receipts = h_ReceiptHash (cb_header b)"
    "IntermediateRoot (zk_db (zkFor B (cb_header b))) (vm_IsEIP158 (be_vm B (cb_header b))) s = Inr s'" "zk_stateRoot (be_zk B) (sdb_trie s') = h_Root (cb_header b)"
  using assms by (auto simp: ValidateState_def Let_def bind_res_Inr_iff split: if_splits)

lemma post_self: "post (\<lambda>x. m = Inr x) m"
  by (simp add: post_def)

lemma chain_valid_side: "chain_valid B U g M bc \<Longrightarrow> beside bc bc' \<Longrightarrow> bc_states bc' = bc_states bc \<Longrightarrow> chain_valid B U g M bc'"
  using chain_valid_beside [of B U g M bc bc'] by (simp add: chain_valid_def states_ok_def)

lemma chain_valid_marks: "chain_valid B U g M bc \<Longrightarrow> chain_valid B U g M (addBadBlock B b bc)" "chain_valid B U g M bc \<Longrightarrow> chain_valid B U g M (addFuture B b bc)"
  by (erule chain_valid_side; simp add: beside_def addBadBlock_def addFuture_def)+

lemma commitBlock_valid:
  assumes u: "blockUniverse B U g" and v: "chain_valid B U g M bc" and b: "b \<in> U" and p: "stored B bc p" "validBlock B p b"
  shows "post (\<lambda>(err, bc'). chain_valid B U g M bc') (commitBlock B coin b receipts s bc)"
proof -
  have v1: "chain_valid B U g M (WriteBlockReceipts h n receipts (bc\<lparr>bc_states := mput (zk_stateRoot (be_zk B) tr) tr (bc_states bc)\<rparr>))" for h n tr
    by (rule chain_valid_beside [OF v]) (use v in \<open>auto simp: beside_def WriteBlockReceipts_def states_ok_def chain_valid_def\<close>)
  have p1: "stored B (WriteBlockReceipts h n receipts (bc\<lparr>bc_states := t\<rparr>)) p" for h n t
    using p(1) stored_cong [of "WriteBlockReceipts h n receipts (bc\<lparr>bc_states := t\<rparr>)" bc B] by (simp add: WriteBlockReceipts_def bc_db_def)
  have w: "post (\<lambda>(r, bc'). chain_valid B U g M bc') (bc_WriteBlock B coin b x)" if "chain_valid B U g M x" "stored B x p" for x
    using chain_valid_write [OF u that(1) b, of "{}"] that(2) p(2) by (auto simp: post_def)
  have t: "post (\<lambda>bc'. chain_valid B U g M (WriteReceipts receipts bc')) (WriteTransactions B b x)" if "chain_valid B U g M x" for x
    unfolding post_def
  proof (intro allI impI)
    fix y assume "WriteTransactions B b x = Inr y"
    then have "beside x (WriteReceipts receipts y)" "bc_states (WriteReceipts receipts y) = bc_states x" using write_transactions_beside [of B b x y] by (simp_all add: beside_def WriteReceipts_def)
    then show "chain_valid B U g M (WriteReceipts receipts y)" by (rule chain_valid_side [OF that])
  qed
  show ?thesis unfolding commitBlock_def Let_def
  proof (rule post_bind [where R = "\<lambda>_. True"], simp add: post_def, clarify, rule post_bind [OF w])
    fix s2 codes
    show "chain_valid B U g M (WriteBlockReceipts (blockHash B b) (blockNumber b) receipts
      (bc\<lparr>bc_states := mput (zk_stateRoot (zkFor B (cb_header b)) (sdb_trie s2)) (sdb_trie s2) (bc_states bc)\<rparr>))" using v1 by simp
    show "post (\<lambda>(err, y). chain_valid B U g M y) (case x of (r, bc) \<Rightarrow> case r of Inl e \<Rightarrow> Inr (Some e, bc)
        | Inr st \<Rightarrow> if st = CanonStatTy then bind_res (WriteTransactions B b bc) (\<lambda>bc. Inr (None, WriteReceipts receipts bc)) else Inr (None, bc))"
      if "case x of (r, y) \<Rightarrow> chain_valid B U g M y" for x
      using that by (auto split: prod.splits sum.splits intro!: post_if post_bind [OF t])
  qed (rule p1)
qed

lemma executeBlock_valid:
  assumes u: "blockUniverse B U g" and er: "be_emptyRoot B = zk_stateRoot (be_zk B) []" and v: "chain_valid B U g M bc" and b: "b \<in> U" "\<not> be_bad B (blockHash B b)"
    and p: "stored B bc p" "parentHash b = blockHash B p" and body: "cb_uncles b = []" "DeriveShaTx (be_cross B) (cb_txs b) = Inr (h_TxHash (cb_header b))"
  shows "post (\<lambda>(err, bc'). chain_valid B U g M bc') (executeBlock B coin p b bc)"
proof (cases "OpenTrie B (h_Root (cb_header p)) bc")
  case None
  then show ?thesis using v by (simp add: executeBlock_def)
next
  case (Some tr)
  have rt: "rooted B (h_Root (cb_header p)) tr" using OpenTrie_rooted [OF _ er Some] v by (simp add: chain_valid_def)
  have "post (\<lambda>(err, bc'). chain_valid B U g M bc') (case r of
         Inl e \<Rightarrow> Inr (Some (ProcessError e), addBadBlock B b bc)
       | Inr (receipts, ls, usedGas, s) \<Rightarrow> bind_res (ValidateState B b s receipts usedGas) (\<lambda>(err, s). case err of
             Some e \<Rightarrow> Inr (Some e, addBadBlock B b bc) | None \<Rightarrow> commitBlock B coin b receipts s bc))"
    if r: "Process (zkFor B (cb_header b)) (toProcess B b) (sdb_New tr) = Inr r" for r
  proof (cases r)
    case (Inl e)
    then show ?thesis using chain_valid_marks(1) [OF v] by simp
  next
    case (Inr res)
    obtain receipts ls usedGas s where res: "res = (receipts, ls, usedGas, s)" by (cases res) auto
    have "post (\<lambda>(err, bc'). chain_valid B U g M bc') (case x of (err, s) \<Rightarrow> case err of Some e \<Rightarrow> Inr (Some e, addBadBlock B b bc) | None \<Rightarrow> commitBlock B coin b receipts s bc)"
      if x: "ValidateState B b s receipts usedGas = Inr x" for x
    proof (cases "fst x")
      case None
      then obtain s' where vs: "ValidateState B b s receipts usedGas = Inr (None, s')" "x = (None, s')" using x by (cases x) auto
      have "validBlock B p b" using b(2) p(2) body rt r Inr res ValidateState_spec [OF vs(1)] unfolding validBlock_def by blast
      then show ?thesis using commitBlock_valid [OF u v b(1) p(1)] vs(2) by simp
    qed (use chain_valid_marks(1) [OF v] in \<open>cases x; simp\<close>)
    then show ?thesis unfolding Inr res by (simp, intro post_bind [OF post_self]) simp
  qed
  then show ?thesis unfolding executeBlock_def Some option.case
    by (intro post_bind [OF post_self])
qed

lemma notAccepted_valid: "chain_valid B U g M bc \<Longrightarrow> chain_valid B U g M (snd (notAccepted B now b e bc))"
  by (simp add: notAccepted_def chain_valid_marks)

lemma importBlock_valid:
  assumes u: "blockUniverse B U g" and er: "be_emptyRoot B = zk_stateRoot (be_zk B) []" and v: "chain_valid B U g M bc" and b: "b \<in> U"
    and prev: "\<And>p. prev = Some p \<Longrightarrow> p \<in> U \<and> parentHash b = blockHash B p"
  shows "post (\<lambda>(err, bc'). chain_valid B U g M bc') (importBlock B now coin prev b result bc)"
proof -
  have na: "post (\<lambda>(err, bc'). chain_valid B U g M bc') (Inr (notAccepted B now b e x))" if "chain_valid B U g M x" for e x
    using notAccepted_valid [OF that, of now b e] by (simp add: case_prod_beta)
  have ok: "blocks_ok B U g bc" using v by (auto simp: chain_valid_def bc_ok_def)
  show ?thesis
  proof (cases "be_bad B (blockHash B b) \<or> result \<noteq> None")
    case True
    then show ?thesis using na [OF v] chain_valid_marks(1) [OF v] by (cases result) (simp_all add: importBlock_def)
  next
    case False
    have "post (\<lambda>(err, bc'). chain_valid B U g M bc') (case x of (err, bc) \<Rightarrow> case err of
          Some e \<Rightarrow> Inr (notAccepted B now b e bc)
        | None \<Rightarrow>
            let (parent, bc) = (case prev of Some p \<Rightarrow> (Some p, bc) | None \<Rightarrow> bc_GetBlock B (parentHash b) (blockNumber b - 1) bc) in
            case parent of None \<Rightarrow> Inl (Panic ''nil Block'') | Some p \<Rightarrow> executeBlock B coin p b bc)" if "ValidateBody B b bc = Inr x" for x
    proof -
      obtain err bc1 where x: "x = (err, bc1)" by fastforce
      note vb = ValidateBody_spec [OF u ok that [unfolded x]]
      have r1: "bc_reads B U g bc bc1" using vb by blast
      note d1 = bc_readsD [OF r1]
      have v1: "chain_valid B U g M bc1" by (rule chain_valid_reads [OF v r1])
      show ?thesis
      proof (cases err)
        case (Some e)
        then show ?thesis using na [OF v1] x by simp
      next
        case None
        then obtain p where p: "stored B bc p" "parentHash b = blockHash B p" and body: "cb_uncles b = []" "DeriveShaTx (be_cross B) (cb_txs b) = Inr (h_TxHash (cb_header b))" using vb by blast
        have pU: "p \<in> U" using p(1) stored_known [OF u ok] by simp
        obtain q bc2 where q: "(case prev of Some p \<Rightarrow> (Some p, bc1) | None \<Rightarrow> bc_GetBlock B (parentHash b) (blockNumber b - 1) bc1) = (q, bc2)" by fastforce
        have r2: "bc_reads B U g bc1 bc2 \<and> (q = Some p \<or> q = None)"
        proof (cases prev)
          case s: (Some p')
          then have "p' = p" using prev [OF s] p(2) pU stored_same [OF u] by auto
          then show ?thesis using q s bc_reads_refl [OF d1(1)] by auto
        next
          case n: None
          then have g: "bc_GetBlock B (parentHash b) (blockNumber b - 1) bc1 = (q, bc2)" using q by simp
          show ?thesis using bc_GetBlock_reads [OF u d1(1) g] d1(7) p pU stored_known [OF u ok] stored_same [OF u] by (cases q) auto
        qed
        have v2: "chain_valid B U g M bc2" by (rule chain_valid_reads [OF v1 conjunct1 [OF r2]])
        have "stored B bc2 p" using p(1) d1(7) bc_readsD(7) [OF conjunct1 [OF r2]] by simp
        then have "post (\<lambda>(err, bc'). chain_valid B U g M bc') (executeBlock B coin p b bc2)" using executeBlock_valid [OF u er v2 b _ _ p(2) body] False by blast
        then show ?thesis using x None q r2 by (elim conjE disjE) simp_all
      qed
    qed
    then have "post (\<lambda>(err, bc'). chain_valid B U g M bc') (bind_res (ValidateBody B b bc) (\<lambda>(err, bc). case err of
          Some e \<Rightarrow> Inr (notAccepted B now b e bc)
        | None \<Rightarrow>
            let (parent, bc) = (case prev of Some p \<Rightarrow> (Some p, bc) | None \<Rightarrow> bc_GetBlock B (parentHash b) (blockNumber b - 1) bc) in
            case parent of None \<Rightarrow> Inl (Panic ''nil Block'') | Some p \<Rightarrow> executeBlock B coin p b bc))"
      by (rule post_bind [OF post_self])
    then show ?thesis using False by (simp add: importBlock_def)
  qed
qed

lemma linked_tail: "linkedBlocks B (b # bs) \<Longrightarrow> linkedBlocks B bs \<and> (\<forall>c cs. bs = c # cs \<longrightarrow> parentHash c = blockHash B b)"
  unfolding linkedBlocks_def by (fastforce simp: nth_Cons' less_Suc_eq_0_disj)

lemma linked_take: "linkedBlocks B bs \<Longrightarrow> linkedBlocks B (take k bs)"
  by (simp add: linkedBlocks_def less_imp_diff_less)

lemma importBlocks_valid:
  assumes u: "blockUniverse B U g" and er: "be_emptyRoot B = zk_stateRoot (be_zk B) []" and "chain_valid B U g M bc" and "fst ` set xs \<subseteq> U"
    and "linkedBlocks B (map fst xs)" and "\<And>p. prev = Some p \<Longrightarrow> p \<in> U \<and> (\<forall>x ys. xs = x # ys \<longrightarrow> parentHash (fst x) = blockHash B p)"
    and "importBlocks B interrupt now coin i prev xs bc = Inr (r, bc')"
  shows "chain_valid B U g M bc'"
  using assms(3-)
proof (induction xs arbitrary: i prev bc)
  case (Cons x xs)
  obtain b res where x: "x = (b, res)" by fastforce
  show ?case
  proof (cases "interrupt i")
    case True
    then show ?thesis using Cons.prems x by simp
  next
    case False
    then obtain err bc1 where m: "importBlock B (now i) (coin i) prev b res bc = Inr (err, bc1)" using Cons.prems(5) x by (auto simp: bind_res_Inr_iff)
    have bU: "b \<in> U" using Cons.prems(2) x by auto
    have "post (\<lambda>(err, bc'). chain_valid B U g M bc') (importBlock B (now i) (coin i) prev b res bc)" by (rule importBlock_valid [OF u er Cons.prems(1) bU]) (use Cons.prems(4) x in auto)
    then have v1: "chain_valid B U g M bc1" using m by simp
    show ?thesis
    proof (cases err)
      case (Some e)
      then show ?thesis using Cons.prems(5) x False m v1 by simp
    next
      case None
      have lk: "linkedBlocks B (map fst xs)" "\<forall>c cs. map fst xs = c # cs \<longrightarrow> parentHash c = blockHash B b" using linked_tail [of B b "map fst xs"] Cons.prems(3) x by auto
      have "importBlocks B interrupt now coin (Suc i) (Some b) xs bc1 = Inr (r, bc')" using Cons.prems(5) x False m None by simp
      then show ?thesis by (rule Cons.IH [OF v1 _ lk(1), rotated 2]) (use Cons.prems(2) bU lk(2) in auto)
    qed
  qed
qed simp

lemma InsertChain_valid:
  assumes u: "blockUniverse B U g" and er: "be_emptyRoot B = zk_stateRoot (be_zk B) []" and v: "chain_valid B U g M bc" and "set bs \<subseteq> U"
    and r: "InsertChain B interrupt now coin results bs bc = Inr (r, bc')"
  shows "chain_valid B U g M bc'"
proof (cases "linkedBlocks B bs")
  case True
  have m: "map fst (zip bs results) = take (min (length bs) (length results)) bs" by (rule map_fst_zip_take)
  have "linkedBlocks B (map fst (zip bs results))" using linked_take [OF True] m by simp
  moreover have "fst ` set (zip bs results) \<subseteq> U" using assms(4) by (auto dest: set_zip_leftD)
  ultimately show ?thesis using importBlocks_valid [OF u er v, of "zip bs results" None interrupt now coin 0] r True by (auto simp: InsertChain_def)
qed (use r v in \<open>simp add: InsertChain_def\<close>)

section \<open>Reachable chains\<close>

inductive bc_reach :: "bcEnv \<Rightarrow> chainBlock set \<Rightarrow> chainBlock \<Rightarrow> chainBlock set \<Rightarrow> BlockChain \<Rightarrow> bool" for B :: bcEnv and U :: "chainBlock set" and g :: chainBlock where
  bc_start: "commitGenesisBlock B difficulty g tr = Some db \<Longrightarrow> h_Root (cb_header g) = zk_stateRoot (be_zk B) tr \<Longrightarrow> NewBlockChain B db = Some bc \<Longrightarrow> bc_reach B U g {} bc"
| bc_import: "bc_reach B U g M bc \<Longrightarrow> set bs \<subseteq> U \<Longrightarrow> InsertChain B interrupt now coins results bs bc = Inr (r, bc') \<Longrightarrow> bc_reach B U g M bc'"
| bc_write: "bc_reach B U g M bc \<Longrightarrow> b \<in> U \<Longrightarrow> bc_WriteBlock B coin b bc = Inr (r, bc') \<Longrightarrow> bc_reach B U g (insert b M) bc'"
| bc_read: "bc_reach B U g M bc \<Longrightarrow> bc_GetBlock B h n bc = (b, bc') \<Longrightarrow> bc_reach B U g M bc'"

lemma bc_reach_valid:
  assumes "bc_reach B U g M bc" and u: "blockUniverse B U g" and er: "be_emptyRoot B = zk_stateRoot (be_zk B) []"
  shows "chain_valid B U g M bc"
  using assms(1)
proof (induction rule: bc_reach.induct)
  case (bc_start difficulty tr db bc)
  then show ?case using new_block_chain [OF u bc_start(2,1)] by (auto simp: chain_valid_def states_ok_def mget_def)
next
  case (bc_import M bc bs interrupt now coins results r bc')
  then show ?case using InsertChain_valid [OF u er] by blast
next
  case (bc_write M bc b coin r bc')
  then show ?case using chain_valid_write [OF u bc_write.IH bc_write.hyps(2) _ bc_write.hyps(3), of "{b}"] by simp
next
  case (bc_read M bc h n b bc')
  then have "blocks_ok B U g bc" by (auto simp: chain_valid_def bc_ok_def)
  then show ?case using bc_read chain_valid_reads bc_GetBlock_reads [OF u] by blast
qed

end
