(* ===== verification/Block_Properties.thy ===== *)
theory Block_Properties
  imports Chain_Import Chain_Rewind Pool_Properties
begin

text \<open>
  The claims about the chain of blocks: what an import checks of every block that is stored, the canonical numbers below the current
  block, writing a block, and what a reorganisation leaves behind.
\<close>

section \<open>An example chain\<close>

definition exBc :: bcEnv where
  "exBc = \<lparr>be_cross = exCross, be_zk = exZk, be_vm = (\<lambda>_. exVm), be_emptyRoot = 0, be_receiptSha = (\<lambda>_. 0), be_bloom = (\<lambda>_. []), be_uncleHash = (\<lambda>_. 5), be_bad = (\<lambda>_. False)\<rparr>"

text \<open>Blocks without transactions, with the difficulty and the transaction root, which is also their hash here.\<close>

definition exB :: "hash \<Rightarrow> hash \<Rightarrow> int \<Rightarrow> int \<Rightarrow> chainBlock" where
  "exB parent txs number difficulty = \<lparr>cb_header = (exHeader parent txs number [])\<lparr>h_Difficulty := difficulty\<rparr>, cb_txs = [], cb_uncles = []\<rparr>"

definition bk0 :: chainBlock where "bk0 = exB 0 100 0 2"
definition bkI1 :: chainBlock where "bkI1 = exB 100 (- 1) 1 1"
definition bkA1 :: chainBlock where "bkA1 = exB 100 201 1 1"
definition bkA2 :: chainBlock where "bkA2 = exB 201 202 2 1"
definition bkB1 :: chainBlock where "bkB1 = exB 100 301 1 1"
definition bkB2 :: chainBlock where "bkB2 = exB 301 302 2 2"
definition bkC1 :: chainBlock where "bkC1 = exB 100 401 1 5"

definition bkAll :: "chainBlock set" where "bkAll = {bk0, bkI1, bkA1, bkA2, bkB1, bkB2, bkC1}"

lemmas bk_defs = bk0_def bkI1_def bkA1_def bkA2_def bkB1_def bkB2_def bkC1_def

lemma exB_simps [simp]:
  "ZKHashBlock exEng (cb_header (exB p t n d)) = t" "numberOf (cb_header (exB p t n d)) = word_of_int n" "h_ParentHash (cb_header (exB p t n d)) = p" "be_eng exBc = exEng"
  "cb_txs (exB p t n d) = []" "h_Root (cb_header (exB p t n d)) = 0"
  by (simp_all add: exB_def exHeader_def numberOf_def ZKHashBlock_def exEng_def be_eng_def exBc_def exCross_def)

lemma bk_universe: "blockUniverse exBc bkAll bk0"
  by (auto simp: blockUniverse_def universe_def bkAll_def bk_defs inj_on_def) (simp_all add: exB_def exHeader_def)

lemma bk_root: "be_emptyRoot exBc = zk_stateRoot (be_zk exBc) []"
  by (simp add: exBc_def exZk_def)

definition bkStart :: BlockChain where
  "bkStart = the (NewBlockChain exBc (the (commitGenesisBlock exBc 2 bk0 [])))"

lemma bk_start: "bc_reach exBc bkAll bk0 {} bkStart"
proof -
  have root: "h_Root (cb_header bk0) = zk_stateRoot (be_zk exBc) []" by (simp add: exBc_def exZk_def bk0_def)
  obtain db where db: "commitGenesisBlock exBc 2 bk0 [] = Some db"
    by (simp add: commitGenesisBlock_def commitGenesis_def Let_def) (simp add: bk0_def exB_def exHeader_def)
  then obtain bc where bc: "NewBlockChain exBc db = Some bc" using new_block_chain [OF bk_universe root] by blast
  have "bc_reach exBc bkAll bk0 {} bc" by (rule bc_start [OF db root bc])
  then show ?thesis by (simp add: bkStart_def db bc)
qed

text \<open>The chain after writing some blocks, the coin always falling on the side of the old head.\<close>

fun bkWrite :: "chainBlock list \<Rightarrow> BlockChain \<Rightarrow> BlockChain res" where
  "bkWrite [] bc = Inr bc"
| "bkWrite (b # bs) bc = bind_res (bc_WriteBlock exBc False b bc) (\<lambda>(r, bc). bkWrite bs bc)"

lemma bk_write: "bc_reach exBc bkAll bk0 M bc \<Longrightarrow> set bs \<subseteq> bkAll \<Longrightarrow> bkWrite bs bc = Inr bc' \<Longrightarrow> bc_reach exBc bkAll bk0 (M \<union> set bs) bc'"
proof (induction bs arbitrary: M bc)
  case (Cons b bs)
  then obtain r bc1 where w: "bc_WriteBlock exBc False b bc = Inr (r, bc1)" "bkWrite bs bc1 = Inr bc'" by (auto elim: bind_res_InrE)
  have "b \<in> bkAll" "set bs \<subseteq> bkAll" using Cons.prems(2) by auto
  then show ?case using Cons.IH [OF bc_write [OF Cons.prems(1) _ w(1)] _ w(2)] by simp
qed simp

section \<open>Imported blocks\<close>

text \<open>C23: Every block in the database of a reachable chain is the first one, or was written by the node itself, or was imported and is valid: its parent is
  stored, it has no uncles, its transactions have the root of its header, and processing them on the state with the root of the parent uses the
  gas of the header and ends in the state root, the receipts root and the bloom filter of the header. Forks, reorganisations, blocks that were
  refused, interrupts and whatever the engine answers make no difference. The root of the empty trie is that of the empty state.\<close>

theorem imported_blocks_valid:
  assumes "bc_reach B U g M bc" and "blockUniverse B U g" and "be_emptyRoot B = zk_stateRoot (be_zk B) []" and "db_GetBlock h n bc = Some b" and "b \<noteq> g" and "b \<notin> M"
  shows "\<exists>p m tr receipts ls s s'. db_GetBlock (parentHash b) m bc = Some p \<and> cb_uncles b = [] \<and> DeriveShaTx (be_cross B) (cb_txs b) = Inr (h_TxHash (cb_header b)) \<and>
    rooted B (h_Root (cb_header p)) tr \<and> Process (zkFor B (cb_header b)) (toProcess B b) (sdb_New tr) = Inr (Inr (receipts, ls, h_GasUsed (cb_header b), s)) \<and>
    be_bloom B receipts = h_Bloom (cb_header b) \<and> be_receiptSha B receipts = h_ReceiptHash (cb_header b) \<and>
    IntermediateRoot (zk_db (zkFor B (cb_header b))) (vm_IsEIP158 (be_vm B (cb_header b))) s = Inr s' \<and> zk_stateRoot (be_zk B) (sdb_trie s') = h_Root (cb_header b)"
proof -
  have v: "chain_valid B U g M bc" by (rule bc_reach_valid [OF assms(1-3)])
  then have "blocks_ok B U g bc" by (auto simp: chain_valid_def bc_ok_def)
  then have "stored B bc b" using found_stored [OF assms(2) _ assms(4)] by blast
  then obtain p where "stored B bc p" "validBlock B p b" using v assms(5,6) by (auto simp: chain_valid_def)
  then show ?thesis unfolding validBlock_def stored_def by metis
qed

lemma imported_blocks_valid_witness:
  "\<exists>bc. InsertChain exBc (\<lambda>_. False) (\<lambda>_. 100) (\<lambda>_. False) [None] [bkI1] bkStart = Inr (None, bc) \<and> db_GetBlock (- 1) 1 bc = Some bkI1 \<and>
    DeriveShaTx (be_cross exBc) (cb_txs bkI1) = Inr (h_TxHash (cb_header bkI1))"
proof -
  have "(case InsertChain exBc (\<lambda>_. False) (\<lambda>_. 100) (\<lambda>_. False) [None] [bkI1] bkStart of Inr (None, bc) \<Rightarrow> db_GetBlock (- 1) 1 bc = Some bkI1 | _ \<Rightarrow> False)" by code_simp
  then obtain bc where bc: "InsertChain exBc (\<lambda>_. False) (\<lambda>_. 100) (\<lambda>_. False) [None] [bkI1] bkStart = Inr (None, bc)" "db_GetBlock (- 1) 1 bc = Some bkI1"
    by (auto split: sum.splits prod.splits option.splits)
  have "bc_reach exBc bkAll bk0 {} bc" by (rule bc_import [OF bk_start _ bc(1)]) (simp add: bkAll_def)
  moreover have "bkI1 \<noteq> bk0" by (simp add: bk_defs exB_def exHeader_def)
  ultimately show ?thesis using imported_blocks_valid [OF _ bk_universe bk_root bc(2)] bc by auto
qed

section \<open>The canonical chain\<close>

text \<open>C24: In every reachable chain of blocks each number up to that of the current block is assigned to a stored block, with header and body, whose parent has the number before; the
  numbers start at the first block and the current block has its own. No stored block has a higher total difficulty than the current one.\<close>

theorem block_chain_linked:
  assumes "bc_reach B U g M bc" and "blockUniverse B U g" and "be_emptyRoot B = zk_stateRoot (be_zk B) []"
  shows "GetCanonicalHash 0 (bc_db bc) = blockHash B g \<and> GetCanonicalHash (blockNumber (bc_current bc)) (bc_db bc) = blockHash B (bc_current bc) \<and>
    (\<forall>n\<le>blockNumber (bc_current bc). \<exists>b. db_GetBlock (GetCanonicalHash n (bc_db bc)) n bc = Some b \<and> blockNumber b = n \<and> (n \<noteq> 0 \<longrightarrow> GetCanonicalHash (n - 1) (bc_db bc) = parentHash b)) \<and>
    (\<forall>h n b td. db_GetBlock h n bc = Some b \<longrightarrow> db_GetTd h n (bc_db bc) = Some td \<longrightarrow>
       (\<exists>top. db_GetTd (blockHash B (bc_current bc)) (blockNumber (bc_current bc)) (bc_db bc) = Some top \<and> td \<le> top))"
proof -
  let ?E = "be_eng B" and ?t = "bc_current bc" and ?db = "bc_db bc"
  have ok: "bc_ok B U bc" "bc_genesis bc = g" using bc_reach_valid [OF assms] by (auto simp: chain_valid_def)
  then have bl: "blocks_ok B U g bc" and st: "stored B bc ?t" and c: "chained ?E (cb_header g) ?db (cb_header ?t)" and top: "heaviest ?E ?db (cb_header ?t)" by (auto simp: bc_ok_def)
  have s: "store_ok ?E (cb_header ` U) (cb_header g) ?db" using bl by (simp add: blocks_ok_def)
  have "atNumber ?E ?db (unat (0 :: u64)) (cb_header g)" "atNumber ?E ?db (unat (blockNumber ?t)) (cb_header ?t)" using c by (auto simp: chained_def height_def blockNumber_def)
  note ends = this [THEN atNumber_get(1), folded blockHash_def]
  have "\<exists>b. db_GetBlock (GetCanonicalHash n ?db) n bc = Some b \<and> blockNumber b = n \<and> (n \<noteq> 0 \<longrightarrow> GetCanonicalHash (n - 1) ?db = parentHash b)" if n: "n \<le> blockNumber ?t" for n
  proof -
    obtain y where y: "atNumber ?E ?db (unat n) y" "n \<noteq> 0 \<longrightarrow> GetCanonicalHash (n - 1) ?db = h_ParentHash y" using chained_numbers [OF c] n by (auto simp: blockNumber_def)
    then have k: "known ?E ?db y" by (simp add: atNumber_def)
    then obtain b where b: "b \<in> U" "y = cb_header b" using known_in [OF s] by blast
    then have "stored B bc b" using stored_known [OF assms(2) bl] k by simp
    then show ?thesis using atNumber_get [OF y(1)] y(2) b(2) by (intro exI [of _ b]) (simp add: stored_def blockHash_def blockNumber_def parentHash_def)
  qed
  moreover have "\<exists>top. db_GetTd (blockHash B ?t) (blockNumber ?t) ?db = Some top \<and> td \<le> top" if b: "db_GetBlock h n bc = Some b" "db_GetTd h n ?db = Some td" for h n b td
  proof -
    have k: "known ?E ?db (cb_header b)" "known ?E ?db (cb_header ?t)" using found_stored [OF assms(2) bl b(1)] st stored_known [OF assms(2) bl] by auto
    obtain t where t: "tdOf ?E ?db (cb_header ?t) = Some t" using known_td [OF s k(2)] by blast
    have "db_GetHeader h n ?db = Some (cb_header b)" using b(1) by (auto simp: db_GetBlock_def split: option.splits)
    then have "tdOf ?E ?db (cb_header b) = Some td" using found_known [OF s] b(2) by (auto simp: tdOf_def)
    then have "td \<le> t" using top k(1) t unfolding heaviest_def by blast
    then show ?thesis using t by (auto simp: tdOf_def blockHash_def blockNumber_def)
  qed
  ultimately show ?thesis using ends by blast
qed

lemma block_chain_linked_witness:
  "\<exists>bc. bkWrite [bkA1, bkB1] bkStart = Inr bc \<and> bc_current bc = bkA1 \<and> (\<exists>b. db_GetBlock (GetCanonicalHash 1 (bc_db bc)) 1 bc = Some b \<and> GetCanonicalHash 0 (bc_db bc) = parentHash b)"
proof -
  have "(case bkWrite [bkA1, bkB1] bkStart of Inr bc \<Rightarrow> bc_current bc = bkA1 | Inl _ \<Rightarrow> False)" by code_simp
  then obtain bc where bc: "bkWrite [bkA1, bkB1] bkStart = Inr bc" "bc_current bc = bkA1" by (auto split: sum.splits)
  have "bc_reach exBc bkAll bk0 ({} \<union> set [bkA1, bkB1]) bc" by (rule bk_write [OF bk_start _ bc(1)]) (simp add: bkAll_def)
  from block_chain_linked [OF this bk_universe bk_root] have "\<forall>n\<le>blockNumber bkA1. \<exists>b. db_GetBlock (GetCanonicalHash n (bc_db bc)) n bc = Some b \<and> blockNumber b = n \<and>
    (n \<noteq> 0 \<longrightarrow> GetCanonicalHash (n - 1) (bc_db bc) = parentHash b)" unfolding bc(2) by blast
  moreover have "(1 :: u64) \<le> blockNumber bkA1" by code_simp
  ultimately obtain b where "db_GetBlock (GetCanonicalHash 1 (bc_db bc)) 1 bc = Some b" "GetCanonicalHash (1 - 1) (bc_db bc) = parentHash b" by fastforce
  then show ?thesis using bc by auto
qed

section \<open>Writing a block\<close>

text \<open>C29: Writing a block to a reachable chain returns, whatever the coin. When its parent is stored, the block is stored, all blocks stored before still are, and the
  block becomes the current one, after a reorganisation if necessary, or the current one stays, as the status says; otherwise the error is the unknown ancestor and
  neither headers nor bodies change.\<close>

theorem block_written:
  assumes "bc_reach B U g M bc" and "blockUniverse B U g" and "be_emptyRoot B = zk_stateRoot (be_zk B) []" and "b \<in> U"
  shows "\<exists>r bc'. bc_WriteBlock B coin b bc = Inr (r, bc') \<and>
    (if \<exists>n. db_GetBlock (parentHash b) n bc \<noteq> None
     then db_GetBlock (blockHash B b) (blockNumber b) bc' = Some b \<and> (\<forall>h n d. db_GetBlock h n bc = Some d \<longrightarrow> db_GetBlock h n bc' = Some d) \<and>
       (r = Inr CanonStatTy \<and> bc_current bc' = b \<or> r = Inr SideStatTy \<and> bc_current bc' = bc_current bc)
     else r = Inl (EngineError UnknownAncestor) \<and> bc_db bc' = bc_db bc \<and> bc_bodies bc' = bc_bodies bc)"
proof -
  have ok: "bc_ok B U bc" "bc_genesis bc = g" using bc_reach_valid [OF assms(1-3)] by (auto simp: chain_valid_def)
  then have bl: "blocks_ok B U g bc" and ug: "blockUniverse B U (bc_genesis bc)" using assms(2) by (auto simp: bc_ok_def)
  note found = found_stored [OF assms(2) bl]
  show ?thesis
  proof (cases "\<exists>n. db_GetBlock (parentHash b) n bc \<noteq> None")
    case True
    then obtain p where "stored B bc p" "parentHash b = blockHash B p" using found by blast
    from write_block_known [OF ug ok(1) assms(4) this, of coin] obtain st bc' where w: "bc_WriteBlock B coin b bc = Inr (Inr st, bc')"
      "\<forall>d. stored B bc' d \<longleftrightarrow> d = b \<or> stored B bc d" "bc_current bc' = (if st = CanonStatTy then b else bc_current bc)" "st \<noteq> NonStatTy" by blast
    have "db_GetBlock h n bc' = Some d" if d: "db_GetBlock h n bc = Some d" for h n d
    proof -
      have "db_GetHeader h n (bc_db bc) = Some (cb_header d)" using d by (auto simp: db_GetBlock_def split: option.splits)
      then have "n = blockNumber d" using found_known [of "be_eng B" "cb_header ` U" "cb_header g" "bc_db bc"] bl by (auto simp: blocks_ok_def blockNumber_def)
      then show ?thesis using found [OF d] w(2) by (simp add: stored_def)
    qed
    moreover have "db_GetBlock (blockHash B b) (blockNumber b) bc' = Some b" using w(2) by (simp add: stored_def)
    ultimately show ?thesis using True w(1,3,4) by (intro exI [of _ "Inr st"] exI [of _ bc']) (cases st; simp)
  next
    case False
    then have "\<nexists>p. stored B bc p \<and> parentHash b = blockHash B p" by (auto simp: stored_def)
    from write_block_unknown [OF ug ok(1) assms(4) this, of coin] show ?thesis using False bc_readsD(2,3) by auto
  qed
qed

lemma block_written_witness:
  "\<exists>r bc'. bc_WriteBlock exBc False bkA1 bkStart = Inr (r, bc') \<and> db_GetBlock 201 1 bc' = Some bkA1"
proof -
  have e: "parentHash bkA1 = 100" "blockHash exBc bkA1 = 201" "blockNumber bkA1 = 1" by (simp_all add: bkA1_def parentHash_def blockHash_def blockNumber_def)
  have "db_GetBlock 100 0 bkStart \<noteq> None" by code_simp
  then have "\<exists>n. db_GetBlock 100 n bkStart \<noteq> None" by blast
  then show ?thesis using block_written [OF bk_start bk_universe bk_root, of bkA1 False, unfolded e] by (simp add: bkAll_def) blast
qed

section \<open>What a reorganisation leaves behind\<close>

text \<open>\<open>reorg\<close> inserts the blocks of the new chain from the highest to the lowest, and each insertion of a block that was not canonical makes it the head of the
  headers and of the fast chain. When \<open>WriteBlock\<close> inserts the new head again it is canonical already, so that these two heads stay at the lowest block of the
  new chain: they are behind the current block.\<close>

theorem reorg_leaves_header_behind:
  "\<exists>bc. bkWrite [bkA1, bkB1, bkB2] bkStart = Inr bc \<and> bc_current bc = bkB2 \<and> hc_current (bc_hc bc) = cb_header bkB1 \<and> bc_currentFast bc = bkB1 \<and> parentHash bkB2 = blockHash exBc bkB1"
proof -
  have "(case bkWrite [bkA1, bkB1, bkB2] bkStart of Inr bc \<Rightarrow> bc_current bc = bkB2 \<and> hc_current (bc_hc bc) = cb_header bkB1 \<and> bc_currentFast bc = bkB1 | Inl _ \<Rightarrow> False)" by code_simp
  moreover have "parentHash bkB2 = blockHash exBc bkB1" by (simp add: bk_defs parentHash_def blockHash_def)
  ultimately show ?thesis by (auto split: sum.splits)
qed

text \<open>A heavier chain that is shorter becomes the current one, and the canonical numbers above its head still belong to the old chain.\<close>

theorem reorg_keeps_higher_numbers:
  "\<exists>bc. bkWrite [bkA1, bkA2, bkC1] bkStart = Inr bc \<and> bc_current bc = bkC1 \<and> blockNumber bkC1 = 1 \<and> GetCanonicalHash 2 (bc_db bc) = blockHash exBc bkA2"
proof -
  have "(case bkWrite [bkA1, bkA2, bkC1] bkStart of Inr bc \<Rightarrow> bc_current bc = bkC1 \<and> GetCanonicalHash 2 (bc_db bc) = 202 | Inl _ \<Rightarrow> False)" by code_simp
  moreover have "blockNumber bkC1 = 1" "blockHash exBc bkA2 = 202" by (simp_all add: bk_defs blockHash_def blockNumber_def)
  ultimately show ?thesis by (auto split: sum.splits)
qed

end
