(* ===== verification/Spec2Isabelle.thy ===== *)
theory Spec2Isabelle
  imports Hibe_Properties Pbft_View_Change_Properties Pbft_Log Zk_Properties Eng_Properties Tx_Properties Pool_Properties Chain_Properties Block_Properties
begin

text \<open>
  A verification development for the hierarchical blockchain in \<open>ethereum/go-ethereum\<close>: a go-ethereum
  node with a PBFT consensus engine, hierarchical threshold signatures and zero-knowledge
  transactions. Paths below are relative to that directory.

  \<^bold>\<open>The parts of the program and how they interact.\<close>

  \<^item> A block is filled by the miner (\<open>miner/worker.go\<close>): the engine prepares a header, the transactions are
    applied to the account state, the engine finalises and seals the block.
  \<^item> The miner takes transactions from the pool (\<open>core/tx_pool.go\<close>, \<open>core/tx_list.go\<close>), which checks the proofs of cross-chain transactions
    against the headers of the root chain.
  \<^item> The chain of headers (\<open>core/headerchain.go\<close>, \<open>core/database_util.go\<close>) stores headers with their total difficulty and numbers those of the heaviest chain.
  \<^item> The engine (\<open>consensus/pbft/pbft.go\<close>, \<open>snapshot.go\<close>, \<open>api.go\<close>) decides who may sign a header: a set of signers that
    headers vote on. A sealed block is handed to the replica.
  \<^item> The replica (\<open>consensus/pbft/pbft-core.go\<close>, \<open>viewchange.go\<close>) runs the PBFT protocol on the block with the
    other replicas: pre-prepare, prepare, commit, checkpoints, view changes. A committed block is delivered to the chain.
  \<^item> Block processing (\<open>core/state_processor.go\<close>, \<open>core/state_transition.go\<close>) applies the transactions of a block to the
    account state (\<open>core/state\<close>) and checks the proofs and serial numbers of the zero-knowledge transactions.
  \<^item> The threshold scheme (\<open>hibe/dhibe_Cap.go\<close>) gives the nodes of a level key shares, derived from those of the level above; a
    threshold of partial signatures makes a signature under the master key.

  \<^bold>\<open>Conventions.\<close> Machine integers are words of their width, \<open>big.Int\<close> is \<open>int\<close>, a Go map is an association list behind the
  interface \<open>go_map\<close> of \<open>Zkhc_Prelude\<close> (operations \<open>mget\<close>, \<open>mput\<close>, \<open>mdel\<close>, \<open>mkeys\<close>; its order is one that a \<open>range\<close> loop may have), and a
  function that may panic returns \<open>'a res\<close>, where \<open>Inl (Panic msg)\<close> is the panic. An error that the code returns as a value is a
  value here: an option or the left side of a sum. State is passed explicitly.

  \<^bold>\<open>Threshold signatures.\<close> \<open>Hibe\<close> models every function of \<open>dhibe_Cap.go\<close> over a field of scalars and a bilinear pairing into a
  group of exponents; \<open>Interpolation\<close> has the Lagrange interpolation at zero that the scheme rests on. \<open>Hibe_Properties\<close>: a
  signature reconstructed from any threshold subset verifies; \<open>Setup\<close> and the derivation of shares fail exactly on degenerate
  arguments; encodings round-trip; \<open>Verify\<close> looks at the first four bytes of a message.

  \<^bold>\<open>The replica.\<close> \<open>Pbft_Types\<close> has the messages and the state, \<open>Pbft_Core\<close> the functions without handlers, \<open>Pbft_Handlers\<close> and
  \<open>Pbft_Replica\<close> the handlers of the protocol, of view changes, of persistence and of the event loop. The handlers call each
  other; a call is a value of the type of calls, and \<open>exec\<close> runs one with a bound on the depth of calls. Going
  beyond the bound is the failure \<open>OutOfDepth\<close>, never a result, and every safety theorem holds for all bounds; that the bound can be met
  is shown where a handler calls back into itself: \<open>sendViewChange\<close> returns once the bound exceeds what the pending view changes need.
  \<open>Pbft_Invariant\<close> states invariants of the stores as locales (\<open>store_invariant\<close>, \<open>handler_invariant\<close>) and proves once that every
  handler keeps such an invariant; \<open>Pbft_Safety\<close> interprets them, defines the reachable states and the
  intersection of quorums; \<open>Pbft_View_Change\<close> treats the computations of a view change; \<open>Pbft_Log\<close> the watermarks and restarts. The
  properties: certificates of every reachable state are well formed, conflicting prepared certificates convict more than \<open>f\<close>
  replicas of voting twice, blocks are executed in order, moving the watermarks drops what is at or below them, a checkpoint survives a restart, the P and Q sets and the selections of a new view are the specified ones, and what a faulty replica can do. A pre-prepare
  always has its block: the nil pointer that a decoded message could hold is not modelled.

  \<^bold>\<open>The account state and blocks.\<close> \<open>Zk_State\<close> models state objects, the state database and its journal, \<open>Zk_Evm\<close> the calls and contract creation,
  \<open>Zk_Transition\<close> messages, gas and the zero-knowledge balance changes, \<open>Zk_Processor\<close> transactions, blocks and the work of the
  miner. \<open>Zk_Journal\<close> and \<open>Zk_Revert\<close> show that a revert implements a saved copy of the state; \<open>Zk_Paths\<close> lists the paths through a
  transition once; \<open>Zk_Kept\<close> has the locales \<open>step_fact\<close> and \<open>journal_fact\<close> for facts that survive an execution with its nested
  reverts, interpreted for open snapshots, serial numbers (\<open>Zk_Serial\<close>) and the refund counter (\<open>Zk_Gas\<close>); \<open>Zk_Balance\<close> is about
  money. \<open>Zk_Properties\<close>: serial numbers are unique, a transition conserves money apart from commitments and from what byte code does, gas is bounded, proofs are checked, failures are undone, and
  where the code falls short of this. Hypotheses about the proof verifiers, the interpreter and the hash functions, which are parameters, are stated in
  the theorems and met by the witnesses. The counters \<open>logSize\<close> and \<open>nextRevisionId\<close> are unbounded.

  \<^bold>\<open>The engine.\<close> \<open>Eng_Voting\<close> models headers, their hash and seal and the vote, \<open>Eng_Verify\<close> the snapshots with their caches, the verification, the
  preparation and the sealing of headers. \<open>Eng_Proofs\<close> relates the vote to steps on a set of signers, \<open>Eng_Snapshot\<close> the snapshots to a
  reference without caches, \<open>Eng_Accept\<close> the verification to a declarative one. \<open>Eng_Runs\<close> has the states that an engine reaches
  from empty caches while its chain grows (\<open>eng_reach\<close>): it verifies headers one at a time, prepares, seals, proposes and restarts, and all headers it meets have
  different hashes; batches of \<open>VerifyHeaders\<close> and chains that are rewound are not among them. \<open>Eng_Properties\<close>: verification accepts exactly
  the headers of the reference, sealed headers are accepted, the vote is as specified, exactly one signer is in turn, and what the
  hash of a header leaves open. The chain is a parameter; what is needed of it is \<open>chain_ok\<close>. The function
  that signs a seal is total: the error return after it is left out. The walk back to a snapshot recurses
  on the number of the block, so it needs no bound.

  \<^bold>\<open>Transaction lists.\<close> \<open>Tx_Heap\<close> writes out the heaps of the standard library behind the interface \<open>go_heap\<close>; \<open>Tx_List\<close> models the map of the
  transactions of an account by nonce, the list of an account and the list by price of \<open>core/tx_list.go\<close>. \<open>Tx_Sorted\<close> and \<open>Tx_Runs\<close> show that the map with
  its heap and its cached order implements a plain list, \<open>Tx_Priced\<close> what the list by price drops. \<open>Tx_By_Price\<close> models the order in which the
  miner takes transactions (\<open>core/types/transaction.go\<close>) and its loop \<open>commitTransactions\<close>. \<open>Tx_Properties\<close>: the map refines the list, filters are exact, the cheapest
  transactions are discarded, and a block has the transactions of every account in order.

  \<^bold>\<open>The transaction pool.\<close> \<open>Cross_Proof\<close> models the hash of a transaction, the root of a list of transactions and the check of a proof over the levels of
  chains, \<open>Tx_Pool\<close> validation, insertion and removal, \<open>Tx_Pool_Ops\<close> promotion, demotion, the limits, resets and batches. Parameters are the hash
  functions and decoders (\<open>crossEnv\<close>), sender recovery, sizes and the order of the priority queue (\<open>poolEnv\<close>), and the state of the chain at each operation (\<open>poolView\<close>).
  \<open>Tx_Pool_Invariant\<close> and \<open>Tx_Pool_Kept\<close> have the invariant of the pool and that every operation keeps it, \<open>Tx_Pool_Bounds\<close> the limit on pending
  transactions: the loops that even out the lists run as many rounds as the list that bounds them has transactions (\<open>roundsFor\<close>), which is shown to be enough.
  \<open>Pool_Properties\<close>: the lists of reachable pools are consistent, the limit holds, the check of proofs is exact, a proof is used once, and what the
  hash of a transaction leaves open.

  \<^bold>\<open>The chain of headers.\<close> \<open>Chain_Headers\<close> models the tables of the database that hold headers, the caches (\<open>hashicorp/golang-lru\<close>) and every operation of
  \<open>HeaderChain\<close>. \<open>Chain_Canonical\<close> states the invariant and the interface \<open>cache\<close>, and shows that renumbering restores the invariant; \<open>Chain_Write\<close> has
  the writing of headers and the reachable chains, \<open>Chain_Rewind\<close> rewinding. \<open>Chain_Properties\<close>: canonical numbers link the
  current header to the first one on every chain that is grown by writing and importing headers (\<open>hc_reach\<close>), the current header is the heaviest, writing and rewinding do what they should, and how a rewind can make a later write
  panic. The hash of a header covers neither its number nor its parent; the theorems are about sets of headers that the hash identifies
  (\<open>universe\<close>). The loops over ancestors get as many rounds as the number of the header plus one, which is shown to be enough on reachable chains.

  \<^bold>\<open>The chain of blocks.\<close> \<open>Chain_Blocks\<close> models the rest of the database and \<open>BlockChain\<close> with the validation of blocks (\<open>core/blockchain.go\<close>,
  \<open>core/block_validator.go\<close>): an import runs block processing (\<open>Zk_Processor\<close>) on the state of the parent, checks the transaction root (\<open>Cross_Proof\<close>) and
  writes to the chain of headers. \<open>Chain_Reorg\<close> shows that a reorganisation finds the block that both chains share, \<open>Chain_Insert\<close> that writing a
  block keeps the invariant, \<open>Chain_Import\<close> has imports and the reachable chains. \<open>Block_Properties\<close>: imported blocks are valid, canonical numbers link the current block
  to the first one, writing returns, and the heads that a reorganisation leaves behind. The loops over ancestors get as many rounds as the number of the
  block plus one. Blocks are taken from a set that the hash identifies (\<open>blockUniverse\<close>); the answers of the engine are arguments. The
  reachable chains (\<open>bc_reach\<close>) are those that imports and writes of blocks make; \<open>Rollback\<close> and the import of headers alone are modelled and not part of them.

  \<^bold>\<open>Not modelled.\<close> The byte code interpreter, the precompiled contracts, tries and RLP are inherited from go-ethereum and are
  parameters or the maps they implement. The proof system, the Merkle tree and the pairing library are C and C++ code behind bindings. Networking,
  synchronisation, the user interface and the goroutines around the event loops are input and output. The test
  round of the threshold scheme through the replica (\<open>pbft-core.go\<close>, 826 to 1086) is a prototype beside the protocol. Of \<open>core/blockchain.go\<close>, the
  rewinding of blocks, resets of a damaged database, the import of receipts for fast synchronisation and events are left out.
\<close>

end
